(* ===== verification/Prelude.thy ===== *)
theory Prelude
  imports Main "HOL-Library.Word" "HOL-Library.Char_ord" "HOL-Library.List_Lexorder"
    "HOL-Library.Monad_Syntax" "HOL-Library.Sublist"
begin

text \<open>
  Shared vocabulary of the development: machine integers and byte strings, the result type of
  fallible Rust code, the little-endian codecs of the standard library, UTF-8 validity and the
  string operations the sources use, fixed-size buffers updated in place, and ordered maps
  (\<^verbatim>\<open>alloc::collections::BTreeMap\<close>) as strictly sorted association lists. Every component
  theory imports this one. The collections \<open>res_simps\<close>, \<open>buf_simps\<close> and \<open>bt_simps\<close>
  carry the facts that the component proofs hand to the simplifier.
\<close>

unbundle bit_operations_syntax

section \<open>Machine integers, bytes and results\<close>

type_synonym u8 = "8 word"
type_synonym u16 = "16 word"
type_synonym u32 = "32 word"
type_synonym u64 = "64 word"
type_synonym bytes = "u8 list"

text \<open>\<open>Result<T, E>\<close> is a sum: \<open>Inl\<close> is \<open>Err\<close>, \<open>Inr\<close> is \<open>Ok\<close>. The question-mark operator is
  \<open>rbind\<close>; \<open>ok_or\<close> and \<open>map_err\<close> are the standard library's methods.\<close>

named_theorems res_simps

fun rbind :: "'e + 'a \<Rightarrow> ('a \<Rightarrow> 'e + 'b) \<Rightarrow> 'e + 'b" where
  "rbind (Inl e) f = Inl e"
| "rbind (Inr x) f = f x"

definition ok_or :: "'a option \<Rightarrow> 'e \<Rightarrow> 'e + 'a" where
  "ok_or x e = (case x of None \<Rightarrow> Inl e | Some v \<Rightarrow> Inr v)"

definition map_err :: "('e \<Rightarrow> 'f) \<Rightarrow> 'e + 'a \<Rightarrow> 'f + 'a" where
  "map_err f r = (case r of Inl e \<Rightarrow> Inl (f e) | Inr v \<Rightarrow> Inr v)"

definition is_ok :: "'e + 'a \<Rightarrow> bool" where
  "is_ok r = (case r of Inl _ \<Rightarrow> False | Inr _ \<Rightarrow> True)"

definition ok :: "'e + 'a \<Rightarrow> 'a option" where
  "ok r = (case r of Inl _ \<Rightarrow> None | Inr v \<Rightarrow> Some v)"

definition is_some_and :: "('a \<Rightarrow> bool) \<Rightarrow> 'a option \<Rightarrow> bool" where
  "is_some_and p x = (case x of None \<Rightarrow> False | Some v \<Rightarrow> p v)"

definition is_none_or :: "('a \<Rightarrow> bool) \<Rightarrow> 'a option \<Rightarrow> bool" where
  "is_none_or p x = (case x of None \<Rightarrow> True | Some v \<Rightarrow> p v)"

lemma rbind_Inr_iff [res_simps]: "rbind r f = Inr y \<longleftrightarrow> (\<exists>x. r = Inr x \<and> f x = Inr y)"
  by (cases r) auto

lemma ok_or_Inr_iff [res_simps]: "ok_or x e = Inr v \<longleftrightarrow> x = Some v"
  by (cases x) (auto simp: ok_or_def)

lemma ok_or_simps [simp]: "ok_or None e = Inl e" "ok_or (Some v) e = Inr v"
  by (simp_all add: ok_or_def)

lemma map_err_simps [simp]: "map_err f (Inl e) = Inl (f e)" "map_err f (Inr v) = Inr v"
  by (simp_all add: map_err_def)

lemma map_err_Inr_iff [res_simps]: "map_err f r = Inr v \<longleftrightarrow> r = Inr v"
  by (cases r) auto

lemma is_ok_simps [simp]: "is_ok (Inr v)" "\<not> is_ok (Inl e)"
  by (simp_all add: is_ok_def)

lemma ok_simps [simp]: "ok (Inl e) = None" "ok (Inr v) = Some v"
  by (simp_all add: ok_def)

lemma ok_Some_iff [res_simps]: "ok r = Some v \<longleftrightarrow> r = Inr v"
  by (cases r) auto

lemma is_some_and_simps [simp]: "\<not> is_some_and p None" "is_some_and p (Some v) = p v"
  by (simp_all add: is_some_and_def)

lemma is_none_or_simps [simp]: "is_none_or p None" "is_none_or p (Some v) = p v"
  by (simp_all add: is_none_or_def)

section \<open>Little-endian codecs\<close>

text \<open>\<open>to_le_bytes\<close> and \<open>from_le_bytes\<close> of the unsigned integers, through one codec on the
  numeric value: \<open>le_enc n v\<close> is the low \<open>n\<close> bytes of \<open>v\<close>, least significant first.\<close>

fun le_enc :: "nat \<Rightarrow> nat \<Rightarrow> bytes" where
  "le_enc 0 v = []"
| "le_enc (Suc n) v = word_of_nat v # le_enc n (v div 256)"

fun le_dec :: "bytes \<Rightarrow> nat" where
  "le_dec [] = 0"
| "le_dec (b # bs) = unat b + 256 * le_dec bs"

definition to_le_bytes :: "'w::len word \<Rightarrow> bytes" where
  "to_le_bytes w = le_enc (LENGTH('w) div 8) (unat w)"

definition from_le_bytes :: "bytes \<Rightarrow> 'w::len word" where
  "from_le_bytes bs = word_of_nat (le_dec bs)"

definition to_be_bytes :: "'w::len word \<Rightarrow> bytes" where
  "to_be_bytes w = rev (to_le_bytes w)"

definition from_be_bytes :: "bytes \<Rightarrow> 'w::len word" where
  "from_be_bytes bs = from_le_bytes (rev bs)"

lemma unat_lt: "unat (w :: 'w::len word) < 2 ^ LENGTH('w)"
  by (rule unsigned_less)

lemma length_le_enc [simp]: "length (le_enc n v) = n"
  by (induction n arbitrary: v) auto

lemma unat_byte_of_nat: "unat (word_of_nat v :: u8) = v mod 256"
  by (simp add: unat_of_nat)

lemma le_dec_enc: "le_dec (le_enc n v) = v mod 256 ^ n"
proof (induction n arbitrary: v)
  case (Suc n)
  have "le_dec (le_enc (Suc n) v) = v mod 256 + 256 * (v div 256 mod 256 ^ n)"
    by (simp add: Suc unat_byte_of_nat)
  also have "\<dots> = v mod 256 ^ Suc n"
    by (simp add: mod_mult2_eq [of v 256 "256 ^ n"] add.commute)
  finally show ?case .
qed simp

lemma le_enc_dec: "le_enc (length bs) (le_dec bs) = bs"
proof (induction bs)
  case (Cons b bs)
  have lt: "unat b < 256"
    using unat_lt [of b] by simp
  have "word_of_nat (unat b + 256 * le_dec bs) = (word_of_nat (unat b) + 256 * word_of_nat (le_dec bs) :: u8)"
    by simp
  also have "(256 :: u8) = 0"
    by simp
  finally have "word_of_nat (unat b + 256 * le_dec bs) = b"
    by simp
  moreover have "(unat b + 256 * le_dec bs) div 256 = le_dec bs"
    using lt by simp
  ultimately show ?case
    using Cons by (simp del: of_nat_add of_nat_mult)
qed simp

lemma le_dec_bound: "le_dec bs < 256 ^ length bs"
proof (induction bs)
  case (Cons b bs)
  have "unat b < 256"
    using unat_lt [of b] by simp
  moreover have "256 * le_dec bs + 256 \<le> 256 * 256 ^ length bs"
    using Cons by simp
  ultimately show ?case
    by simp
qed simp

lemma from_to_le_bytes:
  assumes "8 dvd LENGTH('w::len)"
  shows "from_le_bytes (to_le_bytes (w :: 'w word)) = w"
proof -
  have "(256 :: nat) ^ (LENGTH('w) div 8) = 2 ^ (8 * (LENGTH('w) div 8))"
    by (simp add: power_mult)
  also have "8 * (LENGTH('w) div 8) = LENGTH('w)"
    using assms by simp
  finally have "unat w mod 256 ^ (LENGTH('w) div 8) = unat w"
    using unat_lt [of w] by simp
  then show ?thesis
    by (simp add: from_le_bytes_def to_le_bytes_def le_dec_enc)
qed

lemma to_from_le_bytes:
  assumes "8 dvd LENGTH('w::len)" and "length bs = LENGTH('w) div 8"
  shows "to_le_bytes (from_le_bytes bs :: 'w word) = bs"
proof -
  have "(256 :: nat) ^ (LENGTH('w) div 8) = 2 ^ (8 * (LENGTH('w) div 8))"
    by (simp add: power_mult)
  also have "8 * (LENGTH('w) div 8) = LENGTH('w)"
    using assms by simp
  finally have "le_dec bs < 2 ^ LENGTH('w)"
    using le_dec_bound [of bs] assms(2) by simp
  then have "unat (word_of_nat (le_dec bs) :: 'w word) = le_dec bs"
    by (simp add: unat_of_nat)
  then show ?thesis
    using le_enc_dec [of bs] assms(2) by (simp add: from_le_bytes_def to_le_bytes_def)
qed

lemma from_to_le_bytes_u16 [simp]: "from_le_bytes (to_le_bytes (w :: u16)) = w"
  and from_to_le_bytes_u32 [simp]: "from_le_bytes (to_le_bytes (x :: u32)) = x"
  and from_to_le_bytes_u64 [simp]: "from_le_bytes (to_le_bytes (y :: u64)) = y"
  by (simp_all add: from_to_le_bytes)

lemma length_to_le_bytes_u16 [simp]: "length (to_le_bytes (w :: u16)) = 2"
  and length_to_le_bytes_u32 [simp]: "length (to_le_bytes (x :: u32)) = 4"
  and length_to_le_bytes_u64 [simp]: "length (to_le_bytes (y :: u64)) = 8"
  by (simp_all add: to_le_bytes_def)

lemma from_to_be_bytes_u32 [simp]: "from_be_bytes (to_be_bytes (x :: u32)) = x"
  by (simp add: from_be_bytes_def to_be_bytes_def)

lemma length_to_be_bytes_u32 [simp]: "length (to_be_bytes (x :: u32)) = 4"
  by (simp add: to_be_bytes_def)

text \<open>Word-level equations for both directions, so that evaluation stays in binary.\<close>

lemma le_enc_unat: "le_enc n (unat w) = map (\<lambda>i. ucast (drop_bit (8 * i) w)) [0..<n]"
proof (induction n arbitrary: w)
  case (Suc n)
  have "unat w div 256 = unat (drop_bit 8 w)"
    by (simp add: unat_drop_bit_eq drop_bit_eq_div [where ?'a = nat])
  then have "le_enc n (unat w div 256) = map (\<lambda>i. ucast (drop_bit (8 * i) (drop_bit 8 w))) [0..<n]"
    by (simp add: Suc)
  then show ?case
    by (simp add: upt_conv_Cons map_Suc_upt [symmetric] comp_def add.commute del: upt_Suc)
qed simp

lemma to_le_bytes_code [code]:
  "to_le_bytes (w :: 'w::len word) = map (\<lambda>i. ucast (drop_bit (8 * i) w)) [0..<LENGTH('w) div 8]"
  by (simp add: to_le_bytes_def le_enc_unat)

lemma from_le_bytes_code [code]:
  "from_le_bytes bs = foldr (\<lambda>b acc. ucast b + 256 * acc) bs 0"
  by (induction bs) (simp_all add: from_le_bytes_def of_nat_unat)

section \<open>Strings\<close>

text \<open>A Rust \<open>str\<close> is its UTF-8 byte sequence, here a list of 8-bit characters. \<open>as_bytes\<close> and
  \<open>str_of_bytes\<close> are mutually inverse views of the same bytes; \<open>utf8_valid\<close> is the acceptance
  condition of \<^verbatim>\<open>core::str::from_utf8\<close>, the well-formed byte sequences of the Unicode
  standard (table 3-7).\<close>

definition as_bytes :: "string \<Rightarrow> bytes" where
  "as_bytes s = map (\<lambda>c. word_of_nat (of_char c)) s"

definition str_of_bytes :: "bytes \<Rightarrow> string" where
  "str_of_bytes bs = map (\<lambda>b. char_of (unat b)) bs"

definition utf8_cont :: "u8 \<Rightarrow> bool" where
  "utf8_cont b \<longleftrightarrow> 128 \<le> b \<and> b \<le> 191"

fun utf8_valid :: "bytes \<Rightarrow> bool" where
  "utf8_valid [] = True"
| "utf8_valid (b # bs) =
     (if b < 128 then utf8_valid bs
      else if 194 \<le> b \<and> b \<le> 223 then
        (case bs of c # r \<Rightarrow> utf8_cont c \<and> utf8_valid r | _ \<Rightarrow> False)
      else if 224 \<le> b \<and> b \<le> 239 then
        (case bs of c # d # r \<Rightarrow>
             (if b = 224 then 160 \<le> c \<and> c \<le> 191
              else if b = 237 then 128 \<le> c \<and> c \<le> 159 else utf8_cont c)
             \<and> utf8_cont d \<and> utf8_valid r
         | _ \<Rightarrow> False)
      else if 240 \<le> b \<and> b \<le> 244 then
        (case bs of c # d # e # r \<Rightarrow>
             (if b = 240 then 144 \<le> c \<and> c \<le> 191
              else if b = 244 then 128 \<le> c \<and> c \<le> 143 else utf8_cont c)
             \<and> utf8_cont d \<and> utf8_cont e \<and> utf8_valid r
         | _ \<Rightarrow> False)
      else False)"

definition from_utf8 :: "bytes \<Rightarrow> string option" where
  "from_utf8 bs = (if utf8_valid bs then Some (str_of_bytes bs) else None)"

definition ascii_digit :: "char \<Rightarrow> bool" where
  "ascii_digit c \<longleftrightarrow> CHR ''0'' \<le> c \<and> c \<le> CHR ''9''"

definition ascii_alphanumeric :: "char \<Rightarrow> bool" where
  "ascii_alphanumeric c \<longleftrightarrow> ascii_digit c \<or> CHR ''A'' \<le> c \<and> c \<le> CHR ''Z'' \<or> CHR ''a'' \<le> c \<and> c \<le> CHR ''z''"

text \<open>\<open>str::split\<close> on one character: the empty string has one (empty) part.\<close>

fun split_on :: "char \<Rightarrow> string \<Rightarrow> string list" where
  "split_on d [] = [[]]"
| "split_on d (c # cs) =
     (if c = d then [] # split_on d cs
      else (case split_on d cs of [] \<Rightarrow> [[c]] | w # ws \<Rightarrow> (c # w) # ws))"

lemma length_as_bytes [simp]: "length (as_bytes s) = length s"
  by (simp add: as_bytes_def)

lemma length_str_of_bytes [simp]: "length (str_of_bytes bs) = length bs"
  by (simp add: str_of_bytes_def)

lemma of_char_lt_256: "of_char c < (256 :: nat)"
  using of_char_mod_256 [of c, where ?'a = nat] by (metis mod_less_divisor zero_less_numeral)

lemma str_of_as_bytes [simp]: "str_of_bytes (as_bytes s) = s"
  by (induction s) (simp_all add: str_of_bytes_def as_bytes_def unat_of_nat)

lemma as_bytes_of_str [simp]: "as_bytes (str_of_bytes bs) = bs"
proof (induction bs)
  case (Cons b bs)
  have "unat b < 256"
    using unat_lt [of b] by simp
  then have "(of_char (char_of (unat b)) :: nat) = unat b"
    by (simp add: of_char_of)
  with Cons show ?case
    by (simp add: as_bytes_def str_of_bytes_def)
qed (simp add: as_bytes_def str_of_bytes_def)

lemma as_bytes_inj [simp]: "as_bytes s = as_bytes t \<longleftrightarrow> s = t"
  by (metis str_of_as_bytes)

lemma utf8_valid_ascii: "(\<And>b. b \<in> set bs \<Longrightarrow> b < 128) \<Longrightarrow> utf8_valid bs"
  by (induction bs) auto

lemma byte_of_char_lt_128:
  assumes "c \<le> CHR 0x7F"
  shows "(word_of_nat (of_char c) :: u8) < 128"
proof -
  have "of_char c \<le> (127 :: nat)"
    using assms by (simp add: less_eq_char_def)
  then show ?thesis
    by (simp add: word_less_nat_alt unat_of_nat)
qed

lemma utf8_valid_as_bytes_ascii: "(\<And>c. c \<in> set s \<Longrightarrow> c \<le> CHR 0x7F) \<Longrightarrow> utf8_valid (as_bytes s)"
  by (rule utf8_valid_ascii) (auto simp: as_bytes_def intro: byte_of_char_lt_128)

lemma ascii_alphanumeric_le: "ascii_alphanumeric c \<Longrightarrow> c \<le> CHR 0x7F"
  by (auto simp: ascii_alphanumeric_def ascii_digit_def less_eq_char_def)

lemma from_utf8_as_bytes [simp]: "utf8_valid (as_bytes s) \<Longrightarrow> from_utf8 (as_bytes s) = Some s"
  by (simp add: from_utf8_def)

lemma from_utf8_Some_iff: "from_utf8 bs = Some s \<longleftrightarrow> utf8_valid bs \<and> bs = as_bytes s"
  by (auto simp: from_utf8_def)

lemma split_on_nonempty [simp]: "split_on d s \<noteq> []"
  by (cases s) (auto split: list.splits)

lemma split_on_chars: "c \<in> set s \<Longrightarrow> c \<noteq> d \<Longrightarrow> \<exists>w \<in> set (split_on d s). c \<in> set w"
  by (induction s) (auto split: list.splits)

section \<open>Fixed-size buffers\<close>

text \<open>Slices of a buffer and in-place writes: \<open>copy_at buf pos bs\<close> is
  \<^verbatim>\<open>buf[pos..pos + bs.len()].copy_from_slice(bs)\<close>. The sources write only ranges they have
  checked, which \<open>length_copy_at\<close> turns into the buffer keeping its size.\<close>

named_theorems buf_simps

definition slice :: "'a list \<Rightarrow> nat \<Rightarrow> nat \<Rightarrow> 'a list" where
  "slice buf a b = take (b - a) (drop a buf)"

definition copy_at :: "'a list \<Rightarrow> nat \<Rightarrow> 'a list \<Rightarrow> 'a list" where
  "copy_at buf pos bs = take pos buf @ bs @ drop (pos + length bs) buf"

definition copy_within :: "'a list \<Rightarrow> nat \<Rightarrow> nat \<Rightarrow> nat \<Rightarrow> 'a list" where
  "copy_within buf a b dest = copy_at buf dest (slice buf a b)"

fun position :: "('a \<Rightarrow> bool) \<Rightarrow> 'a list \<Rightarrow> nat option" where
  "position p [] = None"
| "position p (x # xs) = (if p x then Some 0 else map_option Suc (position p xs))"

lemma length_copy_at [simp]: "pos + length bs \<le> length buf \<Longrightarrow> length (copy_at buf pos bs) = length buf"
  by (simp add: copy_at_def)

lemma length_slice [simp]: "length (slice buf a b) = min (b - a) (length buf - a)"
  by (simp add: slice_def min.commute)

lemma take_copy_at_end [buf_simps]:
  "pos + length bs \<le> length buf \<Longrightarrow> take (pos + length bs) (copy_at buf pos bs) = take pos buf @ bs"
  by (simp add: copy_at_def)

lemma take_copy_at_before [buf_simps]:
  "n \<le> pos \<Longrightarrow> pos \<le> length buf \<Longrightarrow> take n (copy_at buf pos bs) = take n buf"
  by (simp add: copy_at_def min_def)

lemma slice_copy_at_same [buf_simps]:
  "pos + length bs \<le> length buf \<Longrightarrow> slice (copy_at buf pos bs) pos (pos + length bs) = bs"
  by (simp add: copy_at_def slice_def)

lemma copy_at_copy_at_adjacent [buf_simps]:
  "pos + length bs + length cs \<le> length buf \<Longrightarrow>
   copy_at (copy_at buf pos bs) (pos + length bs) cs = copy_at buf pos (bs @ cs)"
  by (simp add: copy_at_def algebra_simps)

lemma copy_at_Nil [simp]: "copy_at buf pos [] = buf"
  by (simp add: copy_at_def)

lemma position_Some_iff:
  "position p xs = Some i \<longleftrightarrow> i < length xs \<and> p (xs ! i) \<and> (\<forall>j < i. \<not> p (xs ! j))"
proof (induction xs arbitrary: i)
  case (Cons x xs)
  show ?case
  proof (cases i)
    case (Suc k)
    then show ?thesis
      using Cons.IH [of k] by (auto simp: less_Suc_eq_0_disj)
  qed auto
qed simp

lemma position_None_iff: "position p xs = None \<longleftrightarrow> (\<forall>x \<in> set xs. \<not> p x)"
  by (induction xs) auto

lemma position_append_hit:
  "(\<forall>x \<in> set xs. \<not> p x) \<Longrightarrow> p y \<Longrightarrow> position p (xs @ y # ys) = Some (length xs)"
  by (induction xs) auto

lemma position_Some_split:
  "position p xs = Some i \<Longrightarrow> \<exists>ys y zs. xs = ys @ y # zs \<and> length ys = i \<and> p y \<and> (\<forall>x \<in> set ys. \<not> p x)"
proof (induction xs arbitrary: i)
  case (Cons x xs)
  show ?case
  proof (cases "p x")
    case True
    with Cons.prems show ?thesis
      by (intro exI [of _ "[]"]) auto
  next
    case False
    with Cons.prems obtain k where k: "position p xs = Some k" and i: "i = Suc k"
      by auto
    from Cons.IH [OF k] obtain ys y zs
      where "xs = ys @ y # zs" "length ys = k" "p y" "\<forall>x \<in> set ys. \<not> p x"
      by blast
    with False i show ?thesis
      by (intro exI [of _ "x # ys"] exI [of _ y] exI [of _ zs]) auto
  qed
qed simp

section \<open>Ordered maps\<close>

text \<open>\<open>BTreeMap<K, V>\<close>: the association list of its entries in key order, which is the order in
  which the sources iterate it. Strict sortedness is the type's own invariant, so two maps are equal
  exactly when they hold the same entries.\<close>

named_theorems bt_simps

type_synonym ('k, 'v) btree = "('k \<times> 'v) list"

definition bt_wf :: "('k::linorder, 'v) btree \<Rightarrow> bool" where
  "bt_wf m \<longleftrightarrow> sorted_wrt (<) (map fst m)"

definition bt_get :: "('k, 'v) btree \<Rightarrow> 'k \<Rightarrow> 'v option" where
  "bt_get m k = map_of m k"

definition bt_contains :: "('k, 'v) btree \<Rightarrow> 'k \<Rightarrow> bool" where
  "bt_contains m k \<longleftrightarrow> bt_get m k \<noteq> None"

fun bt_insert :: "'k::linorder \<Rightarrow> 'v \<Rightarrow> ('k, 'v) btree \<Rightarrow> ('k, 'v) btree" where
  "bt_insert k v [] = [(k, v)]"
| "bt_insert k v ((k', v') # m) =
     (if k < k' then (k, v) # (k', v') # m
      else if k = k' then (k, v) # m
      else (k', v') # bt_insert k v m)"

definition bt_remove :: "'k \<Rightarrow> ('k, 'v) btree \<Rightarrow> ('k, 'v) btree" where
  "bt_remove k m = filter (\<lambda>e. fst e \<noteq> k) m"

definition bt_extend :: "('k::linorder, 'v) btree \<Rightarrow> ('k \<times> 'v) list \<Rightarrow> ('k, 'v) btree" where
  "bt_extend m kvs = fold (\<lambda>(k, v) acc. bt_insert k v acc) kvs m"

locale ordered_map =
  fixes emp :: "'m"
    and get :: "'m \<Rightarrow> 'k::linorder \<Rightarrow> 'v option"
    and ins :: "'k \<Rightarrow> 'v \<Rightarrow> 'm \<Rightarrow> 'm"
    and rem :: "'k \<Rightarrow> 'm \<Rightarrow> 'm"
    and entries :: "'m \<Rightarrow> ('k \<times> 'v) list"
    and wf :: "'m \<Rightarrow> bool"
  assumes wf_emp: "wf emp" and get_emp: "get emp k = None"
    and wf_ins: "wf m \<Longrightarrow> wf (ins k v m)"
    and get_ins: "wf m \<Longrightarrow> get (ins k v m) j = (if j = k then Some v else get m j)"
    and wf_rem: "wf m \<Longrightarrow> wf (rem k m)"
    and get_rem: "wf m \<Longrightarrow> get (rem k m) j = (if j = k then None else get m j)"
    and entries_sorted: "wf m \<Longrightarrow> sorted_wrt (<) (map fst (entries m))"
    and get_entries: "wf m \<Longrightarrow> get m k = map_of (entries m) k"
begin

lemma wf_fold_ins: "wf m \<Longrightarrow> wf (fold (\<lambda>(k, v) acc. ins k v acc) kvs m)"
  by (induction kvs arbitrary: m) (auto simp: wf_ins)

lemma get_fold_ins:
  "wf m \<Longrightarrow> get (fold (\<lambda>(k, v) acc. ins k v acc) kvs m) j =
     (case map_of (rev kvs) j of Some v \<Rightarrow> Some v | None \<Rightarrow> get m j)"
proof (induction kvs arbitrary: m)
  case (Cons e kvs)
  obtain k v where e: "e = (k, v)"
    by (cases e)
  show ?case
    using Cons.IH [OF wf_ins [OF Cons.prems, of k v]] Cons.prems
    by (auto simp: e get_ins map_add_def split: option.splits)
qed simp

lemma distinct_keys: "wf m \<Longrightarrow> distinct (map fst (entries m))"
  using entries_sorted strict_sorted_iff by blast

lemma get_Some_iff: "wf m \<Longrightarrow> get m k = Some v \<longleftrightarrow> (k, v) \<in> set (entries m)"
  by (simp add: get_entries distinct_keys)

lemma get_None_iff: "wf m \<Longrightarrow> get m k = None \<longleftrightarrow> k \<notin> fst ` set (entries m)"
  by (simp add: get_entries map_of_eq_None_iff)

end

lemma bt_insert_keys: "fst ` set (bt_insert k v m) = insert k (fst ` set m)"
  by (induction k v m rule: bt_insert.induct) auto

lemma bt_wf_Cons [simp]: "bt_wf ((k, v) # m) \<longleftrightarrow> (\<forall>j \<in> fst ` set m. k < j) \<and> bt_wf m"
  by (auto simp: bt_wf_def)

lemma bt_wf_Nil [simp]: "bt_wf []"
  by (simp add: bt_wf_def)

lemma bt_wf_insert [simp]: "bt_wf m \<Longrightarrow> bt_wf (bt_insert k v m)"
  by (induction k v m rule: bt_insert.induct) (auto simp: bt_insert_keys simp del: image_iff)

lemma bt_wf_filter: "bt_wf m \<Longrightarrow> bt_wf (filter P m)"
  by (induction m) auto

lemma bt_get_insert: "bt_wf m \<Longrightarrow> bt_get (bt_insert k v m) j = (if j = k then Some v else bt_get m j)"
  by (induction k v m rule: bt_insert.induct) (auto simp: bt_get_def)

lemma bt_get_remove: "bt_get (bt_remove k m) j = (if j = k then None else bt_get m j)"
  by (induction m) (auto simp: bt_get_def bt_remove_def)

lemma bt_wf_remove [simp]: "bt_wf m \<Longrightarrow> bt_wf (bt_remove k m)"
  by (simp add: bt_remove_def bt_wf_filter)

lemma bt_get_Nil [simp]: "bt_get [] k = None"
  by (simp add: bt_get_def)

interpretation bt: ordered_map "[]" bt_get bt_insert bt_remove "\<lambda>m. m" bt_wf
  by unfold_locales
    (simp_all add: bt_get_insert bt_get_remove, simp_all add: bt_wf_def bt_get_def)

lemmas bt_extend_get = bt.get_fold_ins [folded bt_extend_def]
lemmas bt_extend_wf = bt.wf_fold_ins [folded bt_extend_def]

lemma bt_contains_iff [bt_simps]: "bt_contains m k \<longleftrightarrow> k \<in> fst ` set m"
  by (simp add: bt_contains_def bt_get_def map_of_eq_None_iff)

end
