(* ===== verification/Wire.thy ===== *)
theory Wire
  imports Prelude
begin

text \<open>
  The link wire format, \<^verbatim>\<open>crates/reiny-link/src/wire.rs\<close>: the raw frame (\<open>seal\<close> and \<open>parse\<close>),
  its COBS wrapping (\<open>encode\<close> and \<open>decode_in_place\<close>), the endpoint hash, and the Hello table
  (\<open>hello_write\<close> and \<open>hello_parse\<close> over the byte \<open>Writer\<close> and \<open>Reader\<close>). The crates
  \<^verbatim>\<open>crc\<close> and \<^verbatim>\<open>cobs\<close> are outside the repository: their functions are the fields of a
  \<open>codec\<close>, a parameter of every definition that calls them, and the locale \<open>cobs_codec\<close> states
  what the code relies on. \<open>usize\<close> values are natural numbers.
\<close>

section \<open>Frames\<close>

record codec =
  crc16 :: "bytes \<Rightarrow> u16"
  cobs_encode :: "bytes \<Rightarrow> bytes"
  cobs_decode_in_place :: "bytes \<Rightarrow> bytes \<times> nat option"
  cobs_max :: "nat \<Rightarrow> nat"

definition HEADER :: nat where "HEADER = 9"
definition EPOCH :: u8 where "EPOCH = 2"
definition TRAILER :: nat where "TRAILER = 2"
definition OVERHEAD :: nat where "OVERHEAD = HEADER + TRAILER"
definition DELIMITER :: u8 where "DELIMITER = 0"

lemmas wire_consts = HEADER_def EPOCH_def TRAILER_def OVERHEAD_def DELIMITER_def

datatype Kind = Kind_Hello | Kind_Data | Kind_Request | Kind_Reply | Kind_Error | Kind_Ping

fun kind_as_u8 :: "Kind \<Rightarrow> u8" where
  "kind_as_u8 Kind_Hello = 0"
| "kind_as_u8 Kind_Data = 1"
| "kind_as_u8 Kind_Request = 2"
| "kind_as_u8 Kind_Reply = 3"
| "kind_as_u8 Kind_Error = 4"
| "kind_as_u8 Kind_Ping = 5"

definition kind_from_u8 :: "u8 \<Rightarrow> Kind option" where
  "kind_from_u8 b =
     (if b = 0 then Some Kind_Hello
      else if b = 1 then Some Kind_Data
      else if b = 2 then Some Kind_Request
      else if b = 3 then Some Kind_Reply
      else if b = 4 then Some Kind_Error
      else if b = 5 then Some Kind_Ping
      else None)"

record Header =
  hd_kind :: Kind
  hd_hash :: u32
  hd_seq :: u8

datatype WireError =
    Wire_TooLarge | Wire_Short | Wire_Crc | Wire_Cobs | Wire_Kind u8 | Wire_Epoch | Wire_Malformed

text \<open>FNV-1a: one step, the hash of a type name and the hash of an endpoint address.\<close>

definition fnv_step :: "u32 \<Rightarrow> u8 \<Rightarrow> u32" where
  "fnv_step h b = (h XOR ucast b) * 0x01000193"

definition type_hash :: "string \<Rightarrow> u32" where
  "type_hash name = fold (\<lambda>b h. fnv_step h b) (as_bytes name) 0x811c9dc5"

definition u32_try_from_or_max :: "nat \<Rightarrow> u32" where
  "u32_try_from_or_max n = (if int n < 2 ^ 32 then word_of_nat n else - 1)"

definition endpoint_hash :: "string \<Rightarrow> string \<Rightarrow> u32" where
  "endpoint_hash namespace port =
     fold (\<lambda>component h.
        fold (\<lambda>b h. fnv_step h b)
          (to_le_bytes (u32_try_from_or_max (length component)) @ as_bytes component) h)
       [namespace, port] 0x811c9dc5"

definition encoded_max :: "codec \<Rightarrow> nat \<Rightarrow> nat" where
  "encoded_max c raw_len = cobs_max c raw_len + 1"

definition seal :: "codec \<Rightarrow> bytes \<Rightarrow> Header \<Rightarrow> nat \<Rightarrow> WireError + bytes \<times> nat" where
  "seal c buf header payload_len =
     (let raw_len = OVERHEAD + payload_len in
      if raw_len > length buf then Inl Wire_TooLarge
      else
        let b1 = copy_at buf 0 [82, 89, EPOCH];
            b2 = b1[3 := kind_as_u8 (hd_kind header)];
            b3 = copy_at b2 4 (to_le_bytes (hd_hash header));
            b4 = b3[8 := hd_seq header];
            crc = crc16 c (take (HEADER + payload_len) b4);
            b5 = copy_at b4 (HEADER + payload_len) (to_le_bytes crc)
        in Inr (b5, raw_len))"

definition parse :: "codec \<Rightarrow> bytes \<Rightarrow> WireError + Header \<times> bytes" where
  "parse c frame =
     (if length frame < OVERHEAD then Inl Wire_Short
      else
        let body_len = length frame - TRAILER;
            expected = from_le_bytes [frame ! body_len, frame ! (body_len + 1)]
        in
          if crc16 c (take body_len frame) \<noteq> expected then Inl Wire_Crc
          else if take 3 frame \<noteq> [82, 89, EPOCH] then Inl Wire_Epoch
          else
            rbind (ok_or (kind_from_u8 (frame ! 3)) (Wire_Kind (frame ! 3))) (\<lambda>kind.
              Inr (\<lparr>hd_kind = kind,
                    hd_hash = from_le_bytes [frame ! 4, frame ! 5, frame ! 6, frame ! 7],
                    hd_seq = frame ! 8\<rparr>,
                   slice frame HEADER body_len)))"

definition encode :: "codec \<Rightarrow> bytes \<Rightarrow> bytes \<Rightarrow> WireError + bytes \<times> nat" where
  "encode c raw out =
     (if length out < cobs_max c (length raw) + 1 then Inl Wire_TooLarge
      else
        let enc = cobs_encode c raw; n = length enc
        in Inr ((copy_at out 0 enc)[n := DELIMITER], n + 1))"

definition decode_in_place :: "codec \<Rightarrow> bytes \<Rightarrow> bytes \<times> (WireError + nat)" where
  "decode_in_place c buf =
     (case cobs_decode_in_place c buf of
        (buf', None) \<Rightarrow> (buf', Inl Wire_Cobs)
      | (buf', Some n) \<Rightarrow> (buf', Inr n))"

section \<open>Hello data\<close>

definition HELLO_ACK :: u8 where "HELLO_ACK = 1"
definition HELLO_BRIDGE :: u8 where "HELLO_BRIDGE = 2"

definition PUB :: u8 where "PUB = 1"
definition SUB :: u8 where "SUB = 2"
definition SERVE :: u8 where "SERVE = 4"
definition LATCHED :: u8 where "LATCHED = 8"
definition SCHEMA_FINGERPRINT :: u8 where "SCHEMA_FINGERPRINT = 16"
definition CALLS :: u8 where "CALLS = 32"

definition SCHEMA_FINGERPRINT_VERSION :: u16 where "SCHEMA_FINGERPRINT_VERSION = 2"

lemmas flag_defs = HELLO_ACK_def HELLO_BRIDGE_def PUB_def SUB_def SERVE_def LATCHED_def
  SCHEMA_FINGERPRINT_def CALLS_def

record EndpointRef =
  ep_namespace :: string
  ep_port :: string

datatype Sources = Sources_Static "EndpointRef list" | Sources_Wire bytes

record HelloType =
  ht_name :: string
  ht_schema :: u64

record HelloEntry =
  he_hash :: u32
  he_flags :: u8
  he_schema :: u64
  he_name :: string
  he_port :: string
  he_response :: "HelloType option"
  he_sources :: Sources

record Hello =
  hello_ack :: bool
  hello_bridge :: bool
  hello_id :: string
  hello_count :: nat
  hello_table :: bytes

section \<open>The reader\<close>

record Reader =
  r_buf :: bytes
  r_pos :: nat

definition r_bytes :: "nat \<Rightarrow> Reader \<Rightarrow> (bytes \<times> Reader) option" where
  "r_bytes n r =
     (let end' = r_pos r + n in
      if end' \<le> length (r_buf r)
      then Some (slice (r_buf r) (r_pos r) end', r\<lparr>r_pos := end'\<rparr>)
      else None)"

definition r_u8 :: "Reader \<Rightarrow> (u8 \<times> Reader) option" where
  "r_u8 r = do { (b, r') \<leftarrow> r_bytes 1 r; Some (b ! 0, r') }"

definition r_u32 :: "Reader \<Rightarrow> (u32 \<times> Reader) option" where
  "r_u32 r = do { (b, r') \<leftarrow> r_bytes 4 r; Some (from_le_bytes b, r') }"

definition r_u64 :: "Reader \<Rightarrow> (u64 \<times> Reader) option" where
  "r_u64 r = do { (b, r') \<leftarrow> r_bytes 8 r; Some (from_le_bytes b, r') }"

definition r_str :: "Reader \<Rightarrow> (string \<times> Reader) option" where
  "r_str r = do {
     (len, r1) \<leftarrow> r_u8 r;
     (b, r2) \<leftarrow> r_bytes (unat len) r1;
     s \<leftarrow> from_utf8 b;
     Some (s, r2) }"

definition r_pair :: "Reader \<Rightarrow> (EndpointRef \<times> Reader) option" where
  "r_pair r = do {
     (ns, r1) \<leftarrow> r_str r;
     (p, r2) \<leftarrow> r_str r1;
     Some (\<lparr>ep_namespace = ns, ep_port = p\<rparr>, r2) }"

fun r_skip_pairs :: "nat \<Rightarrow> Reader \<Rightarrow> Reader option" where
  "r_skip_pairs 0 r = Some r"
| "r_skip_pairs (Suc n) r = do { (_, r') \<leftarrow> r_pair r; r_skip_pairs n r' }"

definition r_response :: "Reader \<Rightarrow> (HelloType option \<times> Reader) option" where
  "r_response r = do {
     (tag, r1) \<leftarrow> r_u8 r;
     if tag = 0 then Some (None, r1)
     else if tag = 1 then do {
       (name, r2) \<leftarrow> r_str r1;
       (schema, r3) \<leftarrow> r_u64 r2;
       Some (Some \<lparr>ht_name = name, ht_schema = schema\<rparr>, r3) }
     else None }"

definition r_entry :: "Reader \<Rightarrow> (HelloEntry \<times> Reader) option" where
  "r_entry r = do {
     (hash, r1) \<leftarrow> r_u32 r;
     (encoded_flags, r2) \<leftarrow> r_u8 r1;
     if encoded_flags AND SCHEMA_FINGERPRINT = 0 then None
     else do {
       (port, r3) \<leftarrow> r_str r2;
       (name, r4) \<leftarrow> r_str r3;
       (schema, r5) \<leftarrow> r_u64 r4;
       (response, r6) \<leftarrow> r_response r5;
       (count, r7) \<leftarrow> r_u8 r6;
       r8 \<leftarrow> r_skip_pairs (unat count) r7;
       Some (\<lparr>he_hash = hash, he_flags = encoded_flags AND NOT SCHEMA_FINGERPRINT,
              he_schema = schema, he_name = name, he_port = port, he_response = response,
              he_sources = Sources_Wire (slice (r_buf r8) (r_pos r7) (r_pos r8))\<rparr>, r8) } }"

text \<open>Every read moves the position forward inside the buffer; this is what ends the iterators.\<close>

definition r_step :: "nat \<Rightarrow> Reader \<Rightarrow> Reader \<Rightarrow> bool" where
  "r_step n r r' \<longleftrightarrow> r_buf r' = r_buf r \<and> r_pos r + n \<le> r_pos r' \<and> r_pos r' \<le> length (r_buf r)"

lemma r_bytes_step: "r_bytes n r = Some (b, r') \<Longrightarrow> r_step n r r'"
  by (auto simp: r_bytes_def r_step_def Let_def split: if_splits)

lemma r_step_trans: "r_step m r r' \<Longrightarrow> r_step n r' r'' \<Longrightarrow> r_step (m + n) r r''"
  by (auto simp: r_step_def)

lemma r_step_mono: "r_step m r r' \<Longrightarrow> n \<le> m \<Longrightarrow> r_step n r r'"
  by (auto simp: r_step_def)

lemma r_u8_step: "r_u8 r = Some (b, r') \<Longrightarrow> r_step 1 r r'"
  by (auto simp: r_u8_def bind_eq_Some_conv dest: r_bytes_step)

lemma r_str_step: "r_str r = Some (s, r') \<Longrightarrow> r_step 1 r r'"
  by (auto simp: r_str_def bind_eq_Some_conv intro: r_step_mono dest!: r_u8_step r_bytes_step
      dest: r_step_trans)

lemma r_pair_step: "r_pair r = Some (e, r') \<Longrightarrow> r_step 1 r r'"
  by (auto simp: r_pair_def bind_eq_Some_conv intro: r_step_mono dest!: r_str_step
      dest: r_step_trans)

function pairs_iter :: "Reader \<Rightarrow> EndpointRef list" where
  "pairs_iter r = (case r_pair r of None \<Rightarrow> [] | Some (e, r') \<Rightarrow> e # pairs_iter r')"
  by pat_completeness auto
termination
  by (relation "measure (\<lambda>r. length (r_buf r) - r_pos r)")
    (auto dest!: r_pair_step simp: r_step_def)

declare pairs_iter.simps [simp del]

fun sources_iter :: "Sources \<Rightarrow> EndpointRef list" where
  "sources_iter (Sources_Static xs) = xs"
| "sources_iter (Sources_Wire b) = pairs_iter \<lparr>r_buf = b, r_pos = 0\<rparr>"

fun entries_iter :: "nat \<Rightarrow> Reader \<Rightarrow> HelloEntry list" where
  "entries_iter 0 r = []"
| "entries_iter (Suc n) r =
     (case r_entry r of None \<Rightarrow> [] | Some (e, r') \<Rightarrow> e # entries_iter n r')"

definition hello_entries :: "Hello \<Rightarrow> HelloEntry list" where
  "hello_entries h = entries_iter (hello_count h) \<lparr>r_buf = hello_table h, r_pos = 0\<rparr>"

section \<open>Names and the Hello parser\<close>

definition valid_port :: "string \<Rightarrow> bool" where
  "valid_port port \<longleftrightarrow>
     port \<noteq> [] \<and> list_all (\<lambda>b. ascii_alphanumeric b \<or> b \<in> set ''_.-'') port
     \<and> port \<noteq> ''.'' \<and> port \<noteq> ''..''"

definition valid_namespace :: "string \<Rightarrow> bool" where
  "valid_namespace namespace \<longleftrightarrow>
     namespace \<noteq> [] \<and> list_all valid_port (split_on CHR ''/'' namespace)"

definition valid_type :: "string \<Rightarrow> bool" where
  "valid_type name \<longleftrightarrow>
     name \<noteq> [] \<and>
     list_all (\<lambda>part. part \<noteq> [] \<and> list_all (\<lambda>b. ascii_alphanumeric b \<or> b = CHR ''_'') part
        \<and> \<not> ascii_digit (hd part)) (split_on CHR ''.'' name)"

definition direction_of :: "HelloEntry \<Rightarrow> u8" where
  "direction_of e = he_flags e AND NOT LATCHED"

definition entry_shape_bad :: "string \<Rightarrow> HelloEntry \<Rightarrow> bool" where
  "entry_shape_bad ident e \<longleftrightarrow>
     (let direction = direction_of e in
      direction \<notin> set [PUB, SUB, SERVE, CALLS]
      \<or> (he_flags e AND LATCHED \<noteq> 0 \<and> direction \<noteq> PUB)
      \<or> \<not> valid_port (he_port e)
      \<or> \<not> valid_type (he_name e)
      \<or> he_hash e \<noteq> endpoint_hash ident (he_port e)
      \<or> (direction \<in> set [SERVE, CALLS]) \<noteq> (he_response e \<noteq> None)
      \<or> is_some_and (\<lambda>response. \<not> valid_type (ht_name response)) (he_response e))"

definition source_count_bad :: "HelloEntry \<Rightarrow> bool" where
  "source_count_bad e \<longleftrightarrow>
     (let direction = direction_of e; source_count = length (sources_iter (he_sources e)) in
      (direction \<in> set [PUB, SERVE] \<and> source_count \<noteq> 0)
      \<or> (direction = SUB \<and> source_count = 0)
      \<or> (direction = CALLS \<and> source_count \<noteq> 1))"

text \<open>The loop over the sources of one entry: \<open>seen\<close> holds the sources before the current one.\<close>

fun sources_bad :: "EndpointRef list \<Rightarrow> EndpointRef list \<Rightarrow> bool" where
  "sources_bad seen [] = False"
| "sources_bad seen (s # ss) =
     (\<not> valid_namespace (ep_namespace s) \<or> \<not> valid_port (ep_port s) \<or> s \<in> set seen
      \<or> sources_bad (seen @ [s]) ss)"

definition is_output :: "u8 \<Rightarrow> bool" where
  "is_output flags \<longleftrightarrow> flags AND (PUB OR SERVE) \<noteq> 0"

definition previous_conflict :: "HelloEntry \<Rightarrow> HelloEntry \<Rightarrow> bool" where
  "previous_conflict previous entry \<longleftrightarrow>
     (let shared_source = list_ex (\<lambda>s. s \<in> set (sources_iter (he_sources entry)))
            (sources_iter (he_sources previous));
          same_slot = (is_output (he_flags previous) = is_output (he_flags entry))
      in (shared_source
          \<and> (he_name previous \<noteq> he_name entry
             \<or> he_schema previous \<noteq> he_schema entry
             \<or> he_response previous \<noteq> he_response entry
             \<or> (he_flags previous AND CALLS \<noteq> 0) \<noteq> (he_flags entry AND CALLS \<noteq> 0)))
         \<or> (he_port previous = he_port entry \<and> same_slot)
         \<or> (he_hash previous = he_hash entry \<and> he_port previous \<noteq> he_port entry))"

fun hello_check :: "Hello \<Rightarrow> nat \<Rightarrow> nat \<Rightarrow> Reader \<Rightarrow> WireError + Reader" where
  "hello_check hello 0 index r = Inr r"
| "hello_check hello (Suc n) index r =
     (case r_entry r of
        None \<Rightarrow> Inl Wire_Malformed
      | Some (entry, r') \<Rightarrow>
          if entry_shape_bad (hello_id hello) entry then Inl Wire_Malformed
          else if source_count_bad entry then Inl Wire_Malformed
          else if sources_bad [] (sources_iter (he_sources entry)) then Inl Wire_Malformed
          else if list_ex (\<lambda>previous. previous_conflict previous entry)
                    (take index (hello_entries hello)) then Inl Wire_Malformed
          else hello_check hello n (Suc index) r')"

definition hello_addresses :: "string \<Rightarrow> HelloEntry list \<Rightarrow> EndpointRef list" where
  "hello_addresses ident es =
     concat (map (\<lambda>e. \<lparr>ep_namespace = ident, ep_port = he_port e\<rparr> # sources_iter (he_sources e)) es)"

definition ep_hash :: "EndpointRef \<Rightarrow> u32" where
  "ep_hash a = endpoint_hash (ep_namespace a) (ep_port a)"

fun address_hashes_bad :: "EndpointRef list \<Rightarrow> EndpointRef list \<Rightarrow> bool" where
  "address_hashes_bad seen [] = False"
| "address_hashes_bad seen (a # as) =
     (list_ex (\<lambda>previous. previous \<noteq> a \<and> ep_hash previous = ep_hash a) seen
      \<or> address_hashes_bad (seen @ [a]) as)"

definition validate_address_hashes :: "Hello \<Rightarrow> WireError + unit" where
  "validate_address_hashes hello =
     (if address_hashes_bad [] (hello_addresses (hello_id hello) (hello_entries hello))
      then Inl Wire_Malformed else Inr ())"

definition hello_parse :: "bytes \<Rightarrow> WireError + Hello" where
  "hello_parse payload =
     (case r_u8 \<lparr>r_buf = payload, r_pos = 0\<rparr> of
        None \<Rightarrow> Inl Wire_Malformed
      | Some (hello_flags, r1) \<Rightarrow>
          if hello_flags AND NOT (HELLO_ACK OR HELLO_BRIDGE) \<noteq> 0 then Inl Wire_Malformed
          else (case r_bytes 2 r1 of
            None \<Rightarrow> Inl Wire_Malformed
          | Some (version, r2) \<Rightarrow>
              if version \<noteq> to_le_bytes SCHEMA_FINGERPRINT_VERSION then Inl Wire_Malformed
              else (case r_str r2 of
                None \<Rightarrow> Inl Wire_Malformed
              | Some (ident, r3) \<Rightarrow>
                  if \<not> valid_namespace ident then Inl Wire_Malformed
                  else (case r_u8 r3 of
                    None \<Rightarrow> Inl Wire_Malformed
                  | Some (count, r4) \<Rightarrow>
                      let hello = \<lparr>hello_ack = hello_flags AND HELLO_ACK \<noteq> 0,
                            hello_bridge = hello_flags AND HELLO_BRIDGE \<noteq> 0,
                            hello_id = ident, hello_count = unat count,
                            hello_table = drop (r_pos r4) payload\<rparr>
                      in if hello_bridge hello \<and> count \<noteq> 0 then Inl Wire_Malformed
                         else rbind (hello_check hello (unat count) 0 r4) (\<lambda>r5.
                           if r_pos r5 \<noteq> length payload then Inl Wire_Malformed
                           else rbind (validate_address_hashes hello) (\<lambda>_. Inr hello))))))"

section \<open>The writer\<close>

text \<open>A write either fails, leaving the bytes written so far, or appends at the position. A
  sequence of writes stops at the first failure, as the question-mark operator does.\<close>

record Writer =
  w_out :: bytes
  w_pos :: nat

type_synonym w_op = "Writer \<Rightarrow> (WireError + unit) \<times> Writer"

definition w_bytes :: "bytes \<Rightarrow> w_op" where
  "w_bytes b w =
     (let end' = w_pos w + length b in
      if end' > length (w_out w) then (Inl Wire_TooLarge, w)
      else (Inr (), w\<lparr>w_out := copy_at (w_out w) (w_pos w) b, w_pos := end'\<rparr>))"

definition w_u8 :: "u8 \<Rightarrow> w_op" where
  "w_u8 v = w_bytes [v]"

definition w_u32 :: "u32 \<Rightarrow> w_op" where
  "w_u32 v = w_bytes (to_le_bytes v)"

definition w_u64 :: "u64 \<Rightarrow> w_op" where
  "w_u64 v = w_bytes (to_le_bytes v)"

fun w_seq :: "w_op list \<Rightarrow> w_op" where
  "w_seq [] w = (Inr (), w)"
| "w_seq (op # ops) w =
     (case op w of (Inl e, w') \<Rightarrow> (Inl e, w') | (Inr _, w') \<Rightarrow> w_seq ops w')"

definition w_fail :: w_op where
  "w_fail w = (Inl Wire_TooLarge, w)"

definition w_str :: "string \<Rightarrow> w_op" where
  "w_str s = (if length s > 255 then w_fail
     else w_seq [w_u8 (word_of_nat (length s)), w_bytes (as_bytes s)])"

definition w_response :: "HelloType option \<Rightarrow> w_op" where
  "w_response response = w_seq
     (w_u8 (if response \<noteq> None then 1 else 0) #
      (case response of None \<Rightarrow> [] | Some t \<Rightarrow> [w_str (ht_name t), w_u64 (ht_schema t)]))"

definition w_entry :: "HelloEntry \<Rightarrow> w_op" where
  "w_entry e =
     (let sources = sources_iter (he_sources e) in
      w_seq
        ([w_u32 (he_hash e), w_u8 (he_flags e OR SCHEMA_FINGERPRINT), w_str (he_port e),
          w_str (he_name e), w_u64 (he_schema e), w_response (he_response e),
          (if length sources > 255 then w_fail else w_u8 (word_of_nat (length sources)))]
         @ concat (map (\<lambda>s. [w_str (ep_namespace s), w_str (ep_port s)]) sources)))"

fun w_entries :: "HelloEntry list \<Rightarrow> nat \<Rightarrow> Writer \<Rightarrow> (WireError + nat) \<times> Writer" where
  "w_entries [] count w = (Inr count, w)"
| "w_entries (e # es) count w =
     (case w_entry e w of
        (Inl err, w') \<Rightarrow> (Inl err, w')
      | (Inr _, w') \<Rightarrow>
          if count + 1 > 255 then (Inl Wire_TooLarge, w') else w_entries es (count + 1) w')"

definition hello_write ::
    "bytes \<Rightarrow> bool \<Rightarrow> bool \<Rightarrow> string \<Rightarrow> HelloEntry list \<Rightarrow> (WireError + nat) \<times> bytes" where
  "hello_write out ack bridge ident entries =
     (case w_seq
         [w_u8 ((if ack then HELLO_ACK else 0) OR (if bridge then HELLO_BRIDGE else 0)),
          w_bytes (to_le_bytes SCHEMA_FINGERPRINT_VERSION), w_str ident]
         \<lparr>w_out = out, w_pos = 0\<rparr> of
       (Inl e, w) \<Rightarrow> (Inl e, w_out w)
     | (Inr _, w) \<Rightarrow>
         let count_at = w_pos w in
         (case w_u8 0 w of
            (Inl e, w1) \<Rightarrow> (Inl e, w_out w1)
          | (Inr _, w1) \<Rightarrow>
              (case w_entries entries 0 w1 of
                 (Inl e, w2) \<Rightarrow> (Inl e, w_out w2)
               | (Inr count, w2) \<Rightarrow>
                   (Inr (w_pos w2), (w_out w2)[count_at := word_of_nat count]))))"

end
