(* ===== verification/Wire_Hello.thy ===== *)
theory Wire_Hello
  imports Wire
begin

text \<open>
  The Hello table on the wire. \<open>hello_bytes\<close> is the encoding of a table; \<open>hello_write\<close> produces it and
  nothing else, every reader is characterised by the bytes it consumes, and \<open>hello_parse\<close> accepts
  exactly the encodings of the tables that satisfy the declarative \<open>table_fits\<close>.
\<close>

section \<open>Encodings\<close>

definition enc_str :: "string \<Rightarrow> bytes" where
  "enc_str s = word_of_nat (length s) # as_bytes s"

definition enc_pair :: "EndpointRef \<Rightarrow> bytes" where
  "enc_pair e = enc_str (ep_namespace e) @ enc_str (ep_port e)"

definition enc_response :: "HelloType option \<Rightarrow> bytes" where
  "enc_response t =
     (case t of None \<Rightarrow> [0] | Some t \<Rightarrow> 1 # enc_str (ht_name t) @ to_le_bytes (ht_schema t))"

definition enc_entry :: "HelloEntry \<Rightarrow> bytes" where
  "enc_entry e =
     (let ps = sources_iter (he_sources e) in
      to_le_bytes (he_hash e) @ [he_flags e OR SCHEMA_FINGERPRINT] @ enc_str (he_port e)
      @ enc_str (he_name e) @ to_le_bytes (he_schema e) @ enc_response (he_response e)
      @ [word_of_nat (length ps)] @ concat (map enc_pair ps))"

definition hello_bytes :: "bool \<Rightarrow> bool \<Rightarrow> string \<Rightarrow> HelloEntry list \<Rightarrow> bytes" where
  "hello_bytes ack bridge ident es =
     [(if ack then HELLO_ACK else 0) OR (if bridge then HELLO_BRIDGE else 0)]
     @ to_le_bytes SCHEMA_FINGERPRINT_VERSION @ enc_str ident
     @ [word_of_nat (length es)] @ concat (map enc_entry es)"

definition ok_str :: "string \<Rightarrow> bool" where
  "ok_str s \<longleftrightarrow> length s \<le> 255 \<and> utf8_valid (as_bytes s)"

definition ok_pair :: "EndpointRef \<Rightarrow> bool" where
  "ok_pair e \<longleftrightarrow> ok_str (ep_namespace e) \<and> ok_str (ep_port e)"

definition ok_entry :: "HelloEntry \<Rightarrow> bool" where
  "ok_entry e \<longleftrightarrow> ok_str (he_port e) \<and> ok_str (he_name e)
     \<and> (\<forall>t. he_response e = Some t \<longrightarrow> ok_str (ht_name t))
     \<and> he_flags e AND SCHEMA_FINGERPRINT = 0
     \<and> length (sources_iter (he_sources e)) \<le> 255
     \<and> list_all ok_pair (sources_iter (he_sources e))"

text \<open>A parsed entry keeps its sources as the raw bytes of the pairs.\<close>

definition as_wire :: "HelloEntry \<Rightarrow> HelloEntry" where
  "as_wire e = e\<lparr>he_sources := Sources_Wire (concat (map enc_pair (sources_iter (he_sources e))))\<rparr>"

lemma unat_len_u8: "n \<le> 255 \<Longrightarrow> unat (word_of_nat n :: u8) = n"
  by (simp add: unat_of_nat)

lemma length_enc_str [simp]: "length (enc_str s) = Suc (length s)"
  by (simp add: enc_str_def)

section \<open>Readers\<close>

definition unread :: "Reader \<Rightarrow> bytes" where
  "unread r = drop (r_pos r) (r_buf r)"

definition r_ok :: "Reader \<Rightarrow> bool" where
  "r_ok r \<longleftrightarrow> r_pos r \<le> length (r_buf r)"

definition r_adv :: "nat \<Rightarrow> Reader \<Rightarrow> Reader" where
  "r_adv n r = r\<lparr>r_pos := r_pos r + n\<rparr>"

lemma unread_adv [simp]: "unread (r_adv n r) = drop n (unread r)"
  by (simp add: unread_def r_adv_def add.commute)

lemma r_adv_adv [simp]: "r_adv n (r_adv m r) = r_adv (m + n) r"
  by (simp add: r_adv_def add.assoc)

lemma r_adv_0 [simp]: "r_adv 0 r = r"
  by (simp add: r_adv_def)

lemma r_adv_sel [simp]: "r_buf (r_adv n r) = r_buf r" "r_pos (r_adv n r) = r_pos r + n"
  by (simp_all add: r_adv_def)

lemma r_ok_adv [simp]: "r_ok r \<Longrightarrow> n \<le> length (unread r) \<Longrightarrow> r_ok (r_adv n r)"
  by (auto simp: r_ok_def r_adv_def unread_def)

text \<open>\<open>r_to r b r'\<close>: reading the bytes \<open>b\<close> takes the reader from \<open>r\<close> to \<open>r'\<close>.\<close>

definition r_to :: "Reader \<Rightarrow> bytes \<Rightarrow> Reader \<Rightarrow> bool" where
  "r_to r b r' \<longleftrightarrow> r_ok r' \<and> r_buf r' = r_buf r \<and> r_pos r' = r_pos r + length b \<and> unread r = b @ unread r'"

lemma r_to_ok: "r_to r b r' \<Longrightarrow> r_ok r'"
  by (simp add: r_to_def)

lemma r_to_buf: "r_to r b r' \<Longrightarrow> r_buf r' = r_buf r"
  by (simp add: r_to_def)

lemma r_to_eq: "r_to r b r' \<Longrightarrow> unread r = b @ unread r'"
  by (simp add: r_to_def)

lemma length_unread: "length (unread r) = length (r_buf r) - r_pos r"
  by (simp add: unread_def)

lemma r_to_trans: "r_to r b r' \<Longrightarrow> r_to r' b' r'' \<Longrightarrow> r_to r (b @ b') r''"
  by (auto simp: r_to_def)

lemma r_to_adv: "r_to r b r' \<Longrightarrow> r' = r_adv (length b) r"
  by (simp add: r_to_def r_adv_def)

lemma r_to_refl: "r_ok r \<Longrightarrow> r_to r [] r"
  by (simp add: r_to_def)

lemma r_bytes_D: "r_bytes n r = Some (b, r') \<Longrightarrow> r_ok r \<Longrightarrow> length b = n \<and> r_to r b r'"
  by (auto simp: r_bytes_def Let_def unread_def r_ok_def r_to_def slice_def drop_take
      split: if_splits) (metis append_take_drop_id drop_drop add.commute)

lemma r_bytes_I:
  "r_ok r \<Longrightarrow> unread r = b @ zs \<Longrightarrow> n = length b \<Longrightarrow> r_bytes n r = Some (b, r_adv n r)"
proof -
  assume ok: "r_ok r" and unread: "unread r = b @ zs" and n: "n = length b"
  have "length (unread r) = length (r_buf r) - r_pos r"
    by (simp add: unread_def)
  then have "r_pos r + n \<le> length (r_buf r)"
    using ok unread n by (simp add: r_ok_def)
  moreover have "take n (unread r) = b"
    by (simp add: unread n)
  ultimately show ?thesis
    by (simp add: r_bytes_def Let_def slice_def r_adv_def flip: unread_def)
qed

lemma r_u8_D: "r_u8 r = Some (b, r') \<Longrightarrow> r_ok r \<Longrightarrow> r_to r [b] r'"
  by (auto simp: r_u8_def bind_eq_Some_conv length_Suc_conv dest!: r_bytes_D)

lemma r_u8_I: "r_ok r \<Longrightarrow> unread r = b # zs \<Longrightarrow> r_u8 r = Some (b, r_adv 1 r)"
  using r_bytes_I [of r "[b]" zs 1] by (simp add: r_u8_def)

lemma r_u8_end: "unread r = [] \<Longrightarrow> r_ok r \<Longrightarrow> r_u8 r = None"
  by (auto simp: r_u8_def r_bytes_def unread_def Let_def)

lemma r_u32_D: "r_u32 r = Some (v, r') \<Longrightarrow> r_ok r \<Longrightarrow> r_to r (to_le_bytes v) r'"
  by (auto simp: r_u32_def bind_eq_Some_conv to_from_le_bytes dest!: r_bytes_D)

lemma r_u32_I: "r_ok r \<Longrightarrow> unread r = to_le_bytes v @ zs \<Longrightarrow> r_u32 r = Some (v, r_adv 4 r)"
  using r_bytes_I [of r "to_le_bytes v" zs 4] by (simp add: r_u32_def)

lemma r_u64_D: "r_u64 r = Some (v, r') \<Longrightarrow> r_ok r \<Longrightarrow> r_to r (to_le_bytes v) r'"
  by (auto simp: r_u64_def bind_eq_Some_conv to_from_le_bytes dest!: r_bytes_D)

lemma r_u64_I: "r_ok r \<Longrightarrow> unread r = to_le_bytes v @ zs \<Longrightarrow> r_u64 r = Some (v, r_adv 8 r)"
  using r_bytes_I [of r "to_le_bytes v" zs 8] by (simp add: r_u64_def)

lemma r_str_D:
  assumes "r_str r = Some (s, r')" "r_ok r"
  shows "ok_str s \<and> r_to r (enc_str s) r'"
proof -
  from assms(1) obtain len r1 b where
    1: "r_u8 r = Some (len, r1)" and 2: "r_bytes (unat len) r1 = Some (b, r')"
    and s: "from_utf8 b = Some s"
    by (auto simp: r_str_def bind_eq_Some_conv)
  have d1: "r_to r [len] r1"
    by (rule r_u8_D [OF 1 assms(2)])
  have d2: "length b = unat len" "r_to r1 b r'"
    using r_bytes_D [OF 2 r_to_ok [OF d1]] by simp_all
  have b: "utf8_valid (as_bytes s)" "b = as_bytes s"
    using s by (auto simp: from_utf8_Some_iff)
  have len: "unat len = length s" "unat len < 256"
    using d2 b unat_lt [of len] by auto
  have "word_of_nat (length s) = len"
    unfolding len(1) [symmetric] by simp
  then show ?thesis
    using r_to_trans [OF d1 d2(2)] b len by (simp add: ok_str_def enc_str_def)
qed

lemma r_str_I:
  assumes "r_ok r" "ok_str s" "unread r = enc_str s @ zs"
  shows "r_str r = Some (s, r_adv (length (enc_str s)) r)"
proof -
  have 1: "r_u8 r = Some (word_of_nat (length s), r_adv 1 r)"
    using assms by (intro r_u8_I) (auto simp: enc_str_def)
  have "r_bytes (length s) (r_adv 1 r) = Some (as_bytes s, r_adv (length s) (r_adv 1 r))"
    using assms by (intro r_bytes_I [where zs = zs]) (auto simp: enc_str_def)
  then show ?thesis
    using assms(2) by (simp add: r_str_def 1 ok_str_def unat_len_u8)
qed

lemma r_pair_D:
  assumes "r_pair r = Some (e, r')" "r_ok r"
  shows "ok_pair e \<and> r_to r (enc_pair e) r'"
proof -
  from assms(1) obtain r1 where "r_str r = Some (ep_namespace e, r1)" "r_str r1 = Some (ep_port e, r')"
    by (auto simp: r_pair_def bind_eq_Some_conv)
  with assms(2) show ?thesis
    using r_str_D r_to_ok r_to_trans by (metis enc_pair_def ok_pair_def)
qed

lemma r_pair_I:
  assumes "r_ok r" "ok_pair e" "unread r = enc_pair e @ zs"
  shows "r_pair r = Some (e, r_adv (length (enc_pair e)) r)"
proof -
  have "r_str r = Some (ep_namespace e, r_adv (length (enc_str (ep_namespace e))) r)"
    using assms by (intro r_str_I [where zs = "enc_str (ep_port e) @ zs"]) (auto simp: ok_pair_def enc_pair_def)
  moreover have "r_str (r_adv (length (enc_str (ep_namespace e))) r)
     = Some (ep_port e, r_adv (length (enc_str (ep_port e))) (r_adv (length (enc_str (ep_namespace e))) r))"
    using assms by (intro r_str_I [where zs = zs]) (auto simp: ok_pair_def enc_pair_def)
  ultimately show ?thesis
    by (simp add: r_pair_def enc_pair_def)
qed

lemma r_skip_pairs_D:
  "r_skip_pairs n r = Some r' \<Longrightarrow> r_ok r \<Longrightarrow>
   \<exists>ps. length ps = n \<and> list_all ok_pair ps \<and> r_to r (concat (map enc_pair ps)) r'"
proof (induction n arbitrary: r)
  case 0
  then show ?case
    by (simp add: r_to_refl)
next
  case (Suc n)
  from Suc.prems(1) obtain e r1 where 1: "r_pair r = Some (e, r1)" and 2: "r_skip_pairs n r1 = Some r'"
    by (auto simp: bind_eq_Some_conv)
  have d: "ok_pair e" "r_to r (enc_pair e) r1"
    using r_pair_D [OF 1 Suc.prems(2)] by simp_all
  from Suc.IH [OF 2 r_to_ok [OF d(2)]] obtain ps
    where "length ps = n" "list_all ok_pair ps" "r_to r1 (concat (map enc_pair ps)) r'"
    by blast
  with d show ?case
    by (intro exI [of _ "e # ps"]) (simp add: r_to_trans)
qed

lemma r_skip_pairs_I:
  "r_ok r \<Longrightarrow> list_all ok_pair ps \<Longrightarrow> unread r = concat (map enc_pair ps) @ zs \<Longrightarrow>
   r_skip_pairs (length ps) r = Some (r_adv (length (concat (map enc_pair ps))) r)"
proof (induction ps arbitrary: r)
  case (Cons p ps)
  have "r_pair r = Some (p, r_adv (length (enc_pair p)) r)"
    using Cons.prems by (intro r_pair_I [where zs = "concat (map enc_pair ps) @ zs"]) auto
  moreover have "r_skip_pairs (length ps) (r_adv (length (enc_pair p)) r)
      = Some (r_adv (length (concat (map enc_pair ps))) (r_adv (length (enc_pair p)) r))"
    using Cons.prems by (intro Cons.IH) auto
  ultimately show ?case
    by simp
qed simp

lemma pairs_iter_exact:
  "r_ok r \<Longrightarrow> list_all ok_pair ps \<Longrightarrow> unread r = concat (map enc_pair ps) \<Longrightarrow> pairs_iter r = ps"
proof (induction ps arbitrary: r)
  case Nil
  then have "r_pair r = None"
    by (simp add: r_pair_def r_str_def r_u8_end)
  then show ?case
    by (simp add: pairs_iter.simps [of r])
next
  case (Cons p ps)
  have "r_pair r = Some (p, r_adv (length (enc_pair p)) r)"
    using Cons.prems by (intro r_pair_I [where zs = "concat (map enc_pair ps)"]) auto
  moreover have "pairs_iter (r_adv (length (enc_pair p)) r) = ps"
    using Cons.prems by (intro Cons.IH) auto
  ultimately show ?case
    by (simp add: pairs_iter.simps [of r])
qed

lemma sources_iter_wire [simp]:
  "list_all ok_pair ps \<Longrightarrow> sources_iter (Sources_Wire (concat (map enc_pair ps))) = ps"
  by (simp add: pairs_iter_exact r_ok_def unread_def)

lemma r_response_D:
  assumes "r_response r = Some (t, r')" "r_ok r"
  shows "(\<forall>x. t = Some x \<longrightarrow> ok_str (ht_name x)) \<and> r_to r (enc_response t) r'"
proof -
  from assms(1) obtain tag r1 where tag: "r_u8 r = Some (tag, r1)"
    by (auto simp: r_response_def bind_eq_Some_conv)
  have d1: "r_to r [tag] r1"
    by (rule r_u8_D [OF tag assms(2)])
  show ?thesis
  proof (cases t)
    case None
    with assms(1) tag have "tag = 0" "r' = r1"
      by (auto simp: r_response_def bind_eq_Some_conv split: if_splits)
    with d1 None show ?thesis
      by (simp add: enc_response_def)
  next
    case (Some x)
    with assms(1) tag obtain r2 where "tag = 1"
      and 2: "r_str r1 = Some (ht_name x, r2)" and 3: "r_u64 r2 = Some (ht_schema x, r')"
      by (auto simp: r_response_def bind_eq_Some_conv split: if_splits)
    have d2: "ok_str (ht_name x)" "r_to r1 (enc_str (ht_name x)) r2"
      using r_str_D [OF 2 r_to_ok [OF d1]] by simp_all
    have "r_to r2 (to_le_bytes (ht_schema x)) r'"
      by (rule r_u64_D [OF 3 r_to_ok [OF d2(2)]])
    from r_to_trans [OF d1 r_to_trans [OF d2(2) this]] d2(1) Some \<open>tag = 1\<close> show ?thesis
      by (simp add: enc_response_def)
  qed
qed

lemma r_response_I:
  assumes "r_ok r" "\<forall>x. t = Some x \<longrightarrow> ok_str (ht_name x)" "unread r = enc_response t @ zs"
  shows "r_response r = Some (t, r_adv (length (enc_response t)) r)"
proof (cases t)
  case None
  then have "r_u8 r = Some (0, r_adv 1 r)"
    using assms by (intro r_u8_I) (auto simp: enc_response_def)
  with None show ?thesis
    by (simp add: r_response_def enc_response_def)
next
  case (Some x)
  have 1: "r_u8 r = Some (1, r_adv 1 r)"
    using assms Some by (intro r_u8_I) (auto simp: enc_response_def)
  have 2: "r_str (r_adv 1 r) = Some (ht_name x, r_adv (length (enc_str (ht_name x))) (r_adv 1 r))"
    using assms Some by (intro r_str_I [where zs = "to_le_bytes (ht_schema x) @ zs"])
      (auto simp: enc_response_def)
  have 3: "r_u64 (r_adv (length (enc_str (ht_name x))) (r_adv 1 r))
      = Some (ht_schema x, r_adv 8 (r_adv (length (enc_str (ht_name x))) (r_adv 1 r)))"
    using assms Some by (intro r_u64_I [where zs = zs]) (auto simp: enc_response_def)
  from 1 2 3 Some show ?thesis
    by (simp add: r_response_def enc_response_def)
qed

lemma r_to_slice: "r_to r b r' \<Longrightarrow> slice (r_buf r') (r_pos r) (r_pos r') = b"
  by (simp add: r_to_def slice_def unread_def)

lemma r_to_I: "r_ok r \<Longrightarrow> unread r = b @ zs \<Longrightarrow> r_to r b (r_adv (length b) r)"
  by (simp add: r_to_def)

lemma r_to_unread: "r_to r b r' \<Longrightarrow> unread r = b @ zs \<Longrightarrow> unread r' = zs"
  by (simp add: r_to_def)

lemma and_not_or_and: "(f AND NOT m) OR (f AND m) = (f :: 'w::len word)"
  unfolding bit.conj_disj_distrib [symmetric] by simp

lemma fingerprint_flag_or:
  assumes "f AND SCHEMA_FINGERPRINT \<noteq> 0"
  shows "(f AND NOT SCHEMA_FINGERPRINT) OR SCHEMA_FINGERPRINT = f"
proof -
  have "bit f 4"
    using assms and_exp_eq_0_iff_not_bit [of f 4] by (simp add: flag_defs)
  then have "f OR 2 ^ 4 = f"
    by (intro bit_eqI) (simp only: bit_or_iff bit_exp_iff, blast)
  then have "f OR SCHEMA_FINGERPRINT = f"
    by (simp add: flag_defs)
  then show ?thesis
    by (simp add: bit.disj_conj_distrib2)
qed

lemma fingerprint_flag_and: "f AND SCHEMA_FINGERPRINT = 0 \<Longrightarrow> (f OR SCHEMA_FINGERPRINT) AND NOT SCHEMA_FINGERPRINT = f"
proof -
  assume "f AND SCHEMA_FINGERPRINT = 0"
  then have "f AND NOT SCHEMA_FINGERPRINT = f"
    using and_not_or_and [of f SCHEMA_FINGERPRINT] by simp
  then show ?thesis
    by (simp add: bit.conj_disj_distrib2)
qed

lemma fingerprint_flag_nonzero: "SCHEMA_FINGERPRINT \<noteq> 0"
  by (simp add: flag_defs)

lemma fingerprint_flag_set: "(f OR SCHEMA_FINGERPRINT) AND SCHEMA_FINGERPRINT \<noteq> 0"
  by (simp add: bit.conj_disj_distrib2 or_eq_0_iff flag_defs)

lemma as_wire_idem: "ok_entry e \<Longrightarrow> sources_iter (he_sources (as_wire e)) = sources_iter (he_sources e)"
  by (simp add: as_wire_def ok_entry_def del: sources_iter.simps)

lemma r_entry_D:
  assumes "r_entry r = Some (e, r')" "r_ok r"
  shows "ok_entry e \<and> as_wire e = e \<and> r_to r (enc_entry e) r'"
proof -
  from assms(1) obtain hash r1 ef r2 port r3 name r4 schema r5 resp r6 count r7
    where 1: "r_u32 r = Some (hash, r1)" and 2: "r_u8 r1 = Some (ef, r2)"
      and ef: "ef AND SCHEMA_FINGERPRINT \<noteq> 0" and 3: "r_str r2 = Some (port, r3)"
      and 4: "r_str r3 = Some (name, r4)" and 5: "r_u64 r4 = Some (schema, r5)"
      and 6: "r_response r5 = Some (resp, r6)" and 7: "r_u8 r6 = Some (count, r7)"
      and 8: "r_skip_pairs (unat count) r7 = Some r'"
      and e: "e = \<lparr>he_hash = hash, he_flags = ef AND NOT SCHEMA_FINGERPRINT, he_schema = schema,
        he_name = name, he_port = port, he_response = resp,
        he_sources = Sources_Wire (slice (r_buf r') (r_pos r7) (r_pos r'))\<rparr>"
    by (auto simp: r_entry_def bind_eq_Some_conv split: if_splits)
  have t1: "r_to r (to_le_bytes hash) r1"
    by (rule r_u32_D [OF 1 assms(2)])
  have t2: "r_to r1 [ef] r2"
    by (rule r_u8_D [OF 2 r_to_ok [OF t1]])
  have t3: "ok_str port" "r_to r2 (enc_str port) r3"
    using r_str_D [OF 3 r_to_ok [OF t2]] by simp_all
  have t4: "ok_str name" "r_to r3 (enc_str name) r4"
    using r_str_D [OF 4 r_to_ok [OF t3(2)]] by simp_all
  have t5: "r_to r4 (to_le_bytes schema) r5"
    by (rule r_u64_D [OF 5 r_to_ok [OF t4(2)]])
  have t6: "\<forall>x. resp = Some x \<longrightarrow> ok_str (ht_name x)" "r_to r5 (enc_response resp) r6"
    using r_response_D [OF 6 r_to_ok [OF t5]] by simp_all
  have t7: "r_to r6 [count] r7"
    by (rule r_u8_D [OF 7 r_to_ok [OF t6(2)]])
  obtain ps where ps: "length ps = unat count" "list_all ok_pair ps"
    and t8: "r_to r7 (concat (map enc_pair ps)) r'"
    using r_skip_pairs_D [OF 8 r_to_ok [OF t7]] by blast
  have src: "he_sources e = Sources_Wire (concat (map enc_pair ps))"
    by (simp add: e r_to_slice [OF t8])
  have it: "sources_iter (he_sources e) = ps"
    unfolding src using ps(2) by (rule sources_iter_wire)
  have count: "word_of_nat (length ps) = count" "length ps \<le> 255"
    using ps(1) unat_lt [of count] by auto
  have "enc_entry e = to_le_bytes hash @ [ef] @ enc_str port @ enc_str name @ to_le_bytes schema
      @ enc_response resp @ [count] @ concat (map enc_pair ps)"
    unfolding enc_entry_def it Let_def count
    by (simp add: e fingerprint_flag_or [OF ef])
  moreover have "ok_entry e"
    unfolding ok_entry_def it using t3 t4 t6 ps count
    by (simp add: e and.assoc)
  moreover have "as_wire e = e"
    unfolding as_wire_def it using src by simp
  ultimately show ?thesis
    using r_to_trans [OF t1 r_to_trans [OF t2 r_to_trans [OF t3(2) r_to_trans [OF t4(2)
      r_to_trans [OF t5 r_to_trans [OF t6(2) r_to_trans [OF t7 t8]]]]]]] by simp
qed

lemma r_entry_I:
  assumes "r_ok r" "ok_entry e" "unread r = enc_entry e @ zs"
  shows "r_entry r = Some (as_wire e, r_adv (length (enc_entry e)) r)"
proof -
  define ps where "ps = sources_iter (he_sources e)"
  have ps: "length ps \<le> 255" "list_all ok_pair ps"
    using assms(2) by (simp_all add: ok_entry_def ps_def)
  define z7 where "z7 = concat (map enc_pair ps) @ zs"
  define z6 where "z6 = word_of_nat (length ps) # z7"
  define z5 where "z5 = enc_response (he_response e) @ z6"
  define z4 where "z4 = to_le_bytes (he_schema e) @ z5"
  define z3 where "z3 = enc_str (he_name e) @ z4"
  define z2 where "z2 = enc_str (he_port e) @ z3"
  define z1 where "z1 = (he_flags e OR SCHEMA_FINGERPRINT) # z2"
  note z = z1_def z2_def z3_def z4_def z5_def z6_def z7_def
  have r0: "unread r = to_le_bytes (he_hash e) @ z1"
    by (simp add: assms(3) enc_entry_def z ps_def Let_def)
  obtain r1 where 1: "r_u32 r = Some (he_hash e, r1)" and t1: "r_to r (to_le_bytes (he_hash e)) r1"
    using r_u32_I [OF assms(1) r0] r_u32_D assms(1) by blast
  have q1: "r_ok r1" "unread r1 = (he_flags e OR SCHEMA_FINGERPRINT) # z2"
    using r_to_ok [OF t1] r_to_unread [OF t1 r0] by (simp_all add: z1_def)
  obtain r2 where 2: "r_u8 r1 = Some (he_flags e OR SCHEMA_FINGERPRINT, r2)" and t2: "r_to r1 [he_flags e OR SCHEMA_FINGERPRINT] r2"
    using r_u8_I [OF q1] r_u8_D q1(1) by blast
  have q2: "r_ok r2" "unread r2 = enc_str (he_port e) @ z3"
    using r_to_ok [OF t2] r_to_unread [OF t2, of z2] q1 by (simp_all add: z2_def)
  obtain r3 where 3: "r_str r2 = Some (he_port e, r3)" and t3: "r_to r2 (enc_str (he_port e)) r3"
    using r_str_I [OF q2(1) _ q2(2)] r_str_D q2(1) assms(2) unfolding ok_entry_def by blast
  have q3: "r_ok r3" "unread r3 = enc_str (he_name e) @ z4"
    using r_to_ok [OF t3] r_to_unread [OF t3 q2(2)] by (simp_all add: z3_def)
  obtain r4 where 4: "r_str r3 = Some (he_name e, r4)" and t4: "r_to r3 (enc_str (he_name e)) r4"
    using r_str_I [OF q3(1) _ q3(2)] r_str_D q3(1) assms(2) unfolding ok_entry_def by blast
  have q4: "r_ok r4" "unread r4 = to_le_bytes (he_schema e) @ z5"
    using r_to_ok [OF t4] r_to_unread [OF t4 q3(2)] by (simp_all add: z4_def)
  obtain r5 where 5: "r_u64 r4 = Some (he_schema e, r5)" and t5: "r_to r4 (to_le_bytes (he_schema e)) r5"
    using r_u64_I [OF q4] r_u64_D q4(1) by blast
  have q5: "r_ok r5" "unread r5 = enc_response (he_response e) @ z6"
    using r_to_ok [OF t5] r_to_unread [OF t5 q4(2)] by (simp_all add: z5_def)
  obtain r6 where 6: "r_response r5 = Some (he_response e, r6)" and t6: "r_to r5 (enc_response (he_response e)) r6"
    using r_response_I [OF q5(1) _ q5(2)] r_response_D q5(1) assms(2) unfolding ok_entry_def by blast
  have q6: "r_ok r6" "unread r6 = word_of_nat (length ps) # z7"
    using r_to_ok [OF t6] r_to_unread [OF t6 q5(2)] by (simp_all add: z6_def)
  obtain r7 where 7: "r_u8 r6 = Some (word_of_nat (length ps), r7)" and t7: "r_to r6 [word_of_nat (length ps)] r7"
    using r_u8_I [OF q6] r_u8_D q6(1) by blast
  have q7: "r_ok r7" "unread r7 = concat (map enc_pair ps) @ zs"
    using r_to_ok [OF t7] r_to_unread [OF t7, of z7] q6 by (simp_all add: z7_def)
  let ?r8 = "r_adv (length (concat (map enc_pair ps))) r7"
  have 8: "r_skip_pairs (length ps) r7 = Some ?r8" and t8: "r_to r7 (concat (map enc_pair ps)) ?r8"
    using r_skip_pairs_I [OF q7(1) ps(2) q7(2)] r_to_I [OF q7] by simp_all
  have "r_to r (enc_entry e) ?r8"
    using r_to_trans [OF t1 r_to_trans [OF t2 r_to_trans [OF t3 r_to_trans [OF t4
      r_to_trans [OF t5 r_to_trans [OF t6 r_to_trans [OF t7 t8]]]]]]]
    by (simp add: enc_entry_def ps_def Let_def)
  then have r8: "?r8 = r_adv (length (enc_entry e)) r"
    by (rule r_to_adv)
  have fl: "he_flags e AND SCHEMA_FINGERPRINT = 0"
    using assms(2) by (simp add: ok_entry_def)
  have "r_entry r = Some (\<lparr>he_hash = he_hash e, he_flags = he_flags e, he_schema = he_schema e,
      he_name = he_name e, he_port = he_port e, he_response = he_response e,
      he_sources = Sources_Wire (concat (map enc_pair ps))\<rparr>, ?r8)"
    using r_to_slice [OF t8] ps(1)
    by (simp add: r_entry_def 1 2 3 4 5 6 7 8 fingerprint_flag_set fingerprint_flag_nonzero
        fingerprint_flag_and [OF fl] unat_len_u8 del: r_adv_sel)
  then show ?thesis
    unfolding r8 by (simp add: as_wire_def ps_def)
qed

section \<open>The table\<close>

definition entry_bad :: "string \<Rightarrow> HelloEntry list \<Rightarrow> HelloEntry \<Rightarrow> bool" where
  "entry_bad ident prev e \<longleftrightarrow> entry_shape_bad ident e \<or> source_count_bad e
     \<or> sources_bad [] (sources_iter (he_sources e)) \<or> list_ex (\<lambda>p. previous_conflict p e) prev"

fun table_bad :: "string \<Rightarrow> HelloEntry list \<Rightarrow> HelloEntry list \<Rightarrow> bool" where
  "table_bad ident prev [] = False"
| "table_bad ident prev (e # es) = (entry_bad ident prev e \<or> table_bad ident (prev @ [e]) es)"

definition table_ok :: "string \<Rightarrow> HelloEntry list \<Rightarrow> bool" where
  "table_ok ident es \<longleftrightarrow>
     \<not> table_bad ident [] es \<and> \<not> address_hashes_bad [] (hello_addresses ident es)"

definition hello_of :: "bool \<Rightarrow> bool \<Rightarrow> string \<Rightarrow> HelloEntry list \<Rightarrow> Hello" where
  "hello_of ack bridge ident es = \<lparr>hello_ack = ack, hello_bridge = bridge, hello_id = ident,
     hello_count = length es, hello_table = concat (map enc_entry es)\<rparr>"

lemma entries_iter_bytes:
  "r_ok r \<Longrightarrow> list_all ok_entry es \<Longrightarrow> unread r = concat (map enc_entry es) @ zs \<Longrightarrow>
   entries_iter (length es) r = map as_wire es"
proof (induction es arbitrary: r)
  case (Cons e es)
  have "r_entry r = Some (as_wire e, r_adv (length (enc_entry e)) r)"
    using Cons.prems by (intro r_entry_I [where zs = "concat (map enc_entry es) @ zs"]) auto
  moreover have "entries_iter (length es) (r_adv (length (enc_entry e)) r) = map as_wire es"
    using Cons.prems by (intro Cons.IH) auto
  ultimately show ?case
    by simp
qed simp

lemma hello_entries_of: "list_all ok_entry es \<Longrightarrow> hello_entries (hello_of ack bridge ident es) = map as_wire es"
  using entries_iter_bytes [of "\<lparr>r_buf = concat (map enc_entry es), r_pos = 0\<rparr>" es "[]"]
  by (simp add: hello_entries_def hello_of_def r_ok_def unread_def)

lemma hello_check_I:
  "r_ok r \<Longrightarrow> list_all ok_entry es \<Longrightarrow> unread r = concat (map enc_entry es) @ zs \<Longrightarrow>
   hello_entries h = prev @ map as_wire es \<Longrightarrow>
   hello_check h (length es) (length prev) r =
     (if table_bad (hello_id h) prev (map as_wire es) then Inl Wire_Malformed
      else Inr (r_adv (length (concat (map enc_entry es))) r))"
proof (induction es arbitrary: r prev)
  case (Cons e es)
  have e: "r_entry r = Some (as_wire e, r_adv (length (enc_entry e)) r)"
    using Cons.prems by (intro r_entry_I [where zs = "concat (map enc_entry es) @ zs"]) auto
  have "hello_check h (length es) (length (prev @ [as_wire e])) (r_adv (length (enc_entry e)) r) =
     (if table_bad (hello_id h) (prev @ [as_wire e]) (map as_wire es) then Inl Wire_Malformed
      else Inr (r_adv (length (concat (map enc_entry es))) (r_adv (length (enc_entry e)) r)))"
    using Cons.prems by (intro Cons.IH) auto
  with e Cons.prems(4) show ?case
    by (auto simp: entry_bad_def)
qed simp

lemma hello_check_D:
  "hello_check h n idx r = Inr r' \<Longrightarrow> r_ok r \<Longrightarrow>
   \<exists>es. length es = n \<and> list_all ok_entry es \<and> map as_wire es = es \<and> r_to r (concat (map enc_entry es)) r'"
proof (induction n arbitrary: r idx)
  case 0
  then show ?case
    by (simp add: r_to_refl)
next
  case (Suc n)
  from Suc.prems(1) obtain e r1 where 1: "r_entry r = Some (e, r1)"
    and 2: "hello_check h n (Suc idx) r1 = Inr r'"
    by (auto split: option.splits if_splits)
  have d: "ok_entry e" "as_wire e = e" "r_to r (enc_entry e) r1"
    using r_entry_D [OF 1 Suc.prems(2)] by simp_all
  from Suc.IH [OF 2 r_to_ok [OF d(3)]] obtain es where "length es = n" "list_all ok_entry es"
    "map as_wire es = es" "r_to r1 (concat (map enc_entry es)) r'"
    by blast
  with d show ?case
    by (intro exI [of _ "e # es"]) (simp add: r_to_trans)
qed

lemma as_wire_simps [simp]:
  "he_hash (as_wire e) = he_hash e" "he_flags (as_wire e) = he_flags e"
  "he_schema (as_wire e) = he_schema e" "he_name (as_wire e) = he_name e"
  "he_port (as_wire e) = he_port e" "he_response (as_wire e) = he_response e"
  by (simp_all add: as_wire_def)

lemma previous_conflict_as_wire:
  "ok_entry p \<Longrightarrow> ok_entry e \<Longrightarrow> previous_conflict (as_wire p) (as_wire e) = previous_conflict p e"
  by (simp only: previous_conflict_def as_wire_simps as_wire_idem)

lemma entry_bad_as_wire:
  assumes "ok_entry e" "list_all ok_entry prev"
  shows "entry_bad ident (map as_wire prev) (as_wire e) = entry_bad ident prev e"
proof -
  have "entry_shape_bad ident (as_wire e) = entry_shape_bad ident e"
    by (simp only: entry_shape_bad_def direction_of_def as_wire_simps)
  moreover have "source_count_bad (as_wire e) = source_count_bad e"
    using assms(1) by (simp only: source_count_bad_def direction_of_def as_wire_simps as_wire_idem)
  moreover have "list_ex (\<lambda>p. previous_conflict p (as_wire e)) (map as_wire prev)
      = list_ex (\<lambda>p. previous_conflict p e) prev"
    using assms(2) by (induction prev) (simp_all add: previous_conflict_as_wire assms(1))
  ultimately show ?thesis
    using assms(1) by (simp only: entry_bad_def as_wire_idem)
qed

lemma table_bad_as_wire:
  "list_all ok_entry es \<Longrightarrow> list_all ok_entry prev \<Longrightarrow>
   table_bad ident (map as_wire prev) (map as_wire es) = table_bad ident prev es"
proof (induction es arbitrary: prev)
  case (Cons e es)
  with Cons.IH [of "prev @ [e]"] show ?case
    by (simp add: entry_bad_as_wire)
qed simp

lemma hello_addresses_as_wire:
  "list_all ok_entry es \<Longrightarrow> hello_addresses ident (map as_wire es) = hello_addresses ident es"
  by (induction es) (simp_all add: hello_addresses_def as_wire_idem)

lemma table_ok_as_wire: "list_all ok_entry es \<Longrightarrow> table_ok ident (map as_wire es) = table_ok ident es"
  using table_bad_as_wire [of es "[]" ident] by (simp add: table_ok_def hello_addresses_as_wire)

section \<open>Parsing\<close>

lemma and_exp_cases: "f AND 2 ^ n = (if f AND 2 ^ n \<noteq> 0 then 2 ^ n else (0 :: 'w::len word))"
proof (cases "bit f n")
  case True
  have "f AND 2 ^ n = 2 ^ n"
    using True by (intro bit_eqI) (simp only: bit_and_iff bit_exp_iff, blast)
  then show ?thesis
    by simp
next
  case False
  then show ?thesis
    by (simp add: and_exp_eq_0_iff_not_bit)
qed

lemma hello_flags_cases:
  assumes "f AND NOT (HELLO_ACK OR HELLO_BRIDGE) = 0"
  shows "f = (if f AND HELLO_ACK \<noteq> 0 then HELLO_ACK else 0) OR (if f AND HELLO_BRIDGE \<noteq> 0 then HELLO_BRIDGE else 0)"
proof -
  have 1: "f AND HELLO_ACK = (if f AND HELLO_ACK \<noteq> 0 then HELLO_ACK else 0)"
    using and_exp_cases [of f 0] by (simp add: HELLO_ACK_def split: if_splits)
  have 2: "f AND HELLO_BRIDGE = (if f AND HELLO_BRIDGE \<noteq> 0 then HELLO_BRIDGE else 0)"
    using and_exp_cases [of f 1] by (simp add: HELLO_BRIDGE_def split: if_splits)
  have "f AND (HELLO_ACK OR HELLO_BRIDGE) = f"
    using and_not_or_and [of f "HELLO_ACK OR HELLO_BRIDGE"] unfolding assms by simp
  then have "f = (f AND HELLO_ACK) OR (f AND HELLO_BRIDGE)"
    by (simp add: bit.conj_disj_distrib)
  then show ?thesis
    by (rule trans) (rule arg_cong2 [OF 1 2])
qed

lemma hello_flag_bits:
  fixes ack bridge :: bool
  defines "f \<equiv> (if ack then HELLO_ACK else 0) OR (if bridge then HELLO_BRIDGE else 0)"
  shows "f AND NOT (HELLO_ACK OR HELLO_BRIDGE) = 0" "f AND HELLO_ACK \<noteq> 0 \<longleftrightarrow> ack"
    "f AND HELLO_BRIDGE \<noteq> 0 \<longleftrightarrow> bridge"
  by (cases ack; cases bridge; simp add: f_def flag_defs)+

lemma hello_parse_bytes:
  assumes "valid_namespace ident" "ok_str ident" "length es \<le> 255" "list_all ok_entry es"
    "bridge \<longrightarrow> es = []"
  shows "hello_parse (hello_bytes ack bridge ident es) =
    (if table_ok ident es then Inr (hello_of ack bridge ident es) else Inl Wire_Malformed)"
proof -
  define f where "f = (if ack then HELLO_ACK else 0) OR (if bridge then HELLO_BRIDGE else 0)"
  note bits = hello_flag_bits [of ack bridge, folded f_def]
  define z3 where "z3 = concat (map enc_entry es)"
  define z2 where "z2 = word_of_nat (length es) # z3"
  define z1 where "z1 = enc_str ident @ z2"
  define z0 where "z0 = to_le_bytes SCHEMA_FINGERPRINT_VERSION @ z1"
  let ?payload = "hello_bytes ack bridge ident es"
  let ?r = "\<lparr>r_buf = ?payload, r_pos = 0\<rparr>"
  have r0: "r_ok ?r" "unread ?r = f # z0"
    by (simp_all add: r_ok_def unread_def hello_bytes_def f_def z0_def z1_def z2_def z3_def)
  obtain r1 where 1: "r_u8 ?r = Some (f, r1)" and t1: "r_to ?r [f] r1"
    using r_u8_I [OF r0] r_u8_D r0(1) by blast
  have q1: "r_ok r1" "unread r1 = to_le_bytes SCHEMA_FINGERPRINT_VERSION @ z1"
    using r_to_ok [OF t1] r_to_unread [OF t1, of z0] r0 by (simp_all add: z0_def)
  obtain r2 where 2: "r_bytes 2 r1 = Some (to_le_bytes SCHEMA_FINGERPRINT_VERSION, r2)"
    and t2: "r_to r1 (to_le_bytes SCHEMA_FINGERPRINT_VERSION) r2"
    using r_bytes_I [OF q1, of 2] r_bytes_D q1(1) by fastforce
  have q2: "r_ok r2" "unread r2 = enc_str ident @ z2"
    using r_to_ok [OF t2] r_to_unread [OF t2 q1(2)] by (simp_all add: z1_def)
  obtain r3 where 3: "r_str r2 = Some (ident, r3)" and t3: "r_to r2 (enc_str ident) r3"
    using r_str_I [OF q2(1) assms(2) q2(2)] r_str_D q2(1) by blast
  have q3: "r_ok r3" "unread r3 = word_of_nat (length es) # z3"
    using r_to_ok [OF t3] r_to_unread [OF t3 q2(2)] by (simp_all add: z2_def)
  obtain r4 where 4: "r_u8 r3 = Some (word_of_nat (length es), r4)" and t4: "r_to r3 [word_of_nat (length es)] r4"
    using r_u8_I [OF q3] r_u8_D q3(1) by blast
  have q4: "r_ok r4" "unread r4 = concat (map enc_entry es) @ []"
    using r_to_ok [OF t4] r_to_unread [OF t4, of z3] q3 by (simp_all add: z3_def)
  have b4: "r_buf r4 = ?payload"
    by (simp add: r_to_buf [OF t4] r_to_buf [OF t3] r_to_buf [OF t2] r_to_buf [OF t1])
  have buf: "drop (r_pos r4) ?payload = concat (map enc_entry es)"
    using q4(2) unfolding unread_def b4 by simp
  have end': "r_pos (r_adv (length (concat (map enc_entry es))) r4) = length ?payload"
    using length_unread [of r4] q4 b4 by (simp add: r_ok_def)
  let ?h = "hello_of ack bridge ident es"
  have chk: "hello_check ?h (length es) 0 r4 =
     (if table_bad ident [] es then Inl Wire_Malformed else Inr (r_adv (length (concat (map enc_entry es))) r4))"
    using hello_check_I [OF q4(1) assms(4) q4(2), of ?h "[]"] hello_entries_of [OF assms(4), of ack bridge ident]
      table_bad_as_wire [OF assms(4), of "[]" ident]
    by (simp add: hello_of_def)
  have adr: "validate_address_hashes ?h =
     (if address_hashes_bad [] (hello_addresses ident es) then Inl Wire_Malformed else Inr ())"
    using hello_addresses_as_wire [OF assms(4), of ident]
    by (simp add: validate_address_hashes_def hello_entries_of [OF assms(4)]) (simp add: hello_of_def)
  have h: "\<lparr>hello_ack = f AND HELLO_ACK \<noteq> 0, hello_bridge = f AND HELLO_BRIDGE \<noteq> 0, hello_id = ident,
      hello_count = length es, hello_table = drop (r_pos r4) ?payload\<rparr> = ?h"
    using bits by (simp add: hello_of_def buf)
  have b0: "\<not> (hello_bridge ?h \<and> (word_of_nat (length es) :: u8) \<noteq> 0)"
    using assms(5) by (auto simp: hello_of_def)
  have u: "unat (word_of_nat (length es) :: u8) = length es"
    using assms(3) by (rule unat_len_u8)
  show ?thesis
    using assms(1) bits(1) b0 end' unfolding hello_parse_def 1 option.case prod.case 2 3 4 Let_def h u chk
    by (auto simp: adr table_ok_def)
qed

section \<open>Acceptable tables\<close>

text \<open>What a table has to satisfy, stated without the loops and guards of the parser: every entry is the
  publication, subscription, service or call it says it is, under the hash of its own address; no slot is
  declared twice; two entries that name the same source agree on the contract; and the hash tells the
  addresses of the table apart. \<open>table_ok_iff\<close> shows that the parser's checks amount to this.\<close>

definition hello_sources :: "HelloEntry \<Rightarrow> EndpointRef list" where
  "hello_sources e = sources_iter (he_sources e)"

definition names_type :: "HelloType option \<Rightarrow> bool" where
  "names_type t \<longleftrightarrow> (\<exists>r. t = Some r \<and> valid_type (ht_name r))"

definition role_fits :: "HelloEntry \<Rightarrow> bool" where
  "role_fits e \<longleftrightarrow>
     (he_flags e \<in> {PUB, PUB OR LATCHED} \<and> he_response e = None \<and> hello_sources e = [])
     \<or> (he_flags e = SUB \<and> he_response e = None \<and> hello_sources e \<noteq> [])
     \<or> (he_flags e = SERVE \<and> names_type (he_response e) \<and> hello_sources e = [])
     \<or> (he_flags e = CALLS \<and> names_type (he_response e) \<and> (\<exists>s. hello_sources e = [s]))"

definition hello_entry_fits :: "string \<Rightarrow> HelloEntry \<Rightarrow> bool" where
  "hello_entry_fits ident e \<longleftrightarrow>
     he_hash e = endpoint_hash ident (he_port e) \<and> valid_port (he_port e) \<and> valid_type (he_name e)
     \<and> role_fits e \<and> distinct (hello_sources e)
     \<and> (\<forall>s \<in> set (hello_sources e). valid_namespace (ep_namespace s) \<and> valid_port (ep_port s))"

definition slot_of :: "HelloEntry \<Rightarrow> string \<times> bool" where
  "slot_of e = (he_port e, he_flags e \<in> {PUB, PUB OR LATCHED, SERVE})"

definition contract_of :: "HelloEntry \<Rightarrow> string \<times> u64 \<times> HelloType option \<times> bool" where
  "contract_of e = (he_name e, he_schema e, he_response e, he_flags e = CALLS)"

definition table_addresses :: "string \<Rightarrow> HelloEntry list \<Rightarrow> EndpointRef set" where
  "table_addresses ident es =
     (\<Union>e \<in> set es. insert \<lparr>ep_namespace = ident, ep_port = he_port e\<rparr> (set (hello_sources e)))"

definition table_fits :: "string \<Rightarrow> HelloEntry list \<Rightarrow> bool" where
  "table_fits ident es \<longleftrightarrow>
     (\<forall>e \<in> set es. hello_entry_fits ident e)
     \<and> distinct (map slot_of es)
     \<and> (\<forall>e \<in> set es. \<forall>e' \<in> set es. set (hello_sources e) \<inter> set (hello_sources e') \<noteq> {} \<longrightarrow> contract_of e = contract_of e')
     \<and> inj_on (\<lambda>a. endpoint_hash (ep_namespace a) (ep_port a)) (table_addresses ident es)"

lemma sources_bad_iff:
  "\<not> sources_bad seen ss \<longleftrightarrow>
     (\<forall>s \<in> set ss. valid_namespace (ep_namespace s) \<and> valid_port (ep_port s))
     \<and> distinct ss \<and> set seen \<inter> set ss = {}"
  by (induction ss arbitrary: seen) auto

lemma address_hashes_bad_iff:
  "\<not> address_hashes_bad seen as \<longleftrightarrow>
     inj_on ep_hash (set as) \<and> (\<forall>p \<in> set seen. \<forall>a \<in> set as. ep_hash p = ep_hash a \<longrightarrow> p = a)"
proof (induction as arbitrary: seen)
  case (Cons a as)
  have "ep_hash a \<notin> ep_hash ` (set as - {a}) \<longleftrightarrow> (\<forall>b \<in> set as. ep_hash a = ep_hash b \<longrightarrow> a = b)"
    by (auto simp: image_iff)
  then show ?case
    unfolding address_hashes_bad.simps de_Morgan_disj Cons.IH
    by (simp add: list_ex_iff inj_on_insert) blast
qed simp

lemma direction_cases:
  "direction_of e \<in> {PUB, SUB, SERVE, CALLS} \<and> (he_flags e AND LATCHED \<noteq> 0 \<longrightarrow> direction_of e = PUB)
   \<longleftrightarrow> he_flags e \<in> {PUB, PUB OR LATCHED, SUB, SERVE, CALLS}"
  (is "?L \<longleftrightarrow> ?R")
proof
  assume L: ?L
  have "he_flags e = direction_of e OR (he_flags e AND LATCHED)"
    by (simp add: direction_of_def bit.conj_disj_distrib [symmetric])
  moreover have "he_flags e AND LATCHED = (if he_flags e AND LATCHED \<noteq> 0 then LATCHED else 0)"
    using and_exp_cases [of "he_flags e" 3] by (simp add: LATCHED_def split: if_splits)
  ultimately show ?R
    using L by (auto split: if_splits)
next
  assume ?R
  then show ?L
    by (auto simp: direction_of_def flag_defs)
qed

lemma fits_flags: "hello_entry_fits ident e \<Longrightarrow> he_flags e \<in> {PUB, PUB OR LATCHED, SUB, SERVE, CALLS}"
  by (auto simp: hello_entry_fits_def role_fits_def)

lemma hello_entry_fits_iff:
  "hello_entry_fits ident e \<longleftrightarrow>
     \<not> entry_shape_bad ident e \<and> \<not> source_count_bad e \<and> \<not> sources_bad [] (sources_iter (he_sources e))"
proof (cases "he_flags e \<in> {PUB, PUB OR LATCHED, SUB, SERVE, CALLS}")
  case True
  then have "direction_of e = (if he_flags e = PUB OR LATCHED then PUB else he_flags e)"
    by (auto simp: direction_of_def flag_defs)
  then show ?thesis
    using True
    by (auto simp: hello_entry_fits_def role_fits_def entry_shape_bad_def source_count_bad_def sources_bad_iff
        hello_sources_def names_type_def flag_defs length_Suc_conv is_some_and_def split: option.splits)
next
  case False
  then have "entry_shape_bad ident e"
    using direction_cases [of e] by (auto simp: entry_shape_bad_def Let_def)
  then show ?thesis
    using False fits_flags [of ident e] by blast
qed

lemma conflict_iff:
  assumes "hello_entry_fits ident p" "hello_entry_fits ident e"
    "inj_on (\<lambda>a. endpoint_hash (ep_namespace a) (ep_port a)) {\<lparr>ep_namespace = ident, ep_port = he_port p\<rparr>, \<lparr>ep_namespace = ident, ep_port = he_port e\<rparr>}"
  shows "\<not> previous_conflict p e \<longleftrightarrow> slot_of p \<noteq> slot_of e
    \<and> (set (hello_sources p) \<inter> set (hello_sources e) \<noteq> {} \<longrightarrow> contract_of p = contract_of e)"
proof -
  have out: "is_output (he_flags x) \<longleftrightarrow> he_flags x \<in> {PUB, PUB OR LATCHED, SERVE}"
    and calls: "he_flags x AND CALLS \<noteq> 0 \<longleftrightarrow> he_flags x = CALLS" if "hello_entry_fits ident x" for x
    using fits_flags [OF that] by (auto simp: is_output_def flag_defs)
  have "he_hash p = he_hash e \<Longrightarrow> he_port p = he_port e"
    using inj_onD [OF assms(3), of "\<lparr>ep_namespace = ident, ep_port = he_port p\<rparr>" "\<lparr>ep_namespace = ident, ep_port = he_port e\<rparr>"]
      assms(1,2) by (simp add: hello_entry_fits_def)
  moreover have "list_ex (\<lambda>s. s \<in> set (sources_iter (he_sources e))) (sources_iter (he_sources p))
      \<longleftrightarrow> set (hello_sources p) \<inter> set (hello_sources e) \<noteq> {}"
    by (auto simp: list_ex_iff hello_sources_def)
  moreover have "he_flags p AND CALLS \<noteq> 0 \<longleftrightarrow> he_flags p = CALLS" "he_flags e AND CALLS \<noteq> 0 \<longleftrightarrow> he_flags e = CALLS"
    using calls assms(1,2) by blast+
  ultimately have "previous_conflict p e \<longleftrightarrow>
      (set (hello_sources p) \<inter> set (hello_sources e) \<noteq> {} \<and> contract_of p \<noteq> contract_of e)
      \<or> (he_port p = he_port e \<and> is_output (he_flags p) = is_output (he_flags e))"
    unfolding previous_conflict_def Let_def contract_of_def by auto
  moreover have "slot_of p = slot_of e \<longleftrightarrow> he_port p = he_port e \<and> is_output (he_flags p) = is_output (he_flags e)"
    unfolding slot_of_def out [OF assms(1)] out [OF assms(2)] by simp
  ultimately show ?thesis
    by blast
qed

lemma table_bad_iff:
  "\<not> table_bad ident prev es \<longleftrightarrow> (\<forall>e \<in> set es. hello_entry_fits ident e)
     \<and> (\<forall>p \<in> set prev. \<forall>e \<in> set es. \<not> previous_conflict p e) \<and> sorted_wrt (\<lambda>p e. \<not> previous_conflict p e) es"
  by (induction es arbitrary: prev) (auto simp: entry_bad_def hello_entry_fits_iff list_ex_iff)

lemma sorted_wrt_distinct: "sorted_wrt (\<lambda>x y. f x \<noteq> f y) xs \<longleftrightarrow> distinct (map f xs)"
  by (induction xs) auto

lemma sorted_wrt_pairwise:
  assumes "\<And>x. x \<in> set xs \<Longrightarrow> R x x" "\<And>x y. R x y \<Longrightarrow> R y x"
  shows "sorted_wrt R xs \<longleftrightarrow> (\<forall>x \<in> set xs. \<forall>y \<in> set xs. R x y)"
  using assms by (induction xs) auto

lemma sorted_wrt_conj: "sorted_wrt (\<lambda>x y. P x y \<and> Q x y) xs \<longleftrightarrow> sorted_wrt P xs \<and> sorted_wrt Q xs"
  by (induction xs) auto

lemma sorted_wrt_cong_set:
  "(\<And>x y. x \<in> set xs \<Longrightarrow> y \<in> set xs \<Longrightarrow> P x y = Q x y) \<Longrightarrow> sorted_wrt P xs = sorted_wrt Q xs"
  by (induction xs) auto

lemma set_hello_addresses: "set (hello_addresses ident es) = table_addresses ident es"
  by (auto simp: hello_addresses_def table_addresses_def hello_sources_def)

lemma table_ok_iff: "table_ok ident es \<longleftrightarrow> table_fits ident es"
proof -
  let ?inj = "inj_on (\<lambda>a. endpoint_hash (ep_namespace a) (ep_port a)) (table_addresses ident es)"
  let ?agree = "\<lambda>p e. set (hello_sources p) \<inter> set (hello_sources e) \<noteq> {} \<longrightarrow> contract_of p = contract_of e"
  have inj: "\<not> address_hashes_bad [] (hello_addresses ident es) \<longleftrightarrow> ?inj"
    by (simp add: address_hashes_bad_iff set_hello_addresses ep_hash_def [abs_def])
  have "sorted_wrt (\<lambda>p e. \<not> previous_conflict p e) es \<longleftrightarrow> sorted_wrt (\<lambda>p e. slot_of p \<noteq> slot_of e \<and> ?agree p e) es"
    if fit: "\<forall>e \<in> set es. hello_entry_fits ident e" and i: ?inj
  proof (rule sorted_wrt_cong_set)
    fix p e assume pe: "p \<in> set es" "e \<in> set es"
    show "(\<not> previous_conflict p e) = (slot_of p \<noteq> slot_of e \<and> ?agree p e)"
      using fit pe by (intro conflict_iff [where ident = ident] inj_on_subset [OF i]) (auto simp: table_addresses_def)
  qed
  moreover have "sorted_wrt ?agree es \<longleftrightarrow> (\<forall>p \<in> set es. \<forall>e \<in> set es. ?agree p e)"
    by (rule sorted_wrt_pairwise) (auto simp: Int_commute)
  ultimately show ?thesis
    unfolding table_ok_def table_fits_def inj table_bad_iff
    by (auto simp: sorted_wrt_conj sorted_wrt_distinct)
qed

text \<open>A Hello is acceptable if its namespace is valid and its strings and counts fit their length bytes, if a
  bridge declares nothing, and if its table fits.\<close>

definition hello_acceptable :: "bool \<Rightarrow> string \<Rightarrow> HelloEntry list \<Rightarrow> bool" where
  "hello_acceptable bridge ident es \<longleftrightarrow>
     valid_namespace ident \<and> ok_str ident \<and> length es \<le> 255 \<and> list_all ok_entry es
     \<and> (bridge \<longrightarrow> es = []) \<and> table_fits ident es"

lemma hello_acceptable_table: "hello_acceptable bridge ident es \<Longrightarrow> table_ok ident es"
  by (simp add: hello_acceptable_def table_ok_iff)

lemma hello_parse_D:
  assumes "hello_parse payload = Inr h"
  shows "\<exists>es. payload = hello_bytes (hello_ack h) (hello_bridge h) (hello_id h) es
    \<and> h = hello_of (hello_ack h) (hello_bridge h) (hello_id h) es
    \<and> hello_acceptable (hello_bridge h) (hello_id h) es \<and> hello_entries h = es"
proof -
  let ?r = "\<lparr>r_buf = payload, r_pos = 0\<rparr>"
  obtain f r1 r2 r3 count r4 r5
    where 1: "r_u8 ?r = Some (f, r1)" and f: "f AND NOT (HELLO_ACK OR HELLO_BRIDGE) = 0"
      and 2: "r_bytes 2 r1 = Some (to_le_bytes SCHEMA_FINGERPRINT_VERSION, r2)"
      and 3: "r_str r2 = Some (hello_id h, r3)" and ns: "valid_namespace (hello_id h)"
      and 4: "r_u8 r3 = Some (count, r4)"
      and h: "h = \<lparr>hello_ack = f AND HELLO_ACK \<noteq> 0, hello_bridge = f AND HELLO_BRIDGE \<noteq> 0,
        hello_id = hello_id h, hello_count = unat count, hello_table = drop (r_pos r4) payload\<rparr>"
      and b: "\<not> (hello_bridge h \<and> count \<noteq> 0)"
      and 5: "hello_check h (unat count) 0 r4 = Inr r5" and e: "r_pos r5 = length payload"
    using assms unfolding hello_parse_def
    by (auto simp: Let_def res_simps split: option.splits if_splits)
  have t1: "r_to ?r [f] r1"
    by (rule r_u8_D [OF 1]) (simp add: r_ok_def)
  have t2: "r_to r1 (to_le_bytes SCHEMA_FINGERPRINT_VERSION) r2"
    using r_bytes_D [OF 2 r_to_ok [OF t1]] by simp
  have t3: "ok_str (hello_id h)" "r_to r2 (enc_str (hello_id h)) r3"
    using r_str_D [OF 3 r_to_ok [OF t2]] by simp_all
  have t4: "r_to r3 [count] r4"
    by (rule r_u8_D [OF 4 r_to_ok [OF t3(2)]])
  obtain es where es: "length es = unat count" "list_all ok_entry es" "map as_wire es = es"
    and t5: "r_to r4 (concat (map enc_entry es)) r5"
    using hello_check_D [OF 5 r_to_ok [OF t4]] by blast
  have b4: "r_buf r4 = payload"
    by (simp add: r_to_buf [OF t4] r_to_buf [OF t3(2)] r_to_buf [OF t2] r_to_buf [OF t1])
  have r5: "unread r5 = []"
    using e b4 by (simp add: unread_def r_to_buf [OF t5])
  have count: "word_of_nat (length es) = count" "length es \<le> 255"
    using es(1) unat_lt [of count] by auto
  have fl: "f = (if hello_ack h then HELLO_ACK else 0) OR (if hello_bridge h then HELLO_BRIDGE else 0)"
    using hello_flags_cases [OF f] by (subst (1 2) h) simp
  have pay: "payload = hello_bytes (hello_ack h) (hello_bridge h) (hello_id h) es"
    using r_to_trans [OF t1 r_to_trans [OF t2 r_to_trans [OF t3(2) r_to_trans [OF t4 t5]]]] r5
    unfolding hello_bytes_def count fl [symmetric] by (auto dest!: r_to_eq simp: unread_def)
  have "drop (r_pos r4) payload = concat (map enc_entry es)"
    using r_to_eq [OF t5] r5 b4 by (simp add: unread_def)
  then have fields: "hello_count h = length es" "hello_table h = concat (map enc_entry es)"
    using es(1) by (subst h, simp)+
  have hof: "h = hello_of (hello_ack h) (hello_bridge h) (hello_id h) es"
    by (simp add: hello_of_def fields [symmetric])
  have br: "hello_bridge h \<longrightarrow> es = []"
    using b es(1) by auto
  have "table_ok (hello_id h) es"
    using assms hello_parse_bytes [OF ns t3(1) count(2) es(2) br, of "hello_ack h"]
    by (simp add: pay [symmetric] split: if_splits)
  then have "hello_acceptable (hello_bridge h) (hello_id h) es"
    using ns t3(1) count(2) es(2) br by (simp add: hello_acceptable_def table_ok_iff)
  moreover have "hello_entries h = es"
    by (subst hof) (simp add: hello_entries_of [OF es(2)] es(3))
  ultimately show ?thesis
    using pay hof by blast
qed

section \<open>Writers\<close>

declare w_seq.simps [simp del]

text \<open>\<open>writes op P b\<close>: the write succeeds exactly when \<open>P\<close> holds and \<open>b\<close> fits, and then appends
  \<open>b\<close>.\<close>

definition w_app :: "Writer \<Rightarrow> bytes \<Rightarrow> Writer" where
  "w_app w b = w\<lparr>w_out := copy_at (w_out w) (w_pos w) b, w_pos := w_pos w + length b\<rparr>"

definition writes :: "w_op \<Rightarrow> bool \<Rightarrow> bytes \<Rightarrow> bool" where
  "writes op P b \<longleftrightarrow>
     (\<forall>w w'. w_pos w \<le> length (w_out w) \<longrightarrow>
        (op w = (Inr (), w') \<longleftrightarrow>
         P \<and> w_pos w + length b \<le> length (w_out w) \<and> w' = w_app w b))"

definition w_keeps :: "w_op \<Rightarrow> bool" where
  "w_keeps op \<longleftrightarrow> (\<forall>w. length (w_out (snd (op w))) = length (w_out w))"

lemma w_app_app:
  "w_pos w + length b + length d \<le> length (w_out w) \<Longrightarrow> w_app (w_app w b) d = w_app w (b @ d)"
  by (simp add: w_app_def copy_at_copy_at_adjacent)

lemma length_w_app: "w_pos w + length b \<le> length (w_out w) \<Longrightarrow> length (w_out (w_app w b)) = length (w_out w)"
  by (simp add: w_app_def)

lemma writes_bytes: "writes (w_bytes b) True b"
  by (auto simp: writes_def w_bytes_def w_app_def Let_def)

lemma writes_fail: "writes w_fail False b"
  by (simp add: writes_def w_fail_def)

lemma writes_seq_Nil: "writes (w_seq []) True []"
  by (auto simp: writes_def w_app_def w_seq.simps)

lemma writes_D: "writes op P b \<Longrightarrow> w_pos w \<le> length (w_out w) \<Longrightarrow>
   op w = (Inr (), w') \<longleftrightarrow> P \<and> w_pos w + length b \<le> length (w_out w) \<and> w' = w_app w b"
  unfolding writes_def by blast

lemma writes_seq_Cons:
  assumes "writes op P b" "writes (w_seq ops) Q d"
  shows "writes (w_seq (op # ops)) (P \<and> Q) (b @ d)"
  unfolding writes_def
proof (intro allI impI)
  fix w w' :: Writer
  assume ok: "w_pos w \<le> length (w_out w)"
  show "w_seq (op # ops) w = (Inr (), w') \<longleftrightarrow>
    (P \<and> Q) \<and> w_pos w + length (b @ d) \<le> length (w_out w) \<and> w' = w_app w (b @ d)"
  proof (cases "op w = (Inr (), w_app w b)")
    case False
    then have "\<not> (P \<and> w_pos w + length b \<le> length (w_out w))"
      using writes_D [OF assms(1) ok] by blast
    moreover have "fst (op w) \<noteq> Inr ()"
      using calculation writes_D [OF assms(1) ok, of "snd (op w)"] by (cases "op w") auto
    ultimately show ?thesis
      by (auto simp: w_seq.simps split: prod.splits sum.splits)
  next
    case True
    then have 1: "P" "w_pos w + length b \<le> length (w_out w)"
      using writes_D [OF assms(1) ok] by blast+
    then have "w_pos (w_app w b) \<le> length (w_out (w_app w b))"
      by (simp add: w_app_def)
    from writes_D [OF assms(2) this, of w'] 1 True show ?thesis
      by (auto simp: w_seq.simps w_app_def copy_at_copy_at_adjacent add.assoc)
  qed
qed

lemma writes_seq_append:
  assumes "writes (w_seq xs) P b" "writes (w_seq ys) Q d"
  shows "writes (w_seq (xs @ ys)) (P \<and> Q) (b @ d)"
proof -
  have "w_seq (xs @ ys) = w_seq [w_seq xs, w_seq ys]"
  proof
    fix w
    show "w_seq (xs @ ys) w = w_seq [w_seq xs, w_seq ys] w"
      by (induction xs arbitrary: w) (auto simp: w_seq.simps split: prod.splits sum.splits)
  qed
  then show ?thesis
    using writes_seq_Cons [OF assms(1) writes_seq_Cons [OF assms(2) writes_seq_Nil]] by simp
qed

lemma writes_str: "writes (w_str s) (length s \<le> 255) (enc_str s)"
proof (cases "length s \<le> 255")
  case True
  then show ?thesis
    using writes_seq_Cons [OF writes_bytes writes_seq_Cons [OF writes_bytes writes_seq_Nil],
        of "[word_of_nat (length s)]" "as_bytes s"]
    by (simp add: w_str_def w_u8_def enc_str_def)
next
  case False
  then show ?thesis
    using writes_fail by (simp add: w_str_def)
qed

lemmas writes_ints = writes_bytes [of "[v]" for v, folded w_u8_def]
  writes_bytes [of "to_le_bytes v" for v :: u32, folded w_u32_def]
  writes_bytes [of "to_le_bytes v" for v :: u64, folded w_u64_def]

definition len_ok_entry :: "HelloEntry \<Rightarrow> bool" where
  "len_ok_entry e \<longleftrightarrow> length (he_port e) \<le> 255 \<and> length (he_name e) \<le> 255
     \<and> (\<forall>t. he_response e = Some t \<longrightarrow> length (ht_name t) \<le> 255)
     \<and> length (sources_iter (he_sources e)) \<le> 255
     \<and> list_all (\<lambda>s. length (ep_namespace s) \<le> 255 \<and> length (ep_port s) \<le> 255)
         (sources_iter (he_sources e))"

lemma writes_response:
  "writes (w_response t) (\<forall>x. t = Some x \<longrightarrow> length (ht_name x) \<le> 255) (enc_response t)"
proof (cases t)
  case None
  then show ?thesis
    using writes_seq_Cons [OF writes_ints(1) writes_seq_Nil, of 0]
    by (simp add: w_response_def enc_response_def)
next
  case (Some x)
  then show ?thesis
    using writes_seq_Cons [OF writes_ints(1) writes_seq_Cons [OF writes_str
        writes_seq_Cons [OF writes_ints(3) writes_seq_Nil]], of 1 "ht_name x" "ht_schema x"]
    by (simp add: w_response_def enc_response_def)
qed

lemma writes_pairs:
  "writes (w_seq (concat (map (\<lambda>s. [w_str (ep_namespace s), w_str (ep_port s)]) ps)))
     (list_all (\<lambda>s. length (ep_namespace s) \<le> 255 \<and> length (ep_port s) \<le> 255) ps)
     (concat (map enc_pair ps))"
proof (induction ps)
  case Nil
  then show ?case
    using writes_seq_Nil by simp
next
  case (Cons p ps)
  from writes_seq_Cons [OF writes_str writes_seq_Cons [OF writes_str Cons.IH], of "ep_namespace p" "ep_port p"]
  show ?case
    by (simp add: enc_pair_def conj_assoc)
qed

lemma writes_entry: "writes (w_entry e) (len_ok_entry e) (enc_entry e)"
proof -
  define ps where "ps = sources_iter (he_sources e)"
  have count: "writes (if length ps > 255 then w_fail else w_u8 (word_of_nat (length ps)))
      (length ps \<le> 255) [word_of_nat (length ps)]"
    using writes_fail writes_ints(1) [of "word_of_nat (length ps)"] by auto
  have "writes (w_seq (w_u32 (he_hash e) # w_u8 (he_flags e OR SCHEMA_FINGERPRINT) # w_str (he_port e)
      # w_str (he_name e) # w_u64 (he_schema e) # w_response (he_response e)
      # (if length ps > 255 then w_fail else w_u8 (word_of_nat (length ps)))
      # concat (map (\<lambda>s. [w_str (ep_namespace s), w_str (ep_port s)]) ps)))
     (True \<and> True \<and> length (he_port e) \<le> 255 \<and> length (he_name e) \<le> 255 \<and> True
      \<and> (\<forall>x. he_response e = Some x \<longrightarrow> length (ht_name x) \<le> 255) \<and> length ps \<le> 255
      \<and> list_all (\<lambda>s. length (ep_namespace s) \<le> 255 \<and> length (ep_port s) \<le> 255) ps)
     (to_le_bytes (he_hash e) @ [he_flags e OR SCHEMA_FINGERPRINT] @ enc_str (he_port e)
      @ enc_str (he_name e) @ to_le_bytes (he_schema e) @ enc_response (he_response e)
      @ [word_of_nat (length ps)] @ concat (map enc_pair ps))"
    by (intro writes_seq_Cons writes_ints writes_str writes_response count writes_pairs)
  then show ?thesis
    unfolding w_entry_def enc_entry_def len_ok_entry_def Let_def ps_def [symmetric]
    by (simp split del: if_split)
qed

lemma w_entries_iff:
  "w_pos w \<le> length (w_out w) \<Longrightarrow> count \<le> 255 \<Longrightarrow>
   w_entries es count w = (Inr n, w') \<longleftrightarrow>
     list_all len_ok_entry es \<and> n = count + length es \<and> n \<le> 255
     \<and> w_pos w + length (concat (map enc_entry es)) \<le> length (w_out w)
     \<and> w' = w_app w (concat (map enc_entry es))"
proof (induction es arbitrary: count w)
  case Nil
  then show ?case
    by (auto simp: w_app_def)
next
  case (Cons e es)
  show ?case
  proof (cases "len_ok_entry e \<and> w_pos w + length (enc_entry e) \<le> length (w_out w)")
    case False
    then have "fst (w_entry e w) \<noteq> Inr ()"
      using writes_D [OF writes_entry [of e] Cons.prems(1), of "snd (w_entry e w)"] by (cases "w_entry e w") auto
    with False show ?thesis
      by (auto split: prod.splits sum.splits)
  next
    case True
    then have e: "w_entry e w = (Inr (), w_app w (enc_entry e))"
      using writes_D [OF writes_entry [of e] Cons.prems(1)] by blast
    have ok: "w_pos (w_app w (enc_entry e)) \<le> length (w_out (w_app w (enc_entry e)))"
      using True by (simp add: w_app_def)
    show ?thesis
    proof (cases "count + 1 \<le> 255")
      case c: True
      from Cons.IH [OF ok c] True show ?thesis
        by (auto simp: e w_app_def copy_at_copy_at_adjacent add.assoc)
    qed (simp add: e)
  qed
qed

lemma hello_write_Inr_iff:
  "hello_write out ack bridge ident es = (Inr n, out') \<longleftrightarrow>
     length ident \<le> 255 \<and> list_all len_ok_entry es \<and> length es \<le> 255
     \<and> n = length (hello_bytes ack bridge ident es) \<and> n \<le> length out
     \<and> out' = copy_at out 0 (hello_bytes ack bridge ident es)"
proof -
  let ?f = "(if ack then HELLO_ACK else 0) OR (if bridge then HELLO_BRIDGE else 0)"
  define pre where "pre = [?f] @ to_le_bytes SCHEMA_FINGERPRINT_VERSION @ enc_str ident @ []"
  define ops where "ops = [w_u8 ?f, w_bytes (to_le_bytes SCHEMA_FINGERPRINT_VERSION), w_str ident]"
  define ents where "ents = concat (map enc_entry es)"
  let ?w = "\<lparr>w_out = out, w_pos = 0\<rparr>"
  have hb: "hello_bytes ack bridge ident es = pre @ [word_of_nat (length es)] @ ents"
    by (simp add: hello_bytes_def pre_def ents_def)
  have "writes (w_seq ops) (True \<and> True \<and> length ident \<le> 255 \<and> True) pre"
    unfolding ops_def pre_def
    by (intro writes_seq_Cons writes_ints writes_bytes writes_str writes_seq_Nil)
  then have w0: "w_seq ops ?w = (Inr (), w') \<longleftrightarrow> length ident \<le> 255 \<and> length pre \<le> length out \<and> w' = w_app ?w pre" for w'
    using writes_D [of "w_seq ops" _ pre ?w w'] by simp
  show ?thesis
  proof (cases "length ident \<le> 255 \<and> length pre + 1 \<le> length out")
    case True
    then have 0: "w_seq ops ?w = (Inr (), w_app ?w pre)"
      using w0 by simp
    have 1: "w_u8 0 (w_app ?w pre) = (Inr (), w_app ?w (pre @ [0]))"
      using True copy_at_copy_at_adjacent [of 0 pre "[0]" out]
      by (simp add: w_u8_def w_bytes_def Let_def w_app_def)
    have ok: "w_pos (w_app ?w (pre @ [0])) \<le> length (w_out (w_app ?w (pre @ [0])))"
      using True by (simp add: w_app_def)
    have upd: "(w_out (w_app (w_app ?w (pre @ [0])) ents))[length pre := word_of_nat (length es)]
        = copy_at out 0 (hello_bytes ack bridge ident es)"
      if "length pre + 1 + length ents \<le> length out"
      using that by (simp add: w_app_app hb) (simp add: w_app_def copy_at_def list_update_append)
    have pos: "w_pos (w_app ?w pre) = length pre"
      by (simp add: w_app_def)
    have "hello_write out ack bridge ident es =
      (case w_entries es 0 (w_app ?w (pre @ [0])) of
         (Inl e, w2) \<Rightarrow> (Inl e, w_out w2)
       | (Inr count, w2) \<Rightarrow> (Inr (w_pos w2), (w_out w2)[length pre := word_of_nat count]))"
      unfolding hello_write_def ops_def [symmetric] 0 prod.case sum.case Let_def 1 pos ..
    note hw = this
    let ?u = "w_app ?w (pre @ [0])"
    have iff: "w_entries es 0 ?u = (Inr m, u) \<longleftrightarrow> list_all len_ok_entry es \<and> m = length es \<and> m \<le> 255
        \<and> length pre + 1 + length ents \<le> length out \<and> u = w_app ?u ents" for m u
      using w_entries_iff [OF ok, of 0 es m u, folded ents_def] True
      by (simp add: length_w_app) (simp add: w_app_def)
    show ?thesis
    proof (cases "list_all len_ok_entry es \<and> length es \<le> 255 \<and> length pre + 1 + length ents \<le> length out")
      case t: True
      then have e: "w_entries es 0 ?u = (Inr (length es), w_app ?u ents)"
        using iff by blast
      have "w_pos (w_app ?u ents) = length pre + 1 + length ents"
        by (simp add: w_app_def)
      then show ?thesis
        unfolding hw e using t True upd by (auto simp: hb)
    next
      case f: False
      have "fst (w_entries es 0 ?u) \<noteq> Inr m" for m
        using f iff [of m "snd (w_entries es 0 ?u)"] by (cases "w_entries es 0 ?u") auto
      then obtain e u where "w_entries es 0 ?u = (Inl e, u)"
        by (metis (no_types, opaque_lifting) old.sum.exhaust prod.collapse)
      then show ?thesis
        unfolding hw using f by (auto simp: hb)
    qed
  next
    case False
    show ?thesis
    proof (cases "w_seq ops ?w = (Inr (), w_app ?w pre)")
      case f: False
      then have "fst (w_seq ops ?w) \<noteq> Inr ()"
        using w0 [of "snd (w_seq ops ?w)"] w0 [of "w_app ?w pre"] by (cases "w_seq ops ?w") auto
      moreover have "\<not> (length ident \<le> 255 \<and> length pre \<le> length out)"
        using f w0 by blast
      ultimately show ?thesis
        by (auto simp: hello_write_def ops_def [symmetric] hb split: prod.splits sum.splits)
    next
      case True
      then have "length ident \<le> 255" "length pre = length out"
        using False w0 [of "w_app ?w pre"] by auto
      then have "w_u8 0 (w_app ?w pre) = (Inl Wire_TooLarge, w_app ?w pre)"
        by (simp add: w_u8_def w_bytes_def Let_def w_app_def)
      with True \<open>length pre = length out\<close> show ?thesis
        by (simp add: hello_write_def ops_def [symmetric] hb Let_def)
    qed
  qed
qed

text \<open>Success or not, a write keeps the size of the buffer.\<close>

lemma w_keeps_bytes: "w_keeps (w_bytes b)" and w_keeps_fail: "w_keeps w_fail"
  by (simp_all add: w_keeps_def w_bytes_def w_fail_def Let_def)

lemma w_keeps_seq: "list_all w_keeps ops \<Longrightarrow> w_keeps (w_seq ops)"
  unfolding w_keeps_def
proof (induction ops)
  case (Cons op ops)
  then have "length (w_out (snd (op w))) = length (w_out w)"
    and "length (w_out (snd (w_seq ops w))) = length (w_out w)" for w
    by auto
  then show ?case
    by (auto simp: w_seq.simps split: prod.splits sum.splits) (metis snd_conv)+
qed (simp add: w_seq.simps)

lemma w_keeps_str: "w_keeps (w_str s)"
  by (auto simp: w_str_def w_u8_def intro!: w_keeps_seq w_keeps_bytes w_keeps_fail)

lemma w_keeps_entry: "w_keeps (w_entry e)"
  by (auto simp: w_entry_def Let_def w_u8_def w_u32_def w_u64_def w_response_def list_all_iff
      split: option.splits intro!: w_keeps_seq w_keeps_bytes w_keeps_fail w_keeps_str)

lemma w_keeps_entries: "length (w_out (snd (w_entries es count w))) = length (w_out w)"
proof (induction es arbitrary: count w)
  case (Cons e es)
  have "length (w_out (snd (w_entry e w))) = length (w_out w)"
    using w_keeps_entry by (simp add: w_keeps_def)
  then show ?case
    using Cons.IH by (auto split: prod.splits sum.splits)
qed simp

lemma length_hello_write: "length (snd (hello_write out ack bridge ident es)) = length out"
proof -
  have k1: "length (w_out (snd (w_seq [w_u8 a, w_bytes b, w_str ident] w))) = length (w_out w)" for a b w
  proof -
    have "w_keeps (w_seq [w_u8 a, w_bytes b, w_str ident])"
      by (rule w_keeps_seq) (simp add: w_u8_def w_keeps_bytes w_keeps_str)
    then show ?thesis
      by (simp add: w_keeps_def)
  qed
  have k2: "length (w_out (snd (w_u8 a w))) = length (w_out w)" for a w
    using w_keeps_bytes by (simp add: w_u8_def w_keeps_def)
  have k3: "length (w_out (snd (w_entries es 0 w))) = length (w_out w)" for w
    by (rule w_keeps_entries)
  let ?ops = "[w_u8 ((if ack then HELLO_ACK else 0) OR (if bridge then HELLO_BRIDGE else 0)),
          w_bytes (to_le_bytes SCHEMA_FINGERPRINT_VERSION), w_str ident]"
  obtain r0 w0 where 0: "w_seq ?ops \<lparr>w_out = out, w_pos = 0\<rparr> = (r0, w0)"
    by fastforce
  obtain r1 w1 where 1: "w_u8 0 w0 = (r1, w1)"
    by fastforce
  obtain r2 w2 where 2: "w_entries es 0 w1 = (r2, w2)"
    by fastforce
  have "length (w_out w0) = length out" "length (w_out w1) = length out" "length (w_out w2) = length out"
    using k1 [of _ _ "\<lparr>w_out = out, w_pos = 0\<rparr>"] k2 [of 0 w0] k3 [of w1]
      arg_cong [OF 0, of snd] 1 2 by (metis Writer.select_convs(1) snd_conv)+
  then show ?thesis
    by (cases r0; cases r1; cases r2) (simp_all add: hello_write_def 0 1 2 Let_def)
qed

end
