(* ===== verification/Wire_Frames.thy ===== *)
theory Wire_Frames
  imports Wire
begin

text \<open>
  Frames on the wire: \<open>frame_bytes\<close> is the raw frame a header and a payload stand for, \<open>frame_wire\<close>
  its COBS form with the delimiter. \<open>seal\<close> produces \<open>frame_bytes\<close>, \<open>parse\<close> accepts exactly the
  \<open>frame_bytes\<close>, and under the laws of the codec the delimiter ends the frame and nothing else.
\<close>

definition frame_body :: "Header \<Rightarrow> bytes \<Rightarrow> bytes" where
  "frame_body h p =
     [82, 89, EPOCH, kind_as_u8 (hd_kind h)] @ to_le_bytes (hd_hash h) @ [hd_seq h] @ p"

definition frame_bytes :: "codec \<Rightarrow> Header \<Rightarrow> bytes \<Rightarrow> bytes" where
  "frame_bytes c h p = frame_body h p @ to_le_bytes (crc16 c (frame_body h p))"

definition frame_wire :: "codec \<Rightarrow> Header \<Rightarrow> bytes \<Rightarrow> bytes" where
  "frame_wire c h p = cobs_encode c (frame_bytes c h p) @ [DELIMITER]"

lemma kind_from_as_u8 [simp]: "kind_from_u8 (kind_as_u8 k) = Some k"
  by (cases k) (simp_all add: kind_from_u8_def)

lemma kind_from_u8_Some_iff: "kind_from_u8 b = Some k \<longleftrightarrow> b = kind_as_u8 k"
  by (cases k) (auto simp: kind_from_u8_def split: if_splits)

lemma length_frame_body [simp]: "length (frame_body h p) = HEADER + length p"
  by (simp add: frame_body_def HEADER_def)

lemma length_frame_bytes [simp]: "length (frame_bytes c h p) = OVERHEAD + length p"
  by (simp add: frame_bytes_def wire_consts)

lemma list_of_length_2: "length xs = 2 \<Longrightarrow> \<exists>a b. xs = [a, b]"
  by (auto simp: numeral_2_eq_2 length_Suc_conv)

lemma list_of_length_4: "length xs = 4 \<Longrightarrow> \<exists>a b c d. xs = [a, b, c, d]"
  by (auto simp: eval_nat_numeral length_Suc_conv)

lemma list_of_length_9:
  "length xs = 9 \<Longrightarrow> \<exists>b0 b1 b2 b3 b4 b5 b6 b7 b8. xs = [b0, b1, b2, b3, b4, b5, b6, b7, b8]"
  by (auto simp: eval_nat_numeral length_Suc_conv)

lemma split_header:
  assumes "9 \<le> length xs"
  obtains b0 b1 b2 b3 b4 b5 b6 b7 b8 r where "xs = [b0, b1, b2, b3, b4, b5, b6, b7, b8] @ r"
proof -
  have "length (take 9 xs) = 9"
    using assms by simp
  then obtain b0 b1 b2 b3 b4 b5 b6 b7 b8 where "take 9 xs = [b0, b1, b2, b3, b4, b5, b6, b7, b8]"
    using list_of_length_9 by blast
  then show thesis
    using that append_take_drop_id [of 9 xs] by metis
qed

lemmas to_le_bytes_u16_list = list_of_length_2 [OF length_to_le_bytes_u16]
lemmas to_le_bytes_u32_list = list_of_length_4 [OF length_to_le_bytes_u32]

lemma seal_ok:
  assumes "OVERHEAD + n \<le> length buf"
  shows "\<exists>buf'. seal c buf h n = Inr (buf', OVERHEAD + n) \<and> length buf' = length buf
    \<and> take (OVERHEAD + n) buf' = frame_bytes c h (slice buf HEADER (HEADER + n))"
proof -
  have "9 \<le> length buf"
    using assms by (simp add: wire_consts)
  then obtain b0 b1 b2 b3 b4 b5 b6 b7 b8 r where
    buf: "buf = [b0, b1, b2, b3, b4, b5, b6, b7, b8] @ r"
    by (rule split_header)
  have n: "n \<le> length r" "2 + n \<le> length r"
    using assms by (simp_all add: buf wire_consts)
  obtain a0 a1 a2 a3 where hash: "to_le_bytes (hd_hash h) = [a0, a1, a2, a3]"
    using to_le_bytes_u32_list by blast
  define body where "body = [82, 89, EPOCH, kind_as_u8 (hd_kind h), a0, a1, a2, a3, hd_seq h] @ take n r"
  have fb: "frame_body h (slice buf HEADER (HEADER + n)) = body"
    using n by (simp add: frame_body_def body_def buf slice_def HEADER_def hash)
  obtain c0 c1 where crc: "to_le_bytes (crc16 c body) = [c0, c1]"
    using to_le_bytes_u16_list by blast
  let ?hdr = "[82, 89, EPOCH, kind_as_u8 (hd_kind h), a0, a1, a2, a3, hd_seq h]"
  have hdr: "(copy_at ((copy_at buf 0 [82, 89, EPOCH])[3 := kind_as_u8 (hd_kind h)]) 4
      (to_le_bytes (hd_hash h)))[8 := hd_seq h] = ?hdr @ r"
    by (simp add: buf copy_at_def hash)
  have body9: "take (9 + n) (?hdr @ r) = body"
    unfolding body_def take_append by simp
  have "copy_at (?hdr @ r) (9 + n) [c0, c1] = body @ [c0, c1] @ drop (n + 2) r"
    unfolding copy_at_def body9 drop_append by simp
  then have "seal c buf h n = Inr (body @ [c0, c1] @ drop (n + 2) r, OVERHEAD + n)"
    using assms body9 unfolding seal_def Let_def hdr by (simp add: HEADER_def crc)
  moreover have "length (body @ [c0, c1] @ drop (n + 2) r) = length buf"
    using n by (simp add: body_def buf)
  moreover have "take (OVERHEAD + n) (body @ [c0, c1] @ drop (n + 2) r) = frame_bytes c h (slice buf HEADER (HEADER + n))"
    using n unfolding frame_bytes_def fb crc
    by (subst append_assoc [symmetric], subst take_append) (simp add: body_def wire_consts)
  ultimately show ?thesis
    by blast
qed

lemma parse_frame_bytes: "parse c (frame_bytes c h p) = Inr (h, p)"
proof -
  obtain a0 a1 a2 a3 where hash: "to_le_bytes (hd_hash h) = [a0, a1, a2, a3]"
    using to_le_bytes_u32_list by blast
  have hash': "from_le_bytes [a0, a1, a2, a3] = hd_hash h"
    using from_to_le_bytes_u32 [of "hd_hash h"] by (simp add: hash)
  define body where "body = frame_body h p"
  obtain c0 c1 where crc: "to_le_bytes (crc16 c body) = [c0, c1]"
    using to_le_bytes_u16_list by blast
  have crc': "from_le_bytes [c0, c1] = crc16 c body"
    using from_to_le_bytes_u16 [of "crc16 c body"] by (simp add: crc)
  have fb: "frame_bytes c h p = body @ [c0, c1]" and len: "length body = 9 + length p"
    by (simp_all add: frame_bytes_def body_def crc [unfolded body_def] HEADER_def)
  have body: "body = [82, 89, EPOCH, kind_as_u8 (hd_kind h), a0, a1, a2, a3, hd_seq h] @ p"
    by (simp add: body_def frame_body_def hash)
  show ?thesis
    unfolding fb parse_def using len crc'
    by (simp add: Let_def wire_consts nth_append body slice_def hash')
qed

lemma parse_Inr_iff: "parse c frame = Inr (h, p) \<longleftrightarrow> frame = frame_bytes c h p"
proof
  assume ok: "parse c frame = Inr (h, p)"
  then have len: "11 \<le> length frame"
    by (auto simp: parse_def wire_consts split: if_splits)
  then have "9 \<le> length frame"
    by simp
  then obtain b0 b1 b2 b3 b4 b5 b6 b7 b8 r where
    frame: "frame = [b0, b1, b2, b3, b4, b5, b6, b7, b8] @ r"
    by (rule split_header)
  have "2 \<le> length r"
    using len by (simp add: frame)
  then have "length (drop (length r - 2) r) = 2"
    by simp
  then obtain t u where tu: "drop (length r - 2) r = [t, u]"
    using list_of_length_2 by blast
  define q where "q = take (length r - 2) r"
  have r: "r = q @ [t, u]"
    using tu append_take_drop_id [of "length r - 2" r] by (simp add: q_def)
  let ?body = "[b0, b1, b2, b3, b4, b5, b6, b7, b8] @ q"
  have parsed: "crc16 c ?body = from_le_bytes [t, u]" "b0 = 82" "b1 = 89" "b2 = EPOCH"
    "kind_from_u8 b3 = Some (hd_kind h)" "hd_hash h = from_le_bytes [b4, b5, b6, b7]"
    "hd_seq h = b8" "p = q"
    using ok by (auto simp: parse_def frame r Let_def wire_consts nth_append slice_def res_simps
        split: if_splits)
  have "to_le_bytes (hd_hash h) = [b4, b5, b6, b7]"
    by (simp add: parsed to_from_le_bytes)
  then have body: "frame_body h p = ?body"
    using parsed by (simp add: frame_body_def kind_from_u8_Some_iff)
  have "to_le_bytes (crc16 c ?body) = [t, u]"
    unfolding parsed(1) by (simp add: to_from_le_bytes)
  then show "frame = frame_bytes c h p"
    unfolding frame_bytes_def body by (simp add: frame r)
qed (simp add: parse_frame_bytes)

section \<open>The codec contract\<close>

text \<open>What the link relies on from the \<^verbatim>\<open>cobs\<close> crate, as it documents it: decoding inverts
  encoding, encoded data holds no zero byte and is no longer than \<open>max_encoding_length\<close>, and decoding
  in place neither moves the end of the buffer nor reports more bytes than it was given. Nothing is
  assumed of the CRC.\<close>

locale cobs_codec =
  fixes c :: codec
  assumes decode_encode: "\<exists>b. cobs_decode_in_place c (cobs_encode c x) = (b, Some (length x)) \<and> take (length x) b = x"
    and encode_nonzero: "0 \<notin> set (cobs_encode c x)"
    and encode_max: "length (cobs_encode c x) \<le> cobs_max c (length x)"
    and decode_length: "length (fst (cobs_decode_in_place c b)) = length b"
    and decode_le: "snd (cobs_decode_in_place c b) = Some n \<Longrightarrow> n \<le> length b"
begin

lemma encode_nonempty: "x \<noteq> [] \<Longrightarrow> cobs_encode c x \<noteq> []"
proof
  assume "x \<noteq> []" and "cobs_encode c x = []"
  moreover obtain b where "cobs_decode_in_place c (cobs_encode c x) = (b, Some (length x))"
    using decode_encode by blast
  ultimately show False
    using decode_le [of "[]" "length x"] by simp
qed

lemma encode_ok:
  assumes "encoded_max c (length raw) \<le> length out"
  shows "encode c raw out = Inr (copy_at out 0 (cobs_encode c raw @ [DELIMITER]), length (cobs_encode c raw) + 1)"
proof -
  have "length (cobs_encode c raw) < length out"
    using assms encode_max [of raw] by (simp add: encoded_max_def)
  then show ?thesis
    using assms by (simp add: encode_def encoded_max_def copy_at_def Let_def list_update_append
        drop_update_swap upd_conv_take_nth_drop Cons_nth_drop_Suc [symmetric])
qed

lemma decode_in_place_encode:
  "\<exists>b. decode_in_place c (cobs_encode c raw) = (b, Inr (length raw)) \<and> take (length raw) b = raw"
  using decode_encode [of raw] by (auto simp: decode_in_place_def)

lemma decode_in_place_length: "length (fst (decode_in_place c b)) = length b"
  using decode_length [of b] by (auto simp: decode_in_place_def split: prod.splits option.splits)

lemma decode_in_place_le: "snd (decode_in_place c b) = Inr n \<Longrightarrow> n \<le> length b"
  using decode_le [of b n] by (auto simp: decode_in_place_def split: prod.splits option.splits)

lemma frame_wire_nonzero: "DELIMITER \<notin> set (cobs_encode c raw)"
  using encode_nonzero by (simp add: DELIMITER_def)

lemma frame_wire_position:
  "position (\<lambda>b. b = DELIMITER) (frame_wire c h p @ rest) = Some (length (frame_wire c h p) - 1)"
  using frame_wire_nonzero [of "frame_bytes c h p"]
  by (auto simp: frame_wire_def intro!: position_append_hit)

lemma frame_wire_max: "length (frame_wire c h p) \<le> encoded_max c (OVERHEAD + length p)"
  using encode_max [of "frame_bytes c h p"] by (simp add: frame_wire_def encoded_max_def)

end

end
