(* ===== verification/Reference_Codec.thy ===== *)
theory Reference_Codec
  imports Wire_Frames
begin

text \<open>
  A codec that satisfies the contract \<open>cobs_codec\<close>: Consistent Overhead Byte Stuffing as published,
  blocks of at most 254 non-zero bytes each led by its length plus one, and the reflected CRC-16 with
  polynomial 0x1021. The model never depends on it; it shows that the laws the link relies on hold of
  the published algorithm, and it is the codec of the concrete runs.
\<close>

fun cobs_blocks :: "bytes \<Rightarrow> bytes \<Rightarrow> bytes" where
  "cobs_blocks acc [] = word_of_nat (length acc + 1) # acc"
| "cobs_blocks acc (b # bs) =
     (if b = 0 then word_of_nat (length acc + 1) # acc @ cobs_blocks [] bs
      else if length acc = 253 then 255 # acc @ b # cobs_blocks [] bs
      else cobs_blocks (acc @ [b]) bs)"

function cobs_unblocks :: "bytes \<Rightarrow> bytes option" where
  "cobs_unblocks [] = Some []"
| "cobs_unblocks (n # bs) =
     (if n = 0 \<or> length bs < unat n - 1 then None
      else
        let block = take (unat n - 1) bs; rest = drop (unat n - 1) bs in
        if 0 \<in> set block then None
        else if rest = [] then Some block
        else map_option (\<lambda>out. block @ (if n = 255 then [] else [0]) @ out) (cobs_unblocks rest))"
  by pat_completeness auto
termination
  by (relation "measure length") auto

declare cobs_unblocks.simps [simp del]

definition crc_bit :: "u16 \<Rightarrow> u16" where
  "crc_bit r = (if r AND 1 \<noteq> 0 then drop_bit 1 r XOR 0x8408 else drop_bit 1 r)"

definition crc_byte :: "u16 \<Rightarrow> u8 \<Rightarrow> u16" where
  "crc_byte r b = (crc_bit ^^ 8) (r XOR ucast b)"

definition ref_codec :: codec where
  "ref_codec = \<lparr>
     crc16 = (\<lambda>bs. fold (\<lambda>b r. crc_byte r b) bs 0),
     cobs_encode = cobs_blocks [],
     cobs_decode_in_place = (\<lambda>b. case cobs_unblocks b of
         None \<Rightarrow> (b, None)
       | Some out \<Rightarrow> (out @ drop (length out) b, Some (length out))),
     cobs_max = (\<lambda>n. n + n div 254 + 1)\<rparr>"

lemma cobs_blocks_nonempty: "cobs_blocks acc bs \<noteq> []"
  by (induction acc bs rule: cobs_blocks.induct) auto

lemma block_code: "n \<le> 253 \<Longrightarrow> unat (word_of_nat (n + 1) :: u8) = n + 1"
  by (simp add: unat_of_nat take_bit_nat_eq_self del: of_nat_Suc of_nat_add)

lemma block_code_ne:
  "n \<le> 253 \<Longrightarrow> (word_of_nat (n + 1) :: u8) \<noteq> 0"
  "n \<le> 253 \<Longrightarrow> (word_of_nat (n + 1) :: u8) \<noteq> 255"
  using block_code [of n] by (auto simp del: of_nat_Suc of_nat_add)

lemma cobs_unblocks_block:
  assumes "length acc \<le> 253" "0 \<notin> set acc" "rest \<noteq> []"
  shows "cobs_unblocks (word_of_nat (length acc + 1) # acc @ rest) =
      map_option (\<lambda>out. acc @ 0 # out) (cobs_unblocks rest)"
  using assms block_code [of "length acc"] block_code_ne [of "length acc"]
  by (simp add: cobs_unblocks.simps Let_def del: of_nat_Suc of_nat_add)

lemma cobs_unblocks_full:
  assumes "length acc = 253" "0 \<notin> set acc" "b \<noteq> 0" "rest \<noteq> []"
  shows "cobs_unblocks (255 # acc @ b # rest) = map_option (\<lambda>out. acc @ b # out) (cobs_unblocks rest)"
  using assms by (simp add: cobs_unblocks.simps Let_def)

lemma cobs_unblocks_blocks:
  "length acc \<le> 253 \<Longrightarrow> 0 \<notin> set acc \<Longrightarrow> cobs_unblocks (cobs_blocks acc bs) = Some (acc @ bs)"
proof (induction acc bs rule: cobs_blocks.induct)
  case (1 acc)
  then show ?case
    using block_code [of "length acc"] block_code_ne [of "length acc"]
    by (simp add: cobs_unblocks.simps Let_def del: of_nat_Suc of_nat_add)
next
  case (2 acc b bs)
  then show ?case
    using cobs_unblocks_block [of acc "cobs_blocks [] bs"] cobs_unblocks_full [of acc b "cobs_blocks [] bs"]
    by (auto simp: cobs_blocks_nonempty simp del: of_nat_Suc of_nat_add)
qed

lemma cobs_blocks_nonzero: "length acc \<le> 253 \<Longrightarrow> 0 \<notin> set acc \<Longrightarrow> 0 \<notin> set (cobs_blocks acc bs)"
proof (induction acc bs rule: cobs_blocks.induct)
  case (1 acc)
  then show ?case
    using block_code_ne [of "length acc"] by (auto simp del: of_nat_Suc of_nat_add)
next
  case (2 acc b bs)
  then show ?case
    using block_code_ne [of "length acc"] by (auto simp del: of_nat_Suc of_nat_add)
qed

lemma cobs_blocks_max:
  "length acc \<le> 253 \<Longrightarrow>
   length (cobs_blocks acc bs) \<le> length acc + length bs + (length acc + length bs) div 254 + 1"
proof (induction acc bs rule: cobs_blocks.induct)
  case (2 acc b bs)
  consider "b = 0" | "b \<noteq> 0" "length acc = 253" | "b \<noteq> 0" "length acc \<noteq> 253"
    by blast
  then show ?case
  proof cases
    case 1
    moreover have "length bs div 254 \<le> (length acc + length (b # bs)) div 254"
      by (rule div_le_mono) simp
    ultimately show ?thesis
      using "2.IH"(1) by simp
  next
    case b: 2
    moreover have "(length acc + length (b # bs)) div 254 = length bs div 254 + 1"
      using b by simp
    ultimately show ?thesis
      using "2.IH"(2) by simp
  next
    case 3
    then show ?thesis
      using "2.IH"(3) "2.prems" by simp
  qed
qed simp

lemma cobs_unblocks_length: "cobs_unblocks b = Some out \<Longrightarrow> length out \<le> length b"
proof (induction b arbitrary: out rule: cobs_unblocks.induct)
  case (2 n bs)
  show ?case
  proof (cases "drop (unat n - 1) bs = []")
    case True
    then show ?thesis
      using "2.prems" by (auto simp: cobs_unblocks.simps Let_def split: if_splits)
  next
    case False
    then obtain out' where "cobs_unblocks (drop (unat n - 1) bs) = Some out'"
      "out = take (unat n - 1) bs @ (if n = 255 then [] else [0]) @ out'"
      using "2.prems" by (auto simp: cobs_unblocks.simps Let_def split: if_splits)
    moreover have "length out' \<le> length (drop (unat n - 1) bs)"
      using "2.IH" "2.prems" False calculation(1)
      by (auto simp: cobs_unblocks.simps Let_def split: if_splits)
    ultimately show ?thesis
      using False by auto
  qed
qed (simp add: cobs_unblocks.simps)

lemmas cobs_roundtrip = cobs_unblocks_blocks [of "[]", simplified]

interpretation ref: cobs_codec ref_codec
proof
  fix x b :: bytes and n :: nat
  show "\<exists>b. cobs_decode_in_place ref_codec (cobs_encode ref_codec x) = (b, Some (length x)) \<and> take (length x) b = x"
    by (simp add: ref_codec_def cobs_roundtrip)
  show "0 \<notin> set (cobs_encode ref_codec x)"
    by (simp add: ref_codec_def cobs_blocks_nonzero)
  show "length (cobs_encode ref_codec x) \<le> cobs_max ref_codec (length x)"
    using cobs_blocks_max [of "[]" x] by (simp add: ref_codec_def)
  show "length (fst (cobs_decode_in_place ref_codec b)) = length b"
    by (auto simp: ref_codec_def dest: cobs_unblocks_length split: option.split)
  show "n \<le> length b" if "snd (cobs_decode_in_place ref_codec b) = Some n"
    using that by (auto simp: ref_codec_def dest: cobs_unblocks_length split: option.splits)
qed

end
