(* ===== verification/Wire_Correct.thy ===== *)
theory Wire_Correct
  imports Wire_Hello Reference_Codec
begin

text \<open>
  The correctness theorems of the wire format: frames and Hello tables survive the round trip, and the
  parsers accept nothing but what the writers produce.
\<close>

section \<open>Frames\<close>

text \<open>\<open>seal\<close> followed by \<open>parse\<close>: if the buffer has room for the header, the payload and the CRC,
  sealing succeeds with the raw length, leaves the buffer's size alone, and parsing the sealed bytes
  gives back the header and the payload, whatever the checksum function is.\<close>

theorem seal_parse_roundtrip:
  assumes "OVERHEAD + n \<le> length buf"
  shows "\<exists>buf'. seal c buf h n = Inr (buf', OVERHEAD + n) \<and> length buf' = length buf
    \<and> parse c (take (OVERHEAD + n) buf') = Inr (h, slice buf HEADER (HEADER + n))"
  using seal_ok [OF assms, of c h] parse_frame_bytes by metis

theorem seal_parse_roundtrip_witness:
  "\<exists>buf'. seal ref_codec (replicate 16 7) \<lparr>hd_kind = Kind_Data, hd_hash = 5, hd_seq = 1\<rparr> 3 = Inr (buf', OVERHEAD + 3)
    \<and> length buf' = length (replicate 16 (7 :: u8))
    \<and> parse ref_codec (take (OVERHEAD + 3) buf') =
        Inr (\<lparr>hd_kind = Kind_Data, hd_hash = 5, hd_seq = 1\<rparr>, slice (replicate 16 7) HEADER (HEADER + 3))"
  by (rule seal_parse_roundtrip) (simp add: wire_consts)

text \<open>C3. \<open>parse\<close> accepts exactly the raw frames: a byte string is parsed to a header and a payload if
  and only if it is the magic, the epoch, the header fields, the payload and their checksum, in that
  order. No second encoding of the same frame exists.\<close>

theorem parse_accepts_exactly: "parse c frame = Inr (h, p) \<longleftrightarrow> frame = frame_bytes c h p"
  by (rule parse_Inr_iff)

text \<open>C11. The whole wire trip of one frame: with room for the worst case, \<open>encode\<close> writes a byte string
  that ends with the only delimiter it contains and is no longer than \<open>encoded_max\<close>; decoding it in
  place and parsing the result gives back header and payload.\<close>

theorem encode_decode_roundtrip:
  assumes "cobs_codec c" "encoded_max c (OVERHEAD + length p) \<le> length out"
  shows "\<exists>out' n buf. encode c (frame_bytes c h p) out = Inr (out', n) \<and> length out' = length out
    \<and> n \<le> encoded_max c (OVERHEAD + length p)
    \<and> position (\<lambda>b. b = DELIMITER) out' = Some (n - 1)
    \<and> decode_in_place c (take (n - 1) out') = (buf, Inr (OVERHEAD + length p))
    \<and> parse c (take (OVERHEAD + length p) buf) = Inr (h, p)"
proof -
  let ?raw = "frame_bytes c h p" and ?enc = "cobs_encode c (frame_bytes c h p)"
  let ?out = "copy_at out 0 (?enc @ [DELIMITER])" and ?n = "length ?enc + 1"
  have len: "length ?raw = OVERHEAD + length p"
    by simp
  have enc: "encode c ?raw out = Inr (?out, ?n)"
    using cobs_codec.encode_ok [OF assms(1), of ?raw out] assms(2) len by simp
  have max: "?n \<le> encoded_max c (OVERHEAD + length p)"
    using cobs_codec.encode_max [OF assms(1), of ?raw] by (simp add: encoded_max_def)
  then have fits: "length (?enc @ [DELIMITER]) \<le> length out"
    using assms(2) by simp
  have "position (\<lambda>b. b = DELIMITER) ?out = Some (?n - 1)"
    using position_append_hit [of ?enc "\<lambda>b. b = DELIMITER" DELIMITER]
      cobs_codec.frame_wire_nonzero [OF assms(1), of ?raw] by (auto simp: copy_at_def)
  moreover obtain buf where "decode_in_place c ?enc = (buf, Inr (length ?raw))" "take (length ?raw) buf = ?raw"
    using cobs_codec.decode_in_place_encode [OF assms(1)] by blast
  moreover have "take (?n - 1) ?out = ?enc"
    by (simp add: copy_at_def)
  ultimately show ?thesis
    using enc max fits len parse_frame_bytes
    by (intro exI [of _ ?out] exI [of _ ?n] exI [of _ buf]) auto
qed

theorem encode_decode_roundtrip_witness:
  "\<exists>out' n buf. encode ref_codec (frame_bytes ref_codec \<lparr>hd_kind = Kind_Ping, hd_hash = 0, hd_seq = 0\<rparr> [0, 1]) (replicate 32 0)
      = Inr (out', n) \<and> length out' = length (replicate 32 (0 :: u8))
    \<and> n \<le> encoded_max ref_codec (OVERHEAD + length [0, 1 :: u8])
    \<and> position (\<lambda>b. b = DELIMITER) out' = Some (n - 1)
    \<and> decode_in_place ref_codec (take (n - 1) out') = (buf, Inr (OVERHEAD + length [0, 1 :: u8]))
    \<and> parse ref_codec (take (OVERHEAD + length [0, 1 :: u8]) buf)
        = Inr (\<lparr>hd_kind = Kind_Ping, hd_hash = 0, hd_seq = 0\<rparr>, [0, 1])"
  by (rule encode_decode_roundtrip [OF ref.cobs_codec_axioms])
    (simp add: wire_consts encoded_max_def ref_codec_def)

section \<open>The Hello table\<close>

text \<open>\<open>hello_write\<close> succeeds exactly when every string and every count fits its length byte and the
  table fits the buffer; it then writes the encoding \<open>hello_bytes\<close> at the front of the buffer, nothing
  else, and returns its length.\<close>

theorem hello_write_exact:
  "hello_write out ack bridge ident es = (Inr n, out') \<longleftrightarrow>
     length ident \<le> 255 \<and> list_all len_ok_entry es \<and> length es \<le> 255
     \<and> n = length (hello_bytes ack bridge ident es) \<and> n \<le> length out
     \<and> out' = copy_at out 0 (hello_bytes ack bridge ident es)"
  by (rule hello_write_Inr_iff)

text \<open>C12. A Hello survives the trip: an acceptable table written into a buffer with room is parsed back,
  with the same flags, namespace and entries (a parsed entry borrows its sources from the wire).\<close>

theorem hello_roundtrip:
  assumes "hello_acceptable bridge ident es" "length (hello_bytes ack bridge ident es) \<le> length out"
  shows "\<exists>n out' h. hello_write out ack bridge ident es = (Inr n, out') \<and> hello_parse (take n out') = Inr h
    \<and> hello_ack h = ack \<and> hello_bridge h = bridge \<and> hello_id h = ident \<and> hello_entries h = map as_wire es
    \<and> map (sources_iter \<circ> he_sources) (hello_entries h) = map (sources_iter \<circ> he_sources) es"
proof -
  let ?b = "hello_bytes ack bridge ident es" and ?h = "hello_of ack bridge ident es"
  have ok: "list_all ok_entry es"
    using assms(1) by (simp add: hello_acceptable_def)
  then have "list_all len_ok_entry es"
    by (auto simp: list_all_iff ok_entry_def len_ok_entry_def ok_str_def ok_pair_def)
  then have "hello_write out ack bridge ident es = (Inr (length ?b), copy_at out 0 ?b)"
    using assms hello_write_Inr_iff by (auto simp: hello_acceptable_def ok_str_def)
  moreover have "hello_parse (take (length ?b) (copy_at out 0 ?b)) = Inr ?h"
    using assms(1) hello_parse_bytes [of ident es bridge ack] hello_acceptable_table [OF assms(1)]
    by (auto simp: hello_acceptable_def copy_at_def)
  moreover have "map (sources_iter \<circ> he_sources) (map as_wire es) = map (sources_iter \<circ> he_sources) es"
    using ok as_wire_idem by (auto simp: list_all_iff)
  ultimately show ?thesis
    using hello_entries_of [OF ok] by (auto simp: hello_of_def)
qed

lemma hello_roundtrip_example: "hello_acceptable False ''a/b''
  [\<lparr>he_hash = endpoint_hash ''a/b'' ''p'', he_flags = PUB OR LATCHED, he_schema = 7, he_name = ''m.T'', he_port = ''p'',
    he_response = None, he_sources = Sources_Static []\<rparr>]"
  by (simp add: hello_acceptable_def table_ok_iff [symmetric] ok_str_def ok_entry_def table_ok_def entry_bad_def
      entry_shape_bad_def source_count_bad_def direction_of_def hello_addresses_def Let_def valid_namespace_def valid_port_def
      valid_type_def ascii_alphanumeric_def ascii_digit_def as_bytes_def flag_defs)

theorem hello_roundtrip_witness:
  "\<exists>n out' h. hello_write (replicate 64 0) True False ''a/b''
      [\<lparr>he_hash = endpoint_hash ''a/b'' ''p'', he_flags = PUB OR LATCHED, he_schema = 7, he_name = ''m.T'', he_port = ''p'',
        he_response = None, he_sources = Sources_Static []\<rparr>] = (Inr n, out')
    \<and> hello_parse (take n out') = Inr h \<and> hello_ack h \<and> hello_id h = ''a/b'' \<and> length (hello_entries h) = 1"
  using hello_roundtrip [OF hello_roundtrip_example, of True "replicate 64 0"]
  by (fastforce simp: hello_bytes_def enc_str_def enc_entry_def enc_response_def)

text \<open>C13. \<open>hello_parse\<close> is strict: what it accepts is the canonical encoding of the table it returns, and
  that table is acceptable: a valid namespace, valid ports and type names, one direction per entry,
  hashes that are the hashes of their addresses, sources as the direction demands and without
  repetition, no slot declared twice, equal contracts for shared sources, no table on a bridge,
  and no two different addresses with the same hash.\<close>

theorem hello_parse_sound:
  assumes "hello_parse payload = Inr h"
  shows "payload = hello_bytes (hello_ack h) (hello_bridge h) (hello_id h) (hello_entries h)
    \<and> hello_acceptable (hello_bridge h) (hello_id h) (hello_entries h)"
  using hello_parse_D [OF assms] by auto

text \<open>A table with a latched publication, a subscription with two sources, a service and a call that shares
  its port with the publication.\<close>

definition ex_table :: "HelloEntry list" where
  "ex_table =
    [\<lparr>he_hash = endpoint_hash ''a/b'' ''p'', he_flags = PUB OR LATCHED, he_schema = 7, he_name = ''m.T'', he_port = ''p'',
       he_response = None, he_sources = Sources_Static []\<rparr>,
     \<lparr>he_hash = endpoint_hash ''a/b'' ''q'', he_flags = SUB, he_schema = 8, he_name = ''m.U'', he_port = ''q'',
       he_response = None,
       he_sources = Sources_Static [\<lparr>ep_namespace = ''c'', ep_port = ''x''\<rparr>, \<lparr>ep_namespace = ''d'', ep_port = ''x''\<rparr>]\<rparr>,
     \<lparr>he_hash = endpoint_hash ''a/b'' ''r'', he_flags = SERVE, he_schema = 9, he_name = ''m.Q'', he_port = ''r'',
       he_response = Some \<lparr>ht_name = ''m.R'', ht_schema = 1\<rparr>, he_sources = Sources_Static []\<rparr>,
     \<lparr>he_hash = endpoint_hash ''a/b'' ''p'', he_flags = CALLS, he_schema = 9, he_name = ''m.Q'', he_port = ''p'',
       he_response = Some \<lparr>ht_name = ''m.R'', ht_schema = 1\<rparr>,
       he_sources = Sources_Static [\<lparr>ep_namespace = ''e'', ep_port = ''y''\<rparr>]\<rparr>]"

lemma ex_table_facts:
  "list_all ok_entry ex_table" "table_ok ''a/b'' ex_table" "valid_namespace ''a/b''" "ok_str ''a/b''" "length ex_table = 4"
      apply (simp add: ex_table_def ok_entry_def ok_pair_def ok_str_def ascii_alphanumeric_def flag_defs as_bytes_def)
     apply code_simp
    apply code_simp
   apply code_simp
  apply code_simp
  done

theorem hello_parse_sound_witness:
  "\<exists>h. hello_parse (hello_bytes True False ''a/b'' ex_table) = Inr h
    \<and> hello_bytes True False ''a/b'' ex_table = hello_bytes (hello_ack h) (hello_bridge h) (hello_id h) (hello_entries h)
    \<and> hello_acceptable (hello_bridge h) (hello_id h) (hello_entries h) \<and> length (hello_entries h) = 4"
proof -
  have "hello_parse (hello_bytes True False ''a/b'' ex_table) = Inr (hello_of True False ''a/b'' ex_table)"
    using hello_parse_bytes [of "''a/b''" ex_table False True] by (simp add: ex_table_facts)
  moreover have "length (hello_entries (hello_of True False ''a/b'' ex_table)) = 4"
    by (simp add: hello_entries_of ex_table_facts)
  ultimately show ?thesis
    using hello_parse_sound by blast
qed

end
