(* ===== verification/Link.thy ===== *)
theory Link
  imports Wire_Hello Wire_Frames
begin

text \<open>
  The link state machine, \<^verbatim>\<open>crates/reiny-link/src/link.rs\<close>: the record \<open>Link\<close> with every
  field of the struct, and one definition per method. The const generics \<open>N\<close> and \<open>FRAME\<close> are
  fields. A method that takes \<open>&mut self\<close> maps a link to its result paired with the new link; a
  method with \<open>&self\<close> is a plain function. References into the static port table are indices into
  it, so that \<open>core::ptr::eq\<close> is equality of indices. Generic type arguments are their associated
  constants; \<^verbatim>\<open>prost\<close> is outside the repository, so a message is what the code calls of it.
\<close>

section \<open>Static ports (reiny-core)\<close>

datatype PortDirection = Dir_Input | Dir_Output | Dir_RpcServer | Dir_RpcClient

record PortType =
  pt_ty :: string
  pt_schema :: u64

type_synonym StaticEndpointAddress = EndpointRef

record StaticPort =
  sp_name :: string
  sp_direction :: PortDirection
  sp_ty :: string
  sp_schema :: u64
  sp_response :: "PortType option"
  sp_sources :: "StaticEndpointAddress list"

text \<open>\<open>MessageType\<close> and \<open>Service\<close> through their constants, and \<open>prost::Message\<close> through
  \<open>encoded_len\<close> and \<open>encode\<close>: the latter fills the slot it is given, or fails.\<close>

record MessageType =
  TYPE_NAME :: string
  SCHEMA_FP :: u64

record Service =
  svc_request :: MessageType
  svc_response :: MessageType

record Message =
  msg_encoded_len :: nat
  msg_encode :: "bytes \<Rightarrow> bytes option"

section \<open>State\<close>

record LinkConfig =
  ping_interval_ms :: u32
  timeout_ms :: u32

definition LinkConfig_default :: LinkConfig where
  "LinkConfig_default = \<lparr>ping_interval_ms = 1000, timeout_ms = 3000\<rparr>"

definition ID_MAX :: nat where "ID_MAX = 32"

record IdBuf =
  id_bytes :: bytes
  id_len :: u8

record LocalType =
  lt_hash :: u32
  lt_name :: string
  lt_schema :: u64
  lt_flags :: u8
  lt_port :: nat

record RemoteType =
  rt_hash :: u32
  rt_flags :: u8
  rt_schema :: u64
  rt_mismatch :: bool

record PeerContract =
  pc_peer :: IdBuf
  pc_remote :: "RemoteType option list"
  pc_ack :: bool
  pc_bridge :: bool

record Frame =
  fr_kind :: Kind
  fr_hash :: u32
  fr_seq :: u8
  fr_len :: u16
  fr_generation :: u16

datatype Event =
    Ev_Connected Frame | Ev_Disconnected | Ev_Data Frame | Ev_Request Frame | Ev_Reply Frame
  | Ev_Error Frame

record Stats =
  bad_frames :: u32
  dropped_schema :: u32
  dropped_unwanted :: u32
  rx_overflow :: u32
  remote_overflow :: u32
  tx_full :: u32

datatype Error =
    Err_IdTooLong | Err_TableFull | Err_HashCollision string string | Err_SchemaMismatch
  | Err_Started | Err_NotDeclared | Err_UnknownPort | Err_WrongDirection | Err_WrongType
  | Err_InvalidPorts | Err_NoPeerService | Err_TooLarge | Err_Full | Err_Encode

record Link =
  l_N :: nat
  l_FRAME :: nat
  l_id :: IdBuf
  l_peer :: "IdBuf option"
  l_local :: "LocalType option list"
  l_ports :: "StaticPort list"
  l_declared :: "nat option list"
  l_remote :: "RemoteType option list"
  l_peer_hello :: bytes
  l_peer_hello_len :: nat
  l_pending :: "(u32 \<times> u8) option list"
  l_tx :: bytes
  l_tx_len :: nat
  l_rx :: bytes
  l_rx_len :: nat
  l_rx_consumed :: nat
  l_rx_skip :: bool
  l_rx_generation :: u16
  l_scratch :: bytes
  l_config :: LinkConfig
  l_started :: bool
  l_connected :: bool
  l_bridge :: bool
  l_peer_bridge :: bool
  l_data_seq :: u8
  l_req_seq :: u8
  l_now_ms :: u32
  l_last_rx_ms :: u32
  l_last_tx_ms :: u32
  l_stats :: Stats

text \<open>A method with \<open>&mut self\<close> that can fail; \<open>sbind\<close> is the question-mark operator there.\<close>

type_synonym 'a link_op = "Link \<Rightarrow> (Error + 'a) \<times> Link"

definition sbind :: "'a link_op \<Rightarrow> ('a \<Rightarrow> 'b link_op) \<Rightarrow> 'b link_op" where
  "sbind m f l = (case m l of (Inl e, l') \<Rightarrow> (Inl e, l') | (Inr v, l') \<Rightarrow> f v l')"

definition sread :: "(Link \<Rightarrow> Error + 'a) \<Rightarrow> 'a link_op" where
  "sread f l = (f l, l)"

section \<open>Construction\<close>

definition idbuf_new :: "string \<Rightarrow> Error + IdBuf" where
  "idbuf_new s =
     (if length s \<le> 255 \<and> length s \<le> ID_MAX
      then Inr \<lparr>id_bytes = copy_at (replicate ID_MAX 0) 0 (as_bytes s), id_len = word_of_nat (length s)\<rparr>
      else Inl Err_IdTooLong)"

definition idbuf_as_str :: "IdBuf \<Rightarrow> string" where
  "idbuf_as_str b = (case from_utf8 (take (unat (id_len b)) (id_bytes b)) of Some s \<Rightarrow> s | None \<Rightarrow> [])"

definition dir_output :: "PortDirection \<Rightarrow> bool" where
  "dir_output d \<longleftrightarrow> d \<in> set [Dir_Output, Dir_RpcServer]"

text \<open>The condition of the loop in \<open>new\<close>: \<open>before\<close> is \<open>ports[..index]\<close>.\<close>

fun static_sources_bad :: "StaticEndpointAddress list \<Rightarrow> StaticEndpointAddress list \<Rightarrow> bool" where
  "static_sources_bad seen [] = False"
| "static_sources_bad seen (s # ss) =
     (\<not> valid_namespace (ep_namespace s) \<or> \<not> valid_port (ep_port s) \<or> s \<in> set seen
      \<or> static_sources_bad (seen @ [s]) ss)"

definition port_bad :: "StaticPort list \<Rightarrow> StaticPort \<Rightarrow> bool" where
  "port_bad before port \<longleftrightarrow>
     (let service = sp_direction port \<in> set [Dir_RpcServer, Dir_RpcClient] in
      \<not> valid_port (sp_name port)
      \<or> sp_ty port = []
      \<or> (sp_direction port \<in> set [Dir_Input, Dir_RpcClient] \<and> sp_sources port = [])
      \<or> (dir_output (sp_direction port) \<and> sp_sources port \<noteq> [])
      \<or> (sp_direction port = Dir_RpcClient \<and> length (sp_sources port) \<noteq> 1)
      \<or> static_sources_bad [] (sp_sources port)
      \<or> service \<noteq> (sp_response port \<noteq> None)
      \<or> list_ex (\<lambda>other. sp_name other = sp_name port
           \<and> dir_output (sp_direction other) = dir_output (sp_direction port)) before)"

fun ports_bad :: "StaticPort list \<Rightarrow> StaticPort list \<Rightarrow> bool" where
  "ports_bad before [] = False"
| "ports_bad before (p # ps) = (port_bad before p \<or> ports_bad (before @ [p]) ps)"

definition Stats_default :: Stats where
  "Stats_default = \<lparr>bad_frames = 0, dropped_schema = 0, dropped_unwanted = 0, rx_overflow = 0,
     remote_overflow = 0, tx_full = 0\<rparr>"

definition link_new ::
    "nat \<Rightarrow> nat \<Rightarrow> string \<Rightarrow> StaticPort list \<Rightarrow> bytes \<Rightarrow> bytes \<Rightarrow> Error + Link" where
  "link_new n frame ident ports tx rx =
     (if frame < OVERHEAD then Inl Err_TooLarge
      else if ports_bad [] ports then Inl Err_InvalidPorts
      else if \<not> valid_namespace ident then Inl Err_InvalidPorts
      else rbind (idbuf_new ident) (\<lambda>idb.
        Inr \<lparr>l_N = n, l_FRAME = frame, l_id = idb, l_peer = None, l_local = replicate n None,
             l_ports = ports, l_declared = replicate n None, l_remote = replicate n None,
             l_peer_hello = replicate frame 0, l_peer_hello_len = 0, l_pending = replicate n None,
             l_tx = tx, l_tx_len = 0, l_rx = rx, l_rx_len = 0, l_rx_consumed = 0, l_rx_skip = False,
             l_rx_generation = 0, l_scratch = replicate frame 0, l_config = LinkConfig_default,
             l_started = False, l_connected = False, l_bridge = False, l_peer_bridge = False,
             l_data_seq = 0, l_req_seq = 0, l_now_ms = 0, l_last_rx_ms = 0, l_last_tx_ms = 0,
             l_stats = Stats_default\<rparr>))"

definition with_config :: "LinkConfig \<Rightarrow> Link \<Rightarrow> Link" where
  "with_config config l = l\<lparr>l_config := config\<rparr>"

definition into_bridge :: "Link \<Rightarrow> Link" where
  "into_bridge l = l\<lparr>l_bridge := True\<rparr>"

definition link_id :: "Link \<Rightarrow> string" where
  "link_id l = idbuf_as_str (l_id l)"

section \<open>Sending frames\<close>

text \<open>\<open>iter().flatten()\<close> over a table of optional slots.\<close>

fun flatten :: "'a option list \<Rightarrow> 'a list" where
  "flatten [] = []"
| "flatten (None # xs) = flatten xs"
| "flatten (Some x # xs) = x # flatten xs"

definition port_at :: "Link \<Rightarrow> LocalType \<Rightarrow> StaticPort" where
  "port_at l t = l_ports l ! lt_port t"

definition emit :: "codec \<Rightarrow> Kind \<Rightarrow> u32 \<Rightarrow> u8 \<Rightarrow> nat \<Rightarrow> unit link_op" where
  "emit c kind hash seq payload_len l =
     (case seal c (l_scratch l) \<lparr>hd_kind = kind, hd_hash = hash, hd_seq = seq\<rparr> payload_len of
        Inl _ \<Rightarrow> (Inl Err_TooLarge, l)
      | Inr (buf, raw_len) \<Rightarrow>
          let l1 = l\<lparr>l_scratch := buf\<rparr> in
          if length (l_tx l1) - l_tx_len l1 < encoded_max c raw_len
          then (Inl Err_Full, l1\<lparr>l_stats := (l_stats l1)\<lparr>tx_full := tx_full (l_stats l1) + 1\<rparr>\<rparr>)
          else
            (case encode c (take raw_len buf) (drop (l_tx_len l1) (l_tx l1)) of
               Inl _ \<Rightarrow> (Inl Err_Full, l1)
             | Inr (out, n) \<Rightarrow>
                 (Inr (), l1\<lparr>l_tx := take (l_tx_len l1) (l_tx l1) @ out, l_tx_len := l_tx_len l1 + n,
                           l_last_tx_ms := l_now_ms l1\<rparr>)))"

definition hello_entry_of :: "Link \<Rightarrow> LocalType \<Rightarrow> HelloEntry" where
  "hello_entry_of l t =
     \<lparr>he_hash = lt_hash t, he_flags = lt_flags t, he_schema = lt_schema t, he_name = lt_name t,
      he_port = sp_name (port_at l t),
      he_response = map_option (\<lambda>r. \<lparr>ht_name = pt_ty r, ht_schema = pt_schema r\<rparr>) (sp_response (port_at l t)),
      he_sources = Sources_Static (sp_sources (port_at l t))\<rparr>"

definition hello_payload :: "bool \<Rightarrow> nat link_op" where
  "hello_payload ack l =
     (let entries = map (hello_entry_of l) (flatten (l_local l));
          (r, out) = hello_write (slice (l_scratch l) HEADER (l_FRAME l - TRAILER)) ack (l_bridge l)
                       (link_id l) entries;
          l1 = l\<lparr>l_scratch := copy_at (l_scratch l) HEADER out\<rparr>
      in case r of
           Inl _ \<Rightarrow> (Inl Err_TooLarge, l1)
         | Inr len \<Rightarrow>
             (case hello_parse (slice (l_scratch l1) HEADER (HEADER + len)) of
                Inl _ \<Rightarrow> (Inl Err_InvalidPorts, l1)
              | Inr _ \<Rightarrow> (Inr len, l1)))"

definition queue_hello :: "codec \<Rightarrow> bool \<Rightarrow> unit link_op" where
  "queue_hello c ack = sbind (hello_payload ack) (\<lambda>len. emit c Kind_Hello 0 0 len)"

definition ensure_started :: "codec \<Rightarrow> Link \<Rightarrow> Link" where
  "ensure_started c l =
     (if l_started l then l else snd (queue_hello c False (l\<lparr>l_started := True\<rparr>)))"

section \<open>Declarations\<close>

definition port :: "MessageType \<Rightarrow> string \<Rightarrow> PortDirection \<Rightarrow> PortType option \<Rightarrow> Link \<Rightarrow> Error + nat" where
  "port t name direction response l =
     rbind (ok_or (position (\<lambda>p. sp_name p = name \<and> sp_direction p = direction) (l_ports l))
              (if list_ex (\<lambda>p. sp_name p = name) (l_ports l) then Err_WrongDirection else Err_UnknownPort))
       (\<lambda>i. let p = l_ports l ! i in
          if sp_ty p \<noteq> TYPE_NAME t \<or> map_option pt_ty (sp_response p) \<noteq> map_option pt_ty response
          then Inl Err_WrongType
          else if sp_schema p \<noteq> SCHEMA_FP t
            \<or> map_option pt_schema (sp_response p) \<noteq> map_option pt_schema response
          then Inl Err_SchemaMismatch
          else Inr i)"

definition check_port ::
    "MessageType \<Rightarrow> string \<Rightarrow> PortDirection \<Rightarrow> PortType option \<Rightarrow> Link \<Rightarrow> Error + unit" where
  "check_port t name direction response l =
     rbind (port t name direction response l) (\<lambda>p.
       if \<not> list_ex (\<lambda>d. d = p) (flatten (l_declared l)) then Inl Err_NotDeclared else Inr ())"

text \<open>The loop over the occupied slots of \<open>local\<close> in \<open>declare_type\<close>: a hash collision, a merged
  flag, or nothing found.\<close>

fun merge_slot ::
    "StaticPort list \<Rightarrow> u32 \<Rightarrow> nat \<Rightarrow> u8 \<Rightarrow> LocalType option list \<Rightarrow> Error + LocalType option list option" where
  "merge_slot ports hash p flag [] = Inr None"
| "merge_slot ports hash p flag (None # ss) =
     rbind (merge_slot ports hash p flag ss) (\<lambda>r. Inr (map_option (Cons None) r))"
| "merge_slot ports hash p flag (Some t # ss) =
     (if lt_hash t = hash \<and> sp_name (ports ! lt_port t) \<noteq> sp_name (ports ! p)
      then Inl (Err_HashCollision (sp_name (ports ! lt_port t)) (sp_name (ports ! p)))
      else if lt_port t = p then Inr (Some (Some (t\<lparr>lt_flags := lt_flags t OR flag\<rparr>) # ss))
      else rbind (merge_slot ports hash p flag ss) (\<lambda>r. Inr (map_option (Cons (Some t)) r)))"

definition declare_type :: "nat \<Rightarrow> u8 \<Rightarrow> unit link_op" where
  "declare_type p flag l =
     (let hash = endpoint_hash (link_id l) (sp_name (l_ports l ! p)) in
      case merge_slot (l_ports l) hash p flag (l_local l) of
        Inl e \<Rightarrow> (Inl e, l)
      | Inr (Some slots) \<Rightarrow> (Inr (), l\<lparr>l_local := slots\<rparr>)
      | Inr None \<Rightarrow>
          (case position (\<lambda>s. s = None) (l_local l) of
             None \<Rightarrow> (Inl Err_TableFull, l)
           | Some free \<Rightarrow>
               (Inr (), l\<lparr>l_local := (l_local l)[free := Some
                 \<lparr>lt_hash = hash, lt_name = sp_ty (l_ports l ! p), lt_schema = sp_schema (l_ports l ! p),
                  lt_flags = flag, lt_port = p\<rparr>]\<rparr>)))"

definition declare_port ::
    "MessageType \<Rightarrow> string \<Rightarrow> PortDirection \<Rightarrow> u8 \<Rightarrow> PortType option \<Rightarrow> unit link_op" where
  "declare_port t name direction flag response l =
     (if l_started l then (Inl Err_Started, l)
      else
        (case port t name direction response l of
           Inl e \<Rightarrow> (Inl e, l)
         | Inr p \<Rightarrow>
             let already_declared = list_ex (\<lambda>d. d = p) (flatten (l_declared l)) in
             if \<not> already_declared \<and> list_all (\<lambda>d. d \<noteq> None) (l_declared l)
             then (Inl Err_TableFull, l)
             else
               let previous = l_local l in
               sbind (declare_type p flag) (\<lambda>_ l1.
                 (case hello_payload False l1 of
                    (Inl e, l2) \<Rightarrow> (Inl e, l2\<lparr>l_local := previous\<rparr>)
                  | (Inr _, l2) \<Rightarrow>
                      if \<not> already_declared
                      then (case position (\<lambda>s. s = None) (l_declared l2) of
                              None \<Rightarrow> (Inl Err_TableFull, l2)
                            | Some free \<Rightarrow> (Inr (), l2\<lparr>l_declared := (l_declared l2)[free := Some p]\<rparr>))
                      else (Inr (), l2))) l))"

definition publishes :: "MessageType \<Rightarrow> string \<Rightarrow> unit link_op" where
  "publishes t name = declare_port t name Dir_Output PUB None"

definition publishes_latched :: "MessageType \<Rightarrow> string \<Rightarrow> unit link_op" where
  "publishes_latched t name = declare_port t name Dir_Output (PUB OR LATCHED) None"

definition subscribes :: "MessageType \<Rightarrow> string \<Rightarrow> unit link_op" where
  "subscribes t name = declare_port t name Dir_Input SUB None"

definition response_of :: "Service \<Rightarrow> PortType" where
  "response_of s = \<lparr>pt_ty = TYPE_NAME (svc_response s), pt_schema = SCHEMA_FP (svc_response s)\<rparr>"

definition declare_rpc :: "Service \<Rightarrow> string \<Rightarrow> PortDirection \<Rightarrow> u8 \<Rightarrow> unit link_op" where
  "declare_rpc s name direction flag =
     declare_port (svc_request s) name direction flag (Some (response_of s))"

definition rpc_server :: "Service \<Rightarrow> string \<Rightarrow> unit link_op" where
  "rpc_server s name = declare_rpc s name Dir_RpcServer SERVE"

definition rpc_client :: "Service \<Rightarrow> string \<Rightarrow> unit link_op" where
  "rpc_client s name = declare_rpc s name Dir_RpcClient CALLS"

section \<open>Lookups\<close>

definition local_type :: "u32 \<Rightarrow> Link \<Rightarrow> LocalType option" where
  "local_type hash l =
     List.find (\<lambda>t. lt_hash t = hash \<and> lt_flags t AND (PUB OR SERVE) \<noteq> 0) (flatten (l_local l))"

definition local_source :: "u32 \<Rightarrow> u8 \<Rightarrow> Link \<Rightarrow> LocalType option" where
  "local_source hash flag l =
     List.find (\<lambda>t. lt_flags t AND flag \<noteq> 0
        \<and> list_ex (\<lambda>s. ep_hash s = hash) (sp_sources (port_at l t))) (flatten (l_local l))"

definition remote_type :: "u32 \<Rightarrow> Link \<Rightarrow> RemoteType option" where
  "remote_type hash l =
     List.find (\<lambda>t. rt_hash t = hash \<and> rt_flags t AND (PUB OR SERVE) \<noteq> 0) (flatten (l_remote l))"

definition link_hello :: "Link \<Rightarrow> Hello option" where
  "link_hello l = ok (hello_parse (take (l_peer_hello_len l) (l_peer_hello l)))"

definition remote_source :: "u32 \<Rightarrow> u8 \<Rightarrow> Link \<Rightarrow> HelloEntry option" where
  "remote_source hash flag l =
     Option.bind (link_hello l) (\<lambda>h.
       List.find (\<lambda>e. he_flags e AND flag \<noteq> 0
          \<and> list_ex (\<lambda>s. ep_hash s = hash) (sources_iter (he_sources e))) (hello_entries h))"

definition request_hash :: "Service \<Rightarrow> string \<Rightarrow> Link \<Rightarrow> Error + u32" where
  "request_hash s name l =
     rbind (check_port (svc_request s) name Dir_RpcClient (Some (response_of s)) l) (\<lambda>_.
     rbind (port (svc_request s) name Dir_RpcClient (Some (response_of s)) l) (\<lambda>p.
       (case sp_sources (l_ports l ! p) of
          [] \<Rightarrow> Inl Err_InvalidPorts
        | source # _ \<Rightarrow> Inr (endpoint_hash (ep_namespace source) (ep_port source)))))"

definition cancel_request :: "u32 \<Rightarrow> u8 \<Rightarrow> Link \<Rightarrow> Link" where
  "cancel_request hash seq l =
     (case position (\<lambda>s. s = Some (hash, seq)) (l_pending l) of
        None \<Rightarrow> l
      | Some i \<Rightarrow> l\<lparr>l_pending := (l_pending l)[i := None]\<rparr>)"

definition peer_is_bridge :: "Link \<Rightarrow> bool" where
  "peer_is_bridge l \<longleftrightarrow> l_connected l \<and> l_peer_bridge l"

definition peer_subscribes_hash :: "u32 \<Rightarrow> Link \<Rightarrow> bool" where
  "peer_subscribes_hash hash l \<longleftrightarrow>
     l_connected l \<and> (l_peer_bridge l \<or> remote_source hash SUB l \<noteq> None)"

definition peer_serves_hash :: "u32 \<Rightarrow> Link \<Rightarrow> bool" where
  "peer_serves_hash hash l \<longleftrightarrow>
     l_connected l \<and> (l_peer_bridge l \<or> is_some_and (\<lambda>t. rt_flags t AND SERVE \<noteq> 0) (remote_type hash l))"

definition peer_subscribes :: "MessageType \<Rightarrow> string \<Rightarrow> Link \<Rightarrow> bool" where
  "peer_subscribes t name l \<longleftrightarrow>
     is_ok (check_port t name Dir_Output None l) \<and> peer_subscribes_hash (endpoint_hash (link_id l) name) l"

definition peer_serves :: "Service \<Rightarrow> string \<Rightarrow> Link \<Rightarrow> bool" where
  "peer_serves s name l \<longleftrightarrow>
     (case request_hash s name l of Inl _ \<Rightarrow> False | Inr hash \<Rightarrow> peer_serves_hash hash l)"

definition peer_id :: "Link \<Rightarrow> string option" where
  "peer_id l = map_option idbuf_as_str (l_peer l)"

definition peer_types :: "Link \<Rightarrow> RemoteType list" where
  "peer_types l = flatten (l_remote l)"

section \<open>Typed and raw senders\<close>

definition check_publishes :: "u32 \<Rightarrow> Link \<Rightarrow> Error + unit" where
  "check_publishes hash l =
     (if \<not> l_bridge l \<and> is_none_or (\<lambda>t. lt_flags t AND PUB = 0) (local_type hash l)
      then Inl Err_NotDeclared else Inr ())"

definition encode_payload :: "Message \<Rightarrow> nat link_op" where
  "encode_payload msg l =
     (let len = msg_encoded_len msg in
      if len > l_FRAME l - OVERHEAD then (Inl Err_TooLarge, l)
      else (case msg_encode msg (slice (l_scratch l) HEADER (HEADER + len)) of
              None \<Rightarrow> (Inl Err_Encode, l)
            | Some slot \<Rightarrow> (Inr len, l\<lparr>l_scratch := copy_at (l_scratch l) HEADER slot\<rparr>)))"

definition copy_payload :: "bytes \<Rightarrow> nat link_op" where
  "copy_payload payload l =
     (if length payload > l_FRAME l - OVERHEAD then (Inl Err_TooLarge, l)
      else (Inr (length payload), l\<lparr>l_scratch := copy_at (l_scratch l) HEADER payload\<rparr>))"

definition emit_data :: "codec \<Rightarrow> u32 \<Rightarrow> nat \<Rightarrow> bool link_op" where
  "emit_data c hash len l =
     (let seq = l_data_seq l in
      sbind (emit c Kind_Data hash seq len) (\<lambda>_ l'. (Inr True, l')) (l\<lparr>l_data_seq := seq + 1\<rparr>))"

definition free_seq :: "u32 \<Rightarrow> Link \<Rightarrow> u8 option" where
  "free_seq hash l =
     List.find (\<lambda>seq. Some (hash, seq) \<notin> set (l_pending l))
       (map (\<lambda>offset. l_req_seq l + word_of_nat offset) [0 ..< 256])"

definition emit_request :: "codec \<Rightarrow> u32 \<Rightarrow> nat \<Rightarrow> u8 link_op" where
  "emit_request c hash len l =
     (case position (\<lambda>s. s = None) (l_pending l) of
        None \<Rightarrow> (Inl Err_TableFull, l)
      | Some free \<Rightarrow>
          (case free_seq hash l of
             None \<Rightarrow> (Inl Err_TableFull, l)
           | Some seq \<Rightarrow>
               sbind (emit c Kind_Request hash seq len)
                 (\<lambda>_ l'. (Inr seq, l'\<lparr>l_req_seq := seq + 1, l_pending := (l_pending l')[free := Some (hash, seq)]\<rparr>))
                 l))"

definition emit_error :: "codec \<Rightarrow> u32 \<Rightarrow> u8 \<Rightarrow> string \<Rightarrow> unit link_op" where
  "emit_error c hash seq message l =
     (let bs = as_bytes message; len = min (length bs) (l_FRAME l - OVERHEAD) in
      emit c Kind_Error hash seq len (l\<lparr>l_scratch := copy_at (l_scratch l) HEADER (take len bs)\<rparr>))"

definition emit_reply :: "codec \<Rightarrow> u32 \<Rightarrow> u8 \<Rightarrow> u64 \<Rightarrow> nat \<Rightarrow> unit link_op" where
  "emit_reply c hash seq schema len l =
     (let reply_len = len + 8 in
      if reply_len > l_FRAME l - OVERHEAD then (Inl Err_TooLarge, l)
      else
        let s1 = copy_within (l_scratch l) HEADER (HEADER + len) (HEADER + 8);
            s2 = copy_at s1 HEADER (to_le_bytes schema)
        in emit c Kind_Reply hash seq reply_len (l\<lparr>l_scratch := s2\<rparr>))"

definition send :: "codec \<Rightarrow> MessageType \<Rightarrow> string \<Rightarrow> Message \<Rightarrow> bool link_op" where
  "send c t name msg =
     sbind (sread (check_port t name Dir_Output None)) (\<lambda>_ l.
       let hash = endpoint_hash (link_id l) name in
       sbind (sread (check_publishes hash)) (\<lambda>_ l.
         if is_some_and (\<lambda>lt. lt_schema lt \<noteq> SCHEMA_FP t) (local_type hash l)
         then (Inl Err_SchemaMismatch, l)
         else if \<not> peer_subscribes_hash hash l then (Inr False, l)
         else sbind (encode_payload msg) (emit_data c hash) l) l)"

definition send_raw :: "codec \<Rightarrow> u32 \<Rightarrow> bytes \<Rightarrow> bool link_op" where
  "send_raw c hash payload =
     sbind (sread (check_publishes hash)) (\<lambda>_ l.
       if \<not> peer_subscribes_hash hash l then (Inr False, l)
       else sbind (copy_payload payload) (emit_data c hash) l)"

definition request :: "codec \<Rightarrow> Service \<Rightarrow> string \<Rightarrow> Message \<Rightarrow> u8 link_op" where
  "request c s name req =
     sbind (sread (check_port (svc_request s) name Dir_RpcClient (Some (response_of s)))) (\<lambda>_.
     sbind (sread (request_hash s name)) (\<lambda>hash l.
       if \<not> peer_serves_hash hash l then (Inl Err_NoPeerService, l)
       else if is_some_and (\<lambda>t. rt_schema t \<noteq> SCHEMA_FP (svc_request s)) (remote_type hash l)
       then (Inl Err_SchemaMismatch, l)
       else sbind (encode_payload req) (emit_request c hash) l))"

definition request_raw :: "codec \<Rightarrow> u32 \<Rightarrow> bytes \<Rightarrow> u8 link_op" where
  "request_raw c hash payload l =
     (if \<not> l_bridge l \<and> local_source hash CALLS l = None then (Inl Err_NotDeclared, l)
      else if \<not> peer_serves_hash hash l then (Inl Err_NoPeerService, l)
      else sbind (copy_payload payload) (emit_request c hash) l)"

definition reply :: "codec \<Rightarrow> Service \<Rightarrow> string \<Rightarrow> u8 \<Rightarrow> Message \<Rightarrow> unit link_op" where
  "reply c s name seq resp =
     sbind (sread (check_port (svc_request s) name Dir_RpcServer (Some (response_of s)))) (\<lambda>_.
     sbind (encode_payload resp) (\<lambda>len l.
       emit_reply c (endpoint_hash (link_id l) name) seq (SCHEMA_FP (svc_response s)) len l))"

definition reply_raw :: "codec \<Rightarrow> u8 \<Rightarrow> u32 \<Rightarrow> u64 \<Rightarrow> bytes \<Rightarrow> unit link_op" where
  "reply_raw c seq hash schema payload =
     sbind (copy_payload payload) (emit_reply c hash seq schema)"

definition reply_err :: "codec \<Rightarrow> Service \<Rightarrow> string \<Rightarrow> u8 \<Rightarrow> string \<Rightarrow> unit link_op" where
  "reply_err c s name seq message =
     sbind (sread (check_port (svc_request s) name Dir_RpcServer (Some (response_of s)))) (\<lambda>_ l.
       emit_error c (endpoint_hash (link_id l) name) seq message l)"

definition reply_err_raw :: "codec \<Rightarrow> u8 \<Rightarrow> u32 \<Rightarrow> string \<Rightarrow> unit link_op" where
  "reply_err_raw c seq hash message = emit_error c hash seq message"

section \<open>Buffers\<close>

definition tx_consume :: "nat \<Rightarrow> Link \<Rightarrow> Link" where
  "tx_consume n l = l\<lparr>l_tx := copy_within (l_tx l) n (l_tx_len l) 0, l_tx_len := l_tx_len l - n\<rparr>"

definition rx_discard :: "nat \<Rightarrow> Link \<Rightarrow> Link" where
  "rx_discard n l = l\<lparr>l_rx := copy_within (l_rx l) n (l_rx_len l) 0, l_rx_len := l_rx_len l - n,
     l_rx_generation := l_rx_generation l + 1\<rparr>"

definition rx_compact :: "Link \<Rightarrow> Link" where
  "rx_compact l =
     (if l_rx_consumed l > 0 then rx_discard (l_rx_consumed l) (l\<lparr>l_rx_consumed := 0\<rparr>) else l)"

text \<open>The loop of \<open>feed\<close>: \<open>len\<close> is \<open>bytes.len()\<close>.\<close>

function feed_loop :: "nat \<Rightarrow> bytes \<Rightarrow> Link \<Rightarrow> nat \<times> Link" where
  "feed_loop len rest l =
     (if rest = [] then (len, l)
      else if l_rx_skip l then
        (case position (\<lambda>b. b = DELIMITER) rest of
           Some i \<Rightarrow> feed_loop len (drop (i + 1) rest) (l\<lparr>l_rx_skip := False\<rparr>)
         | None \<Rightarrow> (len, l))
      else
        let free = length (l_rx l) - l_rx_len l in
        if free = 0 then
          (if DELIMITER \<in> set (take (l_rx_len l) (l_rx l)) then (len - length rest, l)
           else feed_loop len rest
             (l\<lparr>l_rx_len := 0, l_rx_skip := True,
                l_stats := (l_stats l)\<lparr>rx_overflow := rx_overflow (l_stats l) + 1\<rparr>\<rparr>))
        else
          let n = min free (length rest) in
          feed_loop len (drop n rest)
            (l\<lparr>l_rx := copy_at (l_rx l) (l_rx_len l) (take n rest), l_rx_len := l_rx_len l + n\<rparr>))"
  by pat_completeness auto
termination
  by (relation "measures [\<lambda>(_, rest, _). length rest, \<lambda>(_, _, l). if l_rx_skip l then 0 else 1]")
    auto

declare feed_loop.simps [simp del]

definition feed :: "codec \<Rightarrow> bytes \<Rightarrow> Link \<Rightarrow> nat \<times> Link" where
  "feed c bs l = feed_loop (length bs) bs (rx_compact (ensure_started c l))"

definition drain :: "codec \<Rightarrow> bytes \<Rightarrow> Link \<Rightarrow> nat \<times> bytes \<times> Link" where
  "drain c out l =
     (let l1 = ensure_started c l; n = min (l_tx_len l1) (length out) in
      (n, copy_at out 0 (take n (l_tx l1)), tx_consume n l1))"

definition drain_frame :: "codec \<Rightarrow> bytes \<Rightarrow> Link \<Rightarrow> nat option \<times> bytes \<times> Link" where
  "drain_frame c out l =
     (let l1 = ensure_started c l in
      case position (\<lambda>b. b = DELIMITER) (take (l_tx_len l1) (l_tx l1)) of
        None \<Rightarrow> (None, out, l1)
      | Some i \<Rightarrow>
          let end' = i + 1 in
          if end' > length out
          then let l2 = tx_consume end' l1
               in (None, out, l2\<lparr>l_stats := (l_stats l2)\<lparr>tx_full := tx_full (l_stats l2) + 1\<rparr>\<rparr>)
          else (Some end', copy_at out 0 (take end' (l_tx l1)), tx_consume end' l1))"

section \<open>The clock\<close>

text \<open>The fields cleared when the peer's contract is dropped, in \<open>tick\<close> and in \<open>on_hello\<close>.\<close>

definition drop_peer :: "Link \<Rightarrow> Link" where
  "drop_peer l = l\<lparr>l_connected := False, l_peer := None, l_peer_bridge := False,
     l_remote := replicate (l_N l) None, l_peer_hello_len := 0, l_pending := replicate (l_N l) None\<rparr>"

definition tick :: "codec \<Rightarrow> u32 \<Rightarrow> Link \<Rightarrow> Event option \<times> Link" where
  "tick c now l0 =
     (let l = l0\<lparr>l_now_ms := now\<rparr> in
      if \<not> l_started l then (None, ensure_started c (l\<lparr>l_last_rx_ms := now\<rparr>))
      else
        let since_rx = now - l_last_rx_ms l; since_tx = now - l_last_tx_ms l in
        if l_connected l then
          (if since_rx > timeout_ms (l_config l) then (Some Ev_Disconnected, drop_peer l)
           else if since_tx \<ge> ping_interval_ms (l_config l)
           then (None, snd (emit c Kind_Ping 0 0 0 l))
           else (None, l))
        else if since_tx \<ge> ping_interval_ms (l_config l)
        then (None, snd (queue_hello c False l))
        else (None, l))"

section \<open>Receiving\<close>

definition decode_frame :: "codec \<Rightarrow> nat \<Rightarrow> Link \<Rightarrow> Frame option \<times> Link" where
  "decode_frame c end' l =
     (let (buf, r) = decode_in_place c (take end' (l_rx l));
          l1 = l\<lparr>l_rx := buf @ drop end' (l_rx l)\<rparr>
      in case r of
           Inl _ \<Rightarrow> (None, l1)
         | Inr raw_len \<Rightarrow>
             if raw_len > l_FRAME l1 then (None, l1)
             else (case parse c (take raw_len (l_rx l1)) of
                     Inl _ \<Rightarrow> (None, l1)
                   | Inr (header, payload) \<Rightarrow>
                       if length payload < 2 ^ 16
                       then (Some \<lparr>fr_kind = hd_kind header, fr_hash = hd_hash header, fr_seq = hd_seq header,
                                   fr_len = word_of_nat (length payload), fr_generation = 0\<rparr>, l1)
                       else (None, l1)))"

text \<open>\<open>validate_hello\<close>: the checks of one entry against every local declaration, in the order of the
  loops, then the address hashes, then the slot of the table.\<close>

definition entry_from_peer :: "Link \<Rightarrow> Hello \<Rightarrow> HelloEntry \<Rightarrow> LocalType \<Rightarrow> bool" where
  "entry_from_peer l h e t \<longleftrightarrow>
     list_ex (\<lambda>s. ep_namespace s = hello_id h \<and> ep_port s = he_port e) (sp_sources (port_at l t))
     \<and> he_flags e AND (PUB OR SERVE) \<noteq> 0"

definition entry_to_peer :: "Link \<Rightarrow> HelloEntry \<Rightarrow> LocalType \<Rightarrow> bool" where
  "entry_to_peer l e t \<longleftrightarrow>
     list_ex (\<lambda>s. ep_namespace s = link_id l \<and> ep_port s = sp_name (port_at l t)) (sources_iter (he_sources e))
     \<and> lt_flags t AND (PUB OR SERVE) \<noteq> 0"

definition entry_mismatch :: "Link \<Rightarrow> HelloEntry \<Rightarrow> LocalType \<Rightarrow> bool" where
  "entry_mismatch l e t \<longleftrightarrow>
     lt_name t \<noteq> he_name e \<or> lt_schema t \<noteq> he_schema e
     \<or> map_option (\<lambda>r. (pt_ty r, pt_schema r)) (sp_response (port_at l t))
         \<noteq> map_option (\<lambda>r. (ht_name r, ht_schema r)) (he_response e)
     \<or> (lt_flags t AND (CALLS OR SERVE) \<noteq> 0) \<noteq> (he_flags e AND (CALLS OR SERVE) \<noteq> 0)"

fun check_locals :: "Link \<Rightarrow> Hello \<Rightarrow> HelloEntry \<Rightarrow> LocalType list \<Rightarrow> Error + unit" where
  "check_locals l h e [] = Inr ()"
| "check_locals l h e (t # ts) =
     (if (entry_from_peer l h e t \<or> entry_to_peer l e t) \<and> entry_mismatch l e t
      then Inl Err_SchemaMismatch
      else if list_ex (\<lambda>s. ep_hash s = he_hash e
                 \<and> (ep_namespace s \<noteq> hello_id h \<or> ep_port s \<noteq> he_port e)) (sp_sources (port_at l t))
      then Inl Err_InvalidPorts
      else check_locals l h e ts)"

definition local_addresses :: "Link \<Rightarrow> LocalType \<Rightarrow> EndpointRef list" where
  "local_addresses l t =
     \<lparr>ep_namespace = link_id l, ep_port = sp_name (port_at l t)\<rparr> # sp_sources (port_at l t)"

definition entry_addresses :: "Hello \<Rightarrow> HelloEntry \<Rightarrow> EndpointRef list" where
  "entry_addresses h e = \<lparr>ep_namespace = hello_id h, ep_port = he_port e\<rparr> # sources_iter (he_sources e)"

definition addresses_collide :: "Link \<Rightarrow> Hello \<Rightarrow> HelloEntry \<Rightarrow> bool" where
  "addresses_collide l h e \<longleftrightarrow>
     list_ex (\<lambda>address. list_ex (\<lambda>t.
         list_ex (\<lambda>other. other \<noteq> address \<and> ep_hash other = ep_hash address) (local_addresses l t))
       (flatten (l_local l))) (entry_addresses h e)"

fun validate_entries ::
    "Link \<Rightarrow> Hello \<Rightarrow> nat \<Rightarrow> HelloEntry list \<Rightarrow> RemoteType option list \<Rightarrow> Error + RemoteType option list" where
  "validate_entries l h index [] remote = Inr remote"
| "validate_entries l h index (e # es) remote =
     (if index \<ge> l_N l then Inl Err_TableFull
      else rbind (check_locals l h e (flatten (l_local l))) (\<lambda>_.
        if addresses_collide l h e then Inl Err_InvalidPorts
        else validate_entries l h (index + 1) es
          (remote[index := Some \<lparr>rt_hash = he_hash e, rt_flags = he_flags e,
             rt_schema = he_schema e, rt_mismatch = False\<rparr>])))"

definition validate_hello :: "bytes \<Rightarrow> Link \<Rightarrow> Error + PeerContract" where
  "validate_hello payload l =
     rbind (map_err (\<lambda>_. Err_InvalidPorts) (hello_parse payload)) (\<lambda>h.
     rbind (idbuf_new (hello_id h)) (\<lambda>peer.
       if length payload > l_FRAME l then Inl Err_TooLarge
       else if l_connected l
         \<and> (l_peer_hello_len l \<noteq> length payload
            \<or> (l_peer_hello l ! 0) AND NOT HELLO_ACK \<noteq> (payload ! 0) AND NOT HELLO_ACK
            \<or> slice (l_peer_hello l) 1 (l_peer_hello_len l) \<noteq> drop 1 payload)
       then Inl Err_InvalidPorts
       else rbind (validate_entries l h 0 (hello_entries h) (replicate (l_N l) None)) (\<lambda>remote.
         Inr \<lparr>pc_peer = peer, pc_remote = remote, pc_ack = hello_ack h, pc_bridge = hello_bridge h\<rparr>)))"

definition on_hello :: "codec \<Rightarrow> Frame \<Rightarrow> Link \<Rightarrow> Event option \<times> Link" where
  "on_hello c frame l =
     (let payload = slice (l_rx l) HEADER (HEADER + unat (fr_len frame)) in
      case validate_hello payload l of
        Inl err \<Rightarrow>
          let s1 = (l_stats l)\<lparr>bad_frames := bad_frames (l_stats l) + 1\<rparr>;
              s2 = (if err = Err_TableFull then s1\<lparr>remote_overflow := remote_overflow s1 + 1\<rparr> else s1)
          in (if l_connected l then Some Ev_Disconnected else None, drop_peer (l\<lparr>l_stats := s2\<rparr>))
      | Inr contract \<Rightarrow>
          let was_connected = l_connected l;
              l1 = l\<lparr>l_peer_hello := copy_at (l_peer_hello l) 0 payload, l_peer_hello_len := length payload,
                     l_peer := Some (pc_peer contract), l_peer_bridge := pc_bridge contract,
                     l_remote := pc_remote contract, l_connected := True\<rparr>;
              l2 = (if \<not> pc_ack contract then snd (queue_hello c True l1) else l1)
          in (if \<not> pc_ack contract \<or> \<not> was_connected then Some (Ev_Connected frame) else None, l2))"

definition drop_unwanted :: "Link \<Rightarrow> Link" where
  "drop_unwanted l = l\<lparr>l_stats := (l_stats l)\<lparr>dropped_unwanted := dropped_unwanted (l_stats l) + 1\<rparr>\<rparr>"

definition dispatch_data :: "Frame \<Rightarrow> Link \<Rightarrow> Event option \<times> Link" where
  "dispatch_data frame l =
     (let wanted = (if l_bridge l then is_some_and (\<lambda>t. rt_flags t AND PUB \<noteq> 0) (remote_type (fr_hash frame) l)
                    else local_source (fr_hash frame) SUB l \<noteq> None) in
      if \<not> wanted then (None, drop_unwanted l)
      else if \<not> l_connected l
        \<or> (\<not> l_peer_bridge l
           \<and> is_none_or (\<lambda>t. rt_mismatch t \<or> rt_flags t AND PUB = 0) (remote_type (fr_hash frame) l))
      then (None, l\<lparr>l_stats := (l_stats l)\<lparr>dropped_schema := dropped_schema (l_stats l) + 1\<rparr>\<rparr>)
      else (Some (Ev_Data frame), l))"

definition dispatch_request :: "codec \<Rightarrow> Frame \<Rightarrow> Link \<Rightarrow> Event option \<times> Link" where
  "dispatch_request c frame l =
     (let served = is_some_and (\<lambda>t. lt_flags t AND SERVE \<noteq> 0) (local_type (fr_hash frame) l);
          caller = (remote_source (fr_hash frame) CALLS l \<noteq> None)
      in if \<not> l_connected l \<or> (\<not> l_peer_bridge l \<and> \<not> caller)
         then (None, snd (emit_error c (fr_hash frame) (fr_seq frame) ''undeclared source'' (drop_unwanted l)))
         else if served \<or> (l_bridge l \<and> caller) then (Some (Ev_Request frame), l)
         else (None, snd (emit_error c (fr_hash frame) (fr_seq frame) ''no such service'' (drop_unwanted l))))"

definition dispatch_reply :: "Frame \<Rightarrow> Link \<Rightarrow> Event option \<times> Link" where
  "dispatch_reply frame l =
     (if \<not> l_connected l \<or> Some (fr_hash frame, fr_seq frame) \<notin> set (l_pending l)
      then (None, drop_unwanted l)
      else (Some (if fr_kind frame = Kind_Reply then Ev_Reply frame else Ev_Error frame),
            cancel_request (fr_hash frame) (fr_seq frame) l))"

definition dispatch :: "codec \<Rightarrow> Frame \<Rightarrow> Link \<Rightarrow> Event option \<times> Link" where
  "dispatch c frame l =
     (case fr_kind frame of
        Kind_Hello \<Rightarrow> on_hello c frame l
      | Kind_Ping \<Rightarrow> (None, l)
      | Kind_Data \<Rightarrow> dispatch_data frame l
      | Kind_Request \<Rightarrow> dispatch_request c frame l
      | Kind_Reply \<Rightarrow> dispatch_reply frame l
      | Kind_Error \<Rightarrow> dispatch_reply frame l)"

text \<open>The receive buffer is untouched by everything that only sends: this is what ends the loop of
  \<open>next_event\<close>, and later what keeps a frame handle readable.\<close>

definition same_rx :: "Link \<Rightarrow> Link \<Rightarrow> bool" where
  "same_rx l l' \<longleftrightarrow> l_rx l' = l_rx l \<and> l_rx_len l' = l_rx_len l \<and> l_rx_consumed l' = l_rx_consumed l
     \<and> l_rx_skip l' = l_rx_skip l \<and> l_rx_generation l' = l_rx_generation l"

lemma same_rx_refl [simp]: "same_rx l l"
  by (simp add: same_rx_def)

lemma same_rx_trans: "same_rx l l' \<Longrightarrow> same_rx l' l'' \<Longrightarrow> same_rx l l''"
  by (simp add: same_rx_def)

lemma same_rx_emit: "same_rx l (snd (emit c k h s n l))"
  by (simp add: same_rx_def emit_def Let_def split: sum.split prod.split)

lemma same_rx_sbind:
  assumes "same_rx l (snd (m l))" "\<And>v l'. same_rx l' (snd (f v l'))"
  shows "same_rx l (snd (sbind m f l))"
  using assms same_rx_trans [of l "snd (m l)"] by (cases "m l") (auto simp: sbind_def split: sum.split)

lemma same_rx_hello_payload: "same_rx l (snd (hello_payload ack l))"
  by (simp add: same_rx_def hello_payload_def Let_def split: sum.split prod.split)

lemma same_rx_queue_hello: "same_rx l (snd (queue_hello c ack l))"
  unfolding queue_hello_def by (intro same_rx_sbind same_rx_hello_payload same_rx_emit)

lemma same_rx_ensure_started: "same_rx l (ensure_started c l)"
  using same_rx_queue_hello [of "l\<lparr>l_started := True\<rparr>" c False]
  by (simp add: ensure_started_def) (simp add: same_rx_def)

lemma same_rx_cancel_request: "same_rx l (cancel_request h s l)"
  by (simp add: same_rx_def cancel_request_def split: option.split)

lemma same_rx_drop_unwanted: "same_rx l (drop_unwanted l)"
  by (simp add: same_rx_def drop_unwanted_def)

lemma same_rx_emit_error: "same_rx l (snd (emit_error c h s m l))"
  unfolding emit_error_def Let_def
  by (rule same_rx_trans [OF _ same_rx_emit]) (simp add: same_rx_def)

lemma same_rx_on_hello: "same_rx l (snd (on_hello c f l))"
proof (cases "validate_hello (slice (l_rx l) HEADER (HEADER + unat (fr_len f))) l")
  case (Inr contract)
  show ?thesis
    by (simp add: on_hello_def Let_def Inr)
       (intro conjI impI same_rx_trans [OF _ same_rx_queue_hello], simp_all add: same_rx_def)
qed (simp add: on_hello_def Let_def same_rx_def drop_peer_def)

lemma same_rx_dispatch: "same_rx l (snd (dispatch c f l))"
proof -
  have "same_rx l (snd (emit_error c h s m (drop_unwanted l)))" for h s m
    by (rule same_rx_trans [OF same_rx_drop_unwanted same_rx_emit_error])
  then show ?thesis
    by (auto simp: dispatch_def dispatch_data_def dispatch_request_def dispatch_reply_def Let_def
        same_rx_on_hello same_rx_drop_unwanted same_rx_cancel_request split: Kind.split)
       (simp_all add: same_rx_def)
qed

lemma decode_frame_sel [simp]:
  "l_rx_len (snd (decode_frame c n l)) = l_rx_len l"
  "l_rx_consumed (snd (decode_frame c n l)) = l_rx_consumed l"
  by (auto simp: decode_frame_def Let_def split: prod.split sum.split)

lemma decode_frame_len: "decode_frame c n l = (r, l') \<Longrightarrow> l_rx_len l' = l_rx_len l"
  using decode_frame_sel(1) [of c n l] by simp

lemma dispatch_same_rx: "dispatch c f l = (r, l') \<Longrightarrow> same_rx l l'"
  using same_rx_dispatch [of l c f] by simp

text \<open>The loop of \<open>next_event\<close>, and \<open>next_event\<close> itself. Each turn that goes on has dropped at least the
  delimiter it found.\<close>

function next_loop :: "codec \<Rightarrow> Link \<Rightarrow> Event option \<times> Link" where
  "next_loop c l =
     (case position (\<lambda>b. b = DELIMITER) (take (l_rx_len l) (l_rx l)) of
        None \<Rightarrow> (None, l)
      | Some end' \<Rightarrow>
          if end' = 0 then next_loop c (rx_discard 1 l)
          else
            (case decode_frame c end' l of
               (None, l1) \<Rightarrow>
                 next_loop c (rx_discard (end' + 1)
                   (l1\<lparr>l_stats := (l_stats l1)\<lparr>bad_frames := bad_frames (l_stats l1) + 1\<rparr>\<rparr>))
             | (Some frame, l1) \<Rightarrow>
                 let l2 = l1\<lparr>l_rx_consumed := end' + 1, l_rx_generation := l_rx_generation l1 + 1,
                             l_last_rx_ms := l_now_ms l1\<rparr>;
                     frame' = frame\<lparr>fr_generation := l_rx_generation l2\<rparr>
                 in (case dispatch c frame' l2 of
                       (Some event, l3) \<Rightarrow> (Some event, l3)
                     | (None, l3) \<Rightarrow> next_loop c (rx_compact l3))))"
  by pat_completeness auto
termination
  by (relation "measure (\<lambda>(_, l). l_rx_len l)")
    (auto simp: position_Some_iff rx_discard_def rx_compact_def same_rx_def
      dest!: decode_frame_len [OF sym] dispatch_same_rx [OF sym])

declare next_loop.simps [simp del]

definition next_event :: "codec \<Rightarrow> Link \<Rightarrow> Event option \<times> Link" where
  "next_event c l = next_loop c (rx_compact (ensure_started c l))"

section \<open>Reading\<close>

definition is_fresh :: "Frame \<Rightarrow> Link \<Rightarrow> bool" where
  "is_fresh frame l \<longleftrightarrow> fr_generation frame = l_rx_generation l"

definition payload :: "Frame \<Rightarrow> Link \<Rightarrow> bytes" where
  "payload frame l =
     (if \<not> is_fresh frame l then [] else slice (l_rx l) HEADER (HEADER + unat (fr_len frame)))"

definition frame_address :: "Frame \<Rightarrow> Link \<Rightarrow> EndpointRef option" where
  "frame_address frame l =
     (if fr_kind frame = Kind_Data then
        (if l_peer_bridge l then
           Option.bind (local_source (fr_hash frame) SUB l) (\<lambda>t.
             List.find (\<lambda>s. ep_hash s = fr_hash frame) (sp_sources (port_at l t)))
         else
           Option.bind (link_hello l) (\<lambda>h.
             map_option (\<lambda>e. \<lparr>ep_namespace = hello_id h, ep_port = he_port e\<rparr>)
               (List.find (\<lambda>e. he_hash e = fr_hash frame \<and> he_flags e AND PUB \<noteq> 0) (hello_entries h))))
      else
        (case local_type (fr_hash frame) l of
           Some t \<Rightarrow> Some \<lparr>ep_namespace = link_id l, ep_port = sp_name (port_at l t)\<rparr>
         | None \<Rightarrow>
             Option.bind (remote_source (fr_hash frame) CALLS l) (\<lambda>e.
               List.find (\<lambda>s. ep_hash s = fr_hash frame) (sources_iter (he_sources e)))))"

definition frame_contract :: "Frame \<Rightarrow> Link \<Rightarrow> (string \<times> u64) option" where
  "frame_contract frame l =
     (if \<not> is_fresh frame l then None
      else
        (case (case fr_kind frame of
                 Kind_Data \<Rightarrow> if l_peer_bridge l then local_source (fr_hash frame) SUB l else None
               | Kind_Request \<Rightarrow> local_type (fr_hash frame) l
               | Kind_Reply \<Rightarrow> local_source (fr_hash frame) CALLS l
               | _ \<Rightarrow> None) of
           Some t \<Rightarrow> Some (lt_name t, lt_schema t)
         | None \<Rightarrow>
             Option.bind (link_hello l) (\<lambda>h.
               map_option (\<lambda>e. (he_name e, he_schema e))
                 (if fr_kind frame = Kind_Request then remote_source (fr_hash frame) CALLS l
                  else List.find (\<lambda>e. he_hash e = fr_hash frame \<and> he_flags e AND (PUB OR SERVE) \<noteq> 0)
                         (hello_entries h)))))"

text \<open>\<open>T::decode\<close> of \<^verbatim>\<open>prost\<close> is a parameter.\<close>

definition link_decode :: "(bytes \<Rightarrow> 'm option) \<Rightarrow> MessageType \<Rightarrow> Frame \<Rightarrow> Link \<Rightarrow> 'm option" where
  "link_decode dec t frame l =
     (if fr_kind frame \<notin> set [Kind_Data, Kind_Request]
        \<or> frame_contract frame l \<noteq> Some (TYPE_NAME t, SCHEMA_FP t)
      then None else dec (payload frame l))"

definition decode_reply :: "(bytes \<Rightarrow> 'm option) \<Rightarrow> Service \<Rightarrow> Frame \<Rightarrow> Link \<Rightarrow> 'm option" where
  "decode_reply dec s frame l =
     (if fr_kind frame \<noteq> Kind_Reply
        \<or> frame_contract frame l \<noteq> Some (TYPE_NAME (svc_request s), SCHEMA_FP (svc_request s))
      then None
      else
        let p = payload frame l in
        if length p < 8 then None
        else if from_le_bytes (take 8 p) \<noteq> SCHEMA_FP (svc_response s) then None
        else dec (drop 8 p))"

definition error_message :: "Frame \<Rightarrow> Link \<Rightarrow> string" where
  "error_message frame l = (case from_utf8 (payload frame l) of Some s \<Rightarrow> s | None \<Rightarrow> [])"

end
