(* ===== verification/Link_Send.thy ===== *)
theory Link_Send
  imports Link Reference_Codec
begin

text \<open>
  The sending side of the link. \<open>tx_queue\<close> is the stream waiting in the send buffer. \<open>emit\<close> appends
  one whole encoded frame or leaves the stream as it is, \<open>drain\<close> and \<open>drain_frame\<close> take from the
  front, and nothing else of the link is touched (\<open>tx_only\<close>).
\<close>

definition tx_queue :: "Link \<Rightarrow> bytes" where
  "tx_queue l = take (l_tx_len l) (l_tx l)"

definition rx_queue :: "Link \<Rightarrow> bytes" where
  "rx_queue l = take (l_rx_len l) (l_rx l)"

text \<open>The sizes the type of the struct and the code's own bookkeeping guarantee.\<close>

definition link_sizes :: "Link \<Rightarrow> bool" where
  "link_sizes l \<longleftrightarrow> OVERHEAD \<le> l_FRAME l
     \<and> length (l_local l) = l_N l \<and> length (l_declared l) = l_N l
     \<and> length (l_remote l) = l_N l \<and> length (l_pending l) = l_N l
     \<and> length (l_peer_hello l) = l_FRAME l \<and> length (l_scratch l) = l_FRAME l
     \<and> l_peer_hello_len l \<le> l_FRAME l
     \<and> l_tx_len l \<le> length (l_tx l)
     \<and> l_rx_consumed l \<le> l_rx_len l \<and> l_rx_len l \<le> length (l_rx l)"

text \<open>\<open>tx_only l l'\<close>: \<open>l'\<close> differs from \<open>l\<close> at most in the scratch and send buffers, the time of
  the last transmission and the counters.\<close>

definition tx_only :: "Link \<Rightarrow> Link \<Rightarrow> bool" where
  "tx_only l l' \<longleftrightarrow> (\<exists>scratch tx tx_len last stats.
     l' = l\<lparr>l_scratch := scratch, l_tx := tx, l_tx_len := tx_len, l_last_tx_ms := last, l_stats := stats\<rparr>)"

lemma tx_only_refl [simp, intro]: "tx_only l l"
proof -
  have "l = l\<lparr>l_scratch := l_scratch l, l_tx := l_tx l, l_tx_len := l_tx_len l,
    l_last_tx_ms := l_last_tx_ms l, l_stats := l_stats l\<rparr>"
    by simp
  then show ?thesis
    unfolding tx_only_def by blast
qed

lemma tx_only_trans: "tx_only l l' \<Longrightarrow> tx_only l' l'' \<Longrightarrow> tx_only l l''"
  by (auto simp: tx_only_def) metis

lemma tx_only_upd [simp]:
  "tx_only l (l\<lparr>l_scratch := a\<rparr>)" "tx_only l (l\<lparr>l_tx := b, l_tx_len := n\<rparr>)"
  "tx_only l (l\<lparr>l_stats := s\<rparr>)"
  "tx_only l (l\<lparr>l_scratch := a, l_stats := s\<rparr>)"
  "tx_only l (l\<lparr>l_scratch := a, l_tx := b, l_tx_len := n, l_last_tx_ms := m\<rparr>)"
  unfolding tx_only_def by (cases l, simp)+

lemma tx_only_sel:
  assumes "tx_only l l'"
  shows "l_N l' = l_N l" "l_FRAME l' = l_FRAME l" "l_id l' = l_id l" "l_peer l' = l_peer l"
    "l_local l' = l_local l" "l_ports l' = l_ports l" "l_declared l' = l_declared l"
    "l_remote l' = l_remote l" "l_peer_hello l' = l_peer_hello l"
    "l_peer_hello_len l' = l_peer_hello_len l" "l_pending l' = l_pending l" "l_rx l' = l_rx l"
    "l_rx_len l' = l_rx_len l" "l_rx_consumed l' = l_rx_consumed l" "l_rx_skip l' = l_rx_skip l"
    "l_rx_generation l' = l_rx_generation l" "l_config l' = l_config l" "l_started l' = l_started l"
    "l_connected l' = l_connected l" "l_bridge l' = l_bridge l" "l_peer_bridge l' = l_peer_bridge l"
    "l_data_seq l' = l_data_seq l" "l_req_seq l' = l_req_seq l" "l_now_ms l' = l_now_ms l"
    "l_last_rx_ms l' = l_last_rx_ms l"
  using assms by (auto simp: tx_only_def)

lemma tx_only_same_rx: "tx_only l l' \<Longrightarrow> same_rx l l'"
  by (simp add: same_rx_def tx_only_sel)

lemma emit_tx_only: "tx_only l (snd (emit c k h s n l))"
  by (auto simp: emit_def Let_def split: sum.split prod.split)

lemma hello_payload_tx_only: "tx_only l (snd (hello_payload ack l))"
  by (auto simp: hello_payload_def Let_def split: sum.split prod.split)

lemma sbind_tx_only:
  assumes "tx_only l (snd (m l))" "\<And>v l'. tx_only l' (snd (f v l'))"
  shows "tx_only l (snd (sbind m f l))"
  using assms tx_only_trans [of l "snd (m l)"] by (cases "m l") (auto simp: sbind_def split: sum.split)

lemma queue_hello_tx_only: "tx_only l (snd (queue_hello c ack l))"
  unfolding queue_hello_def by (intro sbind_tx_only hello_payload_tx_only emit_tx_only)

lemma emit_error_tx_only: "tx_only l (snd (emit_error c h s m l))"
  unfolding emit_error_def Let_def by (rule tx_only_trans [OF _ emit_tx_only]) simp

lemma emit_reply_tx_only: "tx_only l (snd (emit_reply c h s sch n l))"
  unfolding emit_reply_def Let_def by (auto intro: tx_only_trans [OF _ emit_tx_only])

lemma copy_payload_tx_only: "tx_only l (snd (copy_payload p l))"
  by (auto simp: copy_payload_def)

lemma encode_payload_tx_only: "tx_only l (snd (encode_payload m l))"
  by (auto simp: encode_payload_def Let_def split: option.split)

lemmas tx_only_ops = emit_tx_only hello_payload_tx_only queue_hello_tx_only emit_error_tx_only
  emit_reply_tx_only copy_payload_tx_only encode_payload_tx_only

text \<open>Sizes only depend on the scratch and send buffers along \<open>tx_only\<close>.\<close>

lemma link_sizes_tx_only:
  assumes "tx_only l l'" "link_sizes l" "length (l_scratch l') = length (l_scratch l)"
    "l_tx_len l' \<le> length (l_tx l')"
  shows "link_sizes l'"
  using assms by (simp add: link_sizes_def tx_only_sel)

text \<open>\<open>tx_step l ws l'\<close>: \<open>l'\<close> is \<open>l\<close> with the bytes \<open>ws\<close> appended to the send stream. Sizes and
  everything outside the sending side are kept.\<close>

definition tx_step :: "Link \<Rightarrow> bytes \<Rightarrow> Link \<Rightarrow> bool" where
  "tx_step l ws l' \<longleftrightarrow> tx_only l l' \<and> tx_queue l' = tx_queue l @ ws
     \<and> length (l_scratch l') = length (l_scratch l) \<and> length (l_tx l') = length (l_tx l)
     \<and> l_tx_len l' = l_tx_len l + length ws \<and> l_tx_len l' \<le> length (l_tx l')"

lemma tx_step_sizes: "tx_step l ws l' \<Longrightarrow> link_sizes l \<Longrightarrow> link_sizes l'"
  unfolding tx_step_def using link_sizes_tx_only by blast

lemma tx_step_refl: "link_sizes l \<Longrightarrow> tx_step l [] l"
  by (simp add: tx_step_def link_sizes_def)

lemma tx_step_trans: "tx_step l a l' \<Longrightarrow> tx_step l' b l'' \<Longrightarrow> tx_step l (a @ b) l''"
  by (auto simp: tx_step_def intro: tx_only_trans)

lemma tx_step_stats: "tx_step l a l' \<Longrightarrow> tx_step l a (l'\<lparr>l_stats := s\<rparr>)"
  by (auto simp: tx_step_def tx_queue_def intro: tx_only_trans)

lemma tx_step_scratch:
  "link_sizes l \<Longrightarrow> length s = length (l_scratch l) \<Longrightarrow> tx_step l [] (l\<lparr>l_scratch := s\<rparr>)"
  by (simp add: tx_step_def tx_queue_def link_sizes_def)

text \<open>The header an emitted frame carries.\<close>

definition hdr :: "Kind \<Rightarrow> u32 \<Rightarrow> u8 \<Rightarrow> Header" where
  "hdr k h s = \<lparr>hd_kind = k, hd_hash = h, hd_seq = s\<rparr>"

context cobs_codec
begin

lemma emit_cases:
  fixes n :: nat
  assumes "link_sizes l"
  defines "p \<equiv> slice (l_scratch l) HEADER (HEADER + n)"
  obtains
    (large) "l_FRAME l < OVERHEAD + n" "emit c k h s n l = (Inl Err_TooLarge, l)"
  | (full) l' where "OVERHEAD + n \<le> l_FRAME l"
      "length (l_tx l) - l_tx_len l < encoded_max c (OVERHEAD + n)"
      "emit c k h s n l = (Inl Err_Full, l')" "tx_step l [] l'"
      "tx_full (l_stats l') = tx_full (l_stats l) + 1"
  | (sent) l' where "OVERHEAD + n \<le> l_FRAME l"
      "encoded_max c (OVERHEAD + n) \<le> length (l_tx l) - l_tx_len l"
      "emit c k h s n l = (Inr (), l')" "tx_step l (frame_wire c (hdr k h s) p) l'"
      "l_last_tx_ms l' = l_now_ms l" "l_stats l' = l_stats l"
proof (cases "OVERHEAD + n \<le> l_FRAME l")
  case False
  then have "seal c (l_scratch l) (hdr k h s) n = Inl Wire_TooLarge"
    using assms(1) by (simp add: seal_def link_sizes_def)
  then show thesis
    using False by (intro large) (simp_all add: emit_def hdr_def)
next
  case True
  have len: "length (l_scratch l) = l_FRAME l" and txl: "l_tx_len l \<le> length (l_tx l)"
    using assms(1) by (simp_all add: link_sizes_def)
  from seal_ok [of n "l_scratch l" c "hdr k h s"] True len obtain buf where
    buf: "seal c (l_scratch l) (hdr k h s) n = Inr (buf, OVERHEAD + n)" "length buf = length (l_scratch l)"
      "take (OVERHEAD + n) buf = frame_bytes c (hdr k h s) p"
    by (auto simp: p_def)
  show thesis
  proof (cases "length (l_tx l) - l_tx_len l < encoded_max c (OVERHEAD + n)")
    case f: True
    let ?l = "l\<lparr>l_scratch := buf, l_stats := (l_stats l)\<lparr>tx_full := tx_full (l_stats l) + 1\<rparr>\<rparr>"
    have "tx_step l [] ?l"
      using txl buf(2) by (simp add: tx_step_def tx_queue_def)
    then show thesis
      using True f buf by (intro full [of ?l]) (simp_all add: emit_def hdr_def)
  next
    case room: False
    let ?w = "frame_wire c (hdr k h s) p"
    let ?out = "copy_at (drop (l_tx_len l) (l_tx l)) 0 ?w"
    let ?l = "l\<lparr>l_scratch := buf, l_tx := take (l_tx_len l) (l_tx l) @ ?out,
      l_tx_len := l_tx_len l + length ?w, l_last_tx_ms := l_now_ms l\<rparr>"
    have raw: "length (frame_bytes c (hdr k h s) p) = OVERHEAD + n"
      using buf(2,3) len True by (metis length_take min.absorb2)
    have fits: "length ?w \<le> length (drop (l_tx_len l) (l_tx l))"
      using frame_wire_max [of "hdr k h s" p] room raw by simp
    have "encode c (frame_bytes c (hdr k h s) p) (drop (l_tx_len l) (l_tx l)) = Inr (?out, length ?w)"
      using encode_ok [of "frame_bytes c (hdr k h s) p" "drop (l_tx_len l) (l_tx l)"] room raw
      by (simp add: frame_wire_def)
    then have "emit c k h s n l = (Inr (), ?l)"
      using buf room by (simp add: emit_def hdr_def [symmetric] Let_def)
    moreover have "tx_step l ?w ?l"
      using fits txl buf(2) by (simp add: tx_step_def tx_queue_def copy_at_def)
    ultimately show thesis
      using True room by (intro sent [of ?l]) auto
  qed
qed

lemma emit_tx_step:
  assumes "link_sizes l"
  shows "\<exists>ws. tx_step l ws (snd (emit c k h s n l))
    \<and> (ws = [] \<or> ws = frame_wire c (hdr k h s) (slice (l_scratch l) HEADER (HEADER + n)))"
  using tx_step_refl [OF assms] by (cases rule: emit_cases [OF assms, of n k h s]) auto

end

section \<open>The Hello payload\<close>

definition local_entries :: "Link \<Rightarrow> HelloEntry list" where
  "local_entries l = map (hello_entry_of l) (flatten (l_local l))"

definition own_hello :: "bool \<Rightarrow> Link \<Rightarrow> bytes" where
  "own_hello ack l = hello_bytes ack (l_bridge l) (link_id l) (local_entries l)"

lemma hello_payload_step:
  assumes "link_sizes l"
  shows "tx_step l [] (snd (hello_payload ack l))"
proof -
  let ?in = "slice (l_scratch l) HEADER (l_FRAME l - TRAILER)"
  let ?out = "snd (hello_write ?in ack (l_bridge l) (link_id l) (local_entries l))"
  have "length ?out = length ?in"
    by (rule length_hello_write)
  then have "HEADER + length ?out \<le> length (l_scratch l)"
    using assms by (simp add: link_sizes_def wire_consts)
  then have "tx_step l [] (l\<lparr>l_scratch := copy_at (l_scratch l) HEADER ?out\<rparr>)"
    using assms by (intro tx_step_scratch) simp_all
  then show ?thesis
    by (auto simp: hello_payload_def local_entries_def Let_def split: prod.splits sum.splits)
qed

lemma hello_payload_Inr_iff:
  assumes "link_sizes l"
  shows "fst (hello_payload ack l) = Inr n \<longleftrightarrow>
    n = length (own_hello ack l) \<and> OVERHEAD + n \<le> l_FRAME l \<and> length (link_id l) \<le> 255
    \<and> list_all len_ok_entry (local_entries l) \<and> length (local_entries l) \<le> 255
    \<and> is_ok (hello_parse (own_hello ack l))"
    (is "_ \<longleftrightarrow> ?R")
proof -
  let ?in = "slice (l_scratch l) HEADER (l_FRAME l - TRAILER)"
  obtain r out where w: "hello_write ?in ack (l_bridge l) (link_id l) (local_entries l) = (r, out)"
    by fastforce
  have in_len: "length ?in = l_FRAME l - OVERHEAD"
    using assms by (simp add: link_sizes_def wire_consts)
  note iff = hello_write_Inr_iff [of ?in ack "l_bridge l" "link_id l" "local_entries l", unfolded w,
      folded own_hello_def]
  show ?thesis
  proof (cases r)
    case (Inl e)
    have "\<not> ?R"
    proof
      assume ?R
      then have "n \<le> length ?in"
        unfolding in_len by linarith
      then show False
        using iff [of n "copy_at ?in 0 (own_hello ack l)"] \<open>?R\<close> Inl
          iff [of n out] by simp
    qed
    with w Inl show ?thesis
      by (auto simp: hello_payload_def local_entries_def [symmetric])
  next
    case (Inr m)
    have m: "length (link_id l) \<le> 255" "list_all len_ok_entry (local_entries l)"
      "length (local_entries l) \<le> 255" "m = length (own_hello ack l)" "m \<le> l_FRAME l - OVERHEAD"
      "out = copy_at ?in 0 (own_hello ack l)"
      using iff [of m out] Inr in_len by auto
    have "HEADER + length out \<le> length (l_scratch l)" and mo: "m \<le> length out"
      using m assms by (simp_all add: link_sizes_def wire_consts)
    then have "slice (copy_at (l_scratch l) HEADER out) HEADER (HEADER + m) = take m out"
      by (simp add: slice_def copy_at_def)
    also have "\<dots> = own_hello ack l"
      using m(4-6) by (simp add: copy_at_def)
    finally have "fst (hello_payload ack l) = (case hello_parse (own_hello ack l) of
        Inl _ \<Rightarrow> Inl Err_InvalidPorts | Inr _ \<Rightarrow> Inr m)"
      by (simp add: hello_payload_def local_entries_def [symmetric] w Inr Let_def split: sum.split)
    then show ?thesis
      using m assms by (auto simp: link_sizes_def split: sum.splits)
  qed
qed

lemma hello_payload_scratch:
  assumes "link_sizes l" "hello_payload ack l = (Inr n, l')"
  shows "slice (l_scratch l') HEADER (HEADER + n) = own_hello ack l"
proof -
  let ?in = "slice (l_scratch l) HEADER (l_FRAME l - TRAILER)"
  obtain r out where w: "hello_write ?in ack (l_bridge l) (link_id l) (local_entries l) = (r, out)"
    by fastforce
  note iff = hello_write_Inr_iff [of ?in ack "l_bridge l" "link_id l" "local_entries l", unfolded w,
      folded own_hello_def]
  have r: "r = Inr n" and l': "l_scratch l' = copy_at (l_scratch l) HEADER out"
    using assms(2) by (auto simp: hello_payload_def local_entries_def [symmetric] w Let_def split: sum.splits)
  have n: "n = length (own_hello ack l)" "n \<le> length ?in" "out = copy_at ?in 0 (own_hello ack l)"
    using iff [of n out] r by auto
  have "HEADER + length out \<le> length (l_scratch l)" "n \<le> length out"
    using n assms(1) by (simp_all add: link_sizes_def wire_consts)
  then have "slice (copy_at (l_scratch l) HEADER out) HEADER (HEADER + n) = take n out"
    by (simp add: slice_def copy_at_def)
  with n l' show ?thesis
    by (simp add: copy_at_def)
qed

context cobs_codec
begin

lemma queue_hello_cases:
  assumes "link_sizes l"
  obtains (queued) l' where "queue_hello c ack l = (Inr (), l')"
      "tx_step l (frame_wire c (hdr Kind_Hello 0 0) (own_hello ack l)) l'"
  | (failed) e l' where "queue_hello c ack l = (Inl e, l')" "tx_step l [] l'"
proof -
  obtain r l1 where h: "hello_payload ack l = (r, l1)"
    by fastforce
  have s1: "tx_step l [] l1" and sz: "link_sizes l1"
    using hello_payload_step [OF assms, of ack] tx_step_sizes assms by (auto simp: h)
  show thesis
  proof (cases r)
    case (Inl e)
    with h s1 show ?thesis
      by (intro failed [of e l1]) (simp_all add: queue_hello_def sbind_def)
  next
    case (Inr n)
    have sl: "slice (l_scratch l1) HEADER (HEADER + n) = own_hello ack l"
      using hello_payload_scratch [OF assms] h Inr by blast
    have q: "queue_hello c ack l = emit c Kind_Hello 0 0 n l1"
      using h Inr by (simp add: queue_hello_def sbind_def)
    show ?thesis
      using sz
    proof (cases rule: emit_cases [of l1 n Kind_Hello 0 0])
      case large
      with q s1 show ?thesis
        by (intro failed) auto
    next
      case (full l')
      with q tx_step_trans [OF s1 full(4)] show ?thesis
        by (intro failed) auto
    next
      case (sent l')
      with q sl tx_step_trans [OF s1 sent(4)] show ?thesis
        by (intro queued) auto
    qed
  qed
qed

lemma queue_hello_step: "link_sizes l \<Longrightarrow> \<exists>ws. tx_step l ws (snd (queue_hello c ack l))"
  by (cases rule: queue_hello_cases [of l ack]) auto

lemma emit_error_step:
  assumes "link_sizes l"
  shows "\<exists>ws. tx_step l ws (snd (emit_error c h s m l))"
proof -
  let ?bs = "take (min (length (as_bytes m)) (l_FRAME l - OVERHEAD)) (as_bytes m)"
  have s: "tx_step l [] (l\<lparr>l_scratch := copy_at (l_scratch l) HEADER ?bs\<rparr>)" (is "tx_step l [] ?l")
    using assms by (intro tx_step_scratch) (auto simp: link_sizes_def wire_consts min_def)
  then have "link_sizes ?l"
    using assms tx_step_sizes by blast
  from emit_tx_step [OF this] s show ?thesis
    unfolding emit_error_def Let_def by (metis tx_step_trans)
qed

lemma ensure_started_step:
  assumes "link_sizes l"
  shows "\<exists>ws. tx_step (l\<lparr>l_started := True\<rparr>) ws (ensure_started c l)"
proof -
  have "link_sizes (l\<lparr>l_started := True\<rparr>)"
    using assms by (simp add: link_sizes_def)
  then show ?thesis
    using queue_hello_step tx_step_refl [of "l\<lparr>l_started := True\<rparr>"]
    by (cases l; cases "l_started l") (auto simp: ensure_started_def)
qed

end

section \<open>Taking bytes out\<close>

lemma tx_consume_queue:
  assumes "n \<le> l_tx_len l" "l_tx_len l \<le> length (l_tx l)"
  shows "tx_queue (tx_consume n l) = drop n (tx_queue l)"
    and "length (l_tx (tx_consume n l)) = length (l_tx l)"
    and "l_tx_len (tx_consume n l) = l_tx_len l - n"
  using assms by (auto simp: tx_consume_def tx_queue_def copy_within_def copy_at_def slice_def drop_take)

lemma tx_consume_only: "tx_only l (tx_consume n l)"
  by (simp add: tx_consume_def)

lemma tx_consume_sizes: "link_sizes l \<Longrightarrow> n \<le> l_tx_len l \<Longrightarrow> link_sizes (tx_consume n l)"
  using tx_consume_queue [of n l]
  by (intro link_sizes_tx_only [OF tx_consume_only]) (auto simp: link_sizes_def tx_consume_def)

lemma drain_started:
  assumes "link_sizes l" "l_started l"
  shows "drain c out l = (min (length (tx_queue l)) (length out),
     copy_at out 0 (take (length out) (tx_queue l)),
     tx_consume (min (length (tx_queue l)) (length out)) l)"
  using assms by (simp add: drain_def ensure_started_def tx_queue_def link_sizes_def min.commute Let_def)

lemma drain_queue:
  assumes "link_sizes l" "l_started l" "drain c out l = (n, out', l')"
  shows "take n out' = take (length out) (tx_queue l)" "tx_queue l' = drop n (tx_queue l)"
    "n = min (length (tx_queue l)) (length out)" "tx_only l l'" "link_sizes l'"
proof -
  have len: "length (tx_queue l) = l_tx_len l" "l_tx_len l \<le> length (l_tx l)"
    using assms(1) by (simp_all add: tx_queue_def link_sizes_def)
  have d: "n = min (length (tx_queue l)) (length out)" "l' = tx_consume n l"
    "out' = copy_at out 0 (take (length out) (tx_queue l))"
    using assms drain_started [OF assms(1,2)] by auto
  then have n: "n \<le> l_tx_len l"
    using len by simp
  show "n = min (length (tx_queue l)) (length out)" "tx_only l l'" "link_sizes l'"
    "tx_queue l' = drop n (tx_queue l)"
    using d n len tx_consume_only tx_consume_sizes [OF assms(1) n] tx_consume_queue(1) [OF n len(2)] by auto
  show "take n out' = take (length out) (tx_queue l)"
    using d by (simp add: copy_at_def min_def)
qed

lemma drain_frame_started:
  assumes "l_started l"
  shows "drain_frame c out l =
    (case position (\<lambda>b. b = DELIMITER) (tx_queue l) of
       None \<Rightarrow> (None, out, l)
     | Some i \<Rightarrow>
         if i + 1 > length out
         then (None, out, (tx_consume (i + 1) l)\<lparr>l_stats :=
           (l_stats (tx_consume (i + 1) l))\<lparr>tx_full := tx_full (l_stats (tx_consume (i + 1) l)) + 1\<rparr>\<rparr>)
         else (Some (i + 1), copy_at out 0 (take (i + 1) (l_tx l)), tx_consume (i + 1) l))"
  using assms unfolding drain_frame_def ensure_started_def tx_queue_def Let_def by simp

end
