(* ===== verification/Link_Receive.thy ===== *)
theory Link_Receive
  imports Link_Send
begin

text \<open>
  The receiving side of the link. \<open>spec_feed\<close> is a receiver that takes one byte at a time;
  \<open>feed\<close>, which copies runs of bytes and skips to delimiters, refines it, so how a stream is cut
  into calls does not matter. \<open>next_event\<close> takes complete frames off the front of the buffer.
\<close>

section \<open>The reference receiver\<close>

type_synonym rx_spec = "bytes \<times> bool \<times> u32"

fun spec_byte :: "nat \<Rightarrow> u8 \<Rightarrow> rx_spec \<Rightarrow> rx_spec option" where
  "spec_byte cap b (q, skip, overflows) =
     (if skip then Some (q, b \<noteq> DELIMITER, overflows)
      else if length q < cap then Some (q @ [b], False, overflows)
      else if DELIMITER \<in> set q then None
      else Some ([], b \<noteq> DELIMITER, overflows + 1))"

fun spec_feed :: "nat \<Rightarrow> bytes \<Rightarrow> rx_spec \<Rightarrow> nat \<times> rx_spec" where
  "spec_feed cap [] s = (0, s)"
| "spec_feed cap (b # bs) s =
     (case spec_byte cap b s of
        None \<Rightarrow> (0, s)
      | Some s' \<Rightarrow> (case spec_feed cap bs s' of (n, s'') \<Rightarrow> (Suc n, s'')))"

definition rx_abs :: "Link \<Rightarrow> rx_spec" where
  "rx_abs l = (rx_queue l, l_rx_skip l, rx_overflow (l_stats l))"

lemma spec_feed_le: "fst (spec_feed cap bs s) \<le> length bs"
  by (induction bs arbitrary: s) (auto split: option.split prod.split, metis fst_conv)

lemma spec_feed_append:
  "spec_feed cap (as @ bs) s =
     (case spec_feed cap as s of
        (n, s') \<Rightarrow> if n = length as then (case spec_feed cap bs s' of (m, s'') \<Rightarrow> (n + m, s'')) else (n, s'))"
proof (induction as arbitrary: s)
  case (Cons a as)
  then show ?case
    by (auto split: option.split prod.split)
qed (simp split: prod.split)

lemma spec_feed_skip:
  "DELIMITER \<notin> set bs \<Longrightarrow> spec_feed cap bs (q, True, v) = (length bs, (q, True, v))"
  by (induction bs) auto

lemma spec_feed_fill:
  "length q + length bs \<le> cap \<Longrightarrow> spec_feed cap bs (q, False, v) = (length bs, (q @ bs, False, v))"
  by (induction bs arbitrary: q) auto

text \<open>\<open>rx_only l l'\<close>: \<open>l'\<close> differs from \<open>l\<close> at most in the receive buffer, its bookkeeping and the
  counters.\<close>

definition rx_only :: "Link \<Rightarrow> Link \<Rightarrow> bool" where
  "rx_only l l' \<longleftrightarrow> (\<exists>rx rx_len skip stats.
     l' = l\<lparr>l_rx := rx, l_rx_len := rx_len, l_rx_skip := skip, l_stats := stats\<rparr> \<and> length rx = length (l_rx l))"

lemma rx_only_refl [simp, intro]: "rx_only l l"
proof -
  have "l = l\<lparr>l_rx := l_rx l, l_rx_len := l_rx_len l, l_rx_skip := l_rx_skip l, l_stats := l_stats l\<rparr>"
    by simp
  then show ?thesis
    unfolding rx_only_def by blast
qed

lemma rx_only_trans: "rx_only l l' \<Longrightarrow> rx_only l' l'' \<Longrightarrow> rx_only l l''"
  by (auto simp: rx_only_def) metis

lemma rx_only_upd:
  "rx_only l (l\<lparr>l_rx_skip := b\<rparr>)" "rx_only l (l\<lparr>l_rx_len := n, l_rx_skip := b, l_stats := s\<rparr>)"
  "length r = length (l_rx l) \<Longrightarrow> rx_only l (l\<lparr>l_rx := r, l_rx_len := n\<rparr>)"
  unfolding rx_only_def by (cases l, simp)+

lemma rx_only_sel:
  assumes "rx_only l l'"
  shows "l_N l' = l_N l" "l_FRAME l' = l_FRAME l" "l_id l' = l_id l" "l_peer l' = l_peer l"
    "l_local l' = l_local l" "l_ports l' = l_ports l" "l_declared l' = l_declared l"
    "l_remote l' = l_remote l" "l_peer_hello l' = l_peer_hello l"
    "l_peer_hello_len l' = l_peer_hello_len l" "l_pending l' = l_pending l" "l_tx l' = l_tx l"
    "l_tx_len l' = l_tx_len l" "l_rx_consumed l' = l_rx_consumed l" "l_scratch l' = l_scratch l"
    "l_rx_generation l' = l_rx_generation l" "l_config l' = l_config l" "l_started l' = l_started l"
    "l_connected l' = l_connected l" "l_bridge l' = l_bridge l" "l_peer_bridge l' = l_peer_bridge l"
    "l_data_seq l' = l_data_seq l" "l_req_seq l' = l_req_seq l" "l_now_ms l' = l_now_ms l"
    "l_last_rx_ms l' = l_last_rx_ms l" "l_last_tx_ms l' = l_last_tx_ms l" "length (l_rx l') = length (l_rx l)"
  using assms by (auto simp: rx_only_def)

section \<open>Feed\<close>

lemma feed_loop_refines:
  assumes "l_rx_len l \<le> length (l_rx l)" "length bs \<le> len" "feed_loop len bs l = (n, l')"
  shows "\<exists>k. spec_feed (length (l_rx l)) bs (rx_abs l) = (k, rx_abs l') \<and> n = len - length bs + k
    \<and> rx_only l l' \<and> l_rx_len l' \<le> length (l_rx l)"
  using assms
proof (induction len bs l arbitrary: n l' rule: feed_loop.induct)
  case (1 len bs l)
  let ?cap = "length (l_rx l)"
  note step = feed_loop.simps [of len bs l]
  consider (finished) "bs = []" | (skip_end) "bs \<noteq> []" "l_rx_skip l" "position (\<lambda>b. b = DELIMITER) bs = None"
    | (skip) i where "bs \<noteq> []" "l_rx_skip l" "position (\<lambda>b. b = DELIMITER) bs = Some i"
    | (blocked) "bs \<noteq> []" "\<not> l_rx_skip l" "?cap - l_rx_len l = 0" "DELIMITER \<in> set (rx_queue l)"
    | (overflow) "bs \<noteq> []" "\<not> l_rx_skip l" "?cap - l_rx_len l = 0" "DELIMITER \<notin> set (rx_queue l)"
    | (copy) "bs \<noteq> []" "\<not> l_rx_skip l" "?cap - l_rx_len l \<noteq> 0"
    by (cases "position (\<lambda>b. b = DELIMITER) bs") blast+
  then show ?case
  proof cases
    case finished
    with step 1 show ?thesis
      by auto
  next
    case skip_end
    with step 1 show ?thesis
      by (auto simp: rx_abs_def position_None_iff spec_feed_skip)
  next
    case (skip i)
    let ?l = "l\<lparr>l_rx_skip := False\<rparr>"
    from skip(3) obtain ys zs where bs: "bs = ys @ DELIMITER # zs" "length ys = i" "DELIMITER \<notin> set ys"
      by (auto dest!: position_Some_split)
    have fl: "feed_loop len zs ?l = (n, l')"
      using step skip 1(6) bs by simp
    have "drop (i + 1) bs = zs"
      using bs by simp
    with 1(1) [OF skip(1,2,3)] fl 1(4,5) bs obtain k where
      k: "spec_feed ?cap zs (rx_abs ?l) = (k, rx_abs l')" "n = len - length zs + k" "rx_only ?l l'"
        "l_rx_len l' \<le> ?cap"
      by (auto simp: rx_abs_def)
    have "spec_feed ?cap bs (rx_abs l) = (i + 1 + k, rx_abs l')"
      using k(1) skip(2) bs
      by (simp add: spec_feed_append rx_abs_def spec_feed_skip rx_queue_def split: prod.splits)
    moreover have "rx_only l l'"
      using rx_only_trans [OF rx_only_upd(1) k(3)] .
    ultimately show ?thesis
      using k bs 1(5) by auto
  next
    case blocked
    then obtain b bs' where bs: "bs = b # bs'"
      by (cases bs) auto
    have "feed_loop len bs l = (len - length bs, l)"
      using step blocked by (simp add: rx_queue_def)
    moreover have "spec_feed ?cap bs (rx_abs l) = (0, rx_abs l)"
      using blocked bs 1(4) by (simp add: rx_abs_def) (simp add: rx_queue_def)
    ultimately show ?thesis
      using 1 by auto
  next
    case overflow
    let ?l = "l\<lparr>l_rx_len := 0, l_rx_skip := True,
                l_stats := (l_stats l)\<lparr>rx_overflow := rx_overflow (l_stats l) + 1\<rparr>\<rparr>"
    obtain b bs' where bs: "bs = b # bs'"
      using overflow(1) by (cases bs) auto
    have "feed_loop len bs ?l = (n, l')"
      using step overflow 1(6) by (simp add: rx_queue_def)
    with 1(2) [OF overflow(1,2) refl overflow(3)] overflow(4) 1(5) obtain k where
      k: "spec_feed ?cap bs (rx_abs ?l) = (k, rx_abs l')" "n = len - length bs + k" "rx_only ?l l'"
        "l_rx_len l' \<le> ?cap"
      by (auto simp: rx_queue_def)
    have "spec_feed ?cap bs (rx_abs ?l) = spec_feed ?cap bs (rx_abs l)"
      using overflow bs 1(4) by (simp add: rx_abs_def) (simp add: rx_queue_def)
    with k rx_only_trans [OF rx_only_upd(2) k(3)] show ?thesis
      by auto
  next
    case copy
    let ?n = "min (?cap - l_rx_len l) (length bs)"
    let ?l = "l\<lparr>l_rx := copy_at (l_rx l) (l_rx_len l) (take ?n bs), l_rx_len := l_rx_len l + ?n\<rparr>"
    have len: "l_rx_len l + length (take ?n bs) \<le> ?cap"
      using 1(4) by auto
    then have cap: "length (l_rx ?l) = ?cap"
      by simp
    have pre: "l_rx_len ?l \<le> length (l_rx ?l)" "length (drop ?n bs) \<le> len"
      "feed_loop len (drop ?n bs) ?l = (n, l')"
      using step copy 1(5,6) len cap by (simp_all add: Let_def)
    from 1(3) [OF copy(1,2) refl copy(3) refl pre] cap obtain k where
      k: "spec_feed ?cap (drop ?n bs) (rx_abs ?l) = (k, rx_abs l')"
        "n = len - length (drop ?n bs) + k" "rx_only ?l l'" "l_rx_len l' \<le> ?cap"
      by auto
    have q: "rx_queue ?l = rx_queue l @ take ?n bs"
      using take_copy_at_end [OF len] by (simp add: rx_queue_def)
    have "length (rx_queue l) + length (take ?n bs) \<le> ?cap"
      using len 1(4) by (simp add: rx_queue_def)
    then have "spec_feed ?cap (take ?n bs) (rx_abs l) = (?n, rx_abs ?l)"
      using spec_feed_fill copy(2) q by (simp add: rx_abs_def)
    then have "spec_feed ?cap (take ?n bs @ drop ?n bs) (rx_abs l) = (?n + k, rx_abs l')"
      using k(1) by (simp only: spec_feed_append) simp
    moreover have "rx_only l l'"
      using rx_only_trans [OF rx_only_upd(3) k(3)] cap by simp
    ultimately show ?thesis
      using k 1(5) by auto
  qed
qed

lemma rx_discard_queue:
  assumes "n \<le> l_rx_len l" "l_rx_len l \<le> length (l_rx l)"
  shows "rx_queue (rx_discard n l) = drop n (rx_queue l)"
    and "length (l_rx (rx_discard n l)) = length (l_rx l)"
    and "l_rx_len (rx_discard n l) = l_rx_len l - n"
  using assms by (auto simp: rx_discard_def rx_queue_def copy_within_def copy_at_def slice_def drop_take)

lemma rx_discard_sizes:
  assumes "link_sizes l" "n + l_rx_consumed l \<le> l_rx_len l"
  shows "link_sizes (rx_discard n l)"
  using assms rx_discard_queue [of n l] by (auto simp: link_sizes_def) (auto simp: rx_discard_def)

lemma rx_compact_sizes: "link_sizes l \<Longrightarrow> link_sizes (rx_compact l)"
  unfolding rx_compact_def
  by (auto intro!: rx_discard_sizes) (auto simp: link_sizes_def)

lemma rx_compact_queue:
  assumes "link_sizes l"
  shows "rx_queue (rx_compact l) = drop (l_rx_consumed l) (rx_queue l)" "l_rx_consumed (rx_compact l) = 0"
    "length (l_rx (rx_compact l)) = length (l_rx l)"
  using assms rx_discard_queue [of "l_rx_consumed l" "l\<lparr>l_rx_consumed := 0\<rparr>"]
  by (auto simp: rx_compact_def link_sizes_def rx_queue_def rx_discard_def)

lemma rx_compact_idle [simp]: "l_rx_consumed l = 0 \<Longrightarrow> rx_compact l = l"
  by (simp add: rx_compact_def)

text \<open>The fields \<open>rx_discard\<close> and \<open>rx_compact\<close> leave alone.\<close>

definition rx_moved :: "Link \<Rightarrow> Link \<Rightarrow> bool" where
  "rx_moved l l' \<longleftrightarrow> (\<exists>rx rx_len rx_consumed gen.
     l' = l\<lparr>l_rx := rx, l_rx_len := rx_len, l_rx_consumed := rx_consumed, l_rx_generation := gen\<rparr>)"

lemma rx_compact_moved: "rx_moved l (rx_compact l)" and rx_discard_moved: "rx_moved l (rx_discard n l)"
  unfolding rx_moved_def rx_compact_def rx_discard_def by (cases l, simp)+

lemma rx_moved_sel:
  assumes "rx_moved l l'"
  shows "l_N l' = l_N l" "l_FRAME l' = l_FRAME l" "l_id l' = l_id l" "l_peer l' = l_peer l"
    "l_local l' = l_local l" "l_ports l' = l_ports l" "l_declared l' = l_declared l"
    "l_remote l' = l_remote l" "l_peer_hello l' = l_peer_hello l"
    "l_peer_hello_len l' = l_peer_hello_len l" "l_pending l' = l_pending l" "l_tx l' = l_tx l"
    "l_tx_len l' = l_tx_len l" "l_rx_skip l' = l_rx_skip l" "l_scratch l' = l_scratch l"
    "l_config l' = l_config l" "l_started l' = l_started l" "l_stats l' = l_stats l"
    "l_connected l' = l_connected l" "l_bridge l' = l_bridge l" "l_peer_bridge l' = l_peer_bridge l"
    "l_data_seq l' = l_data_seq l" "l_req_seq l' = l_req_seq l" "l_now_ms l' = l_now_ms l"
    "l_last_rx_ms l' = l_last_rx_ms l" "l_last_tx_ms l' = l_last_tx_ms l"
  using assms by (auto simp: rx_moved_def)

lemma feed_loop_sizes:
  assumes "link_sizes l" "l_rx_consumed l = 0"
  shows "link_sizes (snd (feed_loop (length bs) bs l))" "rx_only l (snd (feed_loop (length bs) bs l))"
    "spec_feed (length (l_rx l)) bs (rx_abs l) = (fst (feed_loop (length bs) bs l), rx_abs (snd (feed_loop (length bs) bs l)))"
proof -
  obtain n l' where fl: "feed_loop (length bs) bs l = (n, l')"
    by fastforce
  from feed_loop_refines [OF _ le_refl fl] assms(1) obtain k where
    "spec_feed (length (l_rx l)) bs (rx_abs l) = (k, rx_abs l')" "n = k" "rx_only l l'"
    "l_rx_len l' \<le> length (l_rx l)"
    by (auto simp: link_sizes_def)
  with assms fl show "link_sizes (snd (feed_loop (length bs) bs l))" "rx_only l (snd (feed_loop (length bs) bs l))"
    "spec_feed (length (l_rx l)) bs (rx_abs l) = (fst (feed_loop (length bs) bs l), rx_abs (snd (feed_loop (length bs) bs l)))"
    by (simp_all add: link_sizes_def rx_only_sel)
qed

section \<open>Next\<close>

lemma next_loop_None:
  "next_loop c l = (None, l') \<Longrightarrow> DELIMITER \<notin> set (rx_queue l')"
proof (induction c l arbitrary: l' rule: next_loop.induct)
  case (1 c l)
  show ?case
  proof (cases "position (\<lambda>b. b = DELIMITER) (take (l_rx_len l) (l_rx l))")
    case None
    with 1(4) show ?thesis
      by (auto simp: next_loop.simps [of c l] position_None_iff rx_queue_def)
  next
    case (Some i)
    note step = next_loop.simps [of c l, unfolded Some option.case]
    show ?thesis
    proof (cases "i = 0")
      case True
      with 1(1) [OF Some True] 1(4) step show ?thesis
        by simp
    next
      case False
      obtain r l1 where d: "decode_frame c i l = (r, l1)"
        by fastforce
      show ?thesis
      proof (cases r)
        case None
        with 1(2) [OF Some False d [symmetric]] 1(4) step False d show ?thesis
          by simp
      next
        case (Some fr)
        let ?l2 = "l1\<lparr>l_rx_consumed := i + 1, l_rx_generation := l_rx_generation l1 + 1,
                             l_last_rx_ms := l_now_ms l1\<rparr>"
        let ?fr = "fr\<lparr>fr_generation := l_rx_generation ?l2\<rparr>"
        obtain e l3 where p: "dispatch c ?fr ?l2 = (e, l3)"
          by fastforce
        with 1(4) step False d Some have "e = None" "next_loop c (rx_compact l3) = (None, l')"
          by (auto simp: Let_def split: option.splits)
        with 1(3) [OF \<open>position _ _ = _\<close> False d [symmetric] Some refl refl p [symmetric]] show ?thesis
          by blast
      qed
    qed
  qed
qed

text \<open>The state in which an intact frame is dispatched, and the general rule for properties of
  \<open>next_event\<close>: what one turn of the loop keeps holds when the loop stops, with or without an event.\<close>

definition rx_delim :: "Link \<Rightarrow> nat option" where
  "rx_delim l = position (\<lambda>b. b = DELIMITER) (rx_queue l)"

definition count_bad :: "Link \<Rightarrow> Link" where
  "count_bad l = l\<lparr>l_stats := (l_stats l)\<lparr>bad_frames := bad_frames (l_stats l) + 1\<rparr>\<rparr>"

definition accepted :: "nat \<Rightarrow> Link \<Rightarrow> Link" where
  "accepted i l = l\<lparr>l_rx_consumed := i + 1, l_rx_generation := l_rx_generation l + 1,
     l_last_rx_ms := l_now_ms l\<rparr>"

definition stamped :: "Frame \<Rightarrow> Link \<Rightarrow> Frame" where
  "stamped fr l = fr\<lparr>fr_generation := l_rx_generation l\<rparr>"

lemma next_loop_unfold:
  "next_loop c l =
     (case rx_delim l of
        None \<Rightarrow> (None, l)
      | Some i \<Rightarrow>
          if i = 0 then next_loop c (rx_discard 1 l)
          else (case decode_frame c i l of
                  (None, l1) \<Rightarrow> next_loop c (rx_discard (i + 1) (count_bad l1))
                | (Some fr, l1) \<Rightarrow>
                    (case dispatch c (stamped fr (accepted i l1)) (accepted i l1) of
                       (Some event, l3) \<Rightarrow> (Some event, l3)
                     | (None, l3) \<Rightarrow> next_loop c (rx_compact l3))))"
  unfolding next_loop.simps [of c l] rx_delim_def rx_queue_def count_bad_def accepted_def stamped_def Let_def
  by simp

lemma next_loop_rule:
  assumes start: "P l"
    and empty: "\<And>l. P l \<Longrightarrow> rx_delim l = Some 0 \<Longrightarrow> P (rx_discard 1 l)"
    and bad: "\<And>l i l1. P l \<Longrightarrow> rx_delim l = Some i \<Longrightarrow> 0 < i \<Longrightarrow> decode_frame c i l = (None, l1) \<Longrightarrow>
        P (rx_discard (i + 1) (count_bad l1))"
    and silent: "\<And>l i fr l1 l3. P l \<Longrightarrow> rx_delim l = Some i \<Longrightarrow> 0 < i \<Longrightarrow> decode_frame c i l = (Some fr, l1) \<Longrightarrow>
        dispatch c (stamped fr (accepted i l1)) (accepted i l1) = (None, l3) \<Longrightarrow> P (rx_compact l3)"
  shows "(\<exists>l'. next_loop c l = (None, l') \<and> P l') \<or>
    (\<exists>l0 i fr l1 event l3. P l0 \<and> rx_delim l0 = Some i \<and> 0 < i \<and> decode_frame c i l0 = (Some fr, l1)
       \<and> dispatch c (stamped fr (accepted i l1)) (accepted i l1) = (Some event, l3)
       \<and> next_loop c l = (Some event, l3))"
  using start
proof (induction "l_rx_len l" arbitrary: l rule: less_induct)
  case less
  note step = next_loop_unfold [of c l]
  show ?case
  proof (cases "rx_delim l")
    case None
    with step less.prems show ?thesis
      by simp
  next
    case (Some i)
    then have i: "i < l_rx_len l"
      by (auto simp: rx_delim_def rx_queue_def position_Some_iff)
    show ?thesis
    proof (cases "i = 0")
      case True
      have "l_rx_len (rx_discard 1 l) < l_rx_len l"
        using i by (simp add: rx_discard_def)
      from less.hyps [OF this empty [OF less.prems]] Some True step show ?thesis
        by simp
    next
      case False
      then have "0 < i" by simp
      obtain r l1 where d: "decode_frame c i l = (r, l1)"
        by fastforce
      then have len: "l_rx_len l1 = l_rx_len l"
        by (rule decode_frame_len)
      show ?thesis
      proof (cases r)
        case None
        have "l_rx_len (rx_discard (i + 1) (count_bad l1)) < l_rx_len l"
          using i len by (simp add: rx_discard_def count_bad_def)
        from less.hyps [OF this bad [OF less.prems Some \<open>0 < i\<close>]] d None step Some False show ?thesis
          by simp
      next
        case fr: (Some fr)
        obtain e l3 where p: "dispatch c (stamped fr (accepted i l1)) (accepted i l1) = (e, l3)"
          by fastforce
        show ?thesis
        proof (cases e)
          case None
          have "l_rx_len (rx_compact l3) < l_rx_len l"
            using dispatch_same_rx [OF p] i len
            by (simp add: rx_compact_def rx_discard_def same_rx_def accepted_def)
          from less.hyps [OF this silent [OF less.prems Some \<open>0 < i\<close>]] d fr p None step Some False
          show ?thesis
            by simp
        next
          case (Some event)
          with d fr p step \<open>rx_delim l = Some i\<close> \<open>0 < i\<close> less.prems have "next_loop c l = (Some event, l3)"
            by simp
          with d fr p Some \<open>rx_delim l = Some i\<close> \<open>0 < i\<close> less.prems show ?thesis
            by blast
        qed
      qed
    qed
  qed
qed

context cobs_codec
begin

lemma decode_frame_sizes:
  assumes "link_sizes l" "i \<le> l_rx_len l"
  shows "link_sizes (snd (decode_frame c i l))"
proof -
  have "length (l_rx (snd (decode_frame c i l))) = length (l_rx l)"
    using assms decode_in_place_length [of "take i (l_rx l)"]
    by (auto simp: decode_frame_def Let_def link_sizes_def split: prod.split sum.split)
  moreover have "l_N (snd (decode_frame c i l)) = l_N l" "l_FRAME (snd (decode_frame c i l)) = l_FRAME l"
    "l_local (snd (decode_frame c i l)) = l_local l" "l_declared (snd (decode_frame c i l)) = l_declared l"
    "l_remote (snd (decode_frame c i l)) = l_remote l" "l_pending (snd (decode_frame c i l)) = l_pending l"
    "l_peer_hello (snd (decode_frame c i l)) = l_peer_hello l" "l_scratch (snd (decode_frame c i l)) = l_scratch l"
    "l_peer_hello_len (snd (decode_frame c i l)) = l_peer_hello_len l"
    "l_tx (snd (decode_frame c i l)) = l_tx l" "l_tx_len (snd (decode_frame c i l)) = l_tx_len l"
    by (auto simp: decode_frame_def Let_def split: prod.split sum.split)
  ultimately show ?thesis
    using assms by (simp add: link_sizes_def)
qed

text \<open>An intact frame at the front of the buffer is decoded to its header and payload.\<close>

lemma decode_frame_wire:
  assumes "rx_queue l = frame_wire c h p @ q" "OVERHEAD + length p \<le> l_FRAME l" "length p < 2 ^ 16"
  obtains fr l1 where "rx_delim l = Some (length (frame_wire c h p) - 1)"
    "decode_frame c (length (frame_wire c h p) - 1) l = (Some fr, l1)"
    "fr = \<lparr>fr_kind = hd_kind h, fr_hash = hd_hash h, fr_seq = hd_seq h, fr_len = word_of_nat (length p), fr_generation = 0\<rparr>"
    "l1 = l\<lparr>l_rx := l_rx l1\<rparr>" "length (l_rx l1) = length (l_rx l)"
    "slice (l_rx l1) HEADER (HEADER + length p) = p"
    "drop (length (frame_wire c h p)) (l_rx l1) = drop (length (frame_wire c h p)) (l_rx l)"
    "0 < length (frame_wire c h p) - 1"
proof -
  let ?raw = "frame_bytes c h p" and ?enc = "cobs_encode c (frame_bytes c h p)"
  let ?i = "length (frame_wire c h p) - 1"
  have i: "?i = length ?enc"
    by (simp add: frame_wire_def)
  have delim: "rx_delim l = Some ?i"
    using frame_wire_position by (simp add: rx_delim_def assms(1))
  have rx: "take ?i (l_rx l) = ?enc"
  proof -
    have "?i \<le> l_rx_len l"
      using arg_cong [OF assms(1), of length] by (simp add: rx_queue_def frame_wire_def)
    then have "take ?i (l_rx l) = take ?i (rx_queue l)"
      by (simp add: rx_queue_def min_def)
    then show ?thesis
      by (simp add: assms(1) frame_wire_def)
  qed
  obtain b where b: "decode_in_place c ?enc = (b, Inr (length ?raw))" "take (length ?raw) b = ?raw"
    using decode_in_place_encode by blast
  have lb: "length b = length ?enc"
    using decode_in_place_length [of ?enc] b by simp
  have le: "length ?raw \<le> length ?enc"
    using decode_in_place_le [of ?enc] b by simp
  let ?fr = "\<lparr>fr_kind = hd_kind h, fr_hash = hd_hash h, fr_seq = hd_seq h,
    fr_len = word_of_nat (length p), fr_generation = 0\<rparr>"
  let ?l1 = "l\<lparr>l_rx := b @ drop ?i (l_rx l)\<rparr>"
  have "OVERHEAD + length p - length b = 0"
    using lb le by simp
  then have "take (OVERHEAD + length p) (b @ drop ?i (l_rx l)) = ?raw"
    using b by simp
  then have "decode_frame c ?i l = (Some ?fr, ?l1)"
    using b rx assms(2,3) by (simp add: decode_frame_def Let_def parse_frame_bytes del: take_append)
  moreover have "length (l_rx ?l1) = length (l_rx l)"
    using arg_cong [OF rx, of length] lb by simp
  moreover have "slice (l_rx ?l1) HEADER (HEADER + length p) = p"
  proof -
    have "slice (l_rx ?l1) HEADER (HEADER + length p) = slice (take (length ?raw) b) HEADER (HEADER + length p)"
      using le lb by (simp add: slice_def drop_take wire_consts min_def)
    also have "\<dots> = p"
      unfolding b(2) by (simp add: frame_bytes_def frame_body_def slice_def wire_consts)
    finally show ?thesis .
  qed
  moreover have "drop (length (frame_wire c h p)) (l_rx ?l1) = drop (length (frame_wire c h p)) (l_rx l)"
    using lb i by (simp add: frame_wire_def)
  moreover have "0 < ?i"
    using i encode_nonempty [of ?raw] by (simp add: frame_bytes_def frame_body_def)
  ultimately show thesis
    using delim by (intro that [of ?fr ?l1]) simp_all
qed

end

end
