(* ===== verification/Link_Invariant.thy ===== *)
theory Link_Invariant
  imports Link_Receive
begin

text \<open>
  The invariant of the link and its preservation by every operation: buffer bookkeeping
  (\<open>link_sizes\<close>), the declared types (\<open>locals_ok\<close>), the peer's contract, which is either absent or
  exactly what the last accepted Hello says (\<open>peer_ok\<close>), and the correlation table
  (\<open>pending_ok\<close>). \<open>link_reach\<close> is the relation of the states a program can bring a link to.
\<close>

section \<open>Tables of optional slots\<close>

lemma set_flatten: "x \<in> set (flatten xs) \<longleftrightarrow> Some x \<in> set xs"
  by (induction xs rule: flatten.induct) auto

lemma flatten_append [simp]: "flatten (xs @ ys) = flatten xs @ flatten ys"
  by (induction xs rule: flatten.induct) auto

lemma flatten_replicate [simp]: "flatten (replicate n None) = []"
  by (induction n) auto

lemma length_flatten_le: "length (flatten xs) \<le> length xs"
  by (induction xs rule: flatten.induct) auto

lemma free_slot_split:
  assumes "position (\<lambda>s. s = None) xs = Some i"
  obtains ys zs where "xs = ys @ None # zs" "xs[i := Some v] = ys @ Some v # zs"
  using position_Some_split [OF assms] by auto

lemma flatten_fill:
  assumes "position (\<lambda>s. s = None) xs = Some i"
  shows "set (flatten (xs[i := Some v])) = insert v (set (flatten xs))"
    and "distinct (map f (flatten (xs[i := Some v]))) \<longleftrightarrow>
      f v \<notin> f ` set (flatten xs) \<and> distinct (map f (flatten xs))"
proof -
  obtain ys zs where "xs = ys @ None # zs" "xs[i := Some v] = ys @ Some v # zs"
    using free_slot_split [OF assms, of v] .
  then show "set (flatten (xs[i := Some v])) = insert v (set (flatten xs))"
    and "distinct (map f (flatten (xs[i := Some v]))) \<longleftrightarrow>
      f v \<notin> f ` set (flatten xs) \<and> distinct (map f (flatten xs))"
    by auto
qed

lemma flatten_clear:
  assumes "position (\<lambda>s. s = Some v) xs = Some i" "distinct (flatten xs)"
  shows "set (flatten (xs[i := None])) = set (flatten xs) - {v}" "distinct (flatten (xs[i := None]))"
proof -
  obtain ys zs where "xs = ys @ Some v # zs" "length ys = i"
    using position_Some_split [OF assms(1)] by blast
  with assms(2) show "set (flatten (xs[i := None])) = set (flatten xs) - {v}" "distinct (flatten (xs[i := None]))"
    by auto
qed

section \<open>The invariant\<close>

definition flag_for :: "PortDirection \<Rightarrow> u8 \<Rightarrow> bool" where
  "flag_for d f \<longleftrightarrow>
     (case d of Dir_Output \<Rightarrow> f = PUB \<or> f = (PUB OR LATCHED)
      | Dir_Input \<Rightarrow> f = SUB | Dir_RpcServer \<Rightarrow> f = SERVE | Dir_RpcClient \<Rightarrow> f = CALLS)"

definition local_ok :: "Link \<Rightarrow> LocalType \<Rightarrow> bool" where
  "local_ok l t \<longleftrightarrow> lt_port t < length (l_ports l)
     \<and> lt_hash t = endpoint_hash (link_id l) (sp_name (port_at l t))
     \<and> lt_name t = sp_ty (port_at l t) \<and> lt_schema t = sp_schema (port_at l t)
     \<and> flag_for (sp_direction (port_at l t)) (lt_flags t)"

definition locals_ok :: "Link \<Rightarrow> bool" where
  "locals_ok l \<longleftrightarrow> \<not> ports_bad [] (l_ports l) \<and> valid_namespace (link_id l) \<and> length (link_id l) \<le> ID_MAX
     \<and> list_all (local_ok l) (flatten (l_local l))
     \<and> distinct (map lt_port (flatten (l_local l)))
     \<and> set (flatten (l_declared l)) = lt_port ` set (flatten (l_local l))"

definition peer_cleared :: "Link \<Rightarrow> bool" where
  "peer_cleared l \<longleftrightarrow> l_peer l = None \<and> \<not> l_peer_bridge l \<and> l_remote l = replicate (l_N l) None
     \<and> l_peer_hello_len l = 0 \<and> l_pending l = replicate (l_N l) None"

definition peer_known :: "Link \<Rightarrow> bool" where
  "peer_known l \<longleftrightarrow> l_started l \<and>
     (\<exists>h b. link_hello l = Some h \<and> idbuf_new (hello_id h) = Inr b \<and> l_peer l = Some b
        \<and> l_peer_bridge l = hello_bridge h
        \<and> validate_entries l h 0 (hello_entries h) (replicate (l_N l) None) = Inr (l_remote l))"

definition peer_ok :: "Link \<Rightarrow> bool" where
  "peer_ok l \<longleftrightarrow> (if l_connected l then peer_known l else peer_cleared l)"

definition pending_ok :: "Link \<Rightarrow> bool" where
  "pending_ok l \<longleftrightarrow> distinct (flatten (l_pending l))"

definition link_inv :: "Link \<Rightarrow> bool" where
  "link_inv l \<longleftrightarrow> link_sizes l \<and> locals_ok l \<and> peer_ok l \<and> pending_ok l"

lemma link_inv_sizes: "link_inv l \<Longrightarrow> link_sizes l"
  by (simp add: link_inv_def)

text \<open>The declared types do not change once a link has started; the checks of a Hello depend on
  nothing else.\<close>

definition same_static :: "Link \<Rightarrow> Link \<Rightarrow> bool" where
  "same_static l l' \<longleftrightarrow> l_N l' = l_N l \<and> l_id l' = l_id l \<and> l_local l' = l_local l \<and> l_ports l' = l_ports l
     \<and> l_declared l' = l_declared l"

lemma same_static_id: "same_static l l' \<Longrightarrow> link_id l' = link_id l"
  and same_static_port: "same_static l l' \<Longrightarrow> port_at l' t = port_at l t"
  by (simp_all add: same_static_def link_id_def port_at_def)

lemma entry_cong:
  assumes "same_static l l'"
  shows "entry_from_peer l' h e t = entry_from_peer l h e t" "entry_to_peer l' e t = entry_to_peer l e t"
    "entry_mismatch l' e t = entry_mismatch l e t"
  using assms by (simp_all only: entry_from_peer_def entry_to_peer_def entry_mismatch_def same_static_id same_static_port)

lemma check_locals_cong: "same_static l l' \<Longrightarrow> check_locals l' h e ts = check_locals l h e ts"
  by (induction ts) (simp_all only: check_locals.simps entry_cong same_static_port)

lemma addresses_collide_cong: "same_static l l' \<Longrightarrow> addresses_collide l' h e = addresses_collide l h e"
  by (simp add: addresses_collide_def local_addresses_def same_static_id same_static_port)
     (simp add: same_static_def)

lemma validate_entries_cong:
  "same_static l l' \<Longrightarrow> validate_entries l' h i es r = validate_entries l h i es r"
proof (induction es arbitrary: i r)
  case (Cons e es)
  have "l_N l' = l_N l" "l_local l' = l_local l"
    using Cons.prems by (simp_all add: same_static_def)
  then show ?case
    unfolding validate_entries.simps check_locals_cong [OF Cons.prems] addresses_collide_cong [OF Cons.prems]
      Cons.IH [OF Cons.prems] by simp
qed simp

lemma locals_ok_cong: "same_static l l' \<Longrightarrow> locals_ok l' = locals_ok l"
  by (simp add: locals_ok_def local_ok_def [abs_def] same_static_id same_static_port)
     (simp add: same_static_def)

text \<open>The peer's contract, as far as the invariant looks at it.\<close>

definition same_peer :: "Link \<Rightarrow> Link \<Rightarrow> bool" where
  "same_peer l l' \<longleftrightarrow> l_peer l' = l_peer l \<and> l_peer_bridge l' = l_peer_bridge l \<and> l_remote l' = l_remote l
     \<and> l_peer_hello l' = l_peer_hello l \<and> l_peer_hello_len l' = l_peer_hello_len l
     \<and> l_connected l' = l_connected l \<and> l_pending l' = l_pending l"

lemma peer_ok_cong:
  assumes "same_static l l'" "same_peer l l'" "l_started l \<longrightarrow> l_started l'"
  shows "peer_ok l \<Longrightarrow> peer_ok l'"
  using assms(2,3) validate_entries_cong [OF assms(1)] assms(1)
  by (auto simp: peer_ok_def peer_known_def peer_cleared_def same_peer_def same_static_def link_hello_def)

lemma link_inv_cong:
  assumes "same_static l l'" "same_peer l l'" "l_started l \<longrightarrow> l_started l'" "link_sizes l'"
  shows "link_inv l \<Longrightarrow> link_inv l'"
  using assms(2,4) peer_ok_cong [OF assms(1-3)] locals_ok_cong [OF assms(1)]
  by (simp add: link_inv_def pending_ok_def same_peer_def)

lemma link_inv_tx_step: "tx_step l ws l' \<Longrightarrow> link_inv l \<Longrightarrow> link_inv l'"
  by (rule link_inv_cong)
    (auto simp: tx_step_def tx_only_sel same_static_def same_peer_def link_inv_def
      intro: link_sizes_tx_only)

lemma link_inv_rx_only: "link_sizes l' \<Longrightarrow> rx_only l l' \<Longrightarrow> link_inv l \<Longrightarrow> link_inv l'"
  by (rule link_inv_cong) (auto simp: rx_only_sel same_static_def same_peer_def)

lemma link_inv_rx_moved: "rx_moved l l' \<Longrightarrow> link_sizes l' \<Longrightarrow> link_inv l \<Longrightarrow> link_inv l'"
  by (rule link_inv_cong) (auto simp: rx_moved_sel same_static_def same_peer_def)

lemma link_inv_rx_compact: "link_inv l \<Longrightarrow> link_inv (rx_compact l)"
  using link_inv_rx_moved [OF rx_compact_moved] rx_compact_sizes by (auto simp: link_inv_def)

lemma link_inv_drop_peer:
  assumes "link_inv l"
  shows "link_inv (drop_peer l)"
proof -
  have "locals_ok (drop_peer l) = locals_ok l"
    by (rule locals_ok_cong) (simp add: same_static_def drop_peer_def)
  with assms show ?thesis
    by (auto simp: link_inv_def peer_ok_def peer_cleared_def pending_ok_def link_sizes_def drop_peer_def)
qed

lemma link_inv_upd:
  assumes "link_inv l"
  shows "link_inv (l\<lparr>l_stats := s\<rparr>)" "link_inv (l\<lparr>l_now_ms := t\<rparr>)" "link_inv (l\<lparr>l_last_rx_ms := t\<rparr>)"
    "link_inv (l\<lparr>l_data_seq := q\<rparr>)" "link_inv (l\<lparr>l_started := True\<rparr>)" "link_inv (l\<lparr>l_bridge := b\<rparr>)"
    "link_inv (l\<lparr>l_config := g\<rparr>)" "link_inv (l\<lparr>l_req_seq := q\<rparr>)"
  by (rule link_inv_cong [OF _ _ _ _ assms];
      use assms in \<open>simp add: same_static_def same_peer_def link_inv_def link_sizes_def\<close>)+

lemma valid_namespace_utf8:
  assumes "valid_namespace s"
  shows "utf8_valid (as_bytes s)"
proof (rule utf8_valid_as_bytes_ascii)
  fix x
  assume "x \<in> set s"
  show "x \<le> CHR 0x7F"
  proof (cases "x = CHR ''/''")
    case False
    then obtain w where "w \<in> set (split_on CHR ''/'' s)" "x \<in> set w"
      using split_on_chars [OF \<open>x \<in> set s\<close>] by blast
    with assms have "ascii_alphanumeric x \<or> x \<in> set ''_.-''"
      by (auto simp: valid_namespace_def valid_port_def list_all_iff)
    then show ?thesis
      using ascii_alphanumeric_le by (auto simp: less_eq_char_def)
  qed (simp add: less_eq_char_def)
qed

lemma idbuf_new_Inr:
  assumes "idbuf_new s = Inr b" "valid_namespace s"
  shows "idbuf_as_str b = s" "length s \<le> ID_MAX"
proof -
  have len: "length s \<le> 32" and b: "b = \<lparr>id_bytes = copy_at (replicate ID_MAX 0) 0 (as_bytes s), id_len = word_of_nat (length s)\<rparr>"
    using assms(1) by (auto simp: idbuf_new_def ID_MAX_def split: if_splits)
  show "length s \<le> ID_MAX"
    using len by (simp add: ID_MAX_def)
  have "from_utf8 (as_bytes s) = Some s"
    using valid_namespace_utf8 [OF assms(2)] by simp
  moreover have "take (unat (id_len b)) (id_bytes b) = as_bytes s"
    using len by (simp add: b unat_len_u8 copy_at_def)
  ultimately show "idbuf_as_str b = s"
    by (simp add: idbuf_as_str_def)
qed

lemma link_inv_new:
  assumes "link_new n frame ident ports tx rx = Inr l"
  shows "link_inv l"
proof -
  from assms obtain b where b: "idbuf_new ident = Inr b" "OVERHEAD \<le> frame" "\<not> ports_bad [] ports"
    "valid_namespace ident"
    and l: "l = \<lparr>l_N = n, l_FRAME = frame, l_id = b, l_peer = None, l_local = replicate n None,
             l_ports = ports, l_declared = replicate n None, l_remote = replicate n None,
             l_peer_hello = replicate frame 0, l_peer_hello_len = 0, l_pending = replicate n None,
             l_tx = tx, l_tx_len = 0, l_rx = rx, l_rx_len = 0, l_rx_consumed = 0, l_rx_skip = False,
             l_rx_generation = 0, l_scratch = replicate frame 0, l_config = LinkConfig_default,
             l_started = False, l_connected = False, l_bridge = False, l_peer_bridge = False,
             l_data_seq = 0, l_req_seq = 0, l_now_ms = 0, l_last_rx_ms = 0, l_last_tx_ms = 0,
             l_stats = Stats_default\<rparr>"
    by (auto simp: link_new_def res_simps split: if_splits)
  from idbuf_new_Inr [OF b(1,4)] b show ?thesis
    by (simp add: l link_inv_def link_sizes_def locals_ok_def peer_ok_def peer_cleared_def pending_ok_def
        link_id_def)
qed

section \<open>Operations that do not receive\<close>

lemma pending_cancel:
  assumes "pending_ok l"
  shows "set (flatten (l_pending (cancel_request h s l))) = set (flatten (l_pending l)) - {(h, s)}"
    "distinct (flatten (l_pending (cancel_request h s l)))"
proof -
  show "set (flatten (l_pending (cancel_request h s l))) = set (flatten (l_pending l)) - {(h, s)}"
    using assms by (auto simp: cancel_request_def pending_ok_def flatten_clear set_flatten position_None_iff
        split: option.split)
  show "distinct (flatten (l_pending (cancel_request h s l)))"
    using assms by (auto simp: cancel_request_def pending_ok_def flatten_clear split: option.split)
qed

lemma cancel_request_idle: "\<not> l_connected l \<Longrightarrow> peer_ok l \<Longrightarrow> cancel_request h s l = l"
  by (auto simp: peer_ok_def peer_cleared_def cancel_request_def position_Some_iff split: option.split)

lemma cancel_request_fields:
  "cancel_request h s l = l\<lparr>l_pending := l_pending (cancel_request h s l)\<rparr>"
  "length (l_pending (cancel_request h s l)) = length (l_pending l)"
  by (auto simp: cancel_request_def split: option.split)

lemma link_inv_pending:
  assumes "link_inv l" "l_connected l" "length p = l_N l" "distinct (flatten p)"
  shows "link_inv (l\<lparr>l_pending := p\<rparr>)"
proof -
  have ss: "same_static l (l\<lparr>l_pending := p\<rparr>)"
    by (simp add: same_static_def)
  show ?thesis
    using assms locals_ok_cong [OF ss] validate_entries_cong [OF ss]
    by (simp add: link_inv_def link_sizes_def pending_ok_def peer_ok_def peer_known_def link_hello_def)
qed

lemma link_inv_cancel_request:
  assumes "link_inv l"
  shows "link_inv (cancel_request h s l)"
proof (cases "l_connected l")
  case True
  from pending_cancel(2) [of l h s] cancel_request_fields [of h s l] assms
    link_inv_pending [OF assms True, of "l_pending (cancel_request h s l)"]
  show ?thesis
    by (simp add: link_inv_def link_sizes_def)
next
  case False
  then show ?thesis
    using assms cancel_request_idle by (simp add: link_inv_def)
qed

definition keeps :: "'a link_op \<Rightarrow> bool" where
  "keeps f \<longleftrightarrow> (\<forall>l. link_inv l \<longrightarrow> link_inv (snd (f l)))"

lemma keepsI: "(\<And>l. link_inv l \<Longrightarrow> link_inv (snd (f l))) \<Longrightarrow> keeps f"
  and keepsD: "keeps f \<Longrightarrow> link_inv l \<Longrightarrow> link_inv (snd (f l))"
  by (auto simp: keeps_def)

lemma keeps_sbind: "keeps m \<Longrightarrow> (\<And>v. keeps (f v)) \<Longrightarrow> keeps (sbind m f)"
  by (fastforce simp: keeps_def sbind_def split: prod.splits sum.splits)

lemma keeps_sread: "keeps (sread f)"
  by (simp add: keeps_def sread_def)

text \<open>A \<^verbatim>\<open>prost\<close> message writes within the slot it is given.\<close>

definition message_ok :: "Message \<Rightarrow> bool" where
  "message_ok m \<longleftrightarrow> (\<forall>slot b. msg_encode m slot = Some b \<longrightarrow> length b = length slot)"

lemma encode_payload_step:
  assumes "link_sizes l" "message_ok m"
  shows "tx_step l [] (snd (encode_payload m l))"
proof (cases "msg_encoded_len m > l_FRAME l - OVERHEAD")
  case True
  then show ?thesis
    using assms by (simp add: encode_payload_def tx_step_refl)
next
  case False
  let ?slot = "slice (l_scratch l) HEADER (HEADER + msg_encoded_len m)"
  have "tx_step l [] (l\<lparr>l_scratch := copy_at (l_scratch l) HEADER b\<rparr>)" if "msg_encode m ?slot = Some b" for b
  proof -
    have "length b = length ?slot"
      using assms(2) that by (simp add: message_ok_def)
    then show ?thesis
      using assms(1) False by (intro tx_step_scratch) (auto simp: link_sizes_def wire_consts)
  qed
  then show ?thesis
    using False assms(1) by (auto simp: encode_payload_def Let_def tx_step_refl split: option.split)
qed

lemma copy_payload_step:
  assumes "link_sizes l"
  shows "tx_step l [] (snd (copy_payload p l))"
  using assms by (auto simp: copy_payload_def tx_step_refl link_sizes_def wire_consts intro!: tx_step_scratch)

lemma keeps_encode_payload: "message_ok m \<Longrightarrow> keeps (encode_payload m)"
  and keeps_copy_payload: "keeps (copy_payload p)"
  using encode_payload_step copy_payload_step link_inv_tx_step link_inv_sizes
  unfolding keeps_def by blast+

context cobs_codec
begin

lemma keeps_emit: "keeps (emit c k h s n)"
  using emit_tx_step link_inv_tx_step link_inv_sizes by (fastforce simp: keeps_def)

lemma keeps_queue_hello: "keeps (queue_hello c ack)"
  using queue_hello_step link_inv_tx_step link_inv_sizes by (fastforce simp: keeps_def)

lemma keeps_emit_error: "keeps (emit_error c h s m)"
  using emit_error_step link_inv_tx_step link_inv_sizes by (fastforce simp: keeps_def)

lemma keeps_emit_data: "keeps (emit_data c h n)"
proof (rule keepsI)
  fix l
  assume "link_inv l"
  then show "link_inv (snd (emit_data c h n l))"
    using keepsD [OF keeps_sbind [OF keeps_emit, of "\<lambda>_ l. (Inr True, l)"], OF _ link_inv_upd(4)]
    by (simp add: emit_data_def Let_def keeps_def)
qed

lemma keeps_emit_reply: "keeps (emit_reply c h s sch n)"
proof (rule keepsI)
  fix l
  assume inv: "link_inv l"
  show "link_inv (snd (emit_reply c h s sch n l))"
  proof (cases "n + 8 > l_FRAME l - OVERHEAD")
    case False
    let ?s = "copy_at (copy_within (l_scratch l) HEADER (HEADER + n) (HEADER + 8)) HEADER (to_le_bytes sch)"
    have "length ?s = length (l_scratch l)"
      using inv False by (auto simp: link_inv_def link_sizes_def copy_within_def wire_consts)
    then have "link_inv (l\<lparr>l_scratch := ?s\<rparr>)"
      using inv link_inv_tx_step tx_step_scratch link_inv_sizes by blast
    then show ?thesis
      using False keepsD [OF keeps_emit] by (simp add: emit_reply_def Let_def)
  qed (use inv in \<open>simp add: emit_reply_def\<close>)
qed

lemma emit_request_inv:
  assumes "link_inv l" "l_connected l"
  shows "link_inv (snd (emit_request c h n l))"
proof (cases "position (\<lambda>s. s = None) (l_pending l)")
  case free: (Some free)
  show ?thesis
  proof (cases "free_seq h l")
    case (Some q)
    let ?r = "emit c Kind_Request h q n l"
    have inv: "link_inv (snd ?r)"
      using keepsD [OF keeps_emit] assms(1) .
    have same: "l_pending (snd ?r) = l_pending l" "l_connected (snd ?r)" "l_N (snd ?r) = l_N l"
      using tx_only_sel [OF emit_tx_only] assms(2) by simp_all
    have "(h, q) \<notin> set (flatten (l_pending l))"
      using Some by (auto simp: free_seq_def set_flatten find_Some_iff)
    then have d: "distinct (flatten ((l_pending l)[free := Some (h, q)]))"
      using flatten_fill(2) [OF free, of id] assms(1) by (simp add: link_inv_def pending_ok_def)
    have "link_inv ((snd ?r)\<lparr>l_pending := (l_pending l)[free := Some (h, q)]\<rparr>)"
      using d same assms(1) by (intro link_inv_pending inv) (auto simp: link_inv_def link_sizes_def)
    then have "link_inv ((snd ?r)\<lparr>l_pending := (l_pending l)[free := Some (h, q)], l_req_seq := q + 1\<rparr>)"
      by (rule link_inv_upd(8))
    moreover have "(snd ?r)\<lparr>l_pending := (l_pending l)[free := Some (h, q)], l_req_seq := q + 1\<rparr>
      = (snd ?r)\<lparr>l_req_seq := q + 1, l_pending := (l_pending (snd ?r))[free := Some (h, q)]\<rparr>"
      using same by simp
    ultimately show ?thesis
      using inv free Some by (auto simp: emit_request_def sbind_def split: prod.splits sum.splits)
  qed (use assms free in \<open>simp add: emit_request_def\<close>)
qed (use assms in \<open>simp add: emit_request_def\<close>)

lemma link_inv_ensure_started: "link_inv l \<Longrightarrow> link_inv (ensure_started c l)"
  using ensure_started_step [of l] link_inv_tx_step link_inv_upd(5) [of l] link_inv_sizes by blast

lemma ensure_started_started: "l_started (ensure_started c l)"
  using tx_only_sel [OF queue_hello_tx_only] by (simp add: ensure_started_def)

end

section \<open>Receiving keeps the invariant\<close>

lemma validate_hello_Inr:
  assumes "validate_hello p l = Inr contract"
  obtains h where "hello_parse p = Inr h" "idbuf_new (hello_id h) = Inr (pc_peer contract)"
    "length p \<le> l_FRAME l" "pc_ack contract = hello_ack h" "pc_bridge contract = hello_bridge h"
    "validate_entries l h 0 (hello_entries h) (replicate (l_N l) None) = Inr (pc_remote contract)"
    "l_connected l \<Longrightarrow> l_peer_hello_len l = length p
       \<and> (l_peer_hello l ! 0) AND NOT HELLO_ACK = (p ! 0) AND NOT HELLO_ACK
       \<and> slice (l_peer_hello l) 1 (l_peer_hello_len l) = drop 1 p"
  using assms by (auto simp: validate_hello_def res_simps split: if_splits)

lemma length_validate_entries:
  "validate_entries l h i es r = Inr r' \<Longrightarrow> length r' = length r"
proof (induction es arbitrary: i r)
  case (Cons e es)
  then show ?case
    by (fastforce simp: res_simps split: if_splits)
qed simp

definition install :: "bytes \<Rightarrow> PeerContract \<Rightarrow> Link \<Rightarrow> Link" where
  "install p contract l = l\<lparr>l_peer_hello := copy_at (l_peer_hello l) 0 p, l_peer_hello_len := length p,
     l_peer := Some (pc_peer contract), l_peer_bridge := pc_bridge contract,
     l_remote := pc_remote contract, l_connected := True\<rparr>"

lemma link_inv_install:
  assumes "link_inv l" "l_started l" "validate_hello p l = Inr contract"
  shows "link_inv (install p contract l)"
proof -
  from assms(3) obtain h where h: "hello_parse p = Inr h" "idbuf_new (hello_id h) = Inr (pc_peer contract)"
    "length p \<le> l_FRAME l" "pc_bridge contract = hello_bridge h"
    "validate_entries l h 0 (hello_entries h) (replicate (l_N l) None) = Inr (pc_remote contract)"
    by (rule validate_hello_Inr)
  have ss: "same_static l (install p contract l)"
    by (simp add: same_static_def install_def)
  have sz: "link_sizes l"
    using assms(1) by (rule link_inv_sizes)
  then have "take (length p) (copy_at (l_peer_hello l) 0 p) = p"
    by (simp add: copy_at_def)
  then have "link_hello (install p contract l) = Some h"
    using h by (simp add: link_hello_def install_def)
  then have "peer_known (install p contract l)"
    using h assms(2) validate_entries_cong [OF ss] by (simp add: peer_known_def) (simp add: install_def)
  moreover have "link_sizes (install p contract l)"
    using sz h(3) length_validate_entries [OF h(5)] by (simp add: link_sizes_def install_def)
  ultimately show ?thesis
    using assms(1) locals_ok_cong [OF ss]
    by (simp add: link_inv_def peer_ok_def pending_ok_def) (simp add: install_def)
qed

text \<open>Between turns of \<open>next_event\<close> the link satisfies the invariant, has started and holds no frame.\<close>

definition rx_idle :: "Link \<Rightarrow> bool" where
  "rx_idle l \<longleftrightarrow> link_inv l \<and> l_started l \<and> l_rx_consumed l = 0"

context cobs_codec
begin

lemma on_hello_inv:
  assumes "link_inv l" "l_started l"
  shows "link_inv (snd (on_hello c f l))"
proof (cases "validate_hello (slice (l_rx l) HEADER (HEADER + unat (fr_len f))) l")
  case (Inl e)
  then show ?thesis
    using link_inv_drop_peer [OF link_inv_upd(1) [OF assms(1)]] by (simp add: on_hello_def Let_def)
next
  case (Inr contract)
  from link_inv_install [OF assms Inr] keepsD [OF keeps_queue_hello] show ?thesis
    using Inr by (simp add: on_hello_def Let_def install_def)
qed

lemma dispatch_inv:
  assumes "link_inv l" "l_started l"
  shows "link_inv (snd (dispatch c f l))"
proof -
  have "link_inv (drop_unwanted l)"
    using link_inv_upd(1) [OF assms(1)] by (simp add: drop_unwanted_def)
  then show ?thesis
    using on_hello_inv [OF assms] keepsD [OF keeps_emit_error] link_inv_cancel_request link_inv_upd(1) assms(1)
    by (auto simp: dispatch_def dispatch_data_def dispatch_request_def dispatch_reply_def Let_def
        split: Kind.split)
qed

lemma queue_hello_started: "l_started (snd (queue_hello c a l)) = l_started l"
  using tx_only_sel [OF queue_hello_tx_only] by simp

lemma on_hello_started:
  assumes "l_started l"
  shows "l_started (snd (on_hello c f l))"
proof (cases "validate_hello (slice (l_rx l) HEADER (HEADER + unat (fr_len f))) l")
  case (Inl e)
  then show ?thesis
    using assms by (simp add: on_hello_def Let_def drop_peer_def)
next
  case (Inr contract)
  then show ?thesis
    using assms by (simp add: on_hello_def Let_def queue_hello_started)
qed

lemma dispatch_started:
  assumes "l_started l"
  shows "l_started (snd (dispatch c f l))"
proof -
  have "l_started (cancel_request h s l)" "l_started (snd (emit_error c h s m (drop_unwanted l)))"
    "l_started (drop_unwanted l)" for h s m
    using assms arg_cong [OF cancel_request_fields(1), of l_started]
      tx_only_sel(18) [OF emit_error_tx_only [of "drop_unwanted l"]]
    by (simp_all add: drop_unwanted_def)
  then show ?thesis
    using assms on_hello_started
    by (auto simp: dispatch_def dispatch_data_def dispatch_request_def dispatch_reply_def Let_def split: Kind.split)
qed

lemma decode_frame_inv:
  assumes "link_inv l" "rx_delim l = Some i" "decode_frame c i l = (r, l1)"
  shows "link_inv l1" "l_started l1 = l_started l" "l_rx_consumed l1 = l_rx_consumed l" "i < l_rx_len l1"
proof -
  have i: "i < l_rx_len l"
    using assms(2) by (simp add: rx_delim_def rx_queue_def position_Some_iff)
  have "link_sizes l1"
    using decode_frame_sizes [OF link_inv_sizes [OF assms(1)], of i] i assms(3) by simp
  moreover have l1: "\<exists>rx. l1 = l\<lparr>l_rx := rx\<rparr>"
    using assms(3) by (auto simp: decode_frame_def Let_def split: prod.splits sum.splits if_splits)
  ultimately show "link_inv l1"
    by (intro link_inv_cong [OF _ _ _ _ assms(1)]) (auto simp: same_static_def same_peer_def)
  show "l_started l1 = l_started l" "l_rx_consumed l1 = l_rx_consumed l" "i < l_rx_len l1"
    using l1 i by auto
qed

lemma accepted_inv:
  assumes "link_inv l" "i < l_rx_len l"
  shows "link_inv (accepted i l)"
  by (rule link_inv_cong [OF _ _ _ _ assms(1)])
    (use link_inv_sizes [OF assms(1)] assms(2) in \<open>auto simp: same_static_def same_peer_def accepted_def link_sizes_def\<close>)

lemma rx_discard_inv:
  assumes "link_inv l" "n + l_rx_consumed l \<le> l_rx_len l"
  shows "link_inv (rx_discard n l)"
  using link_inv_rx_moved [OF rx_discard_moved rx_discard_sizes [OF link_inv_sizes [OF assms(1)] assms(2)] assms(1)] .

lemma next_loop_cases:
  assumes "rx_idle l"
  obtains (none) l' where "next_loop c l = (None, l')" "rx_idle l'"
  | (event) l0 i fr l1 ev l3 where "rx_idle l0" "rx_delim l0 = Some i" "0 < i"
      "decode_frame c i l0 = (Some fr, l1)" "link_inv (accepted i l1)" "l_started (accepted i l1)"
      "dispatch c (stamped fr (accepted i l1)) (accepted i l1) = (Some ev, l3)"
      "next_loop c l = (Some ev, l3)"
proof -
  have turn: "rx_idle (rx_discard (i + 1) (count_bad l1))"
    if "rx_idle l" "rx_delim l = Some i" "decode_frame c i l = (None, l1)" for l i l1
  proof -
    note d = decode_frame_inv [OF _ that(2,3)]
    have "link_inv (count_bad l1)"
      using d that(1) link_inv_upd(1) by (simp add: rx_idle_def count_bad_def)
    then have "link_inv (rx_discard (i + 1) (count_bad l1))"
      using d that(1) by (intro rx_discard_inv) (auto simp: rx_idle_def count_bad_def)
    then show ?thesis
      using d that(1) by (simp add: rx_idle_def rx_discard_def count_bad_def)
  qed
  have acc: "link_inv (accepted i l1)" "l_started (accepted i l1)"
    if "rx_idle l" "rx_delim l = Some i" "decode_frame c i l = (r, l1)" for l i l1 r
    using decode_frame_inv [OF _ that(2,3)] that(1) accepted_inv by (auto simp: rx_idle_def accepted_def)
  have sil: "rx_idle (rx_compact l3)"
    if "rx_idle l" "rx_delim l = Some i" "decode_frame c i l = (r, l1)"
      "dispatch c f (accepted i l1) = (None, l3)" for l i l1 r f l3
    using link_inv_rx_compact dispatch_inv [OF acc [OF that(1-3)], of f]
      dispatch_started [OF acc(2) [OF that(1-3)], of f] that(4)
      rx_compact_queue(2) [OF link_inv_sizes] rx_moved_sel(17) [OF rx_compact_moved]
    by (auto simp: rx_idle_def)
  have emp: "rx_idle (rx_discard 1 l)" if "rx_idle l" "rx_delim l = Some 0" for l
    using that rx_discard_inv [of l 1] by (auto simp: rx_idle_def rx_delim_def rx_queue_def position_Some_iff rx_discard_def)
  have "(\<exists>l'. next_loop c l = (None, l') \<and> rx_idle l') \<or>
    (\<exists>l0 i fr l1 event l3. rx_idle l0 \<and> rx_delim l0 = Some i \<and> 0 < i \<and> decode_frame c i l0 = (Some fr, l1)
       \<and> dispatch c (stamped fr (accepted i l1)) (accepted i l1) = (Some event, l3)
       \<and> next_loop c l = (Some event, l3))"
    using assms emp turn sil by (rule next_loop_rule)
  then show thesis
    using none event acc by blast
qed

lemma next_idle: "link_inv l \<Longrightarrow> rx_idle (rx_compact (ensure_started c l))"
  using link_inv_rx_compact link_inv_ensure_started ensure_started_started
    rx_compact_queue(2) [OF link_inv_sizes] rx_moved_sel(17) [OF rx_compact_moved]
  by (auto simp: rx_idle_def)

lemma link_inv_next:
  assumes "link_inv l"
  shows "link_inv (snd (next_event c l))"
  using next_idle [OF assms]
proof (cases rule: next_loop_cases)
  case (none l')
  then show ?thesis
    by (simp add: next_event_def rx_idle_def)
next
  case (event l0 i fr l1 ev l3)
  then show ?thesis
    using dispatch_inv [OF event(5,6)] by (metis next_event_def snd_conv)
qed

lemma link_inv_feed:
  assumes "link_inv l"
  shows "link_inv (snd (feed c bs l))"
proof -
  let ?l = "rx_compact (ensure_started c l)"
  have idle: "rx_idle ?l"
    using next_idle [OF assms] .
  then have "link_sizes (snd (feed_loop (length bs) bs ?l))" "rx_only ?l (snd (feed_loop (length bs) bs ?l))"
    using feed_loop_sizes by (auto simp: rx_idle_def link_inv_sizes)
  moreover have "link_inv ?l"
    using idle by (simp add: rx_idle_def)
  ultimately show ?thesis
    unfolding feed_def by (rule link_inv_rx_only)
qed

lemma link_inv_tx_consume:
  assumes "link_inv l" "n \<le> l_tx_len l"
  shows "link_inv (tx_consume n l)"
  using tx_consume_sizes [OF link_inv_sizes [OF assms(1)] assms(2)]
  by (intro link_inv_cong [OF _ _ _ _ assms(1)]) (simp_all add: same_static_def same_peer_def tx_consume_def)

lemma link_inv_drain: "link_inv l \<Longrightarrow> link_inv (snd (snd (drain c out l)))"
  using link_inv_tx_consume [OF link_inv_ensure_started] by (simp add: drain_def Let_def)

lemma link_inv_drain_frame:
  assumes "link_inv l"
  shows "link_inv (snd (snd (drain_frame c out l)))"
proof -
  let ?l = "ensure_started c l"
  have inv: "link_inv ?l"
    using assms by (rule link_inv_ensure_started)
  then have "link_inv (tx_consume (i + 1) ?l)" if "position (\<lambda>b. b = DELIMITER) (take (l_tx_len ?l) (l_tx ?l)) = Some i" for i
    using that by (intro link_inv_tx_consume) (auto simp: position_Some_iff)
  then show ?thesis
    using inv link_inv_upd(1) by (auto simp: drain_frame_def Let_def split: option.split)
qed

lemma link_inv_tick:
  assumes "link_inv l"
  shows "link_inv (snd (tick c now l))"
  using link_inv_upd(2) [OF assms] link_inv_upd(3) [OF link_inv_upd(2) [OF assms]]
    link_inv_ensure_started link_inv_drop_peer keepsD [OF keeps_emit] keepsD [OF keeps_queue_hello]
  by (simp add: tick_def Let_def)

lemma request_tail_inv:
  assumes "link_inv l" "l_connected l" "keeps f" "tx_only l (snd (f l))"
  shows "link_inv (snd (sbind f (emit_request c h) l))"
  using keepsD [OF assms(3,1)] tx_only_sel(19) [OF assms(4)] assms(2) emit_request_inv
  by (auto simp: sbind_def split: prod.split sum.split)

lemma keeps_send: "message_ok m \<Longrightarrow> keeps (send c t name m)"
  unfolding send_def
  by (intro keeps_sbind keeps_sread keepsI)
    (auto simp: Let_def sread_def sbind_def [of "sread _"]
      intro!: keepsD [OF keeps_sbind [OF keeps_encode_payload keeps_emit_data]] split: sum.split)

lemma keeps_send_raw: "keeps (send_raw c h p)"
  unfolding send_raw_def
  by (intro keeps_sbind keeps_sread keepsI)
    (auto intro!: keepsD [OF keeps_sbind [OF keeps_copy_payload keeps_emit_data]])

lemma keeps_request: "message_ok m \<Longrightarrow> keeps (request c s name m)"
  unfolding request_def
  by (intro keeps_sbind keeps_sread keepsI)
    (auto simp: peer_serves_hash_def intro!: request_tail_inv keeps_encode_payload encode_payload_tx_only)

lemma keeps_request_raw: "keeps (request_raw c h p)"
  by (rule keepsI)
    (auto simp: request_raw_def peer_serves_hash_def intro!: request_tail_inv keeps_copy_payload copy_payload_tx_only)

lemma keeps_reply: "message_ok m \<Longrightarrow> keeps (reply c s name q m)"
  unfolding reply_def
  by (intro keeps_sbind keeps_sread keeps_encode_payload keepsI) (auto intro: keepsD [OF keeps_emit_reply])

lemma keeps_reply_raw: "keeps (reply_raw c q h sch p)"
  unfolding reply_raw_def by (intro keeps_sbind keeps_copy_payload keeps_emit_reply)

lemma keeps_reply_err: "keeps (reply_err c s name q m)"
  unfolding reply_err_def
  by (intro keeps_sbind keeps_sread keepsI) (auto intro: keepsD [OF keeps_emit_error])

end

section \<open>Declarations keep the invariant\<close>

lemma merge_slot_None:
  "merge_slot ports h p flag slots = Inr None \<Longrightarrow> p \<notin> lt_port ` set (flatten slots)"
  by (induction ports h p flag slots rule: merge_slot.induct)
    (auto simp: res_simps split: if_splits)

lemma merge_slot_Some:
  "merge_slot ports h p flag slots = Inr (Some slots') \<Longrightarrow>
   \<exists>ys t zs. slots = ys @ Some t # zs \<and> lt_port t = p \<and> slots' = ys @ Some (t\<lparr>lt_flags := lt_flags t OR flag\<rparr>) # zs"
proof (induction ports h p flag slots arbitrary: slots' rule: merge_slot.induct)
  case (2 ports h p flag ss)
  then obtain ss' where "merge_slot ports h p flag ss = Inr (Some ss')" "slots' = None # ss'"
    by (auto simp: res_simps)
  with "2.IH" show ?case
    by (metis append_Cons)
next
  case (3 ports h p flag t ss)
  show ?case
  proof (cases "lt_port t = p")
    case True
    with 3 show ?thesis
      by (intro exI [of _ "[]"]) (auto split: if_splits)
  next
    case False
    with 3(2) obtain ss' where ss': "merge_slot ports h p flag ss = Inr (Some ss')" "slots' = Some t # ss'"
      and ne: "\<not> (lt_hash t = h \<and> sp_name (ports ! lt_port t) \<noteq> sp_name (ports ! p))"
      by (auto simp: res_simps split: if_splits)
    from 3(1) [OF ne False ss'(1)] ss'(2) show ?thesis
      by (metis append_Cons)
  qed
qed simp

lemma flag_for_or: "flag_for d a \<Longrightarrow> flag_for d b \<Longrightarrow> flag_for d (a OR b)"
  by (cases d) (auto simp: flag_for_def flag_defs)

lemma port_Inr:
  assumes "port t name direction response l = Inr p"
  shows "p < length (l_ports l)" "sp_name (l_ports l ! p) = name" "sp_direction (l_ports l ! p) = direction"
    "sp_ty (l_ports l ! p) = TYPE_NAME t" "sp_schema (l_ports l ! p) = SCHEMA_FP t"
  using assms by (auto simp: port_def res_simps position_Some_iff Let_def split: if_splits)

text \<open>What \<open>declare_type\<close> makes of a table of correct local types: every type stays correct, no port
  appears twice, and exactly the given port is added.\<close>

lemma declare_type_locals:
  assumes inv: "locals_ok l" and p: "p < length (l_ports l)" "flag_for (sp_direction (l_ports l ! p)) flag"
    and res: "declare_type p flag l = (Inr (), l')"
  shows "\<exists>slots. l' = l\<lparr>l_local := slots\<rparr> \<and> length slots = length (l_local l)
    \<and> list_all (local_ok l) (flatten slots) \<and> distinct (map lt_port (flatten slots))
    \<and> lt_port ` set (flatten slots) = insert p (lt_port ` set (flatten (l_local l)))"
proof -
  let ?h = "endpoint_hash (link_id l) (sp_name (l_ports l ! p))"
  have ok: "list_all (local_ok l) (flatten (l_local l))" and d: "distinct (map lt_port (flatten (l_local l)))"
    using inv by (simp_all add: locals_ok_def)
  obtain m where m: "merge_slot (l_ports l) ?h p flag (l_local l) = Inr m"
    using res by (auto simp: declare_type_def Let_def split: sum.splits)
  show ?thesis
  proof (cases m)
    case (Some slots)
    then obtain ys t zs where s: "l_local l = ys @ Some t # zs" "lt_port t = p"
      "slots = ys @ Some (t\<lparr>lt_flags := lt_flags t OR flag\<rparr>) # zs"
      using merge_slot_Some m by blast
    have "local_ok l (t\<lparr>lt_flags := lt_flags t OR flag\<rparr>)"
      using ok s p(2) by (auto simp: local_ok_def port_at_def intro: flag_for_or)
    then show ?thesis
      using res m Some s ok d by (intro exI [of _ slots]) (auto simp: declare_type_def Let_def)
  next
    case None
    let ?t = "\<lparr>lt_hash = ?h, lt_name = sp_ty (l_ports l ! p), lt_schema = sp_schema (l_ports l ! p),
                  lt_flags = flag, lt_port = p\<rparr>"
    from res m None obtain i where i: "position (\<lambda>s. s = None) (l_local l) = Some i"
      and l': "l' = l\<lparr>l_local := (l_local l)[i := Some ?t]\<rparr>"
      by (auto simp: declare_type_def Let_def split: option.splits)
    have "local_ok l ?t"
      using p by (simp add: local_ok_def port_at_def)
    then show ?thesis
      using l' flatten_fill(1) [OF i, of ?t] flatten_fill(2) [OF i, of lt_port ?t] ok d merge_slot_None [OF m [unfolded None]]
      by (intro exI [of _ "(l_local l)[i := Some ?t]"]) (auto simp: list_all_iff)
  qed
qed

lemma declare_type_Inl: "declare_type p flag l = (Inl e, l') \<Longrightarrow> l' = l"
  by (auto simp: declare_type_def Let_def split: sum.splits option.splits)

lemma locals_ok_upd:
  assumes "locals_ok l" "list_all (local_ok l) (flatten slots)" "distinct (map lt_port (flatten slots))"
    "set (flatten decl) = lt_port ` set (flatten slots)"
    "l_id l' = l_id l" "l_ports l' = l_ports l" "l_local l' = slots" "l_declared l' = decl"
  shows "locals_ok l'"
proof -
  have "local_ok l' = local_ok l" "link_id l' = link_id l"
    using assms(5,6) by (simp_all add: local_ok_def [abs_def] port_at_def link_id_def)
  then show ?thesis
    using assms by (simp add: locals_ok_def)
qed

lemma link_inv_declared:
  assumes "link_inv l" "\<not> l_started l" "tx_only (l\<lparr>l_local := slots\<rparr>) l2" "link_sizes l2"
    "length slots = length (l_local l)" "list_all (local_ok l) (flatten slots)"
    "distinct (map lt_port (flatten slots))" "set (flatten decl) = lt_port ` set (flatten slots)"
    "length decl = l_N l"
  shows "link_inv (l2\<lparr>l_declared := decl\<rparr>)"
proof -
  note sel = tx_only_sel [OF assms(3)]
  have "\<not> l_connected l"
    using assms(1,2) by (auto simp: link_inv_def peer_ok_def peer_known_def)
  then have "peer_ok (l2\<lparr>l_declared := decl\<rparr>)"
    using assms(1) sel by (simp add: link_inv_def peer_ok_def peer_cleared_def)
  moreover have "locals_ok (l2\<lparr>l_declared := decl\<rparr>)"
    by (rule locals_ok_upd [of l slots decl]) (use assms sel in \<open>simp_all add: link_inv_def\<close>)
  moreover have "link_sizes (l2\<lparr>l_declared := decl\<rparr>)"
    using assms(4,9) sel by (simp add: link_sizes_def)
  ultimately show ?thesis
    using assms(1) sel by (simp add: link_inv_def pending_ok_def)
qed

lemma declare_port_inv:
  assumes inv: "link_inv l" and flag: "flag_for direction flag"
  shows "link_inv (snd (declare_port t name direction flag response l))"
proof (cases "\<not> l_started l \<and> (\<exists>p. port t name direction response l = Inr p)")
  case False
  then show ?thesis
    using inv by (auto simp: declare_port_def split: sum.splits)
next
  case True
  then obtain p where st: "\<not> l_started l" and p: "port t name direction response l = Inr p"
    by blast
  let ?already = "p \<in> set (flatten (l_declared l))"
  have lok: "locals_ok l" and sz: "link_sizes l"
    using inv by (simp_all add: link_inv_def)
  show ?thesis
  proof (cases "(\<not> ?already \<and> list_all (\<lambda>d. d \<noteq> None) (l_declared l)) \<or> fst (declare_type p flag l) \<noteq> Inr ()")
    case True
    moreover obtain r l1 where "declare_type p flag l = (r, l1)"
      by fastforce
    ultimately show ?thesis
      using inv st p declare_type_Inl
      by (cases r) (fastforce simp: declare_port_def Let_def list_ex_iff sbind_def)+
  next
    case False
    then obtain l1 where dt: "declare_type p flag l = (Inr (), l1)"
      by (cases "declare_type p flag l") auto
    from declare_type_locals [OF lok _ _ dt] port_Inr [OF p] flag obtain slots where
      slots: "l1 = l\<lparr>l_local := slots\<rparr>" "length slots = length (l_local l)"
        "list_all (local_ok l) (flatten slots)" "distinct (map lt_port (flatten slots))"
        "lt_port ` set (flatten slots) = insert p (lt_port ` set (flatten (l_local l)))"
      by auto
    obtain r l2 where hp: "hello_payload False l1 = (r, l2)"
      by fastforce
    have sz1: "link_sizes l1"
      using sz slots(1,2) by (simp add: link_sizes_def)
    have only: "tx_only l1 l2" and sz2: "link_sizes l2"
      using hello_payload_tx_only [of l1 False] tx_step_sizes [OF hello_payload_step [OF sz1] sz1, of False] hp
      by auto
    have decl: "set (flatten (l_declared l)) = lt_port ` set (flatten (l_local l))"
      using lok by (simp add: locals_ok_def)
    have len: "length (l_declared l) = l_N l"
      using sz by (simp add: link_sizes_def)
    note keep = link_inv_declared [OF inv st _ sz2 slots(2-4), unfolded slots(1) [symmetric], OF only]
    have "link_inv (l2\<lparr>l_local := l_local l\<rparr>)"
    proof -
      have "tx_only (l\<lparr>l_local := l_local l\<rparr>) (l2\<lparr>l_local := l_local l\<rparr>)"
        using only slots(1) by (auto simp: tx_only_def) blast
      moreover have "link_sizes (l2\<lparr>l_local := l_local l\<rparr>)"
        using sz2 slots(2) tx_only_sel(1,5) [OF only] sz by (simp add: link_sizes_def slots(1))
      ultimately have "link_inv (l2\<lparr>l_local := l_local l, l_declared := l_declared l\<rparr>)"
        using link_inv_declared [OF inv st, of "l_local l" "l2\<lparr>l_local := l_local l\<rparr>" "l_declared l"] lok len
        by (simp add: locals_ok_def)
      moreover have "l_declared l2 = l_declared l"
        using tx_only_sel(7) [OF only] slots(1) by simp
      ultimately show ?thesis
        by (cases l2) simp
    qed
    moreover have "link_inv l2" if ?already
    proof -
      have "link_inv (l2\<lparr>l_declared := l_declared l\<rparr>)"
        using that slots(5) decl len by (intro keep) auto
      moreover have "l_declared l2 = l_declared l"
        using tx_only_sel(7) [OF only] slots(1) by simp
      ultimately show ?thesis
        by (cases l2) simp
    qed
    moreover have "link_inv (l2\<lparr>l_declared := (l_declared l2)[i := Some p]\<rparr>)"
      if "position (\<lambda>s. s = None) (l_declared l2) = Some i" "\<not> ?already" for i
    proof -
      have "l_declared l2 = l_declared l"
        using tx_only_sel(7) [OF only] slots(1) by simp
      then show ?thesis
        using that flatten_fill(1) [OF that(1), of p] slots(5) decl len by (intro keep) auto
    qed
    moreover have "position (\<lambda>s. s = None) (l_declared l2) \<noteq> None" if "\<not> ?already"
      using that False tx_only_sel(7) [OF only] slots(1) by (auto simp: position_None_iff list_all_iff)
    ultimately show ?thesis
      using st p dt hp False
      by (auto simp: declare_port_def Let_def list_ex_iff sbind_def split: sum.splits option.splits)
  qed
qed

section \<open>Reachable links\<close>

text \<open>One step is one call of the crate's interface on a link; the results are dropped, the new state
  is kept. \<open>link_reach c\<close> holds of what a program can reach from \<open>Link::new\<close>.\<close>

inductive link_step :: "codec \<Rightarrow> Link \<Rightarrow> Link \<Rightarrow> bool" for c where
  st_config: "link_step c l (with_config g l)"
| st_bridge: "link_step c l (into_bridge l)"
| st_publishes: "link_step c l (snd (publishes t name l))"
| st_publishes_latched: "link_step c l (snd (publishes_latched t name l))"
| st_subscribes: "link_step c l (snd (subscribes t name l))"
| st_rpc_server: "link_step c l (snd (rpc_server s name l))"
| st_rpc_client: "link_step c l (snd (rpc_client s name l))"
| st_cancel: "link_step c l (cancel_request h q l)"
| st_feed: "link_step c l (snd (feed c bs l))"
| st_drain: "link_step c l (snd (snd (drain c out l)))"
| st_drain_frame: "link_step c l (snd (snd (drain_frame c out l)))"
| st_tick: "link_step c l (snd (tick c now l))"
| st_next: "link_step c l (snd (next_event c l))"
| st_send: "message_ok m \<Longrightarrow> link_step c l (snd (send c t name m l))"
| st_send_raw: "link_step c l (snd (send_raw c h p l))"
| st_request: "message_ok m \<Longrightarrow> link_step c l (snd (request c s name m l))"
| st_request_raw: "link_step c l (snd (request_raw c h p l))"
| st_reply: "message_ok m \<Longrightarrow> link_step c l (snd (reply c s name q m l))"
| st_reply_raw: "link_step c l (snd (reply_raw c q h sch p l))"
| st_reply_err: "link_step c l (snd (reply_err c s name q msg l))"
| st_reply_err_raw: "link_step c l (snd (reply_err_raw c q h msg l))"

inductive link_reach :: "codec \<Rightarrow> Link \<Rightarrow> bool" for c where
  reach_new: "link_new n frame ident ports tx rx = Inr l \<Longrightarrow> link_reach c l"
| reach_step: "link_reach c l \<Longrightarrow> link_step c l l' \<Longrightarrow> link_reach c l'"

lemma declare_inv:
  assumes "link_inv l"
  shows "link_inv (snd (publishes t name l))" "link_inv (snd (publishes_latched t name l))"
    "link_inv (snd (subscribes t name l))" "link_inv (snd (rpc_server s name l))"
    "link_inv (snd (rpc_client s name l))"
  using assms
  by (simp_all add: publishes_def publishes_latched_def subscribes_def rpc_server_def rpc_client_def
      declare_rpc_def declare_port_inv flag_for_def)

context cobs_codec
begin

lemmas op_invs = link_inv_cancel_request link_inv_feed link_inv_drain link_inv_drain_frame link_inv_tick
  link_inv_next declare_inv keepsD [OF keeps_send] keepsD [OF keeps_send_raw] keepsD [OF keeps_request]
  keepsD [OF keeps_request_raw] keepsD [OF keeps_reply] keepsD [OF keeps_reply_raw]
  keepsD [OF keeps_reply_err] keepsD [OF keeps_emit_error]

lemma step_inv:
  assumes "link_step c l l'" "link_inv l"
  shows "link_inv l'"
  using assms
  by (cases rule: link_step.cases)
    (simp_all add: op_invs with_config_def into_bridge_def link_inv_upd reply_err_raw_def)

lemma reach_inv: "link_reach c l \<Longrightarrow> link_inv l"
  by (induction rule: link_reach.induct) (auto intro: link_inv_new step_inv)

end

text \<open>C2. Whatever sequence of calls a program makes on a link created by \<open>Link::new\<close>, the invariant
  holds: the buffer counters stay within the buffers, every local type agrees with its static port
  and is declared once, the peer's tables are empty while disconnected and exactly the accepted Hello
  while connected, and no correlation id is pending twice.\<close>

theorem link_reach_inv:
  assumes "cobs_codec c" "link_reach c l"
  shows "link_inv l"
  using cobs_codec.reach_inv [OF assms] .

definition link_a :: Link where
  "link_a = (case link_new 2 64 ''a'' [] (replicate 80 0) (replicate 80 0) of Inr l \<Rightarrow> l)"

lemma link_a_new: "link_new 2 64 ''a'' [] (replicate 80 0) (replicate 80 0) = Inr link_a"
  by (simp add: link_a_def link_new_def idbuf_new_def wire_consts ID_MAX_def valid_namespace_def valid_port_def
      ascii_alphanumeric_def)

theorem link_reach_inv_witness: "link_inv (snd (next_event ref_codec (snd (feed ref_codec [1, 0] link_a))))"
  using link_reach_inv [OF ref.cobs_codec_axioms reach_step [OF reach_step [OF reach_new [OF link_a_new] st_feed] st_next]] .

end
