(* ===== verification/Link_Delivery.thy ===== *)
theory Link_Delivery
  imports Link_Invariant
begin

text \<open>
  What crosses a link: a frame fed to an idle receiver comes out of \<open>next_event\<close> with its header and
  payload, a payload handed to one link's sender is the payload the other link reports, and what a
  link hands to the application is covered by the contract of the last accepted Hello.
\<close>

section \<open>One frame through feed and next\<close>

text \<open>A receiver that has started, holds no partial frame and is not resynchronising. A handle may
  still be outstanding: the next call drops its bytes.\<close>

definition rx_empty :: "Link \<Rightarrow> bool" where
  "rx_empty l \<longleftrightarrow> l_started l \<and> \<not> l_rx_skip l \<and> l_rx_len l = l_rx_consumed l"

definition frame_of :: "Header \<Rightarrow> bytes \<Rightarrow> u16 \<Rightarrow> Frame" where
  "frame_of h p g = \<lparr>fr_kind = hd_kind h, fr_hash = hd_hash h, fr_seq = hd_seq h,
     fr_len = word_of_nat (length p), fr_generation = g\<rparr>"

text \<open>\<open>arrived l p l'\<close>: \<open>l'\<close> is \<open>l\<close> with the one frame with payload \<open>p\<close> in its receive buffer,
  accepted and not yet dispatched.\<close>

definition arrived :: "Link \<Rightarrow> bytes \<Rightarrow> Link \<Rightarrow> bool" where
  "arrived l p l' \<longleftrightarrow>
     (\<exists>rx n g. l' = l\<lparr>l_rx := rx, l_rx_len := n, l_rx_consumed := n, l_rx_generation := g, l_last_rx_ms := l_now_ms l\<rparr>)
     \<and> link_inv l' \<and> 0 < l_rx_len l' \<and> slice (l_rx l') HEADER (HEADER + length p) = p"

lemma unat_len_u16: "n < 2 ^ 16 \<Longrightarrow> unat (word_of_nat n :: u16) = n"
  by (simp add: unat_of_nat take_bit_nat_eq_self)

lemma arrived_sel:
  assumes "arrived l p l'"
  shows "l_N l' = l_N l" "l_FRAME l' = l_FRAME l" "l_id l' = l_id l" "l_local l' = l_local l"
    "l_ports l' = l_ports l" "l_remote l' = l_remote l" "l_peer_hello l' = l_peer_hello l"
    "l_peer_hello_len l' = l_peer_hello_len l" "l_pending l' = l_pending l" "l_tx l' = l_tx l"
    "l_tx_len l' = l_tx_len l" "l_connected l' = l_connected l" "l_bridge l' = l_bridge l"
    "l_peer_bridge l' = l_peer_bridge l" "l_started l' = l_started l" "l_rx_skip l' = l_rx_skip l"
    "l_peer l' = l_peer l" "l_scratch l' = l_scratch l" "l_declared l' = l_declared l" "l_stats l' = l_stats l"
    "l_rx_len l' = l_rx_consumed l'"
  using assms by (auto simp: arrived_def)

context cobs_codec
begin

lemma rx_empty_idle:
  assumes "link_inv l" "rx_empty l"
  shows "rx_idle (rx_compact l)" "rx_queue (rx_compact l) = []" "\<not> l_rx_skip (rx_compact l)"
    "length (l_rx (rx_compact l)) = length (l_rx l)" "l_rx_len (rx_compact l) = 0"
proof -
  have sz: "link_sizes l"
    using assms(1) by (rule link_inv_sizes)
  note q = rx_compact_queue [OF sz]
  show "rx_idle (rx_compact l)"
    using link_inv_rx_compact [OF assms(1)] q(2) rx_moved_sel(17) [OF rx_compact_moved, of l] assms(2)
    by (simp add: rx_idle_def rx_empty_def)
  show e: "rx_queue (rx_compact l) = []"
    using q(1) assms(2) by (simp add: rx_queue_def rx_empty_def)
  show "\<not> l_rx_skip (rx_compact l)" "length (l_rx (rx_compact l)) = length (l_rx l)"
    using q(3) rx_moved_sel(14) [OF rx_compact_moved, of l] assms(2) by (simp_all add: rx_empty_def)
  show "l_rx_len (rx_compact l) = 0"
    using assms(2) by (auto simp: rx_compact_def rx_discard_def rx_empty_def)
qed

lemma feed_frame:
  assumes "link_inv l" "rx_empty l" "length w \<le> length (l_rx l)"
  obtains l1 where "feed c w l = (length w, l1)" "rx_queue l1 = w" "rx_only (rx_compact l) l1" "rx_idle l1"
    "\<not> l_rx_skip l1"
proof -
  let ?l = "rx_compact l"
  note e = rx_empty_idle [OF assms(1,2)]
  have es: "ensure_started c l = l"
    using assms(2) by (simp add: ensure_started_def rx_empty_def)
  have sz: "link_sizes ?l" "l_rx_consumed ?l = 0"
    using e(1) by (auto simp: rx_idle_def intro: link_inv_sizes)
  obtain n l1 where fl: "feed_loop (length w) w ?l = (n, l1)"
    by fastforce
  from feed_loop_sizes [OF sz, of w] fl have f: "link_sizes l1" "rx_only ?l l1"
    "spec_feed (length (l_rx l)) w (rx_abs ?l) = (n, rx_abs l1)"
    using e(4) by simp_all
  have "spec_feed (length (l_rx l)) w (rx_abs ?l) = (length w, (w, False, rx_overflow (l_stats ?l)))"
    using e(2,3) assms(3) spec_feed_fill [of "[]" w] by (simp add: rx_abs_def)
  with f(3) have "n = length w" "rx_queue l1 = w" "\<not> l_rx_skip l1"
    by (simp_all add: rx_abs_def)
  moreover have "rx_idle l1"
    using link_inv_rx_only [OF f(1,2)] e(1) rx_only_sel(14,18) [OF f(2)] by (simp add: rx_idle_def)
  ultimately show thesis
    using that fl f(2) es by (simp add: feed_def)
qed

lemma next_loop_frame:
  assumes "rx_idle l" "rx_queue l = frame_wire c h p" "OVERHEAD + length p \<le> l_FRAME l" "length p < 2 ^ 16"
  obtains l2 where "arrived l p l2" "l_rx_generation l2 = l_rx_generation l + 1"
    "next_loop c l =
       (case dispatch c (frame_of h p (l_rx_generation l + 1)) l2 of
          (Some ev, l3) \<Rightarrow> (Some ev, l3) | (None, l3) \<Rightarrow> next_loop c (rx_compact l3))"
proof -
  let ?i = "length (frame_wire c h p) - 1"
  have q: "rx_queue l = frame_wire c h p @ []"
    using assms(2) by simp
  obtain fr l1 where d: "rx_delim l = Some ?i" "decode_frame c ?i l = (Some fr, l1)"
    "fr = \<lparr>fr_kind = hd_kind h, fr_hash = hd_hash h, fr_seq = hd_seq h, fr_len = word_of_nat (length p), fr_generation = 0\<rparr>"
    "l1 = l\<lparr>l_rx := l_rx l1\<rparr>" "slice (l_rx l1) HEADER (HEADER + length p) = p" "0 < ?i"
    by (rule decode_frame_wire [OF q assms(3,4)])
  have len: "l_rx_len l = ?i + 1"
    using arg_cong [OF assms(2), of length] d(6) assms(1)
    by (auto simp: rx_queue_def rx_idle_def link_inv_def link_sizes_def)
  let ?l2 = "accepted ?i l1"
  have "link_inv l1" "?i < l_rx_len l1"
    using decode_frame_inv [OF _ d(1,2)] assms(1) by (auto simp: rx_idle_def)
  then have inv: "link_inv ?l2"
    by (rule accepted_inv)
  have l2: "?l2 = l\<lparr>l_rx := l_rx l1, l_rx_len := ?i + 1, l_rx_consumed := ?i + 1, l_rx_generation := l_rx_generation l + 1,
      l_last_rx_ms := l_now_ms l\<rparr>"
    by (subst d(4)) (use len in \<open>cases l; simp add: accepted_def\<close>)
  then have "\<exists>rx n g. ?l2 = l\<lparr>l_rx := rx, l_rx_len := n, l_rx_consumed := n, l_rx_generation := g, l_last_rx_ms := l_now_ms l\<rparr>"
    by blast
  moreover have "0 < l_rx_len ?l2" "slice (l_rx ?l2) HEADER (HEADER + length p) = p"
    using l2 d(5) by simp_all
  ultimately have "arrived l p ?l2"
    unfolding arrived_def using inv by blast
  moreover have "l_rx_generation ?l2 = l_rx_generation l + 1"
    using l2 by simp
  moreover have "stamped fr ?l2 = frame_of h p (l_rx_generation l + 1)"
    using l2 d(3) by (simp add: stamped_def frame_of_def)
  ultimately show thesis
    using that [of ?l2] next_loop_unfold [of c l] d(1,2,6) by simp
qed

lemma next_loop_drained: "rx_queue l = [] \<Longrightarrow> next_loop c l = (None, l)"
  by (simp add: next_loop_unfold rx_delim_def)

text \<open>The whole path: the bytes of one frame, then \<open>next_event\<close>.\<close>

lemma frame_through:
  assumes "link_inv l" "rx_empty l" "length (frame_wire c h p) \<le> length (l_rx l)"
    "OVERHEAD + length p \<le> l_FRAME l" "length p < 2 ^ 16"
  obtains l1 l2 where "feed c (frame_wire c h p) l = (length (frame_wire c h p), l1)"
    "same_static l l2" "same_peer l l2" "l_bridge l2 = l_bridge l" "l_started l2" "link_inv l2"
    "tx_queue l2 = tx_queue l" "l_tx l2 = l_tx l" "l_tx_len l2 = l_tx_len l" "l_FRAME l2 = l_FRAME l"
    "l_rx_len l2 = l_rx_consumed l2" "l_stats l2 = l_stats l1"
    "payload (frame_of h p (l_rx_generation l2)) l2 = p"
    "slice (l_rx l2) HEADER (HEADER + unat (word_of_nat (length p) :: u16)) = p"
    "next_event c l1 =
       (case dispatch c (frame_of h p (l_rx_generation l2)) l2 of
          (Some ev, l3) \<Rightarrow> (Some ev, l3) | (None, l3) \<Rightarrow> (None, rx_compact l3))"
proof -
  obtain l1 where f: "feed c (frame_wire c h p) l = (length (frame_wire c h p), l1)"
    "rx_queue l1 = frame_wire c h p" "rx_only (rx_compact l) l1" "rx_idle l1"
    using feed_frame [OF assms(1-3)] by blast
  note sel = rx_only_sel [OF f(3)] rx_moved_sel [OF rx_compact_moved, of l]
  obtain l2 where a: "arrived l1 p l2" "l_rx_generation l2 = l_rx_generation l1 + 1"
    "next_loop c l1 =
       (case dispatch c (frame_of h p (l_rx_generation l1 + 1)) l2 of
          (Some ev, l3) \<Rightarrow> (Some ev, l3) | (None, l3) \<Rightarrow> next_loop c (rx_compact l3))"
    by (rule next_loop_frame [OF f(4,2)]) (use assms(4,5) sel in simp_all)
  note a2 = arrived_sel [OF a(1)]
  have l2: "link_inv l2" "l_rx_len l2 = l_rx_consumed l2" "slice (l_rx l2) HEADER (HEADER + length p) = p"
    using a(1) by (auto simp: arrived_def)
  have silent: "next_loop c (rx_compact l3) = (None, rx_compact l3)"
    if "dispatch c f l2 = (None, l3)" for f l3
  proof -
    have "same_rx l2 l3"
      using dispatch_same_rx [OF that] .
    moreover have "link_inv l3"
      using dispatch_inv [of l2 f] l2(1) that a2(15) f(4) by (simp add: rx_idle_def)
    ultimately have "rx_queue (rx_compact l3) = []"
      using rx_compact_queue(1) [OF link_inv_sizes, of l3] l2(2) by (simp add: same_rx_def rx_queue_def)
    then show ?thesis
      by (rule next_loop_drained)
  qed
  have nx: "next_event c l1 = next_loop c l1"
    using f(4) by (simp add: next_event_def ensure_started_def rx_idle_def)
  show thesis
  proof (rule that [OF f(1)])
    show "same_static l l2" "same_peer l l2"
      by (simp_all add: same_static_def same_peer_def a2 sel)
    show "l_bridge l2 = l_bridge l" "tx_queue l2 = tx_queue l" "l_tx l2 = l_tx l" "l_tx_len l2 = l_tx_len l"
      "l_FRAME l2 = l_FRAME l" "l_stats l2 = l_stats l1"
      by (simp_all add: tx_queue_def a2 sel)
    show "l_started l2"
      using a2(15) f(4) by (simp add: rx_idle_def)
    show "link_inv l2" "l_rx_len l2 = l_rx_consumed l2"
      using l2 by simp_all
    show "payload (frame_of h p (l_rx_generation l2)) l2 = p"
      "slice (l_rx l2) HEADER (HEADER + unat (word_of_nat (length p) :: u16)) = p"
      using l2(3) unat_len_u16 [OF assms(5)] by (simp_all add: payload_def is_fresh_def frame_of_def)
    show "next_event c l1 =
       (case dispatch c (frame_of h p (l_rx_generation l2)) l2 of
          (Some ev, l3) \<Rightarrow> (Some ev, l3) | (None, l3) \<Rightarrow> (None, rx_compact l3))"
      unfolding nx a(3) a(2) using silent by (auto split: prod.split option.split)
  qed
qed

end

section \<open>Data from sender to receiver\<close>

definition wants_data :: "u32 \<Rightarrow> Link \<Rightarrow> bool" where
  "wants_data hash l \<longleftrightarrow> l_connected l
     \<and> (if l_bridge l then is_some_and (\<lambda>t. rt_flags t AND PUB \<noteq> 0) (remote_type hash l)
        else local_source hash SUB l \<noteq> None)
     \<and> (l_peer_bridge l \<or> is_some_and (\<lambda>t. \<not> rt_mismatch t \<and> rt_flags t AND PUB \<noteq> 0) (remote_type hash l))"

lemma dispatch_data_event:
  "fst (dispatch_data f l) = (if wants_data (fr_hash f) l then Some (Ev_Data f) else None)"
  "wants_data (fr_hash f) l \<Longrightarrow> snd (dispatch_data f l) = l"
  by (cases "remote_type (fr_hash f) l"; auto simp: dispatch_data_def wants_data_def Let_def)+

lemma wants_data_cong:
  assumes "same_static l l'" "same_peer l l'" "l_bridge l' = l_bridge l"
  shows "wants_data h l' = wants_data h l"
proof -
  have "local_source h SUB l' = local_source h SUB l" "remote_type h l' = remote_type h l"
    using assms same_static_port [OF assms(1)]
    by (simp_all add: local_source_def remote_type_def same_static_def same_peer_def)
  then show ?thesis
    using assms by (simp add: wants_data_def same_peer_def)
qed

lemma copy_payload_Inr:
  assumes "link_sizes l" "copy_payload p l = (Inr n, l')"
  shows "n = length p" "slice (l_scratch l') HEADER (HEADER + n) = p"
  using assms slice_copy_at_same [of HEADER p "l_scratch l"]
  by (auto simp: copy_payload_def link_sizes_def wire_consts split: if_splits)

text \<open>A faithful message fills its slot with its encoding.\<close>

definition encodes_as :: "Message \<Rightarrow> bytes \<Rightarrow> bool" where
  "encodes_as m e \<longleftrightarrow> msg_encoded_len m = length e \<and> (\<forall>slot. length slot = length e \<longrightarrow> msg_encode m slot = Some e)"

lemma encode_payload_Inr:
  assumes "link_sizes l" "encodes_as m e" "encode_payload m l = (Inr n, l')"
  shows "n = length e" "slice (l_scratch l') HEADER (HEADER + n) = e" "tx_step l [] l'"
proof -
  have len: "length e \<le> l_FRAME l - OVERHEAD"
    using assms by (auto simp: encode_payload_def encodes_as_def Let_def split: if_splits)
  then have fits: "HEADER + length e \<le> length (l_scratch l)"
    using assms(1) by (auto simp: link_sizes_def wire_consts)
  then have "length (slice (l_scratch l) HEADER (HEADER + length e)) = length e"
    by simp
  then have r: "encode_payload m l = (Inr (length e), l\<lparr>l_scratch := copy_at (l_scratch l) HEADER e\<rparr>)"
    using assms(2) len by (simp add: encode_payload_def encodes_as_def Let_def)
  with assms(3) fits show "n = length e" "slice (l_scratch l') HEADER (HEADER + n) = e"
    using slice_copy_at_same [of HEADER e "l_scratch l"] by auto
  show "tx_step l [] l'"
    using r assms(1,3) fits by (auto intro: tx_step_scratch)
qed

context cobs_codec
begin

lemma emit_data_sent:
  assumes "link_sizes l" "slice (l_scratch l) HEADER (HEADER + n) = p" "emit_data c hash n l = (Inr b, l')"
  shows "tx_queue l' = tx_queue l @ frame_wire c (hdr Kind_Data hash (l_data_seq l)) p"
proof -
  let ?l = "l\<lparr>l_data_seq := l_data_seq l + 1\<rparr>"
  have sz: "link_sizes ?l"
    using assms(1) by (simp add: link_sizes_def)
  show ?thesis
    using sz
  proof (cases rule: emit_cases [of ?l n Kind_Data hash "l_data_seq l"])
    case (sent l2)
    then have "l' = l2"
      using assms(3) by (simp add: emit_data_def sbind_def)
    then show ?thesis
      using sent(4) assms(2) by (simp add: tx_step_def) (simp add: tx_queue_def)
  qed (use assms(3) in \<open>simp_all add: emit_data_def sbind_def\<close>)
qed

lemma data_arrives:
  assumes "link_inv b" "rx_empty b" "length (frame_wire c (hdr Kind_Data hash q) p) \<le> length (l_rx b)"
    "OVERHEAD + length p \<le> l_FRAME b" "length p < 2 ^ 16" "wants_data hash b"
  shows "\<exists>b1 b2 f. feed c (frame_wire c (hdr Kind_Data hash q) p) b = (length (frame_wire c (hdr Kind_Data hash q) p), b1)
    \<and> next_event c b1 = (Some (Ev_Data f), b2) \<and> fr_hash f = hash \<and> fr_seq f = q \<and> payload f b2 = p
    \<and> link_inv b2 \<and> same_static b b2 \<and> same_peer b b2 \<and> l_bridge b2 = l_bridge b"
proof -
  obtain b1 b2 where t: "feed c (frame_wire c (hdr Kind_Data hash q) p) b = (length (frame_wire c (hdr Kind_Data hash q) p), b1)"
    "same_static b b2" "same_peer b b2" "l_bridge b2 = l_bridge b" "link_inv b2"
    "payload (frame_of (hdr Kind_Data hash q) p (l_rx_generation b2)) b2 = p"
    "next_event c b1 = (case dispatch c (frame_of (hdr Kind_Data hash q) p (l_rx_generation b2)) b2 of
          (Some ev, l3) \<Rightarrow> (Some ev, l3) | (None, l3) \<Rightarrow> (None, rx_compact l3))"
    by (rule frame_through [OF assms(1-5)])
  let ?f = "frame_of (hdr Kind_Data hash q) p (l_rx_generation b2)"
  have f: "fr_kind ?f = Kind_Data" "fr_hash ?f = hash" "fr_seq ?f = q"
    by (simp_all add: frame_of_def hdr_def)
  have "wants_data (fr_hash ?f) b2"
    using assms(6) wants_data_cong [OF t(2-4)] f by simp
  then have "dispatch c ?f b2 = (Some (Ev_Data ?f), b2)"
    using dispatch_data_event [of ?f b2] f(1) by (simp add: dispatch_def prod_eq_iff)
  then show ?thesis
    using t f by auto
qed

lemma send_sent:
  assumes "link_inv a" "encodes_as m e" "send c t name m a = (Inr True, a')"
  shows "tx_queue a' = tx_queue a @ frame_wire c (hdr Kind_Data (endpoint_hash (link_id a) name) (l_data_seq a)) e"
    "length e \<le> l_FRAME a - OVERHEAD"
proof -
  let ?h = "endpoint_hash (link_id a) name"
  obtain n a1 where e: "encode_payload m a = (Inr n, a1)" and d: "emit_data c ?h n a1 = (Inr True, a')"
    using assms(3)
    by (auto simp: send_def sbind_def sread_def Let_def split: prod.splits sum.splits if_splits)
  have sz: "link_sizes a"
    using assms(1) by (rule link_inv_sizes)
  note p = encode_payload_Inr [OF sz assms(2) e]
  have sz1: "link_sizes a1" and q: "tx_queue a1 = tx_queue a" "l_data_seq a1 = l_data_seq a"
    using tx_step_sizes [OF p(3) sz] p(3) by (auto simp: tx_step_def tx_only_sel)
  show "tx_queue a' = tx_queue a @ frame_wire c (hdr Kind_Data ?h (l_data_seq a)) e"
    using emit_data_sent [OF sz1 p(2) d] q by simp
  show "length e \<le> l_FRAME a - OVERHEAD"
    using e assms(2) by (auto simp: encode_payload_def encodes_as_def Let_def split: if_splits)
qed

end

end
