(* ===== verification/Link_Example.thy ===== *)
theory Link_Example
  imports Link_Delivery
begin

text \<open>
  Two concrete links for the runs that instantiate the theorems: \<open>a\<close> publishes a topic and calls a
  service, \<open>b\<close> subscribes to the topic and serves. Each has started and has accepted the other's
  Hello.
\<close>

definition ty_topic :: MessageType where "ty_topic = \<lparr>TYPE_NAME = ''T'', SCHEMA_FP = 7\<rparr>"
definition svc_add :: Service where
  "svc_add = \<lparr>svc_request = \<lparr>TYPE_NAME = ''Q'', SCHEMA_FP = 8\<rparr>, svc_response = \<lparr>TYPE_NAME = ''R'', SCHEMA_FP = 9\<rparr>\<rparr>"

definition a_ports :: "StaticPort list" where
  "a_ports =
     [\<lparr>sp_name = ''p'', sp_direction = Dir_Output, sp_ty = ''T'', sp_schema = 7, sp_response = None, sp_sources = []\<rparr>,
      \<lparr>sp_name = ''c'', sp_direction = Dir_RpcClient, sp_ty = ''Q'', sp_schema = 8,
       sp_response = Some \<lparr>pt_ty = ''R'', pt_schema = 9\<rparr>, sp_sources = [\<lparr>ep_namespace = ''b'', ep_port = ''s''\<rparr>]\<rparr>]"

definition b_ports :: "StaticPort list" where
  "b_ports =
     [\<lparr>sp_name = ''q'', sp_direction = Dir_Input, sp_ty = ''T'', sp_schema = 7, sp_response = None,
       sp_sources = [\<lparr>ep_namespace = ''a'', ep_port = ''p''\<rparr>]\<rparr>,
      \<lparr>sp_name = ''s'', sp_direction = Dir_RpcServer, sp_ty = ''Q'', sp_schema = 8,
       sp_response = Some \<lparr>pt_ty = ''R'', pt_schema = 9\<rparr>, sp_sources = []\<rparr>]"

definition a_locals :: "LocalType option list" where
  "a_locals =
     [Some \<lparr>lt_hash = endpoint_hash ''a'' ''p'', lt_name = ''T'', lt_schema = 7, lt_flags = PUB, lt_port = 0\<rparr>,
      Some \<lparr>lt_hash = endpoint_hash ''a'' ''c'', lt_name = ''Q'', lt_schema = 8, lt_flags = CALLS, lt_port = 1\<rparr>]"

definition b_locals :: "LocalType option list" where
  "b_locals =
     [Some \<lparr>lt_hash = endpoint_hash ''b'' ''q'', lt_name = ''T'', lt_schema = 7, lt_flags = SUB, lt_port = 0\<rparr>,
      Some \<lparr>lt_hash = endpoint_hash ''b'' ''s'', lt_name = ''Q'', lt_schema = 8, lt_flags = SERVE, lt_port = 1\<rparr>]"

definition id_of :: "string \<Rightarrow> IdBuf" where
  "id_of s = \<lparr>id_bytes = copy_at (replicate ID_MAX 0) 0 (as_bytes s), id_len = word_of_nat (length s)\<rparr>"

definition started_link :: "string \<Rightarrow> StaticPort list \<Rightarrow> LocalType option list \<Rightarrow> Link" where
  "started_link ident ports locals =
     \<lparr>l_N = 2, l_FRAME = 128, l_id = id_of ident, l_peer = None, l_local = locals,
      l_ports = ports, l_declared = [Some 0, Some 1], l_remote = [None, None],
      l_peer_hello = replicate 128 0, l_peer_hello_len = 0, l_pending = [None, None],
      l_tx = replicate 512 0, l_tx_len = 0, l_rx = replicate 512 0, l_rx_len = 0, l_rx_consumed = 0,
      l_rx_skip = False, l_rx_generation = 0, l_scratch = replicate 128 0,
      l_config = LinkConfig_default, l_started = True, l_connected = False, l_bridge = False,
      l_peer_bridge = False, l_data_seq = 0, l_req_seq = 0, l_now_ms = 0, l_last_rx_ms = 0,
      l_last_tx_ms = 0, l_stats = Stats_default\<rparr>"

definition a0 :: Link where "a0 = started_link ''a'' a_ports a_locals"
definition b0 :: Link where "b0 = started_link ''b'' b_ports b_locals"

lemmas hash_eval = endpoint_hash_def fnv_step_def as_bytes_def to_le_bytes_code u32_try_from_or_max_def upt_rec

lemma ex_hashes:
  "endpoint_hash ''a'' ''p'' = 0x0DAF47EA" "endpoint_hash ''a'' ''c'' = 0x1CAF5F87"
  "endpoint_hash ''b'' ''q'' = 0xB6540036" "endpoint_hash ''b'' ''s'' = 0xB453FD10"
  by (simp_all add: hash_eval)

lemmas ex_tables = a_ports_def b_ports_def a_locals_def b_locals_def

lemma ex_sel [simp]:
  "l_N a0 = 2" "l_FRAME a0 = 128" "l_id a0 = id_of ''a''" "l_local a0 = a_locals" "l_ports a0 = a_ports"
  "l_declared a0 = [Some 0, Some 1]" "l_pending a0 = [None, None]" "l_started a0" "\<not> l_connected a0" "\<not> l_bridge a0"
  "l_N b0 = 2" "l_FRAME b0 = 128" "l_id b0 = id_of ''b''" "l_local b0 = b_locals" "l_ports b0 = b_ports"
  "l_declared b0 = [Some 0, Some 1]" "l_pending b0 = [None, None]" "l_started b0" "\<not> l_connected b0" "\<not> l_bridge b0"
  by (simp_all add: a0_def b0_def started_link_def)

lemma ex_names: "valid_namespace ''a''" "valid_namespace ''b''" "valid_port ''p''" "valid_port ''q''"
  "valid_port ''s''" "valid_port ''c''" "valid_type ''T''" "valid_type ''Q''" "valid_type ''R''"
  by (simp_all add: valid_namespace_def valid_port_def valid_type_def ascii_alphanumeric_def ascii_digit_def)

lemma ex_id: "link_id a0 = ''a''" "link_id b0 = ''b''"
  using idbuf_new_Inr(1) [of "''a''" "id_of ''a''"] idbuf_new_Inr(1) [of "''b''" "id_of ''b''"] ex_names
  by (simp_all add: link_id_def idbuf_new_def id_of_def ID_MAX_def)

lemma ex_sizes: "link_sizes a0" "link_sizes b0"
  by (simp_all add: link_sizes_def a0_def b0_def started_link_def wire_consts a_locals_def b_locals_def)

lemma ex_ports: "\<not> ports_bad [] a_ports" "\<not> ports_bad [] b_ports"
  by (simp_all add: a_ports_def b_ports_def port_bad_def Let_def dir_output_def ex_names)

lemma ex_inv: "link_inv a0" "link_inv b0"
proof -
  have "locals_ok a0" "locals_ok b0"
    using ex_ports by (simp_all add: locals_ok_def ex_id ex_names local_ok_def port_at_def ID_MAX_def ex_tables flag_for_def)
  moreover have "peer_cleared a0" "peer_cleared b0"
    by (simp_all add: peer_cleared_def a0_def b0_def started_link_def numeral_2_eq_2)
  ultimately show "link_inv a0" "link_inv b0"
    using ex_sizes by (simp_all add: link_inv_def peer_ok_def pending_ok_def)
qed

section \<open>The Hellos\<close>

definition a_entries :: "HelloEntry list" where "a_entries = local_entries a0"
definition b_entries :: "HelloEntry list" where "b_entries = local_entries b0"

lemma ex_entries:
  "a_entries =
     [\<lparr>he_hash = 0x0DAF47EA, he_flags = PUB, he_schema = 7, he_name = ''T'', he_port = ''p'',
       he_response = None, he_sources = Sources_Static []\<rparr>,
      \<lparr>he_hash = 0x1CAF5F87, he_flags = CALLS, he_schema = 8, he_name = ''Q'', he_port = ''c'',
       he_response = Some \<lparr>ht_name = ''R'', ht_schema = 9\<rparr>,
       he_sources = Sources_Static [\<lparr>ep_namespace = ''b'', ep_port = ''s''\<rparr>]\<rparr>]"
  "b_entries =
     [\<lparr>he_hash = 0xB6540036, he_flags = SUB, he_schema = 7, he_name = ''T'', he_port = ''q'',
       he_response = None, he_sources = Sources_Static [\<lparr>ep_namespace = ''a'', ep_port = ''p''\<rparr>]\<rparr>,
      \<lparr>he_hash = 0xB453FD10, he_flags = SERVE, he_schema = 8, he_name = ''Q'', he_port = ''s'',
       he_response = Some \<lparr>ht_name = ''R'', ht_schema = 9\<rparr>, he_sources = Sources_Static []\<rparr>]"
  by (simp_all add: a_entries_def b_entries_def local_entries_def hello_entry_of_def port_at_def ex_tables ex_hashes)

lemma ascii_ok: "ok_str ''a''" "ok_str ''b''" "ok_str ''p''" "ok_str ''q''" "ok_str ''s''" "ok_str ''c''"
  "ok_str ''T''" "ok_str ''Q''" "ok_str ''R''"
  by (simp_all add: ok_str_def as_bytes_def)

lemma ex_ok: "list_all ok_entry a_entries" "list_all ok_entry b_entries"
  by (simp_all add: ex_entries ok_entry_def ok_pair_def ascii_ok flag_defs)

lemma ex_table: "table_ok ''a'' a_entries" "table_ok ''b'' b_entries"
  by (simp_all add: ex_entries table_ok_def entry_bad_def entry_shape_bad_def source_count_bad_def direction_of_def
      previous_conflict_def is_output_def Let_def ex_names ex_hashes hello_addresses_def ep_hash_def flag_defs)

lemma ex_parse:
  "hello_parse (own_hello True a0) = Inr (hello_of True False ''a'' a_entries)"
  "hello_parse (own_hello True b0) = Inr (hello_of True False ''b'' b_entries)"
  using hello_parse_bytes [of "''a''" a_entries False True] hello_parse_bytes [of "''b''" b_entries False True]
    ex_table ex_ok ex_names ascii_ok
  by (simp_all add: own_hello_def ex_id a_entries_def b_entries_def local_entries_def ex_tables)

section \<open>The connected links\<close>

lemma check_locals_as_wire:
  "ok_entry e \<Longrightarrow> check_locals l h (as_wire e) ts = check_locals l h e ts"
proof (induction ts)
  case (Cons t ts)
  have "entry_from_peer l h (as_wire e) t = entry_from_peer l h e t" "entry_to_peer l (as_wire e) t = entry_to_peer l e t"
    "entry_mismatch l (as_wire e) t = entry_mismatch l e t"
    using Cons.prems by (simp_all only: entry_from_peer_def entry_to_peer_def entry_mismatch_def as_wire_idem as_wire_simps)
  with Cons show ?case
    by simp
qed simp

lemma validate_entries_as_wire:
  "list_all ok_entry es \<Longrightarrow> validate_entries l h i (map as_wire es) r = validate_entries l h i es r"
  by (induction es arbitrary: i r)
    (simp_all add: check_locals_as_wire addresses_collide_def entry_addresses_def as_wire_idem)

definition contract_a :: PeerContract where
  "contract_a = \<lparr>pc_peer = id_of ''a'',
     pc_remote = [Some \<lparr>rt_hash = 0x0DAF47EA, rt_flags = PUB, rt_schema = 7, rt_mismatch = False\<rparr>,
                  Some \<lparr>rt_hash = 0x1CAF5F87, rt_flags = CALLS, rt_schema = 8, rt_mismatch = False\<rparr>],
     pc_ack = True, pc_bridge = False\<rparr>"

definition contract_b :: PeerContract where
  "contract_b = \<lparr>pc_peer = id_of ''b'',
     pc_remote = [Some \<lparr>rt_hash = 0xB6540036, rt_flags = SUB, rt_schema = 7, rt_mismatch = False\<rparr>,
                  Some \<lparr>rt_hash = 0xB453FD10, rt_flags = SERVE, rt_schema = 8, rt_mismatch = False\<rparr>],
     pc_ack = True, pc_bridge = False\<rparr>"

lemma ex_idbuf: "idbuf_new ''a'' = Inr (id_of ''a'')" "idbuf_new ''b'' = Inr (id_of ''b'')"
  by (simp_all add: idbuf_new_def id_of_def ID_MAX_def)

lemmas validate_eval = ex_entries ex_tables ex_id ex_hashes entry_from_peer_def entry_to_peer_def entry_mismatch_def
  addresses_collide_def local_addresses_def entry_addresses_def port_at_def ep_hash_def hello_of_def flag_defs

lemma ex_validate_entries:
  "validate_entries b0 (hello_of True False ''a'' a_entries) 0 a_entries [None, None] = Inr (pc_remote contract_a)"
  "validate_entries a0 (hello_of True False ''b'' b_entries) 0 b_entries [None, None] = Inr (pc_remote contract_b)"
  by (simp_all add: validate_eval contract_a_def contract_b_def)

lemma ex_hello_len: "length (own_hello True a0) = 58" "length (own_hello True b0) = 58"
  by (simp_all add: own_hello_def hello_bytes_def ex_id a_entries_def [symmetric] b_entries_def [symmetric] ex_entries
      enc_entry_def enc_response_def enc_pair_def)

lemma ex_validate:
  "validate_hello (own_hello True a0) b0 = Inr contract_a"
  "validate_hello (own_hello True b0) a0 = Inr contract_b"
proof -
  have two: "replicate 2 None = [None, None]"
    by (simp add: numeral_2_eq_2)
  have "hello_id (hello_of True False i es) = i" "hello_ack (hello_of True False i es)"
    "\<not> hello_bridge (hello_of True False i es)" for i es
    by (simp_all add: hello_of_def)
  then show "validate_hello (own_hello True a0) b0 = Inr contract_a"
    "validate_hello (own_hello True b0) a0 = Inr contract_b"
    using ex_validate_entries ex_ok
    by (simp_all add: validate_hello_def ex_parse ex_hello_len hello_entries_of validate_entries_as_wire ex_idbuf two)
       (simp_all add: contract_a_def contract_b_def)
qed

definition a1 :: Link where "a1 = install (own_hello True b0) contract_b a0"
definition b1 :: Link where "b1 = install (own_hello True a0) contract_a b0"

lemma ex_inv1: "link_inv a1" "link_inv b1"
  unfolding a1_def b1_def using link_inv_install ex_inv ex_validate by simp_all

end
