(* ===== verification/Link_Contract.thy ===== *)
theory Link_Contract
  imports Link_Delivery
begin

text \<open>
  What an accepted Hello guarantees. The checks of \<open>validate_hello\<close> make an endpoint hash name one
  address on both sides, so that what \<open>next_event\<close> delivers has the type and the fingerprint of the local
  declaration that asked for it.
\<close>

definition to_remote :: "HelloEntry \<Rightarrow> RemoteType" where
  "to_remote e = \<lparr>rt_hash = he_hash e, rt_flags = he_flags e, rt_schema = he_schema e, rt_mismatch = False\<rparr>"

definition entry_checked :: "Link \<Rightarrow> Hello \<Rightarrow> HelloEntry \<Rightarrow> bool" where
  "entry_checked l h e \<longleftrightarrow> check_locals l h e (flatten (l_local l)) = Inr () \<and> \<not> addresses_collide l h e"

lemma validate_entries_Inr:
  assumes "validate_entries l h i es r = Inr r'" "i + length es \<le> length r \<or> l_N l \<le> length r"
  shows "list_all (entry_checked l h) es" "es = [] \<or> i + length es \<le> l_N l"
    "r' = take i r @ map (Some \<circ> to_remote) es @ drop (i + length es) r"
proof -
  have "list_all (entry_checked l h) es \<and> (es = [] \<or> i + length es \<le> l_N l)
      \<and> r' = take i r @ map (Some \<circ> to_remote) es @ drop (i + length es) r"
    using assms
  proof (induction es arbitrary: i r)
    case (Cons e es)
    let ?r = "r[i := Some (to_remote e)]"
    from Cons.prems(1) have e: "i < l_N l" "entry_checked l h e" "validate_entries l h (i + 1) es ?r = Inr r'"
      by (auto simp: entry_checked_def to_remote_def res_simps split: if_splits)
    have i: "i < length r"
      using Cons.prems(2) e(1) by auto
    have "i + 1 + length es \<le> length ?r \<or> l_N l \<le> length ?r"
      using Cons.prems(2) by auto
    from Cons.IH [OF e(3) this] have IH: "list_all (entry_checked l h) es" "es = [] \<or> i + 1 + length es \<le> l_N l"
      "r' = take (i + 1) ?r @ map (Some \<circ> to_remote) es @ drop (i + 1 + length es) ?r"
      by auto
    have "take (i + 1) ?r = take i r @ [Some (to_remote e)]"
      using i by (simp add: take_Suc_conv_app_nth)
    with IH e i show ?case
      by auto
  qed simp
  then show "list_all (entry_checked l h) es" "es = [] \<or> i + length es \<le> l_N l"
    "r' = take i r @ map (Some \<circ> to_remote) es @ drop (i + length es) r"
    by blast+
qed

lemma flatten_map_Some: "flatten (map (Some \<circ> f) xs) = map f xs"
  by (induction xs) auto

text \<open>While connected, the remote table is the Hello's table, and every entry passed the checks.\<close>

lemma peer_known_D:
  assumes "peer_known l"
  obtains h where "link_hello l = Some h" "l_peer_bridge l = hello_bridge h"
    "flatten (l_remote l) = map to_remote (hello_entries h)" "list_all (entry_checked l h) (hello_entries h)"
proof -
  from assms obtain h where h: "link_hello l = Some h" "l_peer_bridge l = hello_bridge h"
    "validate_entries l h 0 (hello_entries h) (replicate (l_N l) None) = Inr (l_remote l)"
    by (auto simp: peer_known_def)
  note v = validate_entries_Inr [OF h(3)]
  have "l_remote l = map (Some \<circ> to_remote) (hello_entries h) @ replicate (l_N l - length (hello_entries h)) None"
    using v(3) by simp
  then have "flatten (l_remote l) = map to_remote (hello_entries h)"
    by (simp add: flatten_map_Some)
  then show thesis
    using that h v(1) by simp
qed

lemma check_locals_D:
  assumes "check_locals l h e ts = Inr ()" "t \<in> set ts"
  shows "entry_from_peer l h e t \<or> entry_to_peer l e t \<Longrightarrow> \<not> entry_mismatch l e t"
    "s \<in> set (sp_sources (port_at l t)) \<Longrightarrow> ep_hash s = he_hash e \<Longrightarrow>
       ep_namespace s = hello_id h \<and> ep_port s = he_port e"
  using assms by (induction ts) (auto simp: list_ex_iff split: if_splits)

text \<open>A local input whose source hash is that of an output entry of the peer reads that entry: the
  types and the fingerprints agree.\<close>

lemma source_entry_agrees:
  assumes "entry_checked l h e" "t \<in> set (flatten (l_local l))" "he_flags e AND (PUB OR SERVE) \<noteq> 0"
    "s \<in> set (sp_sources (port_at l t))" "ep_hash s = he_hash e"
  shows "\<not> entry_mismatch l e t"
proof -
  have c: "check_locals l h e (flatten (l_local l)) = Inr ()"
    using assms(1) by (simp add: entry_checked_def)
  have "entry_from_peer l h e t"
    using check_locals_D(2) [OF c assms(2,4,5)] assms(3,4) by (auto simp: entry_from_peer_def list_ex_iff)
  then show ?thesis
    using check_locals_D(1) [OF c assms(2)] by blast
qed

text \<open>A peer input whose source hash is that of a local output names that very output.\<close>

lemma caller_entry_agrees:
  assumes "entry_checked l h e" "t \<in> set (flatten (l_local l))" "lt_flags t AND (PUB OR SERVE) \<noteq> 0"
    "s \<in> set (sources_iter (he_sources e))" "ep_hash s = lt_hash t" "local_ok l t"
  shows "\<not> entry_mismatch l e t"
proof -
  let ?own = "\<lparr>ep_namespace = link_id l, ep_port = sp_name (port_at l t)\<rparr>"
  have c: "check_locals l h e (flatten (l_local l)) = Inr ()" and nc: "\<not> addresses_collide l h e"
    using assms(1) by (simp_all add: entry_checked_def)
  have "ep_hash ?own = ep_hash s"
    using assms(5,6) by (simp add: ep_hash_def local_ok_def)
  moreover have "?own \<in> set (local_addresses l t)" "s \<in> set (entry_addresses h e)"
    using assms(4) by (simp_all add: local_addresses_def entry_addresses_def)
  ultimately have "?own = s"
    using nc assms(2) unfolding addresses_collide_def list_ex_iff by blast
  then have "entry_to_peer l e t"
    using assms(3,4) by (force simp: entry_to_peer_def list_ex_iff)
  then show ?thesis
    using check_locals_D(1) [OF c assms(2)] by blast
qed

lemma find_SomeD: "List.find P xs = Some x \<Longrightarrow> x \<in> set xs \<and> P x"
  by (auto simp: find_Some_iff)

lemma local_source_D:
  assumes "local_source hash flag l = Some t"
  shows "t \<in> set (flatten (l_local l))" "\<exists>s \<in> set (sp_sources (port_at l t)). ep_hash s = hash"
    "lt_flags t AND flag \<noteq> 0"
  using find_SomeD [OF assms [unfolded local_source_def]] by (auto simp: list_ex_iff)

lemma local_type_D:
  assumes "local_type hash l = Some t"
  shows "t \<in> set (flatten (l_local l))" "lt_hash t = hash" "lt_flags t AND (PUB OR SERVE) \<noteq> 0"
  using find_SomeD [OF assms [unfolded local_type_def]] by auto

lemma remote_source_D:
  assumes "remote_source hash flag l = Some e" "link_hello l = Some h"
  shows "e \<in> set (hello_entries h)" "\<exists>s \<in> set (sources_iter (he_sources e)). ep_hash s = hash"
    "he_flags e AND flag \<noteq> 0"
  using find_SomeD [of _ "hello_entries h" e] assms by (auto simp: remote_source_def list_ex_iff)

lemma output_entries_agree:
  assumes "peer_known l" "link_hello l = Some h" "local_source hash flag l = Some t"
    "e \<in> set (hello_entries h)" "he_hash e = hash" "he_flags e AND (PUB OR SERVE) \<noteq> 0"
  shows "\<not> entry_mismatch l e t"
proof -
  obtain h' where "link_hello l = Some h'" "list_all (entry_checked l h') (hello_entries h')"
    using peer_known_D [OF assms(1)] by blast
  with assms(2,4) have "entry_checked l h e"
    by (simp add: list_all_iff)
  moreover obtain s where "s \<in> set (sp_sources (port_at l t))" "ep_hash s = hash"
    using local_source_D(2) [OF assms(3)] by blast
  ultimately show ?thesis
    by (intro source_entry_agrees [OF _ local_source_D(1) [OF assms(3)] assms(6), of h s]) (simp_all add: assms(5))
qed

lemma data_contract_lemma:
  assumes "link_inv l" "\<not> l_bridge l" "wants_data (fr_hash f) l" "fr_kind f = Kind_Data" "is_fresh f l"
  shows "\<exists>t. local_source (fr_hash f) SUB l = Some t \<and> frame_contract f l = Some (lt_name t, lt_schema t)"
proof -
  from assms(2,3) obtain t where t: "local_source (fr_hash f) SUB l = Some t"
    by (auto simp: wants_data_def)
  show ?thesis
  proof (cases "l_peer_bridge l")
    case True
    then show ?thesis
      using t assms(4,5) by (simp add: frame_contract_def)
  next
    case False
    have pk: "peer_known l"
      using assms(1,3) by (simp add: link_inv_def peer_ok_def wants_data_def)
    obtain h where h: "link_hello l = Some h" "flatten (l_remote l) = map to_remote (hello_entries h)"
      using peer_known_D [OF pk] by blast
    let ?P = "\<lambda>e. he_hash e = fr_hash f \<and> he_flags e AND (PUB OR SERVE) \<noteq> 0"
    from False assms(3) obtain r where "remote_type (fr_hash f) l = Some r"
      by (cases "remote_type (fr_hash f) l") (auto simp: wants_data_def)
    then have "\<exists>e \<in> set (hello_entries h). ?P e"
      unfolding remote_type_def h(2) by (auto dest!: find_SomeD simp: to_remote_def) blast
    then obtain e where e: "List.find ?P (hello_entries h) = Some e"
      by (cases "List.find ?P (hello_entries h)") (auto simp: find_None_iff)
    then have "e \<in> set (hello_entries h)" "he_hash e = fr_hash f" "he_flags e AND (PUB OR SERVE) \<noteq> 0"
      using find_SomeD [OF e] by auto
    then have "\<not> entry_mismatch l e t"
      using output_entries_agree [OF pk h(1) t] by blast
    then show ?thesis
      using t e h(1) False assms(4,5) by (simp add: frame_contract_def entry_mismatch_def)
  qed
qed

lemma request_contract_lemma:
  assumes "link_inv l" "\<not> l_bridge l" "\<not> l_peer_bridge l" "fst (dispatch_request c f l) = Some ev"
  shows "\<exists>t e. local_type (fr_hash f) l = Some t \<and> lt_flags t AND SERVE \<noteq> 0
    \<and> remote_source (fr_hash f) CALLS l = Some e \<and> he_name e = lt_name t \<and> he_schema e = lt_schema t
    \<and> map_option (\<lambda>r. (ht_name r, ht_schema r)) (he_response e)
      = map_option (\<lambda>r. (pt_ty r, pt_schema r)) (sp_response (port_at l t)) \<and> ev = Ev_Request f"
proof -
  from assms(2-4) obtain t e where t: "local_type (fr_hash f) l = Some t" "lt_flags t AND SERVE \<noteq> 0"
    and e: "remote_source (fr_hash f) CALLS l = Some e" and con: "l_connected l" and ev: "ev = Ev_Request f"
    by (cases "local_type (fr_hash f) l") (auto simp: dispatch_request_def Let_def split: if_splits)
  have pk: "peer_known l"
    using assms(1) con by (simp add: link_inv_def peer_ok_def)
  then obtain h where h: "link_hello l = Some h" "list_all (entry_checked l h) (hello_entries h)"
    by (rule peer_known_D)
  note es = remote_source_D [OF e h(1)] and ts = local_type_D [OF t(1)]
  obtain s where s: "s \<in> set (sources_iter (he_sources e))" "ep_hash s = fr_hash f"
    using es(2) by blast
  have "local_ok l t"
    using assms(1) ts(1) by (simp add: link_inv_def locals_ok_def list_all_iff)
  with caller_entry_agrees [of l h e t s] s ts es(1) h(2) have "\<not> entry_mismatch l e t"
    by (simp add: list_all_iff)
  then show ?thesis
    using t e ev by (auto simp: entry_mismatch_def)
qed

end
