(* ===== verification/Link_Correct.thy ===== *)
theory Link_Correct
  imports Link_Example Link_Contract
begin

text \<open>
  The correctness theorems of the link, each with a run on the two links of \<open>Link_Example\<close> where it
  has hypotheses.
\<close>

section \<open>Delivery\<close>

text \<open>C1. End to end: when \<open>send\<close> reports that a message was sent, the sender's stream has grown by the
  bytes \<open>w\<close> of one frame, and feeding \<open>w\<close> to a receiver that has nothing buffered, whose buffer and
  frame size have room for the frame, and that is connected and subscribes to the sender's endpoint under the
  agreed contract (\<open>wants_data\<close>) makes \<open>next_event\<close> report that very data: the endpoint, the running counter,
  and the encoded message as payload.\<close>

theorem send_delivers:
  assumes "cobs_codec c" "link_inv a" "encodes_as m e" "send c t name m a = (Inr True, a')"
    and "link_inv b" "rx_empty b" "encoded_max c (OVERHEAD + length e) \<le> length (l_rx b)"
    and "OVERHEAD + length e \<le> l_FRAME b" "length e < 2 ^ 16"
    and "wants_data (endpoint_hash (link_id a) name) b"
  shows "\<exists>w b1 b2 f. tx_queue a' = tx_queue a @ w \<and> feed c w b = (length w, b1)
    \<and> next_event c b1 = (Some (Ev_Data f), b2) \<and> fr_hash f = endpoint_hash (link_id a) name
    \<and> fr_seq f = l_data_seq a \<and> payload f b2 = e"
proof -
  let ?w = "frame_wire c (hdr Kind_Data (endpoint_hash (link_id a) name) (l_data_seq a)) e"
  have "length ?w \<le> length (l_rx b)"
    using cobs_codec.frame_wire_max [OF assms(1)] assms(7) le_trans by blast
  from cobs_codec.data_arrives [OF assms(1,5,6) this assms(8-10)] cobs_codec.send_sent(1) [OF assms(1-4)]
  show ?thesis
    by blast
qed

definition msg_one :: Message where
  "msg_one = \<lparr>msg_encoded_len = 2, msg_encode = (\<lambda>slot. if length slot = 2 then Some [8, 1] else None)\<rparr>"

lemma ex_a1_sel [simp]:
  "l_local a1 = a_locals" "l_ports a1 = a_ports" "l_declared a1 = [Some 0, Some 1]" "link_id a1 = ''a''"
  "l_connected a1" "\<not> l_bridge a1" "\<not> l_peer_bridge a1" "l_pending a1 = [None, None]" "l_FRAME a1 = 128"
  "l_scratch a1 = replicate 128 0" "l_tx a1 = replicate 512 0" "l_tx_len a1 = 0" "l_started a1" "l_N a1 = 2"
  "l_remote a1 = pc_remote contract_b" "l_rx_len a1 = 0" "l_rx_consumed a1 = 0" "\<not> l_rx_skip a1"
  using ex_id by (simp_all add: a1_def install_def a0_def started_link_def contract_b_def link_id_def)

lemma ex_b1_sel [simp]:
  "l_local b1 = b_locals" "l_ports b1 = b_ports" "l_declared b1 = [Some 0, Some 1]" "link_id b1 = ''b''"
  "l_connected b1" "\<not> l_bridge b1" "\<not> l_peer_bridge b1" "l_pending b1 = [None, None]" "l_FRAME b1 = 128"
  "l_scratch b1 = replicate 128 0" "l_rx b1 = replicate 512 0" "l_rx_len b1 = 0" "l_started b1" "l_N b1 = 2"
  "l_remote b1 = pc_remote contract_a" "l_rx_consumed b1 = 0" "\<not> l_rx_skip b1" "l_tx_len b1 = 0"
  using ex_id by (simp_all add: b1_def install_def b0_def started_link_def contract_a_def link_id_def)

lemma ex_hello: "link_hello a1 = Some (hello_of True False ''b'' b_entries)"
  "link_hello b1 = Some (hello_of True False ''a'' a_entries)"
proof -
  have "take 58 (copy_at (replicate 128 0) 0 h) = h" if "length h = 58" for h :: bytes
    using that by (simp add: copy_at_def)
  then show "link_hello a1 = Some (hello_of True False ''b'' b_entries)"
    "link_hello b1 = Some (hello_of True False ''a'' a_entries)"
    using ex_hello_len ex_parse
    by (simp_all add: link_hello_def a1_def b1_def install_def a0_def b0_def started_link_def)
qed

lemma ex_remote_source:
  "remote_source hash flag a1 = List.find (\<lambda>e. he_flags e AND flag \<noteq> 0
     \<and> list_ex (\<lambda>s. ep_hash s = hash) (sources_iter (he_sources e))) (map as_wire b_entries)"
  "remote_source hash flag b1 = List.find (\<lambda>e. he_flags e AND flag \<noteq> 0
     \<and> list_ex (\<lambda>s. ep_hash s = hash) (sources_iter (he_sources e))) (map as_wire a_entries)"
  using ex_ok by (simp_all add: remote_source_def ex_hello hello_entries_of)

lemma ex_sources: "e \<in> set a_entries \<union> set b_entries \<Longrightarrow> sources_iter (he_sources (as_wire e)) = sources_iter (he_sources e)"
  using ex_ok as_wire_idem by (auto simp: list_all_iff)

lemma ex_a1_topic: "peer_subscribes_hash 0x0DAF47EA a1"
  using ex_sources by (simp add: peer_subscribes_hash_def ex_remote_source ex_entries ep_hash_def ex_hashes flag_defs)

lemma ex_b1_wants: "wants_data 0x0DAF47EA b1"
  by (simp add: wants_data_def local_source_def remote_type_def ex_tables port_at_def ep_hash_def ex_hashes contract_a_def flag_defs)

context cobs_codec
begin

lemma emit_succeeds:
  assumes "link_sizes l" "OVERHEAD + n \<le> l_FRAME l" "encoded_max c (OVERHEAD + n) \<le> length (l_tx l) - l_tx_len l"
  shows "\<exists>l'. emit c k h s n l = (Inr (), l')"
  using assms by (cases rule: emit_cases [of l n k h s]) auto

end

lemma ref_max: "cobs_max ref_codec n = n + n div 254 + 1"
  by (simp add: ref_codec_def)

lemma ex_send: "\<exists>a'. send ref_codec ty_topic ''p'' msg_one a1 = (Inr True, a')"
proof -
  let ?l = "a1\<lparr>l_scratch := copy_at (replicate 128 0) HEADER [8, 1]\<rparr>"
  have "tx_step a1 [] ?l"
    using ex_inv1(1) by (intro tx_step_scratch link_inv_sizes) (simp_all add: wire_consts)
  then have sz: "link_sizes (?l\<lparr>l_data_seq := l_data_seq ?l + 1\<rparr>)"
    using tx_step_sizes link_inv_sizes [OF ex_inv1(1)] by (fastforce simp: link_sizes_def)
  have "OVERHEAD + 2 \<le> l_FRAME (?l\<lparr>l_data_seq := l_data_seq ?l + 1\<rparr>)"
    "encoded_max ref_codec (OVERHEAD + 2) \<le> length (l_tx (?l\<lparr>l_data_seq := l_data_seq ?l + 1\<rparr>)) - l_tx_len (?l\<lparr>l_data_seq := l_data_seq ?l + 1\<rparr>)"
    by (simp_all add: wire_consts encoded_max_def ref_max)
  then obtain a' where
    "emit ref_codec Kind_Data 0x0DAF47EA (l_data_seq ?l) 2 (?l\<lparr>l_data_seq := l_data_seq ?l + 1\<rparr>) = (Inr (), a')"
    using ref.emit_succeeds [OF sz] by blast
  then have "emit_data ref_codec 0x0DAF47EA 2 ?l = (Inr True, a')"
    by (simp add: emit_data_def sbind_def)
  moreover have "encode_payload msg_one a1 = (Inr 2, ?l)"
    by (simp add: encode_payload_def msg_one_def wire_consts Let_def)
  moreover have "check_port ty_topic ''p'' Dir_Output None a1 = Inr ()"
    by (simp add: check_port_def port_def ty_topic_def a_ports_def)
  moreover have "local_type 0x0DAF47EA a1 = Some \<lparr>lt_hash = 0x0DAF47EA, lt_name = ''T'', lt_schema = 7, lt_flags = PUB, lt_port = 0\<rparr>"
    by (simp add: local_type_def a_locals_def ex_hashes flag_defs)
  ultimately show ?thesis
    using ex_a1_topic
    by (simp add: send_def sbind_def sread_def ex_hashes check_publishes_def ty_topic_def flag_defs)
qed

theorem send_delivers_witness:
  "\<exists>a' w b2 b3 f. tx_queue a' = tx_queue a1 @ w \<and> feed ref_codec w b1 = (length w, b2)
    \<and> next_event ref_codec b2 = (Some (Ev_Data f), b3) \<and> fr_hash f = endpoint_hash (link_id a1) ''p''
    \<and> fr_seq f = l_data_seq a1 \<and> payload f b3 = [8, 1]"
proof -
  obtain a' where s: "send ref_codec ty_topic ''p'' msg_one a1 = (Inr True, a')"
    using ex_send by blast
  have "encodes_as msg_one [8, 1]" "rx_empty b1" "encoded_max ref_codec (OVERHEAD + length [8, 1 :: u8]) \<le> length (l_rx b1)"
    "OVERHEAD + length [8, 1 :: u8] \<le> l_FRAME b1" "length [8, 1 :: u8] < 2 ^ 16"
    "wants_data (endpoint_hash (link_id a1) ''p'') b1"
    using ex_b1_wants
    by (simp_all add: encodes_as_def msg_one_def rx_empty_def wire_consts encoded_max_def ref_max ex_hashes)
  from send_delivers [OF ref.cobs_codec_axioms ex_inv1(1) this(1) s ex_inv1(2) this(2-6)] show ?thesis
    by blast
qed

section \<open>Contracts\<close>

lemma payload_arrival:
  assumes "next_event c l = (Some ev, l')" "cobs_codec c" "link_inv l"
  obtains f l2 where "link_inv l2" "is_fresh f l2" "dispatch c f l2 = (Some ev, l')"
proof -
  have idle: "rx_idle (rx_compact (ensure_started c l))"
    using cobs_codec.next_idle [OF assms(2,3)] .
  show thesis
  proof (cases rule: cobs_codec.next_loop_cases [OF assms(2) idle])
    case (1 l'')
    then show ?thesis
      using assms(1) by (simp add: next_event_def)
  next
    case (2 l0 i fr l1 ev' l3)
    then show ?thesis
      using assms(1) by (intro that [of "accepted i l1" "stamped fr (accepted i l1)"])
        (auto simp: next_event_def is_fresh_def stamped_def)
  qed
qed

lemma dispatch_Data_D:
  assumes "dispatch c f l = (Some (Ev_Data g), l')"
  shows "fr_kind f = Kind_Data" "wants_data (fr_hash f) l" "g = f" "l' = l"
proof -
  show k: "fr_kind f = Kind_Data"
    using assms by (auto simp: dispatch_def dispatch_request_def dispatch_reply_def on_hello_def Let_def
        split: Kind.splits if_splits sum.splits)
  with assms have d: "dispatch_data f l = (Some (Ev_Data g), l')"
    by (simp add: dispatch_def)
  then show w: "wants_data (fr_hash f) l"
    using dispatch_data_event(1) [of f l] by (simp split: if_splits)
  show "g = f" "l' = l"
    using dispatch_data_event [of f l] d w by simp_all
qed

text \<open>C4. Data is only handed over under contract. When \<open>next_event\<close> reports Data on a link that is not a
  bridge, the link is connected, a local subscription names the sender's endpoint, and the type name and
  the schema fingerprint under which the frame is decoded are those of that subscription's port.\<close>

theorem data_under_contract:
  assumes "cobs_codec c" "link_inv l" "next_event c l = (Some (Ev_Data f), l')" "\<not> l_bridge l'"
  shows "\<exists>t. l_connected l' \<and> local_source (fr_hash f) SUB l' = Some t
    \<and> frame_contract f l' = Some (sp_ty (port_at l' t), sp_schema (port_at l' t))"
proof -
  obtain g l2 where l2: "link_inv l2" "is_fresh g l2" "dispatch c g l2 = (Some (Ev_Data f), l')"
    by (rule payload_arrival [OF assms(3,1,2)])
  note d = dispatch_Data_D [OF l2(3)]
  have "\<not> l_bridge l2"
    using assms(4) d(4) by simp
  then obtain t where t: "local_source (fr_hash g) SUB l2 = Some t" "frame_contract g l2 = Some (lt_name t, lt_schema t)"
    using data_contract_lemma [OF l2(1) _ d(2,1) l2(2)] by blast
  have "local_ok l2 t"
    using l2(1) local_source_D(1) [OF t(1)] by (simp add: link_inv_def locals_ok_def list_all_iff)
  then show ?thesis
    using t d l2(1) by (auto simp: local_ok_def wants_data_def)
qed

lemma ex_data_run:
  obtains b2 b3 f where "link_inv b2" "next_event ref_codec b2 = (Some (Ev_Data f), b3)" "\<not> l_bridge b3" "payload f b3 = [8, 1]"
    "fr_hash f = 0x0DAF47EA" "l_started b3"
proof -
  let ?w = "frame_wire ref_codec (hdr Kind_Data 0x0DAF47EA 0) [8, 1]"
  have "length ?w \<le> encoded_max ref_codec (OVERHEAD + length [8, 1 :: u8])"
    by (rule ref.frame_wire_max)
  then have "length ?w \<le> length (l_rx b1)"
    by (simp add: encoded_max_def ref_max wire_consts)
  moreover have "rx_empty b1"
    by (simp add: rx_empty_def)
  ultimately obtain b2 b3 f where r: "feed ref_codec ?w b1 = (length ?w, b2)" "next_event ref_codec b2 = (Some (Ev_Data f), b3)"
    "fr_hash f = 0x0DAF47EA" "payload f b3 = [8, 1]" "l_bridge b3 = l_bridge b1" "link_inv b3" "same_peer b1 b3"
    using ref.data_arrives [OF ex_inv1(2), where hash = "0x0DAF47EA" and q = 0 and p = "[8, 1]"] ex_b1_wants by (auto simp: wire_consts)
  have "link_inv b2"
    using ref.link_inv_feed [OF ex_inv1(2), of ?w] r(1) by simp
  moreover have "l_started b3"
    using r(6,7) by (simp add: link_inv_def peer_ok_def peer_known_def same_peer_def)
  ultimately show thesis
    using that r by simp
qed

theorem data_under_contract_witness:
  "\<exists>b2 b3 f t. next_event ref_codec b2 = (Some (Ev_Data f), b3) \<and> payload f b3 = [8, 1]
    \<and> local_source (fr_hash f) SUB b3 = Some t
    \<and> frame_contract f b3 = Some (sp_ty (port_at b3 t), sp_schema (port_at b3 t))"
proof -
  obtain b2 b3 f where r: "link_inv b2" "next_event ref_codec b2 = (Some (Ev_Data f), b3)" "\<not> l_bridge b3" "payload f b3 = [8, 1]"
    by (rule ex_data_run)
  from data_under_contract [OF ref.cobs_codec_axioms r(1-3)] r(2,4) show ?thesis
    by blast
qed

lemma dispatch_Request_D:
  assumes "dispatch c f l = (Some (Ev_Request g), l')"
  shows "fst (dispatch_request c f l) = Some (Ev_Request g)" "g = f" "l' = l"
proof -
  have k: "fr_kind f = Kind_Request"
    using assms by (auto simp: dispatch_def dispatch_data_def dispatch_reply_def on_hello_def Let_def
        split: Kind.splits if_splits sum.splits)
  with assms show "fst (dispatch_request c f l) = Some (Ev_Request g)" "g = f" "l' = l"
    by (auto simp: dispatch_def dispatch_request_def Let_def split: if_splits)
qed

text \<open>A Request is only handed over when both sides declared it: on a plain link with a plain peer,
  the endpoint is a local server, the peer declared a caller of exactly this server, and request type,
  request fingerprint and response contract are the same on both sides.\<close>

theorem request_under_contract:
  assumes "cobs_codec c" "link_inv l" "next_event c l = (Some (Ev_Request f), l')" "\<not> l_bridge l'" "\<not> l_peer_bridge l'"
  shows "\<exists>t e. l_connected l' \<and> local_type (fr_hash f) l' = Some t \<and> lt_flags t AND SERVE \<noteq> 0
    \<and> remote_source (fr_hash f) CALLS l' = Some e \<and> he_name e = lt_name t \<and> he_schema e = lt_schema t
    \<and> map_option (\<lambda>r. (ht_name r, ht_schema r)) (he_response e)
      = map_option (\<lambda>r. (pt_ty r, pt_schema r)) (sp_response (port_at l' t))"
proof -
  obtain g l2 where l2: "link_inv l2" "dispatch c g l2 = (Some (Ev_Request f), l')"
    by (rule payload_arrival [OF assms(3,1,2)])
  note d = dispatch_Request_D [OF l2(2)]
  have "l_connected l2"
    using d(1) by (auto simp: dispatch_request_def Let_def split: if_splits)
  with request_contract_lemma [of l2 c g] l2(1) d assms(4,5) show ?thesis
    by fastforce
qed

lemma local_type_cong: "same_static l l' \<Longrightarrow> local_type h l' = local_type h l"
  by (simp add: local_type_def same_static_def)

lemma remote_source_cong: "same_peer l l' \<Longrightarrow> remote_source h g l' = remote_source h g l"
  by (simp add: remote_source_def link_hello_def same_peer_def)

lemma ex_request_run:
  obtains b2 b3 f where "link_inv b2" "next_event ref_codec b2 = (Some (Ev_Request f), b3)" "\<not> l_bridge b3" "\<not> l_peer_bridge b3"
proof -
  let ?h = "hdr Kind_Request 0xB453FD10 3"
  have "length (frame_wire ref_codec ?h [5]) \<le> encoded_max ref_codec (OVERHEAD + length [5 :: u8])"
    by (rule ref.frame_wire_max)
  then have len: "length (frame_wire ref_codec ?h [5]) \<le> length (l_rx b1)"
    by (simp add: encoded_max_def ref_max wire_consts)
  have e: "rx_empty b1" "OVERHEAD + length [5 :: u8] \<le> l_FRAME b1" "length [5 :: u8] < 2 ^ 16"
    by (simp_all add: rx_empty_def wire_consts)
  obtain b2 b3 where r: "feed ref_codec (frame_wire ref_codec ?h [5]) b1 = (length (frame_wire ref_codec ?h [5]), b2)"
    "same_static b1 b3" "same_peer b1 b3" "l_bridge b3 = l_bridge b1"
    "next_event ref_codec b2 = (case dispatch ref_codec (frame_of ?h [5] (l_rx_generation b3)) b3 of
          (Some ev, l3) \<Rightarrow> (Some ev, l3) | (None, l3) \<Rightarrow> (None, rx_compact l3))"
    by (rule ref.frame_through [OF ex_inv1(2) e(1) len e(2,3)])
  let ?f = "frame_of ?h [5] (l_rx_generation b3)"
  have f: "fr_kind ?f = Kind_Request" "fr_hash ?f = 0xB453FD10"
    by (simp_all add: frame_of_def hdr_def)
  have "l_connected b3" "\<not> l_peer_bridge b3"
    using r(3) by (simp_all add: same_peer_def)
  moreover have "is_some_and (\<lambda>t. lt_flags t AND SERVE \<noteq> 0) (local_type 0xB453FD10 b3)"
    unfolding local_type_cong [OF r(2)] by (simp add: local_type_def b_locals_def ex_hashes flag_defs)
  moreover have "remote_source 0xB453FD10 CALLS b3 \<noteq> None"
    unfolding remote_source_cong [OF r(3)]
    using ex_sources by (simp add: ex_remote_source ex_entries ep_hash_def ex_hashes flag_defs)
  ultimately have "dispatch ref_codec ?f b3 = (Some (Ev_Request ?f), b3)"
    using f by (simp add: dispatch_def dispatch_request_def Let_def)
  then show thesis
    using that [of b2 ?f b3] r ref.link_inv_feed [OF ex_inv1(2), of "frame_wire ref_codec ?h [5]"] \<open>\<not> l_peer_bridge b3\<close>
    by simp
qed

theorem request_under_contract_witness:
  "\<exists>b2 b3 f t e. next_event ref_codec b2 = (Some (Ev_Request f), b3) \<and> local_type (fr_hash f) b3 = Some t
    \<and> remote_source (fr_hash f) CALLS b3 = Some e \<and> he_name e = lt_name t \<and> he_schema e = lt_schema t"
proof -
  obtain b2 b3 f where r: "link_inv b2" "next_event ref_codec b2 = (Some (Ev_Request f), b3)" "\<not> l_bridge b3" "\<not> l_peer_bridge b3"
    by (rule ex_request_run)
  from request_under_contract [OF ref.cobs_codec_axioms r] r(2) show ?thesis
    by blast
qed

section \<open>Requests and replies\<close>

lemma free_seq_D: "free_seq h l = Some q \<Longrightarrow> (h, q) \<notin> set (flatten (l_pending l))"
  by (auto simp: free_seq_def set_flatten find_Some_iff)

lemma u8_offsets: "(\<lambda>i. r + word_of_nat i) ` {0..<256} = (UNIV :: u8 set)"
proof -
  have "x \<in> (\<lambda>i. r + word_of_nat i) ` {0..<256}" for x :: u8
  proof
    show "x = r + word_of_nat (unat (x - r))"
      by simp
    show "unat (x - r) \<in> {0..<256}"
      using unat_lt [of "x - r"] by simp
  qed
  then show ?thesis
    by auto
qed

text \<open>A free slot is enough for a request: as long as the correlation table is not full and has at
  most 256 slots, the search finds an id that is not pending for this endpoint. So \<open>TableFull\<close> is
  reported only when every slot is taken.\<close>

theorem request_id_available:
  assumes "None \<in> set (l_pending l)" "length (l_pending l) \<le> 256"
  shows "\<exists>q. free_seq h l = Some q"
proof (rule ccontr)
  assume "\<nexists>q. free_seq h l = Some q"
  then have "free_seq h l = None"
    by (cases "free_seq h l") auto
  then have "Some (h, q) \<in> set (l_pending l)" if "q \<in> (\<lambda>i. l_req_seq l + word_of_nat i) ` {0..<256}" for q
    using that by (auto simp: free_seq_def find_None_iff)
  then have "range (\<lambda>q. Some (h, q)) \<subseteq> set (l_pending l)"
    by (auto simp: u8_offsets)
  with assms(1) have "insert None (range (\<lambda>q :: u8. Some (h, q))) \<subseteq> set (l_pending l)"
    by simp
  then have "card (insert None (range (\<lambda>q :: u8. Some (h, q)))) \<le> card (set (l_pending l))"
    by (rule card_mono [rotated]) simp
  moreover have "card (insert None (range (\<lambda>q :: u8. Some (h, q)))) = 257"
    by (subst card_insert_disjoint) (auto simp: card_image inj_def card_word)
  ultimately show False
    using assms(2) card_length [of "l_pending l"] by simp
qed

theorem request_id_available_witness: "\<exists>q. free_seq 7 a1 = Some q"
  using request_id_available [of a1 7] by simp

context cobs_codec
begin

lemma emit_request_sent:
  assumes "link_inv l" "slice (l_scratch l) HEADER (HEADER + n) = p" "emit_request c h n l = (Inr q, l')"
  shows "(h, q) \<notin> set (flatten (l_pending l))" "set (flatten (l_pending l')) = insert (h, q) (set (flatten (l_pending l)))"
    "tx_queue l' = tx_queue l @ frame_wire c (hdr Kind_Request h q) p"
proof -
  obtain i l2 where i: "position (\<lambda>s. s = None) (l_pending l) = Some i" and q: "free_seq h l = Some q"
    and e: "emit c Kind_Request h q n l = (Inr (), l2)"
    and l': "l' = l2\<lparr>l_req_seq := q + 1, l_pending := (l_pending l2)[i := Some (h, q)]\<rparr>"
    using assms(3) by (auto simp: emit_request_def sbind_def split: option.splits prod.splits sum.splits)
  have same: "l_pending l2 = l_pending l"
    using tx_only_sel(11) [OF emit_tx_only, of c Kind_Request h q n l] e by simp
  show "(h, q) \<notin> set (flatten (l_pending l))"
    by (rule free_seq_D [OF q])
  show "set (flatten (l_pending l')) = insert (h, q) (set (flatten (l_pending l)))"
    using l' same flatten_fill(1) [OF i] by simp
  show "tx_queue l' = tx_queue l @ frame_wire c (hdr Kind_Request h q) p"
    using link_inv_sizes [OF assms(1)]
  proof (cases rule: emit_cases [of l n Kind_Request h q])
    case (sent l3)
    have "tx_queue l' = tx_queue l3"
      using e sent(3) l' by (simp add: tx_queue_def)
    then show ?thesis
      using sent(4) assms(2) by (simp add: tx_step_def)
  qed (use e in simp_all)
qed

lemma request_raw_sent:
  assumes "link_inv l" "request_raw c h p l = (Inr q, l')"
  shows "(h, q) \<notin> set (flatten (l_pending l))
    \<and> set (flatten (l_pending l')) = insert (h, q) (set (flatten (l_pending l)))
    \<and> tx_queue l' = tx_queue l @ frame_wire c (hdr Kind_Request h q) p"
proof -
  obtain n l1 where cp: "copy_payload p l = (Inr n, l1)" and er: "emit_request c h n l1 = (Inr q, l')"
    using assms(2) by (auto simp: request_raw_def sbind_def split: if_splits prod.splits sum.splits)
  have sz: "link_sizes l" using assms(1) by (rule link_inv_sizes)
  have s1: "tx_step l [] l1"
    using copy_payload_step [OF sz, of p] cp by simp
  have same: "l_pending l1 = l_pending l" "tx_queue l1 = tx_queue l"
    using s1 by (auto simp: tx_step_def tx_only_sel)
  have "link_inv l1"
    using link_inv_tx_step [OF s1 assms(1)] .
  from emit_request_sent [OF this copy_payload_Inr(2) [OF sz cp] er] same show ?thesis
    by simp
qed

lemma request_raw_started: "l_started (snd (request_raw c h p l)) = l_started l"
  using tx_only_sel(18) [OF copy_payload_tx_only [of l p]] tx_only_sel(18) [OF emit_tx_only]
  by (auto simp: request_raw_def emit_request_def sbind_def split: prod.splits sum.splits option.splits)
    (metis snd_conv)+

end

text \<open>A sent request: the id it returns was not pending for its endpoint, it is pending afterwards
  and everything else that was pending still is, and the stream has grown by exactly the request frame
  with this endpoint, id and payload.\<close>

theorem request_correlation:
  assumes "cobs_codec c" "link_inv l" "request_raw c h p l = (Inr q, l')"
  shows "(h, q) \<notin> set (flatten (l_pending l))
    \<and> set (flatten (l_pending l')) = insert (h, q) (set (flatten (l_pending l)))
    \<and> tx_queue l' = tx_queue l @ frame_wire c (hdr Kind_Request h q) p"
  using cobs_codec.request_raw_sent [OF assms] by blast

lemma ex_request: "\<exists>l'. request_raw ref_codec 0xB453FD10 [5] a1 = (Inr 0, l')"
proof -
  let ?l = "a1\<lparr>l_scratch := copy_at (replicate 128 0) HEADER [5]\<rparr>"
  have "tx_step a1 [] ?l"
    using ex_inv1(1) by (intro tx_step_scratch link_inv_sizes) (simp_all add: wire_consts)
  then have "link_sizes ?l"
    using tx_step_sizes link_inv_sizes [OF ex_inv1(1)] by blast
  moreover have "OVERHEAD + 1 \<le> l_FRAME ?l" "encoded_max ref_codec (OVERHEAD + 1) \<le> length (l_tx ?l) - l_tx_len ?l"
    by (simp_all add: wire_consts encoded_max_def ref_max)
  ultimately obtain a' where e: "emit ref_codec Kind_Request 0xB453FD10 0 1 ?l = (Inr (), a')"
    using ref.emit_succeeds by blast
  have "l_req_seq a1 = 0"
    by (simp add: a1_def install_def a0_def started_link_def)
  then have "free_seq 0xB453FD10 ?l = Some 0"
    by (simp add: free_seq_def upt_conv_Cons)
  moreover have "copy_payload [5] a1 = (Inr 1, ?l)"
    by (simp add: copy_payload_def wire_consts)
  moreover have "peer_serves_hash 0xB453FD10 a1" "local_source 0xB453FD10 CALLS a1 \<noteq> None"
    by (simp_all add: peer_serves_hash_def remote_type_def contract_b_def local_source_def a_locals_def a_ports_def port_at_def
        ep_hash_def ex_hashes flag_defs)
  ultimately show ?thesis
    using e by (simp add: request_raw_def sbind_def emit_request_def)
qed

theorem request_correlation_witness:
  "\<exists>l'. set (flatten (l_pending l')) = {(0xB453FD10, 0)}
    \<and> tx_queue l' = tx_queue a1 @ frame_wire ref_codec (hdr Kind_Request 0xB453FD10 0) [5]"
proof -
  obtain l' where "request_raw ref_codec 0xB453FD10 [5] a1 = (Inr 0, l')"
    using ex_request by blast
  from request_correlation [OF ref.cobs_codec_axioms ex_inv1(1) this] show ?thesis
    by auto
qed

text \<open>C10. A reply reaches the application at most once: a Reply or Error frame is handed over only while
  its endpoint and id are pending, it removes exactly that entry, and any further Reply or Error with the
  same endpoint and id is dropped.\<close>

theorem reply_at_most_once:
  assumes "link_inv l" "fr_kind f = Kind_Reply \<or> fr_kind f = Kind_Error" "dispatch c f l = (Some ev, l')"
  shows "(fr_hash f, fr_seq f) \<in> set (flatten (l_pending l))
    \<and> set (flatten (l_pending l')) = set (flatten (l_pending l)) - {(fr_hash f, fr_seq f)}
    \<and> (\<forall>g. fr_kind g \<in> set [Kind_Reply, Kind_Error] \<and> fr_hash g = fr_hash f \<and> fr_seq g = fr_seq f
         \<longrightarrow> fst (dispatch c g l') = None)"
proof -
  have d: "dispatch_reply f l = (Some ev, l')"
    using assms(2,3) by (auto simp: dispatch_def)
  then have p: "Some (fr_hash f, fr_seq f) \<in> set (l_pending l)" and l': "l' = cancel_request (fr_hash f) (fr_seq f) l"
    by (auto simp: dispatch_reply_def split: if_splits)
  have s: "set (flatten (l_pending l')) = set (flatten (l_pending l)) - {(fr_hash f, fr_seq f)}"
    using pending_cancel(1) [of l] assms(1) l' by (simp add: link_inv_def)
  then have gone: "Some (fr_hash f, fr_seq f) \<notin> set (l_pending l')"
    using set_flatten [of "(fr_hash f, fr_seq f)" "l_pending l'"] by simp
  have "fst (dispatch c g l') = None"
    if "fr_kind g \<in> set [Kind_Reply, Kind_Error]" "fr_hash g = fr_hash f" "fr_seq g = fr_seq f" for g
    using that gone by (auto simp: dispatch_def dispatch_reply_def)
  then show ?thesis
    using p s set_flatten [of "(fr_hash f, fr_seq f)" "l_pending l"] by blast
qed

theorem reply_at_most_once_witness:
  "\<exists>l f ev l'. link_inv l \<and> dispatch ref_codec f l = (Some ev, l') \<and> flatten (l_pending l) = [(9, 4)]
    \<and> set (flatten (l_pending l')) = {}"
proof -
  let ?l = "a1\<lparr>l_pending := [Some (9, 4), None]\<rparr>"
  let ?f = "\<lparr>fr_kind = Kind_Reply, fr_hash = 9, fr_seq = 4, fr_len = 0, fr_generation = 0\<rparr>"
  have inv: "link_inv ?l"
    by (rule link_inv_pending) (simp_all add: ex_inv1)
  have "\<exists>ev l'. dispatch ref_codec ?f ?l = (Some ev, l')"
    by (simp add: dispatch_def dispatch_reply_def)
  then obtain ev l' where d: "dispatch ref_codec ?f ?l = (Some ev, l')"
    by blast
  from reply_at_most_once [OF inv _ d] inv d show ?thesis
    by (intro exI [of _ ?l] exI [of _ ?f]) auto
qed

end
