(* ===== verification/Link_Session.thy ===== *)
theory Link_Session
  imports Link_Correct
begin

text \<open>
  The life of a session: the stream interface (\<open>feed\<close>, \<open>next_event\<close>, \<open>drain\<close>, \<open>drain_frame\<close>), the Hello
  exchange, the clock, and the validity of frame handles.
\<close>

section \<open>The stream interface\<close>

lemma feed_refines:
  assumes "cobs_codec c" "link_inv l" "feed c bs l = (n, l')"
  shows "spec_feed (length (l_rx l)) bs (rx_abs (rx_compact (ensure_started c l))) = (n, rx_abs l')"
    "l_rx_consumed l' = 0" "l_started l'" "length (l_rx l') = length (l_rx l)" "link_inv l'"
    "rx_only (rx_compact (ensure_started c l)) l'"
proof -
  let ?l = "rx_compact (ensure_started c l)"
  have idle: "rx_idle ?l"
    using cobs_codec.next_idle [OF assms(1,2)] .
  have fl: "feed_loop (length bs) bs ?l = (n, l')"
    using assms(3) by (simp add: feed_def)
  have sz: "link_sizes ?l" "l_rx_consumed ?l = 0"
    using idle by (auto simp: rx_idle_def intro: link_inv_sizes)
  note f = feed_loop_sizes [OF sz, of bs, unfolded fl fst_conv snd_conv]
  have len: "length (l_rx ?l) = length (l_rx l)"
    using rx_compact_queue(3) [OF link_inv_sizes [OF cobs_codec.link_inv_ensure_started [OF assms(1,2)]]]
      same_rx_ensure_started [of l c] by (simp add: same_rx_def)
  show "spec_feed (length (l_rx l)) bs (rx_abs ?l) = (n, rx_abs l')" "length (l_rx l') = length (l_rx l)"
    "l_rx_consumed l' = 0" "l_started l'" "rx_only ?l l'"
    using f len idle rx_only_sel(14,18,27) [OF f(2)] by (simp_all add: rx_idle_def)
  show "link_inv l'"
    using cobs_codec.link_inv_feed [OF assms(1,2), of bs] assms(3) by simp
qed

text \<open>How a received stream is cut into calls does not matter: if the first chunk was accepted whole,
  feeding a second chunk leaves the receive buffer, the resynchronisation flag, the overflow counter and
  the number of accepted bytes exactly as one call with both chunks does.\<close>

theorem feed_chunks:
  assumes "cobs_codec c" "link_inv l" "feed c xs l = (length xs, l1)" "feed c ys l1 = (n, l2)"
  shows "\<exists>l3. feed c (xs @ ys) l = (length xs + n, l3) \<and> rx_abs l3 = rx_abs l2"
proof -
  note f1 = feed_refines [OF assms(1-3)]
  note f2 = feed_refines [OF assms(1) f1(5) assms(4)]
  obtain m l3 where f3: "feed c (xs @ ys) l = (m, l3)"
    by fastforce
  have "rx_compact (ensure_started c l1) = l1"
    using f1(2,3) by (simp add: ensure_started_def)
  then have "spec_feed (length (l_rx l)) ys (rx_abs l1) = (n, rx_abs l2)"
    using f2(1) f1(4) by simp
  then have "spec_feed (length (l_rx l)) (xs @ ys) (rx_abs (rx_compact (ensure_started c l))) = (length xs + n, rx_abs l2)"
    using f1(1) by (simp add: spec_feed_append)
  then show ?thesis
    using feed_refines(1) [OF assms(1,2) f3] f3 by simp
qed

theorem feed_chunks_witness:
  "\<exists>n l1 l2 l3. feed ref_codec [1, 2] b1 = (2, l1) \<and> feed ref_codec [3, 0] l1 = (n, l2)
    \<and> feed ref_codec ([1, 2] @ [3, 0]) b1 = (2 + n, l3) \<and> rx_abs l3 = rx_abs l2"
proof -
  obtain l1 where l1: "feed ref_codec [1, 2] b1 = (length [1, 2 :: u8], l1)"
    using ref.feed_frame [OF ex_inv1(2), of "[1, 2]"] by (auto simp: rx_empty_def)
  obtain n l2 where "feed ref_codec [3, 0] l1 = (n, l2)"
    by fastforce
  from feed_chunks [OF ref.cobs_codec_axioms ex_inv1(2) l1 this] l1 this show ?thesis
    by auto
qed

lemma spec_feed_blocked:
  "spec_feed cap bs s = (n, q', skip', v') \<Longrightarrow> n < length bs \<Longrightarrow> cap \<le> length q' \<and> DELIMITER \<in> set q'"
proof (induction bs arbitrary: s n)
  case (Cons b bs)
  then show ?case
    by (cases s) (fastforce split: option.splits prod.splits if_splits)
qed simp

text \<open>C14. \<open>feed\<close> refines the receiver that takes one byte at a time: the same bytes are accepted and the
  same buffer, resynchronisation flag and overflow count result. In particular a byte is refused only when
  the buffer is full and already holds a complete frame.\<close>

theorem feed_refines_spec:
  assumes "cobs_codec c" "link_inv l" "feed c bs l = (n, l')"
  shows "spec_feed (length (l_rx l)) bs (rx_abs (rx_compact (ensure_started c l))) = (n, rx_abs l')
    \<and> (n < length bs \<longrightarrow> length (rx_queue l') = length (l_rx l) \<and> DELIMITER \<in> set (rx_queue l'))"
proof -
  note f = feed_refines [OF assms]
  have "n < length bs \<Longrightarrow> length (rx_queue l') = length (l_rx l) \<and> DELIMITER \<in> set (rx_queue l')"
    using spec_feed_blocked [OF f(1) [unfolded rx_abs_def]] f(4) link_inv_sizes [OF f(5)]
    by (auto simp: rx_queue_def link_sizes_def)
  with f(1) show ?thesis
    by blast
qed

theorem feed_refines_spec_witness:
  "\<exists>n l'. feed ref_codec [1, 2, 0] b1 = (n, l')
    \<and> spec_feed 512 [1, 2, 0] (rx_abs (rx_compact (ensure_started ref_codec b1))) = (n, rx_abs l')"
proof -
  obtain n l' where "feed ref_codec [1, 2, 0] b1 = (n, l')"
    by fastforce
  with feed_refines_spec [OF ref.cobs_codec_axioms ex_inv1(2) this] show ?thesis
    by auto
qed

text \<open>C15. \<open>next_event\<close> never stops early: it is a total function, and when it reports nothing, no complete
  frame is left in the receive buffer.\<close>

theorem next_exhausts: "next_event c l = (None, l') \<Longrightarrow> DELIMITER \<notin> set (rx_queue l')"
  using next_loop_None by (simp add: next_event_def)

theorem next_exhausts_witness: "\<exists>l'. next_event ref_codec b1 = (None, l') \<and> DELIMITER \<notin> set (rx_queue l')"
proof -
  have "next_event ref_codec b1 = (None, b1)"
    using ref.next_loop_drained [of b1] by (simp add: next_event_def ensure_started_def rx_queue_def)
  from this next_exhausts [OF this] show ?thesis
    by blast
qed

text \<open>Draining as a stream is lossless and in order: the bytes handed out are the front of the queue,
  as many as fit, the queue keeps the rest, and nothing but the sending side changes.\<close>

theorem drain_stream:
  assumes "link_inv l" "l_started l" "drain c out l = (n, out', l')"
  shows "take n out' @ tx_queue l' = tx_queue l \<and> n = min (length (tx_queue l)) (length out)
    \<and> length out' = length out \<and> tx_only l l'"
proof -
  have sz: "link_sizes l"
    using assms(1) by (rule link_inv_sizes)
  note d = drain_queue [OF sz assms(2,3)]
  have "take (length out) (tx_queue l) = take n (tx_queue l)"
    using d(3) by (simp add: min_def)
  moreover have "length out' = length out"
    using drain_started [OF sz assms(2), of c out] assms(3) by (auto simp: tx_queue_def)
  ultimately show ?thesis
    using d by simp
qed

theorem drain_stream_witness:
  "\<exists>n out' l'. drain ref_codec (replicate 8 0) a1 = (n, out', l') \<and> take n out' @ tx_queue l' = tx_queue a1"
proof -
  obtain n out' l' where "drain ref_codec (replicate 8 0) a1 = (n, out', l')"
    by (metis prod_cases3)
  with drain_stream [OF ex_inv1(1) _ this] show ?thesis
    by auto
qed

text \<open>Draining as datagrams hands out whole frames: when the queue starts with an encoded frame and
  the datagram buffer has room for it, \<open>drain_frame\<close> returns exactly that frame and keeps the rest; when
  there is no room the frame is dropped, nothing is written, and the rest is still whole.\<close>

theorem drain_frame_whole:
  assumes "cobs_codec c" "link_inv l" "l_started l" "tx_queue l = frame_wire c h p @ q"
  shows "if length (frame_wire c h p) \<le> length out
    then \<exists>out' l'. drain_frame c out l = (Some (length (frame_wire c h p)), out', l')
           \<and> take (length (frame_wire c h p)) out' = frame_wire c h p \<and> tx_queue l' = q \<and> link_inv l'
    else \<exists>l'. drain_frame c out l = (None, out, l') \<and> tx_queue l' = q \<and> link_inv l'"
proof -
  let ?w = "frame_wire c h p"
  have pos: "position (\<lambda>b. b = DELIMITER) (tx_queue l) = Some (length ?w - 1)"
    using cobs_codec.frame_wire_position [OF assms(1)] by (simp add: assms(4))
  have w: "length ?w - 1 + 1 = length ?w" "0 < length ?w"
    by (simp_all add: frame_wire_def)
  have sz: "link_sizes l"
    using assms(2) by (rule link_inv_sizes)
  have "length (tx_queue l) = l_tx_len l"
    using sz by (simp add: tx_queue_def link_sizes_def)
  then have len: "length ?w \<le> l_tx_len l"
    by (simp add: assms(4))
  have q: "tx_queue (tx_consume (length ?w) l) = q"
    using tx_consume_queue(1) [OF len] sz by (simp add: link_sizes_def assms(4))
  have inv: "link_inv (tx_consume (length ?w) l)"
    using cobs_codec.link_inv_tx_consume [OF assms(1,2) len] .
  have "take (length ?w) (l_tx l) = take (length ?w) (tx_queue l)"
    using len by (simp add: tx_queue_def min_def)
  then have tw: "take (length ?w) (l_tx l) = ?w"
    by (simp add: assms(4))
  note df = drain_frame_started [OF assms(3), of c out, unfolded pos option.case w]
  show ?thesis
  proof (cases "length ?w \<le> length out")
    case True
    then show ?thesis
      using df q inv tw by (simp add: copy_at_def)
  next
    case False
    then show ?thesis
      using df q link_inv_upd(1) [OF inv] by (simp add: tx_queue_def)
  qed
qed

theorem drain_frame_whole_witness:
  "\<exists>a2 out' l'. tx_queue a2 = frame_wire ref_codec (hdr Kind_Request 0xB453FD10 0) [5]
    \<and> drain_frame ref_codec (replicate 64 0) a2
        = (Some (length (frame_wire ref_codec (hdr Kind_Request 0xB453FD10 0) [5])), out', l') \<and> tx_queue l' = []"
proof -
  let ?w = "frame_wire ref_codec (hdr Kind_Request 0xB453FD10 0) [5]"
  obtain a2 where r: "request_raw ref_codec 0xB453FD10 [5] a1 = (Inr 0, a2)"
    using ex_request by blast
  have inv: "link_inv a2"
    using keepsD [OF ref.keeps_request_raw ex_inv1(1), of "0xB453FD10" "[5]"] r by simp
  have "tx_queue a2 = tx_queue a1 @ ?w"
    using ref.request_raw_sent [OF ex_inv1(1) r] by simp
  then have q: "tx_queue a2 = ?w @ []"
    by (simp add: tx_queue_def)
  have len: "length ?w \<le> length (replicate 64 (0 :: u8))"
    using ref.frame_wire_max [of "hdr Kind_Request 0xB453FD10 0" "[5]"]
    by (simp add: encoded_max_def ref_max wire_consts)
  have "l_started a2"
    using ref.request_raw_started [of "0xB453FD10" "[5]" a1] r by simp
  from drain_frame_whole [OF ref.cobs_codec_axioms inv this q, of "replicate 64 0"] len q show ?thesis
    by auto
qed

section \<open>The Hello exchange\<close>

text \<open>A Hello that does not validate takes effect nowhere but in the counters and in the loss of the
  session: no part of it becomes visible, the previous contract, the peer tables and every pending request
  are dropped together, \<open>Disconnected\<close> is reported exactly when there was a session, and nothing is
  sent.\<close>

theorem hello_rejected:
  assumes "validate_hello (slice (l_rx l) HEADER (HEADER + unat (fr_len f))) l = Inl err" "fr_kind f = Kind_Hello"
  shows "fst (dispatch c f l) = (if l_connected l then Some Ev_Disconnected else None)
    \<and> \<not> l_connected (snd (dispatch c f l)) \<and> peer_cleared (snd (dispatch c f l))
    \<and> tx_queue (snd (dispatch c f l)) = tx_queue l
    \<and> bad_frames (l_stats (snd (dispatch c f l))) = bad_frames (l_stats l) + 1"
  using assms by (simp add: dispatch_def on_hello_def Let_def drop_peer_def peer_cleared_def tx_queue_def)

theorem hello_rejected_witness:
  "fst (dispatch ref_codec \<lparr>fr_kind = Kind_Hello, fr_hash = 0, fr_seq = 0, fr_len = 0, fr_generation = 0\<rparr> a1)
     = Some Ev_Disconnected"
proof -
  have "validate_hello (slice (l_rx a1) HEADER (HEADER + unat (fr_len
      \<lparr>fr_kind = Kind_Hello, fr_hash = 0, fr_seq = 0, fr_len = 0, fr_generation = 0\<rparr>))) a1 = Inl Err_InvalidPorts"
    by (simp add: slice_def validate_hello_def hello_parse_def r_u8_def r_bytes_def)
  from hello_rejected [OF this, of ref_codec] show ?thesis
    by simp
qed

text \<open>What two Hellos with the same bytes behind the first one have in common.\<close>

lemma enc_str_inj:
  assumes "enc_str s @ x = enc_str t @ y" "length s \<le> 255" "length t \<le> 255"
  shows "s = t" "x = y"
proof -
  have "(word_of_nat (length s) :: u8) = word_of_nat (length t)"
    using assms(1) by (simp add: enc_str_def)
  from arg_cong [OF this, of unat] have "length s = length t"
    by (simp only: unat_len_u8 [OF assms(2)] unat_len_u8 [OF assms(3)])
  then have "as_bytes s = as_bytes t \<and> x = y"
    using assms(1) by (simp add: enc_str_def append_eq_append_conv)
  then show "s = t" "x = y"
    by (auto dest: arg_cong [of _ _ str_of_bytes])
qed

definition same_contract :: "Hello \<Rightarrow> Hello \<Rightarrow> bool" where
  "same_contract h h' \<longleftrightarrow> hello_bridge h = hello_bridge h' \<and> hello_id h = hello_id h'
     \<and> hello_count h = hello_count h' \<and> hello_table h = hello_table h'"

lemma hello_bytes_split:
  "hello_bytes ack bridge ident es = ((if ack then HELLO_ACK else 0) OR (if bridge then HELLO_BRIDGE else 0))
     # to_le_bytes SCHEMA_FINGERPRINT_VERSION @ enc_str ident @ word_of_nat (length es) # concat (map enc_entry es)"
  by (simp add: hello_bytes_def)

lemma hello_flag_no_ack:
  "((if ack then HELLO_ACK else 0) OR (if bridge then HELLO_BRIDGE else 0)) AND NOT HELLO_ACK
     = (if bridge then HELLO_BRIDGE else 0)"
  by (simp add: flag_defs)

lemma same_contract_bytes:
  assumes "hello_parse p = Inr h" "hello_parse p' = Inr h'"
  shows "same_contract h h' \<longleftrightarrow> length p = length p' \<and> (p ! 0) AND NOT HELLO_ACK = (p' ! 0) AND NOT HELLO_ACK
    \<and> drop 1 p = drop 1 p'"
proof -
  obtain es where es: "p = hello_bytes (hello_ack h) (hello_bridge h) (hello_id h) es"
    "h = hello_of (hello_ack h) (hello_bridge h) (hello_id h) es" "hello_acceptable (hello_bridge h) (hello_id h) es"
    using hello_parse_D [OF assms(1)] by blast
  obtain es' where es': "p' = hello_bytes (hello_ack h') (hello_bridge h') (hello_id h') es'"
    "h' = hello_of (hello_ack h') (hello_bridge h') (hello_id h') es'" "hello_acceptable (hello_bridge h') (hello_id h') es'"
    using hello_parse_D [OF assms(2)] by blast
  have tab: "hello_count h = length es" "hello_table h = concat (map enc_entry es)"
    "hello_count h' = length es'" "hello_table h' = concat (map enc_entry es')"
    using arg_cong [OF es(2), of hello_count] arg_cong [OF es(2), of hello_table]
      arg_cong [OF es'(2), of hello_count] arg_cong [OF es'(2), of hello_table]
    by (simp_all add: hello_of_def)
  have ids: "length (hello_id h) \<le> 255" "length (hello_id h') \<le> 255" "length es \<le> 255" "length es' \<le> 255"
    using es(3) es'(3) by (simp_all add: hello_acceptable_def ok_str_def)
  have b0: "(p ! 0) AND NOT HELLO_ACK = (if hello_bridge h then HELLO_BRIDGE else 0)"
    "(p' ! 0) AND NOT HELLO_ACK = (if hello_bridge h' then HELLO_BRIDGE else 0)"
    by (subst es(1), simp only: hello_bytes_split nth_Cons_0 hello_flag_no_ack)
       (subst es'(1), simp only: hello_bytes_split nth_Cons_0 hello_flag_no_ack)
  have d: "drop 1 p = to_le_bytes SCHEMA_FINGERPRINT_VERSION @ enc_str (hello_id h) @ word_of_nat (length es) # concat (map enc_entry es)"
    "drop 1 p' = to_le_bytes SCHEMA_FINGERPRINT_VERSION @ enc_str (hello_id h') @ word_of_nat (length es') # concat (map enc_entry es')"
    by (subst es(1), simp add: hello_bytes_split) (subst es'(1), simp add: hello_bytes_split)
  have br: "(if hello_bridge h then HELLO_BRIDGE else 0) = (if hello_bridge h' then HELLO_BRIDGE else 0)
      \<longleftrightarrow> hello_bridge h = hello_bridge h'"
    by (simp add: flag_defs)
  have len: "drop 1 p = drop 1 p' \<Longrightarrow> length p = length p'"
    by (subst es(1), subst es'(1)) (use d in \<open>auto simp: hello_bytes_split dest: arg_cong [of _ _ length]\<close>)
  have "drop 1 p = drop 1 p' \<longleftrightarrow> hello_id h = hello_id h' \<and> length es = length es' \<and> concat (map enc_entry es) = concat (map enc_entry es')"
    (is "?L \<longleftrightarrow> ?R")
  proof
    assume ?L
    then have "enc_str (hello_id h) @ word_of_nat (length es) # concat (map enc_entry es)
        = enc_str (hello_id h') @ word_of_nat (length es') # concat (map enc_entry es')"
      using d by simp
    from enc_str_inj [OF this ids(1,2)] unat_len_u8 [OF ids(3)] unat_len_u8 [OF ids(4)] show ?R
      by (metis list.inject)
  next
    assume ?R
    then show ?L
      unfolding d by simp
  qed
  then show ?thesis
    using b0 br len tab by (auto simp: same_contract_def)
qed

lemma validate_entries_hello:
  "hello_id h = hello_id h' \<Longrightarrow> validate_entries l h i es r = validate_entries l h' i es r"
proof (induction es arbitrary: i r)
  case (Cons e es)
  have "check_locals l h e ts = check_locals l h' e ts" for ts
    using Cons.prems by (induction ts) (simp_all add: entry_from_peer_def)
  moreover have "addresses_collide l h e = addresses_collide l h' e"
    using Cons.prems by (simp add: addresses_collide_def entry_addresses_def)
  ultimately show ?case
    using Cons by simp
qed simp

text \<open>During a session the contract cannot change: a well-formed Hello received while connected is
  accepted if and only if it is the contract already in force, apart from its acknowledgement flag.\<close>

theorem hello_must_repeat:
  assumes "link_inv l" "l_connected l" "link_hello l = Some h0" "hello_parse p = Inr h"
  shows "is_ok (validate_hello p l) \<longleftrightarrow> same_contract h0 h"
proof -
  let ?p0 = "take (l_peer_hello_len l) (l_peer_hello l)"
  have h0: "hello_parse ?p0 = Inr h0"
    using assms(3) by (simp add: link_hello_def res_simps)
  have sz: "link_sizes l"
    using assms(1) by (rule link_inv_sizes)
  obtain b where known: "idbuf_new (hello_id h0) = Inr b"
    "validate_entries l h0 0 (hello_entries h0) (replicate (l_N l) None) = Inr (l_remote l)"
    using assms(1-3) by (auto simp: link_inv_def peer_ok_def peer_known_def)
  have ne: "?p0 \<noteq> []"
    using hello_parse_D [OF h0] by (auto simp: hello_bytes_def)
  then have "0 < l_peer_hello_len l"
    by (cases "l_peer_hello_len l") auto
  then have bytes: "?p0 ! 0 = l_peer_hello l ! 0" "drop 1 ?p0 = slice (l_peer_hello l) 1 (l_peer_hello_len l)"
    "length ?p0 = l_peer_hello_len l"
    using sz by (simp_all add: slice_def drop_take link_sizes_def)
  note sc = same_contract_bytes [OF h0 assms(4), unfolded bytes]
  show ?thesis
  proof (cases "same_contract h0 h")
    case True
    then have "hello_id h = hello_id h0" "hello_entries h = hello_entries h0"
      by (simp_all add: same_contract_def hello_entries_def)
    moreover have "length p \<le> l_FRAME l"
      using True sc sz by (simp add: link_sizes_def)
    moreover have eqs: "l_peer_hello_len l = length p"
      "(l_peer_hello l ! 0) AND NOT HELLO_ACK = (p ! 0) AND NOT HELLO_ACK"
      "slice (l_peer_hello l) 1 (length p) = drop 1 p"
      using True sc by auto
    ultimately have "is_ok (validate_hello p l)"
      using known validate_entries_hello [of h h0 l] assms(4) unfolding validate_hello_def eqs by simp
    with True show ?thesis
      by simp
  next
    case False
    have "\<not> is_ok (validate_hello p l)"
    proof
      assume "is_ok (validate_hello p l)"
      then obtain contract where "validate_hello p l = Inr contract"
        by (cases "validate_hello p l") auto
      then show False
        by (rule validate_hello_Inr) (use False sc assms(2) in auto)
    qed
    with False show ?thesis
      by simp
  qed
qed

theorem hello_must_repeat_witness:
  "is_ok (validate_hello (own_hello True b0) a1) \<longleftrightarrow>
     same_contract (hello_of True False ''b'' b_entries) (hello_of True False ''b'' b_entries)"
  by (rule hello_must_repeat [OF ex_inv1(1) _ ex_hello(1) ex_parse(2)]) simp

lemma validate_hello_cong:
  assumes "same_static l l'" "same_peer l l'" "l_FRAME l' = l_FRAME l"
  shows "validate_hello p l' = validate_hello p l"
proof -
  have eqs: "l_N l' = l_N l" "l_connected l' = l_connected l" "l_peer_hello l' = l_peer_hello l"
    "l_peer_hello_len l' = l_peer_hello_len l"
    using assms(1,2) by (simp_all add: same_static_def same_peer_def)
  show ?thesis
    unfolding validate_hello_def eqs assms(3) validate_entries_cong [OF assms(1)] ..
qed

lemma own_hello_cong:
  "same_static l l' \<Longrightarrow> l_bridge l' = l_bridge l \<Longrightarrow> own_hello ack l' = own_hello ack l"
  "same_static l l' \<Longrightarrow> local_entries l' = local_entries l"
  by (simp_all add: own_hello_def local_entries_def hello_entry_of_def [abs_def] same_static_id same_static_port)
     (simp_all add: same_static_def)

context cobs_codec
begin

lemma queue_hello_sent:
  assumes "link_sizes l" "fst (hello_payload ack l) = Inr n" "encoded_max c (OVERHEAD + n) \<le> length (l_tx l) - l_tx_len l"
  shows "tx_queue (snd (queue_hello c ack l)) = tx_queue l @ frame_wire c (hdr Kind_Hello 0 0) (own_hello ack l)"
proof -
  obtain l1 where h: "hello_payload ack l = (Inr n, l1)"
    using assms(2) by (cases "hello_payload ack l") auto
  have s1: "tx_step l [] l1" "link_sizes l1"
    using hello_payload_step [OF assms(1), of ack] tx_step_sizes assms(1) by (auto simp: h)
  have q: "queue_hello c ack l = emit c Kind_Hello 0 0 n l1"
    using h by (simp add: queue_hello_def sbind_def)
  have fits: "OVERHEAD + n \<le> l_FRAME l1" "encoded_max c (OVERHEAD + n) \<le> length (l_tx l1) - l_tx_len l1"
    using assms hello_payload_Inr_iff [OF assms(1)] s1(1) by (auto simp: tx_step_def tx_only_sel)
  show ?thesis
    using s1(2)
  proof (cases rule: emit_cases [of l1 n Kind_Hello 0 0])
    case (sent l')
    then show ?thesis
      using q s1(1) hello_payload_scratch [OF assms(1) h] by (simp add: tx_step_def)
  qed (use fits in simp_all)
qed

lemma hello_arrives:
  assumes b: "link_inv b" "rx_empty b" "\<not> l_connected b"
    and room: "length (frame_wire c (hdr Kind_Hello 0 0) p) \<le> length (l_rx b)" "OVERHEAD + length p \<le> l_FRAME b" "length p < 2 ^ 16"
    and ok: "validate_hello p b = Inr contract"
    and answer: "fst (hello_payload True b) = Inr n" "encoded_max c (OVERHEAD + n) \<le> length (l_tx b) - l_tx_len b"
  shows "\<exists>b1 b2 f. feed c (frame_wire c (hdr Kind_Hello 0 0) p) b = (length (frame_wire c (hdr Kind_Hello 0 0) p), b1)
    \<and> next_event c b1 = (Some (Ev_Connected f), b2) \<and> l_connected b2 \<and> l_peer b2 = Some (pc_peer contract)
    \<and> l_remote b2 = pc_remote contract \<and> l_peer_bridge b2 = pc_bridge contract \<and> payload f b2 = p
    \<and> tx_queue b2 = tx_queue b @ (if pc_ack contract then [] else frame_wire c (hdr Kind_Hello 0 0) (own_hello True b))"
proof -
  let ?h = "hdr Kind_Hello 0 0"
  obtain b1 b2 where t: "feed c (frame_wire c ?h p) b = (length (frame_wire c ?h p), b1)"
    "same_static b b2" "same_peer b b2" "l_bridge b2 = l_bridge b" "link_inv b2" "tx_queue b2 = tx_queue b"
    "l_tx b2 = l_tx b" "l_tx_len b2 = l_tx_len b" "l_FRAME b2 = l_FRAME b" "l_started b2"
    "slice (l_rx b2) HEADER (HEADER + unat (word_of_nat (length p) :: u16)) = p"
    "next_event c b1 = (case dispatch c (frame_of ?h p (l_rx_generation b2)) b2 of
          (Some ev, l3) \<Rightarrow> (Some ev, l3) | (None, l3) \<Rightarrow> (None, rx_compact l3))"
    by (rule frame_through [OF b(1,2) room])
  let ?f = "frame_of ?h p (l_rx_generation b2)" and ?i = "install p contract b2"
  let ?b3 = "if pc_ack contract then ?i else snd (queue_hello c True ?i)"
  have v: "validate_hello p b2 = Inr contract"
    using ok validate_hello_cong [OF t(2,3,9)] by simp
  have inv: "link_inv ?i"
    using link_inv_install [OF t(5,10) v] .
  have ss: "same_static b ?i"
    using t(2) by (simp add: same_static_def install_def)
  have only: "tx_only ?i ?b3"
    using queue_hello_tx_only by auto
  have nc: "\<not> l_connected b2"
    using b(3) t(3) by (simp add: same_peer_def)
  have d: "dispatch c ?f b2 = (Some (Ev_Connected ?f), ?b3)"
    using v t(11) nc by (simp add: dispatch_def on_hello_def Let_def install_def frame_of_def hdr_def)
  have "fst (hello_payload True ?i) = Inr n"
    using answer(1) own_hello_cong [OF ss] t(9) same_static_id [OF ss] t(4)
    unfolding hello_payload_Inr_iff [OF link_inv_sizes [OF inv]] hello_payload_Inr_iff [OF link_inv_sizes [OF b(1)]]
    by (simp add: install_def)
  then have "tx_queue (snd (queue_hello c True ?i)) = tx_queue ?i @ frame_wire c ?h (own_hello True ?i)"
    using queue_hello_sent [OF link_inv_sizes [OF inv]] answer(2) t(7,8) by (simp add: install_def)
  then have "tx_queue ?b3 = tx_queue b @ (if pc_ack contract then [] else frame_wire c ?h (own_hello True b))"
    using own_hello_cong(1) [OF ss, of True] t(4,6) by (simp add: install_def tx_queue_def)
  moreover have "payload ?f ?b3 = p"
    using tx_only_same_rx [OF only] t(11)
    by (simp add: payload_def is_fresh_def frame_of_def same_rx_def install_def)
  moreover have "l_connected ?b3" "l_peer ?b3 = Some (pc_peer contract)" "l_remote ?b3 = pc_remote contract"
    "l_peer_bridge ?b3 = pc_bridge contract"
    using tx_only_sel [OF only] by (simp_all add: install_def)
  ultimately show ?thesis
    using t(1) t(12) [unfolded d] by auto
qed

end

text \<open>C16. A valid Hello brings the session up: fed to a disconnected link that is between frames, it makes
  \<open>next_event\<close> report \<open>Connected\<close> with the Hello as payload, the peer's identity and table are the ones
  it declared, and the link's own Hello is queued in answer, flagged as an acknowledgement, exactly when
  the received one is not itself an acknowledgement.\<close>

theorem hello_connects:
  assumes "cobs_codec c" "link_inv b" "rx_empty b" "\<not> l_connected b" "validate_hello p b = Inr contract"
    and "encoded_max c (OVERHEAD + length p) \<le> length (l_rx b)" "OVERHEAD + length p \<le> l_FRAME b" "length p < 2 ^ 16"
    and "fst (hello_payload True b) = Inr n" "encoded_max c (OVERHEAD + n) \<le> length (l_tx b) - l_tx_len b"
  shows "\<exists>b1 b2 f. feed c (frame_wire c (hdr Kind_Hello 0 0) p) b = (length (frame_wire c (hdr Kind_Hello 0 0) p), b1)
    \<and> next_event c b1 = (Some (Ev_Connected f), b2) \<and> l_connected b2 \<and> l_peer b2 = Some (pc_peer contract)
    \<and> l_remote b2 = pc_remote contract \<and> l_peer_bridge b2 = pc_bridge contract \<and> payload f b2 = p
    \<and> tx_queue b2 = tx_queue b @ (if pc_ack contract then [] else frame_wire c (hdr Kind_Hello 0 0) (own_hello True b))"
proof -
  have "length (frame_wire c (hdr Kind_Hello 0 0) p) \<le> length (l_rx b)"
    using cobs_codec.frame_wire_max [OF assms(1)] assms(6) le_trans by blast
  then show ?thesis
    by (rule cobs_codec.hello_arrives [OF assms(1-4) _ assms(7,8,5,9,10)])
qed

theorem hello_connects_witness:
  "\<exists>b2 b3 f. feed ref_codec (frame_wire ref_codec (hdr Kind_Hello 0 0) (own_hello True a0)) b0
      = (length (frame_wire ref_codec (hdr Kind_Hello 0 0) (own_hello True a0)), b2)
    \<and> next_event ref_codec b2 = (Some (Ev_Connected f), b3) \<and> l_connected b3"
proof -
  have sel: "l_rx b0 = replicate 512 0" "l_tx b0 = replicate 512 0" "l_tx_len b0 = 0" "l_rx_len b0 = 0" "l_rx_consumed b0 = 0" "\<not> l_rx_skip b0"
    by (simp_all add: b0_def started_link_def)
  have "list_all len_ok_entry b_entries" "length b_entries \<le> 255"
    by (simp_all add: ex_entries len_ok_entry_def)
  then have "fst (hello_payload True b0) = Inr 58"
    unfolding hello_payload_Inr_iff [OF ex_sizes(2)]
    by (simp add: ex_hello_len ex_id ex_parse b_entries_def wire_consts)
  from hello_connects [OF ref.cobs_codec_axioms ex_inv(2) _ _ ex_validate(1) _ _ _ this] show ?thesis
    by (fastforce simp: sel rx_empty_def ex_hello_len encoded_max_def ref_max wire_consts)
qed

section \<open>The clock\<close>

lemma unat_sub_wrap: "int (unat (a - b)) = (int (unat a) - int (unat b)) mod 2 ^ 32" for a b :: u32
  by (simp add: uint_nat [symmetric] uint_word_ariths)

text \<open>The liveness decision, wrap-around included: \<open>tick\<close> on a started link reports \<open>Disconnected\<close>
  exactly when there is a session and the milliseconds since the last reception, counted modulo
  \<open>2 ^ 32\<close>, exceed the timeout. Then the whole contract is dropped; otherwise the session and the
  receive buffer stay as they are.\<close>

theorem tick_timeout:
  assumes "l_started l"
  shows "(fst (tick c now l) = Some Ev_Disconnected \<longleftrightarrow> l_connected l
      \<and> (int (unat now) - int (unat (l_last_rx_ms l))) mod 2 ^ 32 > int (unat (timeout_ms (l_config l))))
    \<and> (fst (tick c now l) = Some Ev_Disconnected \<longrightarrow> \<not> l_connected (snd (tick c now l)) \<and> peer_cleared (snd (tick c now l)))
    \<and> (fst (tick c now l) = None \<longrightarrow> same_peer l (snd (tick c now l)))
    \<and> l_now_ms (snd (tick c now l)) = now \<and> same_rx l (snd (tick c now l))"
proof -
  let ?l = "l\<lparr>l_now_ms := now\<rparr>"
  have e: "tx_only ?l (snd (emit c Kind_Ping 0 0 0 ?l))" "tx_only ?l (snd (queue_hello c False ?l))"
    by (rule emit_tx_only, rule queue_hello_tx_only)
  have cmp: "now - l_last_rx_ms l > timeout_ms (l_config l) \<longleftrightarrow>
      (int (unat now) - int (unat (l_last_rx_ms l))) mod 2 ^ 32 > int (unat (timeout_ms (l_config l)))"
    unfolding unat_sub_wrap [symmetric] of_nat_less_iff word_less_nat_alt ..
  consider "l_connected l" "now - l_last_rx_ms l > timeout_ms (l_config l)" "tick c now l = (Some Ev_Disconnected, drop_peer ?l)"
    | "\<not> (l_connected l \<and> now - l_last_rx_ms l > timeout_ms (l_config l))" "tx_only ?l (snd (tick c now l))" "fst (tick c now l) = None"
    using assms e by (cases "l_connected l"; cases "now - l_last_rx_ms l > timeout_ms (l_config l)") (auto simp: tick_def Let_def)
  then show ?thesis
  proof cases
    case 1
    then show ?thesis
      using cmp by (simp add: drop_peer_def peer_cleared_def same_rx_def)
  next
    case 2
    have "same_peer l (snd (tick c now l))" "same_rx l (snd (tick c now l))" "l_now_ms (snd (tick c now l)) = now"
      using tx_only_sel [OF 2(2)] by (simp_all add: same_peer_def same_rx_def)
    with 2(1,3) cmp show ?thesis
      by simp
  qed
qed

theorem tick_timeout_witness:
  "fst (tick ref_codec 100 (a1\<lparr>l_last_rx_ms := - 4000\<rparr>)) = Some Ev_Disconnected"
proof -
  have "timeout_ms (l_config (a1\<lparr>l_last_rx_ms := - 4000\<rparr>)) = 3000"
    by (simp add: a1_def install_def a0_def started_link_def LinkConfig_default_def)
  then show ?thesis
    using tick_timeout [of "a1\<lparr>l_last_rx_ms := - 4000\<rparr>" ref_codec 100] by simp
qed

section \<open>Frame handles\<close>

text \<open>\<open>aged l k l'\<close>: between \<open>l\<close> and \<open>l'\<close> the generation was advanced \<open>k\<close> times, and at least as many
  bytes were dropped from the receive buffer.\<close>

definition aged :: "Link \<Rightarrow> nat \<Rightarrow> Link \<Rightarrow> bool" where
  "aged l k l' \<longleftrightarrow> l_rx_generation l' = l_rx_generation l + word_of_nat k \<and> k + l_rx_len l' \<le> l_rx_len l"

lemma aged_trans: "aged l k l' \<Longrightarrow> aged l' m l'' \<Longrightarrow> aged l (k + m) l''"
  by (simp add: aged_def)

lemma aged_discard: "0 < n \<Longrightarrow> n \<le> l_rx_len l \<Longrightarrow> aged l 1 (rx_discard n l)"
  by (simp add: aged_def rx_discard_def)

lemma aged_same: "l_rx_generation l' = l_rx_generation l \<Longrightarrow> l_rx_len l' = l_rx_len l \<Longrightarrow> aged l 0 l'"
  by (simp add: aged_def)

text \<open>One turn of \<open>next_event\<close> that goes on, or that ends with an event, is counted against the bytes of its
  frame.\<close>

lemma decode_frame_generation: "l_rx_generation (snd (decode_frame c i l)) = l_rx_generation l"
  by (auto simp: decode_frame_def Let_def split: prod.split sum.split)

lemma next_loop_aged:
  "\<exists>k. l_rx_generation (snd (next_loop c l)) = l_rx_generation l + word_of_nat k \<and> k \<le> l_rx_len l"
proof -
  define P where "P l' \<longleftrightarrow> (\<exists>k. aged l k l')" for l'
  have bad: "P (rx_discard (i + 1) (count_bad l1))"
    if "P l0" "rx_delim l0 = Some i" "decode_frame c i l0 = (None, l1)" for l0 i l1
  proof -
    have "l_rx_len l1 = l_rx_len l0" "l_rx_generation l1 = l_rx_generation l0"
      using decode_frame_len [OF that(3)] decode_frame_generation [of c i l0] that(3) by simp_all
    then have "aged l0 0 (count_bad l1)"
      by (intro aged_same) (simp_all add: count_bad_def)
    moreover have "aged (count_bad l1) 1 (rx_discard (i + 1) (count_bad l1))"
      using that(2) \<open>l_rx_len l1 = l_rx_len l0\<close>
      by (intro aged_discard) (auto simp: rx_delim_def rx_queue_def position_Some_iff count_bad_def)
    ultimately show ?thesis
      using that(1) aged_trans unfolding P_def by blast
  qed
  have silent: "P (rx_compact l3)"
    if "P l0" "rx_delim l0 = Some i" "0 < i" "decode_frame c i l0 = (Some fr, l1)" "dispatch c f (accepted i l1) = (None, l3)"
    for l0 i fr l1 f l3
  proof -
    have "l_rx_len l1 = l_rx_len l0" "l_rx_generation l1 = l_rx_generation l0"
      using decode_frame_len [OF that(4)] decode_frame_generation [of c i l0] that(4) by simp_all
    moreover have "i + 1 \<le> l_rx_len l0"
      using that(2) by (auto simp: rx_delim_def rx_queue_def position_Some_iff)
    ultimately have "aged l0 2 (rx_compact l3)"
      using dispatch_same_rx [OF that(5)] that(3)
      by (simp add: aged_def rx_compact_def rx_discard_def same_rx_def accepted_def)
    then show ?thesis
      using that(1) aged_trans unfolding P_def by blast
  qed
  have empty: "P (rx_discard 1 l0)" if "P l0" "rx_delim l0 = Some 0" for l0
    using that aged_discard [of 1 l0] aged_trans unfolding P_def
    by (auto simp: rx_delim_def rx_queue_def position_Some_iff Suc_le_eq) blast
  have "P l"
    unfolding P_def using aged_same by blast
  then have "(\<exists>l'. next_loop c l = (None, l') \<and> P l') \<or>
    (\<exists>l0 i fr l1 event l3. P l0 \<and> rx_delim l0 = Some i \<and> 0 < i \<and> decode_frame c i l0 = (Some fr, l1)
       \<and> dispatch c (stamped fr (accepted i l1)) (accepted i l1) = (Some event, l3)
       \<and> next_loop c l = (Some event, l3))"
    using empty bad silent by (rule next_loop_rule)
  then show ?thesis
  proof (elim disjE exE conjE)
    fix l'
    assume "next_loop c l = (None, l')" "P l'"
    then show ?thesis
      by (auto simp: P_def aged_def)
  next
    fix l0 i fr l1 event l3
    assume a: "P l0" "rx_delim l0 = Some i" "0 < i" "decode_frame c i l0 = (Some fr, l1)"
      "dispatch c (stamped fr (accepted i l1)) (accepted i l1) = (Some event, l3)" "next_loop c l = (Some event, l3)"
    obtain k where k: "aged l k l0"
      using a(1) by (auto simp: P_def)
    have "l_rx_generation l3 = l_rx_generation l0 + 1"
      using dispatch_same_rx [OF a(5)] decode_frame_generation [of c i l0] a(4) by (simp add: same_rx_def accepted_def)
    moreover have "i + 1 \<le> l_rx_len l0"
      using a(2) by (auto simp: rx_delim_def rx_queue_def position_Some_iff)
    ultimately show ?thesis
      using k a(6) by (intro exI [of _ "k + 1"]) (auto simp: aged_def)
  qed
qed

text \<open>The frame that an event hands over.\<close>

fun event_frame :: "Event \<Rightarrow> Frame option" where
  "event_frame Ev_Disconnected = None"
| "event_frame (Ev_Connected f) = Some f"
| "event_frame (Ev_Data f) = Some f"
| "event_frame (Ev_Request f) = Some f"
| "event_frame (Ev_Reply f) = Some f"
| "event_frame (Ev_Error f) = Some f"

lemma dispatch_frame: "dispatch c f l = (Some ev, l') \<Longrightarrow> event_frame ev = Some g \<Longrightarrow> g = f"
  by (auto simp: dispatch_def on_hello_def dispatch_data_def dispatch_request_def dispatch_reply_def Let_def
      split: Kind.splits sum.splits if_splits)

lemma event_handle:
  assumes "next_event c l0 = (Some ev, l)" "event_frame ev = Some f"
  shows "is_fresh f l" "0 < l_rx_consumed l"
proof -
  let ?l = "rx_compact (ensure_started c l0)"
  have "(\<exists>l'. next_loop c ?l = (None, l') \<and> True) \<or> (\<exists>l0 i fr l1 event l3. True \<and> rx_delim l0 = Some i \<and> 0 < i
      \<and> decode_frame c i l0 = (Some fr, l1) \<and> dispatch c (stamped fr (accepted i l1)) (accepted i l1) = (Some event, l3)
      \<and> next_loop c ?l = (Some event, l3))"
    by (rule next_loop_rule) simp_all
  then obtain i fr l1 where d: "dispatch c (stamped fr (accepted i l1)) (accepted i l1) = (Some ev, l)"
    using assms(1) unfolding next_event_def by auto
  then have "f = stamped fr (accepted i l1)" "same_rx (accepted i l1) l"
    using dispatch_frame [OF d assms(2)] dispatch_same_rx [OF d] by simp_all
  then show "is_fresh f l" "0 < l_rx_consumed l"
    by (simp_all add: same_rx_def is_fresh_def stamped_def accepted_def)
qed

text \<open>The receive buffer keeps its size.\<close>

definition buffer_size :: "nat \<Rightarrow> Link \<Rightarrow> bool" where
  "buffer_size n l \<longleftrightarrow> l_rx_len l \<le> length (l_rx l) \<and> length (l_rx l) = n"

context cobs_codec
begin

lemma buffer_size_decode:
  "buffer_size n l \<Longrightarrow> i \<le> l_rx_len l \<Longrightarrow> decode_frame c i l = (r, l') \<Longrightarrow> buffer_size n l' \<and> l_rx_len l' = l_rx_len l"
  using decode_in_place_length [of "take i (l_rx l)"]
  by (auto simp: buffer_size_def decode_frame_def Let_def split: prod.splits sum.splits if_splits)

lemma buffer_size_discard: "buffer_size n l \<Longrightarrow> k \<le> l_rx_len l \<Longrightarrow> buffer_size n (rx_discard k l)"
  using rx_discard_queue [of k l] by (auto simp: buffer_size_def)

lemma buffer_size_compact: "buffer_size n l \<Longrightarrow> l_rx_consumed l \<le> l_rx_len l \<Longrightarrow> buffer_size n (rx_compact l)"
  using buffer_size_discard [of n "l\<lparr>l_rx_consumed := 0\<rparr>" "l_rx_consumed l"] by (simp add: rx_compact_def buffer_size_def)

lemma buffer_size_dispatch:
  assumes "buffer_size n l" "rx_delim l = Some i" "decode_frame c i l = (fr, l1)" "dispatch c f (accepted i l1) = (r, l3)"
  shows "buffer_size n l3" "l_rx_consumed l3 \<le> l_rx_len l3"
proof -
  have i: "i < l_rx_len l"
    using assms(2) by (auto simp: rx_delim_def rx_queue_def position_Some_iff)
  then have "buffer_size n l1" "l_rx_len l1 = l_rx_len l"
    using buffer_size_decode [OF assms(1) _ assms(3)] by simp_all
  then show "buffer_size n l3" "l_rx_consumed l3 \<le> l_rx_len l3"
    using dispatch_same_rx [OF assms(4)] i by (simp_all add: same_rx_def accepted_def buffer_size_def)
qed

lemma buffer_size_next:
  assumes "link_inv l"
  shows "buffer_size (length (l_rx l)) (snd (next_event c l))"
proof -
  let ?l = "rx_compact (ensure_started c l)" and ?P = "buffer_size (length (l_rx l))"
  have "?P ?l"
    using link_inv_sizes [OF assms] same_rx_ensure_started [of l c]
    by (intro buffer_size_compact) (simp_all add: link_sizes_def same_rx_def buffer_size_def)
  then have "(\<exists>l'. next_loop c ?l = (None, l') \<and> ?P l') \<or> (\<exists>l0 i fr l1 event l3. ?P l0 \<and> rx_delim l0 = Some i \<and> 0 < i
      \<and> decode_frame c i l0 = (Some fr, l1) \<and> dispatch c (stamped fr (accepted i l1)) (accepted i l1) = (Some event, l3)
      \<and> next_loop c ?l = (Some event, l3))"
  proof (rule next_loop_rule)
    fix l0 assume "?P l0" "rx_delim l0 = Some 0"
    then show "?P (rx_discard 1 l0)"
      by (intro buffer_size_discard) (auto simp: rx_delim_def rx_queue_def position_Some_iff)
  next
    fix l0 i l1 assume a: "?P l0" "rx_delim l0 = Some i" "decode_frame c i l0 = (None, l1)"
    then have i: "i < l_rx_len l0"
      by (auto simp: rx_delim_def rx_queue_def position_Some_iff)
    then have "?P l1" "l_rx_len l1 = l_rx_len l0"
      using buffer_size_decode [OF a(1) _ a(3)] by simp_all
    then show "?P (rx_discard (i + 1) (count_bad l1))"
      using i by (intro buffer_size_discard) (simp_all add: count_bad_def buffer_size_def)
  next
    fix l0 i fr l1 l3
    assume a: "?P l0" "rx_delim l0 = Some i" "decode_frame c i l0 = (Some fr, l1)"
      "dispatch c (stamped fr (accepted i l1)) (accepted i l1) = (None, l3)"
    show "?P (rx_compact l3)"
      by (rule buffer_size_compact [OF buffer_size_dispatch [OF a]])
  qed
  then show ?thesis
  proof (elim disjE exE conjE)
    fix l0 i fr l1 event l3
    assume "?P l0" "rx_delim l0 = Some i" "decode_frame c i l0 = (Some fr, l1)"
      "dispatch c (stamped fr (accepted i l1)) (accepted i l1) = (Some event, l3)" "next_loop c ?l = (Some event, l3)"
    then show ?thesis
      using buffer_size_dispatch(1) [of _ l0 i] by (simp add: next_event_def)
  qed (simp add: next_event_def)
qed

end

lemma fresh_expires:
  assumes "link_inv l" "l_started l" "0 < l_rx_consumed l" "is_fresh f l" "length (l_rx l) < 2 ^ 16"
  shows "payload f (snd (feed c bs l)) = [] \<and> payload f (snd (next_event c l)) = []"
proof -
  have sz: "link_sizes l"
    using assms(1) by (rule link_inv_sizes)
  have es: "ensure_started c l = l"
    using assms(2) by (simp add: ensure_started_def)
  have g: "l_rx_generation (rx_compact l) = l_rx_generation l + 1" "l_rx_len (rx_compact l) < 2 ^ 16 - 1"
    using assms(3,5) sz by (auto simp: rx_compact_def rx_discard_def link_sizes_def)
  have "l_rx_generation (snd (feed_loop (length bs) bs (rx_compact l))) = l_rx_generation l + 1"
    using rx_only_sel(16) [OF feed_loop_sizes(2) [OF rx_compact_sizes [OF sz] rx_compact_queue(2) [OF sz], of bs]] g(1)
    by simp
  then have "\<not> is_fresh f (snd (feed c bs l))"
    using assms(4) es by (simp add: is_fresh_def feed_def)
  moreover obtain k where k: "l_rx_generation (snd (next_loop c (rx_compact l))) = l_rx_generation (rx_compact l) + word_of_nat k"
    "k \<le> l_rx_len (rx_compact l)"
    using next_loop_aged by blast
  have "\<not> is_fresh f (snd (next_event c l))"
  proof
    assume "is_fresh f (snd (next_event c l))"
    then have "(word_of_nat (k + 1) :: u16) = 0"
      using assms(4) es k(1) g(1) by (simp add: is_fresh_def next_event_def algebra_simps)
    then have "unat (word_of_nat (k + 1) :: u16) = 0"
      by simp
    then show False
      using k(2) g(2) by (subst (asm) unat_len_u16) simp_all
  qed
  ultimately show ?thesis
    by (simp add: payload_def)
qed

text \<open>C17. A handle dies with the next reception: the frame that an event hands over is fresh, and once
  \<open>feed\<close> or \<open>next_event\<close> has been called again its handle reads as empty, never as the bytes of
  another frame, provided the receive buffer is smaller than the 16-bit generation counter can
  count.\<close>

theorem handle_expires:
  assumes "cobs_codec c" "link_inv l0" "next_event c l0 = (Some ev, l)" "event_frame ev = Some f" "length (l_rx l0) < 2 ^ 16"
  shows "is_fresh f l \<and> payload f (snd (feed c bs l)) = [] \<and> payload f (snd (next_event c l)) = []"
proof -
  let ?l = "ensure_started c l"
  have inv: "link_inv ?l"
    using cobs_codec.link_inv_ensure_started [OF assms(1) cobs_codec.link_inv_next [OF assms(1,2)]] assms(3) by simp
  have started: "l_started ?l"
    by (rule cobs_codec.ensure_started_started [OF assms(1)])
  have again: "ensure_started c ?l = ?l"
    using started by (simp add: ensure_started_def [of c ?l])
  have rx: "same_rx l ?l"
    by (rule same_rx_ensure_started)
  have size: "length (l_rx l) < 2 ^ 16"
    using cobs_codec.buffer_size_next [OF assms(1,2)] assms(3,5) by (simp add: buffer_size_def)
  note h = event_handle [OF assms(3,4)]
  have "payload f (snd (feed c bs ?l)) = [] \<and> payload f (snd (next_event c ?l)) = []"
    using h rx size by (intro fresh_expires [OF inv started]) (simp_all add: same_rx_def is_fresh_def)
  then show ?thesis
    using h(1) by (simp add: feed_def next_event_def again)
qed

theorem handle_expires_witness:
  "\<exists>b2 b3 f. next_event ref_codec b2 = (Some (Ev_Data f), b3) \<and> payload f b3 = [8, 1]
    \<and> payload f (snd (feed ref_codec [] b3)) = [] \<and> payload f (snd (next_event ref_codec b3)) = []"
proof -
  let ?w = "frame_wire ref_codec (hdr Kind_Data 0x0DAF47EA 0) [8, 1]"
  have b1: "l_rx b1 = replicate 512 0" "rx_empty b1" "l_FRAME b1 = 128"
    by (simp_all add: rx_empty_def)
  have "length ?w \<le> length (l_rx b1)"
    using ref.frame_wire_max [of "hdr Kind_Data 0x0DAF47EA 0" "[8, 1]"] by (simp add: b1 encoded_max_def ref_max wire_consts)
  then obtain b2 b3 f where t: "feed ref_codec ?w b1 = (length ?w, b2)" "next_event ref_codec b2 = (Some (Ev_Data f), b3)"
      "payload f b3 = [8, 1]"
    using ref.data_arrives [OF ex_inv1(2) b1(2) _ _ _ ex_b1_wants, of 0 "[8, 1]"] by (auto simp: b1 wire_consts)
  have inv: "link_inv b2"
    using ref.link_inv_feed [OF ex_inv1(2), of ?w] t(1) by simp
  have "length (l_rx b2) = 512"
    using feed_loop_sizes(2) [OF link_inv_sizes [OF ex_inv1(2)], of ?w] t(1) by (simp add: feed_def ensure_started_def rx_only_sel)
  then have "length (l_rx b2) < 2 ^ 16"
    by simp
  from handle_expires [OF ref.cobs_codec_axioms inv t(2) _ this, of f "[]"] t show ?thesis
    by auto
qed

lemma next_loop_delimiters:
  assumes "rx_queue l = replicate n DELIMITER" "l_rx_len l \<le> length (l_rx l)"
  shows "fst (next_loop c l) = None \<and> l_rx_generation (snd (next_loop c l)) = l_rx_generation l + word_of_nat n"
  using assms
proof (induction n arbitrary: l)
  case 0
  then show ?case
    by (simp add: next_loop_unfold rx_delim_def)
next
  case (Suc n)
  have len: "l_rx_len l = Suc n"
    using arg_cong [OF Suc.prems(1), of length] Suc.prems(2) by (simp add: rx_queue_def)
  then have d: "rx_queue (rx_discard 1 l) = replicate n DELIMITER" "l_rx_len (rx_discard 1 l) \<le> length (l_rx (rx_discard 1 l))"
    using rx_discard_queue [of 1 l] Suc.prems by simp_all
  have "next_loop c l = next_loop c (rx_discard 1 l)"
    using Suc.prems(1) by (subst next_loop_unfold) (simp add: rx_delim_def)
  moreover have "l_rx_generation (rx_discard 1 l) = l_rx_generation l + 1"
    by (simp add: rx_discard_def)
  ultimately show ?case
    using Suc.IH [OF d] by (simp add: algebra_simps)
qed

text \<open>The limit of the previous guarantee: if exactly 65535 delimiters are queued behind a frame that has been
  handed over, which takes a receive buffer of more than 65535 bytes, \<open>next_event\<close> drops them one by one,
  the 16-bit generation counter comes back to the handle's value, and the stale handle counts as
  fresh.\<close>

theorem handle_generation_wraps:
  assumes "link_inv l" "l_started l" "0 < l_rx_consumed l" "is_fresh f l"
    and "drop (l_rx_consumed l) (rx_queue l) = replicate 65535 DELIMITER"
  shows "fst (next_event c l) = None \<and> is_fresh f (snd (next_event c l))"
proof -
  have sz: "link_sizes l"
    using assms(1) by (rule link_inv_sizes)
  have q: "rx_queue (rx_compact l) = replicate 65535 DELIMITER"
    using rx_compact_queue(1) [OF sz] assms(5) by simp
  have "l_rx_len (rx_compact l) \<le> length (l_rx (rx_compact l))"
    using rx_compact_sizes [OF sz] by (simp add: link_sizes_def)
  from next_loop_delimiters [OF q this, of c] show ?thesis
    using assms(2-4) by (simp add: next_event_def ensure_started_def is_fresh_def rx_compact_def rx_discard_def)
qed

end
