(* ===== verification/Bindings.thy ===== *)
theory Bindings
  imports Wire
begin

text \<open>
  The named-port contracts of a managed module (\<^verbatim>\<open>crates/reiny-core/src/bindings.rs\<close>): the data
  an application resolves for each module, and the validator that rejects malformed bindings before
  any transport port is opened. Every early return of the source is a branch of the model, with the
  source's message; the validators' order is the source's. The section on text holds what the
  sources use of Rust's \<open>str\<close>: the characters of a UTF-8 string and Unicode white space.
\<close>

section \<open>Text\<close>

text \<open>\<open>str::chars\<close>: the UTF-8 sequences of a string, cut by their leading byte.\<close>

definition utf8_width :: "char \<Rightarrow> nat" where
  "utf8_width c = (let n = of_char c :: nat in
     if n < 192 then 1 else if n < 224 then 2 else if n < 240 then 3 else 4)"

function utf8_chars :: "string \<Rightarrow> string list" where
  "utf8_chars [] = []"
| "utf8_chars (c # cs) =
     (c # take (utf8_width c - 1) cs) # utf8_chars (drop (utf8_width c - 1) cs)"
  by pat_completeness auto
termination
  by (relation "measure length") auto

text \<open>\<open>char::is_whitespace\<close>: the code points of the Unicode property \<open>White_Space\<close>
  (9-13, 32, 85, A0, 1680, 2000-200A, 2028, 2029, 202F, 205F and 3000) in their UTF-8 form.\<close>

definition is_whitespace :: "string \<Rightarrow> bool" where
  "is_whitespace ch = (case map of_char ch :: nat list of
       [a] \<Rightarrow> 9 \<le> a \<and> a \<le> 13 \<or> a = 32
     | [a, b] \<Rightarrow> a = 0xC2 \<and> (b = 0x85 \<or> b = 0xA0)
     | [a, b, c] \<Rightarrow> a = 0xE1 \<and> b = 0x9A \<and> c = 0x80
         \<or> a = 0xE2 \<and> b = 0x80 \<and> (0x80 \<le> c \<and> c \<le> 0x8A \<or> c = 0xA8 \<or> c = 0xA9 \<or> c = 0xAF)
         \<or> a = 0xE2 \<and> b = 0x81 \<and> c = 0x9F
         \<or> a = 0xE3 \<and> b = 0x80 \<and> c = 0x80
     | _ \<Rightarrow> False)"

definition trim :: "string \<Rightarrow> string" where
  "trim s = concat (rev (dropWhile is_whitespace (rev (dropWhile is_whitespace (utf8_chars s)))))"

definition strip_prefix :: "string \<Rightarrow> string \<Rightarrow> string option" where
  "strip_prefix p s = (if take (length p) s = p then Some (drop (length p) s) else None)"

section \<open>Data\<close>

definition MODULE_BINDINGS_VERSION :: u32 where "MODULE_BINDINGS_VERSION = 3"

definition MODULE_REPORT_VERSION :: u32 where "MODULE_REPORT_VERSION = 3"

datatype PortKind = Kind_Stream | Kind_Rpc

datatype QosProfile = Qos_Default | Qos_Command | Qos_Sensor

datatype Retention = Retention_Volatile | Retention_Last

datatype Replay = Replay_Live | Replay_Last

datatype ReceiveBuffer = Buffer_Fifo | Buffer_Latest nat

datatype FifoBuffer = FifoBuffer_Fifo

datatype BufferRepr = Repr_Fifo FifoBuffer | Repr_Latest nat

fun buffer_of_repr :: "BufferRepr \<Rightarrow> ReceiveBuffer" where
  "buffer_of_repr (Repr_Fifo FifoBuffer_Fifo) = Buffer_Fifo"
| "buffer_of_repr (Repr_Latest latest) = Buffer_Latest latest"

fun repr_of_buffer :: "ReceiveBuffer \<Rightarrow> BufferRepr" where
  "repr_of_buffer Buffer_Fifo = Repr_Fifo FifoBuffer_Fifo"
| "repr_of_buffer (Buffer_Latest latest) = Repr_Latest latest"

record EndpointContract =
  ec_semantics :: "(string, string) btree"
  ec_type_name :: string
  ec_kind :: PortKind
  ec_response :: "string option"
  ec_qos :: QosProfile
  ec_retention :: Retention
  ec_replay :: Replay
  ec_buffer :: ReceiveBuffer

definition EndpointContract_default :: EndpointContract where
  "EndpointContract_default = \<lparr>ec_semantics = [], ec_type_name = [], ec_kind = Kind_Stream,
     ec_response = None, ec_qos = Qos_Default, ec_retention = Retention_Volatile,
     ec_replay = Replay_Live, ec_buffer = Buffer_Fifo\<rparr>"

record PortDelegation =
  pd_inputs :: "string list"
  pd_outputs :: "string list"

text \<open>\<open>EndpointAddress\<close> derives \<open>Ord\<close>: lexicographic in the order of its fields, each compared
  byte by byte.\<close>

datatype EndpointAddress = EndpointAddress (ea_namespace: string) (ea_port: string)

instantiation EndpointAddress :: linorder
begin

definition less_EndpointAddress :: "EndpointAddress \<Rightarrow> EndpointAddress \<Rightarrow> bool" where
  "less_EndpointAddress a b \<longleftrightarrow> ea_namespace a < ea_namespace b
     \<or> ea_namespace a = ea_namespace b \<and> ea_port a < ea_port b"

definition less_eq_EndpointAddress :: "EndpointAddress \<Rightarrow> EndpointAddress \<Rightarrow> bool" where
  "less_eq_EndpointAddress a b \<longleftrightarrow> ea_namespace a < ea_namespace b
     \<or> ea_namespace a = ea_namespace b \<and> ea_port a \<le> ea_port b"

instance
  by standard
    (auto simp: less_EndpointAddress_def less_eq_EndpointAddress_def intro: EndpointAddress.expand)

end

record InputBinding =
  ib_contract :: EndpointContract
  ib_sources :: "EndpointAddress list"

record OutputBinding =
  ob_contract :: EndpointContract

record ModuleBindings =
  mb_version :: u32
  mb_namespace :: string
  mb_endpoint_namespace :: string
  mb_inputs :: "(string, InputBinding) btree"
  mb_outputs :: "(string, OutputBinding) btree"
  mb_children :: "(string, PortDelegation) btree"
  mb_executables :: "string list"

datatype BindingError = BindingError string

section \<open>Validators\<close>

definition require :: "bool \<Rightarrow> string \<Rightarrow> BindingError + unit" where
  "require condition message = (if condition then Inr () else Inl (BindingError message))"

text \<open>\<open>and_then r k\<close> is \<open>r?; k\<close>; \<open>try_for\<close> is a \<open>for\<close> loop whose body may return early,
  threading the variables the body updates.\<close>

definition and_then :: "'e + unit \<Rightarrow> 'e + 'a \<Rightarrow> 'e + 'a" where
  "and_then r k = rbind r (\<lambda>_. k)"

fun try_for :: "('x \<Rightarrow> 's \<Rightarrow> 'e + 's) \<Rightarrow> 'x list \<Rightarrow> 's \<Rightarrow> 'e + 's" where
  "try_for body [] s = Inr s"
| "try_for body (x # xs) s = rbind (body x s) (try_for body xs)"

definition dot_segment :: "string \<Rightarrow> bool" where
  "dot_segment value \<longleftrightarrow> value = ''.'' \<or> value = ''..''"

text \<open>The characters that \<open>contains\<close> looks for are ASCII, which in UTF-8 occur only as themselves,
  so the test is on bytes.\<close>

definition segment :: "string \<Rightarrow> bool" where
  "segment value \<longleftrightarrow> value \<noteq> []
     \<and> \<not> dot_segment value
     \<and> \<not> list_ex (\<lambda>c. c \<in> set ''/*?#$@'') value
     \<and> \<not> list_ex is_whitespace (utf8_chars value)"

definition type_name_ok :: "string \<Rightarrow> bool" where
  "type_name_ok value \<longleftrightarrow>
     list_all (\<lambda>part. part \<noteq> [] \<and> list_all (\<lambda>c. ascii_alphanumeric c \<or> c = CHR ''_'') part)
       (split_on CHR ''.'' value)"

definition validate_namespace :: "string \<Rightarrow> BindingError + unit" where
  "validate_namespace value =
     require (list_all (\<lambda>part. segment part \<and> \<not> dot_segment part) (split_on CHR ''/'' value))
       ''invalid module namespace''"

definition validate_port_name :: "string \<Rightarrow> BindingError + unit" where
  "validate_port_name value = require (segment value) ''invalid endpoint name''"

definition validate_semantics :: "(string, string) btree \<Rightarrow> BindingError + unit" where
  "validate_semantics semantics =
     require (list_all (\<lambda>(key, value). trim key \<noteq> [] \<and> trim value \<noteq> []) semantics)
       ''semantic assertion keys and values must not be blank''"

definition EndpointAddress_validate :: "EndpointAddress \<Rightarrow> BindingError + unit" where
  "EndpointAddress_validate a =
     and_then (validate_namespace (ea_namespace a)) (validate_port_name (ea_port a))"

definition EndpointContract_validate :: "EndpointContract \<Rightarrow> bool \<Rightarrow> BindingError + unit" where
  "EndpointContract_validate c input =
     and_then (validate_semantics (ec_semantics c))
    (and_then (require (type_name_ok (ec_type_name c)) ''invalid endpoint type'')
    (and_then (require (ec_buffer c \<noteq> Buffer_Latest 0) ''latest buffer depth must be positive'')
    (and_then (require (\<not> input \<or> ec_qos c = Qos_Default \<and> ec_retention c = Retention_Volatile)
                 ''qos and retention belong to outputs'')
    (and_then (require (input \<or> ec_replay c = Replay_Live \<and> ec_buffer c = Buffer_Fifo)
                 ''replay and buffer belong to inputs'')
      (case ec_kind c of
         Kind_Stream \<Rightarrow> require (ec_response c = None) ''stream cannot declare a response''
       | Kind_Rpc \<Rightarrow>
           and_then (require (is_some_and type_name_ok (ec_response c)) ''RPC requires a valid response type'')
             (require (ec_qos c = Qos_Default \<and> ec_retention c = Retention_Volatile
                 \<and> ec_replay c = Replay_Live \<and> ec_buffer c = Buffer_Fifo)
                ''stream policies do not apply to RPC''))))))"

text \<open>What two inputs that name one source endpoint have to agree on.\<close>

type_synonym source_contract = "string \<times> string option \<times> bool \<times> (string, string) btree"

definition source_contract_of :: "EndpointContract \<Rightarrow> source_contract" where
  "source_contract_of c = (ec_type_name c, ec_response c, ec_kind c = Kind_Rpc, ec_semantics c)"

text \<open>The three loops of \<open>ModuleBindings::validate\<close> that carry state: the executables seen so
  far, the addresses seen over all inputs with the contract last recorded for each, and within one
  input the sources seen so far.\<close>

definition check_executable :: "string \<Rightarrow> string set \<Rightarrow> BindingError + string set" where
  "check_executable executable seen =
     and_then (require (segment executable \<and> \<not> dot_segment executable \<and> executable \<notin> seen)
       ''invalid or duplicate executable'') (Inr (insert executable seen))"

type_synonym addresses = "(EndpointAddress, source_contract) btree"

definition check_source ::
  "EndpointContract \<Rightarrow> EndpointAddress \<Rightarrow> EndpointAddress set \<times> addresses
    \<Rightarrow> BindingError + EndpointAddress set \<times> addresses" where
  "check_source c source st = (case st of (unique, addresses) \<Rightarrow>
     and_then (EndpointAddress_validate source)
    (and_then (require (source \<notin> unique) ''duplicate input source'')
    (and_then (case bt_get addresses source of
          Some previous \<Rightarrow> require (previous = source_contract_of c)
            ''incompatible contracts for one source endpoint''
        | None \<Rightarrow> Inr ())
      (Inr (insert source unique, bt_insert source (source_contract_of c) addresses)))))"

definition check_input :: "string \<times> InputBinding \<Rightarrow> addresses \<Rightarrow> BindingError + addresses" where
  "check_input np addresses = (case np of (name, port) \<Rightarrow>
     and_then (validate_port_name name)
    (and_then (EndpointContract_validate (ib_contract port) True)
    (and_then (require (ib_sources port \<noteq> []) ''input requires exact sources'')
    (and_then (require (ec_kind (ib_contract port) \<noteq> Kind_Rpc \<or> length (ib_sources port) = 1)
                 ''RPC input requires exactly one source'')
      (rbind (try_for (check_source (ib_contract port)) (ib_sources port) ({}, addresses))
         (\<lambda>(_, addresses). Inr addresses))))))"

definition check_output :: "string \<times> OutputBinding \<Rightarrow> unit \<Rightarrow> BindingError + unit" where
  "check_output np _ = (case np of (name, port) \<Rightarrow>
     and_then (validate_port_name name) (EndpointContract_validate (ob_contract port) False))"

definition check_delegated ::
  "ModuleBindings \<Rightarrow> string \<times> bool \<Rightarrow> (string \<times> bool) set \<Rightarrow> BindingError + (string \<times> bool) set" where
  "check_delegated b pi delegated = (case pi of (port, input) \<Rightarrow>
     and_then (require (if input then bt_contains (mb_inputs b) port else bt_contains (mb_outputs b) port)
       ''child delegates undefined endpoint'')
    (and_then (require ((port, input) \<notin> delegated) ''endpoint delegated more than once'')
      (Inr (insert (port, input) delegated))))"

definition delegated_ports :: "PortDelegation \<Rightarrow> (string \<times> bool) list" where
  "delegated_ports child =
     map (\<lambda>port. (port, True)) (pd_inputs child) @ map (\<lambda>port. (port, False)) (pd_outputs child)"

definition check_child ::
  "ModuleBindings \<Rightarrow> string \<times> PortDelegation \<Rightarrow> (string \<times> bool) set \<Rightarrow> BindingError + (string \<times> bool) set" where
  "check_child b nc delegated = (case nc of (name, child) \<Rightarrow>
     and_then (require (segment name \<and> \<not> dot_segment name) ''invalid owned child name'')
       (try_for (check_delegated b) (delegated_ports child) delegated))"

definition validate_delegations :: "ModuleBindings \<Rightarrow> BindingError + unit" where
  "validate_delegations b = rbind (try_for (check_child b) (mb_children b) {}) (\<lambda>_. Inr ())"

definition ModuleBindings_validate :: "ModuleBindings \<Rightarrow> BindingError + unit" where
  "ModuleBindings_validate b =
     and_then (require (mb_version b = MODULE_BINDINGS_VERSION) ''unsupported module bindings version'')
    (and_then (validate_namespace (mb_namespace b))
    (and_then (validate_namespace (mb_endpoint_namespace b))
    (and_then (require (mb_namespace b = mb_endpoint_namespace b
                 \<or> is_some_and (\<lambda>child. child \<noteq> [] \<and> CHR ''/'' \<notin> set child)
                     (strip_prefix (mb_endpoint_namespace b @ ''/owned/'') (mb_namespace b)))
                 ''endpoint namespace must be the module or its owning host'')
    (and_then (require (mb_namespace b = mb_endpoint_namespace b \<or> mb_children b = [])
                 ''owned children cannot delegate endpoints'')
    (rbind (try_for check_executable (mb_executables b) {}) (\<lambda>_.
     rbind (try_for check_input (mb_inputs b) []) (\<lambda>_.
     rbind (try_for check_output (mb_outputs b) ()) (\<lambda>_.
       validate_delegations b))))))))"

section \<open>What the validators accept\<close>

lemma require_Inr [res_simps]: "require c m = Inr u \<longleftrightarrow> c"
  by (cases u) (simp add: require_def)

lemma and_then_Inr [res_simps]: "and_then r k = Inr v \<longleftrightarrow> r = Inr () \<and> k = Inr v"
  by (simp add: and_then_def res_simps)

lemma try_for_append: "try_for body (xs @ ys) s = rbind (try_for body xs s) (try_for body ys)"
proof (induction xs arbitrary: s)
  case (Cons x xs)
  then show ?case
    by (cases "body x s") auto
qed simp

text \<open>A loop that collects what it sees and refuses a repetition. The sources have three of them:
  executables, the delegated endpoints, and the sources of one input.\<close>

locale unique_loop =
  fixes body :: "'x \<Rightarrow> 'x set \<Rightarrow> 'e + 'x set" and admissible :: "'x \<Rightarrow> bool"
  assumes body_Inr: "body x s = Inr s' \<longleftrightarrow> admissible x \<and> x \<notin> s \<and> s' = insert x s"
begin

lemma loop_Inr:
  "try_for body xs s = Inr s' \<longleftrightarrow>
     (\<forall>x \<in> set xs. admissible x) \<and> distinct xs \<and> set xs \<inter> s = {} \<and> s' = set xs \<union> s"
proof (induction xs arbitrary: s)
  case (Cons x xs)
  show ?case
    by (auto simp: res_simps body_Inr Cons.IH)
qed auto

lemma loop_accepts:
  "(\<exists>s'. try_for body xs {} = Inr s') \<longleftrightarrow> (\<forall>x \<in> set xs. admissible x) \<and> distinct xs"
  by (simp add: loop_Inr)

end

interpretation executables: unique_loop check_executable segment
  by unfold_locales (auto simp: check_executable_def res_simps segment_def)

definition declared_port :: "ModuleBindings \<Rightarrow> string \<times> bool \<Rightarrow> bool" where
  "declared_port b pi \<longleftrightarrow> (if snd pi then bt_contains (mb_inputs b) (fst pi) else bt_contains (mb_outputs b) (fst pi))"

interpretation delegated: unique_loop "check_delegated b" "declared_port b" for b
  by unfold_locales (auto simp: check_delegated_def declared_port_def res_simps split: prod.splits)

lemma split_on_sep: "split_on d (a @ d # b) = split_on d a @ split_on d b"
  by (induction a) (auto split: list.splits)

lemma split_on_plain: "d \<notin> set s \<Longrightarrow> split_on d s = [s]"
  by (induction s) auto

definition namespace_ok :: "string \<Rightarrow> bool" where
  "namespace_ok s \<longleftrightarrow> (\<forall>part \<in> set (split_on CHR ''/'' s). segment part)"

lemma validate_namespace_Inr [res_simps]: "validate_namespace s = Inr u \<longleftrightarrow> namespace_ok s"
  by (auto simp: validate_namespace_def namespace_ok_def res_simps list_all_iff segment_def)

lemma validate_port_name_Inr [res_simps]: "validate_port_name s = Inr u \<longleftrightarrow> segment s"
  by (simp add: validate_port_name_def res_simps)

lemma namespace_ok_append: "namespace_ok (a @ CHR ''/'' # b) \<longleftrightarrow> namespace_ok a \<and> namespace_ok b"
  by (auto simp: namespace_ok_def split_on_sep)

lemma segment_no_slash: "segment s \<Longrightarrow> CHR ''/'' \<notin> set s"
  by (auto simp: segment_def list_ex_iff)

lemma namespace_ok_plain: "CHR ''/'' \<notin> set s \<Longrightarrow> namespace_ok s \<longleftrightarrow> segment s"
  by (simp add: namespace_ok_def split_on_plain)

lemma strip_prefix_Some: "strip_prefix p s = Some r \<longleftrightarrow> s = p @ r"
  by (auto simp: strip_prefix_def) (metis append_take_drop_id)

lemma is_some_and_iff: "is_some_and P x \<longleftrightarrow> (\<exists>v. x = Some v \<and> P v)"
  by (cases x) auto

text \<open>An owned child's namespace is its host's followed by \<open>owned\<close> and one segment.\<close>

definition owned_by :: "string \<Rightarrow> string \<Rightarrow> bool" where
  "owned_by host s \<longleftrightarrow> (\<exists>child. segment child \<and> s = host @ ''/owned/'' @ child)"

lemma owned_check:
  assumes "namespace_ok s"
  shows "is_some_and (\<lambda>child. child \<noteq> [] \<and> CHR ''/'' \<notin> set child) (strip_prefix (host @ ''/owned/'') s)
     \<longleftrightarrow> owned_by host s"
proof -
  have "segment c" if "s = host @ ''/owned/'' @ c" "CHR ''/'' \<notin> set c" for c
  proof -
    have s: "s = (host @ ''/owned'') @ CHR ''/'' # c"
      using that(1) by simp
    show ?thesis
      using assms unfolding s namespace_ok_append by (simp add: namespace_ok_plain that(2))
  qed
  then show ?thesis
    by (auto simp: is_some_and_iff strip_prefix_Some owned_by_def segment_no_slash segment_def)
qed

section \<open>The specification of valid bindings\<close>

definition stream_defaults :: "EndpointContract \<Rightarrow> bool" where
  "stream_defaults c \<longleftrightarrow> ec_qos c = Qos_Default \<and> ec_retention c = Retention_Volatile
     \<and> ec_replay c = Replay_Live \<and> ec_buffer c = Buffer_Fifo"

text \<open>A concrete endpoint contract: named types, non-blank assertions, and only the policies its
  direction and operation own.\<close>

definition contract_ok :: "bool \<Rightarrow> EndpointContract \<Rightarrow> bool" where
  "contract_ok input c \<longleftrightarrow>
     (\<forall>(k, v) \<in> set (ec_semantics c). trim k \<noteq> [] \<and> trim v \<noteq> []) \<and> type_name_ok (ec_type_name c)
     \<and> (case ec_kind c of
          Kind_Rpc \<Rightarrow> stream_defaults c \<and> (\<exists>r. ec_response c = Some r \<and> type_name_ok r)
        | Kind_Stream \<Rightarrow> ec_response c = None
            \<and> (if input then ec_qos c = Qos_Default \<and> ec_retention c = Retention_Volatile
                  \<and> (\<forall>depth. ec_buffer c = Buffer_Latest depth \<longrightarrow> 0 < depth)
               else ec_replay c = Replay_Live \<and> ec_buffer c = Buffer_Fifo))"

lemma contract_validate_Inr [res_simps]: "EndpointContract_validate c input = Inr u \<longleftrightarrow> contract_ok input c"
proof -
  have depth: "(\<forall>d. ec_buffer c = Buffer_Latest d \<longrightarrow> 0 < d) \<longleftrightarrow> ec_buffer c \<noteq> Buffer_Latest 0"
    by auto
  show ?thesis
    unfolding EndpointContract_validate_def contract_ok_def depth validate_semantics_def
      stream_defaults_def and_then_Inr require_Inr
    by (cases "ec_kind c") (auto simp: res_simps is_some_and_iff list_all_iff)
qed

definition address_ok :: "EndpointAddress \<Rightarrow> bool" where
  "address_ok a \<longleftrightarrow> namespace_ok (ea_namespace a) \<and> segment (ea_port a)"

lemma address_validate_Inr [res_simps]: "EndpointAddress_validate a = Inr u \<longleftrightarrow> address_ok a"
  by (simp add: EndpointAddress_validate_def address_ok_def res_simps)

definition input_ok :: "string \<times> InputBinding \<Rightarrow> bool" where
  "input_ok np \<longleftrightarrow> segment (fst np) \<and> contract_ok True (ib_contract (snd np))
     \<and> ib_sources (snd np) \<noteq> [] \<and> distinct (ib_sources (snd np))
     \<and> (\<forall>a \<in> set (ib_sources (snd np)). address_ok a)
     \<and> (ec_kind (ib_contract (snd np)) = Kind_Rpc \<longrightarrow> length (ib_sources (snd np)) = 1)"

definition output_ok :: "string \<times> OutputBinding \<Rightarrow> bool" where
  "output_ok np \<longleftrightarrow> segment (fst np) \<and> contract_ok False (ob_contract (snd np))"

text \<open>Inputs that share a source agree on its type, response, operation and semantics.\<close>

definition sources_agree :: "(string \<times> InputBinding) list \<Rightarrow> bool" where
  "sources_agree ins \<longleftrightarrow> (\<forall>np \<in> set ins. \<forall>mq \<in> set ins.
     set (ib_sources (snd np)) \<inter> set (ib_sources (snd mq)) \<noteq> {} \<longrightarrow>
       source_contract_of (ib_contract (snd np)) = source_contract_of (ib_contract (snd mq)))"

definition delegations_ok :: "ModuleBindings \<Rightarrow> bool" where
  "delegations_ok b \<longleftrightarrow> (\<forall>(name, child) \<in> set (mb_children b). segment name)
     \<and> (\<forall>(name, child) \<in> set (mb_children b). \<forall>pi \<in> set (delegated_ports child). declared_port b pi)
     \<and> distinct (concat (map (delegated_ports \<circ> snd) (mb_children b)))"

definition bindings_ok :: "ModuleBindings \<Rightarrow> bool" where
  "bindings_ok b \<longleftrightarrow> mb_version b = 3
     \<and> namespace_ok (mb_namespace b) \<and> namespace_ok (mb_endpoint_namespace b)
     \<and> (mb_namespace b = mb_endpoint_namespace b
         \<or> owned_by (mb_endpoint_namespace b) (mb_namespace b) \<and> mb_children b = [])
     \<and> (\<forall>e \<in> set (mb_executables b). segment e) \<and> distinct (mb_executables b)
     \<and> (\<forall>np \<in> set (mb_inputs b). input_ok np) \<and> sources_agree (mb_inputs b)
     \<and> (\<forall>np \<in> set (mb_outputs b). output_ok np) \<and> delegations_ok b"

section \<open>The loops meet the specification\<close>

definition record_sources :: "source_contract \<Rightarrow> EndpointAddress list \<Rightarrow> addresses \<Rightarrow> addresses" where
  "record_sources c srcs A = fold (\<lambda>a. bt_insert a c) srcs A"

definition compatible :: "addresses \<Rightarrow> source_contract \<Rightarrow> EndpointAddress list \<Rightarrow> bool" where
  "compatible A c srcs \<longleftrightarrow> (\<forall>a \<in> set srcs. \<forall>p. bt_get A a = Some p \<longrightarrow> p = c)"

lemma record_sources_wf: "bt_wf A \<Longrightarrow> bt_wf (record_sources c srcs A)"
  by (induction srcs arbitrary: A) (auto simp: record_sources_def)

lemma record_sources_get:
  "bt_wf A \<Longrightarrow> bt_get (record_sources c srcs A) a = (if a \<in> set srcs then Some c else bt_get A a)"
  by (induction srcs arbitrary: A) (auto simp: record_sources_def bt_get_insert)

lemma check_source_Inr:
  "check_source c a (u, A) = Inr st \<longleftrightarrow> address_ok a \<and> a \<notin> u \<and> compatible A (source_contract_of c) [a]
     \<and> st = (insert a u, bt_insert a (source_contract_of c) A)"
  by (auto simp: check_source_def compatible_def res_simps split: option.splits)

lemma check_sources_Inr:
  "bt_wf A \<Longrightarrow> try_for (check_source c) srcs (u, A) = Inr st \<longleftrightarrow>
     (\<forall>a \<in> set srcs. address_ok a) \<and> distinct srcs \<and> set srcs \<inter> u = {}
     \<and> compatible A (source_contract_of c) srcs
     \<and> st = (set srcs \<union> u, record_sources (source_contract_of c) srcs A)"
proof (induction srcs arbitrary: u A)
  case (Cons a srcs)
  have "compatible (bt_insert a (source_contract_of c) A) (source_contract_of c) srcs
      \<longleftrightarrow> compatible A (source_contract_of c) (filter (\<lambda>x. x \<noteq> a) srcs)"
    using Cons.prems by (auto simp: compatible_def bt_get_insert)
  then show ?case
    using Cons.IH [of "bt_insert a (source_contract_of c) A" "insert a u"] Cons.prems
    by (auto simp: res_simps check_source_Inr record_sources_def compatible_def)
qed (auto simp: compatible_def record_sources_def)

lemma check_input_Inr:
  assumes "bt_wf A"
  shows "check_input np A = Inr A' \<longleftrightarrow> input_ok np
     \<and> compatible A (source_contract_of (ib_contract (snd np))) (ib_sources (snd np))
     \<and> A' = record_sources (source_contract_of (ib_contract (snd np))) (ib_sources (snd np)) A"
  using assms
  by (auto simp: check_input_def input_ok_def res_simps check_sources_Inr split: prod.splits)

lemma ball_pairs_insert:
  assumes "R a a" and "\<And>x y. R x y \<Longrightarrow> R y x"
  shows "(\<forall>x \<in> insert a S. \<forall>y \<in> insert a S. R x y) \<longleftrightarrow> (\<forall>x \<in> S. \<forall>y \<in> S. R x y) \<and> (\<forall>y \<in> S. R a y)"
  using assms by blast

lemma sources_agree_Cons:
  "sources_agree (np # ins) \<longleftrightarrow> sources_agree ins
     \<and> (\<forall>mq \<in> set ins. set (ib_sources (snd np)) \<inter> set (ib_sources (snd mq)) \<noteq> {} \<longrightarrow>
       source_contract_of (ib_contract (snd np)) = source_contract_of (ib_contract (snd mq)))"
  unfolding sources_agree_def list.set(2) by (rule ball_pairs_insert) auto

lemma check_inputs_Inr:
  assumes "bt_wf A"
  shows "(\<exists>A'. try_for check_input ins A = Inr A') \<longleftrightarrow>
     (\<forall>np \<in> set ins. input_ok np) \<and> sources_agree ins
     \<and> (\<forall>np \<in> set ins. compatible A (source_contract_of (ib_contract (snd np))) (ib_sources (snd np)))"
  using assms
proof (induction ins arbitrary: A)
  case (Cons np ins)
  let ?c = "\<lambda>np. source_contract_of (ib_contract (snd np))"
  let ?A = "record_sources (?c np) (ib_sources (snd np)) A"
  have wf: "bt_wf ?A"
    by (simp add: Cons.prems record_sources_wf)
  have step: "(\<exists>A'. try_for check_input (np # ins) A = Inr A') \<longleftrightarrow>
      input_ok np \<and> compatible A (?c np) (ib_sources (snd np)) \<and> (\<exists>A'. try_for check_input ins ?A = Inr A')"
    by (auto simp: res_simps check_input_Inr [OF Cons.prems])
  have moved: "compatible ?A (?c mq) (ib_sources (snd mq)) \<longleftrightarrow>
      (set (ib_sources (snd np)) \<inter> set (ib_sources (snd mq)) \<noteq> {} \<longrightarrow> ?c np = ?c mq)
      \<and> compatible A (?c mq) (ib_sources (snd mq))"
    if "compatible A (?c np) (ib_sources (snd np))" for mq :: "string \<times> InputBinding"
    using that unfolding compatible_def record_sources_get [OF Cons.prems]
    by (auto simp del: split_paired_All split: if_splits)
  show ?case
    unfolding step Cons.IH [OF wf] sources_agree_Cons
    by (cases "compatible A (?c np) (ib_sources (snd np))") (simp_all add: moved, blast)
qed (simp add: sources_agree_def)

lemma check_outputs_Inr:
  "try_for check_output outs () = Inr u \<longleftrightarrow> (\<forall>np \<in> set outs. output_ok np)"
  by (induction outs) (auto simp: res_simps check_output_def output_ok_def split: prod.splits)

lemma check_children_Inr:
  "try_for (check_child b) cs s = Inr s' \<longleftrightarrow> (\<forall>(name, child) \<in> set cs. segment name)
     \<and> try_for (check_delegated b) (concat (map (delegated_ports \<circ> snd) cs)) s = Inr s'"
proof (induction cs arbitrary: s)
  case (Cons nc cs)
  have "check_child b nc s = Inr t \<longleftrightarrow>
      segment (fst nc) \<and> try_for (check_delegated b) (delegated_ports (snd nc)) s = Inr t" for t
    by (auto simp: check_child_def res_simps segment_def split: prod.splits)
  then show ?case
    by (auto simp: res_simps Cons.IH try_for_append split: prod.splits)
qed simp

lemma validate_delegations_Inr [res_simps]: "validate_delegations b = Inr u \<longleftrightarrow> delegations_ok b"
  by (auto simp: validate_delegations_def res_simps check_children_Inr delegated.loop_Inr delegations_ok_def)

lemma bindings_validate_Inr [res_simps]: "ModuleBindings_validate b = Inr u \<longleftrightarrow> bindings_ok b"
proof -
  have rb: "(\<exists>x. r = Inr x \<and> Q) \<longleftrightarrow> (\<exists>x. r = Inr x) \<and> Q" for r :: "BindingError + 'x" and Q
    by blast
  have "ModuleBindings_validate b = Inr u \<longleftrightarrow>
      mb_version b = 3 \<and> namespace_ok (mb_namespace b) \<and> namespace_ok (mb_endpoint_namespace b)
      \<and> (mb_namespace b = mb_endpoint_namespace b \<or> owned_by (mb_endpoint_namespace b) (mb_namespace b))
      \<and> (mb_namespace b = mb_endpoint_namespace b \<or> mb_children b = [])
      \<and> (\<exists>s. try_for check_executable (mb_executables b) {} = Inr s)
      \<and> (\<exists>A. try_for check_input (mb_inputs b) [] = Inr A)
      \<and> (\<exists>v. try_for check_output (mb_outputs b) () = Inr v) \<and> delegations_ok b"
    unfolding ModuleBindings_validate_def MODULE_BINDINGS_VERSION_def and_then_Inr require_Inr
      rbind_Inr_iff rb validate_namespace_Inr validate_delegations_Inr
    using owned_check [of "mb_namespace b" "mb_endpoint_namespace b"] by blast
  also have "\<dots> \<longleftrightarrow> bindings_ok b"
    unfolding executables.loop_accepts check_inputs_Inr [OF bt_wf_Nil] check_outputs_Inr bindings_ok_def
    by (auto simp: compatible_def)
  finally show ?thesis .
qed

end
