(* ===== verification/Bindings_Report.thy ===== *)
theory Bindings_Report
  imports Bindings
begin

text \<open>
  Admission of compiled module reports and of closed graphs of them
  (\<^verbatim>\<open>crates/reiny-core/src/bindings/report.rs\<close>, with the report types of
  \<^verbatim>\<open>bindings.rs\<close>). A map index of the source (\<^verbatim>\<open>actual[name]\<close>) panics on an absent key, so
  a failure is either a panic or a reported error; that no panic occurs is a theorem of
  \<^verbatim>\<open>Bindings_Correct\<close>. The specification of an admitted report and graph follows the code.
\<close>

section \<open>Data\<close>

record ResponseReport =
  rr_type_name :: string
  rr_schema :: u64

datatype PortEndpoint = Endpoint_Input "EndpointAddress list" | Endpoint_Output EndpointAddress

record PortReport =
  pr_endpoint :: PortEndpoint
  pr_type_name :: string
  pr_schema :: u64
  pr_contract :: EndpointContract
  pr_response :: "ResponseReport option"

record ModuleReport =
  mr_version :: u32
  mr_fingerprint_version :: u16
  mr_namespace :: string
  mr_endpoint_namespace :: string
  mr_inputs :: "(string, PortReport) btree"
  mr_outputs :: "(string, PortReport) btree"

record ReportEntry =
  re_bindings :: ModuleBindings
  re_report :: ModuleReport

datatype ReportErrorCode =
    Code_EmptyGraph | Code_InvalidBindings | Code_UnsupportedGraphMember | Code_DuplicateNamespace
  | Code_ReportVersion | Code_FingerprintVersion | Code_Namespace | Code_EndpointNamespace
  | Code_PortSet | Code_Endpoint | Code_Contract | Code_Type | Code_Response
  | Code_MissingSourceModule | Code_MissingSourcePort | Code_Schema | Code_Policy | Code_Semantics

datatype ReportPortSide = Side_Input | Side_Output

record ReportError =
  err_code :: ReportErrorCode
  err_module :: "string option"
  err_side :: "ReportPortSide option"
  err_port :: "string option"
  err_source :: "EndpointAddress option"
  err_detail :: string

datatype failure = Panic | Rejected ReportError

definition ReportError_new :: "ReportErrorCode \<Rightarrow> string option \<Rightarrow> string \<Rightarrow> ReportError" where
  "ReportError_new code module_name detail =
     \<lparr>err_code = code, err_module = module_name, err_side = None, err_port = None, err_source = None,
      err_detail = detail\<rparr>"

definition ReportError_at :: "ReportPortSide \<Rightarrow> string \<Rightarrow> ReportError \<Rightarrow> ReportError" where
  "ReportError_at side port e = e\<lparr>err_side := Some side, err_port := Some port\<rparr>"

text \<open>The derived \<open>Debug\<close> of an error code is its name.\<close>

fun code_debug :: "ReportErrorCode \<Rightarrow> string" where
  "code_debug Code_EmptyGraph = ''EmptyGraph''"
| "code_debug Code_InvalidBindings = ''InvalidBindings''"
| "code_debug Code_UnsupportedGraphMember = ''UnsupportedGraphMember''"
| "code_debug Code_DuplicateNamespace = ''DuplicateNamespace''"
| "code_debug Code_ReportVersion = ''ReportVersion''"
| "code_debug Code_FingerprintVersion = ''FingerprintVersion''"
| "code_debug Code_Namespace = ''Namespace''"
| "code_debug Code_EndpointNamespace = ''EndpointNamespace''"
| "code_debug Code_PortSet = ''PortSet''"
| "code_debug Code_Endpoint = ''Endpoint''"
| "code_debug Code_Contract = ''Contract''"
| "code_debug Code_Type = ''Type''"
| "code_debug Code_Response = ''Response''"
| "code_debug Code_MissingSourceModule = ''MissingSourceModule''"
| "code_debug Code_MissingSourcePort = ''MissingSourcePort''"
| "code_debug Code_Schema = ''Schema''"
| "code_debug Code_Policy = ''Policy''"
| "code_debug Code_Semantics = ''Semantics''"

definition ReportError_fmt :: "ReportError \<Rightarrow> string" where
  "ReportError_fmt e = code_debug (err_code e)
     @ (case err_module e of Some m \<Rightarrow> '' in '' @ m | None \<Rightarrow> [])
     @ (case err_port e of
          Some port \<Rightarrow> '' '' @ (case err_side e of
              Some Side_Input \<Rightarrow> ''input'' | Some Side_Output \<Rightarrow> ''output'' | None \<Rightarrow> ''port'') @ '' '' @ port
        | None \<Rightarrow> [])
     @ (case err_source e of
          Some s \<Rightarrow> '' from '' @ ea_namespace s @ ''/'' @ ea_port s
        | None \<Rightarrow> [])
     @ '': '' @ err_detail e"

section \<open>One report\<close>

text \<open>The ports a module declares on one side, with the sources of an input.\<close>

definition declared_ports ::
  "ModuleBindings \<Rightarrow> ReportPortSide \<Rightarrow> (string \<times> EndpointContract \<times> EndpointAddress list option) list" where
  "declared_ports b side =
     map (\<lambda>(name, binding). (name, ib_contract binding, Some (ib_sources binding)))
       (filter (\<lambda>_. side = Side_Input) (mb_inputs b))
   @ map (\<lambda>(name, binding). (name, ob_contract binding, None))
       (filter (\<lambda>_. side = Side_Output) (mb_outputs b))"

definition actual_ports :: "ModuleReport \<Rightarrow> ReportPortSide \<Rightarrow> (string, PortReport) btree" where
  "actual_ports r side = (case side of Side_Input \<Rightarrow> mr_inputs r | Side_Output \<Rightarrow> mr_outputs r)"

definition is_declared :: "ModuleBindings \<Rightarrow> ReportPortSide \<Rightarrow> string \<Rightarrow> bool" where
  "is_declared b side name = (case side of
     Side_Input \<Rightarrow> bt_contains (mb_inputs b) name | Side_Output \<Rightarrow> bt_contains (mb_outputs b) name)"

definition min_option :: "string option \<Rightarrow> string option \<Rightarrow> string option" where
  "min_option x y = (case x of None \<Rightarrow> y | Some a \<Rightarrow> (case y of None \<Rightarrow> x | Some b \<Rightarrow> Some (min a b)))"

definition endpoint_matches ::
  "ModuleBindings \<Rightarrow> string \<Rightarrow> PortEndpoint \<Rightarrow> EndpointAddress list option \<Rightarrow> bool" where
  "endpoint_matches b name endpoint sources = (case (endpoint, sources) of
       (Endpoint_Input actual, Some expected) \<Rightarrow> actual = expected
     | (Endpoint_Output address, None) \<Rightarrow>
         ea_namespace address = mb_endpoint_namespace b \<and> ea_port address = name
     | _ \<Rightarrow> False)"

definition response_matches :: "EndpointContract \<Rightarrow> ResponseReport option \<Rightarrow> bool" where
  "response_matches c response = (case (ec_kind c, ec_response c, response) of
       (Kind_Stream, None, None) \<Rightarrow> True
     | (Kind_Rpc, Some expected, Some actual) \<Rightarrow> expected = rr_type_name actual
     | _ \<Rightarrow> False)"

definition port_error :: "ModuleBindings \<Rightarrow> ReportPortSide \<Rightarrow> ReportErrorCode \<Rightarrow> string \<Rightarrow> string \<Rightarrow> failure" where
  "port_error b side code name detail =
     Rejected (ReportError_at side name (ReportError_new code (Some (mb_namespace b)) detail))"

definition check_report_port ::
  "ModuleBindings \<Rightarrow> ReportPortSide \<Rightarrow> (string, PortReport) btree
    \<Rightarrow> string \<times> EndpointContract \<times> EndpointAddress list option \<Rightarrow> unit \<Rightarrow> failure + unit" where
  "check_report_port b side actual d _ = (case d of (name, contract, sources) \<Rightarrow>
     (case bt_get actual name of
        None \<Rightarrow> Inl Panic
      | Some port \<Rightarrow>
          if \<not> endpoint_matches b name (pr_endpoint port) sources then
            Inl (port_error b side Code_Endpoint name ''compiled endpoint differs from its binding'')
          else if pr_contract port \<noteq> contract then
            Inl (port_error b side Code_Contract name ''effective contract differs from its declaration'')
          else if pr_type_name port \<noteq> ec_type_name contract then
            Inl (port_error b side Code_Type name ''compiled message or request name differs'')
          else if \<not> response_matches contract (pr_response port) then
            Inl (port_error b side Code_Response name ''compiled response shape or name differs'')
          else Inr ()))"

definition validate_ports :: "ModuleBindings \<Rightarrow> ModuleReport \<Rightarrow> ReportPortSide \<Rightarrow> failure + unit" where
  "validate_ports b r side = (let
       actual = actual_ports r side;
       declared = declared_ports b side;
       missing = map_option fst (find (\<lambda>d. \<not> bt_contains actual (fst d)) declared);
       extra = find (\<lambda>name. \<not> is_declared b side name) (map fst actual)
     in case min_option missing extra of
          Some name \<Rightarrow> Inl (port_error b side Code_PortSet name ''declared and compiled port sets differ'')
        | None \<Rightarrow> try_for (check_report_port b side actual) declared ())"

definition module_error :: "ModuleBindings \<Rightarrow> ReportErrorCode \<Rightarrow> string \<Rightarrow> failure" where
  "module_error b code detail = Rejected (ReportError_new code (Some (mb_namespace b)) detail)"

fun binding_message :: "BindingError \<Rightarrow> string" where
  "binding_message (BindingError m) = m"

definition identity_checks :: "ModuleBindings \<Rightarrow> ModuleReport \<Rightarrow> (bool \<times> ReportErrorCode \<times> string) list" where
  "identity_checks b r =
     [(mr_version r = MODULE_REPORT_VERSION, Code_ReportVersion, ''unsupported report version''),
      (mr_fingerprint_version r = SCHEMA_FINGERPRINT_VERSION, Code_FingerprintVersion,
        ''unsupported fingerprint version''),
      (mr_namespace r = mb_namespace b, Code_Namespace, ''report namespace differs from bindings''),
      (mr_endpoint_namespace r = mb_endpoint_namespace b, Code_EndpointNamespace,
        ''report endpoint namespace differs from bindings'')]"

definition validate_report :: "ModuleBindings \<Rightarrow> ModuleReport \<Rightarrow> failure + unit" where
  "validate_report b r =
     and_then (map_err (\<lambda>e. module_error b Code_InvalidBindings (binding_message e)) (ModuleBindings_validate b))
    (and_then (try_for (\<lambda>(valid, code, detail) _. if \<not> valid then Inl (module_error b code detail) else Inr ())
        (identity_checks b r) ())
    (and_then (validate_ports b r Side_Input) (validate_ports b r Side_Output)))"

section \<open>A closed graph\<close>

type_synonym modules = "(string, ModuleReport) btree"

definition register_module :: "ReportEntry \<Rightarrow> modules \<Rightarrow> failure + modules" where
  "register_module e modules = (let b = re_bindings e in
     if mb_namespace b \<noteq> mb_endpoint_namespace b then
       Inl (module_error b Code_UnsupportedGraphMember ''aggregate an owned child's report into its parent'')
     else if bt_contains modules (mb_namespace b) then
       Inl (module_error b Code_DuplicateNamespace ''module namespace is repeated'')
     else Inr (bt_insert (mb_namespace b) (re_report e) modules))"

definition edge_error :: "ModuleBindings \<Rightarrow> string \<Rightarrow> EndpointAddress \<Rightarrow> ReportErrorCode \<Rightarrow> string \<Rightarrow> failure" where
  "edge_error b name address code detail =
     Rejected ((ReportError_at Side_Input name (ReportError_new code (Some (mb_namespace b)) detail))
       \<lparr>err_source := Some address\<rparr>)"

definition compare_responses ::
  "(ReportErrorCode \<Rightarrow> string \<Rightarrow> failure) \<Rightarrow> ResponseReport option \<Rightarrow> ResponseReport option \<Rightarrow> failure + unit" where
  "compare_responses err i out = (case (i, out) of
       (None, None) \<Rightarrow> Inr ()
     | (Some expected, Some actual) \<Rightarrow>
         if rr_type_name expected \<noteq> rr_type_name actual then
           Inl (err Code_Response ''source response name differs'')
         else if rr_schema expected \<noteq> rr_schema actual then
           Inl (err Code_Schema ''source response fingerprint differs'')
         else Inr ()
     | _ \<Rightarrow> Inl (err Code_Response ''source response shape differs''))"

definition compare_replay ::
  "(ReportErrorCode \<Rightarrow> string \<Rightarrow> failure) \<Rightarrow> Replay \<Rightarrow> Retention \<Rightarrow> failure + unit" where
  "compare_replay err replay retention = (case (replay, retention) of
       (Replay_Last, Retention_Volatile) \<Rightarrow> Inl (err Code_Policy ''source does not retain replayable samples'')
     | _ \<Rightarrow> Inr ())"

definition check_edge ::
  "modules \<Rightarrow> ModuleBindings \<Rightarrow> string \<Rightarrow> PortReport \<Rightarrow> EndpointAddress \<Rightarrow> unit \<Rightarrow> failure + unit" where
  "check_edge modules b name i address _ = (let err = edge_error b name address in
     rbind (ok_or (bt_get modules (ea_namespace address)) (err Code_MissingSourceModule ''source module is absent''))
       (\<lambda>source. rbind (ok_or (bt_get (mr_outputs source) (ea_port address))
            (err Code_MissingSourcePort ''source output is absent''))
       (\<lambda>out.
          if pr_type_name i \<noteq> pr_type_name out then
            Inl (err Code_Type ''source message or request name differs'')
          else if pr_schema i \<noteq> pr_schema out then
            Inl (err Code_Schema ''source message or request fingerprint differs'')
          else if ec_kind (pr_contract i) \<noteq> ec_kind (pr_contract out) then
            Inl (err Code_Policy ''source endpoint kind differs'')
          else if ec_semantics (pr_contract i) \<noteq> ec_semantics (pr_contract out) then
            Inl (err Code_Semantics ''source semantic assertions differ'')
          else and_then (compare_responses err (pr_response i) (pr_response out))
            (compare_replay err (ec_replay (pr_contract i)) (ec_retention (pr_contract out))))))"

definition check_input_edges ::
  "modules \<Rightarrow> ReportEntry \<Rightarrow> string \<times> InputBinding \<Rightarrow> unit \<Rightarrow> failure + unit" where
  "check_input_edges modules e np _ = (case np of (name, binding) \<Rightarrow>
     (case bt_get (mr_inputs (re_report e)) name of
        None \<Rightarrow> Inl Panic
      | Some i \<Rightarrow> try_for (check_edge modules (re_bindings e) name i) (ib_sources binding) ()))"

definition validate_graph :: "ReportEntry list \<Rightarrow> failure + unit" where
  "validate_graph entries =
     (if entries = [] then
        Inl (Rejected (ReportError_new Code_EmptyGraph None ''a closed graph requires a module''))
      else and_then (try_for (\<lambda>e _. validate_report (re_bindings e) (re_report e)) entries ())
        (rbind (try_for register_module entries []) (\<lambda>modules.
           try_for (\<lambda>e. try_for (check_input_edges modules e) (mb_inputs (re_bindings e))) entries ())))"

section \<open>Lemmas on the loops\<close>

lemma try_for_unit_Inr: "try_for body xs () = Inr u \<longleftrightarrow> (\<forall>x \<in> set xs. body x () = Inr ())"
  by (induction xs) (auto simp: res_simps)

lemma try_for_unit_Inl: "try_for body xs () = Inl e \<Longrightarrow> \<exists>x \<in> set xs. body x () = Inl e"
proof (induction xs)
  case (Cons x xs)
  then show ?case
    by (cases "body x ()") auto
qed simp

lemma find_None: "find P xs = None \<longleftrightarrow> (\<forall>x \<in> set xs. \<not> P x)"
  by (auto simp: find_None_iff)

text \<open>\<open>find\<close> over entries in key order returns the least matching key.\<close>

lemma find_sorted_Min:
  assumes "sorted_wrt (<) (map f xs)" and "find (\<lambda>x. Q (f x)) xs = Some x"
  shows "f x = Min {k \<in> f ` set xs. Q k}"
proof -
  from assms(2) obtain i where i: "i < length xs" "Q (f (xs ! i))" "x = xs ! i"
    and before: "\<forall>j < i. \<not> Q (f (xs ! j))"
    by (auto simp: find_Some_iff)
  have "f x \<le> k" if k: "k \<in> {k \<in> f ` set xs. Q k}" for k
  proof -
    from k obtain j where j: "j < length xs" "k = f (xs ! j)" "Q (f (xs ! j))"
      by (auto simp: in_set_conv_nth)
    with before have "i \<le> j"
      by (meson not_less)
    then show ?thesis
      using assms(1) i j by (cases "i = j") (auto simp: sorted_wrt_iff_nth_less intro!: less_imp_le)
  qed
  then show ?thesis
    using i by (intro Min_eqI [symmetric]) auto
qed

section \<open>The specification of an admitted report\<close>

definition implements :: "EndpointContract \<Rightarrow> PortReport \<Rightarrow> bool" where
  "implements c p \<longleftrightarrow> pr_contract p = c \<and> pr_type_name p = ec_type_name c
     \<and> map_option rr_type_name (pr_response p) = ec_response c"

definition inputs_reported :: "ModuleBindings \<Rightarrow> ModuleReport \<Rightarrow> bool" where
  "inputs_reported b r \<longleftrightarrow> fst ` set (mr_inputs r) = fst ` set (mb_inputs b)
     \<and> (\<forall>(name, ib) \<in> set (mb_inputs b). \<exists>p. bt_get (mr_inputs r) name = Some p
          \<and> pr_endpoint p = Endpoint_Input (ib_sources ib) \<and> implements (ib_contract ib) p)"

definition outputs_reported :: "ModuleBindings \<Rightarrow> ModuleReport \<Rightarrow> bool" where
  "outputs_reported b r \<longleftrightarrow> fst ` set (mr_outputs r) = fst ` set (mb_outputs b)
     \<and> (\<forall>(name, ob) \<in> set (mb_outputs b). \<exists>p. bt_get (mr_outputs r) name = Some p
          \<and> pr_endpoint p = Endpoint_Output (EndpointAddress (mb_endpoint_namespace b) name)
          \<and> implements (ob_contract ob) p)"

definition report_ok :: "ModuleBindings \<Rightarrow> ModuleReport \<Rightarrow> bool" where
  "report_ok b r \<longleftrightarrow> bindings_ok b \<and> mr_version r = 3 \<and> mr_fingerprint_version r = 2
     \<and> mr_namespace r = mb_namespace b \<and> mr_endpoint_namespace r = mb_endpoint_namespace b
     \<and> inputs_reported b r \<and> outputs_reported b r"

lemma response_matches_iff:
  "contract_ok input c \<Longrightarrow> response_matches c resp \<longleftrightarrow> map_option rr_type_name resp = ec_response c"
  by (auto simp: contract_ok_def response_matches_def split: PortKind.splits option.splits)

lemma endpoint_matches_iff:
  "endpoint_matches b name ep (Some s) \<longleftrightarrow> ep = Endpoint_Input s"
  "endpoint_matches b name ep None \<longleftrightarrow> ep = Endpoint_Output (EndpointAddress (mb_endpoint_namespace b) name)"
  by (auto simp: endpoint_matches_def intro: EndpointAddress.expand split: PortEndpoint.splits)

lemma check_report_port_Inr:
  assumes "contract_ok input c"
  shows "check_report_port b side actual (name, c, s) u = Inr v \<longleftrightarrow>
     (\<exists>p. bt_get actual name = Some p \<and> endpoint_matches b name (pr_endpoint p) s \<and> implements c p)"
  using assms
  by (auto simp: check_report_port_def implements_def response_matches_iff split: option.splits)

lemma declared_ports_names:
  "fst ` set (declared_ports b side) = {name. is_declared b side name}"
  by (cases side) (auto simp: declared_ports_def is_declared_def bt_simps image_iff, force+)

lemma min_option_None: "min_option x y = None \<longleftrightarrow> x = None \<and> y = None"
  by (auto simp: min_option_def split: option.splits)

lemma port_sets_agree:
  "min_option (map_option fst (find (\<lambda>d. \<not> bt_contains (actual_ports r side) (fst d)) (declared_ports b side)))
       (find (\<lambda>name. \<not> is_declared b side name) (map fst (actual_ports r side))) = None
   \<longleftrightarrow> fst ` set (actual_ports r side) = {name. is_declared b side name}"
proof -
  have "(\<forall>d \<in> set (declared_ports b side). bt_contains (actual_ports r side) (fst d))
      \<longleftrightarrow> {name. is_declared b side name} \<subseteq> fst ` set (actual_ports r side)"
    unfolding declared_ports_names [symmetric] image_subset_iff bt_simps ..
  moreover have "(\<forall>name \<in> set (map fst (actual_ports r side)). is_declared b side name)
      \<longleftrightarrow> fst ` set (actual_ports r side) \<subseteq> {name. is_declared b side name}"
    by auto
  ultimately show ?thesis
    unfolding min_option_None option.map_disc_iff find_None not_not by blast
qed

lemma validate_ports_Inr:
  "validate_ports b r side = Inr u \<longleftrightarrow>
     fst ` set (actual_ports r side) = {name. is_declared b side name}
     \<and> (\<forall>d \<in> set (declared_ports b side). check_report_port b side (actual_ports r side) d () = Inr ())"
  unfolding port_sets_agree [symmetric]
  by (simp add: validate_ports_def Let_def try_for_unit_Inr split: option.splits)

lemma validate_inputs_Inr:
  assumes "bindings_ok b"
  shows "validate_ports b r Side_Input = Inr u \<longleftrightarrow> inputs_reported b r"
proof -
  have "check_report_port b Side_Input (mr_inputs r) (name, ib_contract ib, Some (ib_sources ib)) () = Inr () \<longleftrightarrow>
      (\<exists>p. bt_get (mr_inputs r) name = Some p \<and> pr_endpoint p = Endpoint_Input (ib_sources ib)
        \<and> implements (ib_contract ib) p)" if "(name, ib) \<in> set (mb_inputs b)" for name ib
    using assms that by (subst check_report_port_Inr [of True]) (auto simp: bindings_ok_def input_ok_def endpoint_matches_iff)
  then show ?thesis
    by (auto simp: validate_ports_Inr inputs_reported_def actual_ports_def is_declared_def bt_simps
        declared_ports_def)
qed

lemma validate_outputs_Inr:
  assumes "bindings_ok b"
  shows "validate_ports b r Side_Output = Inr u \<longleftrightarrow> outputs_reported b r"
proof -
  have "check_report_port b Side_Output (mr_outputs r) (name, ob_contract ob, None) () = Inr () \<longleftrightarrow>
      (\<exists>p. bt_get (mr_outputs r) name = Some p
        \<and> pr_endpoint p = Endpoint_Output (EndpointAddress (mb_endpoint_namespace b) name)
        \<and> implements (ob_contract ob) p)" if "(name, ob) \<in> set (mb_outputs b)" for name ob
    using assms that by (subst check_report_port_Inr [of False]) (auto simp: bindings_ok_def output_ok_def endpoint_matches_iff)
  then show ?thesis
    by (auto simp: validate_ports_Inr outputs_reported_def actual_ports_def is_declared_def bt_simps
        declared_ports_def)
qed

lemma validate_report_Inr: "validate_report b r = Inr u \<longleftrightarrow> report_ok b r"
  unfolding validate_report_def report_ok_def and_then_Inr map_err_Inr_iff bindings_validate_Inr
  by (auto simp: res_simps identity_checks_def MODULE_REPORT_VERSION_def SCHEMA_FINGERPRINT_VERSION_def
      validate_inputs_Inr validate_outputs_Inr split: if_splits)

section \<open>The specification of an admitted graph\<close>

definition edge_ok :: "PortReport \<Rightarrow> PortReport \<Rightarrow> bool" where
  "edge_ok i out \<longleftrightarrow> pr_type_name i = pr_type_name out \<and> pr_schema i = pr_schema out
     \<and> ec_kind (pr_contract i) = ec_kind (pr_contract out)
     \<and> ec_semantics (pr_contract i) = ec_semantics (pr_contract out)
     \<and> pr_response i = pr_response out
     \<and> (ec_replay (pr_contract i) = Replay_Last \<longrightarrow> ec_retention (pr_contract out) = Retention_Last)"

definition source_provided :: "ReportEntry list \<Rightarrow> PortReport \<Rightarrow> EndpointAddress \<Rightarrow> bool" where
  "source_provided entries i a \<longleftrightarrow> (\<exists>src \<in> set entries. mb_namespace (re_bindings src) = ea_namespace a
     \<and> (\<exists>out. bt_get (mr_outputs (re_report src)) (ea_port a) = Some out \<and> edge_ok i out))"

definition edges_ok :: "ReportEntry list \<Rightarrow> bool" where
  "edges_ok entries \<longleftrightarrow> (\<forall>e \<in> set entries. \<forall>(name, ib) \<in> set (mb_inputs (re_bindings e)).
     \<exists>i. bt_get (mr_inputs (re_report e)) name = Some i
       \<and> (\<forall>a \<in> set (ib_sources ib). source_provided entries i a))"

definition graph_ok :: "ReportEntry list \<Rightarrow> bool" where
  "graph_ok entries \<longleftrightarrow> entries \<noteq> []
     \<and> (\<forall>e \<in> set entries. report_ok (re_bindings e) (re_report e)
          \<and> mb_namespace (re_bindings e) = mb_endpoint_namespace (re_bindings e))
     \<and> distinct (map (mb_namespace \<circ> re_bindings) entries) \<and> edges_ok entries"

definition module_map :: "ReportEntry list \<Rightarrow> modules \<Rightarrow> modules" where
  "module_map entries m = fold (\<lambda>e. bt_insert (mb_namespace (re_bindings e)) (re_report e)) entries m"

lemma register_modules_Inr:
  "bt_wf m \<Longrightarrow> try_for register_module entries m = Inr m' \<longleftrightarrow>
     (\<forall>e \<in> set entries. mb_namespace (re_bindings e) = mb_endpoint_namespace (re_bindings e)
        \<and> bt_get m (mb_namespace (re_bindings e)) = None)
     \<and> distinct (map (mb_namespace \<circ> re_bindings) entries) \<and> m' = module_map entries m"
proof (induction entries arbitrary: m)
  case (Cons e entries)
  let ?ns = "\<lambda>e. mb_namespace (re_bindings e)"
  let ?m = "bt_insert (?ns e) (re_report e) m"
  have "register_module e m = Inr x \<longleftrightarrow>
      ?ns e = mb_endpoint_namespace (re_bindings e) \<and> bt_get m (?ns e) = None \<and> x = ?m" for x
    by (auto simp: register_module_def Let_def bt_contains_def)
  then have "try_for register_module (e # entries) m = Inr m' \<longleftrightarrow>
      ?ns e = mb_endpoint_namespace (re_bindings e) \<and> bt_get m (?ns e) = None
      \<and> try_for register_module entries ?m = Inr m'"
    by (auto simp: res_simps)
  moreover have "bt_get ?m (?ns x) = None \<longleftrightarrow> ?ns x \<noteq> ?ns e \<and> bt_get m (?ns x) = None" for x :: ReportEntry
    using Cons.prems by (simp add: bt_get_insert)
  moreover have "module_map (e # entries) m = module_map entries ?m"
    by (simp add: module_map_def)
  ultimately show ?case
    using Cons.IH [of ?m] Cons.prems by (simp add: image_iff) metis
qed (auto simp: module_map_def)

lemma module_map_get:
  "bt_wf m \<Longrightarrow> distinct (map (mb_namespace \<circ> re_bindings) entries) \<Longrightarrow>
   bt_get (module_map entries m) ns = Some r \<longleftrightarrow>
     (\<exists>e \<in> set entries. mb_namespace (re_bindings e) = ns \<and> re_report e = r)
     \<or> (\<forall>e \<in> set entries. mb_namespace (re_bindings e) \<noteq> ns) \<and> bt_get m ns = Some r"
proof (induction entries arbitrary: m)
  case (Cons e entries)
  let ?m = "bt_insert (mb_namespace (re_bindings e)) (re_report e) m"
  show ?case
    using Cons.IH [of ?m] Cons.prems
    by (auto simp: module_map_def bt_get_insert image_iff)
qed (simp add: module_map_def)

lemma compare_responses_Inr [res_simps]: "compare_responses err i out = Inr u \<longleftrightarrow> i = out"
  by (auto simp: compare_responses_def split: option.splits)

lemma compare_replay_Inr [res_simps]:
  "compare_replay err i out = Inr u \<longleftrightarrow> (i = Replay_Last \<longrightarrow> out = Retention_Last)"
  by (cases i; cases out) (auto simp: compare_replay_def)

lemma check_edge_Inr:
  "check_edge m b name i a u = Inr v \<longleftrightarrow>
     (\<exists>src out. bt_get m (ea_namespace a) = Some src \<and> bt_get (mr_outputs src) (ea_port a) = Some out \<and> edge_ok i out)"
  by (auto simp: check_edge_def Let_def edge_ok_def res_simps)

lemma check_input_edges_Inr:
  "check_input_edges m e np u = Inr v \<longleftrightarrow>
     (\<exists>i. bt_get (mr_inputs (re_report e)) (fst np) = Some i
       \<and> (\<forall>a \<in> set (ib_sources (snd np)). check_edge m (re_bindings e) (fst np) i a () = Inr ()))"
  by (auto simp: check_input_edges_def try_for_unit_Inr split: option.splits prod.splits)

lemma edges_Inr:
  assumes "distinct (map (mb_namespace \<circ> re_bindings) entries)"
  shows "try_for (\<lambda>e. try_for (check_input_edges (module_map entries []) e) (mb_inputs (re_bindings e))) entries ()
     = Inr u \<longleftrightarrow> edges_ok entries"
proof -
  have "check_edge (module_map entries []) b name i a () = Inr () \<longleftrightarrow> source_provided entries i a"
    for b name i a
    unfolding check_edge_Inr source_provided_def module_map_get [OF bt_wf_Nil assms] by auto
  then show ?thesis
    unfolding edges_ok_def try_for_unit_Inr check_input_edges_Inr by (simp add: case_prod_beta)
qed

lemma validate_graph_Inr: "validate_graph entries = Inr u \<longleftrightarrow> graph_ok entries"
proof -
  have reports: "try_for (\<lambda>e _. validate_report (re_bindings e) (re_report e)) entries () = Inr () \<longleftrightarrow>
      (\<forall>e \<in> set entries. report_ok (re_bindings e) (re_report e))"
    by (simp add: try_for_unit_Inr validate_report_Inr)
  have "validate_graph entries = Inr u \<longleftrightarrow> entries \<noteq> []
      \<and> (\<forall>e \<in> set entries. report_ok (re_bindings e) (re_report e))
      \<and> (\<exists>m. try_for register_module entries [] = Inr m
          \<and> try_for (\<lambda>e. try_for (check_input_edges m e) (mb_inputs (re_bindings e))) entries () = Inr u)"
    by (simp add: validate_graph_def res_simps reports)
  then show ?thesis
    using edges_Inr [of entries u] by (auto simp: register_modules_Inr graph_ok_def)
qed

section \<open>No panics\<close>

lemma validate_ports_no_panic: "validate_ports b r side \<noteq> Inl Panic"
proof
  assume panic: "validate_ports b r side = Inl Panic"
  then have agree: "fst ` set (actual_ports r side) = {name. is_declared b side name}"
    unfolding port_sets_agree [symmetric]
    by (auto simp: validate_ports_def Let_def port_error_def split: option.splits)
  then have "try_for (check_report_port b side (actual_ports r side)) (declared_ports b side) () = Inl Panic"
    using panic unfolding port_sets_agree [symmetric] by (simp add: validate_ports_def Let_def)
  then obtain d where d: "d \<in> set (declared_ports b side)" "check_report_port b side (actual_ports r side) d () = Inl Panic"
    using try_for_unit_Inl by fastforce
  then have "bt_get (actual_ports r side) (fst d) = None"
    by (auto simp: check_report_port_def port_error_def split: prod.splits option.splits if_splits)
  moreover have "bt_contains (actual_ports r side) (fst d)"
    using d(1) agree declared_ports_names [of b side] by (auto simp: bt_simps)
  ultimately show False
    by (simp add: bt_contains_def)
qed

end
