(* ===== verification/Bindings_Correct.thy ===== *)
theory Bindings_Correct
  imports Bindings_Report
begin

text \<open>
  The properties of the binding, report and graph validators: what each accepts, stated over the
  specifications \<open>bindings_ok\<close>, \<open>report_ok\<close> and \<open>graph_ok\<close>, which error is reported first, that no
  index panics, and what an admitted graph guarantees to every module in it. The example is a camera
  that publishes a retained stream and serves an RPC, and a viewer that reads and calls it.
\<close>

section \<open>An example graph\<close>

definition ex_frame_contract :: EndpointContract where
  "ex_frame_contract = EndpointContract_default\<lparr>ec_type_name := ''cam.Frame'',
     ec_semantics := [(''clock'', ''mono'')]\<rparr>"

definition ex_zoom_contract :: EndpointContract where
  "ex_zoom_contract = EndpointContract_default\<lparr>ec_type_name := ''cam.Zoom'', ec_kind := Kind_Rpc,
     ec_response := Some ''cam.Done''\<rparr>"

definition ex_camera :: ModuleBindings where
  "ex_camera = \<lparr>mb_version = 3, mb_namespace = ''app/cam'', mb_endpoint_namespace = ''app/cam'',
     mb_inputs = [],
     mb_outputs = [(''frames'', \<lparr>ob_contract = ex_frame_contract\<lparr>ec_retention := Retention_Last\<rparr>\<rparr>),
                   (''zoom'', \<lparr>ob_contract = ex_zoom_contract\<rparr>)],
     mb_children = [(''lens'', \<lparr>pd_inputs = [], pd_outputs = [''zoom'']\<rparr>),
                    (''sensor'', \<lparr>pd_inputs = [], pd_outputs = [''frames'']\<rparr>)],
     mb_executables = [''camera'']\<rparr>"

definition ex_viewer :: ModuleBindings where
  "ex_viewer = \<lparr>mb_version = 3, mb_namespace = ''app/view'', mb_endpoint_namespace = ''app/view'',
     mb_inputs = [(''live'', \<lparr>ib_contract = ex_frame_contract\<lparr>ec_replay := Replay_Last, ec_buffer := Buffer_Latest 2\<rparr>,
                     ib_sources = [EndpointAddress ''app/cam'' ''frames'']\<rparr>),
                  (''zoom'', \<lparr>ib_contract = ex_zoom_contract, ib_sources = [EndpointAddress ''app/cam'' ''zoom'']\<rparr>)],
     mb_outputs = [], mb_children = [], mb_executables = []\<rparr>"

definition ex_port :: "PortEndpoint \<Rightarrow> EndpointContract \<Rightarrow> PortReport" where
  "ex_port ep c = \<lparr>pr_endpoint = ep, pr_type_name = ec_type_name c, pr_schema = 7, pr_contract = c,
     pr_response = map_option (\<lambda>t. \<lparr>rr_type_name = t, rr_schema = 9\<rparr>) (ec_response c)\<rparr>"

text \<open>The report that implements given bindings.\<close>

definition ex_report :: "ModuleBindings \<Rightarrow> ModuleReport" where
  "ex_report b = \<lparr>mr_version = 3, mr_fingerprint_version = 2, mr_namespace = mb_namespace b,
     mr_endpoint_namespace = mb_endpoint_namespace b,
     mr_inputs = map (\<lambda>(n, ib). (n, ex_port (Endpoint_Input (ib_sources ib)) (ib_contract ib))) (mb_inputs b),
     mr_outputs = map (\<lambda>(n, ob). (n, ex_port (Endpoint_Output (EndpointAddress (mb_endpoint_namespace b) n))
        (ob_contract ob))) (mb_outputs b)\<rparr>"

definition ex_graph :: "ReportEntry list" where
  "ex_graph = [\<lparr>re_bindings = ex_viewer, re_report = ex_report ex_viewer\<rparr>,
               \<lparr>re_bindings = ex_camera, re_report = ex_report ex_camera\<rparr>]"

lemma ex_camera_valid: "ModuleBindings_validate ex_camera = Inr ()"
  by code_simp

lemma ex_graph_valid: "validate_graph ex_graph = Inr ()"
  by code_simp

section \<open>Bindings\<close>

lemma distinct_concat_nth:
  "distinct (concat xss) \<Longrightarrow> i < length xss \<Longrightarrow> j < length xss \<Longrightarrow> x \<in> set (xss ! i) \<Longrightarrow> x \<in> set (xss ! j) \<Longrightarrow> i = j"
proof (induction xss arbitrary: i j)
  case (Cons xs xss)
  then show ?case
    by (cases i; cases j) (fastforce dest: nth_mem)+
qed simp

text \<open>C18. \<open>ModuleBindings::validate\<close> accepts exactly the bindings of the specification: version 3,
  well-formed namespaces, an endpoint namespace that is the module's own or that of the host owning
  it, distinct executables, inputs with distinct well-formed sources and only the policies an input
  owns, agreement of inputs that share a source, outputs with only the policies an output owns, and
  delegations of declared endpoints, none of them twice.\<close>

theorem bindings_validate_exact: "ModuleBindings_validate b = Inr () \<longleftrightarrow> bindings_ok b"
  by (rule bindings_validate_Inr)

text \<open>Delegation is exclusive: in accepted bindings no endpoint of the host is owned by two
  children, nor twice by one child, and every delegated name is one the host declares.\<close>

theorem delegation_exclusive:
  assumes "ModuleBindings_validate b = Inr ()"
    and "i < length (mb_children b)" and "j < length (mb_children b)"
    and "(port, input) \<in> set (delegated_ports (snd (mb_children b ! i)))"
    and "(port, input) \<in> set (delegated_ports (snd (mb_children b ! j)))"
  shows "i = j \<and> distinct (delegated_ports (snd (mb_children b ! i)))
    \<and> (if input then bt_contains (mb_inputs b) port else bt_contains (mb_outputs b) port)"
proof -
  let ?ds = "map (delegated_ports \<circ> snd) (mb_children b)"
  from assms(1) have ok: "delegations_ok b"
    by (simp add: res_simps bindings_ok_def)
  then have d: "distinct (concat ?ds)"
    by (simp add: delegations_ok_def)
  have "i = j"
    using distinct_concat_nth [OF d, of i j "(port, input)"] assms(2-5) by simp
  moreover have "distinct (?ds ! i)"
    using d assms(2) by (auto simp: distinct_concat_iff)
  moreover have "declared_port b (port, input)"
    using ok assms(2,4) by (force simp: delegations_ok_def dest!: nth_mem)
  ultimately show ?thesis
    using assms(2) by (auto simp: declared_port_def)
qed

theorem delegation_exclusive_witness:
  "ModuleBindings_validate ex_camera = Inr ()
   \<and> distinct (delegated_ports (snd (mb_children ex_camera ! 1))) \<and> bt_contains (mb_outputs ex_camera) ''frames''"
  using delegation_exclusive [of ex_camera 1 1 "''frames''" False] ex_camera_valid
  by (simp add: ex_camera_def delegated_ports_def)

section \<open>Reports\<close>

text \<open>\<open>validate_report\<close> accepts exactly the reports that implement valid bindings: the supported
  versions, the module's identities, the declared port names and no other, and for every port the
  declared sources or the module's own address, the declared contract, type and response.\<close>

theorem validate_report_exact: "validate_report b r = Inr () \<longleftrightarrow> report_ok b r"
  by (rule validate_report_Inr)

definition port_difference :: "ModuleBindings \<Rightarrow> ModuleReport \<Rightarrow> ReportPortSide \<Rightarrow> string set" where
  "port_difference b r side =
     {n. is_declared b side n \<and> \<not> bt_contains (actual_ports r side) n}
     \<union> {n. \<not> is_declared b side n \<and> bt_contains (actual_ports r side) n}"

lemma declared_ports_fst:
  "map fst (declared_ports b side) =
     (case side of Side_Input \<Rightarrow> map fst (mb_inputs b) | Side_Output \<Rightarrow> map fst (mb_outputs b))"
  by (cases side) (simp_all add: declared_ports_def comp_def case_prod_beta)

lemma find_sorted_option:
  assumes "sorted_wrt (<) (map f xs)"
  shows "map_option f (find (\<lambda>x. Q (f x)) xs) =
    (if {k \<in> f ` set xs. Q k} = {} then None else Some (Min {k \<in> f ` set xs. Q k}))"
proof (cases "find (\<lambda>x. Q (f x)) xs")
  case None
  then show ?thesis
    by (auto simp: find_None)
next
  case (Some x)
  then have "f x \<in> {k \<in> f ` set xs. Q k}"
    by (auto simp: find_Some_iff)
  then show ?thesis
    using Some find_sorted_Min [OF assms Some] by auto
qed

lemma min_option_Min:
  assumes "finite M" "finite E" "M \<union> E \<noteq> {}"
  shows "min_option (if M = {} then None else Some (Min M)) (if E = {} then None else Some (Min E))
    = Some (Min (M \<union> E))"
  using assms by (auto simp: min_option_def Min_Un)

text \<open>When declared and compiled port names differ, the error names the lexically least port
  on which they do, whether it is missing or undeclared.\<close>

theorem port_set_least:
  assumes "bt_wf (mb_inputs b)" and "bt_wf (mb_outputs b)" and "bt_wf (mr_inputs r)" and "bt_wf (mr_outputs r)"
    and "port_difference b r side \<noteq> {}"
  shows "validate_ports b r side = Inl (Rejected \<lparr>err_code = Code_PortSet, err_module = Some (mb_namespace b),
      err_side = Some side, err_port = Some (Min (port_difference b r side)), err_source = None,
      err_detail = ''declared and compiled port sets differ''\<rparr>)"
proof -
  let ?A = "actual_ports r side" and ?D = "declared_ports b side"
  let ?M = "{k \<in> fst ` set ?D. \<not> bt_contains ?A k}" and ?E = "{k \<in> set (map fst ?A). \<not> is_declared b side k}"
  have sorted: "sorted_wrt (<) (map fst ?D)" "sorted_wrt (<) (map (\<lambda>x. x) (map fst ?A))"
    using assms(1-4) by (cases side; simp add: declared_ports_fst actual_ports_def bt_wf_def)+
  have diff: "port_difference b r side = ?M \<union> ?E"
    by (auto simp: port_difference_def declared_ports_names bt_simps)
  have m: "map_option fst (find (\<lambda>d. \<not> bt_contains ?A (fst d)) ?D) = (if ?M = {} then None else Some (Min ?M))"
    by (rule find_sorted_option [OF sorted(1), of "\<lambda>k. \<not> bt_contains ?A k"])
  have e: "find (\<lambda>name. \<not> is_declared b side name) (map fst ?A) = (if ?E = {} then None else Some (Min ?E))"
    using find_sorted_option [OF sorted(2), of "\<lambda>k. \<not> is_declared b side k"]
    unfolding image_ident option.map_ident .
  have "min_option (map_option fst (find (\<lambda>d. \<not> bt_contains ?A (fst d)) ?D))
      (find (\<lambda>name. \<not> is_declared b side name) (map fst ?A)) = Some (Min (port_difference b r side))"
    unfolding m e diff by (rule min_option_Min) (use assms(5) diff in auto)
  then show ?thesis
    by (simp add: validate_ports_def port_error_def ReportError_new_def ReportError_at_def)
qed

theorem port_set_least_witness:
  "validate_ports ex_viewer (ex_report ex_camera) Side_Input = Inl (Rejected \<lparr>err_code = Code_PortSet,
      err_module = Some ''app/view'', err_side = Some Side_Input, err_port = Some ''live'', err_source = None,
      err_detail = ''declared and compiled port sets differ''\<rparr>)"
proof -
  have d: "port_difference ex_viewer (ex_report ex_camera) Side_Input = {''live'', ''zoom''}"
    by (auto simp: port_difference_def ex_viewer_def ex_camera_def ex_report_def is_declared_def
        actual_ports_def bt_contains_def bt_get_def)
  have wf: "bt_wf (mb_inputs ex_viewer)" "bt_wf (mb_outputs ex_viewer)"
    "bt_wf (mr_inputs (ex_report ex_camera))" "bt_wf (mr_outputs (ex_report ex_camera))"
    by code_simp+
  show ?thesis
    using port_set_least [OF wf, of Side_Input] d by (simp add: ex_viewer_def)
qed

lemma rbind_Inl_iff: "rbind r f = Inl e \<longleftrightarrow> r = Inl e \<or> (\<exists>x. r = Inr x \<and> f x = Inl e)"
  by (cases r) auto

lemma and_then_Inl_iff: "and_then r k = Inl e \<longleftrightarrow> r = Inl e \<or> r = Inr () \<and> k = Inl e"
  by (auto simp: and_then_def rbind_Inl_iff)

lemma validate_report_no_panic: "validate_report b r \<noteq> Inl Panic"
proof -
  have "try_for (\<lambda>(valid, code, detail) _. if \<not> valid then Inl (module_error b code detail) else Inr ())
      cs () \<noteq> Inl Panic" for cs
    by (auto simp: module_error_def dest!: try_for_unit_Inl split: if_splits)
  moreover have "map_err (\<lambda>e. module_error b Code_InvalidBindings (binding_message e)) x \<noteq> Inl Panic"
    for x :: "BindingError + unit"
    by (cases x) (auto simp: module_error_def)
  ultimately show ?thesis
    by (simp add: validate_report_def and_then_Inl_iff validate_ports_no_panic)
qed

lemma register_no_panic: "try_for register_module entries m \<noteq> Inl Panic"
proof (induction entries arbitrary: m)
  case (Cons e entries)
  then show ?case
    by (auto simp: rbind_Inl_iff register_module_def Let_def module_error_def split: if_splits)
qed simp

lemma check_edge_no_panic: "check_edge m b name i a u \<noteq> Inl Panic"
  by (auto simp: check_edge_def Let_def rbind_Inl_iff and_then_Inl_iff edge_error_def ok_or_def
      compare_responses_def compare_replay_def split: option.splits if_splits Replay.splits Retention.splits)

lemma edges_no_panic:
  assumes "report_ok (re_bindings e) (re_report e)"
  shows "try_for (check_input_edges m e) (mb_inputs (re_bindings e)) () \<noteq> Inl Panic"
proof
  assume "try_for (check_input_edges m e) (mb_inputs (re_bindings e)) () = Inl Panic"
  then obtain name ib where np: "(name, ib) \<in> set (mb_inputs (re_bindings e))"
    and panic: "check_input_edges m e (name, ib) () = Inl Panic"
    by (auto dest!: try_for_unit_Inl)
  obtain i where "bt_get (mr_inputs (re_report e)) name = Some i"
    using assms np by (force simp: report_ok_def inputs_reported_def)
  with panic show False
    by (auto simp: check_input_edges_def check_edge_no_panic dest!: try_for_unit_Inl)
qed

text \<open>No input makes the validators panic: neither the index into a reported port map nor the
  one on the edges of a graph meets an absent key.\<close>

theorem validate_no_panic: "validate_report b r \<noteq> Inl Panic \<and> validate_graph entries \<noteq> Inl Panic"
proof -
  have "validate_graph entries \<noteq> Inl Panic"
  proof
    assume panic: "validate_graph entries = Inl Panic"
    have reports: "try_for (\<lambda>e _. validate_report (re_bindings e) (re_report e)) entries () \<noteq> Inl Panic"
      using validate_report_no_panic by (auto dest!: try_for_unit_Inl)
    from panic reports obtain m where
      ok: "\<forall>e \<in> set entries. report_ok (re_bindings e) (re_report e)"
      and "try_for (\<lambda>e. try_for (check_input_edges m e) (mb_inputs (re_bindings e))) entries () = Inl Panic"
      by (auto simp: validate_graph_def and_then_Inl_iff rbind_Inl_iff register_no_panic try_for_unit_Inr
          validate_report_Inr split: if_splits)
    then show False
      using edges_no_panic by (blast dest: try_for_unit_Inl)
  qed
  then show ?thesis
    by (simp add: validate_report_no_panic)
qed

section \<open>Closed graphs\<close>

text \<open>C19. \<open>validate_graph\<close> accepts exactly the closed graphs: at least one module, every report
  admitted, only top-level modules with distinct namespaces, and every source of every input found
  among the outputs of the module it names, with the same type, schema, operation, semantics and
  response, and retained samples where the input replays them.\<close>

theorem validate_graph_exact: "validate_graph entries = Inr () \<longleftrightarrow> graph_ok entries"
  by (rule validate_graph_Inr)

text \<open>In an accepted graph every source of every declared input resolves to exactly one module,
  whose own bindings declare that output; what the two sides declared agrees in type, operation,
  response and semantics, the output retains a sample when the input asks for replay, and the
  compiled schema fingerprints of message and response are equal.\<close>

theorem graph_closed:
  assumes "validate_graph entries = Inr ()" and "e \<in> set entries"
    and "(name, ib) \<in> set (mb_inputs (re_bindings e))" and "a \<in> set (ib_sources ib)"
  shows "\<exists>!src. src \<in> set entries \<and> mb_namespace (re_bindings src) = ea_namespace a
    \<and> (\<exists>ob i out. (ea_port a, ob) \<in> set (mb_outputs (re_bindings src))
        \<and> source_contract_of (ob_contract ob) = source_contract_of (ib_contract ib)
        \<and> (ec_replay (ib_contract ib) = Replay_Last \<longrightarrow> ec_retention (ob_contract ob) = Retention_Last)
        \<and> bt_get (mr_inputs (re_report e)) name = Some i
        \<and> bt_get (mr_outputs (re_report src)) (ea_port a) = Some out
        \<and> pr_schema i = pr_schema out \<and> pr_response i = pr_response out)"
proof -
  from assms(1) have g: "graph_ok entries"
    by (simp add: validate_graph_Inr)
  obtain i where i: "bt_get (mr_inputs (re_report e)) name = Some i" and "source_provided entries i a"
    using g assms(2-4) by (fastforce simp: graph_ok_def edges_ok_def)
  then obtain src out where src: "src \<in> set entries" "mb_namespace (re_bindings src) = ea_namespace a"
    and out: "bt_get (mr_outputs (re_report src)) (ea_port a) = Some out" and edge: "edge_ok i out"
    by (auto simp: source_provided_def)
  have re: "report_ok (re_bindings e) (re_report e)" "report_ok (re_bindings src) (re_report src)"
    using g assms(2) src(1) by (auto simp: graph_ok_def)
  have ib: "implements (ib_contract ib) i"
    using re(1) assms(3) i by (force simp: report_ok_def inputs_reported_def)
  have "ea_port a \<in> fst ` set (mr_outputs (re_report src))"
    using out by (force simp: bt_get_def dest: map_of_SomeD)
  then obtain ob where ob: "(ea_port a, ob) \<in> set (mb_outputs (re_bindings src))"
    using re(2) by (auto simp: report_ok_def outputs_reported_def)
  then have ob': "implements (ob_contract ob) out"
    using re(2) out by (force simp: report_ok_def outputs_reported_def)
  have agree: "source_contract_of (ob_contract ob) = source_contract_of (ib_contract ib)"
    "ec_replay (ib_contract ib) = Replay_Last \<longrightarrow> ec_retention (ob_contract ob) = Retention_Last"
    "pr_schema i = pr_schema out" "pr_response i = pr_response out"
    using ib ob' edge by (auto simp: implements_def edge_ok_def source_contract_of_def)
  have unique: "src' = src" if "src' \<in> set entries" "mb_namespace (re_bindings src') = ea_namespace a" for src'
    using g that src by (auto simp: graph_ok_def distinct_map inj_on_def)
  show ?thesis
    using src ob agree i out unique by (intro ex1I [of _ src]) blast+
qed

theorem graph_closed_witness:
  "\<exists>!src. src \<in> set ex_graph \<and> mb_namespace (re_bindings src) = ''app/cam''
    \<and> (\<exists>ob i out. (''frames'', ob) \<in> set (mb_outputs (re_bindings src))
        \<and> source_contract_of (ob_contract ob) = source_contract_of ex_frame_contract
        \<and> ec_retention (ob_contract ob) = Retention_Last
        \<and> bt_get (mr_inputs (re_report (hd ex_graph))) ''live'' = Some i
        \<and> bt_get (mr_outputs (re_report src)) ''frames'' = Some out
        \<and> pr_schema i = pr_schema out \<and> pr_response i = pr_response out)"
proof -
  let ?e = "\<lparr>re_bindings = ex_viewer, re_report = ex_report ex_viewer\<rparr>"
  let ?ib = "\<lparr>ib_contract = ex_frame_contract\<lparr>ec_replay := Replay_Last, ec_buffer := Buffer_Latest 2\<rparr>,
                     ib_sources = [EndpointAddress ''app/cam'' ''frames'']\<rparr>"
  have e: "?e \<in> set ex_graph" "hd ex_graph = ?e"
    by (simp_all add: ex_graph_def)
  have ib: "(''live'', ?ib) \<in> set (mb_inputs (re_bindings ?e))"
    by (simp add: ex_viewer_def)
  have sc: "source_contract_of (ex_frame_contract\<lparr>ec_replay := Replay_Last, ec_buffer := Buffer_Latest 2\<rparr>)
      = source_contract_of ex_frame_contract"
    by (simp add: source_contract_of_def)
  show ?thesis
    using graph_closed [OF ex_graph_valid e(1) ib, of "EndpointAddress ''app/cam'' ''frames''"] sc
    unfolding e(2) by simp
qed

end
