(* ===== verification/Step_Data.thy ===== *)
theory Step_Data
  imports Bindings
begin

text \<open>
  The data of the logical-time step engine: schema identities and value snapshots
  (\<^verbatim>\<open>crates/reiny/src/step/value.rs\<close>, \<^verbatim>\<open>crates/reiny/src/encoded.rs\<close>), step graphs
  (\<^verbatim>\<open>step/graph.rs\<close>), ticks, failures and clock snapshots (\<^verbatim>\<open>step/status.rs\<close>), and
  \<^verbatim>\<open>core::time::Duration\<close> with its checked addition. Equality of schema identities is the source's
  own \<open>PartialEq\<close>, \<open>step_type_eq\<close>, which does not see whether an identity is compiled or owned.
\<close>

section \<open>Durations\<close>

text \<open>Whole seconds and nanoseconds below one second, the representation of the standard library.\<close>

record Duration =
  dur_secs :: u64
  dur_nanos :: u32

definition NANOS_PER_SEC :: u32 where "NANOS_PER_SEC = 1000000000"

definition Duration_ZERO :: Duration where
  "Duration_ZERO = \<lparr>dur_secs = 0, dur_nanos = 0\<rparr>"

definition duration_wf :: "Duration \<Rightarrow> bool" where
  "duration_wf d \<longleftrightarrow> dur_nanos d < NANOS_PER_SEC"

definition duration_is_zero :: "Duration \<Rightarrow> bool" where
  "duration_is_zero d \<longleftrightarrow> dur_secs d = 0 \<and> dur_nanos d = 0"

definition u64_checked_add :: "u64 \<Rightarrow> u64 \<Rightarrow> u64 option" where
  "u64_checked_add a b = (if unat a + unat b < 2 ^ 64 then Some (a + b) else None)"

definition duration_checked_add :: "Duration \<Rightarrow> Duration \<Rightarrow> Duration option" where
  "duration_checked_add d e =
     (case u64_checked_add (dur_secs d) (dur_secs e) of
        None \<Rightarrow> None
      | Some secs \<Rightarrow>
          (let nanos = dur_nanos d + dur_nanos e in
           if nanos \<ge> NANOS_PER_SEC then
             (case u64_checked_add secs 1 of
                None \<Rightarrow> None
              | Some new_secs \<Rightarrow> Some \<lparr>dur_secs = new_secs, dur_nanos = nanos - NANOS_PER_SEC\<rparr>)
           else Some \<lparr>dur_secs = secs, dur_nanos = nanos\<rparr>))"

definition duration_in_nanos :: "Duration \<Rightarrow> nat" where
  "duration_in_nanos d = unat (dur_secs d) * 10 ^ 9 + unat (dur_nanos d)"

lemma u64_checked_add_Some: "u64_checked_add a b = Some c \<longleftrightarrow> unat a + unat b < 2 ^ 64 \<and> unat c = unat a + unat b"
proof -
  have "unat (a + b) = unat a + unat b" if "unat a + unat b < 2 ^ 64"
    using that by (simp add: unat_word_ariths)
  then show ?thesis
    by (auto simp: u64_checked_add_def word_unat_eq_iff)
qed

text \<open>The overflow test on words, so that evaluation stays in binary.\<close>

lemma u64_checked_add_code [code]: "u64_checked_add a b = (if a \<le> a + b then Some (a + b) else None)"
  by (simp add: u64_checked_add_def no_olen_add_nat)

text \<open>\<open>Duration::checked_add\<close> is exact addition where it is defined, and keeps the representation
  invariant.\<close>

lemma duration_checked_add_exact:
  assumes "duration_wf d" and "duration_wf e" and "duration_checked_add d e = Some s"
  shows "duration_wf s" and "duration_in_nanos s = duration_in_nanos d + duration_in_nanos e"
proof -
  let ?n = "dur_nanos d + dur_nanos e"
  have lt: "unat (dur_nanos d) < 10 ^ 9" "unat (dur_nanos e) < 10 ^ 9"
    using assms(1,2) by (simp_all add: duration_wf_def NANOS_PER_SEC_def word_less_nat_alt)
  then have n: "unat ?n = unat (dur_nanos d) + unat (dur_nanos e)"
    by (simp add: unat_word_ariths)
  obtain secs where secs: "u64_checked_add (dur_secs d) (dur_secs e) = Some secs"
    using assms(3) by (auto simp: duration_checked_add_def split: option.splits)
  have "duration_wf s \<and> duration_in_nanos s = duration_in_nanos d + duration_in_nanos e"
  proof (cases "?n \<ge> NANOS_PER_SEC")
    case True
    then obtain new_secs where ns: "u64_checked_add secs 1 = Some new_secs"
      and s: "s = \<lparr>dur_secs = new_secs, dur_nanos = ?n - NANOS_PER_SEC\<rparr>"
      using assms(3) secs by (auto simp: duration_checked_add_def Let_def split: option.splits)
    have "unat (?n - NANOS_PER_SEC) = unat ?n - 10 ^ 9"
      using True by (simp add: unat_sub NANOS_PER_SEC_def)
    moreover have "10 ^ 9 \<le> unat ?n"
      using True by (simp add: word_le_nat_alt NANOS_PER_SEC_def)
    ultimately show ?thesis
      using secs ns lt n s
      by (auto simp: u64_checked_add_Some duration_wf_def duration_in_nanos_def word_less_nat_alt NANOS_PER_SEC_def)
  next
    case False
    then have "s = \<lparr>dur_secs = secs, dur_nanos = ?n\<rparr>"
      using assms(3) secs by (auto simp: duration_checked_add_def Let_def)
    with False show ?thesis
      using secs n by (auto simp: u64_checked_add_Some duration_wf_def duration_in_nanos_def)
  qed
  then show "duration_wf s" "duration_in_nanos s = duration_in_nanos d + duration_in_nanos e"
    by auto
qed

section \<open>Schema identities and values\<close>

datatype SchemaError = InvalidTypeName | UnsupportedFingerprintVersion u16 u16

record EncodedType =
  et_type_name :: string
  et_fingerprint_version :: u16
  et_fingerprint :: u64

definition ascii_alphabetic :: "char \<Rightarrow> bool" where
  "ascii_alphabetic c \<longleftrightarrow> CHR ''A'' \<le> c \<and> c \<le> CHR ''Z'' \<or> CHR ''a'' \<le> c \<and> c \<le> CHR ''z''"

definition EncodedType_new :: "string \<Rightarrow> u16 \<Rightarrow> u64 \<Rightarrow> SchemaError + EncodedType" where
  "EncodedType_new type_name fingerprint_version fingerprint =
     (if \<not> list_all (\<lambda>part. case part of
               [] \<Rightarrow> False
             | byte # bytes \<Rightarrow> (ascii_alphabetic byte \<or> byte = CHR ''_'')
                 \<and> list_all (\<lambda>b. ascii_alphanumeric b \<or> b = CHR ''_'') bytes)
           (split_on CHR ''.'' type_name)
      then Inl InvalidTypeName
      else if fingerprint_version \<noteq> SCHEMA_FINGERPRINT_VERSION then
        Inl (UnsupportedFingerprintVersion SCHEMA_FINGERPRINT_VERSION fingerprint_version)
      else Inr \<lparr>et_type_name = type_name, et_fingerprint_version = fingerprint_version,
                et_fingerprint = fingerprint\<rparr>)"

record OwnedType =
  ot_type_name :: string
  ot_fingerprint :: u64
  ot_semantics :: "(string, string) btree"

datatype TypeData = Compiled string u64 | Owned OwnedType

datatype StepType = StepType (st_data: TypeData)

text \<open>A message type enters through its two compiled constants.\<close>

definition StepType_of :: "string \<Rightarrow> u64 \<Rightarrow> StepType" where
  "StepType_of NAME FP = StepType (Compiled NAME FP)"

definition from_encoded_type :: "EncodedType \<Rightarrow> SchemaError + StepType" where
  "from_encoded_type ty = Inr (StepType (Owned
     \<lparr>ot_type_name = et_type_name ty, ot_fingerprint = et_fingerprint ty, ot_semantics = []\<rparr>))"

definition StepType_with_semantics :: "StepType \<Rightarrow> (string, string) btree \<Rightarrow> BindingError + StepType" where
  "StepType_with_semantics t semantics =
     and_then (validate_semantics semantics)
       (Inr (StepType (Owned (case st_data t of
          Compiled type_name fingerprint \<Rightarrow>
            \<lparr>ot_type_name = type_name, ot_fingerprint = fingerprint, ot_semantics = semantics\<rparr>
        | Owned data \<Rightarrow> data\<lparr>ot_semantics := semantics\<rparr>))))"

definition st_semantics :: "StepType \<Rightarrow> (string, string) btree" where
  "st_semantics t = (case st_data t of Compiled _ _ \<Rightarrow> [] | Owned data \<Rightarrow> ot_semantics data)"

definition st_type_name :: "StepType \<Rightarrow> string" where
  "st_type_name t = (case st_data t of Compiled type_name _ \<Rightarrow> type_name | Owned data \<Rightarrow> ot_type_name data)"

definition st_fingerprint :: "StepType \<Rightarrow> u64" where
  "st_fingerprint t = (case st_data t of Compiled _ fingerprint \<Rightarrow> fingerprint | Owned data \<Rightarrow> ot_fingerprint data)"

definition step_type_eq :: "StepType \<Rightarrow> StepType \<Rightarrow> bool" where
  "step_type_eq a b \<longleftrightarrow> st_type_name a = st_type_name b \<and> st_fingerprint a = st_fingerprint b
     \<and> st_semantics a = st_semantics b"

lemma step_type_eq_equiv [simp, intro]: "step_type_eq a a"
  and step_type_eq_sym: "step_type_eq a b \<Longrightarrow> step_type_eq b a"
  and step_type_eq_trans: "step_type_eq a b \<Longrightarrow> step_type_eq b c \<Longrightarrow> step_type_eq a c"
  by (simp_all add: step_type_eq_def)

record StepValue =
  sv_step_type :: StepType
  sv_bytes :: bytes

definition StepValue_with_semantics :: "StepValue \<Rightarrow> (string, string) btree \<Rightarrow> BindingError + StepValue" where
  "StepValue_with_semantics v semantics =
     rbind (StepType_with_semantics (sv_step_type v) semantics) (\<lambda>t. Inr (v\<lparr>sv_step_type := t\<rparr>))"

definition from_encoded :: "StepType \<Rightarrow> bytes \<Rightarrow> StepValue" where
  "from_encoded t bs = \<lparr>sv_step_type = t, sv_bytes = bs\<rparr>"

datatype StepValueError = Value_TypeMismatch StepType StepType | Value_Decode string string

text \<open>Protobuf encoding and decoding are the message's own: \<open>encode_to_vec\<close> and \<open>T::decode\<close> are
  arguments, the latter failing with its diagnostic.\<close>

definition StepValue_encode :: "string \<Rightarrow> u64 \<Rightarrow> ('m \<Rightarrow> bytes) \<Rightarrow> 'm \<Rightarrow> StepValue" where
  "StepValue_encode NAME FP encode_to_vec value =
     \<lparr>sv_step_type = StepType_of NAME FP, sv_bytes = encode_to_vec value\<rparr>"

definition StepValue_decode ::
  "string \<Rightarrow> u64 \<Rightarrow> (bytes \<Rightarrow> string + 'm) \<Rightarrow> StepValue \<Rightarrow> StepValueError + 'm" where
  "StepValue_decode NAME FP decode v =
     (let expected = StepType_of NAME FP in
      if st_type_name (sv_step_type v) \<noteq> st_type_name expected
         \<or> st_fingerprint (sv_step_type v) \<noteq> st_fingerprint expected
      then Inl (Value_TypeMismatch expected (sv_step_type v))
      else map_err (\<lambda>e. Value_Decode (st_type_name (sv_step_type v)) e) (decode (sv_bytes v)))"

section \<open>Graphs\<close>

datatype StepInput = StepInput (si_instance: string) (si_port: string)

datatype StepOutput = StepOutput (so_instance: string) (so_port: string)

instantiation StepInput :: linorder
begin

definition less_StepInput :: "StepInput \<Rightarrow> StepInput \<Rightarrow> bool" where
  "less_StepInput a b \<longleftrightarrow> si_instance a < si_instance b \<or> si_instance a = si_instance b \<and> si_port a < si_port b"

definition less_eq_StepInput :: "StepInput \<Rightarrow> StepInput \<Rightarrow> bool" where
  "less_eq_StepInput a b \<longleftrightarrow> si_instance a < si_instance b \<or> si_instance a = si_instance b \<and> si_port a \<le> si_port b"

instance
  by standard (auto simp: less_StepInput_def less_eq_StepInput_def intro: StepInput.expand)

end

instantiation StepOutput :: linorder
begin

definition less_StepOutput :: "StepOutput \<Rightarrow> StepOutput \<Rightarrow> bool" where
  "less_StepOutput a b \<longleftrightarrow> so_instance a < so_instance b \<or> so_instance a = so_instance b \<and> so_port a < so_port b"

definition less_eq_StepOutput :: "StepOutput \<Rightarrow> StepOutput \<Rightarrow> bool" where
  "less_eq_StepOutput a b \<longleftrightarrow> so_instance a < so_instance b \<or> so_instance a = so_instance b \<and> so_port a \<le> so_port b"

instance
  by standard (auto simp: less_StepOutput_def less_eq_StepOutput_def intro: StepOutput.expand)

end

record StepSchema =
  ss_inputs :: "(string, StepType) btree"
  ss_outputs :: "(string, StepType) btree"

datatype StepSource = External | SameTick StepOutput | PreviousTick StepOutput StepValue

record StepGraph =
  sg_nodes :: "(string, StepSchema) btree"
  sg_inputs :: "(StepInput, StepSource) btree"

datatype StepPlanError =
    Plan_EmptyGraph
  | Plan_InvalidInstance string
  | Plan_InvalidPort string string
  | Plan_MissingInput StepInput
  | Plan_UnknownInput StepInput
  | Plan_UnknownSource StepOutput
  | Plan_TypeMismatch StepInput StepType StepType
  | Plan_InitialTypeMismatch StepInput StepType StepType
  | Plan_SameTickCycle "string list"
  | Plan_EpochExhausted

section \<open>Ticks, failures and clocks\<close>

type_synonym EpochId = u64

record StepId =
  id_epoch :: EpochId
  id_index :: u64

record StepTick =
  tick_id :: StepId
  tick_start :: Duration
  tick_dt :: Duration
  tick_end :: Duration

type_synonym StepInputs = "(string, StepValue) btree"
type_synonym StepOutputs = "(string, StepValue) btree"

record StepReceipt =
  rc_tick :: StepTick
  rc_outputs :: "(StepOutput, StepValue) btree"

datatype StepFailureKind =
    Fail_NodeError | Fail_NodePanicked | Fail_InvalidOutputs | Fail_Cancelled | Fail_TimedOut
  | Fail_HostStopped | Fail_WorkerLost | Fail_AdvanceDropped

record StepFailure =
  sf_tick :: StepId
  sf_kind :: StepFailureKind
  sf_instance :: "string option"
  sf_port :: "string option"
  sf_attempted :: "string list"
  sf_completed :: "string list"
  sf_detail :: string

datatype StepRequestError =
    Req_ZeroDt | Req_TimeOverflow | Req_TickOverflow
  | Req_MissingInput StepInput
  | Req_UnexpectedInput StepInput
  | Req_TypeMismatch StepInput StepType StepType

datatype SchedulerError =
    Sched_Request StepRequestError | Sched_Failed StepFailure | Sched_Faulted StepFailure

datatype NodeError = NodeError (ne_message: string)

datatype ClockPhase =
    Phase_Starting | Phase_Ready | Phase_Running StepId | Phase_Faulted StepFailure | Phase_Stopped

record ClockSnapshot =
  cs_epoch :: EpochId
  cs_next_index :: u64
  cs_time :: Duration
  cs_phase :: ClockPhase

section \<open>Snapshots round trip\<close>

lemma encode_decode_value:
  assumes "decode (encode_to_vec m) = Inr m"
  shows "StepValue_decode NAME FP decode (StepValue_encode NAME FP encode_to_vec m) = Inr m"
  using assms by (simp add: StepValue_decode_def StepValue_encode_def)

text \<open>An imported identity is the compiled one: a snapshot taken in another process, imported by
  name and fingerprint, decodes as the native one does.\<close>

lemma imported_value_decodes:
  assumes "EncodedType_new NAME SCHEMA_FINGERPRINT_VERSION FP = Inr et" and "from_encoded_type et = Inr t"
  shows "step_type_eq t (StepType_of NAME FP)"
    and "StepValue_decode NAME FP decode (from_encoded t (encode_to_vec m))
      = StepValue_decode NAME FP decode (StepValue_encode NAME FP encode_to_vec m)"
  using assms
  by (auto simp: EncodedType_new_def from_encoded_type_def step_type_eq_def StepType_of_def from_encoded_def
      st_type_name_def st_fingerprint_def st_semantics_def StepValue_decode_def StepValue_encode_def split: if_splits)

end
