(* ===== verification/Step_Plan.thy ===== *)
theory Step_Plan
  imports Step_Data
begin

text \<open>
  Compilation of a step graph into an execution order (\<^verbatim>\<open>crates/reiny/src/step/plan.rs\<close>): the
  checks on nodes and routes, and the loop that removes one ready node at a time. The specification
  \<open>plan_ok\<close> says which graphs compile; \<open>topological\<close> says what an execution order is, and the
  order produced is the lexically least of them.
\<close>

section \<open>Compilation\<close>

record PlanRoute =
  plr_output :: "StepOutput option"
  plr_initial :: "StepType option"
  plr_same_tick :: bool

record Plan =
  plan_graph :: StepGraph
  plan_order :: "string list"

fun route_of :: "StepSource \<Rightarrow> PlanRoute" where
  "route_of External = \<lparr>plr_output = None, plr_initial = None, plr_same_tick = False\<rparr>"
| "route_of (SameTick output) = \<lparr>plr_output = Some output, plr_initial = None, plr_same_tick = True\<rparr>"
| "route_of (PreviousTick source initial) =
     \<lparr>plr_output = Some source, plr_initial = Some (sv_step_type initial), plr_same_tick = False\<rparr>"

type_synonym nodes = "(string, StepSchema) btree"
type_synonym routes = "(StepInput, PlanRoute) btree"
type_synonym dependencies = "(string, string set) btree"

definition check_node :: "routes \<Rightarrow> string \<times> StepSchema \<Rightarrow> dependencies \<Rightarrow> StepPlanError + dependencies" where
  "check_node inputs node deps = (case node of (inst, schema) \<Rightarrow>
     and_then (map_err (\<lambda>_. Plan_InvalidInstance inst) (validate_namespace inst))
    (and_then (try_for (\<lambda>port _. map_err (\<lambda>_. Plan_InvalidPort inst port) (validate_port_name port))
        (map fst (ss_inputs schema) @ map fst (ss_outputs schema)) ())
    (and_then (try_for (\<lambda>port _. if \<not> bt_contains inputs (StepInput inst port)
          then Inl (Plan_MissingInput (StepInput inst port)) else Inr ()) (map fst (ss_inputs schema)) ())
      (Inr (bt_insert inst {} deps)))))"

definition node_input :: "nodes \<Rightarrow> StepInput \<Rightarrow> StepType option" where
  "node_input nodes i =
     (case bt_get nodes (si_instance i) of None \<Rightarrow> None | Some schema \<Rightarrow> bt_get (ss_inputs schema) (si_port i))"

definition node_output :: "nodes \<Rightarrow> StepOutput \<Rightarrow> StepType option" where
  "node_output nodes out =
     (case bt_get nodes (so_instance out) of None \<Rightarrow> None | Some schema \<Rightarrow> bt_get (ss_outputs schema) (so_port out))"

definition add_dependency :: "string \<Rightarrow> string \<Rightarrow> dependencies \<Rightarrow> dependencies" where
  "add_dependency inst source deps =
     bt_insert inst (insert source (case bt_get deps inst of None \<Rightarrow> {} | Some s \<Rightarrow> s)) deps"

definition check_route ::
  "nodes \<Rightarrow> StepInput \<times> PlanRoute \<Rightarrow> dependencies \<Rightarrow> StepPlanError + dependencies" where
  "check_route nodes ir deps = (case ir of (input, route) \<Rightarrow>
     rbind (ok_or (node_input nodes input) (Plan_UnknownInput input)) (\<lambda>expected.
     and_then (case plr_initial route of
         Some initial \<Rightarrow> if \<not> step_type_eq initial expected
           then Inl (Plan_InitialTypeMismatch input expected initial) else Inr ()
       | None \<Rightarrow> Inr ())
     (case plr_output route of
        None \<Rightarrow> Inr deps
      | Some output \<Rightarrow>
          rbind (ok_or (node_output nodes output) (Plan_UnknownSource output)) (\<lambda>actual.
          if \<not> step_type_eq actual expected then Inl (Plan_TypeMismatch input expected actual)
          else Inr (if plr_same_tick route then add_dependency (si_instance input) (so_instance output) deps
                    else deps)))))"

definition drop_node :: "string \<Rightarrow> dependencies \<Rightarrow> dependencies" where
  "drop_node ready deps = map (\<lambda>(inst, sources). (inst, sources - {ready})) (bt_remove ready deps)"

lemma drop_node_length:
  "(ready, s) \<in> set deps \<Longrightarrow> length (drop_node ready deps) < length deps"
  by (auto simp: drop_node_def bt_remove_def intro!: length_filter_less)

lemma find_ready:
  assumes "find (\<lambda>(_, s). s = {}) deps = Some e"
  shows "e = (fst e, {})" and "e \<in> set deps"
proof -
  from assms obtain i where "i < length deps" "e = deps ! i" "snd e = {}"
    by (auto simp: find_Some_iff case_prod_beta)
  then show "e = (fst e, {})" "e \<in> set deps"
    by (metis prod.collapse, metis nth_mem)
qed

text \<open>The loop of the source, by recursion on the nodes that remain.\<close>

function topo_order :: "dependencies \<Rightarrow> string list \<Rightarrow> StepPlanError + string list" where
  "topo_order deps order =
     (if deps = [] then Inr order
      else case find (\<lambda>(_, sources). sources = {}) deps of
          None \<Rightarrow> Inl (Plan_SameTickCycle (map fst deps))
        | Some (ready, _) \<Rightarrow> topo_order (drop_node ready deps) (order @ [ready]))"
  by pat_completeness auto
termination
  by (relation "measure (length \<circ> fst)") (auto intro: drop_node_length dest: find_ready(2))

declare topo_order.simps [simp del]

text \<open>Equations for evaluation, which unfold only on an evaluated map.\<close>

lemma topo_order_code [code]:
  "topo_order [] order = Inr order"
  "topo_order (d # ds) order =
     (case find (\<lambda>(_, sources). sources = {}) (d # ds) of
        None \<Rightarrow> Inl (Plan_SameTickCycle (map fst (d # ds)))
      | Some (ready, _) \<Rightarrow> topo_order (drop_node ready (d # ds)) (order @ [ready]))"
  by (simp_all add: topo_order.simps)

lemma topo_order_step:
  assumes "topo_order deps acc = Inr order" and "deps \<noteq> []"
  obtains r where "find (\<lambda>(_, s). s = {}) deps = Some (r, {})" and "(r, {}) \<in> set deps"
    and "topo_order (drop_node r deps) (acc @ [r]) = Inr order"
proof -
  from assms obtain r t where f: "find (\<lambda>(_, s). s = {}) deps = Some (r, t)"
    by (subst (asm) topo_order.simps) (auto split: option.splits)
  moreover have "t = {}" "(r, t) \<in> set deps"
    using find_ready [OF f] by simp_all
  moreover have "topo_order (drop_node r deps) (acc @ [r]) = Inr order"
    using assms f by (subst (asm) topo_order.simps) simp
  ultimately show thesis
    using that by blast
qed

definition validate_routes :: "nodes \<Rightarrow> routes \<Rightarrow> StepPlanError + string list" where
  "validate_routes nodes inputs =
     (if nodes = [] then Inl Plan_EmptyGraph
      else rbind (try_for (check_node inputs) nodes []) (\<lambda>deps.
           rbind (try_for (check_route nodes) inputs deps) (\<lambda>deps.
           topo_order deps [])))"

definition Plan_compile :: "StepGraph \<Rightarrow> StepPlanError + Plan" where
  "Plan_compile graph =
     rbind (validate_routes (sg_nodes graph) (map (\<lambda>(input, source). (input, route_of source)) (sg_inputs graph)))
       (\<lambda>order. Inr \<lparr>plan_graph = graph, plan_order = order\<rparr>)"

section \<open>Execution orders\<close>

definition precedes :: "'a list \<Rightarrow> 'a \<Rightarrow> 'a \<Rightarrow> bool" where
  "precedes xs a b \<longleftrightarrow> b \<in> set xs \<and> a \<in> set (takeWhile (\<lambda>x. x \<noteq> b) xs)"

lemma precedes_Nil [simp]: "\<not> precedes [] a b"
  by (simp add: precedes_def)

lemma precedes_Cons: "precedes (x # xs) a b \<longleftrightarrow> x \<noteq> b \<and> (a = x \<and> b \<in> set xs \<or> precedes xs a b)"
  by (cases "x = b") (auto simp: precedes_def)

lemma precedes_in: "precedes xs a b \<Longrightarrow> a \<in> set xs \<and> b \<in> set xs"
  by (auto simp: precedes_def dest: set_takeWhileD)

lemma precedes_irrefl: "\<not> precedes xs a a"
  by (auto simp: precedes_def dest: set_takeWhileD)

lemma precedes_trans: "precedes xs a b \<Longrightarrow> precedes xs b c \<Longrightarrow> precedes xs a c"
  by (induction xs) (auto simp: precedes_Cons dest: precedes_in)

text \<open>An order of exactly the nodes of \<open>deps\<close>, each after its sources.\<close>

definition topological :: "dependencies \<Rightarrow> string list \<Rightarrow> bool" where
  "topological deps ys \<longleftrightarrow> distinct ys \<and> set ys = fst ` set deps
     \<and> (\<forall>(b, s) \<in> set deps. \<forall>a \<in> s. precedes ys a b)"

definition dep_edges :: "dependencies \<Rightarrow> (string \<times> string) set" where
  "dep_edges deps = {(a, b). \<exists>s. (b, s) \<in> set deps \<and> a \<in> s}"

lemma drop_node_entries:
  "(b, t) \<in> set (drop_node r deps) \<longleftrightarrow> b \<noteq> r \<and> (\<exists>s. (b, s) \<in> set deps \<and> t = s - {r})"
  by (auto simp: drop_node_def bt_remove_def)

lemma drop_node_keys: "fst ` set (drop_node r deps) = fst ` set deps - {r}"
  by (force simp: drop_node_def bt_remove_def)

lemma drop_node_wf: "bt_wf deps \<Longrightarrow> bt_wf (drop_node r deps)"
  using bt_wf_remove [of deps r] by (simp add: drop_node_def bt_wf_def comp_def case_prod_beta)

lemma bt_wf_unique: "bt_wf m \<Longrightarrow> (k, v) \<in> set m \<Longrightarrow> (k, w) \<in> set m \<Longrightarrow> v = w"
  by (metis bt.get_Some_iff option.inject)

lemma topological_Cons:
  assumes "bt_wf deps" and "(r, {}) \<in> set deps"
  shows "topological deps (r # ys) \<longleftrightarrow> topological (drop_node r deps) ys"
proof
  assume top: "topological deps (r # ys)"
  have edge: "precedes ys a b" if "(b, s) \<in> set deps" "b \<noteq> r" "a \<in> s" "a \<noteq> r" for a b s
    using top that by (auto simp: topological_def precedes_Cons)
  have "precedes ys a b" if "(b, t) \<in> set (drop_node r deps)" "a \<in> t" for a b t
    using that unfolding drop_node_entries using edge by blast
  with top show "topological (drop_node r deps) ys"
    by (auto simp: topological_def drop_node_keys)
next
  assume top: "topological (drop_node r deps) ys"
  then have ys: "set ys = fst ` set deps - {r}"
    by (simp add: topological_def drop_node_keys)
  have "precedes (r # ys) a b" if "(b, s) \<in> set deps" "a \<in> s" for a b s
  proof -
    have b: "b \<noteq> r"
      using that assms bt_wf_unique by fastforce
    then have "b \<in> set ys"
      using ys that(1) by force
    moreover have "precedes ys a b" if "a \<noteq> r"
    proof -
      have "(b, s - {r}) \<in> set (drop_node r deps)"
        using b \<open>(b, s) \<in> set deps\<close> by (auto simp: drop_node_entries)
      then show ?thesis
        using top that \<open>a \<in> s\<close> by (auto simp: topological_def)
    qed
    ultimately show ?thesis
      using b by (auto simp: precedes_Cons)
  qed
  moreover have "insert r (set ys) = fst ` set deps"
    unfolding ys using assms(2) by force
  moreover have "distinct (r # ys)"
    using top by (simp add: topological_def drop_node_keys)
  ultimately show "topological deps (r # ys)"
    unfolding topological_def by auto
qed

lemma topo_order_sound:
  "bt_wf deps \<Longrightarrow> topo_order deps acc = Inr order \<Longrightarrow> \<exists>ys. order = acc @ ys \<and> topological deps ys"
proof (induction deps acc rule: topo_order.induct)
  case (1 deps acc)
  show ?case
  proof (cases "deps = []")
    case False
    with 1(3) obtain r where f: "find (\<lambda>(_, s). s = {}) deps = Some (r, {})" and r: "(r, {}) \<in> set deps"
      and next_step: "topo_order (drop_node r deps) (acc @ [r]) = Inr order"
      by (rule topo_order_step)
    from 1(1) [OF False f refl drop_node_wf [OF 1(2)] next_step] obtain ys
      where "order = (acc @ [r]) @ ys" "topological (drop_node r deps) ys"
      by blast
    then show ?thesis
      using topological_Cons [OF 1(2) r] by (intro exI [of _ "r # ys"]) simp
  qed (use 1(3) in \<open>auto simp: topo_order.simps topological_def\<close>)
qed

text \<open>Every topological order starts with a ready node, and the loop takes the least one.\<close>

lemma topological_head_ready:
  assumes "topological deps (y # ys)"
  obtains "(y, {}) \<in> set deps"
proof -
  have "y \<in> fst ` set deps"
    using assms unfolding topological_def by (metis list.set_intros(1))
  then obtain s where s: "(y, s) \<in> set deps"
    by auto
  have "precedes (y # ys) a y" if "a \<in> s" for a
    using assms s that by (auto simp: topological_def)
  then have "s = {}"
    by (auto simp: precedes_Cons)
  with s that show thesis
    by simp
qed

lemma find_least_ready:
  assumes "bt_wf deps" and "find (\<lambda>(_, s). s = {}) deps = Some (r, t)" and "(y, {}) \<in> set deps"
  shows "r \<le> y"
proof -
  from assms(2) obtain i where i: "i < length deps" "deps ! i = (r, t)" "\<forall>j < i. snd (deps ! j) \<noteq> {}"
    by (fastforce simp: find_Some_iff case_prod_beta)
  from assms(3) obtain j where j: "j < length deps" "deps ! j = (y, {})"
    by (metis in_set_conv_nth)
  then have "i \<le> j"
    using i(3) by (metis not_less snd_conv)
  moreover have "map fst deps ! i < map fst deps ! j" if "i < j"
    using assms(1) j(1) that by (simp add: bt_wf_def sorted_wrt_iff_nth_less)
  ultimately show ?thesis
    using i j by (cases "i = j") auto
qed

lemma topo_order_least:
  "bt_wf deps \<Longrightarrow> topo_order deps acc = Inr (acc @ xs) \<Longrightarrow> topological deps ys \<Longrightarrow> xs \<le> ys"
proof (induction deps acc arbitrary: xs ys rule: topo_order.induct)
  case (1 deps acc)
  show ?case
  proof (cases "deps = []")
    case True
    with 1(3) show ?thesis
      by (simp add: topo_order.simps)
  next
    case False
    with 1(3) obtain r where f: "find (\<lambda>(_, s). s = {}) deps = Some (r, {})" and r: "(r, {}) \<in> set deps"
      and next_step: "topo_order (drop_node r deps) (acc @ [r]) = Inr (acc @ xs)"
      by (rule topo_order_step)
    obtain zs where xs: "xs = r # zs"
      using topo_order_sound [OF drop_node_wf [OF 1(2)] next_step] by auto
    obtain w ws where ys: "ys = w # ws"
      using 1(4) False by (cases ys) (auto simp: topological_def)
    have "(w, {}) \<in> set deps"
      using 1(4) unfolding ys by (rule topological_head_ready)
    then have "r \<le> w"
      using find_least_ready [OF 1(2) f] by blast
    moreover have "zs \<le> ws" if "r = w"
    proof (rule 1(1) [OF False f refl drop_node_wf [OF 1(2)]])
      show "topo_order (drop_node r deps) (acc @ [r]) = Inr ((acc @ [r]) @ zs)"
        using next_step xs by simp
      show "topological (drop_node r deps) ws"
        using 1(4) topological_Cons [OF 1(2) r] ys that by simp
    qed
    ultimately show ?thesis
      by (auto simp: xs ys)
  qed
qed

section \<open>Cycles\<close>

lemma topological_acyclic: "topological deps ys \<Longrightarrow> acyclic (dep_edges deps)"
proof -
  assume top: "topological deps ys"
  have step: "precedes ys a b" if "(a, b) \<in> dep_edges deps" for a b
    using top that by (auto simp: topological_def dep_edges_def)
  have "precedes ys a b" if "(a, b) \<in> (dep_edges deps)\<^sup>+" for a b
    using that by (induction rule: trancl_induct) (auto intro: step precedes_trans)
  then show "acyclic (dep_edges deps)"
    using precedes_irrefl by (fastforce simp: acyclic_def)
qed

text \<open>Sources are nodes themselves, which the route checks establish.\<close>

definition deps_closed :: "dependencies \<Rightarrow> bool" where
  "deps_closed deps \<longleftrightarrow> (\<forall>(b, s) \<in> set deps. s \<subseteq> fst ` set deps)"

lemma deps_closed_drop: "deps_closed deps \<Longrightarrow> deps_closed (drop_node r deps)"
  unfolding deps_closed_def drop_node_keys by (fastforce simp: drop_node_entries)

lemma dep_edges_drop: "dep_edges (drop_node r deps) \<subseteq> dep_edges deps"
  by (auto simp: dep_edges_def drop_node_entries)

lemma acyclic_has_ready:
  assumes "acyclic (dep_edges deps)" and "deps_closed deps" and "deps \<noteq> []"
  shows "\<exists>r. (r, {}) \<in> set deps"
proof -
  let ?N = "fst ` set deps"
  have "dep_edges deps \<subseteq> ?N \<times> ?N"
    using assms(2) by (force simp: dep_edges_def deps_closed_def)
  then have "finite (dep_edges deps)"
    by (rule finite_subset) simp
  then have "wf (dep_edges deps)"
    using assms(1) by (rule finite_acyclic_wf)
  moreover obtain n where "n \<in> ?N"
    using assms(3) by (cases deps) auto
  ultimately obtain m where m: "m \<in> ?N" "\<And>y. (y, m) \<in> dep_edges deps \<Longrightarrow> y \<notin> ?N"
    by (metis wfE_min)
  then obtain s where s: "(m, s) \<in> set deps"
    by auto
  have "y \<notin> s" for y
    using m(2) [of y] s assms(2) by (force simp: dep_edges_def deps_closed_def)
  then have "s = {}"
    by blast
  with s show ?thesis
    by blast
qed

lemma topo_order_complete:
  "acyclic (dep_edges deps) \<Longrightarrow> deps_closed deps \<Longrightarrow> \<exists>order. topo_order deps acc = Inr order"
proof (induction deps acc rule: topo_order.induct)
  case (1 deps acc)
  show ?case
  proof (cases "deps = []")
    case False
    obtain r where "(r, {}) \<in> set deps"
      using acyclic_has_ready [OF 1(2,3) False] by blast
    then obtain e where f: "find (\<lambda>(_, s). s = {}) deps = Some e"
      by (cases "find (\<lambda>(_, s). s = {}) deps") (auto simp: find_None_iff)
    obtain q t where e: "e = (q, t)"
      by (cases e)
    have "acyclic (dep_edges (drop_node q deps))"
      using 1(2) dep_edges_drop by (rule acyclic_subset)
    then show ?thesis
      using 1(1) [OF False f e [symmetric] _ deps_closed_drop [OF 1(3)]] False f e
      by (subst topo_order.simps) simp
  qed (simp add: topo_order.simps)
qed

lemma topo_order_Inr_iff:
  assumes "bt_wf deps" and "deps_closed deps"
  shows "(\<exists>order. topo_order deps acc = Inr order) \<longleftrightarrow> acyclic (dep_edges deps)"
  using assms topo_order_complete topo_order_sound topological_acyclic by blast

section \<open>Which graphs compile\<close>

definition node_ok :: "(StepInput, 'r) btree \<Rightarrow> string \<times> StepSchema \<Rightarrow> bool" where
  "node_ok inputs node \<longleftrightarrow> namespace_ok (fst node)
     \<and> (\<forall>port \<in> fst ` set (ss_inputs (snd node)) \<union> fst ` set (ss_outputs (snd node)). segment port)
     \<and> (\<forall>port \<in> fst ` set (ss_inputs (snd node)). StepInput (fst node) port \<in> fst ` set inputs)"

definition output_typed :: "nodes \<Rightarrow> StepType \<Rightarrow> StepOutput \<Rightarrow> bool" where
  "output_typed nodes expected out \<longleftrightarrow> (\<exists>actual. node_output nodes out = Some actual \<and> step_type_eq actual expected)"

fun source_ok :: "nodes \<Rightarrow> StepType \<Rightarrow> StepSource \<Rightarrow> bool" where
  "source_ok nodes expected External = True"
| "source_ok nodes expected (SameTick out) = output_typed nodes expected out"
| "source_ok nodes expected (PreviousTick out initial) =
     (step_type_eq (sv_step_type initial) expected \<and> output_typed nodes expected out)"

definition wired :: "nodes \<Rightarrow> StepInput \<times> StepSource \<Rightarrow> bool" where
  "wired nodes ns \<longleftrightarrow> (\<exists>expected. node_input nodes (fst ns) = Some expected \<and> source_ok nodes expected (snd ns))"

definition same_tick_edges :: "StepGraph \<Rightarrow> (string \<times> string) set" where
  "same_tick_edges g = {(a, b). \<exists>port out. (StepInput b port, SameTick out) \<in> set (sg_inputs g) \<and> a = so_instance out}"

definition plan_ok :: "StepGraph \<Rightarrow> bool" where
  "plan_ok g \<longleftrightarrow> sg_nodes g \<noteq> [] \<and> (\<forall>node \<in> set (sg_nodes g). node_ok (sg_inputs g) node)
     \<and> (\<forall>ns \<in> set (sg_inputs g). wired (sg_nodes g) ns) \<and> acyclic (same_tick_edges g)"

lemma try_for_unit: "try_for body xs () = Inr u \<longleftrightarrow> (\<forall>x \<in> set xs. body x () = Inr ())"
  by (induction xs) (auto simp: res_simps)

lemma check_node_Inr:
  "check_node inputs node deps = Inr deps' \<longleftrightarrow> node_ok inputs node \<and> deps' = bt_insert (fst node) {} deps"
  by (auto simp: check_node_def node_ok_def res_simps try_for_unit bt_simps split: prod.splits)

definition initial_deps :: "nodes \<Rightarrow> dependencies \<Rightarrow> dependencies" where
  "initial_deps nodes deps = fold (\<lambda>node. bt_insert (fst node) {}) nodes deps"

lemma check_nodes_Inr:
  "try_for (check_node inputs) nodes deps = Inr deps' \<longleftrightarrow>
     (\<forall>node \<in> set nodes. node_ok inputs node) \<and> deps' = initial_deps nodes deps"
  by (induction nodes arbitrary: deps) (auto simp: res_simps check_node_Inr initial_deps_def)

lemma initial_deps_wf: "bt_wf deps \<Longrightarrow> bt_wf (initial_deps nodes deps)"
  by (induction nodes arbitrary: deps) (auto simp: initial_deps_def)

lemma initial_deps_get:
  "bt_wf deps \<Longrightarrow> bt_get (initial_deps nodes deps) k = (if k \<in> fst ` set nodes then Some {} else bt_get deps k)"
proof (induction nodes arbitrary: deps)
  case (Cons node nodes)
  then show ?case
    using Cons.IH [of "bt_insert (fst node) {} deps"]
    by (simp add: initial_deps_def bt_get_insert)
qed (simp add: initial_deps_def)

definition route_deps :: "StepInput \<times> StepSource \<Rightarrow> dependencies \<Rightarrow> dependencies" where
  "route_deps ns deps = (case snd ns of
     SameTick out \<Rightarrow> add_dependency (si_instance (fst ns)) (so_instance out) deps | _ \<Rightarrow> deps)"

lemma check_route_Inr:
  "check_route nodes (input, route_of source) deps = Inr deps' \<longleftrightarrow>
     wired nodes (input, source) \<and> deps' = route_deps (input, source) deps"
  by (cases source)
    (auto simp: check_route_def wired_def output_typed_def route_deps_def res_simps)

lemma check_routes_Inr:
  "try_for (check_route nodes) (map (\<lambda>(input, source). (input, route_of source)) ins) deps = Inr deps' \<longleftrightarrow>
     (\<forall>ns \<in> set ins. wired nodes ns) \<and> deps' = fold route_deps ins deps"
proof (induction ins arbitrary: deps)
  case (Cons ns ins)
  then show ?case
    by (cases ns) (auto simp: res_simps check_route_Inr)
qed auto

lemma route_deps_wf: "bt_wf deps \<Longrightarrow> bt_wf (fold route_deps ins deps)"
proof (induction ins arbitrary: deps)
  case (Cons ns ins)
  then show ?case
    by (auto simp: route_deps_def add_dependency_def split: StepSource.splits)
qed simp

definition sources_of :: "(StepInput \<times> StepSource) list \<Rightarrow> string \<Rightarrow> string set" where
  "sources_of ins b = {a. \<exists>port out. (StepInput b port, SameTick out) \<in> set ins \<and> a = so_instance out}"

lemma sources_of_Cons:
  "sources_of (ns # ins) b = (case snd ns of
     SameTick out \<Rightarrow> if si_instance (fst ns) = b then insert (so_instance out) (sources_of ins b) else sources_of ins b
   | _ \<Rightarrow> sources_of ins b)"
proof -
  obtain i src where ns: "ns = (i, src)"
    by (cases ns)
  have "(StepInput b port = i) \<longleftrightarrow> si_instance i = b \<and> si_port i = port" for port
    by (cases i) auto
  then show ?thesis
    by (cases src) (auto simp: ns sources_of_def)
qed

lemma fold_route_deps_get:
  "bt_wf deps \<Longrightarrow> (\<And>ns. ns \<in> set ins \<Longrightarrow> si_instance (fst ns) \<in> fst ` set deps) \<Longrightarrow>
   bt_get (fold route_deps ins deps) b = map_option (\<lambda>s. s \<union> sources_of ins b) (bt_get deps b)"
proof (induction ins arbitrary: deps)
  case Nil
  then show ?case
    by (simp add: sources_of_def option.map_ident)
next
  case (Cons ns ins)
  let ?i = "si_instance (fst ns)"
  have wf: "bt_wf (route_deps ns deps)"
    using Cons.prems(1) by (auto simp: route_deps_def add_dependency_def split: StepSource.splits)
  have "?i \<in> fst ` set deps"
    by (rule Cons.prems(2)) simp
  then obtain s where s: "bt_get deps ?i = Some s"
    using bt_contains_iff [of deps ?i] by (auto simp: bt_contains_def)
  have get: "bt_get (route_deps ns deps) b = map_option (\<lambda>t. t \<union> sources_of [ns] b) (bt_get deps b)" for b
    using s Cons.prems(1)
    by (cases "snd ns") (auto simp: route_deps_def add_dependency_def bt_get_insert sources_of_Cons
        sources_of_def [of "[]"] option.map_ident)
  have keys: "fst ` set (route_deps ns deps) = fst ` set deps"
    using \<open>?i \<in> fst ` set deps\<close>
    by (cases "snd ns") (auto simp: route_deps_def add_dependency_def bt_insert_keys)
  have "bt_get (fold route_deps (ns # ins) deps) b
      = map_option (\<lambda>s. s \<union> sources_of ins b) (bt_get (route_deps ns deps) b)"
    using Cons.IH [OF wf] Cons.prems(2) keys by simp
  also have "\<dots> = map_option (\<lambda>t. t \<union> sources_of (ns # ins) b) (bt_get deps b)"
    unfolding get option.map_comp
    by (rule option.map_cong) (auto simp: sources_of_def)
  finally show ?case .
qed

text \<open>The dependencies of a graph whose routes are accepted.\<close>

definition graph_deps :: "StepGraph \<Rightarrow> dependencies" where
  "graph_deps g = fold route_deps (sg_inputs g) (initial_deps (sg_nodes g) [])"

lemma wired_instance: "wired nodes ns \<Longrightarrow> si_instance (fst ns) \<in> fst ` set nodes"
  unfolding wired_def node_input_def bt_get_def by (force split: option.splits dest: map_of_SomeD)

lemma output_typed_instance: "output_typed nodes t out \<Longrightarrow> so_instance out \<in> fst ` set nodes"
  unfolding output_typed_def node_output_def bt_get_def by (force split: option.splits dest: map_of_SomeD)

lemma graph_deps_facts:
  assumes "\<forall>ns \<in> set (sg_inputs g). wired (sg_nodes g) ns"
  shows "bt_wf (graph_deps g)" and "fst ` set (graph_deps g) = fst ` set (sg_nodes g)"
    and "(b, s) \<in> set (graph_deps g) \<longleftrightarrow> b \<in> fst ` set (sg_nodes g) \<and> s = sources_of (sg_inputs g) b"
    and "dep_edges (graph_deps g) = same_tick_edges g" and "deps_closed (graph_deps g)"
proof -
  let ?D0 = "initial_deps (sg_nodes g) []"
  have wf0: "bt_wf ?D0"
    by (simp add: initial_deps_wf)
  show wf: "bt_wf (graph_deps g)"
    by (simp add: graph_deps_def route_deps_wf initial_deps_wf)
  have keys0: "fst ` set ?D0 = fst ` set (sg_nodes g)"
  proof (rule set_eqI)
    show "k \<in> fst ` set ?D0 \<longleftrightarrow> k \<in> fst ` set (sg_nodes g)" for k
      using initial_deps_get [OF bt_wf_Nil, of "sg_nodes g" k] bt.get_None_iff [OF wf0, of k] by (simp split: if_splits)
  qed
  have get: "bt_get (graph_deps g) b =
      (if b \<in> fst ` set (sg_nodes g) then Some (sources_of (sg_inputs g) b) else None)" for b
    unfolding graph_deps_def
    using fold_route_deps_get [OF wf0, of "sg_inputs g"] assms wired_instance keys0
    by (simp add: initial_deps_get)
  show entry: "(b, s) \<in> set (graph_deps g) \<longleftrightarrow> b \<in> fst ` set (sg_nodes g) \<and> s = sources_of (sg_inputs g) b" for b s
    using bt.get_Some_iff [OF wf, of b s] get by (auto split: if_splits)
  show keys: "fst ` set (graph_deps g) = fst ` set (sg_nodes g)"
    using bt.get_None_iff [OF wf] get by (metis option.distinct(1) subsetI subset_antisym)
  have dest: "b \<in> fst ` set (sg_nodes g)" if "(StepInput b port, src) \<in> set (sg_inputs g)" for b port src
    using wired_instance [OF bspec [OF assms that]] by simp
  show "dep_edges (graph_deps g) = same_tick_edges g"
    unfolding dep_edges_def same_tick_edges_def entry sources_of_def using dest by blast
  have "so_instance out \<in> fst ` set (sg_nodes g)" if "(i, SameTick out) \<in> set (sg_inputs g)" for i out
    using bspec [OF assms that] output_typed_instance by (auto simp: wired_def)
  then show "deps_closed (graph_deps g)"
    unfolding deps_closed_def keys by (auto simp: entry sources_of_def)
qed

lemma node_ok_routes: "node_ok (map (\<lambda>(input, source). (input, f source)) ins) node \<longleftrightarrow> node_ok ins node"
proof -
  have "fst ` set (map (\<lambda>(input, source). (input, f source)) ins) = fst ` set ins"
    by force
  then show ?thesis
    by (simp only: node_ok_def)
qed

lemma Plan_compile_Inr:
  "Plan_compile g = Inr p \<longleftrightarrow> sg_nodes g \<noteq> [] \<and> (\<forall>node \<in> set (sg_nodes g). node_ok (sg_inputs g) node)
     \<and> (\<forall>ns \<in> set (sg_inputs g). wired (sg_nodes g) ns)
     \<and> plan_graph p = g \<and> topo_order (graph_deps g) [] = Inr (plan_order p)"
proof -
  have "validate_routes (sg_nodes g) (map (\<lambda>(input, source). (input, route_of source)) (sg_inputs g)) = Inr order \<longleftrightarrow>
      sg_nodes g \<noteq> [] \<and> (\<forall>node \<in> set (sg_nodes g). node_ok (sg_inputs g) node)
      \<and> (\<forall>ns \<in> set (sg_inputs g). wired (sg_nodes g) ns) \<and> topo_order (graph_deps g) [] = Inr order" for order
    unfolding validate_routes_def graph_deps_def
    by (auto simp: res_simps check_nodes_Inr check_routes_Inr node_ok_routes)
  then show ?thesis
    unfolding Plan_compile_def rbind_Inr_iff by (cases p) auto
qed

lemma Plan_compile_ok: "(\<exists>p. Plan_compile g = Inr p) \<longleftrightarrow> plan_ok g"
proof (cases "\<forall>ns \<in> set (sg_inputs g). wired (sg_nodes g) ns")
  case True
  have "(\<exists>p. Plan_compile g = Inr p) \<longleftrightarrow> sg_nodes g \<noteq> [] \<and> (\<forall>node \<in> set (sg_nodes g). node_ok (sg_inputs g) node)
      \<and> (\<exists>order. topo_order (graph_deps g) [] = Inr order)"
    unfolding Plan_compile_Inr using True by (metis Plan.select_convs(1,2))
  then show ?thesis
    using True topo_order_Inr_iff [OF graph_deps_facts(1,5) [OF True]] graph_deps_facts(4) [OF True]
    by (simp add: plan_ok_def)
next
  case False
  then show ?thesis
    unfolding Plan_compile_Inr plan_ok_def by blast
qed

lemma Plan_compile_wired: "Plan_compile g = Inr p \<Longrightarrow> \<forall>ns \<in> set (sg_inputs g). wired (sg_nodes g) ns"
  by (simp add: Plan_compile_Inr)

text \<open>An execution order of a graph: all its nodes, each once and after its same-tick sources.\<close>

definition execution_order :: "StepGraph \<Rightarrow> string list \<Rightarrow> bool" where
  "execution_order g ys \<longleftrightarrow> distinct ys \<and> set ys = fst ` set (sg_nodes g)
     \<and> (\<forall>input out. (input, SameTick out) \<in> set (sg_inputs g) \<longrightarrow> precedes ys (so_instance out) (si_instance input))"

lemma execution_order_topological:
  assumes "\<forall>ns \<in> set (sg_inputs g). wired (sg_nodes g) ns"
  shows "execution_order g ys \<longleftrightarrow> topological (graph_deps g) ys"
proof -
  have "(\<forall>input out. (input, SameTick out) \<in> set (sg_inputs g) \<longrightarrow> precedes ys (so_instance out) (si_instance input))
      \<longleftrightarrow> (\<forall>(a, b) \<in> same_tick_edges g. precedes ys a b)"
  proof -
    have "(\<forall>input out. (input, SameTick out) \<in> set (sg_inputs g) \<longrightarrow> precedes ys (so_instance out) (si_instance input))
        \<longleftrightarrow> (\<forall>b port out. (StepInput b port, SameTick out) \<in> set (sg_inputs g) \<longrightarrow> precedes ys (so_instance out) b)"
      by (metis StepInput.collapse StepInput.sel(1))
    then show ?thesis
      unfolding same_tick_edges_def by auto
  qed
  also have "\<dots> \<longleftrightarrow> (\<forall>(b, s) \<in> set (graph_deps g). \<forall>a \<in> s. precedes ys a b)"
    unfolding graph_deps_facts(4) [OF assms, symmetric] dep_edges_def by auto
  finally show ?thesis
    by (simp add: execution_order_def topological_def graph_deps_facts(2) [OF assms])
qed

end
