(* ===== verification/Step_Scheduler.thy ===== *)
theory Step_Scheduler
  imports Step_Plan
begin

text \<open>
  The sequential step scheduler (\<^verbatim>\<open>crates/reiny/src/step/{request,execution,scheduler}.rs\<close>):
  request validation, the advance guard that faults an epoch, and one advancement. The node executor
  and the commit gate are the traits the source calls through, so they are arguments. An executor
  takes its own state along; its answer for one node is either the way the node's future ended and
  was disposed of, or that the advancing future was dropped while the node was pending. A map index
  of the source panics on an absent key; the model returns \<open>Unwound\<close> there.
\<close>

section \<open>Requests\<close>

datatype 'e abort = Abort_Panic | Abort 'e

record StepRequest =
  req_dt :: Duration
  req_inputs :: "(StepInput, StepValue) btree"

record ValidatedRequest =
  vr_tick :: StepTick
  vr_next_index :: u64
  vr_inputs :: "(StepInput, StepValue) btree"

definition check_supplied :: "StepGraph \<Rightarrow> StepInput \<Rightarrow> unit \<Rightarrow> StepRequestError abort + unit" where
  "check_supplied g input _ = (case bt_get (sg_inputs g) input of
     Some External \<Rightarrow> Inr ()
   | _ \<Rightarrow> Inl (Abort (Req_UnexpectedInput input)))"

definition check_external ::
  "StepGraph \<Rightarrow> (StepInput, StepValue) btree \<Rightarrow> StepInput \<times> StepSource \<Rightarrow> unit \<Rightarrow> StepRequestError abort + unit" where
  "check_external g inputs ns _ = (case ns of (input, source) \<Rightarrow>
     (case source of
        External \<Rightarrow>
          rbind (ok_or (bt_get inputs input) (Abort (Req_MissingInput input))) (\<lambda>value.
          rbind (ok_or (node_input (sg_nodes g) input) Abort_Panic) (\<lambda>expected.
            if \<not> step_type_eq (sv_step_type value) expected
            then Inl (Abort (Req_TypeMismatch input expected (sv_step_type value))) else Inr ()))
      | _ \<Rightarrow> Inr ()))"

definition StepRequest_validate ::
  "StepRequest \<Rightarrow> Plan \<Rightarrow> ClockSnapshot \<Rightarrow> StepRequestError abort + ValidatedRequest" where
  "StepRequest_validate r plan clk =
     (if duration_is_zero (req_dt r) then Inl (Abort Req_ZeroDt)
      else rbind (ok_or (duration_checked_add (cs_time clk) (req_dt r)) (Abort Req_TimeOverflow)) (\<lambda>end_time.
           rbind (ok_or (u64_checked_add (cs_next_index clk) 1) (Abort Req_TickOverflow)) (\<lambda>next_index.
           and_then (try_for (check_supplied (plan_graph plan)) (map fst (req_inputs r)) ())
          (and_then (try_for (check_external (plan_graph plan) (req_inputs r)) (sg_inputs (plan_graph plan)) ())
             (Inr \<lparr>vr_tick = \<lparr>tick_id = \<lparr>id_epoch = cs_epoch clk, id_index = cs_next_index clk\<rparr>,
                      tick_start = cs_time clk, tick_dt = req_dt r, tick_end = end_time\<rparr>,
                   vr_next_index = next_index, vr_inputs = req_inputs r\<rparr>)))))"

section \<open>Execution of one node\<close>

record AdvanceGuard =
  ag_failure :: StepFailure
  ag_armed :: bool

definition guard_new :: "StepId \<Rightarrow> AdvanceGuard" where
  "guard_new tid = \<lparr>ag_failure = \<lparr>sf_tick = tid, sf_kind = Fail_AdvanceDropped, sf_instance = None,
     sf_port = None, sf_attempted = [], sf_completed = [],
     sf_detail = ''advance dropped after dispatch; component effects may persist''\<rparr>, ag_armed = False\<rparr>"

definition guard_dispatch :: "string \<Rightarrow> AdvanceGuard \<Rightarrow> AdvanceGuard" where
  "guard_dispatch inst g = g\<lparr>ag_failure := (ag_failure g)\<lparr>sf_instance := Some inst,
     sf_attempted := sf_attempted (ag_failure g) @ [inst]\<rparr>, ag_armed := True\<rparr>"

text \<open>The value the guard leaves in the scheduler's fault when it is dropped.\<close>

definition guard_drop :: "bool \<Rightarrow> AdvanceGuard \<Rightarrow> StepFailure option \<Rightarrow> StepFailure option" where
  "guard_drop panicking g fault =
     (if ag_armed g then
        Some (if panicking then (ag_failure g)\<lparr>sf_kind := Fail_NodePanicked,
                sf_detail := ''unwound after dispatch; component effects may persist''\<rparr>
              else ag_failure g)
      else fault)"

definition set_failure :: "StepFailureKind \<Rightarrow> string \<Rightarrow> AdvanceGuard \<Rightarrow> AdvanceGuard" where
  "set_failure kind detail g = g\<lparr>ag_failure := (ag_failure g)\<lparr>sf_kind := kind, sf_detail := detail\<rparr>\<rparr>"

datatype Payload = Payload_String string | Payload_str string | Payload_other

text \<open>How a node's future ends: what polling it to completion gives, and what dropping it gives.\<close>

datatype NodeRun =
    NodeRun (nr_result: "Payload + (NodeError + StepOutputs)") (nr_disposal: "Payload + unit")
  | Abandoned

fun payload_message :: "Payload \<Rightarrow> string" where
  "payload_message (Payload_String m) = m"
| "payload_message (Payload_str m) = m"
| "payload_message Payload_other = ''node panicked with a non-string payload''"

definition catch_node ::
  "Payload + (NodeError + StepOutputs) \<Rightarrow> Payload + unit \<Rightarrow> (StepFailureKind \<times> string) + StepOutputs" where
  "catch_node result disposal =
     (case rbind disposal (\<lambda>_. result) of
        Inr (Inr outputs) \<Rightarrow> Inr outputs
      | Inr (Inl error) \<Rightarrow> Inl (Fail_NodeError, ne_message error)
      | Inl payload \<Rightarrow> Inl (Fail_NodePanicked, payload_message payload))"

fun find_map :: "('a \<Rightarrow> 'b option) \<Rightarrow> 'a list \<Rightarrow> 'b option" where
  "find_map f [] = None"
| "find_map f (x # xs) = (case f x of Some y \<Rightarrow> Some y | None \<Rightarrow> find_map f xs)"

definition invalid_output :: "(string, StepType) btree \<Rightarrow> StepOutputs \<Rightarrow> (string \<times> string) option" where
  "invalid_output schema outputs =
     (case find_map (\<lambda>(port, expected). case bt_get outputs port of
          None \<Rightarrow> Some (port, ''missing declared output'')
        | Some value \<Rightarrow> if \<not> step_type_eq (sv_step_type value) expected
            then Some (port, ''output schema mismatch'') else None) schema of
        Some e \<Rightarrow> Some e
      | None \<Rightarrow> map_option (\<lambda>port. (port, ''undeclared output''))
          (find (\<lambda>port. \<not> bt_contains schema port) (map fst outputs)))"

section \<open>The scheduler\<close>

record StepScheduler =
  sch_plan :: Plan
  sch_epoch :: EpochId
  sch_next_index :: u64
  sch_time :: Duration
  sch_previous :: "(StepOutput, StepValue) btree"
  sch_fault :: "StepFailure option"

text \<open>\<open>StepScheduler::new\<close> takes the process-wide epoch counter along.\<close>

definition StepScheduler_new ::
  "StepGraph \<Rightarrow> Duration \<Rightarrow> u64 \<Rightarrow> (StepPlanError + StepScheduler) \<times> u64" where
  "StepScheduler_new graph initial_time NEXT_EPOCH =
     (case Plan_compile graph of
        Inl e \<Rightarrow> (Inl e, NEXT_EPOCH)
      | Inr plan \<Rightarrow>
          (case u64_checked_add NEXT_EPOCH 1 of
             None \<Rightarrow> (Inl Plan_EpochExhausted, NEXT_EPOCH)
           | Some following \<Rightarrow>
               (Inr \<lparr>sch_plan = plan, sch_epoch = NEXT_EPOCH, sch_next_index = 0, sch_time = initial_time,
                     sch_previous = [], sch_fault = None\<rparr>, following)))"

definition sched_clock :: "StepScheduler \<Rightarrow> ClockSnapshot" where
  "sched_clock s = \<lparr>cs_epoch = sch_epoch s, cs_next_index = sch_next_index s, cs_time = sch_time s,
     cs_phase = (case sch_fault s of Some f \<Rightarrow> Phase_Faulted f | None \<Rightarrow> Phase_Ready)\<rparr>"

type_synonym outputs = "(StepOutput, StepValue) btree"

definition input_value :: "StepScheduler \<Rightarrow> ValidatedRequest \<Rightarrow> outputs \<Rightarrow> StepInput \<times> StepSource \<Rightarrow> StepValue option" where
  "input_value s r outputs ns = (case snd ns of
     External \<Rightarrow> bt_get (vr_inputs r) (fst ns)
   | SameTick source \<Rightarrow> bt_get outputs source
   | PreviousTick source initial \<Rightarrow> if sch_next_index s = 0 then Some initial else bt_get (sch_previous s) source)"

definition node_routes :: "StepGraph \<Rightarrow> string \<Rightarrow> (StepInput \<times> StepSource) list" where
  "node_routes g inst = filter (\<lambda>ns. si_instance (fst ns) = inst) (sg_inputs g)"

definition node_inputs :: "StepScheduler \<Rightarrow> ValidatedRequest \<Rightarrow> outputs \<Rightarrow> string \<Rightarrow> StepInputs option" where
  "node_inputs s r outputs inst =
     map_option (bt_extend [])
       (those (map (\<lambda>ns. map_option (Pair (si_port (fst ns))) (input_value s r outputs ns))
          (node_routes (plan_graph (sch_plan s)) inst)))"

type_synonym 'x executor = "'x \<Rightarrow> string \<Rightarrow> StepTick \<Rightarrow> StepInputs \<Rightarrow> NodeRun \<times> 'x"

datatype run_stop = Stop_Fail AdvanceGuard | Stop_Abandon AdvanceGuard | Stop_Panic AdvanceGuard

definition node_outputs_at :: "string \<Rightarrow> StepOutputs \<Rightarrow> (StepOutput \<times> StepValue) list" where
  "node_outputs_at inst outs = map (\<lambda>(port, value). (StepOutput inst port, value)) outs"

fun run_nodes ::
  "'x executor \<Rightarrow> StepScheduler \<Rightarrow> ValidatedRequest \<Rightarrow> string list \<Rightarrow> AdvanceGuard \<Rightarrow> outputs \<Rightarrow> 'x
    \<Rightarrow> (run_stop + AdvanceGuard \<times> outputs) \<times> 'x" where
  "run_nodes invoke s r [] g outputs x = (Inr (g, outputs), x)"
| "run_nodes invoke s r (inst # insts) g outputs x =
     (case node_inputs s r outputs inst of
        None \<Rightarrow> (Inl (Stop_Panic g), x)
      | Some inputs \<Rightarrow>
          let g = guard_dispatch inst g in
          (case invoke x inst (vr_tick r) inputs of
             (Abandoned, x) \<Rightarrow> (Inl (Stop_Abandon g), x)
           | (NodeRun result disposal, x) \<Rightarrow>
               (case catch_node result disposal of
                  Inl (kind, detail) \<Rightarrow> (Inl (Stop_Fail (set_failure kind detail g)), x)
                | Inr node_outputs \<Rightarrow>
                    (case bt_get (sg_nodes (plan_graph (sch_plan s))) inst of
                       None \<Rightarrow> (Inl (Stop_Panic g), x)
                     | Some schema \<Rightarrow>
                         (case invalid_output (ss_outputs schema) node_outputs of
                            Some (port, detail) \<Rightarrow>
                              (Inl (Stop_Fail (set_failure Fail_InvalidOutputs detail
                                 (g\<lparr>ag_failure := (ag_failure g)\<lparr>sf_port := Some port\<rparr>\<rparr>))), x)
                          | None \<Rightarrow>
                              run_nodes invoke s r insts
                                (g\<lparr>ag_failure := (ag_failure g)
                                    \<lparr>sf_completed := sf_completed (ag_failure g) @ [inst]\<rparr>\<rparr>)
                                (bt_extend outputs (node_outputs_at inst node_outputs)) x)))))"

text \<open>The outputs kept for delayed inputs, once each.\<close>

definition delayed_sources :: "StepGraph \<Rightarrow> StepOutput list" where
  "delayed_sources g = concat (map (\<lambda>ns. case snd ns of PreviousTick source _ \<Rightarrow> [source] | _ \<Rightarrow> []) (sg_inputs g))"

definition retain_outputs :: "StepGraph \<Rightarrow> outputs \<Rightarrow> outputs option" where
  "retain_outputs g outputs =
     map_option (bt_extend []) (those (map (\<lambda>src. map_option (Pair src) (bt_get outputs src)) (delayed_sources g)))"

datatype advance_result = Returned "SchedulerError + StepReceipt" | Future_Dropped | Unwound

text \<open>A commit gate either lets the bookkeeping move happen (\<open>None\<close>) or refuses it with a reason.\<close>

type_synonym gate = "StepReceipt \<Rightarrow> ClockSnapshot \<Rightarrow> StepFailureKind option"

definition DirectCommit :: gate where
  "DirectCommit receipt clk = None"

definition commit_tick ::
  "gate \<Rightarrow> StepScheduler \<Rightarrow> ValidatedRequest \<Rightarrow> AdvanceGuard \<Rightarrow> outputs \<Rightarrow> advance_result \<times> StepScheduler" where
  "commit_tick control s r g outputs =
     (case retain_outputs (plan_graph (sch_plan s)) outputs of
        None \<Rightarrow> (Unwound, s\<lparr>sch_fault := guard_drop True g (sch_fault s)\<rparr>)
      | Some previous \<Rightarrow>
          let receipt = \<lparr>rc_tick = vr_tick r, rc_outputs = outputs\<rparr>;
              clk = \<lparr>cs_epoch = sch_epoch s, cs_next_index = vr_next_index r,
                     cs_time = tick_end (vr_tick r), cs_phase = Phase_Ready\<rparr>
          in (case control receipt clk of
                None \<Rightarrow> (Returned (Inr receipt),
                  s\<lparr>sch_previous := previous, sch_time := tick_end (vr_tick r), sch_next_index := vr_next_index r\<rparr>)
              | Some kind \<Rightarrow>
                  let f = ag_failure (set_failure kind ''host rejected bookkeeping commit; effects may persist'' g)
                  in (Returned (Inl (Sched_Failed f)), s\<lparr>sch_fault := Some f\<rparr>)))"

definition advance_controlled ::
  "'x executor \<Rightarrow> gate \<Rightarrow> StepRequest \<Rightarrow> StepScheduler \<Rightarrow> 'x \<Rightarrow> advance_result \<times> StepScheduler \<times> 'x" where
  "advance_controlled invoke control request s x =
     (case sch_fault s of
        Some f \<Rightarrow> (Returned (Inl (Sched_Faulted f)), s, x)
      | None \<Rightarrow>
          (case StepRequest_validate request (sch_plan s) (sched_clock s) of
             Inl Abort_Panic \<Rightarrow> (Unwound, s, x)
           | Inl (Abort e) \<Rightarrow> (Returned (Inl (Sched_Request e)), s, x)
           | Inr r \<Rightarrow>
               (case run_nodes invoke s r (plan_order (sch_plan s)) (guard_new (tick_id (vr_tick r))) [] x of
                  (Inl (Stop_Fail g), x) \<Rightarrow>
                    (Returned (Inl (Sched_Failed (ag_failure g))), s\<lparr>sch_fault := Some (ag_failure g)\<rparr>, x)
                | (Inl (Stop_Abandon g), x) \<Rightarrow>
                    (Future_Dropped, s\<lparr>sch_fault := guard_drop False g (sch_fault s)\<rparr>, x)
                | (Inl (Stop_Panic g), x) \<Rightarrow>
                    (Unwound, s\<lparr>sch_fault := guard_drop True g (sch_fault s)\<rparr>, x)
                | (Inr (g, outputs), x) \<Rightarrow>
                    (case commit_tick control s r g outputs of (res, s) \<Rightarrow> (res, s, x)))))"

definition advance :: "'x executor \<Rightarrow> StepRequest \<Rightarrow> StepScheduler \<Rightarrow> 'x \<Rightarrow> advance_result \<times> StepScheduler \<times> 'x" where
  "advance invoke request s x = advance_controlled invoke DirectCommit request s x"

definition interrupted :: "StepFailureKind \<Rightarrow> StepScheduler \<Rightarrow> StepFailure option \<times> StepScheduler" where
  "interrupted kind s =
     (case sch_fault s of
        None \<Rightarrow> (None, s)
      | Some failure \<Rightarrow>
          let f = (if sf_kind failure = Fail_AdvanceDropped
                   then failure\<lparr>sf_detail := ''host interrupted advancement; component effects may persist''\<rparr>
                   else failure)\<lparr>sf_kind := kind\<rparr>
          in (Some f, s\<lparr>sch_fault := Some f\<rparr>))"

end
