(* ===== verification/Step_Invariant.thy ===== *)
theory Step_Invariant
  imports Step_Scheduler
begin

text \<open>
  The invariant of a step scheduler and how one run over the nodes behaves: which outputs exist
  after a prefix of the order, that every input a node needs is there when its turn comes, and what
  the guard records when a node fails. The properties themselves are in \<^verbatim>\<open>Step_Correct\<close>.
\<close>

section \<open>Lists and maps\<close>

lemma those_Some_iff: "those xs = Some ys \<longleftrightarrow> xs = map Some ys"
proof (induction xs arbitrary: ys)
  case (Cons x xs)
  then show ?case
    by (cases x; cases ys) auto
qed auto

lemma those_None_iff: "those xs = None \<longleftrightarrow> None \<in> set xs"
  by (induction xs) (auto split: option.splits)

lemma those_map_Pair:
  assumes "\<And>x. x \<in> set xs \<Longrightarrow> f x = Some (h x)"
  shows "those (map (\<lambda>x. map_option (Pair (k x)) (f x)) xs) = Some (map (\<lambda>x. (k x, h x)) xs)"
  using assms by (simp add: those_Some_iff)

lemma map_of_rev_wf: "bt_wf m \<Longrightarrow> map_of (rev m) k = bt_get m k"
proof -
  assume wf: "bt_wf m"
  then have "distinct (map fst (rev m))"
    by (simp add: rev_map [symmetric] bt.distinct_keys)
  then have "map_of (rev m) k = Some v \<longleftrightarrow> bt_get m k = Some v" for v
    using bt.get_Some_iff [OF wf] by simp
  then show ?thesis
    by (metis option.exhaust)
qed

lemma bt_extend_Nil_get: "bt_get (bt_extend [] kvs) k = map_of (rev kvs) k"
  by (simp add: bt_extend_get split: option.splits)

lemma find_map_None: "find_map f xs = None \<longleftrightarrow> (\<forall>x \<in> set xs. f x = None)"
  by (induction xs) (auto split: option.splits)

section \<open>Typed outputs\<close>

definition typed_at :: "nodes \<Rightarrow> outputs \<Rightarrow> StepOutput \<Rightarrow> bool" where
  "typed_at nodes outs out \<longleftrightarrow> (\<exists>v t. bt_get outs out = Some v \<and> node_output nodes out = Some t
     \<and> step_type_eq (sv_step_type v) t)"

text \<open>The outputs after the nodes \<open>pre\<close>: each declared output of those nodes with a value of its
  schema, and nothing else.\<close>

definition outs_ok :: "nodes \<Rightarrow> string list \<Rightarrow> outputs \<Rightarrow> bool" where
  "outs_ok nodes pre outs \<longleftrightarrow> bt_wf outs
     \<and> (\<forall>out. if so_instance out \<in> set pre \<and> node_output nodes out \<noteq> None then typed_at nodes outs out
              else bt_get outs out = None)"

lemma outs_ok_Nil: "outs_ok nodes [] []"
  by (simp add: outs_ok_def)

lemma invalid_output_None:
  "invalid_output schema outs = None \<longleftrightarrow>
     (\<forall>(port, t) \<in> set schema. \<exists>v. bt_get outs port = Some v \<and> step_type_eq (sv_step_type v) t)
     \<and> (\<forall>port. bt_get outs port \<noteq> None \<longrightarrow> bt_get schema port \<noteq> None)"
proof -
  have names: "(\<forall>port. bt_get outs port \<noteq> None \<longrightarrow> bt_get schema port \<noteq> None) \<longleftrightarrow>
      (\<forall>port \<in> fst ` set outs. bt_contains schema port)"
    using bt_contains_iff [of outs] by (auto simp: bt_contains_def)
  have "(case x of None \<Rightarrow> Some a | Some v \<Rightarrow> if \<not> P v then Some b else None) = None \<longleftrightarrow> (\<exists>v. x = Some v \<and> P v)"
    for x :: "StepValue option" and a b :: "string \<times> string" and P
    by (cases x) auto
  then have declared: "find_map (\<lambda>(port, expected). case bt_get outs port of
          None \<Rightarrow> Some (port, ''missing declared output'')
        | Some value \<Rightarrow> if \<not> step_type_eq (sv_step_type value) expected
            then Some (port, ''output schema mismatch'') else None) schema = None
      \<longleftrightarrow> (\<forall>(port, t) \<in> set schema. \<exists>v. bt_get outs port = Some v \<and> step_type_eq (sv_step_type v) t)"
    unfolding find_map_None by (simp add: case_prod_beta)
  have "invalid_output schema outs = None \<longleftrightarrow>
      (\<forall>(port, t) \<in> set schema. \<exists>v. bt_get outs port = Some v \<and> step_type_eq (sv_step_type v) t)
      \<and> (\<forall>port \<in> fst ` set outs. bt_contains schema port)"
    unfolding invalid_output_def declared [symmetric]
    by (auto simp: find_None_iff split: option.split)
  then show ?thesis
    using names by simp
qed

lemma map_of_at:
  "map_of (map (\<lambda>(port, value). (StepOutput inst port, value)) xs) out =
     (if so_instance out = inst then map_of xs (so_port out) else None)"
  by (induction xs) (auto simp: StepOutput.expand)

lemma node_outputs_at_get:
  assumes "bt_wf m" and "bt_wf outs"
  shows "bt_get (bt_extend m (node_outputs_at inst outs)) out =
    (if so_instance out = inst then (case bt_get outs (so_port out) of Some v \<Rightarrow> Some v | None \<Rightarrow> bt_get m out)
     else bt_get m out)"
proof -
  have "map_of (rev (node_outputs_at inst outs)) out =
      (if so_instance out = inst then map_of (rev outs) (so_port out) else None)"
    unfolding node_outputs_at_def rev_map by (rule map_of_at)
  then show ?thesis
    using assms by (simp add: bt_extend_get map_of_rev_wf)
qed

lemma outs_ok_step:
  assumes ok: "outs_ok nodes pre outs" and schema: "bt_get nodes inst = Some schema"
    and new: "inst \<notin> set pre" and valid: "invalid_output (ss_outputs schema) no = None"
    and wf: "bt_wf no" "bt_wf (ss_outputs schema)"
  shows "outs_ok nodes (pre @ [inst]) (bt_extend outs (node_outputs_at inst no))"
    (is "outs_ok nodes _ ?outs")
proof -
  have get: "bt_get ?outs out = (if so_instance out = inst then bt_get no (so_port out) else bt_get outs out)" for out
  proof -
    have "bt_get outs out = None" if "so_instance out = inst"
      using ok new that unfolding outs_ok_def by metis
    then show ?thesis
      using ok wf(1) by (simp add: node_outputs_at_get outs_ok_def split: option.splits)
  qed
  have declared: "node_output nodes out = bt_get (ss_outputs schema) (so_port out)" if "so_instance out = inst" for out
    using schema that by (simp add: node_output_def)
  have here: "if node_output nodes out \<noteq> None then typed_at nodes ?outs out else bt_get ?outs out = None"
    if "so_instance out = inst" for out
  proof (cases "bt_get (ss_outputs schema) (so_port out)")
    case None
    then show ?thesis
      using valid that by (auto simp: invalid_output_None declared get)
  next
    case (Some t)
    then have "(so_port out, t) \<in> set (ss_outputs schema)"
      using bt.get_Some_iff [OF wf(2)] by blast
    then obtain v where "bt_get no (so_port out) = Some v" "step_type_eq (sv_step_type v) t"
      using valid by (force simp: invalid_output_None)
    with Some that show ?thesis
      by (simp add: typed_at_def get declared)
  qed
  have there: "typed_at nodes ?outs out \<longleftrightarrow> typed_at nodes outs out" if "so_instance out \<noteq> inst" for out
    using that by (simp add: typed_at_def get)
  have "if so_instance out \<in> set (pre @ [inst]) \<and> node_output nodes out \<noteq> None then typed_at nodes ?outs out
      else bt_get ?outs out = None" for out
  proof (cases "so_instance out = inst")
    case True
    then show ?thesis
      using here [OF True] by simp
  next
    case False
    have "if so_instance out \<in> set pre \<and> node_output nodes out \<noteq> None then typed_at nodes outs out
        else bt_get outs out = None"
      using ok unfolding outs_ok_def by blast
    with False show ?thesis
      by (simp add: there get)
  qed
  moreover have "bt_wf ?outs"
    using ok by (simp add: bt_extend_wf outs_ok_def)
  ultimately show ?thesis
    by (simp add: outs_ok_def)
qed

section \<open>The invariant\<close>

text \<open>The maps of a graph are \<open>BTreeMap\<close>s.\<close>

definition graph_wf :: "StepGraph \<Rightarrow> bool" where
  "graph_wf g \<longleftrightarrow> bt_wf (sg_nodes g) \<and> bt_wf (sg_inputs g)
     \<and> (\<forall>(n, schema) \<in> set (sg_nodes g). bt_wf (ss_inputs schema) \<and> bt_wf (ss_outputs schema))"

text \<open>What a failure says about progress: a non-empty prefix of the order was handed out, and all of
  it but possibly the last node completed.\<close>

definition progress_ok :: "string list \<Rightarrow> StepFailure \<Rightarrow> bool" where
  "progress_ok order f \<longleftrightarrow> sf_attempted f \<noteq> [] \<and> prefix (sf_attempted f) order
     \<and> (sf_completed f = butlast (sf_attempted f) \<or> sf_completed f = order \<and> sf_attempted f = order)
     \<and> sf_instance f = Some (last (sf_attempted f))"

definition sched_inv :: "StepScheduler \<Rightarrow> bool" where
  "sched_inv s \<longleftrightarrow> graph_wf (plan_graph (sch_plan s)) \<and> Plan_compile (plan_graph (sch_plan s)) = Inr (sch_plan s)
     \<and> duration_wf (sch_time s)
     \<and> (sch_next_index s \<noteq> 0 \<longrightarrow>
          (\<forall>src \<in> set (delayed_sources (plan_graph (sch_plan s))).
             typed_at (sg_nodes (plan_graph (sch_plan s))) (sch_previous s) src))
     \<and> (\<forall>f. sch_fault s = Some f \<longrightarrow> progress_ok (plan_order (sch_plan s)) f
          \<and> sf_tick f = \<lparr>id_epoch = sch_epoch s, id_index = sch_next_index s\<rparr>)"

definition wf_executor :: "'x executor \<Rightarrow> bool" where
  "wf_executor invoke \<longleftrightarrow> (\<forall>x inst t ins outs d. fst (invoke x inst t ins) = NodeRun (Inr (Inr outs)) d \<longrightarrow> bt_wf outs)"

lemma catch_node_Inr: "catch_node result disposal = Inr outs \<longleftrightarrow> disposal = Inr () \<and> result = Inr (Inr outs)"
  by (cases disposal; cases result) (auto simp: catch_node_def split: sum.splits)

lemma compiled_order:
  assumes "Plan_compile g = Inr p"
  shows "execution_order g (plan_order p)"
  using assms topo_order_sound [OF graph_deps_facts(1) [OF Plan_compile_wired [OF assms]]]
  by (fastforce simp: Plan_compile_Inr execution_order_topological [OF Plan_compile_wired [OF assms]])

section \<open>A run over the nodes\<close>

text \<open>The guard after the nodes \<open>pre\<close> completed.\<close>

definition guard_at :: "StepId \<Rightarrow> string list \<Rightarrow> AdvanceGuard \<Rightarrow> bool" where
  "guard_at tid pre g \<longleftrightarrow> sf_tick (ag_failure g) = tid \<and> sf_attempted (ag_failure g) = pre
     \<and> sf_completed (ag_failure g) = pre \<and> sf_port (ag_failure g) = None
     \<and> (pre \<noteq> [] \<longrightarrow> ag_armed g \<and> sf_instance (ag_failure g) = Some (last pre))"

text \<open>The guard when the node after \<open>pre\<close> was handed out and did not complete.\<close>

definition guard_stopped :: "StepId \<Rightarrow> string list \<Rightarrow> AdvanceGuard \<Rightarrow> bool" where
  "guard_stopped tid order g \<longleftrightarrow> ag_armed g \<and> sf_tick (ag_failure g) = tid \<and> progress_ok order (ag_failure g)"

definition request_ready :: "StepScheduler \<Rightarrow> ValidatedRequest \<Rightarrow> bool" where
  "request_ready s r \<longleftrightarrow> (\<forall>input. (input, External) \<in> set (sg_inputs (plan_graph (sch_plan s))) \<longrightarrow>
     bt_get (vr_inputs r) input \<noteq> None)"

lemma node_inputs_Some:
  assumes "\<And>ns. ns \<in> set (node_routes (plan_graph (sch_plan s)) inst) \<Longrightarrow> input_value s r outs ns \<noteq> None"
  shows "\<exists>ins. node_inputs s r outs inst = Some ins"
proof (cases "node_inputs s r outs inst")
  case None
  then have "None \<in> set (map (\<lambda>ns. map_option (Pair (si_port (fst ns))) (input_value s r outs ns))
      (node_routes (plan_graph (sch_plan s)) inst))"
    by (simp add: node_inputs_def those_None_iff)
  then obtain ns where "ns \<in> set (node_routes (plan_graph (sch_plan s)) inst)" "input_value s r outs ns = None"
    by auto
  then show ?thesis
    using assms by simp
qed simp

lemma delayed_in: "(input, PreviousTick src init) \<in> set (sg_inputs g) \<Longrightarrow> src \<in> set (delayed_sources g)"
  by (force simp: delayed_sources_def)

lemma input_available:
  assumes inv: "sched_inv s" and ready: "request_ready s r"
    and outs: "outs_ok (sg_nodes (plan_graph (sch_plan s))) pre outs"
    and order: "plan_order (sch_plan s) = pre @ inst # post"
    and ns: "ns \<in> set (node_routes (plan_graph (sch_plan s)) inst)"
  shows "input_value s r outs ns \<noteq> None"
proof -
  let ?g = "plan_graph (sch_plan s)"
  obtain input src where e: "ns = (input, src)"
    by (cases ns)
  have mem: "(input, src) \<in> set (sg_inputs ?g)" and inst: "si_instance input = inst"
    using ns by (auto simp: e node_routes_def)
  have compiled: "Plan_compile ?g = Inr (sch_plan s)"
    using inv by (simp add: sched_inv_def)
  have w: "wired (sg_nodes ?g) (input, src)"
    using Plan_compile_wired [OF compiled] mem by blast
  show ?thesis
  proof (cases src)
    case External
    then show ?thesis
      using ready mem by (auto simp: e input_value_def request_ready_def)
  next
    case (SameTick out)
    have ex: "execution_order ?g (pre @ inst # post)"
      using compiled_order [OF compiled] order by simp
    then have "precedes (pre @ inst # post) (so_instance out) inst"
      using mem SameTick inst by (auto simp: execution_order_def)
    moreover have "inst \<notin> set pre"
      using ex by (auto simp: execution_order_def)
    ultimately have "so_instance out \<in> set pre"
      by (auto simp: precedes_def takeWhile_append split: if_splits)
    moreover have "node_output (sg_nodes ?g) out \<noteq> None"
      using w SameTick by (auto simp: wired_def output_typed_def)
    ultimately have "typed_at (sg_nodes ?g) outs out"
      using outs unfolding outs_ok_def by metis
    then show ?thesis
      by (auto simp: e SameTick input_value_def typed_at_def)
  next
    case (PreviousTick out init)
    then show ?thesis
      using inv delayed_in [of input out init ?g] mem
      by (auto simp: e input_value_def sched_inv_def typed_at_def)
  qed
qed

lemma guard_at_new: "guard_at tid [] (guard_new tid)"
  by (simp add: guard_at_def guard_new_def)

text \<open>Handing out the next node of the order and recording its completion.\<close>

lemma guard_dispatch_stopped:
  assumes "guard_at tid pre g" and "order = pre @ inst # post"
  shows "guard_stopped tid order (guard_dispatch inst g)"
    and "guard_stopped tid order (set_failure kind detail (guard_dispatch inst g))"
    and "guard_stopped tid order (set_failure kind detail ((guard_dispatch inst g)
           \<lparr>ag_failure := (ag_failure (guard_dispatch inst g))\<lparr>sf_port := port\<rparr>\<rparr>))"
  using assms
  by (auto simp: guard_at_def guard_stopped_def guard_dispatch_def set_failure_def progress_ok_def prefix_def)

lemma guard_completed:
  assumes "guard_at tid pre g"
  shows "guard_at tid (pre @ [inst]) ((guard_dispatch inst g)
    \<lparr>ag_failure := (ag_failure (guard_dispatch inst g))
      \<lparr>sf_completed := sf_completed (ag_failure (guard_dispatch inst g)) @ [inst]\<rparr>\<rparr>)"
  using assms by (simp add: guard_at_def guard_dispatch_def)

fun run_ok :: "StepScheduler \<Rightarrow> StepId \<Rightarrow> run_stop + AdvanceGuard \<times> outputs \<Rightarrow> bool" where
  "run_ok s tid (Inr (g, outs)) \<longleftrightarrow>
     outs_ok (sg_nodes (plan_graph (sch_plan s))) (plan_order (sch_plan s)) outs \<and> guard_at tid (plan_order (sch_plan s)) g"
| "run_ok s tid (Inl (Stop_Fail g)) \<longleftrightarrow> guard_stopped tid (plan_order (sch_plan s)) g"
| "run_ok s tid (Inl (Stop_Abandon g)) \<longleftrightarrow> guard_stopped tid (plan_order (sch_plan s)) g"
| "run_ok s tid (Inl (Stop_Panic g)) \<longleftrightarrow> False"

lemma node_schema:
  assumes "sched_inv s" and "inst \<in> set (plan_order (sch_plan s))"
  obtains schema where "bt_get (sg_nodes (plan_graph (sch_plan s))) inst = Some schema" and "bt_wf (ss_outputs schema)"
proof -
  let ?g = "plan_graph (sch_plan s)"
  have wf: "graph_wf ?g" and "execution_order ?g (plan_order (sch_plan s))"
    using assms(1) compiled_order by (auto simp: sched_inv_def)
  then have "inst \<in> fst ` set (sg_nodes ?g)"
    using assms(2) by (simp add: execution_order_def)
  then obtain schema where m: "(inst, schema) \<in> set (sg_nodes ?g)"
    by auto
  then have "bt_get (sg_nodes ?g) inst = Some schema" "bt_wf (ss_outputs schema)"
    using wf bt.get_Some_iff [of "sg_nodes ?g"] by (auto simp: graph_wf_def)
  then show thesis
    using that by blast
qed

lemma run_nodes_ok:
  assumes inv: "sched_inv s" and ready: "request_ready s r" and exec: "wf_executor invoke"
  shows "plan_order (sch_plan s) = pre @ insts \<Longrightarrow> outs_ok (sg_nodes (plan_graph (sch_plan s))) pre outs \<Longrightarrow>
    guard_at tid pre g \<Longrightarrow> run_ok s tid (fst (run_nodes invoke s r insts g outs x))"
proof (induction insts arbitrary: pre g outs x)
  case Nil
  then show ?case
    by simp
next
  case (Cons inst insts)
  let ?nodes = "sg_nodes (plan_graph (sch_plan s))"
  obtain ins where ins: "node_inputs s r outs inst = Some ins"
    using node_inputs_Some input_available [OF inv ready Cons.prems(2,1)] by blast
  obtain schema where schema: "bt_get ?nodes inst = Some schema" "bt_wf (ss_outputs schema)"
    using node_schema [OF inv, of inst] Cons.prems(1) by auto
  have new: "inst \<notin> set pre"
    using inv compiled_order Cons.prems(1) by (fastforce simp: sched_inv_def execution_order_def)
  note stopped = guard_dispatch_stopped [OF Cons.prems(3,1)]
  obtain run y where invoke: "invoke x inst (vr_tick r) ins = (run, y)"
    by (cases "invoke x inst (vr_tick r) ins")
  show ?case
  proof (cases run)
    case Abandoned
    then show ?thesis
      using ins invoke stopped(1) by (simp add: Let_def)
  next
    case (NodeRun result disposal)
    show ?thesis
    proof (cases "catch_node result disposal")
      case (Inl e)
      then show ?thesis
        using ins invoke stopped(2) NodeRun by (cases e) (simp add: Let_def)
    next
      case (Inr no)
      have wf: "bt_wf no"
        using exec invoke NodeRun Inr unfolding wf_executor_def catch_node_Inr by (metis fst_conv)
      show ?thesis
      proof (cases "invalid_output (ss_outputs schema) no")
        case (Some e)
        then show ?thesis
          using ins invoke stopped(3) NodeRun Inr schema by (cases e) (simp add: Let_def)
      next
        case None
        have "run_ok s tid (fst (run_nodes invoke s r insts
            ((guard_dispatch inst g)\<lparr>ag_failure := (ag_failure (guard_dispatch inst g))
              \<lparr>sf_completed := sf_completed (ag_failure (guard_dispatch inst g)) @ [inst]\<rparr>\<rparr>)
            (bt_extend outs (node_outputs_at inst no)) y))"
          by (rule Cons.IH [of "pre @ [inst]"])
            (use Cons.prems None wf schema new in \<open>simp_all add: outs_ok_step guard_completed\<close>)
        then show ?thesis
          using ins invoke NodeRun Inr schema None by (simp add: Let_def)
      qed
    qed
  qed
qed

section \<open>Validated requests\<close>

lemma try_for_abort: "try_for body xs () = Inl e \<Longrightarrow> \<exists>x \<in> set xs. body x () = Inl e"
proof (induction xs)
  case (Cons x xs)
  then show ?case
    by (cases "body x ()") auto
qed simp

lemma validate_ready:
  assumes "StepRequest_validate req (sch_plan s) clk = Inr r"
  shows "request_ready s r"
proof -
  have "check_external (plan_graph (sch_plan s)) (req_inputs req) ns () = Inr ()"
    if "ns \<in> set (sg_inputs (plan_graph (sch_plan s)))" for ns
    using assms that by (auto simp: StepRequest_validate_def res_simps try_for_unit split: if_splits)
  moreover have "vr_inputs r = req_inputs req"
    using assms by (auto simp: StepRequest_validate_def res_simps split: if_splits)
  ultimately show ?thesis
    by (force simp: request_ready_def check_external_def res_simps)
qed

lemma validate_tick:
  assumes "StepRequest_validate req (sch_plan s) (sched_clock s) = Inr r"
  shows "tick_id (vr_tick r) = \<lparr>id_epoch = sch_epoch s, id_index = sch_next_index s\<rparr>"
    and "tick_start (vr_tick r) = sch_time s" and "tick_dt (vr_tick r) = req_dt req"
    and "duration_checked_add (sch_time s) (req_dt req) = Some (tick_end (vr_tick r))"
    and "unat (vr_next_index r) = unat (sch_next_index s) + 1"
    and "vr_inputs r = req_inputs req" and "\<not> duration_is_zero (req_dt req)"
  using assms
  by (auto simp: StepRequest_validate_def res_simps sched_clock_def u64_checked_add_Some split: if_splits)

lemma validate_request_no_panic:
  assumes "sched_inv s"
  shows "StepRequest_validate req (sch_plan s) clk \<noteq> Inl Abort_Panic"
proof
  let ?g = "plan_graph (sch_plan s)"
  assume panic: "StepRequest_validate req (sch_plan s) clk = Inl Abort_Panic"
  have bind: "rbind m f = Inl e \<longleftrightarrow> m = Inl e \<or> (\<exists>v. m = Inr v \<and> f v = Inl e)"
    for m :: "StepRequestError abort + 'v" and f :: "'v \<Rightarrow> StepRequestError abort + 'w" and e
    by (cases m) auto
  have "try_for (check_supplied ?g) (map fst (req_inputs req)) () = Inl Abort_Panic
      \<or> try_for (check_external ?g (req_inputs req)) (sg_inputs ?g) () = Inl Abort_Panic"
    using panic by (auto simp: StepRequest_validate_def and_then_def bind ok_or_def split: if_splits option.splits)
  then have "\<exists>ns \<in> set (sg_inputs ?g). check_external ?g (req_inputs req) ns () = Inl Abort_Panic"
    by (auto dest!: try_for_abort simp: check_supplied_def split: option.splits StepSource.splits)
  then obtain input where "(input, External) \<in> set (sg_inputs ?g)" and "node_input (sg_nodes ?g) input = None"
    by (auto simp: check_external_def bind ok_or_def split: StepSource.splits option.splits if_splits)
  then show False
    using Plan_compile_wired [of ?g "sch_plan s"] assms by (force simp: sched_inv_def wired_def)
qed

lemma retain_outputs_Some:
  assumes "\<And>src. src \<in> set (delayed_sources g) \<Longrightarrow> bt_get outs src \<noteq> None"
  shows "\<exists>previous. retain_outputs g outs = Some previous
    \<and> (\<forall>src. bt_get previous src = (if src \<in> set (delayed_sources g) then bt_get outs src else None))"
proof -
  let ?kvs = "map (\<lambda>src. (src, the (bt_get outs src))) (delayed_sources g)"
  have "retain_outputs g outs = Some (bt_extend [] ?kvs)"
    unfolding retain_outputs_def by (subst those_map_Pair [where h = "\<lambda>src. the (bt_get outs src)"]) (use assms in auto)
  moreover have "bt_get (bt_extend [] ?kvs) src = (if src \<in> set (delayed_sources g) then bt_get outs src else None)" for src
  proof -
    have "map_of (map (\<lambda>src. (src, f src)) xs) k = (if k \<in> set xs then Some (f k) else None)"
      for f :: "StepOutput \<Rightarrow> StepValue" and xs k
      by (induction xs) auto
    then show ?thesis
      using assms [of src] by (auto simp: bt_extend_Nil_get rev_map)
  qed
  ultimately show ?thesis
    by blast
qed

lemma delayed_declared:
  assumes "sched_inv s" and "src \<in> set (delayed_sources (plan_graph (sch_plan s)))"
  shows "node_output (sg_nodes (plan_graph (sch_plan s))) src \<noteq> None" and "so_instance src \<in> set (plan_order (sch_plan s))"
proof -
  let ?g = "plan_graph (sch_plan s)"
  have compiled: "Plan_compile ?g = Inr (sch_plan s)"
    using assms(1) by (simp add: sched_inv_def)
  obtain input init where "(input, PreviousTick src init) \<in> set (sg_inputs ?g)"
    using assms(2) by (auto simp: delayed_sources_def split: StepSource.splits)
  then have "wired (sg_nodes ?g) (input, PreviousTick src init)"
    using Plan_compile_wired [OF compiled] by blast
  then have t: "\<exists>t. output_typed (sg_nodes ?g) t src"
    by (auto simp: wired_def)
  then show "node_output (sg_nodes ?g) src \<noteq> None"
    by (auto simp: output_typed_def)
  show "so_instance src \<in> set (plan_order (sch_plan s))"
    using t output_typed_instance compiled_order [OF compiled] by (auto simp: execution_order_def)
qed

end
