(* ===== verification/Step_Advance.thy ===== *)
theory Step_Advance
  imports Step_Invariant
begin

text \<open>
  The outcomes of one advancement, the states a scheduler can reach, and the trace of node
  invocations. The four outcomes are collected once, in \<open>advance_outcome\<close>; the properties of
  \<^verbatim>\<open>Step_Correct\<close> rest on it.
\<close>

section \<open>Outcomes\<close>

lemma order_nonempty: "sched_inv s \<Longrightarrow> plan_order (sch_plan s) \<noteq> []"
proof -
  assume inv: "sched_inv s"
  then have "Plan_compile (plan_graph (sch_plan s)) = Inr (sch_plan s)"
    by (simp add: sched_inv_def)
  then have "sg_nodes (plan_graph (sch_plan s)) \<noteq> []" "execution_order (plan_graph (sch_plan s)) (plan_order (sch_plan s))"
    using compiled_order by (auto simp: Plan_compile_Inr)
  then show ?thesis
    by (auto simp: execution_order_def)
qed

definition faulted_with :: "StepScheduler \<Rightarrow> StepFailure \<Rightarrow> StepScheduler \<Rightarrow> bool" where
  "faulted_with s f s' \<longleftrightarrow> sch_fault s = None \<and> s' = s\<lparr>sch_fault := Some f\<rparr>
     \<and> progress_ok (plan_order (sch_plan s)) f
     \<and> sf_tick f = \<lparr>id_epoch = sch_epoch s, id_index = sch_next_index s\<rparr>"

definition committed :: "StepRequest \<Rightarrow> StepScheduler \<Rightarrow> StepReceipt \<Rightarrow> StepScheduler \<Rightarrow> bool" where
  "committed req s rc s' \<longleftrightarrow> (\<exists>r previous. sch_fault s = None
     \<and> StepRequest_validate req (sch_plan s) (sched_clock s) = Inr r \<and> rc_tick rc = vr_tick r
     \<and> outs_ok (sg_nodes (plan_graph (sch_plan s))) (plan_order (sch_plan s)) (rc_outputs rc)
     \<and> (\<forall>src. bt_get previous src = (if src \<in> set (delayed_sources (plan_graph (sch_plan s)))
          then bt_get (rc_outputs rc) src else None))
     \<and> s' = s\<lparr>sch_previous := previous, sch_time := tick_end (vr_tick r), sch_next_index := vr_next_index r\<rparr>)"

lemma commit_tick_outcome:
  assumes inv: "sched_inv s" and fault: "sch_fault s = None"
    and r: "StepRequest_validate req (sch_plan s) (sched_clock s) = Inr r"
    and outs: "outs_ok (sg_nodes (plan_graph (sch_plan s))) (plan_order (sch_plan s)) outs"
    and guard: "guard_at (tick_id (vr_tick r)) (plan_order (sch_plan s)) g"
    and commit: "commit_tick control s r g outs = (res, s')"
  shows "(\<exists>f. res = Returned (Inl (Sched_Failed f)) \<and> faulted_with s f s')
    \<or> (\<exists>rc. res = Returned (Inr rc) \<and> rc_outputs rc = outs \<and> committed req s rc s')"
proof -
  let ?g = "plan_graph (sch_plan s)"
  have "bt_get outs src \<noteq> None" if "src \<in> set (delayed_sources ?g)" for src
    using delayed_declared [OF inv that] outs unfolding outs_ok_def typed_at_def by (metis option.distinct(1))
  then obtain previous where prev: "retain_outputs ?g outs = Some previous"
    "\<forall>src. bt_get previous src = (if src \<in> set (delayed_sources ?g) then bt_get outs src else None)"
    using retain_outputs_Some [of ?g outs] by blast
  let ?rc = "\<lparr>rc_tick = vr_tick r, rc_outputs = outs\<rparr>"
  let ?clk = "\<lparr>cs_epoch = sch_epoch s, cs_next_index = vr_next_index r, cs_time = tick_end (vr_tick r),
    cs_phase = Phase_Ready\<rparr>"
  show ?thesis
  proof (cases "control ?rc ?clk")
    case None
    then have "res = Returned (Inr ?rc)"
      "s' = s\<lparr>sch_previous := previous, sch_time := tick_end (vr_tick r), sch_next_index := vr_next_index r\<rparr>"
      using commit prev(1) by (auto simp: commit_tick_def Let_def)
    moreover from this have "committed req s ?rc s'"
      unfolding committed_def using fault r outs prev(2) by (intro exI [of _ r] exI [of _ previous]) simp
    ultimately show ?thesis
      by (intro disjI2 exI [of _ ?rc]) simp
  next
    case (Some kind)
    let ?f = "ag_failure (set_failure kind ''host rejected bookkeeping commit; effects may persist'' g)"
    have "res = Returned (Inl (Sched_Failed ?f))" "s' = s\<lparr>sch_fault := Some ?f\<rparr>"
      using commit prev(1) Some by (auto simp: commit_tick_def Let_def)
    moreover have "progress_ok (plan_order (sch_plan s)) ?f"
      using guard order_nonempty [OF inv] by (auto simp: guard_at_def progress_ok_def set_failure_def)
    moreover have "sf_tick ?f = \<lparr>id_epoch = sch_epoch s, id_index = sch_next_index s\<rparr>"
      using guard validate_tick(1) [OF r] by (simp add: guard_at_def set_failure_def)
    ultimately show ?thesis
      using fault by (auto simp: faulted_with_def)
  qed
qed

lemma advance_outcome:
  assumes inv: "sched_inv s" and exec: "wf_executor invoke"
    and adv: "advance_controlled invoke control req s x = (res, s', x')"
  obtains (faulted) f where "sch_fault s = Some f" "res = Returned (Inl (Sched_Faulted f))" "s' = s" "x' = x"
  | (rejected) e where "sch_fault s = None" "res = Returned (Inl (Sched_Request e))" "s' = s" "x' = x"
      "StepRequest_validate req (sch_plan s) (sched_clock s) = Inl (Abort e)"
  | (failed) f where "res = Returned (Inl (Sched_Failed f)) \<or> res = Future_Dropped" "faulted_with s f s'"
  | (committed) rc where "res = Returned (Inr rc)" "committed req s rc s'"
proof (cases "sch_fault s")
  case (Some f)
  show thesis
    by (rule faulted [OF Some]) (use adv Some in \<open>simp_all add: advance_controlled_def\<close>)
next
  case None
  show thesis
  proof (cases "StepRequest_validate req (sch_plan s) (sched_clock s)")
    case (Inl e)
    then obtain q where q: "StepRequest_validate req (sch_plan s) (sched_clock s) = Inl (Abort q)"
      using validate_request_no_panic [OF inv, of req "sched_clock s"] by (cases e) auto
    show thesis
      by (rule rejected [OF None _ _ _ q]) (use adv None q in \<open>simp_all add: advance_controlled_def\<close>)
  next
    case (Inr r)
    note valid = Inr
    let ?run = "run_nodes invoke s r (plan_order (sch_plan s)) (guard_new (tick_id (vr_tick r))) [] x"
    obtain out y where run: "?run = (out, y)"
      by (cases ?run)
    have ok: "run_ok s (tick_id (vr_tick r)) out"
      using run_nodes_ok [OF inv validate_ready [OF Inr] exec, of "[]" "plan_order (sch_plan s)" "[]"
          "tick_id (vr_tick r)" "guard_new (tick_id (vr_tick r))" x] run
      by (simp add: outs_ok_Nil guard_at_new)
    have stop: "faulted_with s (ag_failure g) (s\<lparr>sch_fault := Some (ag_failure g)\<rparr>)"
      if "guard_stopped (tick_id (vr_tick r)) (plan_order (sch_plan s)) g" for g
      using that None validate_tick(1) [OF Inr] by (simp add: faulted_with_def guard_stopped_def)
    show thesis
    proof (cases out)
      case (Inl st)
      show thesis
      proof (cases st)
        case (Stop_Fail g)
        have "res = Returned (Inl (Sched_Failed (ag_failure g)))" "s' = s\<lparr>sch_fault := Some (ag_failure g)\<rparr>"
          using adv None Inr run Inl Stop_Fail by (simp_all add: advance_controlled_def)
        moreover have "guard_stopped (tick_id (vr_tick r)) (plan_order (sch_plan s)) g"
          using ok Inl Stop_Fail by simp
        ultimately show thesis
          using failed [of "ag_failure g"] stop by blast
      next
        case (Stop_Abandon g)
        have g: "guard_stopped (tick_id (vr_tick r)) (plan_order (sch_plan s)) g"
          using ok Inl Stop_Abandon by simp
        then have "guard_drop False g None = Some (ag_failure g)"
          by (simp add: guard_drop_def guard_stopped_def)
        then have "res = Future_Dropped" "s' = s\<lparr>sch_fault := Some (ag_failure g)\<rparr>"
          using adv None Inr run Inl Stop_Abandon by (simp_all add: advance_controlled_def)
        then show thesis
          using failed [of "ag_failure g"] stop [OF g] by blast
      next
        case (Stop_Panic g)
        then show thesis
          using ok Inl by simp
      qed
    next
      case (Inr go)
      obtain g outs where go: "go = (g, outs)"
        by (cases go)
      obtain res' t where ct: "commit_tick control s r g outs = (res', t)"
        by (cases "commit_tick control s r g outs")
      have eq: "res = res'" "s' = t"
        using adv None valid run Inr go ct by (simp_all add: advance_controlled_def)
      have "run_ok s (tick_id (vr_tick r)) (Inr (g, outs))"
        using ok Inr go by simp
      then have "outs_ok (sg_nodes (plan_graph (sch_plan s))) (plan_order (sch_plan s)) outs"
        "guard_at (tick_id (vr_tick r)) (plan_order (sch_plan s)) g"
        by simp_all
      from commit_tick_outcome [OF inv None valid this ct] show thesis
        using failed committed unfolding eq by blast
    qed
  qed
qed

section \<open>Reachable schedulers\<close>

lemma committed_inv:
  assumes inv: "sched_inv s" and "committed req s rc s'" and "duration_wf (req_dt req)"
  shows "sched_inv s'"
proof -
  let ?g = "plan_graph (sch_plan s)"
  from assms(2) obtain r previous where r: "StepRequest_validate req (sch_plan s) (sched_clock s) = Inr r"
    and outs: "outs_ok (sg_nodes ?g) (plan_order (sch_plan s)) (rc_outputs rc)" and fault: "sch_fault s = None"
    and prev: "\<And>src. bt_get previous src = (if src \<in> set (delayed_sources ?g) then bt_get (rc_outputs rc) src else None)"
    and s': "s' = s\<lparr>sch_previous := previous, sch_time := tick_end (vr_tick r), sch_next_index := vr_next_index r\<rparr>"
    by (auto simp: committed_def)
  have "typed_at (sg_nodes ?g) previous src" if "src \<in> set (delayed_sources ?g)" for src
  proof -
    have "typed_at (sg_nodes ?g) (rc_outputs rc) src"
      using delayed_declared [OF inv that] outs unfolding outs_ok_def by metis
    then show ?thesis
      using prev [of src] that by (simp add: typed_at_def)
  qed
  moreover have "duration_wf (tick_end (vr_tick r))"
    using duration_checked_add_exact(1) [OF _ assms(3) validate_tick(4) [OF r]] inv by (simp add: sched_inv_def)
  ultimately show ?thesis
    using inv fault by (simp add: s' sched_inv_def)
qed

lemma faulted_with_inv: "sched_inv s \<Longrightarrow> faulted_with s f s' \<Longrightarrow> sched_inv s'"
  by (auto simp: sched_inv_def faulted_with_def)

lemma advance_inv:
  assumes "sched_inv s" and "wf_executor invoke" and "duration_wf (req_dt req)"
    and "advance_controlled invoke control req s x = (res, s', x')"
  shows "sched_inv s' \<and> res \<noteq> Unwound"
  using assms(1,2,4)
proof (cases rule: advance_outcome)
  case (failed f)
  then show ?thesis
    using faulted_with_inv [OF assms(1) failed(2)] by auto
next
  case (committed rc)
  then show ?thesis
    using committed_inv [OF assms(1) committed(2) assms(3)] by simp
qed (use assms(1) in simp_all)

lemma interrupted_inv: "sched_inv s \<Longrightarrow> sched_inv (snd (interrupted kind s))"
proof (cases "sch_fault s")
  case (Some f)
  assume "sched_inv s"
  with Some show ?thesis
    by (simp add: interrupted_def sched_inv_def progress_ok_def Let_def)
qed (simp add: interrupted_def)

lemma new_inv:
  assumes "StepScheduler_new g t n = (Inr s, n')" and "graph_wf g" and "duration_wf t"
  shows "sched_inv s"
proof -
  obtain p where p: "Plan_compile g = Inr p"
    using assms(1) by (cases "Plan_compile g") (auto simp: StepScheduler_new_def)
  then have "plan_graph p = g"
    by (simp add: Plan_compile_Inr)
  then show ?thesis
    using assms p by (auto simp: StepScheduler_new_def sched_inv_def split: option.splits)
qed

text \<open>Everything a program can do with one scheduler: create it, advance it with any request and any
  commit gate, let the host record an interruption; the executor's own state may change in between.\<close>

inductive sched_reach :: "'x executor \<Rightarrow> StepScheduler \<Rightarrow> 'x \<Rightarrow> bool" for invoke where
  created: "StepScheduler_new g t n = (Inr s, n') \<Longrightarrow> graph_wf g \<Longrightarrow> duration_wf t \<Longrightarrow> sched_reach invoke s x"
| advanced: "sched_reach invoke s x \<Longrightarrow> duration_wf (req_dt req) \<Longrightarrow>
    advance_controlled invoke control req s x = (res, s', x') \<Longrightarrow> sched_reach invoke s' x'"
| interruption: "sched_reach invoke s x \<Longrightarrow> sched_reach invoke (snd (interrupted kind s)) x"
| between: "sched_reach invoke s x \<Longrightarrow> sched_reach invoke s y"

lemma sched_reach_sched_inv: "sched_reach invoke s x \<Longrightarrow> wf_executor invoke \<Longrightarrow> sched_inv s"
proof (induction rule: sched_reach.induct)
  case (created g t n s n' x)
  then show ?case
    using new_inv by blast
next
  case (advanced s x req control res s' x')
  then show ?case
    using advance_inv [OF advanced.IH [OF advanced.prems] advanced.prems advanced.hyps(2,3)] by simp
next
  case (interruption s x kind)
  then show ?case
    using interrupted_inv by blast
qed

section \<open>The trace of a run\<close>

lemma run_nodes_Cons_Inr:
  assumes "run_nodes invoke s r (inst # insts) g outs x = (Inr (g', outs'), x')"
  obtains ins no y schema g1 where "node_inputs s r outs inst = Some ins"
    and "invoke x inst (vr_tick r) ins = (NodeRun (Inr (Inr no)) (Inr ()), y)"
    and "bt_get (sg_nodes (plan_graph (sch_plan s))) inst = Some schema"
    and "invalid_output (ss_outputs schema) no = None"
    and "run_nodes invoke s r insts g1 (bt_extend outs (node_outputs_at inst no)) y = (Inr (g', outs'), x')"
proof -
  obtain ins where ins: "node_inputs s r outs inst = Some ins"
    using assms by (cases "node_inputs s r outs inst") auto
  obtain run y where run: "invoke x inst (vr_tick r) ins = (run, y)"
    by (cases "invoke x inst (vr_tick r) ins")
  obtain result disposal where nr: "run = NodeRun result disposal"
    using assms ins run by (cases run) (auto simp: Let_def)
  obtain no where no: "catch_node result disposal = Inr no"
    using assms ins run nr by (cases "catch_node result disposal") (auto simp: Let_def)
  obtain schema where schema: "bt_get (sg_nodes (plan_graph (sch_plan s))) inst = Some schema"
    using assms ins run nr no by (cases "bt_get (sg_nodes (plan_graph (sch_plan s))) inst") (auto simp: Let_def)
  have valid: "invalid_output (ss_outputs schema) no = None"
    using assms ins run nr no schema by (cases "invalid_output (ss_outputs schema) no") (auto simp: Let_def)
  from no have "result = Inr (Inr no)" "disposal = Inr ()"
    by (simp_all add: catch_node_Inr)
  then show thesis
    using that [OF ins _ schema valid] assms ins run nr no schema valid by (simp add: Let_def)
qed

lemma order_split:
  assumes inv: "sched_inv s" and "plan_order (sch_plan s) = pre @ inst # post"
  shows "inst \<notin> set pre" and "inst \<notin> set post" and "set pre \<inter> set post = {}"
  using inv compiled_order assms(2) by (fastforce simp: sched_inv_def execution_order_def)+

lemma same_tick_before:
  assumes inv: "sched_inv s" and "plan_order (sch_plan s) = pre @ inst # post"
    and "(input, SameTick out) \<in> set (node_routes (plan_graph (sch_plan s)) inst)"
  shows "so_instance out \<in> set pre"
proof -
  have "execution_order (plan_graph (sch_plan s)) (plan_order (sch_plan s))"
    using inv compiled_order by (simp add: sched_inv_def)
  then have "precedes (pre @ inst # post) (so_instance out) inst"
    using assms(2,3) by (auto simp: execution_order_def node_routes_def)
  then show ?thesis
    using order_split(1) [OF assms(1,2)] by (auto simp: precedes_def takeWhile_append split: if_splits)
qed

text \<open>A node's inputs depend only on the outputs of the nodes before it.\<close>

lemma node_inputs_cong:
  assumes inv: "sched_inv s" and "plan_order (sch_plan s) = pre @ inst # post"
    and "\<And>out. so_instance out \<in> set pre \<Longrightarrow> bt_get outs out = bt_get outs' out"
  shows "node_inputs s r outs inst = node_inputs s r outs' inst"
proof -
  have "input_value s r outs ns = input_value s r outs' ns"
    if ns: "ns \<in> set (node_routes (plan_graph (sch_plan s)) inst)" for ns
  proof (cases "snd ns")
    case (SameTick out)
    then have "so_instance out \<in> set pre"
      using same_tick_before [OF assms(1,2), of "fst ns" out] ns by (metis prod.collapse)
    then show ?thesis
      using assms(3) SameTick by (simp add: input_value_def)
  qed (simp_all add: input_value_def)
  then have "map (\<lambda>ns. map_option (Pair (si_port (fst ns))) (input_value s r outs ns))
        (node_routes (plan_graph (sch_plan s)) inst)
      = map (\<lambda>ns. map_option (Pair (si_port (fst ns))) (input_value s r outs' ns))
        (node_routes (plan_graph (sch_plan s)) inst)"
    by simp
  then show ?thesis
    by (simp only: node_inputs_def)
qed

lemma step_outputs:
  assumes inv: "sched_inv s" and "wf_executor invoke" and "plan_order (sch_plan s) = pre @ inst # post"
    and "outs_ok (sg_nodes (plan_graph (sch_plan s))) pre outs"
    and "invoke x inst t ins = (NodeRun (Inr (Inr no)) (Inr ()), y)"
    and "bt_get (sg_nodes (plan_graph (sch_plan s))) inst = Some schema"
    and "invalid_output (ss_outputs schema) no = None"
  shows "outs_ok (sg_nodes (plan_graph (sch_plan s))) (pre @ [inst]) (bt_extend outs (node_outputs_at inst no))"
    and "bt_get (bt_extend outs (node_outputs_at inst no)) out =
      (if so_instance out = inst then bt_get no (so_port out) else bt_get outs out)"
proof -
  have wf: "bt_wf no"
    using assms(2,5) unfolding wf_executor_def by (metis fst_conv)
  have "inst \<in> set (plan_order (sch_plan s))"
    using assms(3) by simp
  then obtain schema' where "bt_get (sg_nodes (plan_graph (sch_plan s))) inst = Some schema'" "bt_wf (ss_outputs schema')"
    using node_schema [OF inv] by blast
  then show "outs_ok (sg_nodes (plan_graph (sch_plan s))) (pre @ [inst]) (bt_extend outs (node_outputs_at inst no))"
    using outs_ok_step [OF assms(4,6) order_split(1) [OF inv assms(3)] assms(7) wf] assms(6) by simp
  have "bt_get outs out = None" if "so_instance out = inst"
    using assms(4) order_split(1) [OF inv assms(3)] that unfolding outs_ok_def by metis
  then show "bt_get (bt_extend outs (node_outputs_at inst no)) out =
      (if so_instance out = inst then bt_get no (so_port out) else bt_get outs out)"
    using assms(4) wf by (simp add: node_outputs_at_get outs_ok_def split: option.splits)
qed

lemma run_keeps:
  assumes inv: "sched_inv s" and "wf_executor invoke"
  shows "plan_order (sch_plan s) = pre @ insts \<Longrightarrow> outs_ok (sg_nodes (plan_graph (sch_plan s))) pre outs \<Longrightarrow>
    run_nodes invoke s r insts g outs x = (Inr (g', outs'), x') \<Longrightarrow> so_instance out \<notin> set insts \<Longrightarrow>
    bt_get outs' out = bt_get outs out"
proof (induction insts arbitrary: pre g outs x)
  case (Cons inst insts)
  from Cons.prems(3) obtain ins no y schema g1
    where run: "invoke x inst (vr_tick r) ins = (NodeRun (Inr (Inr no)) (Inr ()), y)"
      and sch: "bt_get (sg_nodes (plan_graph (sch_plan s))) inst = Some schema"
      and ok: "invalid_output (ss_outputs schema) no = None"
      and tail: "run_nodes invoke s r insts g1 (bt_extend outs (node_outputs_at inst no)) y = (Inr (g', outs'), x')"
    by (rule run_nodes_Cons_Inr)
  note step = step_outputs [OF assms Cons.prems(1,2) run sch ok]
  have "bt_get outs' out = bt_get (bt_extend outs (node_outputs_at inst no)) out"
    using Cons.IH [OF _ step(1) tail] Cons.prems(1,4) by simp
  then show ?case
    using step(2) Cons.prems(4) by simp
qed simp

text \<open>An executor that also keeps a log of its invocations.\<close>

type_synonym invocation = "string \<times> StepTick \<times> StepInputs \<times> NodeRun"

definition log_executor :: "'x executor \<Rightarrow> ('x \<times> invocation list) executor" where
  "log_executor invoke xl inst t ins = (case invoke (fst xl) inst t ins of
     (run, y) \<Rightarrow> (run, y, snd xl @ [(inst, t, ins, run)]))"

lemma wf_log_executor: "wf_executor invoke \<Longrightarrow> wf_executor (log_executor invoke)"
  unfolding wf_executor_def log_executor_def by (simp add: case_prod_beta)

text \<open>A log entry fits the outputs of a run: the inputs are those the final outputs determine, and
  the node's outputs are exactly its part of them.\<close>

definition entry_fits :: "StepScheduler \<Rightarrow> ValidatedRequest \<Rightarrow> outputs \<Rightarrow> invocation \<Rightarrow> bool" where
  "entry_fits s r outs e = (case e of (inst, t, ins, run) \<Rightarrow> t = vr_tick r \<and> node_inputs s r outs inst = Some ins
     \<and> (\<exists>no. run = NodeRun (Inr (Inr no)) (Inr ()) \<and> (\<forall>port. bt_get outs (StepOutput inst port) = bt_get no port)))"

lemma run_log:
  assumes inv: "sched_inv s" and exec: "wf_executor invoke"
  shows "plan_order (sch_plan s) = pre @ insts \<Longrightarrow> outs_ok (sg_nodes (plan_graph (sch_plan s))) pre outs \<Longrightarrow>
    run_nodes (log_executor invoke) s r insts g outs (x, log) = (Inr (g', outs'), x', log') \<Longrightarrow>
    \<exists>entries. log' = log @ entries \<and> map fst entries = insts \<and> (\<forall>e \<in> set entries. entry_fits s r outs' e)"
proof (induction insts arbitrary: pre g outs x log)
  case (Cons inst insts)
  note exec' = wf_log_executor [OF exec]
  from Cons.prems(3) obtain ins no y schema g1
    where ins: "node_inputs s r outs inst = Some ins"
      and run: "log_executor invoke (x, log) inst (vr_tick r) ins = (NodeRun (Inr (Inr no)) (Inr ()), y)"
      and sch: "bt_get (sg_nodes (plan_graph (sch_plan s))) inst = Some schema"
      and ok: "invalid_output (ss_outputs schema) no = None"
      and tail: "run_nodes (log_executor invoke) s r insts g1 (bt_extend outs (node_outputs_at inst no)) y
        = (Inr (g', outs'), x', log')"
    by (rule run_nodes_Cons_Inr)
  let ?entry = "(inst, vr_tick r, ins, NodeRun (Inr (Inr no)) (Inr ()))"
  obtain z where y: "y = (z, log @ [?entry])"
    using run by (auto simp: log_executor_def split: prod.splits)
  note step = step_outputs [OF inv exec' Cons.prems(1,2) run sch ok]
  have order: "plan_order (sch_plan s) = (pre @ [inst]) @ insts"
    using Cons.prems(1) by simp
  from Cons.IH [OF order step(1) tail [unfolded y]] obtain entries
    where entries: "log' = (log @ [?entry]) @ entries" "map fst entries = insts" "\<forall>e \<in> set entries. entry_fits s r outs' e"
    by blast
  have kept: "bt_get outs' out = bt_get (bt_extend outs (node_outputs_at inst no)) out" if "so_instance out \<notin> set insts" for out
    by (rule run_keeps [OF inv exec' order step(1) tail that])
  note split = order_split [OF inv Cons.prems(1)]
  have "bt_get outs' out = bt_get outs out" if "so_instance out \<in> set pre" for out
  proof -
    have "so_instance out \<notin> set insts" "so_instance out \<noteq> inst"
      using split that by auto
    then show ?thesis
      using kept [of out] step(2) [of out] by simp
  qed
  then have "node_inputs s r outs' inst = Some ins"
    using node_inputs_cong [OF inv Cons.prems(1), of outs outs'] ins by simp
  moreover have "bt_get outs' (StepOutput inst port) = bt_get no port" for port
    using kept [of "StepOutput inst port"] step(2) [of "StepOutput inst port"] split(2) by simp
  ultimately have "entry_fits s r outs' ?entry"
    by (simp add: entry_fits_def)
  then show ?case
    using entries by (intro exI [of _ "?entry # entries"]) simp
qed simp

section \<open>The inputs of a node\<close>

lemma map_Some_Pair:
  "map (\<lambda>x. map_option (Pair (k x)) (f x)) xs = map Some kvs \<Longrightarrow>
   kvs = map (\<lambda>x. (k x, the (f x))) xs \<and> (\<forall>x \<in> set xs. f x \<noteq> None)"
proof (induction xs arbitrary: kvs)
  case (Cons x xs)
  then obtain kv kvs' where "kvs = kv # kvs'"
    by (cases kvs) auto
  with Cons show ?case
    by auto
qed simp

lemma node_inputs_get:
  assumes wf: "bt_wf (sg_inputs (plan_graph (sch_plan s)))" and ins: "node_inputs s r outs inst = Some ins"
    and mem: "(input, source) \<in> set (sg_inputs (plan_graph (sch_plan s)))" "si_instance input = inst"
  shows "bt_get ins (si_port input) = input_value s r outs (input, source)"
proof -
  let ?routes = "node_routes (plan_graph (sch_plan s)) inst"
  let ?kvs = "map (\<lambda>ns. (si_port (fst ns), the (input_value s r outs ns))) ?routes"
  from ins obtain kvs where kvs: "ins = bt_extend [] kvs"
    and eq: "map (\<lambda>ns. map_option (Pair (si_port (fst ns))) (input_value s r outs ns)) ?routes = map Some kvs"
    by (auto simp: node_inputs_def those_Some_iff)
  note k = map_Some_Pair [OF eq]
  have inj: "inj_on (\<lambda>ns. si_port (fst ns)) (set ?routes)"
  proof (rule inj_onI)
    fix a b assume ab: "a \<in> set ?routes" "b \<in> set ?routes" "si_port (fst a) = si_port (fst b)"
    then have "fst a = fst b"
      by (auto simp: node_routes_def intro: StepInput.expand)
    then show "a = b"
      using ab bt.distinct_keys [OF wf]
      by (metis eq_key_imp_eq_value filter_is_subset node_routes_def prod.collapse subsetD)
  qed
  have "distinct ?routes"
    using bt.distinct_keys [OF wf] by (simp add: node_routes_def distinct_map)
  then have "distinct (map fst (rev ?kvs))"
    using inj by (simp add: rev_map [symmetric] comp_def distinct_map)
  moreover have here: "(input, source) \<in> set ?routes"
    using mem by (simp add: node_routes_def)
  then have "(si_port input, the (input_value s r outs (input, source))) \<in> set (rev ?kvs)"
    by force
  ultimately have "map_of (rev ?kvs) (si_port input) = Some (the (input_value s r outs (input, source)))"
    by (rule map_of_is_SomeI)
  then show ?thesis
    using k here by (auto simp: kvs bt_extend_Nil_get)
qed

end
