(* ===== verification/Step_Correct.thy ===== *)
theory Step_Correct
  imports Step_Advance
begin

text \<open>
  The properties of the step engine: which graphs compile and in which order they run, what a
  scheduler keeps invariant, what a committed tick means, that a failed one changes nothing but the
  fault and is final, which values reach which node, and which requests are accepted. The example is
  a source that passes an external value on and an accumulator fed by it and by its own last sum.
\<close>

section \<open>An example\<close>

definition ex_number :: StepType where
  "ex_number = StepType_of ''step.Number'' 7"

definition ex_value :: "bytes \<Rightarrow> StepValue" where
  "ex_value bs = \<lparr>sv_step_type = ex_number, sv_bytes = bs\<rparr>"

definition ex_step_graph :: StepGraph where
  "ex_step_graph = \<lparr>
     sg_nodes = [(''acc'', \<lparr>ss_inputs = [(''fb'', ex_number), (''x'', ex_number)], ss_outputs = [(''sum'', ex_number)]\<rparr>),
                 (''src'', \<lparr>ss_inputs = [(''u'', ex_number)], ss_outputs = [(''y'', ex_number)]\<rparr>)],
     sg_inputs = [(StepInput ''acc'' ''fb'', PreviousTick (StepOutput ''acc'' ''sum'') (ex_value [0])),
                  (StepInput ''acc'' ''x'', SameTick (StepOutput ''src'' ''y'')),
                  (StepInput ''src'' ''u'', External)]\<rparr>"

definition ex_plan :: Plan where
  "ex_plan = \<lparr>plan_graph = ex_step_graph, plan_order = [''src'', ''acc'']\<rparr>"

definition ex_second :: Duration where
  "ex_second = \<lparr>dur_secs = 1, dur_nanos = 0\<rparr>"

definition ex_sched :: StepScheduler where
  "ex_sched = \<lparr>sch_plan = ex_plan, sch_epoch = 0, sch_next_index = 0, sch_time = Duration_ZERO,
     sch_previous = [], sch_fault = None\<rparr>"

definition ex_executor :: "nat executor" where
  "ex_executor x inst t ins = (NodeRun (Inr (Inr (
     if inst = ''src'' then [(''y'', the (bt_get ins ''u''))]
     else [(''sum'', ex_value (sv_bytes (the (bt_get ins ''x'')) @ sv_bytes (the (bt_get ins ''fb''))))]))) (Inr ()), Suc x)"

definition ex_request :: "bytes \<Rightarrow> StepRequest" where
  "ex_request bs = \<lparr>req_dt = ex_second, req_inputs = [(StepInput ''src'' ''u'', ex_value bs)]\<rparr>"

lemma ex_compiles: "Plan_compile ex_step_graph = Inr ex_plan"
  by code_simp

lemma ex_new: "StepScheduler_new ex_step_graph Duration_ZERO 0 = (Inr ex_sched, 1)"
  by code_simp

lemma ex_graph_wf: "graph_wf ex_step_graph"
  by code_simp

lemma ex_wf_executor: "wf_executor ex_executor"
  by (simp add: wf_executor_def ex_executor_def)

lemma ex_reach: "sched_reach ex_executor ex_sched x"
  by (rule created [OF ex_new ex_graph_wf]) (simp add: duration_wf_def Duration_ZERO_def NANOS_PER_SEC_def)

definition ex_receipt1 :: StepReceipt where
  "ex_receipt1 = \<lparr>rc_tick = \<lparr>tick_id = \<lparr>id_epoch = 0, id_index = 0\<rparr>, tick_start = Duration_ZERO, tick_dt = ex_second,
       tick_end = ex_second\<rparr>,
     rc_outputs = [(StepOutput ''acc'' ''sum'', ex_value [5, 0]), (StepOutput ''src'' ''y'', ex_value [5])]\<rparr>"

definition ex_sched1 :: StepScheduler where
  "ex_sched1 = ex_sched\<lparr>sch_next_index := 1, sch_time := ex_second,
     sch_previous := [(StepOutput ''acc'' ''sum'', ex_value [5, 0])]\<rparr>"

lemma ex_advance: "advance_controlled ex_executor DirectCommit (ex_request [5]) ex_sched 0
    = (Returned (Inr ex_receipt1), ex_sched1, 2)"
  by code_simp

section \<open>Plans\<close>

text \<open>C20. A step graph compiles exactly when it has a node, its names are well formed, every declared
  input is wired and every route has a declared destination and source of equal schema, initial
  values included, and its same-tick edges form no cycle.\<close>

theorem plan_compile_exact: "(\<exists>p. Plan_compile g = Inr p) \<longleftrightarrow> plan_ok g"
  by (rule Plan_compile_ok)

text \<open>C21. The compiled order is the lexically least execution order: it runs every node once, each
  after the nodes whose same-tick outputs it reads, and no other such order precedes it.\<close>

theorem plan_order_least:
  assumes "Plan_compile g = Inr p"
  shows "execution_order g (plan_order p) \<and> (\<forall>ys. execution_order g ys \<longrightarrow> plan_order p \<le> ys)"
proof -
  note wired = Plan_compile_wired [OF assms]
  have "topo_order (graph_deps g) [] = Inr ([] @ plan_order p)"
    using assms by (simp add: Plan_compile_Inr)
  then have "plan_order p \<le> ys" if "execution_order g ys" for ys
    using topo_order_least [OF graph_deps_facts(1) [OF wired], of "[]" "plan_order p" ys]
      that execution_order_topological [OF wired] by simp
  then show ?thesis
    using compiled_order [OF assms] by blast
qed

theorem plan_order_least_witness:
  "execution_order ex_step_graph [''src'', ''acc''] \<and> \<not> execution_order ex_step_graph [''acc'', ''src'']"
proof -
  have "\<not> ([''src'', ''acc''] \<le> [''acc'', ''src''])"
    by code_simp
  then show ?thesis
    using plan_order_least [OF ex_compiles] by (auto simp: ex_plan_def)
qed

section \<open>The scheduler\<close>

text \<open>C22. Whatever a program does with a scheduler, the invariant holds: the plan is the compiled
  graph, the delayed store holds a well-typed value for every delayed source once a tick has been
  committed, a fault names the current tick and a prefix of the order; and no advancement unwinds
  from an absent map key.\<close>

theorem sched_reach_inv:
  assumes "wf_executor invoke" and "sched_reach invoke s x" and "duration_wf (req_dt req)"
  shows "sched_inv s \<and> fst (advance_controlled invoke control req s x) \<noteq> Unwound"
proof -
  have inv: "sched_inv s"
    using sched_reach_sched_inv [OF assms(2,1)] .
  obtain res s' x' where "advance_controlled invoke control req s x = (res, s', x')"
    by (cases "advance_controlled invoke control req s x")
  then show ?thesis
    using inv advance_inv [OF inv assms(1,3)] by simp
qed

lemma ex_request_wf: "duration_wf (req_dt (ex_request bs))"
  by (simp add: duration_wf_def ex_request_def ex_second_def NANOS_PER_SEC_def)

theorem sched_reach_inv_witness:
  "sched_inv ex_sched1 \<and> fst (advance_controlled ex_executor DirectCommit (ex_request [7]) ex_sched1 2) \<noteq> Unwound"
  using sched_reach_inv [OF ex_wf_executor advanced [OF ex_reach ex_request_wf ex_advance] ex_request_wf] .

text \<open>C23. A committed tick: the receipt's interval starts at the last committed time and ends at the
  exact sum, the clock and the index advance by the request and by one, without wrap-around, plan and
  epoch stay, no fault is recorded, the receipt holds a value of the declared schema for every
  declared output and nothing else, and the delayed store holds its delayed outputs.\<close>

theorem advance_commits:
  assumes "wf_executor invoke" and "sched_reach invoke s x" and "duration_wf (req_dt req)"
    and "advance_controlled invoke control req s x = (Returned (Inr rc), s', x')"
  shows "rc_tick rc = \<lparr>tick_id = \<lparr>id_epoch = sch_epoch s, id_index = sch_next_index s\<rparr>,
        tick_start = sch_time s, tick_dt = req_dt req, tick_end = sch_time s'\<rparr>
    \<and> duration_in_nanos (sch_time s') = duration_in_nanos (sch_time s) + duration_in_nanos (req_dt req)
    \<and> unat (sch_next_index s') = unat (sch_next_index s) + 1
    \<and> sch_plan s' = sch_plan s \<and> sch_epoch s' = sch_epoch s \<and> sch_fault s' = None
    \<and> (\<forall>out. case bt_get (rc_outputs rc) out of
          None \<Rightarrow> node_output (sg_nodes (plan_graph (sch_plan s))) out = None
        | Some v \<Rightarrow> \<exists>t. node_output (sg_nodes (plan_graph (sch_plan s))) out = Some t \<and> step_type_eq (sv_step_type v) t)
    \<and> (\<forall>src. bt_get (sch_previous s') src =
         (if src \<in> set (delayed_sources (plan_graph (sch_plan s))) then bt_get (rc_outputs rc) src else None))"
proof -
  let ?g = "plan_graph (sch_plan s)"
  have inv: "sched_inv s"
    using sched_reach_sched_inv [OF assms(2,1)] .
  have c: "committed req s rc s'"
    using inv assms(1,4) by (cases rule: advance_outcome) auto
  then obtain r previous where r: "StepRequest_validate req (sch_plan s) (sched_clock s) = Inr r"
    and tick: "rc_tick rc = vr_tick r" and outs: "outs_ok (sg_nodes ?g) (plan_order (sch_plan s)) (rc_outputs rc)"
    and prev: "\<forall>src. bt_get previous src = (if src \<in> set (delayed_sources ?g) then bt_get (rc_outputs rc) src else None)"
    and s': "s' = s\<lparr>sch_previous := previous, sch_time := tick_end (vr_tick r), sch_next_index := vr_next_index r\<rparr>"
    and fault: "sch_fault s = None"
    by (auto simp: committed_def)
  note v = validate_tick [OF r]
  have "duration_in_nanos (tick_end (vr_tick r)) = duration_in_nanos (sch_time s) + duration_in_nanos (req_dt req)"
    using duration_checked_add_exact(2) [OF _ assms(3) v(4)] inv by (simp add: sched_inv_def)
  moreover have "case bt_get (rc_outputs rc) out of
      None \<Rightarrow> node_output (sg_nodes ?g) out = None
    | Some w \<Rightarrow> \<exists>t. node_output (sg_nodes ?g) out = Some t \<and> step_type_eq (sv_step_type w) t" for out
  proof -
    have "so_instance out \<in> set (plan_order (sch_plan s))" if "node_output (sg_nodes ?g) out \<noteq> None"
    proof -
      have "so_instance out \<in> fst ` set (sg_nodes ?g)"
        using that by (force simp: node_output_def bt_get_def split: option.splits dest: map_of_SomeD)
      moreover have "execution_order ?g (plan_order (sch_plan s))"
        using inv compiled_order by (simp add: sched_inv_def)
      ultimately show ?thesis
        by (simp add: execution_order_def)
    qed
    moreover have "if so_instance out \<in> set (plan_order (sch_plan s)) \<and> node_output (sg_nodes ?g) out \<noteq> None
        then typed_at (sg_nodes ?g) (rc_outputs rc) out else bt_get (rc_outputs rc) out = None"
      using outs unfolding outs_ok_def by blast
    ultimately show ?thesis
      by (cases "node_output (sg_nodes ?g) out") (auto simp: typed_at_def)
  qed
  moreover have "vr_tick r = \<lparr>tick_id = \<lparr>id_epoch = sch_epoch s, id_index = sch_next_index s\<rparr>,
      tick_start = sch_time s, tick_dt = req_dt req, tick_end = tick_end (vr_tick r)\<rparr>"
    using v by (cases "vr_tick r") simp
  ultimately show ?thesis
    using v(5) prev fault tick by (simp add: s')
qed

theorem advance_commits_witness:
  "duration_in_nanos (sch_time ex_sched1) = duration_in_nanos Duration_ZERO + duration_in_nanos ex_second
   \<and> bt_get (sch_previous ex_sched1) (StepOutput ''acc'' ''sum'') = Some (ex_value [5, 0])"
proof -
  have d: "StepOutput ''acc'' ''sum'' \<in> set (delayed_sources (plan_graph (sch_plan ex_sched)))"
    by code_simp
  have g: "bt_get (rc_outputs ex_receipt1) (StepOutput ''acc'' ''sum'') = Some (ex_value [5, 0])"
    by (simp add: ex_receipt1_def bt_get_def)
  have "sch_time ex_sched = Duration_ZERO" "req_dt (ex_request [5]) = ex_second"
    by (simp_all add: ex_sched_def ex_request_def)
  then show ?thesis
    using advance_commits [OF ex_wf_executor ex_reach ex_request_wf ex_advance] d g by simp
qed

text \<open>C24. An advancement that does not commit changes nothing but the fault. If it records none, the
  request was rejected and no node was invoked. If the scheduler is faulted afterwards, the fault
  names a prefix of the order as attempted and its nodes as completed, and every later advancement,
  with any executor, gate and request, only reports that fault and invokes nothing.\<close>

theorem advance_faults:
  assumes "wf_executor invoke" and "sched_reach invoke s x"
    and "advance_controlled invoke control req s x = (res, s', x')" and "\<forall>rc. res \<noteq> Returned (Inr rc)"
  shows "s' = s\<lparr>sch_fault := sch_fault s'\<rparr>
    \<and> (sch_fault s' = None \<longrightarrow> s' = s \<and> x' = x \<and> (\<exists>e. res = Returned (Inl (Sched_Request e))))
    \<and> (\<forall>f. sch_fault s' = Some f \<longrightarrow> progress_ok (plan_order (sch_plan s)) f
        \<and> advance_controlled invoke2 control2 req2 s' y = (Returned (Inl (Sched_Faulted f)), s', y))"
proof -
  have inv: "sched_inv s"
    using sched_reach_sched_inv [OF assms(2,1)] .
  have later: "advance_controlled invoke2 control2 req2 t y = (Returned (Inl (Sched_Faulted f)), t, y)"
    if "sch_fault t = Some f" for t f
    using that by (simp add: advance_controlled_def)
  from inv assms(1,3) show ?thesis
  proof (cases rule: advance_outcome)
    case (faulted f)
    then show ?thesis
      using inv later by (simp add: sched_inv_def)
  next
    case (failed f)
    then show ?thesis
      using later [of s' f] by (auto simp: faulted_with_def)
  next
    case (committed rc)
    then show ?thesis
      using assms(4) by simp
  qed simp
qed

text \<open>The same example with a gate that refuses the commit.\<close>

definition ex_gate :: gate where
  "ex_gate receipt clk = Some Fail_Cancelled"

definition ex_cancelled :: StepFailure where
  "ex_cancelled = \<lparr>sf_tick = \<lparr>id_epoch = 0, id_index = 0\<rparr>, sf_kind = Fail_Cancelled, sf_instance = Some ''acc'',
     sf_port = None, sf_attempted = [''src'', ''acc''], sf_completed = [''src'', ''acc''],
     sf_detail = ''host rejected bookkeeping commit; effects may persist''\<rparr>"

lemma ex_refused: "advance_controlled ex_executor ex_gate (ex_request [5]) ex_sched 0
    = (Returned (Inl (Sched_Failed ex_cancelled)), ex_sched\<lparr>sch_fault := Some ex_cancelled\<rparr>, 2)"
  by code_simp

theorem advance_faults_witness:
  "advance_controlled ex_executor DirectCommit (ex_request [9]) (ex_sched\<lparr>sch_fault := Some ex_cancelled\<rparr>) (2 :: nat)
     = (Returned (Inl (Sched_Faulted ex_cancelled)), ex_sched\<lparr>sch_fault := Some ex_cancelled\<rparr>, 2)"
  using advance_faults [OF ex_wf_executor ex_reach ex_refused,
      where ?invoke2.0 = ex_executor and ?control2.0 = DirectCommit and ?req2.0 = "ex_request [9]" and y = 2]
  by simp

section \<open>Values\<close>

lemma advance_run:
  assumes "advance_controlled invoke control req s x = (Returned (Inr rc), s', x')"
  obtains r g where "StepRequest_validate req (sch_plan s) (sched_clock s) = Inr r" and "rc_tick rc = vr_tick r"
    and "run_nodes invoke s r (plan_order (sch_plan s)) (guard_new (tick_id (vr_tick r))) [] x = (Inr (g, rc_outputs rc), x')"
proof -
  from assms obtain r where r: "StepRequest_validate req (sch_plan s) (sched_clock s) = Inr r"
    by (auto simp: advance_controlled_def split: option.splits sum.splits abort.splits)
  let ?run = "run_nodes invoke s r (plan_order (sch_plan s)) (guard_new (tick_id (vr_tick r))) [] x"
  have "sch_fault s = None"
    using assms by (auto simp: advance_controlled_def split: option.splits)
  with assms r obtain g outs y t where run: "?run = (Inr (g, outs), y)"
    and commit: "commit_tick control s r g outs = (Returned (Inr rc), t)" and "x' = y"
    by (auto simp: advance_controlled_def split: sum.splits prod.splits run_stop.splits)
  moreover have "rc_tick rc = vr_tick r" "rc_outputs rc = outs"
    using commit by (auto simp: commit_tick_def Let_def split: option.splits)
  ultimately show thesis
    using that r by blast
qed

lemma advance_log:
  assumes inv: "sched_inv s" and exec: "wf_executor invoke"
    and adv: "advance_controlled (log_executor invoke) control req s (x, []) = (Returned (Inr rc), s', x', log)"
  obtains r where "StepRequest_validate req (sch_plan s) (sched_clock s) = Inr r" and "rc_tick rc = vr_tick r"
    and "map fst log = plan_order (sch_plan s)" and "\<forall>e \<in> set log. entry_fits s r (rc_outputs rc) e"
proof -
  from adv obtain r g where r: "StepRequest_validate req (sch_plan s) (sched_clock s) = Inr r"
    "rc_tick rc = vr_tick r"
    and run: "run_nodes (log_executor invoke) s r (plan_order (sch_plan s)) (guard_new (tick_id (vr_tick r))) [] (x, [])
      = (Inr (g, rc_outputs rc), x', log)"
    by (rule advance_run)
  show thesis
    using that r run_log [OF inv exec _ outs_ok_Nil run] by auto
qed

text \<open>What the graph says an input of a node is, in terms of the whole tick: a value of the request,
  an output of this tick, or an output of the preceding one.\<close>

definition routed_value :: "StepScheduler \<Rightarrow> StepRequest \<Rightarrow> outputs \<Rightarrow> StepInput \<Rightarrow> StepSource \<Rightarrow> StepValue option" where
  "routed_value s req outs input source = (case source of
     External \<Rightarrow> bt_get (req_inputs req) input
   | SameTick out \<Rightarrow> bt_get outs out
   | PreviousTick out initial \<Rightarrow> if sch_next_index s = 0 then Some initial else bt_get (sch_previous s) out)"

text \<open>C25. The dataflow of a committed tick: every node is invoked exactly once, in the compiled
  order, with the tick of the receipt; each of its inputs is the value the graph routes to it, taken
  from the request, the receipt itself or the delayed store; and its part of the receipt is exactly
  what it returned. So the receipt solves the equations of the graph.\<close>

theorem tick_dataflow:
  assumes "wf_executor invoke" and "sched_reach invoke s x"
    and "advance_controlled (log_executor invoke) control req s (x, []) = (Returned (Inr rc), s', x', log)"
  shows "map fst log = plan_order (sch_plan s)
    \<and> (\<forall>inst t ins run. (inst, t, ins, run) \<in> set log \<longrightarrow> t = rc_tick rc
        \<and> (\<forall>input source. (input, source) \<in> set (sg_inputs (plan_graph (sch_plan s))) \<and> si_instance input = inst \<longrightarrow>
             bt_get ins (si_port input) = routed_value s req (rc_outputs rc) input source)
        \<and> (\<exists>outs. run = NodeRun (Inr (Inr outs)) (Inr ())
             \<and> (\<forall>port. bt_get (rc_outputs rc) (StepOutput inst port) = bt_get outs port)))"
proof -
  have inv: "sched_inv s"
    using sched_reach_sched_inv [OF assms(2,1)] .
  have wf: "bt_wf (sg_inputs (plan_graph (sch_plan s)))"
    using inv by (simp add: sched_inv_def graph_wf_def)
  from inv assms(1,3) obtain r where r: "StepRequest_validate req (sch_plan s) (sched_clock s) = Inr r"
    "rc_tick rc = vr_tick r" and order: "map fst log = plan_order (sch_plan s)"
    and fits: "\<forall>e \<in> set log. entry_fits s r (rc_outputs rc) e"
    by (rule advance_log)
  have "input_value s r (rc_outputs rc) (input, source) = routed_value s req (rc_outputs rc) input source" for input source
    using validate_tick(6) [OF r(1)] by (cases source) (simp_all add: input_value_def routed_value_def)
  then show ?thesis
    using order fits node_inputs_get [OF wf] r(2) by (force simp: entry_fits_def)
qed

lemma ex_logged: "advance_controlled (log_executor ex_executor) DirectCommit (ex_request [5]) ex_sched (0, [])
    = (Returned (Inr ex_receipt1), ex_sched1, 2,
       [(''src'', rc_tick ex_receipt1, [(''u'', ex_value [5])], NodeRun (Inr (Inr [(''y'', ex_value [5])])) (Inr ())),
        (''acc'', rc_tick ex_receipt1, [(''fb'', ex_value [0]), (''x'', ex_value [5])],
          NodeRun (Inr (Inr [(''sum'', ex_value [5, 0])])) (Inr ()))])"
  by code_simp

theorem tick_dataflow_witness:
  "bt_get [(''fb'', ex_value [0]), (''x'', ex_value [5])] ''x'' = bt_get (rc_outputs ex_receipt1) (StepOutput ''src'' ''y'')"
proof -
  have m: "(StepInput ''acc'' ''x'', SameTick (StepOutput ''src'' ''y'')) \<in> set (sg_inputs (plan_graph (sch_plan ex_sched)))"
    by (simp add: ex_sched_def ex_plan_def ex_step_graph_def)
  let ?ins = "[(''fb'', ex_value [0]), (''x'', ex_value [5])]"
  let ?run = "NodeRun (Inr (Inr [(''sum'', ex_value [5, 0])])) (Inr ())"
  have "\<forall>input source. (input, source) \<in> set (sg_inputs (plan_graph (sch_plan ex_sched))) \<and> si_instance input = ''acc'' \<longrightarrow>
      bt_get ?ins (si_port input) = routed_value ex_sched (ex_request [5]) (rc_outputs ex_receipt1) input source"
    using tick_dataflow [OF ex_wf_executor ex_reach ex_logged, THEN conjunct2, rule_format,
        of "''acc''" "rc_tick ex_receipt1" ?ins ?run] by simp
  from this [rule_format, OF conjI [OF m]] show ?thesis
    by (simp add: routed_value_def)
qed

text \<open>C26. Delayed feedback: after a committed tick, the next committed tick hands every delayed input
  exactly the output its source produced in that first tick.\<close>

theorem delayed_feedback:
  assumes "wf_executor invoke" and "sched_reach invoke s x" and "duration_wf (req_dt req1)"
    and "advance_controlled invoke control1 req1 s x = (Returned (Inr rc1), s1, x1)"
    and "advance_controlled (log_executor invoke) control2 req2 s1 (x1, []) = (Returned (Inr rc2), s2, x2, log)"
    and "(input, PreviousTick src initial) \<in> set (sg_inputs (plan_graph (sch_plan s)))"
    and "(si_instance input, t, ins, run) \<in> set log"
  shows "bt_get ins (si_port input) = bt_get (rc_outputs rc1) src \<and> bt_get (rc_outputs rc1) src \<noteq> None"
proof -
  have inv: "sched_inv s"
    using sched_reach_sched_inv [OF assms(2,1)] .
  have reach: "sched_reach invoke s1 x1"
    by (rule advanced [OF assms(2-4)])
  have "committed req1 s rc1 s1"
    using inv assms(1,4) by (cases rule: advance_outcome) auto
  then obtain r previous where r: "StepRequest_validate req1 (sch_plan s) (sched_clock s) = Inr r"
    and outs: "outs_ok (sg_nodes (plan_graph (sch_plan s))) (plan_order (sch_plan s)) (rc_outputs rc1)"
    and prev: "\<forall>o1. bt_get previous o1 = (if o1 \<in> set (delayed_sources (plan_graph (sch_plan s)))
      then bt_get (rc_outputs rc1) o1 else None)"
    and s1: "s1 = s\<lparr>sch_previous := previous, sch_time := tick_end (vr_tick r), sch_next_index := vr_next_index r\<rparr>"
    by (auto simp: committed_def)
  have delayed: "src \<in> set (delayed_sources (plan_graph (sch_plan s)))"
    using delayed_in assms(6) .
  have "sch_next_index s1 \<noteq> 0"
    using validate_tick(5) [OF r] by (auto simp: s1)
  moreover have "bt_get ins (si_port input) = routed_value s1 req2 (rc_outputs rc2) input (PreviousTick src initial)"
    using tick_dataflow [OF assms(1) reach assms(5), THEN conjunct2, rule_format, OF assms(7)] assms(6)
    by (simp add: s1)
  ultimately have "bt_get ins (si_port input) = bt_get (rc_outputs rc1) src"
    using prev delayed by (simp add: routed_value_def s1)
  moreover have "typed_at (sg_nodes (plan_graph (sch_plan s))) (rc_outputs rc1) src"
    using delayed_declared [OF inv delayed] outs unfolding outs_ok_def by metis
  ultimately show ?thesis
    by (auto simp: typed_at_def)
qed

definition ex_receipt2 :: StepReceipt where
  "ex_receipt2 = \<lparr>rc_tick = \<lparr>tick_id = \<lparr>id_epoch = 0, id_index = 1\<rparr>, tick_start = ex_second, tick_dt = ex_second,
       tick_end = \<lparr>dur_secs = 2, dur_nanos = 0\<rparr>\<rparr>,
     rc_outputs = [(StepOutput ''acc'' ''sum'', ex_value [6, 5, 0]), (StepOutput ''src'' ''y'', ex_value [6])]\<rparr>"

lemma ex_logged2: "advance_controlled (log_executor ex_executor) DirectCommit (ex_request [6]) ex_sched1 (2, [])
    = (Returned (Inr ex_receipt2),
       ex_sched1\<lparr>sch_next_index := 2, sch_time := \<lparr>dur_secs = 2, dur_nanos = 0\<rparr>,
         sch_previous := [(StepOutput ''acc'' ''sum'', ex_value [6, 5, 0])]\<rparr>, 4,
       [(''src'', rc_tick ex_receipt2, [(''u'', ex_value [6])], NodeRun (Inr (Inr [(''y'', ex_value [6])])) (Inr ())),
        (''acc'', rc_tick ex_receipt2, [(''fb'', ex_value [5, 0]), (''x'', ex_value [6])],
          NodeRun (Inr (Inr [(''sum'', ex_value [6, 5, 0])])) (Inr ()))])"
  by code_simp

theorem delayed_feedback_witness:
  "bt_get [(''fb'', ex_value [5, 0]), (''x'', ex_value [6])] ''fb'' = bt_get (rc_outputs ex_receipt1) (StepOutput ''acc'' ''sum'')"
proof -
  have m: "(StepInput ''acc'' ''fb'', PreviousTick (StepOutput ''acc'' ''sum'') (ex_value [0]))
      \<in> set (sg_inputs (plan_graph (sch_plan ex_sched)))"
    by (simp add: ex_sched_def ex_plan_def ex_step_graph_def)
  show ?thesis
    using delayed_feedback [OF ex_wf_executor ex_reach ex_request_wf ex_advance ex_logged2 m] by simp
qed

lemma duration_is_zero_nanos: "duration_is_zero d \<longleftrightarrow> duration_in_nanos d = 0"
  by (simp add: duration_is_zero_def duration_in_nanos_def unat_eq_0)

lemma duration_checked_add_None:
  assumes "duration_wf d" and "duration_wf e"
  shows "duration_checked_add d e = None \<longleftrightarrow> 2 ^ 64 * 10 ^ 9 \<le> duration_in_nanos d + duration_in_nanos e"
proof -
  let ?n = "dur_nanos d + dur_nanos e" and ?S = "unat (dur_secs d) + unat (dur_secs e)"
  have lt: "unat (dur_nanos d) < 10 ^ 9" "unat (dur_nanos e) < 10 ^ 9"
    using assms by (simp_all add: duration_wf_def NANOS_PER_SEC_def word_less_nat_alt)
  then have n: "unat ?n = unat (dur_nanos d) + unat (dur_nanos e)"
    by (simp add: unat_word_ariths)
  have carry: "?n \<ge> NANOS_PER_SEC \<longleftrightarrow> 10 ^ 9 \<le> unat ?n"
    by (simp add: NANOS_PER_SEC_def word_le_nat_alt)
  have none: "u64_checked_add a b = None \<longleftrightarrow> 2 ^ 64 \<le> unat a + unat b" for a b
    by (auto simp: u64_checked_add_def)
  have "duration_checked_add d e = None \<longleftrightarrow> 2 ^ 64 \<le> ?S \<or> 10 ^ 9 \<le> unat ?n \<and> 2 ^ 64 \<le> ?S + 1"
  proof (cases "u64_checked_add (dur_secs d) (dur_secs e)")
    case None
    moreover from this have "2 ^ 64 \<le> ?S"
      by (simp only: none)
    ultimately show ?thesis
      by (simp add: duration_checked_add_def)
  next
    case (Some secs)
    then have "unat secs = ?S" "?S < 2 ^ 64"
      by (simp_all add: u64_checked_add_Some)
    then show ?thesis
      using Some none [of secs 1] carry
      by (cases "u64_checked_add secs 1") (simp_all add: duration_checked_add_def Let_def)
  qed
  also have "\<dots> \<longleftrightarrow> 2 ^ 64 * 10 ^ 9 \<le> duration_in_nanos d + duration_in_nanos e"
    using lt by (auto simp: duration_in_nanos_def n)
  finally show ?thesis .
qed

lemma supplied_exactly:
  assumes "bt_wf (sg_inputs g)" and "\<forall>ns \<in> set (sg_inputs g). wired (sg_nodes g) ns"
  shows "try_for (check_supplied g) (map fst ins) () = Inr () \<and> try_for (check_external g ins) (sg_inputs g) () = Inr ()
    \<longleftrightarrow> (\<forall>input. bt_get ins input \<noteq> None \<longleftrightarrow> bt_get (sg_inputs g) input = Some External)
      \<and> (\<forall>input v t. bt_get ins input = Some v \<and> node_input (sg_nodes g) input = Some t \<longrightarrow> step_type_eq (sv_step_type v) t)"
proof -
  have sup: "try_for (check_supplied g) (map fst ins) () = Inr () \<longleftrightarrow>
      (\<forall>input. bt_get ins input \<noteq> None \<longrightarrow> bt_get (sg_inputs g) input = Some External)"
  proof -
    have "check_supplied g input () = Inr () \<longleftrightarrow> bt_get (sg_inputs g) input = Some External" for input
      by (auto simp: check_supplied_def split: option.splits StepSource.splits)
    then show ?thesis
      using bt_contains_iff [of ins] by (auto simp: try_for_unit bt_contains_def)
  qed
  have ext: "try_for (check_external g ins) (sg_inputs g) () = Inr () \<longleftrightarrow>
      (\<forall>input. bt_get (sg_inputs g) input = Some External \<longrightarrow> (\<exists>v t. bt_get ins input = Some v
        \<and> node_input (sg_nodes g) input = Some t \<and> step_type_eq (sv_step_type v) t))"
  proof -
    have "check_external g ins ns () = Inr () \<longleftrightarrow> (snd ns = External \<longrightarrow> (\<exists>v t. bt_get ins (fst ns) = Some v
        \<and> node_input (sg_nodes g) (fst ns) = Some t \<and> step_type_eq (sv_step_type v) t))" for ns
      by (cases ns; cases "snd ns") (auto simp: check_external_def res_simps)
    then show ?thesis
      using bt.get_Some_iff [OF assms(1)] by (auto simp: try_for_unit)
  qed
  have "\<exists>t. node_input (sg_nodes g) input = Some t" if "bt_get (sg_inputs g) input = Some External" for input
    using assms(2) that bt.get_Some_iff [OF assms(1)] by (force simp: wired_def)
  then show ?thesis
    unfolding sup ext by (metis option.distinct(1) option.exhaust option.inject)
qed

text \<open>A request is accepted exactly when its duration is positive, the end time and the next
  index can be represented, it supplies a value for exactly the external inputs of the graph, and
  each value has the schema its input declares. Nothing is dispatched otherwise.\<close>

theorem request_accepted_exactly:
  assumes "wf_executor invoke" and "sched_reach invoke s x" and "duration_wf (req_dt req)"
  shows "(\<exists>r. StepRequest_validate req (sch_plan s) (sched_clock s) = Inr r) \<longleftrightarrow>
     0 < duration_in_nanos (req_dt req)
     \<and> duration_in_nanos (sch_time s) + duration_in_nanos (req_dt req) < 2 ^ 64 * 10 ^ 9
     \<and> unat (sch_next_index s) + 1 < 2 ^ 64
     \<and> (\<forall>input. bt_get (req_inputs req) input \<noteq> None \<longleftrightarrow> bt_get (sg_inputs (plan_graph (sch_plan s))) input = Some External)
     \<and> (\<forall>input v t. bt_get (req_inputs req) input = Some v \<and> node_input (sg_nodes (plan_graph (sch_plan s))) input = Some t
          \<longrightarrow> step_type_eq (sv_step_type v) t)"
proof -
  let ?g = "plan_graph (sch_plan s)"
  have inv: "sched_inv s"
    using sched_reach_sched_inv [OF assms(2,1)] .
  then have wf: "bt_wf (sg_inputs ?g)" and wired: "\<forall>ns \<in> set (sg_inputs ?g). wired (sg_nodes ?g) ns"
    using Plan_compile_wired [of ?g] by (auto simp: sched_inv_def graph_wf_def)
  have time: "(\<exists>t. duration_checked_add (sch_time s) (req_dt req) = Some t) \<longleftrightarrow>
      duration_in_nanos (sch_time s) + duration_in_nanos (req_dt req) < 2 ^ 64 * 10 ^ 9"
    using duration_checked_add_None [of "sch_time s" "req_dt req"] inv assms(3)
    by (cases "duration_checked_add (sch_time s) (req_dt req)") (auto simp: sched_inv_def)
  have index: "(\<exists>n. u64_checked_add (sch_next_index s) 1 = Some n) \<longleftrightarrow> unat (sch_next_index s) + 1 < 2 ^ 64"
    by (simp add: u64_checked_add_def)
  have "(\<exists>r. StepRequest_validate req (sch_plan s) (sched_clock s) = Inr r) \<longleftrightarrow>
      \<not> duration_is_zero (req_dt req) \<and> (\<exists>t. duration_checked_add (sch_time s) (req_dt req) = Some t)
      \<and> (\<exists>n. u64_checked_add (sch_next_index s) 1 = Some n)
      \<and> try_for (check_supplied ?g) (map fst (req_inputs req)) () = Inr ()
      \<and> try_for (check_external ?g (req_inputs req)) (sg_inputs ?g) () = Inr ()"
    by (simp add: StepRequest_validate_def res_simps sched_clock_def) blast
  then show ?thesis
    unfolding time index supplied_exactly [OF wf wired] duration_is_zero_nanos by simp
qed

theorem request_accepted_exactly_witness:
  "(\<exists>r. StepRequest_validate (ex_request [5]) ex_plan (sched_clock ex_sched) = Inr r)
   \<and> \<not> (\<exists>r. StepRequest_validate ((ex_request [5])\<lparr>req_inputs := []\<rparr>) ex_plan (sched_clock ex_sched) = Inr r)"
proof -
  let ?req = "(ex_request [5])\<lparr>req_inputs := []\<rparr>"
  have plan: "sch_plan ex_sched = ex_plan"
    by (simp add: ex_sched_def)
  have ext: "bt_get (sg_inputs (plan_graph ex_plan)) (StepInput ''src'' ''u'') = Some External"
    by (simp add: ex_plan_def ex_step_graph_def bt_get_def)
  have wf: "duration_wf (req_dt ?req)"
    using ex_request_wf by simp
  have "\<not> (\<exists>r. StepRequest_validate ?req ex_plan (sched_clock ex_sched) = Inr r)"
    using request_accepted_exactly [OF ex_wf_executor ex_reach wf] ext unfolding plan by auto
  moreover have "is_ok (StepRequest_validate (ex_request [5]) ex_plan (sched_clock ex_sched))"
    by code_simp
  then have "\<exists>r. StepRequest_validate (ex_request [5]) ex_plan (sched_clock ex_sched) = Inr r"
    by (auto simp: is_ok_def split: sum.splits)
  ultimately show ?thesis
    by blast
qed


end
