(* ===== verification/Job.thy ===== *)
theory Job
  imports Prelude
begin

text \<open>
  Application jobs (\<^verbatim>\<open>crates/reiny/src/job/{types,state,handle,owner}.rs\<close>): the snapshot every
  handle observes, the three updates of it (progress, cancellation, completion), the worker's exit
  through its completion guard, and the owner that starts, closes and joins workers. A watch channel's
  \<open>send_if_modified\<close> runs one closure on the snapshot under the channel's lock, so each update is one
  atomic step; what a worker does between two updates may interleave with everything else.
\<close>

section \<open>Snapshots\<close>

datatype ('t, 'e) JobOutcome =
  Outcome_Succeeded 't | Outcome_Failed 'e | Outcome_Cancelled | Outcome_Panicked | Outcome_Interrupted

datatype ('t, 'e) JobStatus = Status_Running | Status_Cancelling | Status_Complete "('t, 'e) JobOutcome"

record ('p, 't, 'e) JobSnapshot =
  js_id :: u64
  js_revision :: u64
  js_progress :: "'p option"
  js_cancellation_requested :: bool
  js_status :: "('t, 'e) JobStatus"

datatype CancelRequest = Cancel_Requested | Cancel_AlreadyRequested | Cancel_Finished

definition u64_MAX :: u64 where "u64_MAX = 0xFFFFFFFFFFFFFFFF"

definition saturating_succ :: "u64 \<Rightarrow> u64" where
  "saturating_succ n = (if n = u64_MAX then u64_MAX else n + 1)"

definition job_new :: "u64 \<Rightarrow> ('p, 't, 'e) JobSnapshot" where
  "job_new jid = \<lparr>js_id = jid, js_revision = 0, js_progress = None, js_cancellation_requested = False,
     js_status = Status_Running\<rparr>"

text \<open>Each closure gives its answer, whether it reports a modification, and the snapshot.\<close>

definition request_cancel ::
  "('p, 't, 'e) JobSnapshot \<Rightarrow> CancelRequest \<times> ('p, 't, 'e) JobSnapshot" where
  "request_cancel s = (case js_status s of
     Status_Running \<Rightarrow> (Cancel_Requested, s\<lparr>js_status := Status_Cancelling, js_cancellation_requested := True,
       js_revision := saturating_succ (js_revision s)\<rparr>)
   | Status_Cancelling \<Rightarrow> (Cancel_AlreadyRequested, s)
   | Status_Complete _ \<Rightarrow> (Cancel_Finished, s))"

definition job_progress :: "'p \<Rightarrow> ('p, 't, 'e) JobSnapshot \<Rightarrow> bool \<times> ('p, 't, 'e) JobSnapshot" where
  "job_progress p s = (case js_status s of
     Status_Running \<Rightarrow>
       if js_revision s = u64_MAX \<or> js_revision s + 1 > u64_MAX - 2 then (False, s)
       else (True, s\<lparr>js_progress := Some p, js_revision := js_revision s + 1\<rparr>)
   | _ \<Rightarrow> (False, s))"

text \<open>The closure of \<open>complete\<close>: whether a successful result was discarded because cancellation won,
  and the snapshot. When it was, the payload is dropped outside the lock before the job completes.\<close>

definition complete_try :: "('t, 'e) JobOutcome \<Rightarrow> ('p, 't, 'e) JobSnapshot \<Rightarrow> bool \<times> ('p, 't, 'e) JobSnapshot" where
  "complete_try outcome s = (case js_status s of
     Status_Complete _ \<Rightarrow> (False, s)
   | Status_Running \<Rightarrow> (False, s\<lparr>js_status := Status_Complete outcome, js_revision := saturating_succ (js_revision s)\<rparr>)
   | Status_Cancelling \<Rightarrow>
       (case outcome of
          Outcome_Succeeded _ \<Rightarrow> (True, s)
        | _ \<Rightarrow> (False, s\<lparr>js_status := Status_Complete outcome, js_revision := saturating_succ (js_revision s)\<rparr>)))"

text \<open>\<open>complete\<close> as one uninterrupted call.\<close>

definition complete :: "('t, 'e) JobOutcome \<Rightarrow> ('p, 't, 'e) JobSnapshot \<Rightarrow> ('p, 't, 'e) JobSnapshot" where
  "complete outcome s = (case complete_try outcome s of
     (discarded, s') \<Rightarrow> if discarded then snd (complete_try Outcome_Cancelled s') else s')"

section \<open>The worker\<close>

text \<open>A worker is running application code, dropping a discarded result, about to drop its completion
  guard (unwinding or not), or gone.\<close>

datatype Worker_phase = Working | Discarding | Leaving bool | Gone

fun outcome_of :: "'e + 't \<Rightarrow> ('t, 'e) JobOutcome" where
  "outcome_of (Inr v) = Outcome_Succeeded v"
| "outcome_of (Inl e) = Outcome_Failed e"

definition after_complete :: "bool \<times> ('p, 't, 'e) JobSnapshot \<Rightarrow> ('p, 't, 'e) JobSnapshot \<times> Worker_phase" where
  "after_complete r = (snd r, if fst r then Discarding else Leaving False)"

definition guard_outcome :: "bool \<Rightarrow> ('t, 'e) JobOutcome" where
  "guard_outcome panicking = (if panicking then Outcome_Panicked else Outcome_Interrupted)"

text \<open>One atomic step of a job: by any handle, by any holder of the context, or by the worker.\<close>

inductive job_step ::
  "('p, 't, 'e) JobSnapshot \<times> Worker_phase \<Rightarrow> ('p, 't, 'e) JobSnapshot \<times> Worker_phase \<Rightarrow> bool" where
  cancel: "job_step (s, w) (snd (request_cancel s), w)"
| report: "job_step (s, w) (snd (job_progress p s), w)"
| returned: "job_step (s, Working) (after_complete (complete_try (outcome_of r) s))"
| panicked: "job_step (s, Working) (s, Leaving True)"
| dropped: "job_step (s, Working) (s, Leaving False)"
| discarded: "job_step (s, Discarding) (snd (complete_try Outcome_Cancelled s), Leaving False)"
| discard_panicked: "job_step (s, Discarding) (s, Leaving True)"
| left: "job_step (s, Leaving b) (snd (complete_try (guard_outcome b) s), Gone)"

inductive_cases job_step_E: "job_step c c'"

section \<open>The owner\<close>

datatype StartError = Start_Closed | Start_AtCapacity | Start_IdExhausted | Start_RuntimeUnavailable

datatype ShutdownError = Shutdown_InvalidDeadline

record ShutdownReport =
  sd_unresponsive :: "u64 list"
  sd_join_failures :: "u64 list"

text \<open>An owner holds the identities of its workers in start order; their snapshots are kept beside it,
  by identity. The worker closures and their result types are the application's.\<close>

record JobOwner =
  jo_capacity :: nat
  jo_closed :: bool
  jo_workers :: "u64 list"

type_synonym ('p, 't, 'e) jobs = "(u64, ('p, 't, 'e) JobSnapshot) btree"

definition owner_new :: "nat \<Rightarrow> JobOwner" where
  "owner_new capacity = \<lparr>jo_capacity = capacity, jo_closed = False, jo_workers = []\<rparr>"

text \<open>\<open>start\<close>: which workers have finished and whether a Tokio runtime is current are observations of
  the environment; the process-wide identity counter is taken along.\<close>

definition owner_start ::
  "(u64 \<Rightarrow> bool) \<Rightarrow> bool \<Rightarrow> JobOwner \<Rightarrow> u64 \<Rightarrow> ('p, 't, 'e) jobs
    \<Rightarrow> (StartError + u64) \<times> JobOwner \<times> u64 \<times> ('p, 't, 'e) jobs" where
  "owner_start finished runtime o1 NEXT_ID jobs =
     (if jo_closed o1 then (Inl Start_Closed, o1, NEXT_ID, jobs)
      else let o2 = o1\<lparr>jo_workers := filter (\<lambda>w. \<not> finished w) (jo_workers o1)\<rparr> in
        if length (jo_workers o2) \<ge> jo_capacity o2 then (Inl Start_AtCapacity, o2, NEXT_ID, jobs)
        else if \<not> runtime then (Inl Start_RuntimeUnavailable, o2, NEXT_ID, jobs)
        else if NEXT_ID = u64_MAX then (Inl Start_IdExhausted, o2, NEXT_ID, jobs)
        else (Inr NEXT_ID, o2\<lparr>jo_workers := jo_workers o2 @ [NEXT_ID]\<rparr>, NEXT_ID + 1,
              bt_insert NEXT_ID (job_new NEXT_ID) jobs))"

definition cancel_job :: "u64 \<Rightarrow> ('p, 't, 'e) jobs \<Rightarrow> ('p, 't, 'e) jobs" where
  "cancel_job w jobs = (case bt_get jobs w of
     None \<Rightarrow> jobs | Some s \<Rightarrow> bt_insert w (snd (request_cancel s)) jobs)"

definition owner_close :: "JobOwner \<Rightarrow> ('p, 't, 'e) jobs \<Rightarrow> JobOwner \<times> ('p, 't, 'e) jobs" where
  "owner_close o1 jobs = (o1\<lparr>jo_closed := True\<rparr>, fold cancel_job (jo_workers o1) jobs)"

text \<open>The joining loop: \<open>joined w\<close> is what awaiting worker \<open>w\<close> until the deadline gives, \<open>None\<close> on
  timeout and otherwise whether the task ended without a join error.\<close>

fun join_workers :: "(u64 \<Rightarrow> bool option) \<Rightarrow> u64 list \<Rightarrow> u64 list \<Rightarrow> ShutdownReport \<Rightarrow> u64 list \<times> ShutdownReport" where
  "join_workers joined kept [] report = (kept, report)"
| "join_workers joined kept (w # ws) report =
     (case joined w of
        Some fine \<Rightarrow> join_workers joined kept ws
          (if fine then report else report\<lparr>sd_join_failures := sd_join_failures report @ [w]\<rparr>)
      | None \<Rightarrow> join_workers joined (kept @ [w]) ws
          (report\<lparr>sd_unresponsive := sd_unresponsive report @ [w]\<rparr>))"

definition owner_shutdown ::
  "bool \<Rightarrow> (u64 \<Rightarrow> bool option) \<Rightarrow> JobOwner \<Rightarrow> ('p, 't, 'e) jobs
    \<Rightarrow> (ShutdownError + ShutdownReport) \<times> JobOwner \<times> ('p, 't, 'e) jobs" where
  "owner_shutdown deadline_ok joined o1 jobs =
     (case owner_close o1 jobs of (o2, jobs) \<Rightarrow>
        if \<not> deadline_ok then (Inl Shutdown_InvalidDeadline, o2, jobs)
        else (case join_workers joined [] (jo_workers o2) \<lparr>sd_unresponsive = [], sd_join_failures = []\<rparr> of
                (kept, report) \<Rightarrow> (Inr report, o2\<lparr>jo_workers := kept\<rparr>, jobs)))"

section \<open>The invariant of a job\<close>

definition job_inv :: "('p, 't, 'e) JobSnapshot \<times> Worker_phase \<Rightarrow> bool" where
  "job_inv c \<longleftrightarrow> (case c of (s, w) \<Rightarrow>
     (case js_status s of
        Status_Running \<Rightarrow> unat (js_revision s) + 2 < 2 ^ 64 \<and> \<not> js_cancellation_requested s
          \<and> w \<noteq> Discarding \<and> w \<noteq> Gone
      | Status_Cancelling \<Rightarrow> unat (js_revision s) + 1 < 2 ^ 64 \<and> js_cancellation_requested s \<and> w \<noteq> Gone
      | Status_Complete out \<Rightarrow> w \<noteq> Working \<and> w \<noteq> Discarding
          \<and> (case out of Outcome_Succeeded _ \<Rightarrow> \<not> js_cancellation_requested s
              | Outcome_Cancelled \<Rightarrow> js_cancellation_requested s | _ \<Rightarrow> True)))"

lemma unat_saturating_succ: "unat n + 1 < 2 ^ 64 \<Longrightarrow> unat (saturating_succ n) = unat n + 1"
  by (auto simp: saturating_succ_def u64_MAX_def unat_word_ariths)

lemma progress_room:
  assumes "n \<noteq> u64_MAX" and "\<not> n + 1 > u64_MAX - 2"
  shows "unat (n + 1) = unat n + 1 \<and> unat (n + 1) + 2 < 2 ^ 64"
proof -
  have "unat n \<noteq> 2 ^ 64 - 1"
    using assms(1) by (auto simp: u64_MAX_def word_unat_eq_iff)
  then have "unat n + 1 < 2 ^ 64"
    using unat_lt [of n] by simp
  then have "unat (n + 1) = unat n + 1"
    by (simp add: unat_word_ariths)
  moreover have "unat (n + 1) \<le> 2 ^ 64 - 3"
    using assms(2) by (simp add: word_le_nat_alt u64_MAX_def not_less)
  ultimately show ?thesis
    by simp
qed

text \<open>The three updates keep the invariant, and change the revision by exactly one when they change
  anything.\<close>

definition revised :: "('p, 't, 'e) JobSnapshot \<Rightarrow> ('p, 't, 'e) JobSnapshot \<Rightarrow> bool" where
  "revised s s' \<longleftrightarrow> js_id s' = js_id s \<and> (s' = s \<or> unat (js_revision s') = unat (js_revision s) + 1)"

lemma cancel_step: "job_inv (s, w) \<Longrightarrow> job_inv (snd (request_cancel s), w) \<and> revised s (snd (request_cancel s))"
  by (cases "js_status s") (simp_all add: job_inv_def request_cancel_def revised_def unat_saturating_succ)

lemma progress_step: "job_inv (s, w) \<Longrightarrow> job_inv (snd (job_progress p s), w) \<and> revised s (snd (job_progress p s))"
proof (cases "js_status s = Status_Running \<and> \<not> (js_revision s = u64_MAX \<or> js_revision s + 1 > u64_MAX - 2)")
  case True
  assume "job_inv (s, w)"
  then show ?thesis
    using True progress_room [of "js_revision s"] by (auto simp: job_inv_def job_progress_def revised_def)
next
  case False
  then have "snd (job_progress p s) = s"
    by (auto simp: job_progress_def split: JobStatus.splits)
  then show "job_inv (s, w) \<Longrightarrow> ?thesis"
    by (simp add: revised_def)
qed

lemma complete_step:
  assumes "job_inv (s, w)"
  shows "revised s (snd (complete_try out s))"
    and "fst (complete_try out s) \<Longrightarrow> js_status s = Status_Cancelling \<and> snd (complete_try out s) = s \<and> (\<exists>v. out = Outcome_Succeeded v)"
    and "\<not> fst (complete_try out s) \<Longrightarrow> (out = Outcome_Cancelled \<longrightarrow> js_cancellation_requested s) \<Longrightarrow>
      w' \<noteq> Working \<Longrightarrow> w' \<noteq> Discarding \<Longrightarrow> job_inv (snd (complete_try out s), w')"
  using assms
  by (auto simp: job_inv_def complete_try_def revised_def unat_saturating_succ
      split: JobStatus.splits JobOutcome.splits)

lemma job_step_inv:
  assumes "job_step c c'" and "job_inv c"
  shows "job_inv c' \<and> revised (fst c) (fst c')"
  using assms
proof (cases rule: job_step.cases)
  case (returned s r)
  have inv: "job_inv (s, Working)"
    using returned assms(2) by simp
  show ?thesis
  proof (cases "fst (complete_try (outcome_of r) s)")
    case True
    then show ?thesis
      using returned inv complete_step(2) [OF inv True] by (auto simp: after_complete_def job_inv_def revised_def)
  next
    case False
    then show ?thesis
      using returned complete_step(1) [OF inv] complete_step(3) [OF inv False, of "Leaving False"]
      by (cases r) (simp_all add: after_complete_def)
  qed
next
  case (discarded s)
  have inv: "job_inv (s, Discarding)"
    using discarded assms(2) by simp
  then have "js_cancellation_requested s" "\<not> fst (complete_try Outcome_Cancelled s)"
    by (auto simp: job_inv_def complete_try_def split: JobStatus.splits)
  then show ?thesis
    using discarded complete_step(1) [OF inv] complete_step(3) [OF inv, of Outcome_Cancelled "Leaving False"] by simp
next
  case (left s b)
  have inv: "job_inv (s, Leaving b)"
    using left assms(2) by simp
  have "\<not> fst (complete_try (guard_outcome b) s)"
    by (auto simp: complete_try_def guard_outcome_def split: JobStatus.splits)
  then show ?thesis
    using left complete_step(1) [OF inv] complete_step(3) [OF inv, of "guard_outcome b" Gone]
    by (simp add: guard_outcome_def)
qed (auto simp: cancel_step progress_step, auto simp: job_inv_def revised_def split: JobStatus.splits)

lemma job_steps_inv:
  assumes "job_step\<^sup>*\<^sup>* c c'" and "job_inv c"
  shows "job_inv c'"
  using assms by (induction rule: rtranclp_induct) (auto dest: job_step_inv)

lemma job_new_inv: "job_inv (job_new jid, Working)"
  by (simp add: job_inv_def job_new_def)

text \<open>A complete snapshot never changes again.\<close>

lemma complete_final:
  assumes "job_step c c'" and "js_status (fst c) = Status_Complete out"
  shows "fst c' = fst c"
  using assms
  by (cases rule: job_step.cases)
    (auto simp: request_cancel_def job_progress_def complete_try_def after_complete_def)

end
