(* ===== verification/Job_Correct.thy ===== *)
theory Job_Correct
  imports Job
begin

text \<open>
  The properties of application jobs: what holds in every state a job can reach, whatever the order
  of progress reports, cancellation requests and the worker's own steps; that a terminal result is
  set once; and what shutting an owner down leaves behind.
\<close>

text \<open>C27. In every reachable state of a job: a worker that is gone has left a terminal result; a
  retained success means that no cancellation was committed, and a retained cancellation that one
  was; and every step either leaves the snapshot as it is or raises its revision by exactly one,
  without ever reaching the end of the revision space before the terminal result.\<close>

theorem job_reach_inv:
  assumes "job_step\<^sup>*\<^sup>* (job_new jid, Working) (s, w)"
  shows "(w = Gone \<longrightarrow> (\<exists>out. js_status s = Status_Complete out))
    \<and> (\<forall>v. js_status s = Status_Complete (Outcome_Succeeded v) \<longrightarrow> \<not> js_cancellation_requested s)
    \<and> (js_status s = Status_Complete Outcome_Cancelled \<longrightarrow> js_cancellation_requested s)
    \<and> (\<forall>s' w'. job_step (s, w) (s', w') \<longrightarrow> s' = s \<or> unat (js_revision s') = unat (js_revision s) + 1)"
proof -
  have inv: "job_inv (s, w)"
    using job_steps_inv [OF assms job_new_inv] .
  then have "s' = s \<or> unat (js_revision s') = unat (js_revision s) + 1" if "job_step (s, w) (s', w')" for s' w'
    using job_step_inv [OF that inv] by (auto simp: revised_def)
  with inv show ?thesis
    by (auto simp: job_inv_def split: JobStatus.splits)
qed

text \<open>A run in which cancellation wins over a successful return.\<close>

definition ex_cancelled_job :: "(nat, nat, nat) JobSnapshot" where
  "ex_cancelled_job = \<lparr>js_id = 7, js_revision = 3, js_progress = Some 5, js_cancellation_requested = True,
     js_status = Status_Complete Outcome_Cancelled\<rparr>"

lemma ex_job_run: "job_step\<^sup>*\<^sup>* (job_new 7, Working) (ex_cancelled_job, Gone)"
proof -
  let ?s1 = "snd (job_progress (5 :: nat) (job_new 7)) :: (nat, nat, nat) JobSnapshot"
  let ?s2 = "snd (request_cancel ?s1)"
  let ?s3 = "snd (complete_try Outcome_Cancelled ?s2)"
  have "after_complete (complete_try (outcome_of (Inr 9)) ?s2) = (?s2, Discarding)"
    by code_simp
  then have 3: "job_step (?s2, Working) (?s2, Discarding)"
    using job_step.returned [of ?s2 "Inr 9"] by simp
  have "snd (complete_try (guard_outcome False) ?s3) = ex_cancelled_job"
    by code_simp
  then have 5: "job_step (?s3, Leaving False) (ex_cancelled_job, Gone)"
    using job_step.left [of ?s3 False] by simp
  have "job_step\<^sup>*\<^sup>* (job_new 7, Working) (?s1, Working)"
    using job_step.report [of "job_new 7" Working 5] by blast
  also have "job_step (?s1, Working) (?s2, Working)"
    by (rule job_step.cancel)
  also note 3
  also have "job_step (?s2, Discarding) (?s3, Leaving False)"
    by (rule job_step.discarded)
  also note 5
  finally show ?thesis .
qed

theorem job_reach_inv_witness: "\<exists>out. js_status ex_cancelled_job = Status_Complete out \<and> js_cancellation_requested ex_cancelled_job"
  using job_reach_inv [OF ex_job_run] by (simp add: ex_cancelled_job_def)

text \<open>The terminal result is set once: from a complete snapshot no sequence of steps of anyone
  changes anything in it, a further cancellation is answered as finished, and progress is refused.\<close>

theorem job_terminal_once:
  assumes "js_status s = Status_Complete out" and "job_step\<^sup>*\<^sup>* (s, w) (s', w')"
  shows "s' = s \<and> request_cancel s' = (Cancel_Finished, s') \<and> job_progress p s' = (False, s')"
proof -
  have "fst c = s" if "job_step\<^sup>*\<^sup>* (s, w) c" for c
    using that
  proof (induction rule: rtranclp_induct)
    case (step c d)
    then show ?case
      using complete_final [OF step.hyps(2)] assms(1) by simp
  qed simp
  then have "s' = s"
    using assms(2) by fastforce
  then show ?thesis
    using assms(1) by (simp add: request_cancel_def job_progress_def)
qed

theorem job_terminal_once_witness:
  "js_status ex_cancelled_job = Status_Complete Outcome_Cancelled
   \<and> request_cancel ex_cancelled_job = (Cancel_Finished, ex_cancelled_job)"
  using job_terminal_once [of ex_cancelled_job Outcome_Cancelled Gone ex_cancelled_job Gone]
  by (simp add: ex_cancelled_job_def)

section \<open>Owners\<close>

text \<open>The workers of an owner: distinct identities below the process counter, no more than its
  capacity, each with its snapshot; after closing, none of them still runs uncancelled.\<close>

definition owner_inv :: "JobOwner \<Rightarrow> u64 \<Rightarrow> ('p, 't, 'e) jobs \<Rightarrow> bool" where
  "owner_inv o1 NEXT_ID jobs \<longleftrightarrow> bt_wf jobs \<and> distinct (jo_workers o1) \<and> length (jo_workers o1) \<le> jo_capacity o1
     \<and> (\<forall>w \<in> set (jo_workers o1). w < NEXT_ID) \<and> (\<forall>j \<in> fst ` set jobs. j < NEXT_ID)
     \<and> (\<forall>w \<in> set (jo_workers o1). \<exists>s. bt_get jobs w = Some s \<and> js_id s = w
          \<and> (jo_closed o1 \<longrightarrow> js_status s \<noteq> Status_Running))"

lemma cancel_job_wf: "bt_wf jobs \<Longrightarrow> bt_wf (cancel_job w jobs)"
  by (simp add: cancel_job_def split: option.splits)

lemma cancel_job_get:
  "bt_wf jobs \<Longrightarrow> bt_get (cancel_job w jobs) j =
     (if j = w then map_option (\<lambda>s. snd (request_cancel s)) (bt_get jobs w) else bt_get jobs j)"
  by (simp add: cancel_job_def bt_get_insert split: option.splits)

lemma cancel_jobs_get:
  "bt_wf jobs \<Longrightarrow> distinct ws \<Longrightarrow> bt_wf (fold cancel_job ws jobs) \<and> bt_get (fold cancel_job ws jobs) j =
     (if j \<in> set ws then map_option (\<lambda>s. snd (request_cancel s)) (bt_get jobs j) else bt_get jobs j)"
  by (induction ws arbitrary: jobs) (auto simp: cancel_job_wf cancel_job_get)

lemma request_cancel_facts:
  "js_id (snd (request_cancel s)) = js_id s" "js_status (snd (request_cancel s)) \<noteq> Status_Running"
  by (simp_all add: request_cancel_def split: JobStatus.splits)

lemma join_workers_result:
  "join_workers joined kept ws r =
     (kept @ filter (\<lambda>w. joined w = None) ws,
      \<lparr>sd_unresponsive = sd_unresponsive r @ filter (\<lambda>w. joined w = None) ws,
       sd_join_failures = sd_join_failures r @ filter (\<lambda>w. joined w = Some False) ws\<rparr>)"
  by (induction ws arbitrary: kept r) (auto split: option.splits)

lemma owner_close_inv:
  assumes "owner_inv o1 n jobs" and "owner_close o1 jobs = (o2, jobs')"
  shows "owner_inv o2 n jobs'" and "jo_closed o2" and "jo_workers o2 = jo_workers o1"
proof -
  have o2: "o2 = o1\<lparr>jo_closed := True\<rparr>" and j: "jobs' = fold cancel_job (jo_workers o1) jobs"
    using assms(2) by (auto simp: owner_close_def)
  have wf: "bt_wf jobs" "distinct (jo_workers o1)"
    using assms(1) by (auto simp: owner_inv_def)
  note get = cancel_jobs_get [OF wf]
  have wf': "bt_wf jobs'"
    using get j by simp
  have "j \<in> fst ` set jobs' \<longleftrightarrow> j \<in> fst ` set jobs" for j
    using bt.get_None_iff [OF wf', of j] bt.get_None_iff [OF wf(1), of j] get [of j]
    by (simp add: j split: if_splits)
  then have keys: "fst ` set jobs' = fst ` set jobs"
    by blast
  have cancelled: "\<exists>s. bt_get jobs' w = Some s \<and> js_id s = w \<and> js_status s \<noteq> Status_Running"
    if w: "w \<in> set (jo_workers o1)" for w
  proof -
    obtain s where "bt_get jobs w = Some s" "js_id s = w"
      using assms(1) w unfolding owner_inv_def by blast
    then show ?thesis
      using get [of w] w by (simp add: j request_cancel_facts)
  qed
  show "owner_inv o2 n jobs'"
    using assms(1) wf' cancelled unfolding owner_inv_def keys by (simp add: o2)
  show "jo_closed o2" "jo_workers o2 = jo_workers o1"
    by (simp_all add: o2)
qed

lemma owner_inv_reap:
  assumes "owner_inv o1 n jobs"
  shows "owner_inv (o1\<lparr>jo_workers := filter P (jo_workers o1)\<rparr>) n jobs"
proof -
  have "length (filter P (jo_workers o1)) \<le> jo_capacity o1"
    using assms le_trans [OF length_filter_le] by (auto simp: owner_inv_def)
  then show ?thesis
    using assms by (auto simp: owner_inv_def)
qed

text \<open>Shutting an owner down: admission is closed for good and no worker is left uncancelled,
  whatever happens; with a representable deadline, exactly the workers that did not finish in time
  stay owned, in start order, and are the ones reported as unresponsive, so that a later shutdown
  resumes with them; those that ended with a join error are reported; without one, all stay owned.\<close>

theorem owner_shutdown_exact:
  assumes "owner_inv o1 n jobs" and "owner_shutdown deadline_ok joined o1 jobs = (res, o2, jobs')"
  shows "owner_inv o2 n jobs' \<and> jo_closed o2 \<and> fst (owner_start fin rt o2 n jobs') = Inl Start_Closed
    \<and> (if deadline_ok then jo_workers o2 = filter (\<lambda>w. joined w = None) (jo_workers o1)
          \<and> res = Inr \<lparr>sd_unresponsive = jo_workers o2,
                       sd_join_failures = filter (\<lambda>w. joined w = Some False) (jo_workers o1)\<rparr>
       else jo_workers o2 = jo_workers o1 \<and> res = Inl Shutdown_InvalidDeadline)"
proof -
  obtain oc jc where c: "owner_close o1 jobs = (oc, jc)"
    by (cases "owner_close o1 jobs")
  note inv = owner_close_inv [OF assms(1) c]
  show ?thesis
  proof (cases deadline_ok)
    case True
    have "o2 = oc\<lparr>jo_workers := filter (\<lambda>w. joined w = None) (jo_workers oc)\<rparr>" "jobs' = jc"
      "res = Inr \<lparr>sd_unresponsive = jo_workers o2,
         sd_join_failures = filter (\<lambda>w. joined w = Some False) (jo_workers oc)\<rparr>"
      using assms(2) c True by (auto simp: owner_shutdown_def join_workers_result)
    then show ?thesis
      using True inv(2,3) owner_inv_reap [OF inv(1)] by (simp add: owner_start_def)
  next
    case False
    have "o2 = oc" "jobs' = jc" "res = Inl Shutdown_InvalidDeadline"
      using assms(2) c False by (auto simp: owner_shutdown_def)
    then show ?thesis
      using False inv by (simp add: owner_start_def)
  qed
qed

theorem owner_shutdown_exact_witness:
  "\<exists>o2 jobs'. owner_shutdown True (\<lambda>w. if w = 1 then None else Some False)
       \<lparr>jo_capacity = 2, jo_closed = False, jo_workers = [1, 2]\<rparr>
       [(1, job_new 1 :: (nat, nat, nat) JobSnapshot), (2, job_new 2)]
     = (Inr \<lparr>sd_unresponsive = [1], sd_join_failures = [2]\<rparr>, o2, jobs') \<and> jo_closed o2 \<and> jo_workers o2 = [1]"
proof -
  let ?o = "\<lparr>jo_capacity = 2, jo_closed = False, jo_workers = [1, 2]\<rparr>"
  let ?jobs = "[(1, job_new 1 :: (nat, nat, nat) JobSnapshot), (2, job_new 2)]"
  let ?joined = "\<lambda>w :: u64. if w = 1 then None else Some False"
  obtain res o2 jobs' where run: "owner_shutdown True ?joined ?o ?jobs = (res, o2, jobs')"
    by (cases "owner_shutdown True ?joined ?o ?jobs")
  have inv: "owner_inv ?o 3 ?jobs"
    by (auto simp: owner_inv_def bt_get_def job_new_def)
  show ?thesis
    using owner_shutdown_exact [OF inv run, of "\<lambda>_. False" True] run by simp
qed

text \<open>Starting keeps the owner's invariant, never exceeds the capacity and never reuses an identity.\<close>

lemma owner_start_inv:
  assumes "owner_inv o1 n jobs" and "owner_start fin rt o1 n jobs = (res, o2, n', jobs')"
  shows "owner_inv o2 n' jobs' \<and> (\<forall>jid. res = Inr jid \<longrightarrow> bt_get jobs jid = None \<and> n \<le> jid \<and> jid < n')"
proof (cases "jo_closed o1")
  case True
  then show ?thesis
    using assms by (auto simp: owner_start_def)
next
  case False
  let ?o = "o1\<lparr>jo_workers := filter (\<lambda>w. \<not> fin w) (jo_workers o1)\<rparr>"
  have reaped: "owner_inv ?o n jobs"
    by (rule owner_inv_reap [OF assms(1)])
  show ?thesis
  proof (cases "length (jo_workers ?o) \<ge> jo_capacity ?o \<or> \<not> rt \<or> n = u64_MAX")
    case True
    then have "o2 = ?o \<and> n' = n \<and> jobs' = jobs \<and> (\<exists>e. res = Inl e)"
      using assms(2) False by (simp add: owner_start_def Let_def split: if_splits) auto
    then show ?thesis
      using reaped by auto
  next
    case room: False
    have "unat n + 1 < 2 ^ 64"
    proof -
      have "unat n \<noteq> 2 ^ 64 - 1"
        using room by (auto simp: u64_MAX_def word_unat_eq_iff)
      then show ?thesis
        using unat_lt [of n] by simp
    qed
    then have n: "n < n + 1" "j < n \<Longrightarrow> j < n + 1" for j
      by (auto simp: word_less_nat_alt unat_word_ariths)
    have eq: "res = Inr n" "o2 = ?o\<lparr>jo_workers := jo_workers ?o @ [n]\<rparr>" "n' = n + 1"
      "jobs' = bt_insert n (job_new n) jobs"
      using assms(2) False room by (auto simp: owner_start_def Let_def)
    have fresh: "bt_get jobs n = None" "n \<notin> set (jo_workers ?o)"
      using reaped bt.get_None_iff [of jobs n] by (auto simp: owner_inv_def)
    have "owner_inv o2 n' jobs'"
      using reaped room False n fresh unfolding eq
      by (auto simp: owner_inv_def bt_get_insert bt_insert_keys job_new_def)
    then show ?thesis
      using n fresh by (simp add: eq)
  qed
qed

end
