(* ===== verification/Step_Gate.thy ===== *)
theory Step_Gate
  imports Step_Advance
begin

text \<open>
  The managed step session around a scheduler
  (\<^verbatim>\<open>crates/reiny/src/component/{deadline,step}.rs\<close> and
  \<^verbatim>\<open>crates/reiny/src/component/step/{control,control/admission,driver}.rs\<close>): the gate that orders
  admission, cancellation, host stop and the scheduler's commit, the handles that start runs, and the
  driver that serves them. The gate's state is behind one mutex, so each critical section is a
  function on it; whatever happens between two critical sections of one caller may interleave with
  the others, which \<open>sys_step\<close> spells out. Instants are nanoseconds up to the platform's \<open>imax\<close>; each
  reading of the clock is an argument. A shared \<open>Arc<Run>\<close> is named by its sequence number.
\<close>

section \<open>Deadlines\<close>

type_synonym Deadline = "nat option"

definition checked_after :: "nat \<Rightarrow> nat \<Rightarrow> Duration option \<Rightarrow> Deadline option" where
  "checked_after imax now timeout = (case timeout of
     Some d \<Rightarrow> if duration_is_zero d then None
               else if now + duration_in_nanos d \<le> imax then Some (Some (now + duration_in_nanos d)) else None
   | None \<Rightarrow> Some None)"

definition expired :: "nat \<Rightarrow> Deadline \<Rightarrow> bool" where
  "expired now d = (case d of None \<Rightarrow> False | Some at \<Rightarrow> now \<ge> at)"

section \<open>Runs and the gate\<close>

record StepRunId =
  rid_epoch :: EpochId
  rid_sequence :: u64

datatype StepRunError =
    Run_CancelledBeforeDispatch StepId | Run_TimedOutBeforeDispatch StepId
  | Run_Failed StepFailure | Run_SupervisorGone StepId

datatype StepStartError =
    StepStart_NotRunning | StepStart_Busy StepRunId | StepStart_InvalidRequest StepRequestError
  | StepStart_InvalidTimeout | StepStart_RunIdExhausted | StepStart_Faulted StepFailure
  | StepStart_Stopped | StepStart_SupervisorGone

datatype CancelStatus = CancelStatus_Requested | CancelStatus_AlreadyRequested | CancelStatus_Finished | CancelStatus_SupervisorGone

type_synonym RunResult = "StepRunError + StepReceipt"

record Run =
  run_id :: StepRunId
  run_tick :: StepId
  run_deadline :: Deadline
  run_cancelled :: bool
  run_result :: "RunResult option"

text \<open>The stamp stands for the identity of the clock's allocation, which admission compares by
  pointer: it is fresh for each clock put in place.\<close>

record Gate =
  gt_ready :: bool
  gt_stopped :: bool
  gt_sequence :: u64
  gt_clock :: ClockSnapshot
  gt_stamp :: nat
  gt_active :: "StepRunId option"
  gt_poisoned :: bool
  gt_lost :: bool
  gt_published :: ClockSnapshot

definition gate_new :: "ClockSnapshot \<Rightarrow> Gate" where
  "gate_new clk = \<lparr>gt_ready = False, gt_stopped = False, gt_sequence = 0, gt_clock = clk\<lparr>cs_phase := Phase_Starting\<rparr>,
     gt_stamp = 0, gt_active = None, gt_poisoned = False, gt_lost = False, gt_published = clk\<lparr>cs_phase := Phase_Starting\<rparr>\<rparr>"

definition disappear :: "Gate \<Rightarrow> Gate" where
  "disappear g = g\<lparr>gt_lost := True\<rparr>"

definition gate_lock :: "Gate \<Rightarrow> (StepFailureKind + unit) \<times> Gate" where
  "gate_lock g = (if gt_poisoned g then (Inl Fail_WorkerLost, disappear g)
     else if gt_lost g then (Inl Fail_WorkerLost, g) else (Inr (), g))"

definition mark_stop :: "Gate \<Rightarrow> Gate" where
  "mark_stop g = (case gate_lock g of (Inr _, g) \<Rightarrow> g\<lparr>gt_stopped := True\<rparr> | (Inl _, g) \<Rightarrow> g)"

definition mark_ready :: "Gate \<Rightarrow> Gate" where
  "mark_ready g = (case gate_lock g of
     (Inr _, g) \<Rightarrow> if \<not> gt_stopped g then g\<lparr>gt_ready := True\<rparr> else g
   | (Inl _, g) \<Rightarrow> g)"

definition gate_snapshot :: "Gate \<Rightarrow> ClockSnapshot \<times> Gate" where
  "gate_snapshot g =
     (let (ready, stopped, g) = (if gt_poisoned g then (False, True, disappear g) else (gt_ready g, gt_stopped g, g));
          clk = gt_clock g
      in (case cs_phase clk of
            Phase_Faulted _ \<Rightarrow> clk
          | _ \<Rightarrow> if stopped \<or> gt_lost g then clk\<lparr>cs_phase := Phase_Stopped\<rparr>
                else if ready \<and> cs_phase clk = Phase_Starting then clk\<lparr>cs_phase := Phase_Ready\<rparr> else clk, g))"

definition publish :: "Gate \<Rightarrow> Gate" where
  "publish g = (case gate_snapshot g of (latest, g) \<Rightarrow>
     if gt_published g = latest then g else g\<lparr>gt_published := latest\<rparr>)"

definition gate_stop :: "Gate \<Rightarrow> Gate" where
  "gate_stop g = publish (mark_stop g)"

definition activate :: "Gate \<Rightarrow> Gate" where
  "activate g = publish (mark_ready g)"

definition gate_cancel :: "Run \<Rightarrow> Gate \<Rightarrow> CancelStatus \<times> Run \<times> Gate" where
  "gate_cancel run g = (case gate_lock g of
     (Inl _, g) \<Rightarrow> (if run_result run \<noteq> None then CancelStatus_Finished else CancelStatus_SupervisorGone, run, g)
   | (Inr _, g) \<Rightarrow>
       if run_result run \<noteq> None then (CancelStatus_Finished, run, g)
       else if run_cancelled run then (CancelStatus_AlreadyRequested, run, g)
       else (CancelStatus_Requested, run\<lparr>run_cancelled := True\<rparr>, g))"

definition reason :: "nat \<Rightarrow> Gate \<Rightarrow> Run \<Rightarrow> StepFailureKind option" where
  "reason now g run =
     (if gt_stopped g then Some Fail_HostStopped
      else if run_cancelled run then Some Fail_Cancelled
      else if expired now (run_deadline run) then Some Fail_TimedOut
      else None)"

definition interruption :: "nat \<Rightarrow> Run \<Rightarrow> Gate \<Rightarrow> StepFailureKind option \<times> Gate" where
  "interruption now run g = (case gate_lock g of
     (Inr _, g) \<Rightarrow> (reason now g run, g)
   | (Inl kind, g) \<Rightarrow> (Some kind, g))"

text \<open>\<open>OnceLock::set\<close>: the first value stays.\<close>

definition set_result :: "RunResult \<Rightarrow> Run \<Rightarrow> Run" where
  "set_result r run = (case run_result run of None \<Rightarrow> run\<lparr>run_result := Some r\<rparr> | Some _ \<Rightarrow> run)"

definition gate_finish :: "Run \<Rightarrow> RunResult \<Rightarrow> ClockSnapshot \<Rightarrow> Gate \<Rightarrow> Run \<times> Gate" where
  "gate_finish run result clk g = (case gate_lock g of
     (Inl _, g) \<Rightarrow> (run, g)
   | (Inr _, g) \<Rightarrow> (set_result result run, g\<lparr>gt_clock := clk, gt_stamp := Suc (gt_stamp g), gt_active := None\<rparr>))"

text \<open>The controlled commit: the decision under the lock, which is what the scheduler acts on, and the
  bookkeeping done there when it lets the move happen.\<close>

definition commit_decision :: "nat \<Rightarrow> Run \<Rightarrow> Gate \<Rightarrow> gate" where
  "commit_decision now run g receipt clk = fst (interruption now run g)"

definition commit_section :: "nat \<Rightarrow> Run \<Rightarrow> StepReceipt \<Rightarrow> ClockSnapshot \<Rightarrow> Gate \<Rightarrow> (StepFailureKind + unit) \<times> Run \<times> Gate" where
  "commit_section now run receipt clk g = (case gate_lock g of
     (Inl kind, g) \<Rightarrow> (Inl kind, run, g)
   | (Inr _, g) \<Rightarrow>
       (case reason now g run of
          Some kind \<Rightarrow> (Inl kind, run, g)
        | None \<Rightarrow> (Inr (), set_result (Inr receipt) run,
            g\<lparr>gt_clock := clk, gt_stamp := Suc (gt_stamp g), gt_active := None\<rparr>)))"

section \<open>Admission\<close>

record Sample =
  sm_clock :: ClockSnapshot
  sm_stamp :: nat
  sm_ready :: bool
  sm_stopped :: bool
  sm_active :: "StepRunId option"
  sm_sequence :: u64

definition start_sample :: "Gate \<Rightarrow> (StepStartError + Sample) \<times> Gate" where
  "start_sample g = (case gate_lock g of
     (Inl _, g) \<Rightarrow> (Inl StepStart_SupervisorGone, g)
   | (Inr _, g) \<Rightarrow> (Inr \<lparr>sm_clock = gt_clock g, sm_stamp = gt_stamp g, sm_ready = gt_ready g,
       sm_stopped = gt_stopped g, sm_active = gt_active g, sm_sequence = gt_sequence g\<rparr>, g))"

text \<open>What is checked on the sample, outside the lock; the result is the next sequence number.\<close>

definition start_check :: "StepRequest \<Rightarrow> Plan \<Rightarrow> Sample \<Rightarrow> StepStartError abort + u64" where
  "start_check request plan sm =
     (case cs_phase (sm_clock sm) of
        Phase_Faulted failure \<Rightarrow> Inl (Abort (StepStart_Faulted failure))
      | _ \<Rightarrow>
        if sm_stopped sm then Inl (Abort StepStart_Stopped)
        else if \<not> sm_ready sm then Inl (Abort StepStart_NotRunning)
        else (case sm_active sm of
          Some in_flight \<Rightarrow> Inl (Abort (StepStart_Busy in_flight))
        | None \<Rightarrow>
            (case StepRequest_validate request plan (sm_clock sm) of
               Inl Abort_Panic \<Rightarrow> Inl Abort_Panic
             | Inl (Abort e) \<Rightarrow> Inl (Abort (StepStart_InvalidRequest e))
             | Inr _ \<Rightarrow> ok_or (u64_checked_add (sm_sequence sm) 1) (Abort StepStart_RunIdExhausted))))"

datatype Acceptance = Accepted Run | Rejected StepStartError | Retry

definition start_tick :: "Sample \<Rightarrow> StepId" where
  "start_tick sm = \<lparr>id_epoch = cs_epoch (sm_clock sm), id_index = cs_next_index (sm_clock sm)\<rparr>"

definition start_accept :: "nat \<Rightarrow> nat \<Rightarrow> Duration option \<Rightarrow> Sample \<Rightarrow> u64 \<Rightarrow> Gate \<Rightarrow> Acceptance \<times> Gate" where
  "start_accept imax now timeout sm next_sequence g = (case gate_lock g of
     (Inl _, g) \<Rightarrow> (Rejected StepStart_SupervisorGone, g)
   | (Inr _, g) \<Rightarrow>
       if gt_stopped g then (Rejected StepStart_Stopped, g)
       else (case gt_active g of
         Some active \<Rightarrow> (Rejected (StepStart_Busy active), g)
       | None \<Rightarrow>
           if gt_sequence g \<noteq> sm_sequence sm \<or> gt_stamp g \<noteq> sm_stamp sm then (Retry, g)
           else (case checked_after imax now timeout of
             None \<Rightarrow> (Rejected StepStart_InvalidTimeout, g)
           | Some deadline \<Rightarrow>
               let tick = start_tick sm;
                   rid = \<lparr>rid_epoch = id_epoch tick, rid_sequence = sm_sequence sm\<rparr>
               in (Accepted \<lparr>run_id = rid, run_tick = tick, run_deadline = deadline, run_cancelled = False, run_result = None\<rparr>,
                   g\<lparr>gt_clock := (sm_clock sm)\<lparr>cs_phase := Phase_Running tick\<rparr>, gt_stamp := Suc (gt_stamp g),
                     gt_sequence := next_sequence, gt_active := Some rid\<rparr>))))"

text \<open>One round of \<open>start\<close> with nothing in between; a round that answers \<open>Retry\<close> is repeated.\<close>

definition gate_start ::
  "nat \<Rightarrow> nat \<Rightarrow> nat \<Rightarrow> StepRequest \<Rightarrow> Duration option \<Rightarrow> Plan \<Rightarrow> Gate \<Rightarrow> Acceptance option \<times> Gate" where
  "gate_start imax now now' request timeout plan g =
     (case checked_after imax now timeout of
        None \<Rightarrow> (Some (Rejected StepStart_InvalidTimeout), g)
      | Some _ \<Rightarrow>
          (case start_sample g of
             (Inl e, g) \<Rightarrow> (Some (Rejected e), g)
           | (Inr sm, g) \<Rightarrow>
               (case start_check request plan sm of
                  Inl Abort_Panic \<Rightarrow> (None, g)
                | Inl (Abort e) \<Rightarrow> (Some (Rejected e), g)
                | Inr next_sequence \<Rightarrow>
                    (case start_accept imax now' timeout sm next_sequence g of
                       (a, g) \<Rightarrow> (Some a, publish g)))))"

section \<open>The driver\<close>

definition unknown :: "Run \<Rightarrow> StepFailure" where
  "unknown run = \<lparr>sf_tick = run_tick run, sf_kind = Fail_WorkerLost, sf_instance = None, sf_port = None,
     sf_attempted = [], sf_completed = [], sf_detail = ''step supervisor unavailable; effects unknown''\<rparr>"

text \<open>What the driver does next with a run: record a result together with a clock and go on, record
  a fault and stop, or give up the gate.\<close>

datatype Driver_phase =
    Driver_Idle
  | Driver_Advancing u64 StepRequest
  | Driver_Finishing u64 RunResult ClockSnapshot bool
  | Driver_Stopping
  | Driver_Ended

definition fault_phase :: "u64 \<Rightarrow> StepFailure \<Rightarrow> StepScheduler \<Rightarrow> Driver_phase" where
  "fault_phase sq failure s =
     Driver_Finishing sq (Inl (Run_Failed failure)) ((sched_clock s)\<lparr>cs_phase := Phase_Faulted failure\<rparr>) True"

definition after_failure :: "u64 \<Rightarrow> StepFailureKind option \<Rightarrow> StepFailure \<Rightarrow> StepScheduler \<Rightarrow> Driver_phase \<times> StepScheduler" where
  "after_failure sq executor_failure failure s =
     (let kind = (case executor_failure of Some k \<Rightarrow> k | None \<Rightarrow> sf_kind failure) in
      case interrupted kind s of (fo, s) \<Rightarrow>
        (fault_phase sq (case fo of Some f \<Rightarrow> f | None \<Rightarrow> failure) s, s))"

definition before_dispatch :: "StepFailureKind \<Rightarrow> Run \<Rightarrow> StepRunError" where
  "before_dispatch kind run = (case kind of
     Fail_Cancelled \<Rightarrow> Run_CancelledBeforeDispatch (run_tick run)
   | Fail_TimedOut \<Rightarrow> Run_TimedOutBeforeDispatch (run_tick run)
   | _ \<Rightarrow> Run_Failed ((unknown run)\<lparr>sf_kind := kind\<rparr>))"

definition after_interruption :: "u64 \<Rightarrow> Run \<Rightarrow> StepFailureKind \<Rightarrow> StepScheduler \<Rightarrow> Driver_phase \<times> StepScheduler" where
  "after_interruption sq run kind s = (case interrupted kind s of
     (Some failure, s) \<Rightarrow> (fault_phase sq failure s, s)
   | (None, s) \<Rightarrow> (Driver_Finishing sq (Inl (before_dispatch kind run)) (sched_clock s) False, s))"

section \<open>The session\<close>

record Sys =
  sy_gate :: Gate
  sy_sched :: StepScheduler
  sy_runs :: "(u64, Run) btree"
  sy_starts :: "(StepRequest \<times> Duration option \<times> Sample \<times> u64) list"
  sy_sends :: "(u64 \<times> StepRequest) list"
  sy_queue :: "(u64 \<times> StepRequest) list"
  sy_open :: bool
  sy_driver :: Driver_phase

definition sys_new :: "StepScheduler \<Rightarrow> Sys" where
  "sys_new s = \<lparr>sy_gate = gate_new (sched_clock s), sy_sched = s, sy_runs = [], sy_starts = [], sy_sends = [],
     sy_queue = [], sy_open = True, sy_driver = Driver_Idle\<rparr>"

text \<open>One atomic step of anyone: a host signal, a handle inside \<open>try_step\<close>, a holder of a run that
  cancels it, or the driver. A sampling or an acceptance that is answered with an error, or that has
  to be repeated, only drops the caller's sample. A lost or poisoned gate may be met anywhere.\<close>

inductive sys_step :: "nat \<Rightarrow> 'x executor \<Rightarrow> Sys \<Rightarrow> Sys \<Rightarrow> bool" for imax invoke where
  stopped: "sys_step imax invoke c (c\<lparr>sy_gate := mark_stop (sy_gate c)\<rparr>)"
| activated: "sys_step imax invoke c (c\<lparr>sy_gate := mark_ready (sy_gate c)\<rparr>)"
| published: "sys_step imax invoke c (c\<lparr>sy_gate := publish (sy_gate c)\<rparr>)"
| poisoned: "sys_step imax invoke c (c\<lparr>sy_gate := (sy_gate c)\<lparr>gt_poisoned := True\<rparr>\<rparr>)"
| cancelled: "bt_get (sy_runs c) sq = Some run \<Longrightarrow> gate_cancel run (sy_gate c) = (status, run', g) \<Longrightarrow>
    sys_step imax invoke c (c\<lparr>sy_gate := g, sy_runs := bt_insert sq run' (sy_runs c)\<rparr>)"
| sampled: "duration_wf (req_dt request) \<Longrightarrow> checked_after imax now timeout \<noteq> None \<Longrightarrow>
    start_sample (sy_gate c) = (Inr sm, g) \<Longrightarrow> start_check request (sch_plan (sy_sched c)) sm = Inr next_sequence \<Longrightarrow>
    sys_step imax invoke c (c\<lparr>sy_gate := g, sy_starts := (request, timeout, sm, next_sequence) # sy_starts c\<rparr>)"
| sample_lost: "start_sample (sy_gate c) = (Inl e, g) \<Longrightarrow> sys_step imax invoke c (c\<lparr>sy_gate := g\<rparr>)"
| accepted: "sy_starts c = ss @ (request, timeout, sm, next_sequence) # ss' \<Longrightarrow>
    start_accept imax now timeout sm next_sequence (sy_gate c) = (Accepted run, g) \<Longrightarrow>
    sys_step imax invoke c (c\<lparr>sy_gate := g, sy_starts := ss @ ss',
      sy_runs := bt_insert (rid_sequence (run_id run)) run (sy_runs c),
      sy_sends := (rid_sequence (run_id run), request) # sy_sends c\<rparr>)"
| turned_away: "sy_starts c = ss @ (request, timeout, sm, next_sequence) # ss' \<Longrightarrow>
    start_accept imax now timeout sm next_sequence (sy_gate c) = (a, g) \<Longrightarrow> \<forall>run. a \<noteq> Accepted run \<Longrightarrow>
    sys_step imax invoke c (c\<lparr>sy_gate := g, sy_starts := ss @ ss'\<rparr>)"
| sent: "sy_sends c = ss @ m # ss' \<Longrightarrow> sy_open c \<Longrightarrow>
    sys_step imax invoke c (c\<lparr>sy_sends := ss @ ss', sy_queue := sy_queue c @ [m]\<rparr>)"
| send_failed: "sy_sends c = ss @ m # ss' \<Longrightarrow> \<not> sy_open c \<Longrightarrow>
    sys_step imax invoke c (c\<lparr>sy_sends := ss @ ss', sy_gate := disappear (sy_gate c)\<rparr>)"
| received: "sy_driver c = Driver_Idle \<Longrightarrow> sy_queue c = (sq, request) # q \<Longrightarrow>
    sys_step imax invoke c (c\<lparr>sy_driver := Driver_Advancing sq request, sy_queue := q\<rparr>)"
| closing: "sy_driver c = Driver_Idle \<Longrightarrow> gate_lock (sy_gate c) = (Inr (), g) \<Longrightarrow> gt_stopped g \<Longrightarrow>
    sys_step imax invoke c (c\<lparr>sy_gate := g, sy_open := False,
      sy_driver := (if sy_queue c = [] then Driver_Ended else Driver_Idle)\<rparr>)"
| closing_lost: "sy_driver c = Driver_Idle \<Longrightarrow> gate_lock (sy_gate c) = (Inl kind, g) \<Longrightarrow>
    sys_step imax invoke c (c\<lparr>sy_gate := g, sy_open := False,
      sy_driver := (if sy_queue c = [] then Driver_Ended else Driver_Idle)\<rparr>)"
| committed: "sy_driver c = Driver_Advancing sq request \<Longrightarrow> bt_get (sy_runs c) sq = Some run \<Longrightarrow>
    advance_controlled invoke (commit_decision now run (sy_gate c)) request (sy_sched c) x = (Returned (Inr receipt), s', x') \<Longrightarrow>
    commit_section now run receipt (sched_clock s') (sy_gate c) = (answer, run', g) \<Longrightarrow>
    sys_step imax invoke c (c\<lparr>sy_gate := g, sy_sched := s', sy_runs := bt_insert sq run' (sy_runs c), sy_driver := Driver_Idle\<rparr>)"
| failed: "sy_driver c = Driver_Advancing sq request \<Longrightarrow> bt_get (sy_runs c) sq = Some run \<Longrightarrow>
    advance_controlled invoke (commit_decision now run (sy_gate c)) request (sy_sched c) x = (Returned (Inl e), s', x') \<Longrightarrow>
    e = Sched_Failed failure \<or> e = Sched_Faulted failure \<Longrightarrow>
    after_failure sq executor_failure failure s' = (d, s'') \<Longrightarrow>
    sys_step imax invoke c (c\<lparr>sy_gate := snd (interruption now run (sy_gate c)), sy_sched := s'', sy_driver := d\<rparr>)"
| disagreed: "sy_driver c = Driver_Advancing sq request \<Longrightarrow> bt_get (sy_runs c) sq = Some run \<Longrightarrow>
    advance_controlled invoke (commit_decision now run (sy_gate c)) request (sy_sched c) x = (Returned (Inl (Sched_Request e)), s', x') \<Longrightarrow>
    sys_step imax invoke c (c\<lparr>sy_gate := disappear (sy_gate c), sy_sched := s', sy_driver := Driver_Stopping\<rparr>)"
| interrupted_early: "sy_driver c = Driver_Advancing sq request \<Longrightarrow> bt_get (sy_runs c) sq = Some run \<Longrightarrow>
    interruption now run (sy_gate c) = (Some kind, g) \<Longrightarrow>
    after_interruption sq run kind (sy_sched c) = (d, s'') \<Longrightarrow>
    sys_step imax invoke c (c\<lparr>sy_gate := g, sy_sched := s'', sy_driver := d\<rparr>)"
| interrupted_late: "sy_driver c = Driver_Advancing sq request \<Longrightarrow> bt_get (sy_runs c) sq = Some run \<Longrightarrow>
    interruption now run (sy_gate c) = (Some kind, g) \<Longrightarrow>
    advance_controlled invoke control request (sy_sched c) x = (Future_Dropped, s', x') \<Longrightarrow>
    after_interruption sq run kind s' = (d, s'') \<Longrightarrow>
    sys_step imax invoke c (c\<lparr>sy_gate := g, sy_sched := s'', sy_driver := d\<rparr>)"
| finished: "sy_driver c = Driver_Finishing sq result clk fatal \<Longrightarrow> bt_get (sy_runs c) sq = Some run \<Longrightarrow>
    gate_finish run result clk (sy_gate c) = (run', g) \<Longrightarrow>
    sys_step imax invoke c (c\<lparr>sy_gate := g, sy_runs := bt_insert sq run' (sy_runs c),
      sy_driver := (if fatal then Driver_Stopping else Driver_Idle)\<rparr>)"
| ended: "sy_driver c = Driver_Stopping \<Longrightarrow>
    sys_step imax invoke c (c\<lparr>sy_gate := mark_stop (sy_gate c), sy_open := False, sy_driver := Driver_Ended\<rparr>)"
| driver_dropped: "sy_driver c \<noteq> Driver_Ended \<Longrightarrow>
    sys_step imax invoke c (c\<lparr>sy_gate := disappear (sy_gate c), sy_open := False, sy_driver := Driver_Ended\<rparr>)"

end
