(* ===== verification/Step_Session.thy ===== *)
theory Step_Session
  imports Step_Gate
begin

text \<open>
  The invariant of a managed step session and its proof. \<open>base_inv\<close> holds whatever happens;
  \<open>live_inv\<close> is what the gate guarantees while its supervisor has not disappeared. Every rule of
  \<open>sys_step\<close> has its lemma, and \<open>run_evolves\<close> collects what a step can do to a run.
\<close>

section \<open>The invariant\<close>

definition same_clock :: "ClockSnapshot \<Rightarrow> StepScheduler \<Rightarrow> bool" where
  "same_clock clk s \<longleftrightarrow> cs_epoch clk = sch_epoch s \<and> cs_next_index clk = sch_next_index s \<and> cs_time clk = sch_time s"

definition sched_tick :: "StepScheduler \<Rightarrow> StepId" where
  "sched_tick s = \<lparr>id_epoch = sch_epoch s, id_index = sch_next_index s\<rparr>"

definition run_key :: "StepScheduler \<Rightarrow> u64 \<Rightarrow> StepRunId" where
  "run_key s sq = \<lparr>rid_epoch = sch_epoch s, rid_sequence = sq\<rparr>"

definition valid_for :: "StepRequest \<Rightarrow> StepScheduler \<Rightarrow> bool" where
  "valid_for req s \<longleftrightarrow> (\<exists>r. StepRequest_validate req (sch_plan s) (sched_clock s) = Inr r)"

fun error_tick :: "StepRunError \<Rightarrow> StepId" where
  "error_tick (Run_CancelledBeforeDispatch t) = t"
| "error_tick (Run_TimedOutBeforeDispatch t) = t"
| "error_tick (Run_Failed f) = sf_tick f"
| "error_tick (Run_SupervisorGone t) = t"

fun result_tick :: "RunResult \<Rightarrow> StepId" where
  "result_tick (Inl e) = error_tick e"
| "result_tick (Inr rc) = tick_id (rc_tick rc)"

fun driver_runs :: "Driver_phase \<Rightarrow> u64 list" where
  "driver_runs (Driver_Advancing sq _) = [sq]"
| "driver_runs (Driver_Finishing sq _ _ _) = [sq]"
| "driver_runs _ = []"

fun driver_requests :: "Driver_phase \<Rightarrow> (u64 \<times> StepRequest) list" where
  "driver_requests (Driver_Advancing sq req) = [(sq, req)]"
| "driver_requests _ = []"

definition waiting :: "Sys \<Rightarrow> (u64 \<times> StepRequest) list" where
  "waiting c = sy_sends c @ sy_queue c @ driver_requests (sy_driver c)"

text \<open>Where accepted runs are: about to be sent, queued, or with the driver.\<close>

definition whereabouts :: "Sys \<Rightarrow> u64 list" where
  "whereabouts c = map fst (sy_sends c) @ map fst (sy_queue c) @ driver_runs (sy_driver c)"

definition base_inv :: "Sys \<Rightarrow> bool" where
  "base_inv c \<longleftrightarrow> sched_inv (sy_sched c) \<and> bt_wf (sy_runs c)
     \<and> (\<forall>sq run. bt_get (sy_runs c) sq = Some run \<longrightarrow> run_id run = run_key (sy_sched c) sq \<and> sq < gt_sequence (sy_gate c))
     \<and> (\<forall>(sq, req) \<in> set (waiting c). duration_wf (req_dt req))
     \<and> (\<forall>(req, to, sm, ns) \<in> set (sy_starts c). duration_wf (req_dt req))"

definition start_ok :: "Gate \<Rightarrow> StepScheduler \<Rightarrow> StepRequest \<Rightarrow> Sample \<Rightarrow> u64 \<Rightarrow> bool" where
  "start_ok g s req sm ns \<longleftrightarrow> sm_stamp sm \<le> gt_stamp g
     \<and> (sm_stamp sm = gt_stamp g \<longrightarrow> sm_clock sm = gt_clock g \<and> gt_active g = None \<and> sch_fault s = None
          \<and> valid_for req s \<and> sm_sequence sm = gt_sequence g \<and> u64_checked_add (gt_sequence g) 1 = Some ns)"

definition finishing_ok :: "StepScheduler \<Rightarrow> (u64, Run) btree \<Rightarrow> Driver_phase \<Rightarrow> bool" where
  "finishing_ok s runs d = (case d of
     Driver_Finishing sq result clk fatal \<Rightarrow> same_clock clk s
       \<and> (\<exists>e. result = Inl e \<and> (\<forall>run. bt_get runs sq = Some run \<longrightarrow> error_tick e = run_tick run))
       \<and> (if fatal then \<exists>f. cs_phase clk = Phase_Faulted f else sch_fault s = None \<and> cs_phase clk = Phase_Ready)
   | _ \<Rightarrow> True)"

text \<open>Exactly the active run has no result yet; the others keep one for their own tick.\<close>

definition results_ok :: "Gate \<Rightarrow> (u64, Run) btree \<Rightarrow> bool" where
  "results_ok g runs \<longleftrightarrow> (\<forall>sq run. bt_get runs sq = Some run \<longrightarrow>
     (case run_result run of None \<Rightarrow> gt_active g = Some (run_id run)
      | Some r \<Rightarrow> gt_active g \<noteq> Some (run_id run) \<and> result_tick r = run_tick run))"

lemma results_okD:
  assumes "results_ok g runs" and "bt_get runs sq = Some run"
  shows "gt_active g = Some (run_id run) \<Longrightarrow> run_result run = None"
    and "gt_active g \<noteq> Some (run_id run) \<Longrightarrow> \<exists>r. run_result run = Some r \<and> result_tick r = run_tick run"
  using assms by (cases "run_result run"; force simp: results_ok_def)+

definition active_ok :: "Gate \<Rightarrow> StepScheduler \<Rightarrow> (u64, Run) btree \<Rightarrow> bool" where
  "active_ok g s runs \<longleftrightarrow> (case gt_active g of
     Some rid \<Rightarrow> (\<exists>run. bt_get runs (rid_sequence rid) = Some run \<and> run_id run = rid
       \<and> run_tick run = sched_tick s \<and> cs_phase (gt_clock g) = Phase_Running (run_tick run))
   | None \<Rightarrow> sch_fault s = None \<and> cs_phase (gt_clock g) \<in> {Phase_Starting, Phase_Ready}
       \<or> (\<exists>f. cs_phase (gt_clock g) = Phase_Faulted f))"

definition waiting_ok :: "StepScheduler \<Rightarrow> (u64 \<times> StepRequest) list \<Rightarrow> bool" where
  "waiting_ok s ws \<longleftrightarrow> (\<forall>(sq, req) \<in> set ws. sch_fault s = None \<and> valid_for req s)"

definition starts_ok :: "Gate \<Rightarrow> StepScheduler \<Rightarrow> (StepRequest \<times> Duration option \<times> Sample \<times> u64) list \<Rightarrow> bool" where
  "starts_ok g s starts \<longleftrightarrow> (\<forall>(req, to, sm, ns) \<in> set starts. start_ok g s req sm ns)"

definition active_list :: "Gate \<Rightarrow> u64 list" where
  "active_list g = (case gt_active g of None \<Rightarrow> [] | Some rid \<Rightarrow> [rid_sequence rid])"

definition live_inv :: "Sys \<Rightarrow> bool" where
  "live_inv c \<longleftrightarrow> whereabouts c = active_list (sy_gate c)
     \<and> results_ok (sy_gate c) (sy_runs c)
     \<and> active_ok (sy_gate c) (sy_sched c) (sy_runs c)
     \<and> same_clock (gt_clock (sy_gate c)) (sy_sched c)
     \<and> waiting_ok (sy_sched c) (waiting c)
     \<and> finishing_ok (sy_sched c) (sy_runs c) (sy_driver c)
     \<and> starts_ok (sy_gate c) (sy_sched c) (sy_starts c)"

definition sys_inv :: "Sys \<Rightarrow> bool" where
  "sys_inv c \<longleftrightarrow> base_inv c \<and> (\<not> gt_lost (sy_gate c) \<longrightarrow> live_inv c)"

section \<open>What the gate's operations keep\<close>

definition gate_core :: "Gate \<Rightarrow> u64 \<times> ClockSnapshot \<times> nat \<times> StepRunId option" where
  "gate_core g = (gt_sequence g, gt_clock g, gt_stamp g, gt_active g)"

definition gate_kept :: "Gate \<Rightarrow> Gate \<Rightarrow> bool" where
  "gate_kept g g' \<longleftrightarrow> gate_core g' = gate_core g \<and> (gt_lost g \<longrightarrow> gt_lost g') \<and> (gt_stopped g \<longrightarrow> gt_stopped g')"

lemma gate_kept_refl [simp]: "gate_kept g g"
  by (simp add: gate_kept_def)

lemma lock_cases:
  assumes "gate_lock g = (l, g')"
  obtains (locked) "l = Inr ()" "g' = g" "\<not> gt_lost g" "\<not> gt_poisoned g"
    | (gone) "l = Inl Fail_WorkerLost" "gt_lost g'" "gate_kept g g'" "gt_stopped g' = gt_stopped g"
  using assms
  by (auto simp: gate_lock_def gate_kept_def gate_core_def disappear_def split: if_splits)

lemma lock_kept: "gate_lock g = (l, g') \<Longrightarrow> gate_kept g g'"
  by (erule lock_cases) simp_all

lemma snapshot_gate: "snd (gate_snapshot g) = (if gt_poisoned g then disappear g else g)"
  by (simp add: gate_snapshot_def Let_def split_beta)

lemma gate_kept_publish: "gate_kept g (publish g)"
  using snapshot_gate [of g] by (cases "gate_snapshot g") (auto simp: publish_def gate_kept_def gate_core_def disappear_def split: if_splits)

lemma gate_kept_ops [simp]:
  "gate_kept g (mark_stop g)" "gate_kept g (mark_ready g)" "gate_kept g (publish g)" "gate_kept g (disappear g)"
  "gate_kept g (g\<lparr>gt_poisoned := True\<rparr>)" "gate_kept g (snd (interruption now run g))"
  using gate_kept_publish
  by (simp_all add: mark_stop_def mark_ready_def interruption_def gate_lock_def disappear_def gate_kept_def gate_core_def)

lemma gate_kept_cancel: "gate_cancel run g = (st, run', g') \<Longrightarrow> gate_kept g g'"
  by (auto simp: gate_cancel_def dest: lock_kept split: prod.splits sum.splits if_splits)

lemma gate_kept_sample: "start_sample g = (r, g') \<Longrightarrow> gate_kept g g'"
  by (auto simp: start_sample_def dest: lock_kept split: prod.splits sum.splits)

lemma gate_kept_turned:
  assumes "start_accept imax now timeout sm ns g = (a, g')" and "\<forall>run. a \<noteq> Accepted run"
  shows "gate_kept g g'"
  using assms
  by (auto simp: start_accept_def Let_def dest: lock_kept split: prod.splits sum.splits if_splits option.splits)

lemma inv_gate_kept:
  assumes "sys_inv c" and "gate_kept (sy_gate c) g"
  shows "sys_inv (c\<lparr>sy_gate := g\<rparr>)"
proof -
  have core: "gt_sequence g = gt_sequence (sy_gate c)" "gt_clock g = gt_clock (sy_gate c)"
    "gt_stamp g = gt_stamp (sy_gate c)" "gt_active g = gt_active (sy_gate c)"
    and lost: "gt_lost (sy_gate c) \<longrightarrow> gt_lost g"
    using assms(2) by (auto simp: gate_kept_def gate_core_def)
  have "results_ok g = results_ok (sy_gate c)" "active_ok g = active_ok (sy_gate c)"
    "starts_ok g = starts_ok (sy_gate c)" "active_list g = active_list (sy_gate c)"
    unfolding fun_eq_iff results_ok_def active_ok_def starts_ok_def start_ok_def active_list_def core by simp_all
  then have "base_inv (c\<lparr>sy_gate := g\<rparr>) = base_inv c" "live_inv (c\<lparr>sy_gate := g\<rparr>) = live_inv c"
    by (simp_all add: base_inv_def live_inv_def waiting_def whereabouts_def core)
  then show ?thesis
    using assms(1) lost by (auto simp: sys_inv_def)
qed

lemma inv_gate_kept_after:
  assumes "sys_inv (c\<lparr>sy_sched := s, sy_driver := d\<rparr>)" and "gate_kept (sy_gate c) g"
  shows "sys_inv (c\<lparr>sy_gate := g, sy_sched := s, sy_driver := d\<rparr>)"
proof -
  have "sys_inv (c\<lparr>sy_sched := s, sy_driver := d, sy_gate := g\<rparr>)"
    by (rule inv_gate_kept [OF assms(1)]) (simp add: assms(2))
  then show ?thesis
    by (cases c) simp
qed

lemma inv_lost: "base_inv c \<Longrightarrow> gt_lost (sy_gate c) \<Longrightarrow> sys_inv c"
  by (simp add: sys_inv_def)

lemma validate_same_clock:
  "same_clock clk s \<Longrightarrow> StepRequest_validate req p clk = StepRequest_validate req p (sched_clock s)"
  by (simp add: StepRequest_validate_def same_clock_def sched_clock_def)

text \<open>Changing nothing of a run but its cancellation flag.\<close>

lemma inv_run_update:
  assumes "sys_inv c" and get: "bt_get (sy_runs c) sq = Some run" and same: "run_id run' = run_id run"
    "run_tick run' = run_tick run" "run_result run' = run_result run"
  shows "sys_inv (c\<lparr>sy_runs := bt_insert sq run' (sy_runs c)\<rparr>)"
proof -
  let ?runs = "bt_insert sq run' (sy_runs c)"
  have wf: "bt_wf (sy_runs c)"
    using assms(1) by (simp add: sys_inv_def base_inv_def)
  have "base_inv c \<Longrightarrow> base_inv (c\<lparr>sy_runs := ?runs\<rparr>)"
    using get same by (simp add: base_inv_def bt_get_insert waiting_def)
  moreover have "results_ok g (sy_runs c) \<Longrightarrow> results_ok g ?runs" for g
    using get same wf unfolding results_ok_def by (simp add: bt_get_insert cong: option.case_cong)
  moreover have "active_ok g s (sy_runs c) \<Longrightarrow> active_ok g s ?runs" for g s
    using get same wf unfolding active_ok_def by (auto simp: bt_get_insert split: option.splits)
  moreover have "finishing_ok s (sy_runs c) d \<Longrightarrow> finishing_ok s ?runs d" for s d
    using get same wf by (auto simp: finishing_ok_def bt_get_insert split: Driver_phase.splits)
  ultimately show ?thesis
    using assms(1) by (simp add: sys_inv_def live_inv_def whereabouts_def waiting_def)
qed

lemma inv_cancelled:
  assumes "sys_inv c" and "bt_get (sy_runs c) sq = Some run" and "gate_cancel run (sy_gate c) = (status, run', g)"
  shows "sys_inv (c\<lparr>sy_gate := g, sy_runs := bt_insert sq run' (sy_runs c)\<rparr>)"
proof -
  have "run_id run' = run_id run" "run_tick run' = run_tick run" "run_result run' = run_result run"
    using assms(3) by (auto simp: gate_cancel_def split: prod.splits sum.splits if_splits)
  with assms(2) inv_gate_kept [OF assms(1) gate_kept_cancel [OF assms(3)]] show ?thesis
    using inv_run_update [of "c\<lparr>sy_gate := g\<rparr>" sq run run'] by simp
qed

lemma start_check_Inr:
  assumes "start_check request plan sm = Inr ns"
  shows "sm_active sm = None" and "\<exists>r. StepRequest_validate request plan (sm_clock sm) = Inr r"
    and "u64_checked_add (sm_sequence sm) 1 = Some ns" and "cs_phase (sm_clock sm) \<noteq> Phase_Faulted f"
  using assms
  by (auto simp: start_check_def res_simps split: ClockPhase.splits if_splits option.splits sum.splits abort.splits)

lemma inv_sampled:
  assumes "sys_inv c" and "duration_wf (req_dt request)" and "start_sample (sy_gate c) = (Inr sm, g)"
    and "start_check request (sch_plan (sy_sched c)) sm = Inr next_sequence"
  shows "sys_inv (c\<lparr>sy_gate := g, sy_starts := (request, timeout, sm, next_sequence) # sy_starts c\<rparr>)"
proof -
  from assms(3) have g: "g = sy_gate c" and live: "\<not> gt_lost g"
    and sm: "sm_clock sm = gt_clock g" "sm_stamp sm = gt_stamp g" "sm_active sm = gt_active g" "sm_sequence sm = gt_sequence g"
    by (auto simp: start_sample_def gate_lock_def split: if_splits)
  have l: "live_inv c"
    using assms(1) live by (simp add: sys_inv_def g)
  note check = start_check_Inr [OF assms(4), unfolded sm]
  have same: "same_clock (gt_clock g) (sy_sched c)" and active: "active_ok g (sy_sched c) (sy_runs c)"
    using l by (simp_all add: live_inv_def g)
  have "sch_fault (sy_sched c) = None"
    using active check(1,4) by (auto simp: active_ok_def)
  moreover have "valid_for request (sy_sched c)"
    using check(2) validate_same_clock [OF same] by (simp add: valid_for_def)
  ultimately have "start_ok g (sy_sched c) request sm next_sequence"
    using check(1,3) by (simp add: start_ok_def sm)
  then show ?thesis
    using assms(1,2) by (simp add: sys_inv_def base_inv_def live_inv_def waiting_def whereabouts_def starts_ok_def g)
qed

lemma inv_starts_subset:
  assumes "sys_inv c" and "set ss \<subseteq> set (sy_starts c)"
  shows "sys_inv (c\<lparr>sy_starts := ss\<rparr>)"
proof -
  have "starts_ok g s (sy_starts c) \<Longrightarrow> starts_ok g s ss" for g s
    using assms(2) unfolding starts_ok_def by blast
  moreover have "\<forall>(req, to, sm, ns) \<in> set ss. duration_wf (req_dt req)"
    using assms by (auto simp: sys_inv_def base_inv_def)
  ultimately show ?thesis
    using assms(1) by (simp add: sys_inv_def base_inv_def live_inv_def waiting_def whereabouts_def)
qed


text \<open>A clock put in place makes every older sample out of date.\<close>

lemma starts_outdated:
  assumes "starts_ok g s starts" and "gt_stamp g' = Suc (gt_stamp g)"
  shows "starts_ok g' s' starts"
  using assms by (fastforce simp: starts_ok_def start_ok_def)

lemma accept_Accepted:
  assumes "start_accept imax now timeout sm ns g = (Accepted run, g')"
  shows "\<not> gt_lost g" and "\<not> gt_stopped g" and "gt_active g = None" and "sm_sequence sm = gt_sequence g" and "sm_stamp sm = gt_stamp g"
    and "run_id run = \<lparr>rid_epoch = cs_epoch (sm_clock sm), rid_sequence = gt_sequence g\<rparr>"
    and "run_tick run = start_tick sm" and "run_result run = None" and "\<not> run_cancelled run"
    and "g' = g\<lparr>gt_clock := (sm_clock sm)\<lparr>cs_phase := Phase_Running (start_tick sm)\<rparr>, gt_stamp := Suc (gt_stamp g),
           gt_sequence := ns, gt_active := Some (run_id run)\<rparr>"
  using assms
  by (auto simp: start_accept_def gate_lock_def Let_def start_tick_def split: if_splits option.splits)

lemma inv_accepted:
  assumes inv: "sys_inv c" and st: "sy_starts c = ss @ (request, timeout, sm, ns) # ss'"
    and acc: "start_accept imax now timeout sm ns (sy_gate c) = (Accepted run, g)"
  shows "sys_inv (c\<lparr>sy_gate := g, sy_starts := ss @ ss',
      sy_runs := bt_insert (rid_sequence (run_id run)) run (sy_runs c),
      sy_sends := (rid_sequence (run_id run), request) # sy_sends c\<rparr>)" (is "sys_inv ?c")
proof -
  let ?g = "sy_gate c" and ?s = "sy_sched c" and ?sq = "gt_sequence (sy_gate c)"
  note a = accept_Accepted [OF acc]
  have base: "base_inv c" and live: "live_inv c"
    using inv a(1) by (simp_all add: sys_inv_def)
  have ok: "starts_ok ?g ?s (ss @ ss')" "start_ok ?g ?s request sm ns"
    using live by (simp_all add: live_inv_def st starts_ok_def)
  have now: "sm_clock sm = gt_clock ?g" "sch_fault ?s = None" "valid_for request ?s" "u64_checked_add ?sq 1 = Some ns"
    using ok(2) a(5) by (simp_all add: start_ok_def)
  have same: "same_clock (gt_clock ?g) ?s"
    using live by (simp add: live_inv_def)
  then have rid: "run_id run = run_key ?s ?sq" and tick: "start_tick sm = sched_tick ?s"
    by (simp_all add: a(6) run_key_def sched_tick_def start_tick_def same_clock_def now(1))
  then have sq: "rid_sequence (run_id run) = ?sq"
    by (simp add: run_key_def)
  have ns: "?sq < ns" "q < ?sq \<Longrightarrow> q < ns" for q
    using now(4) by (auto simp: u64_checked_add_Some word_less_nat_alt)
  have wf: "bt_wf (sy_runs c)" and old: "bt_get (sy_runs c) q = Some r \<Longrightarrow> run_id r = run_key ?s q \<and> q < ?sq" for q r
    using base by (simp_all add: base_inv_def)
  have gone: "whereabouts c = []"
    using live a(3) by (simp add: live_inv_def active_list_def)
  have "base_inv ?c"
    using base rid ns old unfolding sq
    by (auto simp: base_inv_def waiting_def bt_get_insert a(10) st)
  moreover have "whereabouts ?c = active_list g"
    using gone by (simp add: whereabouts_def active_list_def a(10) sq)
  moreover have "results_ok g (sy_runs ?c)"
  proof -
    have "\<exists>res. run_result r = Some res \<and> result_tick res = run_tick r \<and> run_id run \<noteq> run_id r"
      if r: "bt_get (sy_runs c) q = Some r" for q r
    proof -
      have "run_id run \<noteq> run_id r"
        using old [OF r] by (auto simp: rid run_key_def)
      then show ?thesis
        using live results_okD(2) [OF _ r, of "sy_gate c"] a(3) by (simp add: live_inv_def)
    qed
    then show ?thesis
      using wf a(8) unfolding sq results_ok_def by (force simp: bt_get_insert a(10) split: option.splits if_splits)
  qed
  moreover have "active_ok g ?s (sy_runs ?c)"
    using wf tick a(7) by (simp add: active_ok_def a(10) bt_get_insert)
  moreover have "same_clock (gt_clock g) ?s"
    using same by (simp add: same_clock_def a(10) now(1))
  moreover have "waiting_ok ?s (waiting ?c)"
    using live now(2,3) by (simp add: live_inv_def waiting_ok_def waiting_def)
  moreover have "finishing_ok ?s (sy_runs ?c) (sy_driver ?c)"
    using gone by (cases "sy_driver c") (simp_all add: finishing_ok_def whereabouts_def)
  moreover have "starts_ok g ?s (sy_starts ?c)"
    using starts_outdated [OF ok(1)] by (simp add: a(10))
  ultimately show ?thesis
    by (simp add: sys_inv_def live_inv_def)
qed

lemma inv_sent:
  assumes "sys_inv c" and "sy_sends c = ss @ m # ss'"
  shows "sys_inv (c\<lparr>sy_sends := ss @ ss', sy_queue := sy_queue c @ [m]\<rparr>)" (is "sys_inv ?c")
proof -
  have waiting: "set (waiting ?c) = set (waiting c)"
    by (auto simp: waiting_def assms(2))
  have "whereabouts c = active_list (sy_gate c) \<Longrightarrow> whereabouts ?c = active_list (sy_gate c)"
    by (cases ss; cases ss') (auto simp: whereabouts_def active_list_def assms(2) split: option.splits)
  then show ?thesis
    using assms(1) waiting by (simp add: sys_inv_def base_inv_def live_inv_def waiting_ok_def)
qed

lemma inv_received:
  assumes "sys_inv c" and "sy_driver c = Driver_Idle" and "sy_queue c = (sq, request) # q"
  shows "sys_inv (c\<lparr>sy_driver := Driver_Advancing sq request, sy_queue := q\<rparr>)" (is "sys_inv ?c")
proof -
  have waiting: "set (waiting ?c) = set (waiting c)"
    by (auto simp: waiting_def assms)
  have "whereabouts c = active_list (sy_gate c) \<Longrightarrow> whereabouts ?c = active_list (sy_gate c)"
    by (cases q) (auto simp: whereabouts_def active_list_def assms split: option.splits)
  then show ?thesis
    using assms(1) waiting by (simp add: sys_inv_def base_inv_def live_inv_def waiting_ok_def finishing_ok_def)
qed

text \<open>Moving the driver between its phases without a run, and closing the queue.\<close>

lemma inv_driver:
  assumes "sys_inv c" and "driver_runs (sy_driver c) = []" and "driver_runs d = []"
  shows "sys_inv (c\<lparr>sy_open := b, sy_driver := d\<rparr>)"
proof -
  have "driver_requests d = []" "driver_requests (sy_driver c) = []" "finishing_ok s runs d" for s runs
    using assms(2,3) by (cases d; cases "sy_driver c"; simp add: finishing_ok_def)+
  then show ?thesis
    using assms by (simp add: sys_inv_def base_inv_def live_inv_def waiting_def whereabouts_def)
qed


section \<open>The driver's steps\<close>

lemma driving:
  assumes "sys_inv c" and "\<not> gt_lost (sy_gate c)" and "driver_runs (sy_driver c) = [sq]"
    and "bt_get (sy_runs c) sq = Some run"
  shows "sy_sends c = []" and "sy_queue c = []" and "gt_active (sy_gate c) = Some (run_id run)"
    and "run_result run = None" and "run_tick run = sched_tick (sy_sched c)"
proof -
  have base: "base_inv c" and live: "live_inv c"
    using assms(1,2) by (simp_all add: sys_inv_def)
  have "whereabouts c = active_list (sy_gate c)" and act: "active_ok (sy_gate c) (sy_sched c) (sy_runs c)"
    and res: "results_ok (sy_gate c) (sy_runs c)"
    using live by (simp_all add: live_inv_def)
  then obtain rid where rid: "gt_active (sy_gate c) = Some rid" "rid_sequence rid = sq" "sy_sends c = []" "sy_queue c = []"
    using assms(3) by (auto simp: whereabouts_def active_list_def Cons_eq_append_conv append_eq_Cons_conv split: option.splits)
  then have run: "run_id run = rid" "run_tick run = sched_tick (sy_sched c)"
    using act assms(4) by (auto simp: active_ok_def)
  then show "sy_sends c = []" "sy_queue c = []" "gt_active (sy_gate c) = Some (run_id run)"
    "run_tick run = sched_tick (sy_sched c)"
    using rid by simp_all
  show "run_result run = None"
    using results_okD(1) [OF res assms(4)] rid(1) run(1) by simp
qed

lemma advancing:
  assumes "sys_inv c" and "\<not> gt_lost (sy_gate c)" and "sy_driver c = Driver_Advancing sq request"
  shows "sch_fault (sy_sched c) = None" and "valid_for request (sy_sched c)"
  using assms by (auto simp: sys_inv_def live_inv_def waiting_ok_def waiting_def)

definition sched_same :: "StepScheduler \<Rightarrow> StepScheduler \<Rightarrow> bool" where
  "sched_same s s' \<longleftrightarrow> sch_epoch s' = sch_epoch s \<and> sch_next_index s' = sch_next_index s \<and> sch_time s' = sch_time s"

lemma starts_busy:
  assumes "starts_ok g s starts" and "gt_active g = Some rid"
  shows "starts_ok g s' starts"
  using assms by (fastforce simp: starts_ok_def start_ok_def)

lemma inv_finishing:
  assumes inv: "sys_inv c" and drv: "sy_driver c = Driver_Advancing sq request" and get: "bt_get (sy_runs c) sq = Some run"
    and sched: "sched_inv s'" "sched_same (sy_sched c) s'" and d: "d = Driver_Finishing sq result clk fatal"
    and ok: "\<not> gt_lost (sy_gate c) \<Longrightarrow> finishing_ok s' (sy_runs c) d"
  shows "sys_inv (c\<lparr>sy_sched := s', sy_driver := d\<rparr>)" (is "sys_inv ?c")
proof -
  have same: "run_key s' = run_key (sy_sched c)" "sched_tick s' = sched_tick (sy_sched c)" "same_clock clk s' = same_clock clk (sy_sched c)" for clk
    using sched(2) by (simp_all add: fun_eq_iff run_key_def sched_tick_def same_clock_def sched_same_def)
  have "base_inv ?c"
    using inv sched(1) same(1) by (auto simp: sys_inv_def base_inv_def waiting_def d)
  moreover have "live_inv ?c" if live: "\<not> gt_lost (sy_gate c)"
  proof -
    have l: "live_inv c"
      using inv live by (simp add: sys_inv_def)
    have "driver_runs (sy_driver c) = [sq]"
      by (simp add: drv)
    note dr = driving [OF inv live this get]
    have "active_ok (sy_gate c) s' (sy_runs c)"
      using l dr(3) same(2) by (simp add: live_inv_def active_ok_def)
    moreover have "starts_ok (sy_gate c) s' (sy_starts c)"
      by (rule starts_busy [OF _ dr(3), of "sy_sched c"]) (use l in \<open>simp add: live_inv_def\<close>)
    moreover have "waiting ?c = []" "whereabouts ?c = whereabouts c"
      using dr(1,2) drv by (simp_all add: waiting_def whereabouts_def d)
    ultimately show ?thesis
      using l ok [OF live] same(3) by (simp add: live_inv_def waiting_ok_def)
  qed
  ultimately show ?thesis
    by (simp add: sys_inv_def)
qed

lemma interrupted_facts:
  assumes "interrupted kind s = (fo, s')"
  shows "sched_same s s'" and "sch_fault s' = fo" and "sch_fault s = None \<Longrightarrow> fo = None \<and> s' = s"
    and "sch_fault s = Some f \<Longrightarrow> \<exists>f'. fo = Some f' \<and> sf_tick f' = sf_tick f"
  using assms by (auto simp: interrupted_def sched_same_def Let_def split: option.splits)

lemma fault_phase_ok:
  assumes "\<And>run. bt_get runs sq = Some run \<Longrightarrow> sf_tick f = run_tick run"
  shows "finishing_ok s runs (fault_phase sq f s)"
  using assms by (simp add: finishing_ok_def fault_phase_def same_clock_def sched_clock_def)

lemma before_dispatch_tick: "error_tick (before_dispatch kind run) = run_tick run"
  by (cases kind) (simp_all add: before_dispatch_def unknown_def)

text \<open>The scheduler after an advancement that did not commit.\<close>

lemma advance_uncommitted:
  assumes "sched_inv s" and "wf_executor invoke" and "sch_fault s = None"
    and "advance_controlled invoke control req s x = (res, s', x')" and "\<forall>rc. res \<noteq> Returned (Inr rc)"
    and "\<forall>e. res \<noteq> Returned (Inl (Sched_Request e))"
  obtains f where "sch_fault s' = Some f" and "sf_tick f = sched_tick s" and "sched_same s s'"
    and "res = Future_Dropped \<or> res = Returned (Inl (Sched_Failed f))"
  using assms(1,2,4)
proof (cases rule: advance_outcome)
  case (failed f)
  then show ?thesis
    using that [of f] by (auto simp: faulted_with_def sched_tick_def sched_same_def)
qed (use assms in auto)

lemma advance_same:
  assumes "sched_inv s" and "wf_executor invoke"
    and "advance_controlled invoke control req s x = (res, s', x')" and "\<forall>rc. res \<noteq> Returned (Inr rc)"
  shows "sched_same s s'"
  using assms(1-3)
  by (cases rule: advance_outcome) (use assms(4) in \<open>auto simp: faulted_with_def sched_same_def\<close>)

lemma inv_failed:
  assumes inv: "sys_inv c" and exec: "wf_executor invoke" and drv: "sy_driver c = Driver_Advancing sq request"
    and get: "bt_get (sy_runs c) sq = Some run"
    and adv: "advance_controlled invoke control request (sy_sched c) x = (Returned (Inl e), s', x')"
    and e: "e = Sched_Failed failure \<or> e = Sched_Faulted failure"
    and after: "after_failure sq ef failure s' = (d, s'')"
  shows "sys_inv (c\<lparr>sy_sched := s'', sy_driver := d\<rparr>)"
proof -
  have si: "sched_inv (sy_sched c)" and dur: "duration_wf (req_dt request)"
    using inv drv by (auto simp: sys_inv_def base_inv_def waiting_def)
  obtain kind fo where i: "interrupted kind s' = (fo, s'')" and d: "d = fault_phase sq (case fo of Some f \<Rightarrow> f | None \<Rightarrow> failure) s''"
    using after by (auto simp: after_failure_def Let_def split: prod.splits)
  have "sched_inv s''"
    using interrupted_inv [of s' kind] advance_inv [OF si exec dur adv] i by simp
  moreover have "sched_same (sy_sched c) s''"
    using advance_same [OF si exec adv] interrupted_facts(1) [OF i] by (simp add: sched_same_def)
  moreover have "finishing_ok s'' (sy_runs c) d" if live: "\<not> gt_lost (sy_gate c)"
  proof -
    have f0: "sch_fault (sy_sched c) = None"
      by (rule advancing [OF inv live drv])
    obtain f where f: "sch_fault s' = Some f" "sf_tick f = sched_tick (sy_sched c)"
      using advance_uncommitted [OF si exec f0 adv] e by auto
    show ?thesis
      unfolding d
      using interrupted_facts(4) [OF i f(1)] f(2) driving(5) [OF inv live _ get] get drv
      by (intro fault_phase_ok) auto
  qed
  ultimately show ?thesis
    using inv_finishing [OF inv drv get] by (simp add: d fault_phase_def)
qed

lemma inv_interrupted:
  assumes inv: "sys_inv c" and drv: "sy_driver c = Driver_Advancing sq request" and get: "bt_get (sy_runs c) sq = Some run"
    and sched: "sched_inv s'" "sched_same (sy_sched c) s'"
    and tick: "\<And>f. \<not> gt_lost (sy_gate c) \<Longrightarrow> sch_fault s' = Some f \<Longrightarrow> sf_tick f = run_tick run"
    and after: "after_interruption sq run kind s' = (d, s'')"
  shows "sys_inv (c\<lparr>sy_sched := s'', sy_driver := d\<rparr>)"
proof -
  obtain fo where i: "interrupted kind s' = (fo, s'')"
    and d: "d = (case fo of Some f \<Rightarrow> fault_phase sq f s''
                 | None \<Rightarrow> Driver_Finishing sq (Inl (before_dispatch kind run)) (sched_clock s'') False)"
    using after by (auto simp: after_interruption_def split: prod.splits option.splits)
  have "sched_inv s''"
    using interrupted_inv [of s' kind] sched(1) i by simp
  moreover have "sched_same (sy_sched c) s''"
    using sched(2) interrupted_facts(1) [OF i] by (simp add: sched_same_def)
  moreover have "finishing_ok s'' (sy_runs c) d" if live: "\<not> gt_lost (sy_gate c)"
  proof (cases "sch_fault s'")
    case None
    then have "fo = None" "s'' = s'"
      using interrupted_facts(3) [OF i] by simp_all
    then show ?thesis
      using None get by (simp add: d finishing_ok_def same_clock_def sched_clock_def before_dispatch_tick)
  next
    case (Some f)
    then show ?thesis
      using interrupted_facts(4) [OF i Some] tick [OF live Some] get fault_phase_ok [of "sy_runs c" sq] by (auto simp: d)
  qed
  ultimately show ?thesis
    using inv_finishing [OF inv drv get] by (cases fo) (simp_all add: d fault_phase_def)
qed


lemma inv_retired:
  assumes inv: "sys_inv c" and live: "\<not> gt_lost (sy_gate c)" and drv: "driver_runs (sy_driver c) = [sq]"
    and get: "bt_get (sy_runs c) sq = Some run" and d: "driver_runs d = []"
    and sched: "sched_inv s'" "sch_epoch s' = sch_epoch (sy_sched c)" "same_clock clk s'"
    and res: "result_tick r = run_tick run"
    and phase: "sch_fault s' = None \<and> cs_phase clk = Phase_Ready \<or> (\<exists>f. cs_phase clk = Phase_Faulted f)"
    and g: "g = (sy_gate c)\<lparr>gt_clock := clk, gt_stamp := Suc (gt_stamp (sy_gate c)), gt_active := None\<rparr>"
  shows "sys_inv (c\<lparr>sy_gate := g, sy_sched := s', sy_runs := bt_insert sq (set_result r run) (sy_runs c), sy_driver := d\<rparr>)"
    (is "sys_inv ?c")
proof -
  note dr = driving [OF inv live drv get]
  have base: "base_inv c" and l: "live_inv c"
    using inv live by (simp_all add: sys_inv_def)
  have wf: "bt_wf (sy_runs c)"
    using base by (simp add: base_inv_def)
  have dd: "driver_requests d = []" "finishing_ok s' runs d" for runs
    using d by (cases d; simp add: finishing_ok_def)+
  have set: "set_result r run = run\<lparr>run_result := Some r\<rparr>"
    using dr(4) by (simp add: set_result_def)
  have "base_inv ?c"
    using base sched(1,2) get dr(1,2) dd(1) wf
    by (simp add: base_inv_def waiting_def bt_get_insert g set run_key_def)
  moreover have "results_ok g (sy_runs ?c)"
  proof -
    have "\<exists>r. run_result u = Some r \<and> result_tick r = run_tick u" if u: "bt_get (sy_runs c) q = Some u" "q \<noteq> sq" for q u
    proof -
      have "run_id u \<noteq> run_id run"
        using base u get by (auto simp: base_inv_def run_key_def)
      then show ?thesis
        using l results_okD(2) [OF _ u(1), of "sy_gate c"] dr(3) by (simp add: live_inv_def)
    qed
    then show ?thesis
      using wf res unfolding results_ok_def by (force simp: bt_get_insert g set split: option.splits if_splits)
  qed
  moreover have "active_ok g s' (sy_runs ?c)"
    using phase by (auto simp: active_ok_def g)
  moreover have "whereabouts ?c = active_list g" "waiting ?c = []"
    using dr(1,2) d dd(1) by (simp_all add: whereabouts_def waiting_def active_list_def g)
  moreover have "starts_ok g s' (sy_starts ?c)"
    using starts_outdated [of "sy_gate c" "sy_sched c" "sy_starts c" g s'] l by (simp add: live_inv_def g)
  ultimately show ?thesis
    using sched(3) dd(2) by (simp add: sys_inv_def live_inv_def waiting_ok_def g)
qed

lemma inv_finished:
  assumes inv: "sys_inv c" and drv: "sy_driver c = Driver_Finishing sq result clk fatal"
    and get: "bt_get (sy_runs c) sq = Some run" and fin: "gate_finish run result clk (sy_gate c) = (run', g)"
    and d: "driver_runs d = []"
  shows "sys_inv (c\<lparr>sy_gate := g, sy_runs := bt_insert sq run' (sy_runs c), sy_driver := d\<rparr>)"
proof -
  obtain l g0 where lock: "gate_lock (sy_gate c) = (l, g0)"
    by (cases "gate_lock (sy_gate c)")
  have base: "base_inv c"
    using inv by (simp add: sys_inv_def)
  from lock show ?thesis
  proof (cases rule: lock_cases)
    case locked
    have g: "run' = set_result result run" "g = (sy_gate c)\<lparr>gt_clock := clk, gt_stamp := Suc (gt_stamp (sy_gate c)), gt_active := None\<rparr>"
      using fin lock locked by (simp_all add: gate_finish_def)
    have "finishing_ok (sy_sched c) (sy_runs c) (sy_driver c)"
      using inv locked(3) by (simp add: sys_inv_def live_inv_def)
    then have ok: "same_clock clk (sy_sched c)" "result_tick result = run_tick run"
      "sch_fault (sy_sched c) = None \<and> cs_phase clk = Phase_Ready \<or> (\<exists>f. cs_phase clk = Phase_Faulted f)"
      using get by (auto simp: finishing_ok_def drv split: if_splits)
    have drr: "driver_runs (sy_driver c) = [sq]" and si: "sched_inv (sy_sched c)"
      using base by (simp_all add: drv base_inv_def)
    show ?thesis
      using inv_retired [OF inv locked(3) drr get d si refl ok g(2)] by (simp add: g(1))
  next
    case gone
    then have g: "run' = run" "g = g0"
      using fin lock by (simp_all add: gate_finish_def)
    have "driver_requests d = []"
      using d by (cases d) simp_all
    then have "base_inv (c\<lparr>sy_gate := g, sy_runs := bt_insert sq run' (sy_runs c), sy_driver := d\<rparr>)"
      using base get gone(3) drv by (auto simp: base_inv_def bt_get_insert waiting_def g gate_kept_def gate_core_def)
    then show ?thesis
      using gone(2) by (intro inv_lost) (simp_all add: g)
  qed
qed

text \<open>The gate was asked with exactly the clock the scheduler has afterwards.\<close>

lemma commit_asked:
  assumes "advance_controlled invoke control req s x = (Returned (Inr rc), s', x')"
  shows "control rc (sched_clock s') = None"
  using assms
  by (auto simp: advance_controlled_def commit_tick_def Let_def sched_clock_def
      split: option.splits sum.splits abort.splits prod.splits run_stop.splits)

lemma decision_None:
  assumes "commit_decision now run g rc clk = None"
  shows "\<not> gt_lost g" "\<not> gt_stopped g" "\<not> run_cancelled run" "\<not> expired now (run_deadline run)"
    "commit_section now run rc clk g = (Inr (), set_result (Inr rc) run,
       g\<lparr>gt_clock := clk, gt_stamp := Suc (gt_stamp g), gt_active := None\<rparr>)"
  using assms
  by (auto simp: commit_decision_def interruption_def commit_section_def gate_lock_def reason_def split: if_splits)

lemma inv_committed:
  assumes inv: "sys_inv c" and exec: "wf_executor invoke" and drv: "sy_driver c = Driver_Advancing sq request"
    and get: "bt_get (sy_runs c) sq = Some run"
    and adv: "advance_controlled invoke (commit_decision now run (sy_gate c)) request (sy_sched c) x = (Returned (Inr rc), s', x')"
    and sec: "commit_section now run rc (sched_clock s') (sy_gate c) = (answer, run', g)"
  shows "sys_inv (c\<lparr>sy_gate := g, sy_sched := s', sy_runs := bt_insert sq run' (sy_runs c), sy_driver := Driver_Idle\<rparr>)"
proof -
  note none = decision_None [OF commit_asked [OF adv]]
  have si: "sched_inv (sy_sched c)" and dur: "duration_wf (req_dt request)"
    using inv drv by (auto simp: sys_inv_def base_inv_def waiting_def)
  have drr: "driver_runs (sy_driver c) = [sq]"
    by (simp add: drv)
  have com: "committed request (sy_sched c) rc s'"
    using si exec adv by (cases rule: advance_outcome) auto
  then have s': "sch_epoch s' = sch_epoch (sy_sched c)" "sch_fault s' = None" "tick_id (rc_tick rc) = sched_tick (sy_sched c)"
    using validate_tick(1) by (auto simp: committed_def sched_tick_def)
  show ?thesis
    using inv_retired [OF inv none(1) drr get, of Driver_Idle s' "sched_clock s'" "Inr rc" g]
      committed_inv [OF si com dur] s' driving(5) [OF inv none(1) drr get] sec none(5)
    by (simp add: same_clock_def sched_clock_def)
qed

lemma sys_step_inv:
  assumes "sys_step imax invoke c c'" and inv: "sys_inv c" and exec: "wf_executor invoke"
  shows "sys_inv c'"
  using assms(1)
proof (cases rule: sys_step.cases)
  case (cancelled sq run status run' g)
  then show ?thesis
    using inv_cancelled [OF inv] by simp
next
  case (sampled request now timeout sm g next_sequence)
  then show ?thesis
    using inv_sampled [OF inv] by simp
next
  case (sample_lost e g)
  then show ?thesis
    using inv_gate_kept [OF inv gate_kept_sample] by simp
next
  case (accepted ss request timeout sm next_sequence ss' now run g)
  then show ?thesis
    using inv_accepted [OF inv] by simp
next
  case (turned_away ss request timeout sm next_sequence ss' now a g)
  have "gate_kept (sy_gate c) g"
    by (rule gate_kept_turned [OF turned_away(3,4)])
  moreover have "set (ss @ ss') \<subseteq> set (sy_starts c)"
    by (auto simp: turned_away(2))
  ultimately show ?thesis
    using inv_starts_subset [OF inv_gate_kept [OF inv], of g "ss @ ss'"] turned_away(1) by simp
next
  case (sent ss m ss')
  then show ?thesis
    using inv_sent [OF inv] by simp
next
  case (send_failed ss m ss')
  then show ?thesis
    using inv by (intro inv_lost) (auto simp: sys_inv_def base_inv_def waiting_def disappear_def)
next
  case (received sq request q)
  then show ?thesis
    using inv_received [OF inv] by simp
next
  case (closing g)
  then show ?thesis
    using inv_driver [OF inv_gate_kept [OF inv lock_kept [OF closing(3)]], of _ False] by simp
next
  case (closing_lost kind g)
  then show ?thesis
    using inv_driver [OF inv_gate_kept [OF inv lock_kept [OF closing_lost(3)]], of _ False] by simp
next
  case (committed sq request run now x receipt s' x' answer run' g)
  then show ?thesis
    using inv_committed [OF inv exec] by simp
next
  case (failed sq request run now x e s' x' failure executor_failure d s'')
  have "sys_inv (c\<lparr>sy_sched := s'', sy_driver := d\<rparr>)"
    using inv_failed [OF inv exec] failed(2-) by blast
  then show ?thesis
    using inv_gate_kept_after failed(1) by simp
next
  case (disagreed sq request run now x e s' x')
  have si: "sched_inv (sy_sched c)" and dur: "duration_wf (req_dt request)"
    using inv disagreed(2) by (auto simp: sys_inv_def base_inv_def waiting_def)
  then have "sched_inv s'" "sched_same (sy_sched c) s'"
    using advance_inv [OF si exec dur disagreed(4)] advance_same [OF si exec disagreed(4)] by simp_all
  then show ?thesis
    using inv disagreed(1) by (intro inv_lost) (auto simp: sys_inv_def base_inv_def waiting_def disappear_def run_key_def sched_same_def)
next
  case (interrupted_early sq request run now kind g d s'')
  have kept: "gate_kept (sy_gate c) g"
    using interrupted_early(4) gate_kept_ops(6) [of "sy_gate c" now run] by simp
  have "sys_inv (c\<lparr>sy_sched := s'', sy_driver := d\<rparr>)"
    using inv_interrupted [OF inv interrupted_early(2,3) _ _ _ interrupted_early(5)] advancing(1) [OF inv _ interrupted_early(2)] inv
    by (simp add: sys_inv_def base_inv_def sched_same_def)
  then show ?thesis
    using inv_gate_kept_after [OF _ kept] interrupted_early(1) by simp
next
  case (interrupted_late sq request run now kind g control x s' x' d s'')
  have kept: "gate_kept (sy_gate c) g"
    using interrupted_late(4) gate_kept_ops(6) [of "sy_gate c" now run] by simp
  have si: "sched_inv (sy_sched c)" and dur: "duration_wf (req_dt request)"
    using inv interrupted_late(2) by (auto simp: sys_inv_def base_inv_def waiting_def)
  have s': "sched_inv s'" "sched_same (sy_sched c) s'"
    using advance_inv [OF si exec dur interrupted_late(5)] advance_same [OF si exec interrupted_late(5)] by simp_all
  have "sf_tick f = run_tick run" if live: "\<not> gt_lost (sy_gate c)" and f: "sch_fault s' = Some f" for f
    using advance_uncommitted [OF si exec advancing(1) [OF inv live interrupted_late(2)] interrupted_late(5)] f
      driving(5) [OF inv live _ interrupted_late(3)] interrupted_late(2) by auto
  then have "sys_inv (c\<lparr>sy_sched := s'', sy_driver := d\<rparr>)"
    using inv_interrupted [OF inv interrupted_late(2,3) s' _ interrupted_late(6)] by blast
  then show ?thesis
    using inv_gate_kept_after [OF _ kept] interrupted_late(1) by simp
next
  case (finished sq result clk fatal run run' g)
  then show ?thesis
    using inv_finished [OF inv finished(2-4)] by simp
next
  case ended
  then show ?thesis
    using inv_driver [OF inv_gate_kept [OF inv gate_kept_ops(1)], of Driver_Ended False] by simp
next
  case driver_dropped
  then show ?thesis
    using inv by (intro inv_lost) (auto simp: sys_inv_def base_inv_def waiting_def disappear_def)
qed (simp_all add: inv_gate_kept [OF inv])


section \<open>What a step does to a run\<close>

text \<open>A success is recorded only by a commit, at a moment when the host has not stopped and the run is not
  cancelled, together with the scheduler's own move. The commit reads the clock once; time itself is not part of the
  state, so of the deadline the predicate says only that a reading before it exists.\<close>

definition committed_now :: "u64 \<Rightarrow> Run \<Rightarrow> StepReceipt \<Rightarrow> Sys \<Rightarrow> Sys \<Rightarrow> bool" where
  "committed_now sq run rc c c' \<longleftrightarrow> \<not> gt_lost (sy_gate c) \<and> \<not> gt_stopped (sy_gate c) \<and> \<not> run_cancelled run
     \<and> (\<exists>now. \<not> expired now (run_deadline run))
     \<and> (\<exists>request. sy_driver c = Driver_Advancing sq request \<and> committed request (sy_sched c) rc (sy_sched c'))
     \<and> gt_clock (sy_gate c') = sched_clock (sy_sched c') \<and> gt_active (sy_gate c') = None"

definition run_step :: "u64 \<Rightarrow> Sys \<Rightarrow> Sys \<Rightarrow> Run \<Rightarrow> Run \<Rightarrow> bool" where
  "run_step sq c c' run run' \<longleftrightarrow> run_tick run' = run_tick run \<and> run_deadline run' = run_deadline run
     \<and> (run_cancelled run \<longrightarrow> run_cancelled run')
     \<and> (\<forall>r. run_result run = Some r \<longrightarrow> run_result run' = Some r)
     \<and> (\<forall>rc. run_result run = None \<longrightarrow> run_result run' = Some (Inr rc) \<longrightarrow> committed_now sq run rc c c')"

lemma run_step_refl: "run_step sq c c' run run"
  by (simp add: run_step_def)

lemma run_step_set:
  assumes "run_result run = None \<Longrightarrow> \<forall>rc. r = Inr rc \<longrightarrow> committed_now sq run rc c c'"
  shows "run_step sq c c' run (set_result r run)"
  using assms by (auto simp: run_step_def set_result_def split: option.splits)

lemma run_step_cancel:
  assumes "gate_cancel run g = (st, run', g')"
  shows "run_step sq c c' run run'"
  using assms by (auto simp: gate_cancel_def run_step_def split: prod.splits sum.splits if_splits)

lemma run_step_finish:
  assumes inv: "sys_inv c" and drv: "sy_driver c = Driver_Finishing sq result clk fatal"
    and get: "bt_get (sy_runs c) sq = Some run" and fin: "gate_finish run result clk (sy_gate c) = (run', g)"
  shows "run_step sq c c' run run'"
proof -
  obtain l g0 where lock: "gate_lock (sy_gate c) = (l, g0)"
    by (cases "gate_lock (sy_gate c)")
  from lock show ?thesis
  proof (cases rule: lock_cases)
    case locked
    then have "run' = set_result result run" "finishing_ok (sy_sched c) (sy_runs c) (sy_driver c)"
      using fin lock inv by (simp_all add: gate_finish_def sys_inv_def live_inv_def)
    then show ?thesis
      using run_step_set [of run result] by (auto simp: finishing_ok_def drv)
  next
    case gone
    then show ?thesis
      using fin lock run_step_refl by (simp add: gate_finish_def)
  qed
qed

lemma run_step_commit:
  assumes inv: "sys_inv c" and exec: "wf_executor invoke" and drv: "sy_driver c = Driver_Advancing sq request"
    and adv: "advance_controlled invoke (commit_decision now run (sy_gate c)) request (sy_sched c) x = (Returned (Inr rc), s', x')"
    and sec: "commit_section now run rc (sched_clock s') (sy_gate c) = (answer, run', g)"
  shows "run_step sq c (c\<lparr>sy_gate := g, sy_sched := s', sy_runs := runs, sy_driver := d\<rparr>) run run'"
proof -
  note none = decision_None [OF commit_asked [OF adv]]
  have si: "sched_inv (sy_sched c)"
    using inv by (simp add: sys_inv_def base_inv_def)
  have "committed request (sy_sched c) rc s'"
    using si exec adv by (cases rule: advance_outcome) auto
  moreover have "run' = set_result (Inr rc) run" "gt_clock g = sched_clock s'" "gt_active g = None"
    using sec none(5) by auto
  ultimately show ?thesis
    using none(1-4) drv by (auto intro!: run_step_set simp: committed_now_def)
qed

lemma run_evolves:
  assumes "sys_step imax invoke c c'" and inv: "sys_inv c" and exec: "wf_executor invoke"
    and get: "bt_get (sy_runs c) q = Some u"
  shows "\<exists>u'. bt_get (sy_runs c') q = Some u' \<and> run_step q c c' u u'"
proof -
  have wf: "bt_wf (sy_runs c)" and old: "q < gt_sequence (sy_gate c)"
    using inv get by (auto simp: sys_inv_def base_inv_def)
  have insert: "\<exists>u'. bt_get (bt_insert sq run' (sy_runs c)) q = Some u' \<and> run_step q c d u u'"
    if "bt_get (sy_runs c) sq = Some run" and "run_step sq c d run run'" for sq run run' d
    using that wf get run_step_refl by (cases "q = sq") (auto simp: bt_get_insert)
  note same = run_step_refl get
  show ?thesis
    using assms(1)
  proof (cases rule: sys_step.cases)
    case (cancelled sq run status run' g)
    then show ?thesis
      using insert [OF cancelled(2) run_step_cancel [OF cancelled(3)]] by simp
  next
    case (accepted ss request timeout sm next_sequence ss' now run g)
    have "rid_sequence (run_id run) \<noteq> q"
      using accept_Accepted(6) [OF accepted(3)] old by auto
    then show ?thesis
      using same accepted(1) wf by (simp add: bt_get_insert)
  next
    case (committed sq request run now x receipt s' x' answer run' g)
    then show ?thesis
      using insert [OF committed(3) run_step_commit [OF inv exec committed(2,4,5)]] by simp
  next
    case (finished sq result clk fatal run run' g)
    then show ?thesis
      using insert [OF finished(3) run_step_finish [OF inv finished(2-4)]] by simp
  qed (use same in simp_all)
qed

text \<open>After a stop no run is admitted, and the stop stays.\<close>

lemma stopped_step:
  assumes "sys_step imax invoke c c'" and "gt_stopped (sy_gate c)" and "bt_wf (sy_runs c)"
  shows "gt_stopped (sy_gate c') \<and> (bt_get (sy_runs c') q \<noteq> None \<longrightarrow> bt_get (sy_runs c) q \<noteq> None)"
proof -
  have kept: "gate_kept (sy_gate c) g \<Longrightarrow> gt_stopped g" for g
    using assms(2) by (simp add: gate_kept_def)
  have insert: "bt_get (bt_insert sq run' (sy_runs c)) q \<noteq> None \<longrightarrow> bt_get (sy_runs c) q \<noteq> None"
    if "bt_get (sy_runs c) sq = Some run" for sq run run'
    using that assms(3) by (simp add: bt_get_insert)
  show ?thesis
    using assms(1)
  proof (cases rule: sys_step.cases)
    case (cancelled sq run status run' g)
    then show ?thesis
      using insert [OF cancelled(2)] kept [OF gate_kept_cancel [OF cancelled(3)]] by simp
  next
    case (accepted ss request timeout sm next_sequence ss' now run g)
    then show ?thesis
      using accept_Accepted(2) [OF accepted(3)] assms(2) by simp
  next
    case (turned_away ss request timeout sm next_sequence ss' now a g)
    have "gate_kept (sy_gate c) g"
      by (rule gate_kept_turned [OF turned_away(3,4)])
    then show ?thesis
      using kept turned_away(1) by simp
  next
    case (committed sq request run now x receipt s' x' answer run' g)
    have "gt_stopped g"
      using committed(5) assms(2) lock_kept [of "sy_gate c"]
      by (auto simp: commit_section_def gate_lock_def disappear_def split: if_splits option.splits)
    then show ?thesis
      using insert [OF committed(3)] committed(1) by simp
  next
    case (finished sq result clk fatal run run' g)
    have "gt_stopped g"
      using finished(4) assms(2) by (auto simp: gate_finish_def gate_lock_def disappear_def split: if_splits)
    then show ?thesis
      using insert [OF finished(3)] finished(1) by simp
  next
    case (interrupted_early sq request run now kind g d s'')
    then show ?thesis
      using kept [OF gate_kept_ops(6) [of "sy_gate c" now run]] by simp
  next
    case (interrupted_late sq request run now kind g control x s' x' d s'')
    then show ?thesis
      using kept [OF gate_kept_ops(6) [of "sy_gate c" now run]] by simp
  qed (use kept gate_kept_sample lock_kept in auto)
qed

end
