(* ===== verification/Session_Correct.thy ===== *)
theory Session_Correct
  imports Step_Session Step_Correct
begin

text \<open>
  The properties of managed step sessions, over every interleaving of handles, cancellations, host
  signals and the driver: the gate, the queue and the scheduler agree; a cancellation or a stop that
  the gate has acknowledged cannot be overtaken by a success; a success is one atomic move of run,
  gate and scheduler, and a recorded result stays.
\<close>

definition sys_reach :: "nat \<Rightarrow> 'x executor \<Rightarrow> Sys \<Rightarrow> bool" where
  "sys_reach imax invoke c \<longleftrightarrow> (\<exists>graph t n s n'. StepScheduler_new graph t n = (Inr s, n') \<and> graph_wf graph
     \<and> duration_wf t \<and> (sys_step imax invoke)\<^sup>*\<^sup>* (sys_new s) c)"

lemma sys_new_inv: "sched_inv s \<Longrightarrow> sch_fault s = None \<Longrightarrow> sys_inv (sys_new s)"
  by (simp add: sys_inv_def base_inv_def live_inv_def sys_new_def gate_new_def waiting_def waiting_ok_def whereabouts_def
      active_list_def results_ok_def active_ok_def same_clock_def sched_clock_def finishing_ok_def starts_ok_def)

lemma steps_inv:
  assumes "(sys_step imax invoke)\<^sup>*\<^sup>* c c'" and "sys_inv c" and "wf_executor invoke"
  shows "sys_inv c'"
  using assms by (induction rule: rtranclp_induct) (auto dest: sys_step_inv)

lemma sys_reach_inv:
  assumes "sys_reach imax invoke c" and "wf_executor invoke"
  shows "sys_inv c"
proof -
  obtain graph t n s n' where new: "StepScheduler_new graph t n = (Inr s, n')" "graph_wf graph" "duration_wf t"
    and steps: "(sys_step imax invoke)\<^sup>*\<^sup>* (sys_new s) c"
    using assms(1) by (auto simp: sys_reach_def)
  have "sch_fault s = None"
    using new(1) by (auto simp: StepScheduler_new_def split: sum.splits option.splits)
  then show ?thesis
    using steps_inv [OF steps sys_new_inv [OF new_inv [OF new]] assms(2)] by simp
qed

lemma steps_stopped:
  assumes "(sys_step imax invoke)\<^sup>*\<^sup>* c c'" and "sys_inv c" and "wf_executor invoke"
  shows "gt_stopped (sy_gate c) \<longrightarrow> gt_stopped (sy_gate c') \<and> (\<forall>sq. bt_get (sy_runs c') sq \<noteq> None \<longrightarrow> bt_get (sy_runs c) sq \<noteq> None)"
  using assms(1)
proof (induction rule: rtranclp_induct)
  case (step d e)
  have "bt_wf (sy_runs d)"
    using steps_inv [OF step.hyps(1) assms(2,3)] by (simp add: sys_inv_def base_inv_def)
  then show ?case
    using step.IH stopped_step [OF step.hyps(2)] by blast
qed simp

definition run_later :: "bool \<Rightarrow> Run \<Rightarrow> Run \<Rightarrow> bool" where
  "run_later barred run run' \<longleftrightarrow> (run_cancelled run \<longrightarrow> run_cancelled run')
    \<and> (\<forall>r. run_result run = Some r \<longrightarrow> run_result run' = Some r)
    \<and> (barred \<longrightarrow> (\<forall>rc. run_result run' = Some (Inr rc) \<longrightarrow> run_result run = Some (Inr rc)))"

lemma run_later_step:
  assumes "run_later barred run u" and "run_step sq d e u v" and "barred \<Longrightarrow> run_cancelled u \<or> gt_stopped (sy_gate d)"
  shows "run_later barred run v"
proof -
  have "run_result u = Some (Inr rc)" if "barred" "run_result v = Some (Inr rc)" for rc
    using assms(2,3) that by (cases "run_result u") (auto simp: run_step_def committed_now_def)
  then show ?thesis
    using assms(1,2) unfolding run_later_def run_step_def by blast
qed

lemma run_steps:
  assumes "(sys_step imax invoke)\<^sup>*\<^sup>* c c'" and "sys_inv c" and "wf_executor invoke" and "bt_get (sy_runs c) sq = Some run"
  shows "\<exists>run'. bt_get (sy_runs c') sq = Some run' \<and> run_later (run_cancelled run \<or> gt_stopped (sy_gate c)) run run'"
  using assms(1)
proof (induction rule: rtranclp_induct)
  case base
  then show ?case
    using assms(4) by (simp add: run_later_def)
next
  case (step d e)
  have inv: "sys_inv d"
    using steps_inv [OF step.hyps(1) assms(2,3)] .
  obtain u where u: "bt_get (sy_runs d) sq = Some u" "run_later (run_cancelled run \<or> gt_stopped (sy_gate c)) run u"
    using step.IH by blast
  have stop: "run_cancelled run \<or> gt_stopped (sy_gate c) \<Longrightarrow> run_cancelled u \<or> gt_stopped (sy_gate d)"
    using steps_stopped [OF step.hyps(1) assms(2,3)] u(2) by (auto simp: run_later_def)
  obtain v where "bt_get (sy_runs e) sq = Some v" "run_step sq d e u v"
    using run_evolves [OF step.hyps(2) inv assms(3) u(1)] by blast
  then show ?case
    using run_later_step [OF u(2) _ stop] by blast
qed

section \<open>An example\<close>

text \<open>One accepted run of the example graph, taken up by the driver.\<close>

definition ex_ready :: Gate where
  "ex_ready = mark_ready (gate_new (sched_clock ex_sched))"

definition ex_sample :: Sample where
  "ex_sample = \<lparr>sm_clock = gt_clock ex_ready, sm_stamp = 0, sm_ready = True, sm_stopped = False, sm_active = None, sm_sequence = 0\<rparr>"

definition ex_run :: Run where
  "ex_run = \<lparr>run_id = \<lparr>rid_epoch = 0, rid_sequence = 0\<rparr>, run_tick = \<lparr>id_epoch = 0, id_index = 0\<rparr>, run_deadline = None,
     run_cancelled = False, run_result = None\<rparr>"

definition ex_busy :: Gate where
  "ex_busy = snd (start_accept 0 0 None ex_sample 1 ex_ready)"

definition ex_driving :: Sys where
  "ex_driving = \<lparr>sy_gate = ex_busy, sy_sched = ex_sched, sy_runs = [(0, ex_run)], sy_starts = [], sy_sends = [],
     sy_queue = [], sy_open = True, sy_driver = Driver_Advancing 0 (ex_request [5])\<rparr>"

lemma ex_sampled: "start_sample ex_ready = (Inr ex_sample, ex_ready)"
  by code_simp

lemma ex_checked: "start_check (ex_request [5]) (sch_plan ex_sched) ex_sample = Inr 1"
  by code_simp

lemma ex_accepted: "start_accept 0 0 None ex_sample 1 ex_ready = (Accepted ex_run, ex_busy)"
  by code_simp

lemma ex_driving_reach: "sys_reach 0 ex_executor ex_driving"
proof -
  let ?step = "sys_step 0 ex_executor"
  let ?c1 = "(sys_new ex_sched)\<lparr>sy_gate := ex_ready\<rparr>"
  let ?c2 = "?c1\<lparr>sy_starts := [(ex_request [5], None, ex_sample, 1)]\<rparr>"
  let ?c3 = "?c1\<lparr>sy_gate := ex_busy, sy_runs := [(0, ex_run)], sy_sends := [(0, ex_request [5])]\<rparr>"
  let ?c4 = "?c3\<lparr>sy_sends := [], sy_queue := [(0, ex_request [5])]\<rparr>"
  have "?step (sys_new ex_sched) ?c1"
    using sys_step.activated [of 0 ex_executor "sys_new ex_sched"] by (simp add: sys_new_def ex_ready_def)
  moreover have "?step ?c1 ?c2"
    using sys_step.sampled [OF ex_request_wf, where imax = 0 and invoke = ex_executor and c = ?c1 and timeout = None and sm = ex_sample and g = ex_ready]
      ex_sampled ex_checked by (simp add: checked_after_def sys_new_def)
  moreover have "?step ?c2 ?c3"
    using sys_step.accepted [where imax = 0 and invoke = ex_executor and c = ?c2 and ss = "[]" and ss' = "[]" and run = ex_run and g = ex_busy]
      ex_accepted by (simp add: sys_new_def ex_run_def)
  moreover have "?step ?c3 ?c4"
    using sys_step.sent [where imax = 0 and invoke = ex_executor and c = ?c3 and ss = "[]" and ss' = "[]"] by (simp add: sys_new_def)
  moreover have "?step ?c4 ex_driving"
    using sys_step.received [where imax = 0 and invoke = ex_executor and c = ?c4] by (simp add: sys_new_def ex_driving_def)
  ultimately have "?step\<^sup>*\<^sup>* (sys_new ex_sched) ex_driving"
    by (meson converse_rtranclp_into_rtranclp rtranclp.rtrancl_refl)
  then show ?thesis
    using ex_new ex_graph_wf unfolding sys_reach_def
    by (intro exI conjI) (assumption | simp add: duration_wf_def Duration_ZERO_def NANOS_PER_SEC_def)+
qed


section \<open>Properties\<close>

text \<open>C28. In every state a session can reach, as long as its supervisor has not disappeared: exactly
  the active run, of which there is at most one, has no result yet, and it is in exactly one place
  (about to be sent, queued, or with the driver); every recorded result is for the run's own tick; the
  gate's clock agrees with the scheduler's; and a request accepted by the gate is never refused by the
  scheduler's own validation, nor does advancing it unwind.\<close>

theorem session_reach_inv:
  assumes "wf_executor invoke" and "sys_reach imax invoke c" and "\<not> gt_lost (sy_gate c)"
  shows "whereabouts c = active_list (sy_gate c)
    \<and> (\<forall>sq run. bt_get (sy_runs c) sq = Some run \<longrightarrow> (run_result run = None \<longleftrightarrow> gt_active (sy_gate c) = Some (run_id run))
         \<and> (\<forall>r. run_result run = Some r \<longrightarrow> result_tick r = run_tick run))
    \<and> same_clock (gt_clock (sy_gate c)) (sy_sched c)
    \<and> (\<forall>sq request control x res s' x'. (sq, request) \<in> set (waiting c)
         \<longrightarrow> advance_controlled invoke control request (sy_sched c) x = (res, s', x')
         \<longrightarrow> res \<noteq> Unwound \<and> (\<forall>e. res \<noteq> Returned (Inl (Sched_Request e))))"
proof -
  have inv: "sys_inv c"
    by (rule sys_reach_inv [OF assms(2,1)])
  then have base: "base_inv c" and live: "live_inv c"
    using assms(3) by (simp_all add: sys_inv_def)
  have res: "results_ok (sy_gate c) (sy_runs c)" and wait: "waiting_ok (sy_sched c) (waiting c)"
    using live by (simp_all add: live_inv_def)
  have "(run_result run = None \<longleftrightarrow> gt_active (sy_gate c) = Some (run_id run))
      \<and> (\<forall>r. run_result run = Some r \<longrightarrow> result_tick r = run_tick run)" if "bt_get (sy_runs c) sq = Some run" for sq run
    using results_okD [OF res that] by fastforce
  moreover have "res \<noteq> Unwound \<and> (\<forall>e. res \<noteq> Returned (Inl (Sched_Request e)))"
    if w: "(sq, request) \<in> set (waiting c)"
      and adv: "advance_controlled invoke control request (sy_sched c) x = (res, s', x')" for sq request control x res s' x'
  proof -
    have si: "sched_inv (sy_sched c)" and dur: "duration_wf (req_dt request)"
      using base w by (auto simp: base_inv_def)
    have ok: "sch_fault (sy_sched c) = None" "valid_for request (sy_sched c)"
      using wait w by (auto simp: waiting_ok_def)
    have "\<forall>e. res \<noteq> Returned (Inl (Sched_Request e))"
      using si assms(1) adv by (cases rule: advance_outcome) (use ok in \<open>auto simp: valid_for_def\<close>)
    then show ?thesis
      using advance_inv [OF si assms(1) dur adv] by simp
  qed
  ultimately show ?thesis
    using live unfolding live_inv_def by blast
qed

lemma ex_driving_live: "\<not> gt_lost (sy_gate ex_driving)" "bt_get (sy_runs ex_driving) 0 = Some ex_run"
  by code_simp+

theorem session_reach_inv_witness:
  "whereabouts ex_driving = [0] \<and> gt_active (sy_gate ex_driving) = Some (run_id ex_run)"
proof -
  have "whereabouts ex_driving = [0]" "run_result ex_run = None"
    by code_simp+
  then show ?thesis
    using session_reach_inv [OF ex_wf_executor ex_driving_reach ex_driving_live(1)] ex_driving_live(2) by simp
qed

text \<open>C29. Cancellation wins or loses at the gate: once a cancellation of a run has been answered as
  requested, no later state of the session holds a success of that run, whatever happens in between.\<close>

theorem cancel_wins:
  assumes "wf_executor invoke" and "sys_reach imax invoke c" and "bt_get (sy_runs c) sq = Some run"
    and "gate_cancel run (sy_gate c) = (CancelStatus_Requested, run1, g)"
    and "(sys_step imax invoke)\<^sup>*\<^sup>* (c\<lparr>sy_gate := g, sy_runs := bt_insert sq run1 (sy_runs c)\<rparr>) c'"
    and "bt_get (sy_runs c') sq = Some run'"
  shows "run_cancelled run' \<and> run_result run' \<noteq> Some (Inr receipt)"
proof -
  let ?c = "c\<lparr>sy_gate := g, sy_runs := bt_insert sq run1 (sy_runs c)\<rparr>"
  have inv: "sys_inv c"
    by (rule sys_reach_inv [OF assms(2,1)])
  have run1: "run_cancelled run1" "run_result run1 = None"
    using assms(4) by (auto simp: gate_cancel_def split: prod.splits sum.splits if_splits)
  have "bt_get (sy_runs ?c) sq = Some run1"
    using inv by (simp add: sys_inv_def base_inv_def bt_get_insert)
  from run_steps [OF assms(5) inv_cancelled [OF inv assms(3,4)] assms(1) this] show ?thesis
    using assms(6) run1 by (simp add: run_later_def)
qed

theorem cancel_wins_witness:
  "\<exists>run1 g. gate_cancel ex_run (sy_gate ex_driving) = (CancelStatus_Requested, run1, g)
     \<and> run_cancelled run1 \<and> run_result run1 \<noteq> Some (Inr ex_receipt1)"
proof -
  obtain st run1 g where c: "gate_cancel ex_run (sy_gate ex_driving) = (st, run1, g)"
    by (cases "gate_cancel ex_run (sy_gate ex_driving)")
  moreover have "fst (gate_cancel ex_run (sy_gate ex_driving)) = CancelStatus_Requested"
    by code_simp
  ultimately have r: "gate_cancel ex_run (sy_gate ex_driving) = (CancelStatus_Requested, run1, g)"
    by simp
  show ?thesis
    using cancel_wins [OF ex_wf_executor ex_driving_reach ex_driving_live(2) r rtranclp.rtrancl_refl, of run1] r
    by (simp add: ex_driving_def bt_get_def)
qed

text \<open>A host stop is a barrier: from a state in which the gate is marked as stopped, no sequence of
  steps admits a run, and no success is recorded that was not there before.\<close>

theorem stop_wins:
  assumes "wf_executor invoke" and "sys_reach imax invoke c" and "gt_stopped (sy_gate c)"
    and "(sys_step imax invoke)\<^sup>*\<^sup>* c c'" and "bt_get (sy_runs c') sq = Some run'"
  shows "\<exists>run. bt_get (sy_runs c) sq = Some run \<and> (run_result run' = Some (Inr receipt) \<longrightarrow> run_result run = Some (Inr receipt))"
proof -
  have inv: "sys_inv c"
    by (rule sys_reach_inv [OF assms(2,1)])
  obtain run where run: "bt_get (sy_runs c) sq = Some run"
    using steps_stopped [OF assms(4) inv assms(1)] assms(3,5) by (cases "bt_get (sy_runs c) sq") auto
  have "run_later (run_cancelled run \<or> gt_stopped (sy_gate c)) run run'"
    using run_steps [OF assms(4) inv assms(1) run] assms(5) by auto
  then have "run_result run' = Some (Inr receipt) \<longrightarrow> run_result run = Some (Inr receipt)"
    using assms(3) unfolding run_later_def by blast
  then show ?thesis
    using run by blast
qed

definition ex_stopped :: Sys where
  "ex_stopped = ex_driving\<lparr>sy_gate := mark_stop (sy_gate ex_driving)\<rparr>"

lemma ex_stopped_reach: "sys_reach 0 ex_executor ex_stopped"
  using ex_driving_reach sys_step.stopped [of 0 ex_executor ex_driving]
  unfolding sys_reach_def ex_stopped_def by (meson rtranclp.rtrancl_into_rtrancl)

theorem stop_wins_witness: "\<exists>run. bt_get (sy_runs ex_stopped) 0 = Some run \<and> run_result run \<noteq> Some (Inr ex_receipt1)"
proof -
  have "gt_stopped (sy_gate ex_stopped)" "bt_get (sy_runs ex_stopped) 0 = Some ex_run" "run_result ex_run = None"
    by code_simp+
  then show ?thesis
    using stop_wins [OF ex_wf_executor ex_stopped_reach _ rtranclp.rtrancl_refl, of 0 ex_run ex_receipt1] by auto
qed

text \<open>C31. A success is one atomic move: the step that records it finds the host not stopped and the run
  not cancelled, commits the receipt in the scheduler, puts the scheduler's
  clock into the gate and frees the slot; and from then on no step changes the recorded result.\<close>

theorem commit_linearizes:
  assumes "wf_executor invoke" and "sys_reach imax invoke c" and "sys_step imax invoke c c'"
    and "bt_get (sy_runs c) sq = Some run" and "run_result run = None"
    and "bt_get (sy_runs c') sq = Some run'" and "run_result run' = Some (Inr receipt)"
    and "(sys_step imax invoke)\<^sup>*\<^sup>* c' c''"
  shows "committed_now sq run receipt c c' \<and> gt_active (sy_gate c') = None \<and> tick_id (rc_tick receipt) = run_tick run
    \<and> (\<exists>run''. bt_get (sy_runs c'') sq = Some run'' \<and> run_result run'' = Some (Inr receipt))"
proof -
  have inv: "sys_inv c"
    by (rule sys_reach_inv [OF assms(2,1)])
  have inv': "sys_inv c'"
    by (rule sys_step_inv [OF assms(3) inv assms(1)])
  have rs: "run_step sq c c' run run'"
    using run_evolves [OF assms(3) inv assms(1,4)] assms(6) by auto
  then have com: "committed_now sq run receipt c c'"
    using assms(5,7) by (simp add: run_step_def)
  then obtain request where drv: "\<not> gt_lost (sy_gate c)" "sy_driver c = Driver_Advancing sq request"
    "committed request (sy_sched c) receipt (sy_sched c')" "gt_active (sy_gate c') = None"
    by (auto simp: committed_now_def)
  have "run_tick run = sched_tick (sy_sched c)"
    using driving(5) [OF inv drv(1) _ assms(4)] drv(2) by simp
  then have "tick_id (rc_tick receipt) = run_tick run"
    using drv(3) validate_tick(1) by (auto simp: committed_def sched_tick_def)
  then show ?thesis
    using com drv(4) run_steps [OF assms(8) inv' assms(1,6)] assms(7) by (auto simp: run_later_def)
qed

definition ex_committed :: Sys where
  "ex_committed = ex_driving\<lparr>sy_gate := snd (snd (commit_section 0 ex_run ex_receipt1 (sched_clock ex_sched1) ex_busy)),
     sy_sched := ex_sched1, sy_runs := [(0, ex_run\<lparr>run_result := Some (Inr ex_receipt1)\<rparr>)], sy_driver := Driver_Idle\<rparr>"

lemma ex_commits: "sys_step 0 ex_executor ex_driving ex_committed"
proof -
  have "commit_decision 0 ex_run ex_busy = DirectCommit"
    by (simp add: fun_eq_iff commit_decision_def DirectCommit_def) code_simp
  moreover have "fst (snd (commit_section 0 ex_run ex_receipt1 (sched_clock ex_sched1) ex_busy)) = ex_run\<lparr>run_result := Some (Inr ex_receipt1)\<rparr>"
    by code_simp
  ultimately show ?thesis
    using sys_step.committed [where imax = 0 and c = ex_driving and sq = 0 and run = ex_run and now = 0 and x = 0 and invoke = ex_executor,
        OF _ ex_driving_live(2)] ex_advance
    by (cases "commit_section 0 ex_run ex_receipt1 (sched_clock ex_sched1) ex_busy")
      (simp add: ex_driving_def ex_committed_def)
qed

theorem commit_linearizes_witness:
  "committed_now 0 ex_run ex_receipt1 ex_driving ex_committed \<and> gt_active (sy_gate ex_committed) = None"
proof -
  have "bt_get (sy_runs ex_committed) 0 = Some (ex_run\<lparr>run_result := Some (Inr ex_receipt1)\<rparr>)"
    by (simp add: ex_committed_def bt_get_def)
  then show ?thesis
    using commit_linearizes [OF ex_wf_executor ex_driving_reach ex_commits ex_driving_live(2) _ _ _ rtranclp.rtrancl_refl,
        of "ex_run\<lparr>run_result := Some (Inr ex_receipt1)\<rparr>" ex_receipt1]
    by (simp add: ex_run_def)
qed

end
