(* ===== verification/Host_Channel.thy ===== *)
theory Host_Channel
  imports Prelude
begin

text \<open>
  The control channel between a deployment owner and a component host: bounded frames and envelopes
  (\<^verbatim>\<open>crates/reiny-core/src/host_protocol/{framing,identity}.rs\<close>), the strict codec
  (\<^verbatim>\<open>crates/reiny/src/component/process/codec.rs\<close>), the host's resumable reader and its writer
  (\<^verbatim>\<open>process/connection.rs\<close>) and the owner's channel (\<^verbatim>\<open>process/step_owner/channel.rs\<close>). JSON itself is
  the \<^verbatim>\<open>serde_json\<close> crate: serializing, the walk that refuses duplicate keys, and deserializing are
  arguments. A socket is the bytes that have arrived and not been read; how many a read returns is a
  choice of the environment.
\<close>

section \<open>Frames\<close>

datatype FrameError = Frame_Length u32 | Frame_Truncated | Frame_TrailingBytes

definition MAX_FRAME_BYTES :: u32 where "MAX_FRAME_BYTES = 8388608"

definition payload_length :: "bytes \<Rightarrow> FrameError + nat" where
  "payload_length header = (let len = from_be_bytes header :: u32 in
     if len = 0 \<or> len > MAX_FRAME_BYTES then Inl (Frame_Length len) else Inr (unat len))"

definition frame_header :: "bytes \<Rightarrow> FrameError + bytes" where
  "frame_header payload =
     (if int (length payload) < 2 ^ 32 then
        let header = to_be_bytes (word_of_nat (length payload) :: u32)
        in rbind (payload_length header) (\<lambda>_. Inr header)
      else Inl (Frame_Length (- 1)))"

definition frame_payload :: "bytes \<Rightarrow> FrameError + bytes" where
  "frame_payload frame =
     (if length frame < 4 then Inl Frame_Truncated
      else rbind (payload_length (take 4 frame)) (\<lambda>len.
        let body = drop 4 frame in
        if length body < len then Inl Frame_Truncated
        else if length body > len then Inl Frame_TrailingBytes else Inr body))"

section \<open>Envelopes\<close>

datatype FailureCode =
    MalformedMessage | Authentication | Compatibility_differs | Identity_differs | Sequence_broken | Transition | Factory_absent
  | Assignment_invalid | ContextOpen | Prepare_failed | Admission | Report_failed | Commit_failed | Run_failed | UnexpectedExit
  | Panic_unwound | ReadinessLost | StopHook | Timeout_expired | Cancelled_by_owner | Disconnected

datatype EnvelopeError = Envelope_Version u16 | Envelope_Identity | Envelope_Sequence

record SessionIdentity =
  si_owner_generation :: u64
  si_graph_generation :: u64
  si_host_id :: string
  si_host_generation :: u64
  si_graph_digest :: string
  si_bundle_digest :: string

record 'b Envelope =
  env_session :: SessionIdentity
  env_sequence :: u64
  env_body :: 'b

definition version_try_from :: "u16 \<Rightarrow> EnvelopeError + unit" where
  "version_try_from value = (if value = 1 then Inr () else Inl (Envelope_Version value))"

definition env_check :: "'b Envelope \<Rightarrow> SessionIdentity \<Rightarrow> u64 option \<Rightarrow> EnvelopeError + unit" where
  "env_check e expected previous =
     (if env_session e \<noteq> expected then Inl Envelope_Identity
      else let ordered = (case previous of None \<Rightarrow> env_sequence e = 0 | Some p \<Rightarrow> env_sequence e > p)
           in if \<not> ordered then Inl Envelope_Sequence else Inr ())"

section \<open>The codec\<close>

text \<open>\<open>js_unique\<close> is the walk with the visitor \<open>Unique\<close>, \<open>js_read\<close> the typed parse.\<close>

record 'b json =
  js_write :: "'b Envelope \<Rightarrow> bytes option"
  js_unique :: "bytes \<Rightarrow> bool"
  js_read :: "bytes \<Rightarrow> 'b Envelope option"

definition codec_encode :: "'b json \<Rightarrow> 'b Envelope \<Rightarrow> FailureCode + bytes" where
  "codec_encode js e = (case js_write js e of
     None \<Rightarrow> Inl MalformedMessage
   | Some out \<Rightarrow> if int (length out) > uint MAX_FRAME_BYTES then Inl MalformedMessage else Inr out)"

definition codec_decode :: "'b json \<Rightarrow> bytes \<Rightarrow> FailureCode + 'b Envelope" where
  "codec_decode js payload =
     rbind (map_err (\<lambda>_. MalformedMessage) (frame_header payload)) (\<lambda>_.
       if \<not> js_unique js payload then Inl MalformedMessage
       else ok_or (js_read js payload) MalformedMessage)"

section \<open>The writer of a host and the channel of an owner\<close>

record HostWriter =
  wr_identity :: SessionIdentity
  wr_sequence :: u64
  wr_writable :: bool

text \<open>What awaiting the two writes within the budget gives.\<close>

datatype Written = Written_Ok | Written_Timeout | Written_Error

definition written_result :: "Written \<Rightarrow> FailureCode + unit" where
  "written_result w = (case w of
     Written_Ok \<Rightarrow> Inr () | Written_Timeout \<Rightarrow> Inl Timeout_expired | Written_Error \<Rightarrow> Inl Disconnected)"

definition seal_message :: "'b json \<Rightarrow> SessionIdentity \<Rightarrow> u64 \<Rightarrow> 'b \<Rightarrow> FailureCode + bytes" where
  "seal_message js identity sequence body =
     rbind (codec_encode js \<lparr>env_session = identity, env_sequence = sequence, env_body = body\<rparr>) (\<lambda>payload.
     rbind (map_err (\<lambda>_. MalformedMessage) (frame_header payload)) (\<lambda>header. Inr (header @ payload)))"

text \<open>Sending gives the result, the writer, and the bytes handed to the socket (possibly only part of
  which were written when the write did not finish).\<close>

definition writer_send :: "'b json \<Rightarrow> Written \<Rightarrow> 'b \<Rightarrow> HostWriter \<Rightarrow> (FailureCode + unit) \<times> HostWriter \<times> bytes" where
  "writer_send js written body w =
     (if \<not> wr_writable w then (Inl Disconnected, w, [])
      else case seal_message js (wr_identity w) (wr_sequence w) body of
          Inl e \<Rightarrow> (Inl e, w, [])
        | Inr frame \<Rightarrow>
            (case written_result written of
               Inl e \<Rightarrow> (Inl e, w\<lparr>wr_writable := False\<rparr>, frame)
             | Inr _ \<Rightarrow>
                 if wr_sequence w = - 1 then (Inl Sequence_broken, w\<lparr>wr_writable := False\<rparr>, frame)
                 else (Inr (), w\<lparr>wr_sequence := wr_sequence w + 1, wr_writable := True\<rparr>, frame)))"

record Channel =
  ch_identity :: SessionIdentity
  ch_sent :: u64
  ch_received :: "u64 option"
  ch_healthy :: bool

definition channel_send :: "'b json \<Rightarrow> Written \<Rightarrow> 'b \<Rightarrow> Channel \<Rightarrow> (FailureCode + unit) \<times> Channel \<times> bytes" where
  "channel_send js written body ch =
     (if ch_sent ch = - 1 then (Inl Assignment_invalid, ch, [])
      else case seal_message js (ch_identity ch) (ch_sent ch) body of
          Inl e \<Rightarrow> (Inl e, ch, [])
        | Inr frame \<Rightarrow>
            (case written_result written of
               Inl e \<Rightarrow> (Inl e, ch\<lparr>ch_healthy := False\<rparr>, frame)
             | Inr _ \<Rightarrow> (Inr (), ch\<lparr>ch_sent := ch_sent ch + 1, ch_healthy := True\<rparr>, frame)))"

text \<open>Receiving from the bytes that arrive before the deadline. Awaiting more than arrives ends with
  \<open>ended\<close>, a timeout or a lost connection, and what was read of the frame is dropped.\<close>

definition channel_receive :: "'b json \<Rightarrow> FailureCode \<Rightarrow> bytes \<Rightarrow> Channel \<Rightarrow> (FailureCode + 'b) \<times> Channel \<times> bytes" where
  "channel_receive js ended stream ch = (let ch = ch\<lparr>ch_healthy := False\<rparr> in
     if length stream < 4 then (Inl ended, ch, [])
     else case payload_length (take 4 stream) of
         Inl _ \<Rightarrow> (Inl MalformedMessage, ch, drop 4 stream)
       | Inr len \<Rightarrow>
           let rest = drop 4 stream in
           if length rest < len then (Inl ended, ch, [])
           else
             (case codec_decode js (take len rest) of
                Inl e \<Rightarrow> (Inl e, ch, drop len rest)
              | Inr e \<Rightarrow>
                  (case env_check e (ch_identity ch) (ch_received ch) of
                     Inl _ \<Rightarrow> (Inl Identity_differs, ch, drop len rest)
                   | Inr _ \<Rightarrow> (Inr (env_body e), ch\<lparr>ch_received := Some (env_sequence e), ch_healthy := True\<rparr>, drop len rest))))"

section \<open>The reader of a host\<close>

record HostReader =
  rd_identity :: SessionIdentity
  rd_previous :: "u64 option"
  rd_header :: bytes
  rd_header_used :: nat
  rd_payload :: bytes
  rd_payload_used :: nat

definition reader_new :: "SessionIdentity \<Rightarrow> HostReader" where
  "reader_new identity = \<lparr>rd_identity = identity, rd_previous = None, rd_header = replicate 4 0, rd_header_used = 0,
     rd_payload = [], rd_payload_used = 0\<rparr>"

text \<open>The length of the slice the next read is given.\<close>

definition reader_room :: "HostReader \<Rightarrow> nat" where
  "reader_room r = (if rd_header_used r < length (rd_header r) then length (rd_header r) - rd_header_used r
     else length (rd_payload r) - rd_payload_used r)"

definition envelope_code :: "EnvelopeError \<Rightarrow> FailureCode" where
  "envelope_code e = (case e of
     Envelope_Identity \<Rightarrow> Identity_differs | Envelope_Sequence \<Rightarrow> Sequence_broken | Envelope_Version _ \<Rightarrow> Compatibility_differs)"

text \<open>One round of the loop of \<open>next\<close> with the bytes a read returned; none means the end of the stream.
  The frame deadline, which the environment may let pass at any time, ends the session and nothing else.\<close>

definition reader_read :: "'b json \<Rightarrow> bytes \<Rightarrow> HostReader \<Rightarrow> FailureCode + ('b option \<times> HostReader)" where
  "reader_read js chunk r =
     (if chunk = [] then Inl Disconnected
      else if rd_header_used r < length (rd_header r) then
        let r = r\<lparr>rd_header := copy_at (rd_header r) (rd_header_used r) chunk,
                  rd_header_used := rd_header_used r + length chunk\<rparr>
        in if rd_header_used r = length (rd_header r) then
             rbind (map_err (\<lambda>_. MalformedMessage) (payload_length (rd_header r))) (\<lambda>len.
               Inr (None, r\<lparr>rd_payload := take len (rd_payload r) @ replicate (len - length (rd_payload r)) 0\<rparr>))
           else Inr (None, r)
      else
        let r = r\<lparr>rd_payload := copy_at (rd_payload r) (rd_payload_used r) chunk,
                  rd_payload_used := rd_payload_used r + length chunk\<rparr>
        in if rd_payload_used r = length (rd_payload r) then
             rbind (codec_decode js (rd_payload r)) (\<lambda>e.
             rbind (map_err envelope_code (env_check e (rd_identity r) (rd_previous r))) (\<lambda>_.
               Inr (Some (env_body e), r\<lparr>rd_previous := Some (env_sequence e), rd_header_used := 0,
                 rd_payload := [], rd_payload_used := 0\<rparr>)))
           else Inr (None, r))"

text \<open>Reading on and on: the \<open>n\<close>-th read returns at most \<open>k\<close> bytes of those that have arrived, and no
  more than the slice holds. The messages handed over, what ended it if anything did, the rest of the
  stream, and the reader. A wait that is dropped and taken up again reads on in the same way.\<close>

fun reader_run :: "'b json \<Rightarrow> nat list \<Rightarrow> bytes \<Rightarrow> HostReader \<Rightarrow> 'b list \<times> FailureCode option \<times> bytes \<times> HostReader" where
  "reader_run js [] stream r = ([], None, stream, r)"
| "reader_run js (k # ks) stream r =
     (let n = min k (min (reader_room r) (length stream)) in
      if n = 0 then reader_run js ks stream r
      else case reader_read js (take n stream) r of
          Inl e \<Rightarrow> ([], Some e, drop n stream, r)
        | Inr (m, r) \<Rightarrow>
            (case reader_run js ks (drop n stream) r of
               (ms, e, rest, r) \<Rightarrow> ((case m of Some b \<Rightarrow> b # ms | None \<Rightarrow> ms), e, rest, r)))"

section \<open>Frames round trip\<close>

lemma payload_length_Inr:
  "payload_length h = Inr n \<longleftrightarrow> (let len = from_be_bytes h :: u32 in len \<noteq> 0 \<and> len \<le> MAX_FRAME_BYTES \<and> n = unat len)"
  by (auto simp: payload_length_def Let_def)

lemma unat_len_u32: "n < 2 ^ 32 \<Longrightarrow> unat (word_of_nat n :: u32) = n"
  by (simp add: unat_of_nat)

lemma frame_header_Inr:
  "frame_header p = Inr h \<longleftrightarrow> h = to_be_bytes (word_of_nat (length p) :: u32) \<and> p \<noteq> [] \<and> length p \<le> 8388608"
proof -
  have "unat (word_of_nat (length p) :: u32) = length p" if "int (length p) < 2 ^ 32"
    using unat_len_u32 [of "length p"] that by simp
  then have "(word_of_nat (length p) :: u32) = 0 \<longleftrightarrow> p = []"
    "(word_of_nat (length p) :: u32) \<le> MAX_FRAME_BYTES \<longleftrightarrow> length p \<le> 8388608" if "int (length p) < 2 ^ 32"
    using that by (simp_all add: word_unat_eq_iff word_le_nat_alt MAX_FRAME_BYTES_def)
  then show ?thesis
    by (auto simp: frame_header_def payload_length_Inr Let_def res_simps)
qed

lemma frame_header_facts:
  assumes "frame_header p = Inr h"
  shows "length h = 4" and "payload_length h = Inr (length p)" and "p \<noteq> []"
proof -
  note h = assms [unfolded frame_header_Inr]
  have len: "unat (word_of_nat (length p) :: u32) = length p"
    using h by (intro unat_len_u32) simp
  then show "payload_length h = Inr (length p)"
    using h by (simp add: payload_length_Inr Let_def word_unat_eq_iff word_le_nat_alt MAX_FRAME_BYTES_def)
  show "length h = 4" "p \<noteq> []"
    using h by simp_all
qed

text \<open>Every prefix of a frame that is not the whole, and every continuation of it, is refused.\<close>

lemma frame_payload_exact:
  assumes "frame_header p = Inr h"
  shows "frame_payload (h @ p) = Inr p"
    and "frame = h @ p @ x # xs \<Longrightarrow> frame_payload frame = Inl Frame_TrailingBytes"
    and "h @ p = frame @ x # xs \<Longrightarrow> frame_payload frame = Inl Frame_Truncated"
proof -
  note f = frame_header_facts [OF assms]
  show "frame_payload (h @ p) = Inr p" "frame = h @ p @ x # xs \<Longrightarrow> frame_payload frame = Inl Frame_TrailingBytes"
    using f by (simp_all add: frame_payload_def)
  assume eq: "h @ p = frame @ x # xs"
  have len: "length frame < 4 + length p"
    using arg_cong [OF eq, of length] f(1) by simp
  have "take 4 frame = h" if "4 \<le> length frame"
    using arg_cong [OF eq, of "take 4"] f(1) that by simp
  then show "frame_payload frame = Inl Frame_Truncated"
    using f(2) len by (auto simp: frame_payload_def Let_def)
qed

lemma seal_message_Inr:
  assumes "seal_message js i sq body = Inr frame"
  obtains h p where "frame = h @ p" "frame_header p = Inr h" "js_write js \<lparr>env_session = i, env_sequence = sq, env_body = body\<rparr> = Some p"
  using assms by (auto simp: seal_message_def codec_encode_def res_simps split: option.splits if_splits)

text \<open>What is relied on of \<^verbatim>\<open>serde_json\<close> and the derived implementations: an envelope that was written
  is read back, and its objects have no duplicate keys.\<close>

definition json_ok :: "'b json \<Rightarrow> bool" where
  "json_ok js \<longleftrightarrow> (\<forall>e p. js_write js e = Some p \<longrightarrow> js_unique js p \<and> js_read js p = Some e)"

lemma decode_written:
  assumes "json_ok js" and "js_write js e = Some p" and "frame_header p = Inr h"
  shows "codec_decode js p = Inr e"
  using assms by (simp add: codec_decode_def json_ok_def)

section \<open>The reader's position in a frame\<close>

definition reader_wf :: "HostReader \<Rightarrow> bool" where
  "reader_wf r \<longleftrightarrow> length (rd_header r) = 4 \<and> rd_header_used r \<le> 4
     \<and> (if rd_header_used r < 4 then rd_payload r = [] \<and> rd_payload_used r = 0
        else payload_length (rd_header r) = Inr (length (rd_payload r)) \<and> rd_payload_used r < length (rd_payload r))"

definition buffered :: "HostReader \<Rightarrow> bytes" where
  "buffered r = take (rd_header_used r) (rd_header r) @ take (rd_payload_used r) (rd_payload r)"

lemma reader_new_wf: "reader_wf (reader_new i)" "buffered (reader_new i) = []"
  by (simp_all add: reader_wf_def reader_new_def buffered_def)

lemma reader_wf_room: "reader_wf r \<Longrightarrow> 0 < reader_room r"
  by (auto simp: reader_wf_def reader_room_def split: if_splits)

text \<open>A reader is always short of the frame it is in.\<close>

lemma buffered_short:
  assumes "reader_wf r" and "frame_header p = Inr h" and "h @ p @ ws = buffered r @ rest"
  shows "length (buffered r) < 4 + length p"
proof (cases "rd_header_used r < 4")
  case True
  then show ?thesis
    using assms(1) by (simp add: buffered_def reader_wf_def)
next
  case False
  have h: "length h = 4" "payload_length h = Inr (length p)"
    using frame_header_facts [OF assms(2)] by simp_all
  have u: "rd_header_used r = 4" "length (rd_header r) = 4"
    using assms(1) False by (simp_all add: reader_wf_def)
  then have "h = rd_header r"
    using arg_cong [OF assms(3), of "take 4"] h(1) by (simp add: buffered_def)
  then show ?thesis
    using assms(1) u h by (simp add: buffered_def reader_wf_def)
qed

lemma read_header:
  assumes wf: "reader_wf r" and hu: "rd_header_used r < 4" and chunk: "chunk \<noteq> []" "length chunk \<le> reader_room r"
    and fh: "frame_header p = Inr h" and eq: "h @ p @ ws = buffered r @ chunk @ rest"
  obtains r' where "reader_read js chunk r = Inr (None, r')" and "reader_wf r'" and "buffered r' = buffered r @ chunk"
    and "rd_identity r' = rd_identity r" and "rd_previous r' = rd_previous r"
proof -
  note f = frame_header_facts [OF fh]
  let ?n = "rd_header_used r + length chunk"
  have len: "length (rd_header r) = 4" "rd_payload r = []" "rd_payload_used r = 0" and n: "?n \<le> 4"
    using wf hu chunk by (auto simp: reader_wf_def reader_room_def)
  let ?h = "copy_at (rd_header r) (rd_header_used r) chunk"
  have take: "take ?n ?h = take (rd_header_used r) (rd_header r) @ chunk"
    using n len by (simp add: copy_at_def)
  show thesis
  proof (cases "?n = 4")
    case True
    have "?h = take ?n ?h"
      using True n len by simp
    also have "\<dots> = take 4 (h @ p @ ws)"
      using take len True by (simp add: eq buffered_def)
    finally have "?h = h"
      using f(1) by simp
    then show thesis
      using that chunk hu len True f take
      by (auto simp: reader_read_def Let_def reader_wf_def buffered_def res_simps)
  next
    case False
    then show thesis
      using that chunk hu len n take by (auto simp: reader_read_def Let_def reader_wf_def buffered_def)
  qed
qed

lemma read_payload:
  assumes wf: "reader_wf r" and hu: "\<not> rd_header_used r < 4" and chunk: "chunk \<noteq> []" "length chunk \<le> reader_room r"
    and fh: "frame_header p = Inr h" and eq: "h @ p @ ws = buffered r @ chunk @ rest"
  obtains
    (partial) r' where "reader_read js chunk r = Inr (None, r')" and "reader_wf r'" and "buffered r' = buffered r @ chunk"
      and "rd_identity r' = rd_identity r" and "rd_previous r' = rd_previous r"
  | (whole) "h @ p = buffered r @ chunk"
      and "reader_read js chunk r = rbind (codec_decode js p) (\<lambda>e.
         rbind (map_err envelope_code (env_check e (rd_identity r) (rd_previous r))) (\<lambda>_.
           Inr (Some (env_body e), r\<lparr>rd_previous := Some (env_sequence e), rd_header_used := 0, rd_payload := [], rd_payload_used := 0\<rparr>)))"
proof -
  note f = frame_header_facts [OF fh]
  let ?n = "rd_payload_used r + length chunk"
  have u: "rd_header_used r = 4" "length (rd_header r) = 4" "payload_length (rd_header r) = Inr (length (rd_payload r))"
    and n: "?n \<le> length (rd_payload r)"
    using wf hu chunk by (auto simp: reader_wf_def reader_room_def)
  have h: "h = rd_header r"
    using arg_cong [OF eq, of "take 4"] f(1) u by (simp add: buffered_def)
  then have lp: "length (rd_payload r) = length p"
    using f(2) u(3) by simp
  let ?p = "copy_at (rd_payload r) (rd_payload_used r) chunk"
  have take: "take ?n ?p = take (rd_payload_used r) (rd_payload r) @ chunk"
    using n by (simp add: copy_at_def)
  show thesis
  proof (cases "?n = length p")
    case True
    have "?p = take ?n ?p"
      using n lp True by simp
    also have "\<dots> = take (length p) (p @ ws)"
      using take eq u h lp True f(1) n by (simp add: buffered_def)
    finally have p: "?p = p"
      by simp
    have "h @ p = buffered r @ chunk"
      using take p True u h by (simp add: buffered_def)
    then show thesis
      using whole chunk u p True lp n by (simp add: reader_read_def Let_def)
  next
    case False
    then show thesis
      using partial chunk u n lp take by (auto simp: reader_read_def Let_def reader_wf_def buffered_def)
  qed
qed

end
