(* ===== verification/Channel_Correct.thy ===== *)
theory Channel_Correct
  imports Host_Channel
begin

text \<open>
  The properties of the control channel: what an owner sends reaches the host whole, once and in order,
  however the socket cuts it; what a host sends reaches the owner; a frame is its header and payload
  and nothing else; and a receiver takes nothing that is replayed or meant for another session.
\<close>

section \<open>Streams of sealed messages\<close>

fun channel_sends :: "'b json \<Rightarrow> 'b list \<Rightarrow> Channel \<Rightarrow> bytes option" where
  "channel_sends js [] ch = Some []"
| "channel_sends js (m # ms) ch = (case channel_send js Written_Ok m ch of
     (Inl _, _, _) \<Rightarrow> None
   | (Inr _, ch, frame) \<Rightarrow> map_option (\<lambda>bs. frame @ bs) (channel_sends js ms ch))"

fun sealed :: "'b json \<Rightarrow> SessionIdentity \<Rightarrow> u64 \<Rightarrow> 'b list \<Rightarrow> bytes option" where
  "sealed js i n [] = Some []"
| "sealed js i n (m # ms) = (if n = - 1 then None else case seal_message js i n m of
     Inl _ \<Rightarrow> None | Inr frame \<Rightarrow> map_option (\<lambda>bs. frame @ bs) (sealed js i (n + 1) ms))"

lemma channel_sends_sealed: "channel_sends js ms ch = sealed js (ch_identity ch) (ch_sent ch) ms"
proof (induction ms arbitrary: ch)
  case (Cons m ms)
  then show ?case
    by (auto simp: channel_send_def written_result_def split: sum.splits)
qed simp

definition expects :: "u64 \<Rightarrow> HostReader \<Rightarrow> bool" where
  "expects n r \<longleftrightarrow> rd_previous r = (if n = 0 then None else Some (n - 1))"

lemma expects_next:
  assumes "expects n r" and "n \<noteq> - 1" and "rd_previous r' = Some n"
  shows "env_check \<lparr>env_session = i, env_sequence = n, env_body = b\<rparr> i (rd_previous r) = Inr ()" and "expects (n + 1) r'"
proof -
  have "n - 1 < n" if "n \<noteq> 0"
  proof -
    have "unat n \<noteq> 0"
      using that by (simp add: word_unat_eq_iff)
    moreover have "1 \<le> n"
      using calculation by (simp add: word_le_nat_alt)
    ultimately show ?thesis
      using unat_sub [of 1 n] by (simp add: word_less_nat_alt)
  qed
  then show "env_check \<lparr>env_session = i, env_sequence = n, env_body = b\<rparr> i (rd_previous r) = Inr ()"
    using assms(1) by (simp add: env_check_def expects_def)
  have "n + 1 \<noteq> 0"
    using assms(2) by (metis add.commute add_eq_0_iff)
  then show "expects (n + 1) r'"
    using assms(3) by (simp add: expects_def)
qed

text \<open>One read of a stream of sealed messages.\<close>

lemma read_sealed:
  assumes js: "json_ok js" and wf: "reader_wf r" and exp: "expects n r"
    and sl: "sealed js (rd_identity r) n ms = Some (buffered r @ chunk @ rest)"
    and chunk: "chunk \<noteq> []" "length chunk \<le> reader_room r"
  obtains (partial) r' where "reader_read js chunk r = Inr (None, r')" "reader_wf r'" "expects n r'"
      "rd_identity r' = rd_identity r" "buffered r' = buffered r @ chunk"
    | (message) m ms' r' where "ms = m # ms'" "reader_read js chunk r = Inr (Some m, r')" "reader_wf r'" "expects (n + 1) r'"
      "rd_identity r' = rd_identity r" "buffered r' = []" "sealed js (rd_identity r) (n + 1) ms' = Some rest"
proof -
  obtain m ms' where ms: "ms = m # ms'"
    using sl chunk(1) by (cases ms) auto
  obtain frame ws where n: "n \<noteq> - 1" and frame: "seal_message js (rd_identity r) n m = Inr frame"
    and ws: "sealed js (rd_identity r) (n + 1) ms' = Some ws" and eq: "frame @ ws = buffered r @ chunk @ rest"
    using sl unfolding ms by (auto split: if_splits sum.splits)
  obtain h p where hp: "frame = h @ p" "frame_header p = Inr h"
    "js_write js \<lparr>env_session = rd_identity r, env_sequence = n, env_body = m\<rparr> = Some p"
    using frame by (rule seal_message_Inr)
  have eq': "h @ p @ ws = buffered r @ chunk @ rest"
    using eq hp(1) by simp
  show thesis
  proof (cases "rd_header_used r < 4")
    case True
    from read_header [OF wf True chunk hp(2) eq'] obtain r' where "reader_read js chunk r = Inr (None, r')" "reader_wf r'"
      "buffered r' = buffered r @ chunk" "rd_identity r' = rd_identity r" "rd_previous r' = rd_previous r"
      by blast
    then show thesis
      using partial exp by (simp add: expects_def)
  next
    case False
    from wf False chunk hp(2) eq' show thesis
    proof (cases rule: read_payload [where js = js])
      case (partial r')
      then show thesis
        using that(1) exp by (simp add: expects_def)
    next
      case whole
      let ?r = "r\<lparr>rd_previous := Some n, rd_header_used := 0, rd_payload := [], rd_payload_used := 0\<rparr>"
      note nxt = expects_next [OF exp n, of ?r]
      have "reader_read js chunk r = Inr (Some m, ?r)"
        using whole(2) decode_written [OF js hp(3,2)] nxt(1) [of "rd_identity r" m] by simp
      moreover have "reader_wf ?r" "buffered ?r = []"
        using wf by (simp_all add: reader_wf_def buffered_def)
      moreover have "ws = rest"
        using eq' whole(1) by (metis append.assoc same_append_eq)
      ultimately show thesis
        using that(2) [OF ms] nxt(2) ws by simp
    qed
  qed
qed

lemma run_sealed:
  assumes js: "json_ok js" and "reader_wf r" and "expects n r"
    and "sealed js (rd_identity r) n ms = Some (buffered r @ stream)" and "\<forall>k \<in> set ks. 0 < k"
  shows "\<exists>j rest r'. reader_run js ks stream r = (take j ms, None, rest, r') \<and> length rest \<le> length stream - length ks
    \<and> reader_wf r' \<and> sealed js (rd_identity r) (n + word_of_nat j) (drop j ms) = Some (buffered r' @ rest)
    \<and> expects (n + word_of_nat j) r' \<and> rd_identity r' = rd_identity r \<and> j \<le> length ms"
  using assms(2-)
proof (induction ks arbitrary: n ms stream r)
  case Nil
  then show ?case
    by (intro exI [of _ 0] exI [of _ stream] exI [of _ r]) simp
next
  case (Cons k ks)
  let ?n = "min k (min (reader_room r) (length stream))"
  show ?case
  proof (cases "stream = []")
    case True
    then show ?thesis
      using Cons.IH [OF Cons.prems(1-3)] Cons.prems(4) by simp
  next
    case False
    have pos: "0 < ?n" "?n \<le> length stream" "?n \<le> reader_room r"
      using False Cons.prems(4) reader_wf_room [OF Cons.prems(1)] by simp_all
    have sl: "sealed js (rd_identity r) n ms = Some (buffered r @ take ?n stream @ drop ?n stream)"
      using Cons.prems(3) by simp
    have chunk: "take ?n stream \<noteq> []" "length (take ?n stream) \<le> reader_room r"
      using pos False by auto
    have shorter: "length (drop ?n stream) - length ks \<le> length stream - length (k # ks)"
      unfolding length_drop length_Cons using pos(1) by linarith
    have nz: "(?n = 0) = False"
      using pos(1) by (metis less_numeral_extra(3))
    note step = reader_run.simps(2) [of js k ks stream r, unfolded Let_def nz if_False]
    from js Cons.prems(1,2) sl chunk show ?thesis
    proof (cases rule: read_sealed)
      case (partial r')
      obtain j rest r'' where run: "reader_run js ks (drop ?n stream) r' = (take j ms, None, rest, r'')"
        "length rest \<le> length (drop ?n stream) - length ks" "reader_wf r''"
        "sealed js (rd_identity r) (n + word_of_nat j) (drop j ms) = Some (buffered r'' @ rest)"
        "expects (n + word_of_nat j) r''" "rd_identity r'' = rd_identity r" "j \<le> length ms"
        using Cons.IH [OF partial(2,3), of ms "drop ?n stream"] sl Cons.prems(4) partial(4,5) by auto
      then show ?thesis
        using shorter by (intro exI [of _ j] exI [of _ rest] exI [of _ r'']) (simp add: step partial(1) del: reader_run.simps)
    next
      case (message m ms' r')
      obtain j rest r'' where run: "reader_run js ks (drop ?n stream) r' = (take j ms', None, rest, r'')"
        "length rest \<le> length (drop ?n stream) - length ks" "reader_wf r''"
        "sealed js (rd_identity r) (n + 1 + word_of_nat j) (drop j ms') = Some (buffered r'' @ rest)"
        "expects (n + 1 + word_of_nat j) r''" "rd_identity r'' = rd_identity r" "j \<le> length ms'"
        using Cons.IH [OF message(3,4), of ms' "drop ?n stream"] Cons.prems(4) message(5-7) by auto
      then show ?thesis
        using shorter
        by (intro exI [of _ "Suc j"] exI [of _ rest] exI [of _ r'']) (simp add: step message(1,2) ac_simps del: reader_run.simps)
    qed
  qed
qed

lemma sealed_buffered_Nil:
  assumes "reader_wf r" and "sealed js i n ms = Some (buffered r)"
  shows "ms = []"
proof (cases ms)
  case (Cons m ms')
  obtain frame ws where "seal_message js i n m = Inr frame" and eq: "frame @ ws = buffered r"
    using assms(2) unfolding Cons by (auto split: if_splits sum.splits)
  then obtain h p where hp: "frame = h @ p" "frame_header p = Inr h"
    by (auto elim: seal_message_Inr)
  then have "length (buffered r) < 4 + length p"
    using buffered_short [OF assms(1) hp(2), of ws "[]"] eq by simp
  then show ?thesis
    using arg_cong [OF eq, of length] hp(1) frame_header_facts(1) [OF hp(2)] by simp
qed simp

section \<open>Properties\<close>

text \<open>C32. What an owner sends reaches the host: when all of a list of messages are sent over a fresh
  channel, a fresh reader of the same session hands over exactly these messages in this order and
  reports no error, however the socket cuts the stream into reads, once there have been as many reads
  as bytes.\<close>

theorem owner_reaches_host:
  assumes "json_ok js" and "ch_sent ch = 0" and "channel_sends js ms ch = Some stream"
    and "\<forall>k \<in> set ks. 0 < k" and "length stream \<le> length ks"
  shows "\<exists>r. reader_run js ks stream (reader_new (ch_identity ch)) = (ms, None, [], r) \<and> buffered r = []"
proof -
  let ?r = "reader_new (ch_identity ch)"
  have id: "rd_identity ?r = ch_identity ch" and exp: "expects 0 ?r"
    by (simp_all add: reader_new_def expects_def)
  have "sealed js (rd_identity ?r) 0 ms = Some (buffered ?r @ stream)"
    using assms(2,3) by (simp add: channel_sends_sealed reader_new_wf id)
  from run_sealed [OF assms(1) reader_new_wf(1) exp this assms(4)]
  obtain j rest r' where run: "reader_run js ks stream ?r = (take j ms, None, rest, r')"
    "length rest \<le> length stream - length ks" "reader_wf r'"
    "sealed js (rd_identity ?r) (0 + word_of_nat j) (drop j ms) = Some (buffered r' @ rest)"
    by blast
  have rest: "rest = []"
    using run(2) assms(5) by simp
  then have "drop j ms = []"
    using run(4) by (intro sealed_buffered_Nil [OF run(3)]) simp
  then show ?thesis
    using run(1,4) rest by simp
qed


text \<open>A concrete codec for one session and messages of one byte.\<close>

definition ex_identity :: SessionIdentity where
  "ex_identity = \<lparr>si_owner_generation = 1, si_graph_generation = 2, si_host_id = ''h'', si_host_generation = 3,
     si_graph_digest = ''g'', si_bundle_digest = ''b''\<rparr>"

definition ex_json :: "u8 json" where
  "ex_json = \<lparr>js_write = \<lambda>e. if env_session e = ex_identity \<and> env_sequence e < 256
       then Some [ucast (env_sequence e), env_body e] else None,
     js_unique = \<lambda>_. True,
     js_read = \<lambda>p. case p of [sq, b] \<Rightarrow> Some \<lparr>env_session = ex_identity, env_sequence = ucast sq, env_body = b\<rparr> | _ \<Rightarrow> None\<rparr>"

lemma ex_json_ok: "json_ok ex_json"
proof -
  have "ucast (ucast n :: u8) = n" if "n < 256" for n :: u64
  proof -
    have "unat n < 256"
      using that by (simp add: word_less_nat_alt)
    then show ?thesis
      by (simp add: word_unat_eq_iff unsigned_ucast_eq unsigned_take_bit_eq take_bit_nat_eq_self)
  qed
  then show ?thesis
    by (auto simp: json_ok_def ex_json_def)
qed

definition ex_channel :: Channel where
  "ex_channel = \<lparr>ch_identity = ex_identity, ch_sent = 0, ch_received = None, ch_healthy = True\<rparr>"

lemma ex_sent: "channel_sends ex_json [7, 9] ex_channel = Some [0, 0, 0, 2, 0, 7, 0, 0, 0, 2, 1, 9]"
  by code_simp

theorem owner_reaches_host_witness:
  "\<exists>r. reader_run ex_json [3, 1, 5, 1, 1, 2, 1, 1, 1, 1, 1, 1] [0, 0, 0, 2, 0, 7, 0, 0, 0, 2, 1, 9] (reader_new ex_identity)
     = ([7, 9], None, [], r) \<and> buffered r = []"
  using owner_reaches_host [OF ex_json_ok _ ex_sent, of "[3, 1, 5, 1, 1, 2, 1, 1, 1, 1, 1, 1]"] by (simp add: ex_channel_def)

text \<open>The other direction.\<close>

fun writer_sends :: "'b json \<Rightarrow> 'b list \<Rightarrow> HostWriter \<Rightarrow> bytes option" where
  "writer_sends js [] w = Some []"
| "writer_sends js (m # ms) w = (case writer_send js Written_Ok m w of
     (Inl _, _, _) \<Rightarrow> None
   | (Inr _, w, frame) \<Rightarrow> map_option (\<lambda>bs. frame @ bs) (writer_sends js ms w))"

fun channel_receives :: "'b json \<Rightarrow> FailureCode \<Rightarrow> nat \<Rightarrow> bytes \<Rightarrow> Channel \<Rightarrow> (FailureCode + 'b list) \<times> bytes" where
  "channel_receives js ended 0 stream ch = (Inr [], stream)"
| "channel_receives js ended (Suc n) stream ch = (case channel_receive js ended stream ch of
     (Inl e, _, rest) \<Rightarrow> (Inl e, rest)
   | (Inr b, ch, rest) \<Rightarrow> (case channel_receives js ended n rest ch of
        (r, rest) \<Rightarrow> (map_sum id (\<lambda>bs. b # bs) r, rest)))"

lemma writer_sends_sealed:
  "wr_writable w \<Longrightarrow> writer_sends js ms w = sealed js (wr_identity w) (wr_sequence w) ms"
proof (induction ms arbitrary: w)
  case (Cons m ms)
  then show ?case
    by (auto simp: writer_send_def written_result_def split: sum.splits)
qed simp

lemma receive_sealed:
  assumes js: "json_ok js" and seal: "seal_message js (ch_identity ch) n m = Inr frame"
    and prev: "ch_received ch = (if n = 0 then None else Some (n - 1))" and "n \<noteq> - 1"
  shows "channel_receive js ended (frame @ rest) ch = (Inr m, ch\<lparr>ch_received := Some n, ch_healthy := True\<rparr>, rest)"
proof -
  obtain h p where hp: "frame = h @ p" "frame_header p = Inr h"
    "js_write js \<lparr>env_session = ch_identity ch, env_sequence = n, env_body = m\<rparr> = Some p"
    using seal by (rule seal_message_Inr)
  note f = frame_header_facts [OF hp(2)]
  have "env_check \<lparr>env_session = ch_identity ch, env_sequence = n, env_body = m\<rparr> (ch_identity ch) (ch_received ch) = Inr ()"
    using expects_next(1) [of n "(reader_new (ch_identity ch))\<lparr>rd_previous := ch_received ch\<rparr>" "(reader_new (ch_identity ch))\<lparr>rd_previous := Some n\<rparr>" "ch_identity ch" m]
      prev assms(4) by (simp add: expects_def)
  then show ?thesis
    using f decode_written [OF js hp(3,2)] by (simp add: channel_receive_def hp(1) Let_def)
qed

text \<open>What a host sends reaches the owner: the messages a writer of the session has sent, from its
  first one on, are received one by one, in order, and nothing is left of the stream.\<close>

theorem host_reaches_owner:
  assumes "json_ok js" and "wr_writable w" and "wr_sequence w = 0" and "writer_sends js ms w = Some stream"
    and "ch_identity ch = wr_identity w" and "ch_received ch = None"
  shows "channel_receives js ended (length ms) stream ch = (Inr ms, [])"
proof -
  have "channel_receives js ended (length ms) stream ch = (Inr ms, [])"
    if "sealed js (ch_identity ch) n ms = Some stream" "ch_received ch = (if n = 0 then None else Some (n - 1))" for n
    using that
  proof (induction ms arbitrary: n stream ch)
    case (Cons m ms)
    obtain frame bs where f: "n \<noteq> - 1" "seal_message js (ch_identity ch) n m = Inr frame"
      "sealed js (ch_identity ch) (n + 1) ms = Some bs" "stream = frame @ bs"
      using Cons.prems(1) by (auto split: if_splits sum.splits)
    have "n + 1 \<noteq> 0"
      using f(1) by (metis add.commute add_eq_0_iff)
    then have "channel_receives js ended (length ms) bs (ch\<lparr>ch_received := Some n, ch_healthy := True\<rparr>) = (Inr ms, [])"
      using Cons.IH [of "ch\<lparr>ch_received := Some n, ch_healthy := True\<rparr>" "n + 1" bs] f(3) by simp
    then show ?case
      using receive_sealed [OF assms(1) f(2) Cons.prems(2) f(1)] f(4) by simp
  qed simp
  from this [of 0] show ?thesis
    using assms(2-6) by (simp add: writer_sends_sealed)
qed

theorem host_reaches_owner_witness:
  "channel_receives ex_json Timeout_expired 2 [0, 0, 0, 2, 0, 7, 0, 0, 0, 2, 1, 9] ex_channel = (Inr [7, 9], [])"
proof -
  let ?w = "\<lparr>wr_identity = ex_identity, wr_sequence = 0, wr_writable = True\<rparr>"
  have "writer_sends ex_json [7, 9] ?w = Some [0, 0, 0, 2, 0, 7, 0, 0, 0, 2, 1, 9]"
    by code_simp
  from host_reaches_owner [OF ex_json_ok _ _ this, of ex_channel Timeout_expired] show ?thesis
    by (simp add: ex_channel_def numeral_2_eq_2 del: channel_receives.simps)
qed

section \<open>Replay\<close>

lemma reader_read_accepts:
  assumes "reader_read js chunk r = Inr (m, r')"
  shows "rd_identity r' = rd_identity r"
    and "m = None \<Longrightarrow> rd_previous r' = rd_previous r"
    and "m = Some b \<Longrightarrow> \<exists>p e. codec_decode js p = Inr e \<and> env_body e = b \<and> env_session e = rd_identity r
      \<and> (case rd_previous r of None \<Rightarrow> env_sequence e = 0 | Some q \<Rightarrow> q < env_sequence e) \<and> rd_previous r' = Some (env_sequence e)"
proof -
  show "rd_identity r' = rd_identity r" "m = None \<Longrightarrow> rd_previous r' = rd_previous r"
    using assms by (auto simp: reader_read_def Let_def res_simps split: if_splits)
  show "m = Some b \<Longrightarrow> \<exists>p e. codec_decode js p = Inr e \<and> env_body e = b \<and> env_session e = rd_identity r
      \<and> (case rd_previous r of None \<Rightarrow> env_sequence e = 0 | Some q \<Rightarrow> q < env_sequence e) \<and> rd_previous r' = Some (env_sequence e)"
    using assms by (auto simp: reader_read_def Let_def env_check_def res_simps split: if_splits option.splits; blast)
qed

text \<open>C33. A receiver takes nothing that is replayed, reordered or meant for another session: whatever
  bytes arrive and however they are cut, the messages handed over are the bodies of decoded envelopes
  of the reader's own session, the first with sequence number zero, and with strictly increasing
  numbers.\<close>

theorem reader_no_replay:
  assumes "reader_run js ks stream (reader_new i) = (ms, err, rest, r)"
  shows "\<exists>es. ms = map env_body es \<and> (\<forall>e \<in> set es. env_session e = i \<and> (\<exists>p. codec_decode js p = Inr e))
    \<and> sorted_wrt (<) (map env_sequence es) \<and> (es \<noteq> [] \<longrightarrow> env_sequence (hd es) = 0)"
proof -
  have "\<exists>es. ms = map env_body es \<and> (\<forall>e \<in> set es. env_session e = rd_identity r0 \<and> (\<exists>p. codec_decode js p = Inr e))
    \<and> sorted_wrt (<) (map env_sequence es)
    \<and> (case rd_previous r0 of None \<Rightarrow> es \<noteq> [] \<longrightarrow> env_sequence (hd es) = 0 | Some q \<Rightarrow> \<forall>e \<in> set es. q < env_sequence e)"
    if "reader_run js ks stream r0 = (ms, err, rest, r)" for r0
    using that
  proof (induction ks arbitrary: stream r0 ms)
    case Nil
    then show ?case
      by (intro exI [of _ "[]"]) (simp split: option.splits)
  next
    case (Cons k ks)
    let ?n = "min k (min (reader_room r0) (length stream))"
    show ?case
    proof (cases "?n = 0")
      case True
      then show ?thesis
        using Cons.IH [of stream r0 ms] Cons.prems by (simp add: Let_def)
    next
      case False
      note step = reader_run.simps(2) [of js k ks stream r0, unfolded Let_def if_not_P [OF False]]
      show ?thesis
      proof (cases "reader_read js (take ?n stream) r0")
        case (Inl e)
        then show ?thesis
          using Cons.prems unfolding step by (intro exI [of _ "[]"]) (simp split: option.splits)
      next
        case (Inr mr)
        obtain m r1 where mr: "mr = (m, r1)"
          by (cases mr)
        note read = Inr [unfolded mr]
        obtain ms1 e1 rest1 r2 where run: "reader_run js ks (drop ?n stream) r1 = (ms1, e1, rest1, r2)"
          by (cases "reader_run js ks (drop ?n stream) r1")
        have out: "ms = (case m of Some b \<Rightarrow> b # ms1 | None \<Rightarrow> ms1)" "e1 = err" "rest1 = rest" "r2 = r"
          using Cons.prems unfolding step by (simp_all add: read run)
        obtain es where es: "ms1 = map env_body es"
          "\<forall>e \<in> set es. env_session e = rd_identity r0 \<and> (\<exists>p. codec_decode js p = Inr e)"
          "sorted_wrt (<) (map env_sequence es)"
          "case rd_previous r1 of None \<Rightarrow> es \<noteq> [] \<longrightarrow> env_sequence (hd es) = 0 | Some q \<Rightarrow> \<forall>e \<in> set es. q < env_sequence e"
          using Cons.IH [of "drop ?n stream" r1 ms1] run out reader_read_accepts(1) [OF read] by auto
        show ?thesis
        proof (cases m)
          case None
          then show ?thesis
            using es out(1) reader_read_accepts(2) [OF read] by (intro exI [of _ es]) simp
        next
          case (Some b)
          obtain p e where e: "codec_decode js p = Inr e" "env_body e = b" "env_session e = rd_identity r0"
            "case rd_previous r0 of None \<Rightarrow> env_sequence e = 0 | Some q \<Rightarrow> q < env_sequence e" "rd_previous r1 = Some (env_sequence e)"
            using reader_read_accepts(3) [OF read Some] by blast
          then have "sorted_wrt (<) (map env_sequence (e # es))"
            using es(3,4) by simp
          moreover have "case rd_previous r0 of None \<Rightarrow> env_sequence (hd (e # es)) = 0 | Some q \<Rightarrow> \<forall>u \<in> set (e # es). q < env_sequence u"
            using e(4,5) es(4) by (auto split: option.splits)
          ultimately show ?thesis
            using es(1,2) e out(1) Some by (intro exI [of _ "e # es"]) (auto split: option.splits)
        qed
      qed
    qed
  qed
  from this [OF assms] show ?thesis
    by (simp add: reader_new_def)
qed

theorem reader_no_replay_witness:
  "\<exists>es :: u8 Envelope list. map env_body es = [7] \<and> (\<forall>e \<in> set es. env_session e = ex_identity)
     \<and> reader_run ex_json (replicate 12 6) [0, 0, 0, 2, 0, 7, 0, 0, 0, 2, 0, 7] (reader_new ex_identity)
       = ([7], Some Sequence_broken, [], (reader_new ex_identity)\<lparr>rd_header := [0, 0, 0, 2], rd_header_used := 4,
            rd_previous := Some 0, rd_payload := [0, 0]\<rparr>)"
proof -
  have run: "reader_run ex_json (replicate 12 6) [0, 0, 0, 2, 0, 7, 0, 0, 0, 2, 0, 7] (reader_new ex_identity)
       = ([7], Some Sequence_broken, [], (reader_new ex_identity)\<lparr>rd_header := [0, 0, 0, 2], rd_header_used := 4,
            rd_previous := Some 0, rd_payload := [0, 0]\<rparr>)"
    by code_simp
  obtain es :: "u8 Envelope list" where es: "[7] = map env_body es"
    and id: "\<forall>e \<in> set es. env_session e = ex_identity \<and> (\<exists>p. codec_decode ex_json p = Inr e)"
    using reader_no_replay [OF run] by (elim exE conjE)
  have "\<forall>e \<in> set es. env_session e = ex_identity"
    using id by simp
  then show ?thesis
    by (intro exI [of _ es] conjI run) (simp_all only: es [symmetric])
qed

end
