(* ===== verification/Process_Wire.thy ===== *)
theory Process_Wire
  imports Step_Scheduler Host_Channel
begin

text \<open>
  Step graphs between processes: the messages of the step extension
  (\<^verbatim>\<open>crates/reiny-core/src/host_protocol/step.rs\<close>), the conversions between them and the step engine
  (\<^verbatim>\<open>crates/reiny/src/component/process/step_wire.rs\<close>, \<^verbatim>\<open>step_wire/graph.rs\<close>), and the draft of a plan
  whose initial values come from prepared hosts (\<^verbatim>\<open>process/step_plan.rs\<close>, \<^verbatim>\<open>process/step_budget.rs\<close>).
  Collecting the entries of one \<open>BTreeMap\<close> into another under the same keys keeps their order, so it is a
  map over the entries. Sizes are compared as integers.
\<close>

section \<open>Messages\<close>

definition MAX_ENTRIES :: int where "MAX_ENTRIES = 1024"
definition MAX_VALUE_BYTES :: int where "MAX_VALUE_BYTES = 1024 * 1024"
definition MAX_RETAINED_BYTES :: int where "MAX_RETAINED_BYTES = 64 * 1024 * 1024"

record WireDuration =
  wd_secs :: u64
  wd_nanos :: u32

definition wire_duration :: "WireDuration \<Rightarrow> string + Duration" where
  "wire_duration d = (if wd_nanos d \<ge> 1000000000 then Inl ''non-normalized duration''
     else Inr \<lparr>dur_secs = wd_secs d, dur_nanos = wd_nanos d\<rparr>)"

definition duration_wire :: "Duration \<Rightarrow> WireDuration" where
  "duration_wire d = \<lparr>wd_secs = dur_secs d, wd_nanos = dur_nanos d\<rparr>"

record StepSessionKey =
  sk_incarnation :: bytes
  sk_owner_generation :: u64
  sk_graph_generation :: u64
  sk_graph_digest :: string
  sk_plan_digest :: string

record StepCallKey =
  ck_session :: StepSessionKey
  ck_epoch :: u64
  ck_run_sequence :: u64
  ck_tick_index :: u64
  ck_node_ordinal :: u32
  ck_instance :: string

record WireTick =
  wt_epoch :: u64
  wt_index :: u64
  wt_start :: WireDuration
  wt_dt :: WireDuration
  wt_end :: WireDuration

definition WireTick_validate :: "WireTick \<Rightarrow> string + unit" where
  "WireTick_validate t =
     rbind (wire_duration (wt_dt t)) (\<lambda>dt.
       if duration_is_zero dt then Inl ''invalid tick interval''
       else rbind (wire_duration (wt_start t)) (\<lambda>start.
            rbind (wire_duration (wt_end t)) (\<lambda>end_time.
              if duration_checked_add start dt \<noteq> Some end_time then Inl ''invalid tick interval''
              else rbind (ok_or (u64_checked_add (wt_index t) 1) ''tick index exhausted'') (\<lambda>_. Inr ()))))"

record WireStepType =
  wst_type_name :: string
  wst_fingerprint_version :: u16
  wst_fingerprint :: u64
  wst_assertions :: "(string, string) btree"

record WireValue =
  wv_ty :: WireStepType
  wv_bytes :: bytes

record WireSchema =
  wsc_inputs :: "(string, WireStepType) btree"
  wsc_outputs :: "(string, WireStepType) btree"

record StepPreparedReport =
  spr_instance :: string
  spr_schema :: WireSchema
  spr_contract :: bytes
  spr_outputs :: "(string, WireValue) btree"

record WireOutput =
  wo_instance :: string
  wo_port :: string

datatype WireSource = Wire_External | Wire_SameTick WireOutput | Wire_PreviousTick WireOutput WireValue

record WireRoute =
  wr_instance :: string
  wr_port :: string
  wr_source :: WireSource

record WireGraph =
  wg_nodes :: "(string, WireSchema) btree"
  wg_inputs :: "WireRoute list"

record BoundSteps =
  bs_session :: StepSessionKey
  bs_epoch :: u64
  bs_initial_time :: WireDuration
  bs_order :: "string list"
  bs_graph :: WireGraph

record InvokeStep =
  is_call :: StepCallKey
  is_tick :: WireTick
  is_inputs :: "(string, WireValue) btree"
  is_remaining_budget :: WireDuration

datatype StepFailureCode =
    Code_NodeError | Code_NodePanicked | Code_InvalidOutputs | Code_Cancelled | Code_TimedOut | Code_HostStopped | Code_WorkerLost

record WireStepFailure =
  wf_code :: StepFailureCode
  wf_message :: string

section \<open>Conversions\<close>

abbreviation invalid :: FailureCode where "invalid \<equiv> Assignment_invalid"

fun try_map :: "('a \<Rightarrow> 'e + 'b) \<Rightarrow> 'a list \<Rightarrow> 'e + 'b list" where
  "try_map f [] = Inr []"
| "try_map f (x # xs) = rbind (f x) (\<lambda>y. rbind (try_map f xs) (\<lambda>ys. Inr (y # ys)))"

definition export_type :: "StepType \<Rightarrow> WireStepType" where
  "export_type ty = \<lparr>wst_type_name = st_type_name ty, wst_fingerprint_version = SCHEMA_FINGERPRINT_VERSION,
     wst_fingerprint = st_fingerprint ty, wst_assertions = st_semantics ty\<rparr>"

definition import_type :: "WireStepType \<Rightarrow> FailureCode + StepType" where
  "import_type ty =
     rbind (map_err (\<lambda>_. invalid) (EncodedType_new (wst_type_name ty) (wst_fingerprint_version ty) (wst_fingerprint ty))) (\<lambda>encoded.
     rbind (map_err (\<lambda>_. invalid) (from_encoded_type encoded)) (\<lambda>t.
       map_err (\<lambda>_. invalid) (StepType_with_semantics t (wst_assertions ty))))"

definition export_schema :: "StepSchema \<Rightarrow> WireSchema" where
  "export_schema schema = \<lparr>wsc_inputs = map (\<lambda>(k, v). (k, export_type v)) (ss_inputs schema),
     wsc_outputs = map (\<lambda>(k, v). (k, export_type v)) (ss_outputs schema)\<rparr>"

definition import_ports :: "(string, WireStepType) btree \<Rightarrow> FailureCode + (string, StepType) btree" where
  "import_ports ports =
     (if int (length ports) > MAX_ENTRIES then Inl invalid
      else try_map (\<lambda>(name, ty).
        and_then (map_err (\<lambda>_. invalid) (validate_port_name name)) (rbind (import_type ty) (\<lambda>t. Inr (name, t)))) ports)"

definition import_schema :: "WireSchema \<Rightarrow> FailureCode + StepSchema" where
  "import_schema schema =
     rbind (import_ports (wsc_inputs schema)) (\<lambda>inputs.
     rbind (import_ports (wsc_outputs schema)) (\<lambda>outputs. Inr \<lparr>ss_inputs = inputs, ss_outputs = outputs\<rparr>))"

definition export_value :: "StepValue \<Rightarrow> FailureCode + WireValue" where
  "export_value v = (if int (length (sv_bytes v)) > MAX_VALUE_BYTES then Inl invalid
     else Inr \<lparr>wv_ty = export_type (sv_step_type v), wv_bytes = sv_bytes v\<rparr>)"

definition export_values :: "StepOutputs \<Rightarrow> FailureCode + (string, WireValue) btree" where
  "export_values values =
     (if int (length values) > MAX_ENTRIES then Inl invalid
      else try_map (\<lambda>(port, value). rbind (export_value value) (\<lambda>w. Inr (port, w))) values)"

definition import_value :: "WireValue \<Rightarrow> FailureCode + StepValue" where
  "import_value w = (if int (length (wv_bytes w)) > MAX_VALUE_BYTES then Inl invalid
     else rbind (import_type (wv_ty w)) (\<lambda>t. Inr (from_encoded t (wv_bytes w))))"

definition import_values :: "(string, WireValue) btree \<Rightarrow> FailureCode + StepInputs" where
  "import_values values =
     (if int (length values) > MAX_ENTRIES then Inl invalid
      else try_map (\<lambda>(port, value). rbind (import_value value) (\<lambda>v. Inr (port, v))) values)"

definition check_values :: "(string, StepType) btree \<Rightarrow> StepInputs \<Rightarrow> FailureCode + unit" where
  "check_values schema values =
     (if length schema \<noteq> length values
         \<or> list_ex (\<lambda>(p, t). is_none_or (\<lambda>v. \<not> step_type_eq (sv_step_type v) t) (bt_get values p)) schema
      then Inl invalid else Inr ())"

fun failure_code :: "StepFailureKind \<Rightarrow> StepFailureCode" where
  "failure_code Fail_NodeError = Code_NodeError"
| "failure_code Fail_NodePanicked = Code_NodePanicked"
| "failure_code Fail_InvalidOutputs = Code_InvalidOutputs"
| "failure_code Fail_Cancelled = Code_Cancelled"
| "failure_code Fail_TimedOut = Code_TimedOut"
| "failure_code Fail_HostStopped = Code_HostStopped"
| "failure_code Fail_WorkerLost = Code_WorkerLost"
| "failure_code Fail_AdvanceDropped = Code_WorkerLost"

definition export_failure :: "StepFailureKind \<Rightarrow> string \<Rightarrow> WireStepFailure" where
  "export_failure kind message = \<lparr>wf_code = failure_code kind, wf_message = message\<rparr>"

fun failure_kind :: "StepFailureCode \<Rightarrow> StepFailureKind" where
  "failure_kind Code_NodeError = Fail_NodeError"
| "failure_kind Code_NodePanicked = Fail_NodePanicked"
| "failure_kind Code_InvalidOutputs = Fail_InvalidOutputs"
| "failure_kind Code_Cancelled = Fail_Cancelled"
| "failure_kind Code_TimedOut = Fail_TimedOut"
| "failure_kind Code_HostStopped = Fail_HostStopped"
| "failure_kind Code_WorkerLost = Fail_WorkerLost"

definition import_failure :: "WireStepFailure \<Rightarrow> StepFailureKind \<times> string" where
  "import_failure f = (failure_kind (wf_code f), wf_message f)"

section \<open>Graphs\<close>

definition export_output :: "StepOutput \<Rightarrow> WireOutput" where
  "export_output p = \<lparr>wo_instance = so_instance p, wo_port = so_port p\<rparr>"

definition import_output :: "WireOutput \<Rightarrow> StepOutput" where
  "import_output p = StepOutput (wo_instance p) (wo_port p)"

text \<open>A single value is sent as a map of one entry and taken out again.\<close>

definition export_one :: "string \<Rightarrow> StepValue \<Rightarrow> FailureCode + WireValue" where
  "export_one key v = rbind (export_values [(key, v)]) (\<lambda>values. ok_or (bt_get values key) invalid)"

definition import_one :: "string \<Rightarrow> WireValue \<Rightarrow> FailureCode + StepValue" where
  "import_one key w = rbind (import_values [(key, w)]) (\<lambda>values. ok_or (bt_get values key) invalid)"

fun export_source :: "StepSource \<Rightarrow> FailureCode + WireSource" where
  "export_source External = Inr Wire_External"
| "export_source (SameTick p) = Inr (Wire_SameTick (export_output p))"
| "export_source (PreviousTick source initial) =
     rbind (export_one ''initial'' initial) (\<lambda>w. Inr (Wire_PreviousTick (export_output source) w))"

definition export_graph :: "StepGraph \<Rightarrow> FailureCode + WireGraph" where
  "export_graph g =
     rbind (try_map (\<lambda>(input, source). rbind (export_source source) (\<lambda>src.
         Inr \<lparr>wr_instance = si_instance input, wr_port = si_port input, wr_source = src\<rparr>)) (sg_inputs g)) (\<lambda>inputs.
       Inr \<lparr>wg_nodes = map (\<lambda>(i, s). (i, export_schema s)) (sg_nodes g), wg_inputs = inputs\<rparr>)"

fun import_source :: "WireSource \<Rightarrow> FailureCode + StepSource" where
  "import_source Wire_External = Inr External"
| "import_source (Wire_SameTick p) = Inr (SameTick (import_output p))"
| "import_source (Wire_PreviousTick source initial) =
     rbind (import_one ''initial'' initial) (\<lambda>v. Inr (PreviousTick (import_output source) v))"

definition import_route ::
  "WireRoute \<Rightarrow> (StepInput, StepSource) btree \<Rightarrow> FailureCode + (StepInput, StepSource) btree" where
  "import_route route inputs =
     rbind (import_source (wr_source route)) (\<lambda>source.
       let input = StepInput (wr_instance route) (wr_port route) in
       if bt_contains inputs input then Inl invalid else Inr (bt_insert input source inputs))"

definition import_graph :: "WireGraph \<Rightarrow> FailureCode + StepGraph" where
  "import_graph g =
     (if int (length (wg_nodes g)) > MAX_ENTRIES \<or> int (length (wg_inputs g)) > MAX_ENTRIES * MAX_ENTRIES then Inl invalid
      else rbind (try_map (\<lambda>(i, s). rbind (import_schema s) (\<lambda>t. Inr (i, t))) (wg_nodes g)) (\<lambda>nodes.
           rbind (try_for import_route (wg_inputs g) []) (\<lambda>inputs.
             Inr \<lparr>sg_nodes = nodes, sg_inputs = inputs\<rparr>)))"

section \<open>Draft plans\<close>

datatype PlanDraftError = Draft_Message string | Draft_Process FailureCode | Draft_Plan StepPlanError

datatype ProcessStepSeed = Seed_Literal StepValue | Seed_PreparedOutput StepOutput

datatype ProcessStepSource = Draft_External | Draft_SameTick StepOutput | Draft_PreviousTick StepOutput ProcessStepSeed

record ProcessStepPlan =
  psp_nodes :: "(string, StepSchema) btree"
  psp_inputs :: "(StepInput, ProcessStepSource) btree"

text \<open>\<open>SnapshotBudget::charge\<close>: a sum that overflows \<open>usize\<close> is above the limit as well.\<close>

definition charge :: "nat \<Rightarrow> nat \<Rightarrow> PlanDraftError + nat" where
  "charge bytes n = (if int bytes + int n \<le> MAX_RETAINED_BYTES then Inr (bytes + n) else Inl (Draft_Process invalid))"

fun charge_literal :: "StepInput \<times> ProcessStepSource \<Rightarrow> nat \<Rightarrow> PlanDraftError + nat" where
  "charge_literal (_, Draft_PreviousTick _ (Seed_Literal value)) budget = charge budget (length (sv_bytes value))"
| "charge_literal _ budget = Inr budget"

definition literal_budget :: "ProcessStepPlan \<Rightarrow> PlanDraftError + nat" where
  "literal_budget p = try_for charge_literal (psp_inputs p) 0"

definition ensure :: "bool \<Rightarrow> string \<Rightarrow> PlanDraftError + unit" where
  "ensure c message = (if c then Inr () else Inl (Draft_Message message))"

fun seed_type :: "nodes \<Rightarrow> ProcessStepSeed \<Rightarrow> PlanDraftError + StepType" where
  "seed_type nodes (Seed_Literal value) =
     and_then (ensure (int (length (sv_bytes value)) \<le> MAX_VALUE_BYTES) ''oversized initial value'')
       (Inr (sv_step_type value))"
| "seed_type nodes (Seed_PreparedOutput output) =
     ok_or (node_output nodes output) (Draft_Message ''unknown prepared seed output'')"

fun draft_route :: "nodes \<Rightarrow> ProcessStepSource \<Rightarrow> PlanDraftError + PlanRoute" where
  "draft_route nodes Draft_External = Inr \<lparr>plr_output = None, plr_initial = None, plr_same_tick = False\<rparr>"
| "draft_route nodes (Draft_SameTick output) = Inr \<lparr>plr_output = Some output, plr_initial = None, plr_same_tick = True\<rparr>"
| "draft_route nodes (Draft_PreviousTick source initial) =
     rbind (seed_type nodes initial) (\<lambda>ty.
       Inr \<lparr>plr_output = Some source, plr_initial = Some ty, plr_same_tick = False\<rparr>)"

definition plan_validate :: "ProcessStepPlan \<Rightarrow> PlanDraftError + unit" where
  "plan_validate p =
     and_then (ensure (int (length (psp_nodes p)) \<le> MAX_ENTRIES) ''too many nodes'')
    (rbind (literal_budget p) (\<lambda>_.
     rbind (try_map (\<lambda>(input, source). rbind (draft_route (psp_nodes p) source) (\<lambda>r. Inr (input, r))) (psp_inputs p)) (\<lambda>routes.
     rbind (map_err Draft_Plan (validate_routes (psp_nodes p) routes)) (\<lambda>_. Inr ()))))"

type_synonym reports = "(string, StepPreparedReport) btree"

definition report_output :: "reports \<Rightarrow> StepOutput \<Rightarrow> WireValue option" where
  "report_output reports out =
     (case bt_get reports (so_instance out) of None \<Rightarrow> None | Some r \<Rightarrow> bt_get (spr_outputs r) (so_port out))"

fun resolve_seed :: "reports \<Rightarrow> ProcessStepSeed \<Rightarrow> nat \<Rightarrow> PlanDraftError + StepValue \<times> nat" where
  "resolve_seed reports (Seed_Literal value) budget =
     rbind (charge budget (length (sv_bytes value))) (\<lambda>budget. Inr (value, budget))"
| "resolve_seed reports (Seed_PreparedOutput output) budget =
     rbind (ok_or (report_output reports output) (Draft_Message ''missing authorized prepared seed'')) (\<lambda>value.
     rbind (charge budget (length (wv_bytes value))) (\<lambda>budget.
     rbind (map_err Draft_Process (import_one (so_port output) value)) (\<lambda>v. Inr (v, budget))))"

fun resolve_source :: "reports \<Rightarrow> ProcessStepSource \<Rightarrow> nat \<Rightarrow> PlanDraftError + StepSource \<times> nat" where
  "resolve_source reports Draft_External budget = Inr (External, budget)"
| "resolve_source reports (Draft_SameTick source) budget = Inr (SameTick source, budget)"
| "resolve_source reports (Draft_PreviousTick source initial) budget =
     rbind (resolve_seed reports initial budget) (\<lambda>(v, budget). Inr (PreviousTick source v, budget))"

fun resolve_inputs ::
  "reports \<Rightarrow> (StepInput \<times> ProcessStepSource) list \<Rightarrow> nat \<Rightarrow> PlanDraftError + (StepInput \<times> StepSource) list" where
  "resolve_inputs reports [] budget = Inr []"
| "resolve_inputs reports ((input, source) # ins) budget =
     rbind (resolve_source reports source budget) (\<lambda>(src, budget).
     rbind (resolve_inputs reports ins budget) (\<lambda>rest. Inr ((input, src) # rest)))"

definition charge_reports :: "reports \<Rightarrow> PlanDraftError + nat" where
  "charge_reports reports =
     try_for (\<lambda>(_, r). try_for (\<lambda>(_, value) b. charge b (length (wv_bytes value))) (spr_outputs r)) reports 0"

definition plan_resolve :: "ProcessStepPlan \<Rightarrow> reports \<Rightarrow> PlanDraftError + StepGraph" where
  "plan_resolve p reports =
     rbind (charge_reports reports) (\<lambda>budget.
     rbind (resolve_inputs reports (psp_inputs p) budget) (\<lambda>inputs.
       Inr \<lparr>sg_nodes = psp_nodes p, sg_inputs = inputs\<rparr>))"


section \<open>Round trips\<close>

text \<open>What comes back from the wire is the same identity in owned form.\<close>

definition canon_type :: "StepType \<Rightarrow> StepType" where
  "canon_type t = StepType (Owned \<lparr>ot_type_name = st_type_name t, ot_fingerprint = st_fingerprint t, ot_semantics = st_semantics t\<rparr>)"

lemma canon_type_eq [simp]:
  "step_type_eq (canon_type t) u \<longleftrightarrow> step_type_eq t u" "step_type_eq u (canon_type t) \<longleftrightarrow> step_type_eq u t"
  by (simp_all add: step_type_eq_def canon_type_def st_type_name_def st_fingerprint_def st_semantics_def)

definition type_ok :: "StepType \<Rightarrow> bool" where
  "type_ok t \<longleftrightarrow> (\<exists>e. EncodedType_new (st_type_name t) SCHEMA_FINGERPRINT_VERSION (st_fingerprint t) = Inr e)
     \<and> validate_semantics (st_semantics t) = Inr ()"

lemma import_export_type: "type_ok t \<Longrightarrow> import_type (export_type t) = Inr (canon_type t)"
  by (auto simp: type_ok_def import_type_def export_type_def EncodedType_new_def from_encoded_type_def
      StepType_with_semantics_def canon_type_def and_then_def split: if_splits)

lemma try_map_ok: "(\<And>x. x \<in> set xs \<Longrightarrow> f x = Inr (g x)) \<Longrightarrow> try_map f xs = Inr (map g xs)"
  by (induction xs) auto

lemma try_map_Inr: "try_map f xs = Inr ys \<longleftrightarrow> list_all2 (\<lambda>x y. f x = Inr y) xs ys"
  by (induction xs arbitrary: ys) (auto simp: res_simps list_all2_Cons1)

definition canon_ports :: "(string, StepType) btree \<Rightarrow> (string, StepType) btree" where
  "canon_ports = map (\<lambda>(k, t). (k, canon_type t))"

definition ports_ok :: "(string, StepType) btree \<Rightarrow> bool" where
  "ports_ok ports \<longleftrightarrow> int (length ports) \<le> MAX_ENTRIES \<and> (\<forall>(k, t) \<in> set ports. segment k \<and> type_ok t)"

lemma import_export_ports:
  assumes "ports_ok ports"
  shows "import_ports (map (\<lambda>(k, v). (k, export_type v)) ports) = Inr (canon_ports ports)"
proof -
  have "and_then (map_err (\<lambda>_. invalid) (validate_port_name k)) (rbind (import_type (export_type t)) (\<lambda>t. Inr (k, t)))
      = Inr (k, canon_type t)" if "(k, t) \<in> set ports" for k t
    using assms that by (auto simp: ports_ok_def import_export_type validate_port_name_def require_def and_then_def)
  then have "try_map (\<lambda>(name, ty). and_then (map_err (\<lambda>_. invalid) (validate_port_name name)) (rbind (import_type ty) (\<lambda>t. Inr (name, t))))
      (map (\<lambda>(k, v). (k, export_type v)) ports) = Inr (map (\<lambda>(k, t). (k, canon_type t)) ports)"
    by (induction ports) (auto simp: case_prod_beta)
  then show ?thesis
    using assms by (simp add: import_ports_def ports_ok_def canon_ports_def)
qed

definition canon_schema :: "StepSchema \<Rightarrow> StepSchema" where
  "canon_schema s = \<lparr>ss_inputs = canon_ports (ss_inputs s), ss_outputs = canon_ports (ss_outputs s)\<rparr>"

lemma import_export_schema:
  "ports_ok (ss_inputs s) \<Longrightarrow> ports_ok (ss_outputs s) \<Longrightarrow> import_schema (export_schema s) = Inr (canon_schema s)"
  by (simp add: import_schema_def export_schema_def import_export_ports canon_schema_def)

definition canon_value :: "StepValue \<Rightarrow> StepValue" where
  "canon_value v = v\<lparr>sv_step_type := canon_type (sv_step_type v)\<rparr>"

lemma import_export_value:
  assumes "export_value v = Inr w" and "type_ok (sv_step_type v)"
  shows "import_value w = Inr (canon_value v)"
  using assms by (auto simp: export_value_def import_value_def import_export_type from_encoded_def canon_value_def split: if_splits)

lemma import_export_values:
  assumes "export_values vs = Inr ws" and "\<forall>(p, v) \<in> set vs. type_ok (sv_step_type v)"
  shows "import_values ws = Inr (map (\<lambda>(p, v). (p, canon_value v)) vs)"
proof -
  have len: "int (length vs) \<le> MAX_ENTRIES" and all: "list_all2 (\<lambda>x y. (case x of (p, v) \<Rightarrow> rbind (export_value v) (\<lambda>w. Inr (p, w))) = Inr y) vs ws"
    using assms(1) by (auto simp: export_values_def try_map_Inr split: if_splits)
  have "length ws = length vs"
    using list_all2_lengthD [OF all] by simp
  moreover have "try_map (\<lambda>(port, value). rbind (import_value value) (\<lambda>v. Inr (port, v))) ws = Inr (map (\<lambda>(p, v). (p, canon_value v)) vs)"
    using all assms(2)
  proof (induction rule: list_all2_induct)
    case (Cons x xs y ys)
    obtain p v w where "x = (p, v)" "export_value v = Inr w" "y = (p, w)"
      using Cons.hyps(1) by (cases x) (auto simp: res_simps)
    then show ?case
      using Cons.IH Cons.prems import_export_value by auto
  qed simp
  ultimately show ?thesis
    using len by (simp add: import_values_def)
qed

lemma import_export_one:
  assumes "export_one key v = Inr w" and "type_ok (sv_step_type v)"
  shows "import_one key w = Inr (canon_value v)"
proof -
  obtain ws where ws: "export_values [(key, v)] = Inr ws" "bt_get ws key = Some w"
    using assms(1) by (auto simp: export_one_def res_simps)
  then have "ws = [(key, w)]"
    by (auto simp: export_values_def bt_get_def res_simps split: if_splits)
  then show ?thesis
    using import_export_values [OF ws(1)] assms(2) by (simp add: import_one_def bt_get_def)
qed

fun canon_source :: "StepSource \<Rightarrow> StepSource" where
  "canon_source External = External"
| "canon_source (SameTick p) = SameTick p"
| "canon_source (PreviousTick p v) = PreviousTick p (canon_value v)"

fun source_type_ok :: "StepSource \<Rightarrow> bool" where
  "source_type_ok (PreviousTick p v) = type_ok (sv_step_type v)"
| "source_type_ok _ = True"

lemma import_export_source:
  assumes "export_source s = Inr w" and "source_type_ok s"
  shows "import_source w = Inr (canon_source s)"
  using assms
  by (cases s) (auto simp: export_output_def import_output_def res_simps import_export_one)

definition canon_graph :: "StepGraph \<Rightarrow> StepGraph" where
  "canon_graph g = \<lparr>sg_nodes = map (\<lambda>(i, s). (i, canon_schema s)) (sg_nodes g),
     sg_inputs = map (\<lambda>(i, s). (i, canon_source s)) (sg_inputs g)\<rparr>"

text \<open>The graphs that fit the protocol: bounded, with names and assertions its decoder takes.\<close>

definition wire_ok :: "StepGraph \<Rightarrow> bool" where
  "wire_ok g \<longleftrightarrow> int (length (sg_nodes g)) \<le> MAX_ENTRIES \<and> int (length (sg_inputs g)) \<le> MAX_ENTRIES * MAX_ENTRIES
     \<and> (\<forall>(i, s) \<in> set (sg_nodes g). ports_ok (ss_inputs s) \<and> ports_ok (ss_outputs s))
     \<and> (\<forall>(i, s) \<in> set (sg_inputs g). source_type_ok s)"

lemma bt_insert_last: "\<forall>j \<in> fst ` set m. j < k \<Longrightarrow> bt_insert k v m = m @ [(k, v)]"
  by (induction k v m rule: bt_insert.induct) auto

lemma import_routes:
  assumes "list_all2 (\<lambda>(i, s) r. rbind (export_source s) (\<lambda>src.
      Inr \<lparr>wr_instance = si_instance i, wr_port = si_port i, wr_source = src\<rparr>) = (Inr r :: FailureCode + WireRoute)) ins routes"
    and "bt_wf (acc @ map (\<lambda>(i, s). (i, canon_source s)) ins)" and "\<forall>(i, s) \<in> set ins. source_type_ok s"
  shows "try_for import_route routes acc = Inr (acc @ map (\<lambda>(i, s). (i, canon_source s)) ins)"
  using assms
proof (induction arbitrary: acc rule: list_all2_induct)
  case (Cons x ins r routes)
  obtain i s where x: "x = (i, s)"
    by (cases x)
  obtain src where src: "export_source s = Inr src" "r = \<lparr>wr_instance = si_instance i, wr_port = si_port i, wr_source = src\<rparr>"
    using Cons.hyps(1) by (auto simp: x res_simps)
  have less: "\<forall>j \<in> fst ` set acc. j < i"
    using Cons.prems(1) by (auto simp: x bt_wf_def sorted_wrt_append)
  then have fresh: "\<not> bt_contains acc i"
    by (auto simp: bt_contains_iff)
  have "import_route r acc = Inr (acc @ [(i, canon_source s)])"
    using import_export_source [OF src(1)] Cons.prems(2) fresh bt_insert_last [OF less]
    by (simp add: import_route_def src(2) x Let_def)
  moreover have "try_for import_route routes (acc @ [(i, canon_source s)])
      = Inr ((acc @ [(i, canon_source s)]) @ map (\<lambda>(i, s). (i, canon_source s)) ins)"
    by (rule Cons.IH) (use Cons.prems in \<open>auto simp: x\<close>)
  ultimately show ?case
    by (simp add: x)
qed simp

lemma map_keys: "map fst (map (\<lambda>(k, v). (k, f v)) m) = map fst m"
  by (induction m) auto

lemma bt_wf_map: "bt_wf (map (\<lambda>(k, v). (k, f v)) m) \<longleftrightarrow> bt_wf m"
  by (simp only: bt_wf_def map_keys)

lemma import_nodes:
  assumes "\<forall>(i, s) \<in> set ns. ports_ok (ss_inputs s) \<and> ports_ok (ss_outputs s)"
  shows "try_map (\<lambda>(i, s). rbind (import_schema s) (\<lambda>t. Inr (i, t))) (map (\<lambda>(i, s). (i, export_schema s)) ns)
    = Inr (map (\<lambda>(i, s). (i, canon_schema s)) ns)"
  using assms by (induction ns) (auto simp: import_export_schema)

lemma import_export_graph:
  assumes "export_graph g = Inr w" and "wire_ok g" and "bt_wf (sg_inputs g)"
  shows "import_graph w = Inr (canon_graph g)"
proof -
  obtain routes where r: "list_all2 (\<lambda>x y. (case x of (i, s) \<Rightarrow> rbind (export_source s) (\<lambda>src.
      Inr \<lparr>wr_instance = si_instance i, wr_port = si_port i, wr_source = src\<rparr>)) = (Inr y :: FailureCode + WireRoute)) (sg_inputs g) routes"
    and w: "w = \<lparr>wg_nodes = map (\<lambda>(i, s). (i, export_schema s)) (sg_nodes g), wg_inputs = routes\<rparr>"
    using assms(1) by (auto simp: export_graph_def res_simps try_map_Inr)
  have wf: "bt_wf ([] @ map (\<lambda>(i, s). (i, canon_source s)) (sg_inputs g))"
    using assms(3) by (simp only: append_Nil bt_wf_map)
  have "try_for import_route routes [] = Inr ([] @ map (\<lambda>(i, s). (i, canon_source s)) (sg_inputs g))"
  proof (rule import_routes [OF _ wf])
    show "\<forall>(i, s) \<in> set (sg_inputs g). source_type_ok s"
      using assms(2) by (simp add: wire_ok_def)
  qed (rule list_all2_mono [OF r], simp split: prod.splits)
  moreover have "try_map (\<lambda>(i, s). rbind (import_schema s) (\<lambda>t. Inr (i, t))) (map (\<lambda>(i, s). (i, export_schema s)) (sg_nodes g))
      = Inr (map (\<lambda>(i, s). (i, canon_schema s)) (sg_nodes g))"
    using assms(2) by (intro import_nodes) (simp add: wire_ok_def)
  ultimately show ?thesis
    using assms(2) list_all2_lengthD [OF r] by (simp add: import_graph_def w wire_ok_def canon_graph_def)
qed

end
