(* ===== verification/Process_Replay.thy ===== *)
theory Process_Replay
  imports Process_Wire
begin

text \<open>
  The host's side of a step invocation (\<^verbatim>\<open>crates/reiny/src/component/process/step_replay.rs\<close>): the guard
  that reserves each call before user code runs. \<open>call_fits\<close> specifies the calls it lets through, by
  their position in the sequence of accepted calls, and \<open>reserve_all_exact\<close> shows it accepts exactly those.
\<close>

section \<open>The replay guard\<close>

definition U64_MAX :: u64 where "U64_MAX = - 1"

record ReplayGuard =
  rg_session :: StepSessionKey
  rg_epoch :: u64
  rg_order :: "string list"
  rg_assigned :: "string list"
  rg_cursor :: nat
  rg_active_run :: "u64 option"
  rg_progress :: "(string, u64 \<times> Duration \<times> u64 option) btree"

definition list_get :: "'a list \<Rightarrow> nat \<Rightarrow> 'a option" where
  "list_get xs i = (if i < length xs then Some (xs ! i) else None)"

definition ReplayGuard_new :: "BoundSteps \<Rightarrow> nodes \<Rightarrow> FailureCode + ReplayGuard" where
  "ReplayGuard_new bound schemas =
     rbind (map_err (\<lambda>_. invalid) (wire_duration (bs_initial_time bound))) (\<lambda>initial.
       let assigned = filter (\<lambda>i. bt_contains schemas i) (bs_order bound) in
       if assigned = [] then Inl invalid
       else Inr \<lparr>rg_session = bs_session bound, rg_epoch = bs_epoch bound, rg_order = bs_order bound,
         rg_assigned = assigned, rg_cursor = 0, rg_active_run = None,
         rg_progress = map (\<lambda>(i, _). (i, (0, initial, None))) schemas\<rparr>)"

definition reserve :: "InvokeStep \<Rightarrow> ReplayGuard \<Rightarrow> FailureCode + StepTick \<times> ReplayGuard" where
  "reserve invocation g =
     and_then (map_err (\<lambda>_. invalid) (WireTick_validate (is_tick invocation)))
    (let call = is_call invocation; t = is_tick invocation in
     rbind (ok_or (bt_get (rg_progress g) (ck_instance call)) invalid) (\<lambda>(index, time, sequence).
     if ck_session call \<noteq> rg_session g \<or> ck_run_sequence call = U64_MAX \<or> ck_epoch call \<noteq> rg_epoch g
        \<or> wt_epoch t \<noteq> rg_epoch g \<or> ck_tick_index call \<noteq> index \<or> wt_index t \<noteq> index
     then Inl invalid
     else rbind (map_err (\<lambda>_. invalid) (wire_duration (wt_start t))) (\<lambda>start.
     if start \<noteq> time
        \<or> is_some_and (\<lambda>previous. ck_run_sequence call \<le> previous) sequence
        \<or> list_get (rg_order g) (unat (ck_node_ordinal call)) \<noteq> Some (ck_instance call)
        \<or> list_get (rg_assigned g) (rg_cursor g) \<noteq> Some (ck_instance call)
        \<or> rg_cursor g \<noteq> 0 \<and> rg_active_run g \<noteq> Some (ck_run_sequence call)
     then Inl invalid
     else rbind (map_err (\<lambda>_. invalid) (wire_duration (wt_dt t))) (\<lambda>dt.
          rbind (map_err (\<lambda>_. invalid) (wire_duration (wt_end t))) (\<lambda>end_time.
          rbind (ok_or (u64_checked_add index 1) invalid) (\<lambda>index'.
            Inr (\<lparr>tick_id = \<lparr>id_epoch = rg_epoch g, id_index = ck_tick_index call\<rparr>, tick_start = time,
                   tick_dt = dt, tick_end = end_time\<rparr>,
                 g\<lparr>rg_progress := bt_insert (ck_instance call) (index', end_time, Some (ck_run_sequence call)) (rg_progress g),
                   rg_active_run := Some (ck_run_sequence call),
                   rg_cursor := (rg_cursor g + 1) mod length (rg_assigned g)\<rparr>)))))))"

text \<open>The calls a host accepts one after the other, with the ticks its workers are given.\<close>

fun reserve_all :: "InvokeStep list \<Rightarrow> ReplayGuard \<Rightarrow> FailureCode + StepTick list \<times> ReplayGuard" where
  "reserve_all [] g = Inr ([], g)"
| "reserve_all (c # cs) g =
     rbind (reserve c g) (\<lambda>(t, g). rbind (reserve_all cs g) (\<lambda>(ts, g). Inr (t # ts, g)))"

section \<open>What it accepts\<close>

abbreviation run_of :: "InvokeStep \<Rightarrow> u64" where
  "run_of c \<equiv> ck_run_sequence (is_call c)"

definition dur :: "WireDuration \<Rightarrow> Duration" where
  "dur d = \<lparr>dur_secs = wd_secs d, dur_nanos = wd_nanos d\<rparr>"

definition tick_of :: "u64 \<Rightarrow> WireTick \<Rightarrow> StepTick" where
  "tick_of epoch t = \<lparr>tick_id = \<lparr>id_epoch = epoch, id_index = wt_index t\<rparr>, tick_start = dur (wt_start t),
     tick_dt = dur (wt_dt t), tick_end = dur (wt_end t)\<rparr>"

text \<open>The \<open>k\<close>-th call of a host with the nodes \<open>assigned\<close>: node \<open>k mod n\<close> of tick \<open>k div n\<close>, starting where
  that node's preceding tick ended, in one run per tick and later runs for later ticks.\<close>

definition call_fits :: "BoundSteps \<Rightarrow> string list \<Rightarrow> InvokeStep list \<Rightarrow> nat \<Rightarrow> bool" where
  "call_fits bound assigned cs k \<longleftrightarrow> (let c = cs ! k; call = is_call c; t = is_tick c; n = length assigned in
     WireTick_validate t = Inr ()
     \<and> ck_session call = bs_session bound \<and> ck_epoch call = bs_epoch bound \<and> wt_epoch t = bs_epoch bound
     \<and> ck_run_sequence call \<noteq> U64_MAX
     \<and> unat (ck_tick_index call) = k div n \<and> wt_index t = ck_tick_index call
     \<and> ck_instance call = assigned ! (k mod n)
     \<and> list_get (bs_order bound) (unat (ck_node_ordinal call)) = Some (ck_instance call)
     \<and> dur (wt_start t) = (if k < n then dur (bs_initial_time bound) else dur (wt_end (is_tick (cs ! (k - n)))))
     \<and> (k \<ge> n \<longrightarrow> run_of (cs ! (k - n)) < run_of c)
     \<and> (k mod n \<noteq> 0 \<longrightarrow> run_of c = run_of (cs ! (k - 1))))"

text \<open>The last accepted call of node \<open>i\<close> before the \<open>k\<close>-th call.\<close>

definition last_call :: "nat \<Rightarrow> nat \<Rightarrow> nat \<Rightarrow> nat option" where
  "last_call n k i = (if i < k mod n then Some (k div n * n + i)
     else if k < n then None else Some ((k div n - 1) * n + i))"

lemma last_call_0: "last_call n 0 i = None \<or> n = 0"
  by (auto simp: last_call_def)

lemma last_call_now:
  assumes "0 < n"
  shows "last_call n k (k mod n) = (if k < n then None else Some (k - n))"
proof -
  have "(k div n - 1) * n + k mod n = k - n" if "\<not> k < n"
  proof -
    have "k div n \<noteq> 0"
      using that assms by (simp add: div_eq_0_iff)
    then obtain q where "k div n = Suc q"
      by (cases "k div n") simp_all
    then show ?thesis
      using div_mult_mod_eq [of k n] by simp
  qed
  then show ?thesis
    by (simp add: last_call_def)
qed

lemma last_call_Suc:
  assumes "i < n"
  shows "last_call n (Suc k) i = (if i = k mod n then Some k else last_call n k i)"
proof (cases "Suc (k mod n) = n")
  case True
  then have "Suc k mod n = 0" "Suc k div n = Suc (k div n)" "\<not> Suc k < n"
    using assms by (auto simp: mod_Suc div_Suc)
  then show ?thesis
    using assms True div_mult_mod_eq [of k n] by (auto simp: last_call_def)
next
  case False
  then have "Suc k mod n = Suc (k mod n)" "Suc k div n = k div n"
    by (auto simp: mod_Suc div_Suc)
  moreover have "Suc k < n \<longleftrightarrow> k < n"
    using False by (metis Suc_lessD Suc_lessI mod_less)
  ultimately show ?thesis
    using assms div_mult_mod_eq [of k n] by (auto simp: last_call_def)
qed

lemma wire_duration_Inr: "wire_duration d = Inr e \<longleftrightarrow> wd_nanos d < 1000000000 \<and> e = dur d"
  by (auto simp: wire_duration_def dur_def not_less)

lemma unat_U64_MAX [simp]: "unat U64_MAX = 18446744073709551615"
  unfolding U64_MAX_def by (simp add: unsigned_minus_1_eq_mask mask_eq_exp_minus_1)

lemma u64_checked_add_MAX: "u64_checked_add i 1 = None \<longleftrightarrow> i = U64_MAX"
  using unat_lt [of i] by (auto simp: u64_checked_add_def word_unat_eq_iff)

lemma WireTick_validate_Inr:
  "WireTick_validate t = Inr () \<longleftrightarrow> wd_nanos (wt_dt t) < 1000000000 \<and> wd_nanos (wt_start t) < 1000000000
     \<and> wd_nanos (wt_end t) < 1000000000 \<and> \<not> duration_is_zero (dur (wt_dt t))
     \<and> duration_checked_add (dur (wt_start t)) (dur (wt_dt t)) = Some (dur (wt_end t)) \<and> wt_index t \<noteq> U64_MAX"
proof -
  have "(\<exists>j. u64_checked_add i 1 = Some j) \<longleftrightarrow> i \<noteq> U64_MAX" for i :: u64
    using u64_checked_add_MAX [of i] by (metis not_None_eq)
  then show ?thesis
    by (auto simp: WireTick_validate_def res_simps wire_duration_Inr split: if_splits)
qed

lemma reserve_Inr:
  "reserve c g = Inr (t, g') \<longleftrightarrow> (\<exists>index time sequence.
     bt_get (rg_progress g) (ck_instance (is_call c)) = Some (index, time, sequence)
     \<and> WireTick_validate (is_tick c) = Inr ()
     \<and> ck_session (is_call c) = rg_session g \<and> run_of c \<noteq> U64_MAX \<and> ck_epoch (is_call c) = rg_epoch g
     \<and> wt_epoch (is_tick c) = rg_epoch g \<and> ck_tick_index (is_call c) = index \<and> wt_index (is_tick c) = index
     \<and> dur (wt_start (is_tick c)) = time \<and> is_none_or (\<lambda>previous. previous < run_of c) sequence
     \<and> list_get (rg_order g) (unat (ck_node_ordinal (is_call c))) = Some (ck_instance (is_call c))
     \<and> list_get (rg_assigned g) (rg_cursor g) = Some (ck_instance (is_call c))
     \<and> (rg_cursor g \<noteq> 0 \<longrightarrow> rg_active_run g = Some (run_of c))
     \<and> t = tick_of (rg_epoch g) (is_tick c)
     \<and> g' = g\<lparr>rg_progress := bt_insert (ck_instance (is_call c)) (index + 1, dur (wt_end (is_tick c)), Some (run_of c)) (rg_progress g),
         rg_active_run := Some (run_of c), rg_cursor := (rg_cursor g + 1) mod length (rg_assigned g)\<rparr>)"
  (is "?L \<longleftrightarrow> ?R")
proof -
  have add: "u64_checked_add i 1 = Some j \<longleftrightarrow> i \<noteq> U64_MAX \<and> j = i + 1" for i j :: u64
    using u64_checked_add_MAX [of i] by (auto simp: u64_checked_add_def split: if_splits)
  have neg: "is_some_and (\<lambda>previous. r \<le> previous) o' \<longleftrightarrow> \<not> is_none_or (\<lambda>previous. previous < r) o'" for r :: u64 and o'
    by (cases o') auto
  show ?thesis
  proof (cases "WireTick_validate (is_tick c) = Inr ()")
    case True
    then have wf: "wire_duration (wt_start (is_tick c)) = Inr (dur (wt_start (is_tick c)))"
      "wire_duration (wt_dt (is_tick c)) = Inr (dur (wt_dt (is_tick c)))"
      "wire_duration (wt_end (is_tick c)) = Inr (dur (wt_end (is_tick c)))" "wt_index (is_tick c) \<noteq> U64_MAX"
      by (simp_all add: WireTick_validate_Inr wire_duration_Inr)
    show ?thesis
    proof (cases "bt_get (rg_progress g) (ck_instance (is_call c))")
      case (Some p)
      then show ?thesis
        using True wf by (cases p) (auto simp: reserve_def Let_def res_simps add neg tick_of_def)
    qed (use True in \<open>simp add: reserve_def Let_def and_then_def\<close>)
  qed (auto simp: reserve_def and_then_def res_simps)
qed

section \<open>The guard after the accepted calls\<close>

fun call_progress :: "BoundSteps \<Rightarrow> nat \<Rightarrow> InvokeStep list \<Rightarrow> nat option \<Rightarrow> u64 \<times> Duration \<times> u64 option" where
  "call_progress bound n cs None = (0, dur (bs_initial_time bound), None)"
| "call_progress bound n cs (Some j) = (word_of_nat (j div n) + 1, dur (wt_end (is_tick (cs ! j))), Some (run_of (cs ! j)))"

definition guard_at_call :: "BoundSteps \<Rightarrow> string list \<Rightarrow> InvokeStep list \<Rightarrow> nat \<Rightarrow> ReplayGuard \<Rightarrow> bool" where
  "guard_at_call bound assigned cs k g \<longleftrightarrow> rg_session g = bs_session bound \<and> rg_epoch g = bs_epoch bound
     \<and> rg_order g = bs_order bound \<and> rg_assigned g = assigned \<and> rg_cursor g = k mod length assigned
     \<and> (k \<noteq> 0 \<longrightarrow> rg_active_run g = Some (run_of (cs ! (k - 1)))) \<and> bt_wf (rg_progress g)
     \<and> (\<forall>i < length assigned. bt_get (rg_progress g) (assigned ! i)
          = Some (call_progress bound (length assigned) cs (last_call (length assigned) k i)))"

lemma guard_new:
  assumes "ReplayGuard_new bound schemas = Inr g" and "bt_wf schemas"
  shows "rg_assigned g = filter (bt_contains schemas) (bs_order bound)" and "rg_assigned g \<noteq> []"
    and "guard_at_call bound (rg_assigned g) cs 0 g"
proof -
  define assigned where "assigned = filter (bt_contains schemas) (bs_order bound)"
  obtain "assigned \<noteq> []" and g: "g = \<lparr>rg_session = bs_session bound, rg_epoch = bs_epoch bound, rg_order = bs_order bound,
      rg_assigned = assigned, rg_cursor = 0, rg_active_run = None,
      rg_progress = map (\<lambda>(i, _). (i, (0, dur (bs_initial_time bound), None))) schemas\<rparr>"
    using assms(1) by (auto simp: ReplayGuard_new_def assigned_def res_simps wire_duration_Inr Let_def split: if_splits)
  then show "rg_assigned g = filter (bt_contains schemas) (bs_order bound)" "rg_assigned g \<noteq> []"
    by (simp_all add: assigned_def)
  have wf: "bt_wf (rg_progress g)"
    using assms(2) bt_wf_map [of "\<lambda>_. (0, dur (bs_initial_time bound), None)" schemas] by (simp add: g)
  have "bt_get (rg_progress g) i = Some (0, dur (bs_initial_time bound), None)" if "i \<in> set assigned" for i
    using that bt.get_Some_iff [OF wf] by (force simp: g assigned_def bt_contains_iff)
  moreover have "last_call (length assigned) 0 i = None" if "i < length assigned" for i
    using that by (auto simp: last_call_def)
  ultimately show "guard_at_call bound (rg_assigned g) cs 0 g"
    using wf by (simp add: guard_at_call_def g)
qed

lemma expected_progress:
  assumes "n \<noteq> 0" and fits: "k \<ge> n \<Longrightarrow> call_fits bound assigned cs (k - n)" and n: "n = length assigned"
  shows "call_progress bound n cs (last_call n k (k mod n))
      = (word_of_nat (k div n), if k < n then dur (bs_initial_time bound) else dur (wt_end (is_tick (cs ! (k - n)))),
         if k < n then None else Some (run_of (cs ! (k - n))))" and "k div n < 2 ^ 64"
proof -
  have div: "k div n = Suc ((k - n) div n)" if "\<not> k < n"
    using that assms(1) by (simp add: le_div_geq not_less)
  then show "call_progress bound n cs (last_call n k (k mod n))
      = (word_of_nat (k div n), if k < n then dur (bs_initial_time bound) else dur (wt_end (is_tick (cs ! (k - n)))),
         if k < n then None else Some (run_of (cs ! (k - n))))"
    using assms(1) by (simp add: last_call_now add.commute)
  show "k div n < 2 ^ 64"
  proof (cases "k < n")
    case False
    define i where "i = wt_index (is_tick (cs ! (k - n)))"
    have "i \<noteq> U64_MAX" "unat i = (k - n) div n"
      using fits False n by (auto simp: call_fits_def Let_def WireTick_validate_Inr i_def)
    then have "Suc ((k - n) div n) < 2 ^ 64"
      using unat_lt [of i] by (auto simp: word_unat_eq_iff)
    with div False show ?thesis
      by simp
  qed simp
qed

lemma reserve_step:
  assumes "guard_at_call bound assigned cs k g" and "assigned \<noteq> []" and "distinct assigned"
    and "\<forall>j < k. call_fits bound assigned cs j"
  shows "(\<exists>g'. reserve (cs ! k) g = Inr (t, g')) \<longleftrightarrow> call_fits bound assigned cs k \<and> t = tick_of (bs_epoch bound) (is_tick (cs ! k))"
    and "reserve (cs ! k) g = Inr (t, g') \<Longrightarrow> guard_at_call bound assigned cs (Suc k) g'"
proof -
  define n where "n = length assigned"
  define c where "c = cs ! k"
  have n: "n \<noteq> 0"
    using assms(2) by (simp add: n_def)
  have fits: "call_fits bound assigned cs (k - n)" if "k \<ge> n"
    using assms(4) n that by simp
  have g: "rg_session g = bs_session bound" "rg_epoch g = bs_epoch bound" "rg_order g = bs_order bound"
    "rg_assigned g = assigned" "rg_cursor g = k mod n" "k \<noteq> 0 \<Longrightarrow> rg_active_run g = Some (run_of (cs ! (k - 1)))" "bt_wf (rg_progress g)"
    and get: "\<And>i. i < n \<Longrightarrow> bt_get (rg_progress g) (assigned ! i) = Some (call_progress bound n cs (last_call n k i))"
    using assms(1) by (simp_all add: guard_at_call_def n_def)
  have now: "bt_get (rg_progress g) (assigned ! (k mod n)) = Some (word_of_nat (k div n),
      if k < n then dur (bs_initial_time bound) else dur (wt_end (is_tick (cs ! (k - n)))),
      if k < n then None else Some (run_of (cs ! (k - n))))" and small: "k div n < 2 ^ 64"
    using get [of "k mod n"] expected_progress [OF n fits n_def] n by simp_all
  have index: "i = word_of_nat (k div n) \<longleftrightarrow> unat i = k div n" for i :: u64
    using small by (auto simp: unat_of_nat word_unat_eq_iff)
  have here: "list_get assigned (k mod n) = Some i \<longleftrightarrow> i = assigned ! (k mod n)" for i
    using n by (auto simp: list_get_def n_def)
  have active: "rg_active_run g = Some (run_of (cs ! (k - 1)))" if "k mod n \<noteq> 0"
    using g(6) that by (cases k) auto
  define g1 where "g1 = g\<lparr>rg_progress := bt_insert (assigned ! (k mod n)) (word_of_nat (k div n) + 1, dur (wt_end (is_tick c)), Some (run_of c)) (rg_progress g),
         rg_active_run := Some (run_of c), rg_cursor := (k mod n + 1) mod n\<rparr>"
  have eq: "reserve c g = Inr (t, h) \<longleftrightarrow> call_fits bound assigned cs k \<and> t = tick_of (bs_epoch bound) (is_tick c) \<and> h = g1" for h
  proof (cases "ck_instance (is_call c) = assigned ! (k mod n)")
    case True
    then show ?thesis
      unfolding reserve_Inr call_fits_def Let_def n_def [symmetric] c_def [symmetric] g True now here g1_def
      using active index [of "ck_tick_index (is_call c)"] by (cases "k < n"; cases "k mod n = 0") auto
  next
    case False
    then show ?thesis
      unfolding reserve_Inr call_fits_def Let_def n_def [symmetric] c_def [symmetric] g here by simp
  qed
  then show "(\<exists>g'. reserve (cs ! k) g = Inr (t, g')) \<longleftrightarrow> call_fits bound assigned cs k \<and> t = tick_of (bs_epoch bound) (is_tick (cs ! k))"
    by (simp add: c_def)
  assume "reserve (cs ! k) g = Inr (t, g')"
  then have g': "g' = g1"
    using eq [of g'] unfolding c_def by blast
  have "bt_get (rg_progress g') (assigned ! i) = Some (call_progress bound n cs (last_call n (Suc k) i))" if "i < n" for i
    using that get [OF that] g(7) nth_eq_iff_index_eq [OF assms(3), of i "k mod n"] n
    by (auto simp: g' g1_def bt_get_insert last_call_Suc n_def c_def)
  then show "guard_at_call bound assigned cs (Suc k) g'"
    using g by (simp add: guard_at_call_def n_def [symmetric] g' g1_def c_def mod_Suc_eq)
qed

lemma reserve_from:
  assumes "guard_at_call bound assigned cs k g" and "assigned \<noteq> []" and "distinct assigned"
    and "\<forall>j < k. call_fits bound assigned cs j" and "k \<le> length cs"
  shows "(\<exists>g'. reserve_all (drop k cs) g = Inr (ts, g')) \<longleftrightarrow>
    (\<forall>j < length cs. call_fits bound assigned cs j) \<and> ts = map (\<lambda>c. tick_of (bs_epoch bound) (is_tick c)) (drop k cs)"
  using assms(1,4,5)
proof (induction "length cs - k" arbitrary: k g ts)
  case 0
  then show ?case
    by auto
next
  case (Suc m)
  then have k: "k < length cs" and drop: "drop k cs = cs ! k # drop (Suc k) cs"
    by (simp_all add: Cons_nth_drop_Suc)
  note step = reserve_step [OF Suc.prems(1) assms(2,3) Suc.prems(2)]
  show ?case
  proof (cases "call_fits bound assigned cs k")
    case True
    then obtain g1 where g1: "reserve (cs ! k) g = Inr (tick_of (bs_epoch bound) (is_tick (cs ! k)), g1)"
      using step(1) by blast
    have "(\<exists>g'. reserve_all (drop (Suc k) cs) g1 = Inr (us, g')) \<longleftrightarrow>
        (\<forall>j < length cs. call_fits bound assigned cs j) \<and> us = map (\<lambda>c. tick_of (bs_epoch bound) (is_tick c)) (drop (Suc k) cs)" for us
      using Suc.hyps(1) [of "Suc k" g1 us] Suc.hyps(2) step(2) [OF g1] Suc.prems(2) True k by (auto simp: less_Suc_eq)
    then show ?thesis
      by (auto simp: drop g1 res_simps)
  next
    case False
    then have "\<nexists>g'. reserve_all (drop k cs) g = Inr (ts, g')"
      using step(1) by (auto simp: drop res_simps)
    then show ?thesis
      using False k by auto
  qed
qed

lemma reserve_all_exact:
  assumes "ReplayGuard_new bound schemas = Inr g" and "bt_wf schemas" and "distinct (bs_order bound)"
  shows "(\<exists>g'. reserve_all cs g = Inr (ts, g')) \<longleftrightarrow>
    (\<forall>k < length cs. call_fits bound (rg_assigned g) cs k) \<and> ts = map (\<lambda>c. tick_of (bs_epoch bound) (is_tick c)) cs"
  using reserve_from [OF guard_new(3,2) [OF assms(1,2)], of cs ts] guard_new(1) [OF assms(1,2)] assms(3) by simp

end
