(* ===== verification/Process_Admission.thy ===== *)
theory Process_Admission
  imports Process_Replay Step_Gate
begin

text \<open>
  Admission of a step graph over processes, both sides: the host's registry
  (\<^verbatim>\<open>crates/reiny/src/component/process.rs\<close>), the assignments the owner makes and a host accepts
  (\<^verbatim>\<open>process/step_owner/admission.rs\<close>, \<^verbatim>\<open>process/steps.rs\<close>), the plan the owner binds
  (\<^verbatim>\<open>process/step_owner.rs\<close>) and the check a host makes of it (\<^verbatim>\<open>process/steps/admission.rs\<close>). JSON and
  SHA-256 are crates: \<open>to_vec\<close> and \<open>sha256\<close> are arguments. Of an ordinary assignment the functions below
  read its implementation and its bindings.
\<close>

section \<open>Registries and assignments\<close>

record FactoryRegistration =
  fr_factory :: string
  fr_revision :: string

record ComponentAssignment =
  ca_implementation :: FactoryRegistration
  ca_bindings :: ModuleBindings

abbreviation ca_namespace :: "ComponentAssignment \<Rightarrow> string" where
  "ca_namespace a \<equiv> mb_namespace (ca_bindings a)"

record StepAssignment =
  sa_schema :: WireSchema
  sa_contract :: bytes
  sa_seed_outputs :: "string set"

text \<open>The registry without the factories themselves, which run user code.\<close>

record ProcessRegistry =
  pr_revisions :: "(string, string) btree"
  pr_steps :: "(string, StepSchema) btree"
  pr_seed_outputs :: "(string, string set) btree"

definition registry_new :: ProcessRegistry where
  "registry_new = \<lparr>pr_revisions = [], pr_steps = [], pr_seed_outputs = []\<rparr>"

definition register_step :: "FactoryRegistration \<Rightarrow> StepSchema \<Rightarrow> ProcessRegistry \<Rightarrow> FailureCode + ProcessRegistry" where
  "register_step implementation schema r =
     (if fr_factory implementation = '''' \<or> fr_revision implementation = ''''
         \<or> bt_contains (pr_revisions r) (fr_factory implementation) then Inl Factory_absent
      else rbind (import_schema (export_schema schema)) (\<lambda>_.
        Inr (r\<lparr>pr_revisions := bt_insert (fr_factory implementation) (fr_revision implementation) (pr_revisions r),
               pr_steps := bt_insert (fr_factory implementation) schema (pr_steps r)\<rparr>)))"

definition register_step_prepared ::
  "FactoryRegistration \<Rightarrow> StepSchema \<Rightarrow> string set \<Rightarrow> ProcessRegistry \<Rightarrow> FailureCode + ProcessRegistry" where
  "register_step_prepared implementation schema seed_outputs r =
     (if \<not> seed_outputs \<subseteq> fst ` set (ss_outputs schema) then Inl Assignment_invalid
      else rbind (register_step implementation schema r) (\<lambda>r.
        Inr (r\<lparr>pr_seed_outputs := bt_insert (fr_factory implementation) seed_outputs (pr_seed_outputs r)\<rparr>)))"

definition registrations :: "ProcessRegistry \<Rightarrow> FactoryRegistration list" where
  "registrations r = map (\<lambda>(f, v). \<lparr>fr_factory = f, fr_revision = v\<rparr>) (pr_revisions r)"

text \<open>The factories an owner requires of a host are registered there at the same revision
  (\<open>steps::authenticate\<close>, after the compatibility check).\<close>

definition check_required :: "ProcessRegistry \<Rightarrow> FactoryRegistration list \<Rightarrow> FailureCode + FactoryRegistration list" where
  "check_required r required =
     (if required = [] \<or> card (set required) \<noteq> length required
         \<or> list_ex (\<lambda>f. bt_get (pr_revisions r) (fr_factory f) \<noteq> Some (fr_revision f)) required
      then Inl Factory_absent else Inr required)"

definition host_validate_assignments ::
  "ComponentAssignment list \<Rightarrow> (string, StepAssignment) btree \<Rightarrow> ProcessRegistry \<Rightarrow> FailureCode + unit" where
  "host_validate_assignments ordinary assignments r =
     (let expected = bt_extend [] (List.map_filter (\<lambda>a. map_option (\<lambda>s. (ca_namespace a, export_schema s))
            (bt_get (pr_steps r) (fr_factory (ca_implementation a)))) ordinary)
      in if assignments = [] \<or> int (length assignments) > MAX_ENTRIES \<or> length assignments \<noteq> length expected
            \<or> list_ex (\<lambda>(i, a). bt_get expected i \<noteq> Some (sa_schema a) \<or> int (length (sa_contract a)) > MAX_VALUE_BYTES
                \<or> \<not> sa_seed_outputs a \<subseteq> fst ` set (wsc_outputs (sa_schema a))) assignments
         then Inl Assignment_invalid
         else if list_ex (\<lambda>a. case bt_get assignments (ca_namespace a) of
             None \<Rightarrow> False
           | Some s \<Rightarrow> \<not> (case bt_get (pr_seed_outputs r) (fr_factory (ca_implementation a)) of
               None \<Rightarrow> sa_seed_outputs s = {} | Some allowed \<Rightarrow> sa_seed_outputs s \<subseteq> allowed)) ordinary
         then Inl Assignment_invalid
         else Inr ())"

text \<open>The schemas of the step nodes a host runs, by namespace (\<open>steps::serve\<close>).\<close>

definition host_schemas :: "ProcessRegistry \<Rightarrow> ComponentAssignment list \<Rightarrow> nodes" where
  "host_schemas r ordinary = bt_extend [] (List.map_filter (\<lambda>a. map_option (Pair (ca_namespace a))
     (bt_get (pr_steps r) (fr_factory (ca_implementation a)))) ordinary)"

section \<open>The owner's assignments\<close>

record ProcessStepPeer =
  pp_identity :: SessionIdentity
  pp_assignments :: "ComponentAssignment list"
  pp_steps :: "(string, StepAssignment) btree"

definition place_instance :: "ComponentAssignment \<Rightarrow> string set \<times> string set \<Rightarrow> PlanDraftError + string set \<times> string set" where
  "place_instance a st = (case st of (all_instances, host_instances) \<Rightarrow>
     and_then (ensure (ca_namespace a \<notin> all_instances) ''duplicate instance'')
       (Inr (insert (ca_namespace a) all_instances, insert (ca_namespace a) host_instances)))"

definition place_step ::
  "nodes \<Rightarrow> string set \<Rightarrow> string \<times> StepAssignment \<Rightarrow> (string, StepAssignment) btree \<Rightarrow> PlanDraftError + (string, StepAssignment) btree" where
  "place_step nodes host_instances step assigned = (case step of (i, a) \<Rightarrow>
     and_then (ensure (i \<in> host_instances \<and> \<not> bt_contains assigned i) ''step assignment mismatch'')
    (and_then (ensure (is_some_and (\<lambda>schema. export_schema schema = sa_schema a) (bt_get nodes i)) ''assigned schema mismatch'')
    (rbind (map_err Draft_Process (import_schema (sa_schema a))) (\<lambda>_. Inr (bt_insert i a assigned)))))"

definition place_peer ::
  "nodes \<Rightarrow> StepSessionKey \<Rightarrow> ProcessStepPeer \<Rightarrow> (string, StepAssignment) btree \<times> string set \<times> string set
    \<Rightarrow> PlanDraftError + (string, StepAssignment) btree \<times> string set \<times> string set" where
  "place_peer nodes key peer st = (case st of (assigned, all_instances, hosts) \<Rightarrow>
     and_then (ensure (si_owner_generation (pp_identity peer) = sk_owner_generation key
         \<and> si_graph_generation (pp_identity peer) = sk_graph_generation key
         \<and> si_graph_digest (pp_identity peer) = sk_graph_digest key) ''session mismatch'')
    (and_then (ensure (si_host_id (pp_identity peer) \<notin> hosts) ''duplicate host'')
    (rbind (try_for place_instance (pp_assignments peer) (all_instances, {})) (\<lambda>(all_instances, host_instances).
     rbind (try_for (place_step nodes host_instances) (pp_steps peer) assigned) (\<lambda>assigned.
       Inr (assigned, all_instances, insert (si_host_id (pp_identity peer)) hosts))))))"

definition seed_authorized :: "(string, StepAssignment) btree \<Rightarrow> StepInput \<times> ProcessStepSource \<Rightarrow> unit \<Rightarrow> PlanDraftError + unit" where
  "seed_authorized assigned ns _ = (case snd ns of
     Draft_PreviousTick _ (Seed_PreparedOutput output) \<Rightarrow>
       ensure (is_some_and (\<lambda>a. so_port output \<in> sa_seed_outputs a) (bt_get assigned (so_instance output))) ''unauthorized prepared seed''
   | _ \<Rightarrow> Inr ())"

definition validate_assignments :: "ProcessStepPeer list \<Rightarrow> ProcessStepPlan \<Rightarrow> StepSessionKey \<Rightarrow> PlanDraftError + unit" where
  "validate_assignments peers plan key =
     rbind (plan_validate plan) (\<lambda>_.
     rbind (try_for (place_peer (psp_nodes plan) key) peers ([], {}, {})) (\<lambda>(assigned, _, _).
     and_then (ensure (length assigned = length (psp_nodes plan)) ''incomplete placement'')
       (try_for (seed_authorized assigned) (psp_inputs plan) ())))"

section \<open>Binding\<close>

definition plan_digest ::
  "(WireGraph \<times> WireDuration \<Rightarrow> bytes option) \<Rightarrow> (bytes \<Rightarrow> string) \<Rightarrow> WireGraph \<Rightarrow> WireDuration \<Rightarrow> FailureCode + string" where
  "plan_digest to_vec sha256 graph initial_time = (case to_vec (graph, initial_time) of
     None \<Rightarrow> Inl MalformedMessage
   | Some out \<Rightarrow> if int (length out) > uint MAX_FRAME_BYTES then Inl MalformedMessage else Inr (sha256 out))"

definition usize_checked_add :: "nat \<Rightarrow> nat \<Rightarrow> nat option" where
  "usize_checked_add a b = (if a + b < 2 ^ 64 then Some (a + b) else None)"

text \<open>The overflow test on integers, so that evaluation stays in binary.\<close>

lemma usize_checked_add_code [code]: "usize_checked_add a b = (if int a + int b < 2 ^ 64 then Some (a + b) else None)"
  by (simp add: usize_checked_add_def)

text \<open>The bytes of the values a session starts from.\<close>

fun bootstrap_bytes :: "(StepInput \<times> StepSource) list \<Rightarrow> nat \<Rightarrow> nat option" where
  "bootstrap_bytes [] bytes = Some bytes"
| "bootstrap_bytes ((_, PreviousTick _ initial) # inputs) bytes =
     Option.bind (usize_checked_add bytes (length (sv_bytes initial))) (bootstrap_bytes inputs)"
| "bootstrap_bytes (_ # inputs) bytes = bootstrap_bytes inputs bytes"

text \<open>The part of \<open>ProcessStepOwner::prepare\<close> between the resolved graph and the barrier: the scheduler of
  the session, the message every host is bound with, and the bytes of the first tick's delayed inputs. A
  compiled order is not empty, so its length has a predecessor.\<close>

definition owner_bind ::
  "(WireGraph \<times> WireDuration \<Rightarrow> bytes option) \<Rightarrow> (bytes \<Rightarrow> string) \<Rightarrow> StepSessionKey \<Rightarrow> StepGraph \<Rightarrow> Duration \<Rightarrow> u64
    \<Rightarrow> (PlanDraftError + StepScheduler \<times> BoundSteps \<times> nat) \<times> u64" where
  "owner_bind to_vec sha256 key graph initial_time NEXT_EPOCH =
     (case rbind (map_err Draft_Plan (Plan_compile graph)) (\<lambda>plan.
           rbind (map_err Draft_Process (export_graph graph)) (\<lambda>wire_graph.
           rbind (map_err Draft_Process (plan_digest to_vec sha256 wire_graph (duration_wire initial_time))) (\<lambda>digest.
           rbind (ok_or (bootstrap_bytes (sg_inputs graph) 0) (Draft_Process Assignment_invalid)) (\<lambda>bootstrap.
           and_then (ensure (int (length (plan_order plan)) - 1 < 2 ^ 32) ''out of range integral type conversion attempted'')
             (Inr (plan, wire_graph, key\<lparr>sk_plan_digest := digest\<rparr>, bootstrap)))))) of
        Inl e \<Rightarrow> (Inl e, NEXT_EPOCH)
      | Inr (plan, wire_graph, key, bootstrap) \<Rightarrow>
          (case StepScheduler_new graph initial_time NEXT_EPOCH of
             (Inl e, n) \<Rightarrow> (Inl (Draft_Plan e), n)
           | (Inr s, n) \<Rightarrow>
               (Inr (s, \<lparr>bs_session = key, bs_epoch = cs_epoch (sched_clock s), bs_initial_time = duration_wire initial_time,
                         bs_order = plan_order plan, bs_graph = wire_graph\<rparr>, bootstrap), n)))"

text \<open>\<open>PartialEq\<close> of schemas compares the identities of their ports.\<close>

definition ports_eq :: "(string, StepType) btree \<Rightarrow> (string, StepType) btree \<Rightarrow> bool" where
  "ports_eq = list_all2 (\<lambda>(k, t) (j, u). k = j \<and> step_type_eq t u)"

definition schema_eq :: "StepSchema \<Rightarrow> StepSchema \<Rightarrow> bool" where
  "schema_eq a b \<longleftrightarrow> ports_eq (ss_inputs a) (ss_inputs b) \<and> ports_eq (ss_outputs a) (ss_outputs b)"

definition host_bind ::
  "(WireGraph \<times> WireDuration \<Rightarrow> bytes option) \<Rightarrow> (bytes \<Rightarrow> string) \<Rightarrow> SessionIdentity \<Rightarrow> nodes \<Rightarrow> BoundSteps
    \<Rightarrow> FailureCode + BoundSteps" where
  "host_bind to_vec sha256 identity schemas bound =
     rbind (import_graph (bs_graph bound)) (\<lambda>graph.
     rbind (map_err (\<lambda>_. Assignment_invalid) (Plan_compile graph)) (\<lambda>validated.
     if sk_owner_generation (bs_session bound) \<noteq> si_owner_generation identity
        \<or> sk_graph_generation (bs_session bound) \<noteq> si_graph_generation identity
        \<or> sk_graph_digest (bs_session bound) \<noteq> si_graph_digest identity
        \<or> int (length (bs_order bound)) > MAX_ENTRIES
        \<or> card (set (bs_order bound)) \<noteq> length (bs_order bound)
        \<or> list_ex (\<lambda>(i, _). i \<notin> set (bs_order bound)) schemas
        \<or> list_ex (\<lambda>(i, schema). is_none_or (\<lambda>s. \<not> schema_eq s schema) (bt_get (sg_nodes graph) i)) schemas
        \<or> plan_order validated \<noteq> bs_order bound
     then Inl Assignment_invalid
     else rbind (plan_digest to_vec sha256 (bs_graph bound) (bs_initial_time bound)) (\<lambda>digest.
     if digest \<noteq> sk_plan_digest (bs_session bound) then Inl Assignment_invalid
     else rbind (map_err (\<lambda>_. Assignment_invalid) (wire_duration (bs_initial_time bound))) (\<lambda>_. Inr bound))))"

section \<open>Exported graphs compile alike\<close>

lemma bt_get_canon: "bt_get (map (\<lambda>(k, v). (k, f v)) m) k = map_option f (bt_get m k)"
  by (induction m) (auto simp: bt_get_def)

lemma canon_node:
  "node_input (sg_nodes (canon_graph g)) i = map_option canon_type (node_input (sg_nodes g) i)"
  "node_output (sg_nodes (canon_graph g)) out = map_option canon_type (node_output (sg_nodes g) out)"
  by (simp_all add: canon_graph_def node_input_def node_output_def bt_get_canon canon_schema_def canon_ports_def
      split: option.splits)

lemma canon_wired: "wired (sg_nodes (canon_graph g)) (i, canon_source s) \<longleftrightarrow> wired (sg_nodes g) (i, s)"
  by (cases s) (auto simp: wired_def output_typed_def canon_node canon_value_def)

lemma canon_keys: "fst ` set (map (\<lambda>(k, v). (k, f v)) m) = fst ` set m"
  by force

lemma canon_ports_keys: "fst ` set (canon_ports m) = fst ` set m"
  unfolding canon_ports_def by (rule canon_keys)

lemma canon_node_ok: "node_ok (sg_inputs (canon_graph g)) (i, canon_schema s) \<longleftrightarrow> node_ok (sg_inputs g) (i, s)"
proof -
  have "fst ` set (sg_inputs (canon_graph g)) = fst ` set (sg_inputs g)"
    unfolding canon_graph_def using canon_keys [of canon_source "sg_inputs g"] by simp
  then show ?thesis
    by (simp add: node_ok_def canon_schema_def canon_ports_keys)
qed

lemma canon_deps: "graph_deps (canon_graph g) = graph_deps g"
proof -
  have "initial_deps (map (\<lambda>(i, s). (i, canon_schema s)) ns) deps = initial_deps ns deps" for ns deps
    by (induction ns arbitrary: deps) (auto simp: initial_deps_def)
  moreover have "route_deps (i, canon_source s) deps = route_deps (i, s) deps" for i s deps
    by (cases s) (simp_all add: route_deps_def)
  then have "fold route_deps (map (\<lambda>(i, s). (i, canon_source s)) ins) deps = fold route_deps ins deps" for ins deps
    by (induction ins arbitrary: deps) auto
  ultimately show ?thesis
    by (simp add: graph_deps_def canon_graph_def)
qed

lemma canon_compile:
  assumes "Plan_compile g = Inr p"
  shows "Plan_compile (canon_graph g) = Inr \<lparr>plan_graph = canon_graph g, plan_order = plan_order p\<rparr>"
proof -
  have "sg_nodes (canon_graph g) \<noteq> []"
    using assms by (auto simp: Plan_compile_Inr canon_graph_def)
  moreover have "\<forall>node \<in> set (sg_nodes (canon_graph g)). node_ok (sg_inputs (canon_graph g)) node"
    using assms canon_node_ok [of g] by (auto simp: Plan_compile_Inr) (auto simp: canon_graph_def)
  moreover have "\<forall>ns \<in> set (sg_inputs (canon_graph g)). wired (sg_nodes (canon_graph g)) ns"
    using assms canon_wired [of g] by (auto simp: Plan_compile_Inr) (auto simp: canon_graph_def)
  ultimately show ?thesis
    using assms by (simp add: Plan_compile_Inr canon_deps)
qed

section \<open>What admission establishes\<close>

lemma import_type_ok: "import_type (export_type t) = Inr u \<Longrightarrow> type_ok t"
  by (auto simp: import_type_def export_type_def type_ok_def res_simps StepType_with_semantics_def and_then_def)

lemma import_ports_ok: "import_ports (map (\<lambda>(k, v). (k, export_type v)) ports) = Inr qs \<Longrightarrow> ports_ok ports"
proof -
  assume imp: "import_ports (map (\<lambda>(k, v). (k, export_type v)) ports) = Inr qs"
  then have len: "int (length ports) \<le> MAX_ENTRIES"
    and all: "list_all2 (\<lambda>(k, v) q. and_then (map_err (\<lambda>_. invalid) (validate_port_name k)) (rbind (import_type (export_type v)) (\<lambda>t. Inr (k, t))) = Inr q) ports qs"
    by (auto simp: import_ports_def try_map_Inr list_all2_map1 case_prod_unfold split: if_splits)
  have "segment k \<and> type_ok t" if mem: "(k, t) \<in> set ports" for k t
  proof -
    obtain q where "and_then (map_err (\<lambda>_. invalid) (validate_port_name k)) (rbind (import_type (export_type t)) (\<lambda>t. Inr (k, t))) = Inr q"
      using all mem by (fastforce simp: list_all2_conv_all_nth in_set_conv_nth split: prod.splits)
    then show ?thesis
      by (auto simp: and_then_def res_simps validate_port_name_def require_def import_type_ok split: if_splits)
  qed
  with len show ?thesis
    by (auto simp: ports_ok_def)
qed

lemma import_schema_ok:
  "import_schema (export_schema s) = Inr t \<Longrightarrow> ports_ok (ss_inputs s) \<and> ports_ok (ss_outputs s)"
  by (auto simp: import_schema_def export_schema_def res_simps dest: import_ports_ok)

lemma type_ok_cong: "step_type_eq t u \<Longrightarrow> type_ok t \<longleftrightarrow> type_ok u"
  by (simp add: step_type_eq_def type_ok_def)

lemma node_input_in: "node_input nodes i = Some t \<Longrightarrow> \<exists>s. (si_instance i, s) \<in> set nodes \<and> (si_port i, t) \<in> set (ss_inputs s)"
  by (auto simp: node_input_def bt_get_def split: option.splits dest: map_of_SomeD)

text \<open>A graph that compiles and whose schemas the protocol takes fits the protocol as a whole.\<close>

lemma inputs_bounded:
  assumes "\<forall>ns \<in> set (sg_inputs g). wired (sg_nodes g) ns" and "bt_wf (sg_inputs g)"
    and "int (length (sg_nodes g)) \<le> MAX_ENTRIES" and "\<forall>(i, s) \<in> set (sg_nodes g). int (length (ss_inputs s)) \<le> MAX_ENTRIES"
  shows "int (length (sg_inputs g)) \<le> MAX_ENTRIES * MAX_ENTRIES"
proof -
  let ?P = "\<Union>(i, s) \<in> set (sg_nodes g). (\<lambda>(p, _). StepInput i p) ` set (ss_inputs s)"
  have sub: "fst ` set (sg_inputs g) \<subseteq> ?P"
  proof
    fix i assume "i \<in> fst ` set (sg_inputs g)"
    then obtain t where "node_input (sg_nodes g) i = Some t"
      using assms(1) by (auto simp: wired_def)
    then obtain s where "(si_instance i, s) \<in> set (sg_nodes g)" "(si_port i, t) \<in> set (ss_inputs s)"
      using node_input_in by blast
    then show "i \<in> ?P"
      by (force intro!: bexI [of _ "(si_instance i, s)"] image_eqI [of _ _ "(si_port i, t)"])
  qed
  have "card ?P \<le> (\<Sum>(i, s) \<in> set (sg_nodes g). card ((\<lambda>(p, _). StepInput i p) ` set (ss_inputs s)))"
    using card_UN_le [of "set (sg_nodes g)" "\<lambda>(i, s). (\<lambda>(p, _). StepInput i p) ` set (ss_inputs s)"]
    by (simp add: case_prod_unfold)
  also have "\<dots> \<le> (\<Sum>_ \<in> set (sg_nodes g). nat MAX_ENTRIES)"
  proof (rule sum_mono)
    fix n assume "n \<in> set (sg_nodes g)"
    then have "length (ss_inputs (snd n)) \<le> nat MAX_ENTRIES"
      using assms(4) by (cases n) (auto simp: MAX_ENTRIES_def)
    moreover have "card ((\<lambda>(p, _). StepInput (fst n) p) ` set (ss_inputs (snd n))) \<le> length (ss_inputs (snd n))"
      using card_image_le [of "set (ss_inputs (snd n))" "\<lambda>(p, _). StepInput (fst n) p"] card_length [of "ss_inputs (snd n)"] by simp
    ultimately show "(case n of (i, s) \<Rightarrow> card ((\<lambda>(p, _). StepInput i p) ` set (ss_inputs s))) \<le> nat MAX_ENTRIES"
      by (simp add: case_prod_unfold)
  qed
  also have "\<dots> \<le> length (sg_nodes g) * nat MAX_ENTRIES"
    using card_length [of "sg_nodes g"] by simp
  finally have "card ?P \<le> length (sg_nodes g) * nat MAX_ENTRIES" .
  moreover have "length (sg_inputs g) = card (fst ` set (sg_inputs g))"
    using bt.distinct_keys [OF assms(2)] distinct_card [of "map fst (sg_inputs g)"] by simp
  moreover have "card (fst ` set (sg_inputs g)) \<le> card ?P"
    using sub by (intro card_mono) auto
  ultimately show ?thesis
    using assms(3) by (simp add: MAX_ENTRIES_def)
qed

lemma wire_ok_compiled:
  assumes "Plan_compile g = Inr p" and "bt_wf (sg_inputs g)" and "int (length (sg_nodes g)) \<le> MAX_ENTRIES"
    and "\<forall>(i, s) \<in> set (sg_nodes g). is_ok (import_schema (export_schema s))"
  shows "wire_ok g"
proof -
  have ports: "ports_ok (ss_inputs s) \<and> ports_ok (ss_outputs s)" if "(i, s) \<in> set (sg_nodes g)" for i s
    using assms(4) that import_schema_ok [of s] by (cases "import_schema (export_schema s)") auto
  note wired = Plan_compile_wired [OF assms(1)]
  have "source_type_ok src" if mem: "(i, src) \<in> set (sg_inputs g)" for i src
  proof -
    obtain t where t: "node_input (sg_nodes g) i = Some t" "source_ok (sg_nodes g) t src"
      using bspec [OF wired mem] by (auto simp: wired_def)
    have "type_ok t"
      using node_input_in [OF t(1)] ports unfolding ports_ok_def by fastforce
    then show ?thesis
      using t(2) by (cases src) (auto simp: type_ok_cong)
  qed
  moreover have "\<forall>(i, s) \<in> set (sg_nodes g). int (length (ss_inputs s)) \<le> MAX_ENTRIES"
    using ports by (auto simp: ports_ok_def)
  ultimately show ?thesis
    using ports assms(3) inputs_bounded [OF wired assms(2,3)] by (auto simp: wire_ok_def)
qed

section \<open>Loops over assignments\<close>

lemma try_for_invariant:
  assumes "try_for body xs s = Inr s'" and "P s"
    and "\<And>x s s'. x \<in> set xs \<Longrightarrow> body x s = Inr s' \<Longrightarrow> P s \<Longrightarrow> P s'"
  shows "P s'"
  using assms by (induction xs arbitrary: s) (auto simp: res_simps)

lemma try_for_visits: "try_for body xs s = Inr s' \<Longrightarrow> x \<in> set xs \<Longrightarrow> \<exists>t t'. body x t = Inr t'"
  by (induction xs arbitrary: s) (auto simp: res_simps)

definition step_placed :: "nodes \<Rightarrow> string \<times> StepAssignment \<Rightarrow> bool" where
  "step_placed nodes ia \<longleftrightarrow> (\<exists>s. bt_get nodes (fst ia) = Some s \<and> export_schema s = sa_schema (snd ia)
     \<and> is_ok (import_schema (sa_schema (snd ia))))"

lemma place_step_Inr:
  "place_step nodes hi (i, a) assigned = Inr assigned' \<longleftrightarrow> i \<in> hi \<and> \<not> bt_contains assigned i
     \<and> step_placed nodes (i, a) \<and> assigned' = bt_insert i a assigned"
  by (cases "bt_get nodes i"; cases "import_schema (sa_schema a)")
    (auto simp: place_step_def ensure_def and_then_def res_simps step_placed_def)

lemma place_peer_Inr:
  assumes "place_peer nodes key peer (assigned, all_instances, hosts) = Inr (assigned', all_instances', hosts')"
  obtains hi where "try_for (place_step nodes hi) (pp_steps peer) assigned = Inr assigned'"
    and "si_owner_generation (pp_identity peer) = sk_owner_generation key"
    and "si_graph_generation (pp_identity peer) = sk_graph_generation key"
    and "si_graph_digest (pp_identity peer) = sk_graph_digest key"
  using assms by (auto simp: place_peer_def ensure_def and_then_def res_simps split: if_splits)

definition placed_inv :: "nodes \<Rightarrow> (string, StepAssignment) btree \<Rightarrow> bool" where
  "placed_inv nodes assigned \<longleftrightarrow> bt_wf assigned \<and> (\<forall>ia \<in> set assigned. step_placed nodes ia)"

lemma bt_insert_entries: "set (bt_insert k v m) \<subseteq> insert (k, v) (set m)"
  by (induction k v m rule: bt_insert.induct) auto

lemma place_steps_inv:
  assumes "try_for (place_step nodes hi) steps assigned = Inr assigned'" and "placed_inv nodes assigned"
  shows "placed_inv nodes assigned'" and "\<forall>ia \<in> set steps. step_placed nodes ia"
proof -
  show "placed_inv nodes assigned'"
    using assms
  proof (rule try_for_invariant)
    fix x s s' assume "place_step nodes hi x s = Inr s'" "placed_inv nodes s"
    then show "placed_inv nodes s'"
      using bt_insert_entries by (cases x) (fastforce simp: place_step_Inr placed_inv_def)
  qed
  show "\<forall>ia \<in> set steps. step_placed nodes ia"
    using try_for_visits [OF assms(1)] by (auto simp: place_step_Inr)
qed

lemma same_keys:
  assumes "bt_wf m" and "bt_wf n" and "fst ` set m \<subseteq> fst ` set n" and "length m = length n"
  shows "fst ` set m = fst ` set n"
proof -
  have "card (fst ` set m) = length m" "card (fst ` set n) = length n"
    using bt.distinct_keys [OF assms(1)] bt.distinct_keys [OF assms(2)] distinct_card [of "map fst m"] distinct_card [of "map fst n"]
    by simp_all
  then show ?thesis
    using assms(3,4) by (intro card_subset_eq) auto
qed

lemma validate_assignments_Inr:
  assumes "validate_assignments peers plan key = Inr ()" and "bt_wf (psp_nodes plan)"
  shows "\<forall>(i, s) \<in> set (psp_nodes plan). is_ok (import_schema (export_schema s))"
    and "peer \<in> set peers \<Longrightarrow> (\<forall>ia \<in> set (pp_steps peer). step_placed (psp_nodes plan) ia)
      \<and> si_owner_generation (pp_identity peer) = sk_owner_generation key
      \<and> si_graph_generation (pp_identity peer) = sk_graph_generation key
      \<and> si_graph_digest (pp_identity peer) = sk_graph_digest key"
    and "int (length (psp_nodes plan)) \<le> MAX_ENTRIES"
proof -
  let ?N = "psp_nodes plan"
  obtain assigned all_instances hosts where loop: "try_for (place_peer ?N key) peers ([], {}, {}) = Inr (assigned, all_instances, hosts)"
    and len: "length assigned = length ?N" and valid: "plan_validate plan = Inr ()"
    using assms(1) by (auto simp: validate_assignments_def and_then_def ensure_def res_simps split: if_splits)
  show "int (length ?N) \<le> MAX_ENTRIES"
    using valid by (auto simp: plan_validate_def and_then_def ensure_def split: if_splits)
  have inv: "placed_inv ?N (fst (assigned, all_instances, hosts))"
    using loop
  proof (rule try_for_invariant)
    show "placed_inv ?N (fst ([], {}, {}))"
      by (simp add: placed_inv_def)
    fix x st st' assume "place_peer ?N key x st = Inr st'" "placed_inv ?N (fst st)"
    then show "placed_inv ?N (fst st')"
      by (cases st; cases st') (auto elim!: place_peer_Inr dest: place_steps_inv(1))
  qed
  have "fst ` set assigned \<subseteq> fst ` set ?N"
    using inv by (force simp: placed_inv_def step_placed_def bt_get_def dest!: map_of_SomeD)
  then have keys: "fst ` set assigned = fst ` set ?N"
    using inv assms(2) len by (intro same_keys) (auto simp: placed_inv_def)
  have "is_ok (import_schema (export_schema s))" if "(i, s) \<in> set ?N" for i s
  proof -
    have "i \<in> fst ` set assigned"
      unfolding keys using that by force
    then obtain a where "(i, a) \<in> set assigned"
      by auto
    then show ?thesis
      using inv that bt.get_Some_iff [OF assms(2), of i s] by (auto simp: placed_inv_def step_placed_def)
  qed
  then show "\<forall>(i, s) \<in> set ?N. is_ok (import_schema (export_schema s))"
    by auto
  assume "peer \<in> set peers"
  then obtain st st' where "place_peer ?N key peer st = Inr st'"
    using try_for_visits [OF loop] by blast
  moreover have "\<forall>ia \<in> set steps. step_placed ?N ia" if "try_for (place_step ?N hi) steps t = Inr t'" for hi steps t t'
    using try_for_visits [OF that] by (auto simp: place_step_Inr)
  ultimately show "(\<forall>ia \<in> set (pp_steps peer). step_placed ?N ia)
      \<and> si_owner_generation (pp_identity peer) = sk_owner_generation key
      \<and> si_graph_generation (pp_identity peer) = sk_graph_generation key
      \<and> si_graph_digest (pp_identity peer) = sk_graph_digest key"
    by (cases st; cases st') (auto elim!: place_peer_Inr)
qed

section \<open>A host accepts the plan of its owner\<close>

lemma bt_insert_map: "bt_insert k (f v) (map (\<lambda>(k, v). (k, f v)) m) = map (\<lambda>(k, v). (k, f v)) (bt_insert k v m)"
  by (induction k v m rule: bt_insert.induct) auto

lemma bt_extend_map:
  "bt_extend (map (\<lambda>(k, v). (k, f v)) m) (map (\<lambda>(k, v). (k, f v)) kvs) = map (\<lambda>(k, v). (k, f v)) (bt_extend m kvs)"
proof (induction kvs arbitrary: m)
  case (Cons kv kvs)
  show ?case
    using Cons [of "bt_insert (fst kv) (snd kv) m"]
    by (cases kv) (simp add: bt_extend_def bt_insert_map)
qed (simp add: bt_extend_def)

lemma bt_extend_Nil_wf: "bt_wf (bt_extend [] kvs)"
  by (simp add: bt_extend_wf)

lemma host_schemas_wf: "bt_wf (host_schemas r ordinary)"
  by (simp add: host_schemas_def bt_extend_Nil_wf)

lemma expected_schemas:
  "bt_extend [] (List.map_filter (\<lambda>a. map_option (\<lambda>s. (ca_namespace a, export_schema s))
      (bt_get (pr_steps r) (fr_factory (ca_implementation a)))) ordinary)
    = map (\<lambda>(i, s). (i, export_schema s)) (host_schemas r ordinary)"
proof -
  have "List.map_filter (\<lambda>a. map_option (\<lambda>s. (ca_namespace a, export_schema s)) (bt_get (pr_steps r) (fr_factory (ca_implementation a)))) as
      = map (\<lambda>(i, s). (i, export_schema s)) (List.map_filter (\<lambda>a. map_option (Pair (ca_namespace a)) (bt_get (pr_steps r) (fr_factory (ca_implementation a)))) as)" for as
    by (induction as) (auto split: option.splits)
  then show ?thesis
    using bt_extend_map [of export_schema "[]"] by (simp add: host_schemas_def)
qed

lemma host_validate_Inr:
  assumes "host_validate_assignments ordinary steps r = Inr ()" and "bt_wf steps"
  shows "steps \<noteq> []" and "fst ` set (host_schemas r ordinary) = fst ` set steps"
    and "(i, s) \<in> set (host_schemas r ordinary) \<Longrightarrow> \<exists>a. (i, a) \<in> set steps \<and> sa_schema a = export_schema s"
proof -
  let ?E = "map (\<lambda>(i, s). (i, export_schema s)) (host_schemas r ordinary)"
  have ne: "steps \<noteq> []" and len: "length steps = length ?E"
    and schema: "\<And>i a. (i, a) \<in> set steps \<Longrightarrow> bt_get ?E i = Some (sa_schema a)"
    using assms(1) unfolding host_validate_assignments_def expected_schemas Let_def
    by (auto simp: list_ex_iff split: if_splits)
  have wf: "bt_wf ?E"
    by (simp only: bt_wf_map host_schemas_wf)
  have "fst ` set steps \<subseteq> fst ` set ?E"
    using schema by (force simp: bt_get_def dest!: map_of_SomeD)
  then have "fst ` set steps = fst ` set ?E"
    using assms(2) wf len by (intro same_keys)
  then show keys: "fst ` set (host_schemas r ordinary) = fst ` set steps"
    by (simp only: canon_keys)
  show "steps \<noteq> []"
    by (rule ne)
  assume mem: "(i, s) \<in> set (host_schemas r ordinary)"
  then have "i \<in> fst ` set steps"
    unfolding keys [symmetric] by force
  then obtain a where a: "(i, a) \<in> set steps"
    by auto
  have "bt_get ?E i = Some (export_schema s)"
    using mem bt.get_Some_iff [OF wf, of i "export_schema s"] by force
  with schema [OF a] a show "\<exists>a. (i, a) \<in> set steps \<and> sa_schema a = export_schema s"
    by auto
qed

lemma export_type_eq: "export_type t = export_type u \<longleftrightarrow> step_type_eq t u"
  by (simp add: export_type_def step_type_eq_def)

lemma export_ports_eq:
  "map (\<lambda>(k, v). (k, export_type v)) m = map (\<lambda>(k, v). (k, export_type v)) n \<Longrightarrow> ports_eq (canon_ports m) n"
proof (induction m arbitrary: n)
  case (Cons x m)
  then show ?case
    by (cases n; cases x) (auto simp: ports_eq_def canon_ports_def export_type_eq)
qed (auto simp: ports_eq_def canon_ports_def)

lemma export_schema_eq: "export_schema s = export_schema t \<Longrightarrow> schema_eq (canon_schema s) t"
  by (auto simp: export_schema_def schema_eq_def canon_schema_def intro: export_ports_eq)

lemma resolve_inputs_keys: "resolve_inputs reports ins budget = Inr outs \<Longrightarrow> map fst outs = map fst ins"
  by (induction reports ins budget arbitrary: outs rule: resolve_inputs.induct) (auto simp: res_simps)

lemma plan_resolve_Inr:
  assumes "plan_resolve plan reports = Inr g"
  shows "sg_nodes g = psp_nodes plan" and "map fst (sg_inputs g) = map fst (psp_inputs plan)"
  using assms by (auto simp: plan_resolve_def res_simps dest: resolve_inputs_keys)

lemma owner_bind_Inr:
  assumes "owner_bind to_vec sha256 key g initial NEXT = (Inr (s, bound, bootstrap), n)"
  obtains plan wire digest where "Plan_compile g = Inr plan" and "export_graph g = Inr wire"
    and "plan_digest to_vec sha256 wire (duration_wire initial) = Inr digest"
    and "StepScheduler_new g initial NEXT = (Inr s, n)"
    and "bound = \<lparr>bs_session = key\<lparr>sk_plan_digest := digest\<rparr>, bs_epoch = sch_epoch s, bs_initial_time = duration_wire initial,
           bs_order = plan_order plan, bs_graph = wire\<rparr>"
  using assms by (auto simp: owner_bind_def sched_clock_def rbind_Inr_iff map_err_Inr_iff and_then_def split: sum.splits prod.splits)

definition plan_wf :: "ProcessStepPlan \<Rightarrow> bool" where
  "plan_wf plan \<longleftrightarrow> bt_wf (psp_nodes plan) \<and> bt_wf (psp_inputs plan)
     \<and> (\<forall>(_, schema) \<in> set (psp_nodes plan). bt_wf (ss_inputs schema) \<and> bt_wf (ss_outputs schema))"

lemma host_bind_agrees:
  assumes valid: "validate_assignments peers plan key = Inr ()" and wf: "plan_wf plan"
    and resolved: "plan_resolve plan reports = Inr g"
    and owner: "owner_bind to_vec sha256 key g initial NEXT = (Inr (s, bound, bootstrap), n)" and "duration_wf initial"
    and peer: "peer \<in> set peers" "bt_wf (pp_steps peer)"
    and host: "host_validate_assignments (pp_assignments peer) (pp_steps peer) r = Inr ()"
  shows "host_bind to_vec sha256 (pp_identity peer) (host_schemas r (pp_assignments peer)) bound = Inr bound"
    and "distinct (bs_order bound)"
    and "\<exists>guard. ReplayGuard_new bound (host_schemas r (pp_assignments peer)) = Inr guard"
proof -
  let ?S = "host_schemas r (pp_assignments peer)"
  obtain p wire digest where compile: "Plan_compile g = Inr p" and export: "export_graph g = Inr wire"
    and digest: "plan_digest to_vec sha256 wire (duration_wire initial) = Inr digest"
    and bound: "bound = \<lparr>bs_session = key\<lparr>sk_plan_digest := digest\<rparr>, bs_epoch = sch_epoch s,
      bs_initial_time = duration_wire initial, bs_order = plan_order p, bs_graph = wire\<rparr>"
    using owner by (rule owner_bind_Inr)
  note admitted = validate_assignments_Inr [OF valid wf [unfolded plan_wf_def, THEN conjunct1]]
  have nodes: "sg_nodes g = psp_nodes plan" and ins: "bt_wf (sg_inputs g)"
    using plan_resolve_Inr [OF resolved] wf by (simp_all add: plan_wf_def bt_wf_def)
  have "wire_ok g"
    using wire_ok_compiled [OF compile ins] admitted(1,3) by (simp add: nodes)
  then have import: "import_graph wire = Inr (canon_graph g)"
    using import_export_graph [OF export _ ins] by blast
  have order: "distinct (plan_order p)" "set (plan_order p) = fst ` set (sg_nodes g)"
    using compiled_order [OF compile] by (simp_all add: execution_order_def)
  have initial: "wire_duration (duration_wire initial) = Inr initial"
    using assms(5) by (simp add: wire_duration_def duration_wire_def duration_wf_def NANOS_PER_SEC_def)
  have placed: "\<exists>t. bt_get (sg_nodes g) i = Some t \<and> schema_eq (canon_schema t) schema" if mem: "(i, schema) \<in> set ?S" for i schema
  proof -
    obtain a where a: "(i, a) \<in> set (pp_steps peer)" "sa_schema a = export_schema schema"
      using host_validate_Inr(3) [OF host peer(2) mem] by blast
    then have "step_placed (psp_nodes plan) (i, a)"
      using admitted(2) [OF peer(1)] by blast
    then show ?thesis
      using a(2) by (auto simp: step_placed_def nodes intro!: export_schema_eq)
  qed
  have in_order: "i \<in> set (plan_order p)" if "(i, schema) \<in> set ?S" for i schema
    using placed [OF that] order(2) by (force simp: bt_get_def dest!: map_of_SomeD)
  have "length (plan_order p) = card (fst ` set (sg_nodes g))"
    using order distinct_card by metis
  also have "\<dots> \<le> length (sg_nodes g)"
    using card_image_le [of "set (sg_nodes g)" fst] card_length [of "sg_nodes g"] by simp
  finally have short: "int (length (plan_order p)) \<le> MAX_ENTRIES"
    using admitted(3) by (simp add: nodes)
  have fits: "\<not> list_ex (\<lambda>(i, _). i \<notin> set (plan_order p)) ?S"
    "\<not> list_ex (\<lambda>(i, schema). is_none_or (\<lambda>s. \<not> schema_eq s schema) (bt_get (sg_nodes (canon_graph g)) i)) ?S"
    using in_order placed by (fastforce simp: list_ex_iff canon_graph_def bt_get_canon)+
  show "host_bind to_vec sha256 (pp_identity peer) ?S bound = Inr bound"
    using admitted(2) [OF peer(1)] short order(1) fits digest initial
    by (simp add: host_bind_def bound import canon_compile [OF compile] distinct_card)
  show "distinct (bs_order bound)"
    by (simp add: bound order)
  have "\<exists>i. i \<in> fst ` set ?S"
    using host_validate_Inr(1,2) [OF host peer(2)] by (cases "pp_steps peer") auto
  then have "filter (bt_contains ?S) (plan_order p) \<noteq> []"
    using in_order by (force simp: filter_empty_conv bt_contains_iff)
  then show "\<exists>guard. ReplayGuard_new bound ?S = Inr guard"
    by (simp add: ReplayGuard_new_def bound initial Let_def)
qed

end
