(* ===== verification/Process_Prepare.thy ===== *)
theory Process_Prepare
  imports Process_Admission Bindings_Report
begin

text \<open>
  Preparing every host (\<^verbatim>\<open>crates/reiny/src/component/process/step_owner/preparation.rs\<close>): the owner collects
  the reports of each host, checks them against the assignments it made, and validates the closed graph of
  all modules. The messages of a host are a list; running out of it is a failed or late receive. The
  graph resolved from the collected reports compiles to the order the draft plan had.
\<close>

section \<open>Collecting reports\<close>

datatype PrepareError = Prepare_Draft PlanDraftError | Prepare_Report Bindings_Report.failure | Prepare_Receive

datatype HostEvent =
    Event_Report ModuleReport | Event_StepReport StepPreparedReport | Event_Step | Event_PreparedComplete | Event_other

record CollectedReports =
  cr_steps :: "(string, StepPreparedReport) btree"
  cr_ordinary :: "(string, ModuleReport) btree"
  cr_budget :: nat

abbreviation ensure_prepare :: "bool \<Rightarrow> string \<Rightarrow> PrepareError + unit" where
  "ensure_prepare c message \<equiv> map_err Prepare_Draft (ensure c message)"

abbreviation invalid_prepare :: PrepareError where
  "invalid_prepare \<equiv> Prepare_Draft (Draft_Process Assignment_invalid)"

definition collect_output :: "StepSchema \<Rightarrow> string \<times> WireValue \<Rightarrow> nat \<Rightarrow> PrepareError + nat" where
  "collect_output schema output budget = (case output of (port, value) \<Rightarrow>
     rbind (map_err (Prepare_Draft \<circ> Draft_Process) (import_type (wv_ty value))) (\<lambda>ty.
     and_then (ensure_prepare (int (length (wv_bytes value)) \<le> MAX_VALUE_BYTES
         \<and> is_some_and (\<lambda>t. step_type_eq t ty) (bt_get (ss_outputs schema) port)) ''seed schema mismatch'')
       (map_err Prepare_Draft (charge budget (length (wv_bytes value))))))"

definition collect_step ::
  "(string, StepAssignment) btree \<Rightarrow> StepPreparedReport \<Rightarrow> CollectedReports \<Rightarrow> PrepareError + CollectedReports" where
  "collect_step steps report reports =
     rbind (ok_or (bt_get steps (spr_instance report)) invalid_prepare) (\<lambda>expected.
     and_then (ensure_prepare (spr_schema report = sa_schema expected \<and> spr_contract report = sa_contract expected
         \<and> fst ` set (spr_outputs report) = sa_seed_outputs expected) ''prepared contract mismatch'')
    (rbind (map_err (Prepare_Draft \<circ> Draft_Process) (import_schema (spr_schema report))) (\<lambda>schema.
     rbind (try_for (collect_output schema) (spr_outputs report) (cr_budget reports)) (\<lambda>budget.
     and_then (ensure_prepare (\<not> bt_contains (cr_steps reports) (spr_instance report)) ''duplicate step report'')
       (Inr (reports\<lparr>cr_steps := bt_insert (spr_instance report) report (cr_steps reports), cr_budget := budget\<rparr>))))))"

definition collect_ordinary ::
  "(string, ModuleBindings) btree \<Rightarrow> ModuleReport \<Rightarrow> CollectedReports \<Rightarrow> PrepareError + CollectedReports" where
  "collect_ordinary bindings report reports =
     rbind (ok_or (bt_get bindings (mr_namespace report)) invalid_prepare) (\<lambda>expected.
     and_then (map_err Prepare_Report (validate_report expected report))
    (and_then (ensure_prepare (\<not> bt_contains (cr_ordinary reports) (mr_namespace report)) ''duplicate ordinary report'')
       (Inr (reports\<lparr>cr_ordinary := bt_insert (mr_namespace report) report (cr_ordinary reports)\<rparr>))))"

fun collect_events ::
  "(string, StepAssignment) btree \<Rightarrow> (string, ModuleBindings) btree \<Rightarrow> HostEvent list
    \<Rightarrow> string set \<Rightarrow> string set \<Rightarrow> CollectedReports \<Rightarrow> PrepareError + string set \<times> string set \<times> CollectedReports" where
  "collect_events steps bindings [] ordinary_actual actual reports = Inl Prepare_Receive"
| "collect_events steps bindings (Event_Report report # es) ordinary_actual actual reports =
     rbind (collect_ordinary bindings report reports) (collect_events steps bindings es (insert (mr_namespace report) ordinary_actual) actual)"
| "collect_events steps bindings (Event_StepReport report # es) ordinary_actual actual reports =
     rbind (collect_step steps report reports) (collect_events steps bindings es ordinary_actual (insert (spr_instance report) actual))"
| "collect_events steps bindings (Event_Step # es) ordinary_actual actual reports =
     Inl (Prepare_Draft (Draft_Message ''unexpected preparation event''))"
| "collect_events steps bindings (Event_PreparedComplete # es) ordinary_actual actual reports = Inr (ordinary_actual, actual, reports)"
| "collect_events steps bindings (Event_other # es) ordinary_actual actual reports =
     Inl (Prepare_Draft (Draft_Message ''host failed during preparation''))"

definition collect_reports ::
  "HostEvent list \<Rightarrow> (string, StepAssignment) btree \<Rightarrow> (string, ModuleBindings) btree \<Rightarrow> CollectedReports \<Rightarrow> PrepareError + CollectedReports" where
  "collect_reports events steps bindings reports =
     rbind (collect_events steps bindings events {} {} reports) (\<lambda>(ordinary_actual, actual, reports).
     and_then (ensure_prepare (actual = fst ` set steps) ''missing prepared step report'')
    (and_then (ensure_prepare (ordinary_actual = fst ` set bindings) ''missing host ordinary report'')
       (Inr reports)))"

record PreparedHosts =
  ph_placement :: "(string, nat) btree"
  ph_reports :: "(string, StepPreparedReport) btree"

definition peer_bindings :: "ProcessStepPeer \<Rightarrow> (string, ModuleBindings) btree" where
  "peer_bindings peer = bt_extend [] (map (\<lambda>a. (ca_namespace a, ca_bindings a)) (pp_assignments peer))"

fun prepare_peers ::
  "nat \<Rightarrow> (ProcessStepPeer \<times> HostEvent list) list \<Rightarrow> (string, nat) btree \<times> (string, ModuleBindings) btree \<times> CollectedReports
    \<Rightarrow> PrepareError + (string, nat) btree \<times> (string, ModuleBindings) btree \<times> CollectedReports" where
  "prepare_peers index [] st = Inr st"
| "prepare_peers index ((peer, events) # ps) (placement, bindings, reports) =
     rbind (collect_reports events (pp_steps peer) (peer_bindings peer) reports) (\<lambda>reports.
       prepare_peers (Suc index) ps
         (bt_extend placement (map (\<lambda>(i, _). (i, index)) (pp_steps peer)), bt_extend bindings (peer_bindings peer), reports))"

text \<open>The index \<open>reports.ordinary[id]\<close> panics on an absent key.\<close>

definition prepare_hosts :: "(ProcessStepPeer \<times> HostEvent list) list \<Rightarrow> nat \<Rightarrow> PrepareError + PreparedHosts" where
  "prepare_hosts peers budget =
     rbind (prepare_peers 0 peers ([], [], \<lparr>cr_steps = [], cr_ordinary = [], cr_budget = budget\<rparr>)) (\<lambda>(placement, bindings, reports).
     rbind (ok_or (those (map (\<lambda>(i, b). map_option (\<lambda>r. \<lparr>re_bindings = b, re_report = r\<rparr>) (bt_get (cr_ordinary reports) i)) bindings))
         (Prepare_Report Panic)) (\<lambda>entries.
     and_then (map_err Prepare_Report (validate_graph entries))
       (Inr \<lparr>ph_placement = placement, ph_reports = cr_steps reports\<rparr>)))"

section \<open>Reports that were collected\<close>

text \<open>A collected step report has the schema of its node and seeds of the declared types.\<close>

definition report_typed :: "nodes \<Rightarrow> StepPreparedReport \<Rightarrow> bool" where
  "report_typed nodes report \<longleftrightarrow> (\<exists>s. bt_get nodes (spr_instance report) = Some s \<and> export_schema s = spr_schema report
     \<and> (\<forall>(port, value) \<in> set (spr_outputs report). \<exists>ty t. import_type (wv_ty value) = Inr ty
          \<and> bt_get (ss_outputs s) port = Some t \<and> step_type_eq t ty))"

lemma collect_output_Inr:
  assumes "collect_output schema (port, value) budget = Inr b"
  shows "\<exists>ty t. import_type (wv_ty value) = Inr ty \<and> bt_get (ss_outputs schema) port = Some t \<and> step_type_eq t ty"
  using assms by (cases "bt_get (ss_outputs schema) port")
    (auto simp: collect_output_def and_then_def ensure_def res_simps split: if_splits)

lemma collect_step_Inr:
  assumes "collect_step steps report reports = Inr reports'" and "\<forall>ia \<in> set steps. step_placed nodes ia"
  shows "report_typed nodes report" and "cr_steps reports' = bt_insert (spr_instance report) report (cr_steps reports)"
proof -
  obtain a schema budget where a: "bt_get steps (spr_instance report) = Some a" "spr_schema report = sa_schema a"
    and imp: "import_schema (spr_schema report) = Inr schema"
    and outs: "try_for (collect_output schema) (spr_outputs report) (cr_budget reports) = Inr budget"
    and r': "reports' = reports\<lparr>cr_steps := bt_insert (spr_instance report) report (cr_steps reports), cr_budget := budget\<rparr>"
    using assms(1) by (auto simp: collect_step_def and_then_def ensure_def res_simps split: if_splits)
  show "cr_steps reports' = bt_insert (spr_instance report) report (cr_steps reports)"
    by (simp add: r')
  have "(spr_instance report, a) \<in> set steps"
    using a(1) by (simp add: bt_get_def map_of_SomeD)
  then have "step_placed nodes (spr_instance report, a)"
    using assms(2) by blast
  then obtain s where s: "bt_get nodes (spr_instance report) = Some s" "export_schema s = spr_schema report"
    using a(2) by (auto simp: step_placed_def)
  have schema: "schema = canon_schema s"
    using imp import_export_schema import_schema_ok unfolding s(2) [symmetric] by (metis sum.inject(2))
  have "\<exists>ty t. import_type (wv_ty v) = Inr ty \<and> bt_get (ss_outputs s) port = Some t \<and> step_type_eq t ty"
    if mem: "(port, v) \<in> set (spr_outputs report)" for port v
  proof -
    obtain b b' where "collect_output schema (port, v) b = Inr b'"
      using try_for_visits [OF outs mem] by blast
    from collect_output_Inr [OF this] show ?thesis
      by (auto simp: schema canon_schema_def canon_ports_def bt_get_canon)
  qed
  with s show "report_typed nodes report"
    by (auto simp: report_typed_def)
qed

definition reports_typed :: "nodes \<Rightarrow> CollectedReports \<Rightarrow> bool" where
  "reports_typed nodes reports \<longleftrightarrow> (\<forall>(i, r) \<in> set (cr_steps reports). spr_instance r = i \<and> report_typed nodes r)"

lemma collect_ordinary_steps: "collect_ordinary bindings report reports = Inr reports' \<Longrightarrow> cr_steps reports' = cr_steps reports"
  by (auto simp: collect_ordinary_def and_then_def res_simps)

lemma collect_events_typed:
  assumes "\<forall>ia \<in> set steps. step_placed nodes ia"
  shows "collect_events steps bindings events oa ac reports = Inr (oa', ac', reports') \<Longrightarrow>
    reports_typed nodes reports \<Longrightarrow> reports_typed nodes reports'"
proof (induction events arbitrary: oa ac reports)
  case (Cons e es)
  show ?case
  proof (cases e)
    case (Event_Report report)
    then obtain r1 where "collect_ordinary bindings report reports = Inr r1"
      and rest: "collect_events steps bindings es (insert (mr_namespace report) oa) ac r1 = Inr (oa', ac', reports')"
      using Cons.prems(1) by (auto simp: res_simps)
    then show ?thesis
      using Cons.IH [OF rest] Cons.prems(2) by (simp add: reports_typed_def collect_ordinary_steps)
  next
    case (Event_StepReport report)
    then obtain r1 where step: "collect_step steps report reports = Inr r1"
      and rest: "collect_events steps bindings es oa (insert (spr_instance report) ac) r1 = Inr (oa', ac', reports')"
      using Cons.prems(1) by (auto simp: res_simps)
    have "reports_typed nodes r1"
      using Cons.prems(2) collect_step_Inr [OF step assms] bt_insert_entries
      unfolding reports_typed_def by fastforce
    then show ?thesis
      by (rule Cons.IH [OF rest])
  qed (use Cons.prems in auto)
qed simp

lemma prepare_peers_typed:
  assumes "\<forall>(peer, _) \<in> set ps. \<forall>ia \<in> set (pp_steps peer). step_placed nodes ia"
  shows "prepare_peers index ps (placement, bindings, reports) = Inr (placement', bindings', reports') \<Longrightarrow>
    reports_typed nodes reports \<Longrightarrow> reports_typed nodes reports'"
  using assms
proof (induction ps arbitrary: index placement bindings reports)
  case (Cons pe ps)
  obtain peer events where pe: "pe = (peer, events)"
    by (cases pe)
  obtain r1 where r1: "collect_reports events (pp_steps peer) (peer_bindings peer) reports = Inr r1"
    using Cons.prems(1) by (auto simp: pe res_simps)
  then have "reports_typed nodes r1"
    using Cons.prems(2,3) collect_events_typed [of "pp_steps peer" nodes]
    by (auto simp: pe collect_reports_def and_then_def ensure_def res_simps split: if_splits)
  then show ?case
    using Cons.IH Cons.prems r1 by (simp add: pe)
qed simp

lemma prepare_hosts_typed:
  assumes "prepare_hosts ps budget = Inr prepared"
    and "\<forall>(peer, _) \<in> set ps. \<forall>ia \<in> set (pp_steps peer). step_placed nodes ia"
    and "(i, r) \<in> set (ph_reports prepared)"
  shows "spr_instance r = i" and "report_typed nodes r"
proof -
  obtain placement bindings reports where
    "prepare_peers 0 ps ([], [], \<lparr>cr_steps = [], cr_ordinary = [], cr_budget = budget\<rparr>) = Inr (placement, bindings, reports)"
    and r: "ph_reports prepared = cr_steps reports"
    using assms(1) by (auto simp: prepare_hosts_def and_then_def res_simps)
  then have "reports_typed nodes reports"
    using prepare_peers_typed [OF assms(2)] by (auto simp: reports_typed_def)
  then show "spr_instance r = i" "report_typed nodes r"
    using assms(3) by (auto simp: r reports_typed_def)
qed

section \<open>The resolved graph\<close>

definition route_equiv :: "PlanRoute \<Rightarrow> PlanRoute \<Rightarrow> bool" where
  "route_equiv a b \<longleftrightarrow> plr_output a = plr_output b \<and> plr_same_tick a = plr_same_tick b
     \<and> rel_option step_type_eq (plr_initial a) (plr_initial b)"

lemma check_route_equiv:
  assumes "route_equiv a b" and "check_route nodes (input, a) deps = Inr deps'"
  shows "check_route nodes (input, b) deps = Inr deps'"
proof (cases "plr_initial a")
  case None
  then have "a = b"
    using assms(1) by (simp add: route_equiv_def PlanRoute.equality)
  then show ?thesis
    using assms(2) by simp
next
  case (Some u)
  then obtain v where v: "plr_initial b = Some v" "step_type_eq u v"
    using assms(1) by (auto simp: route_equiv_def option_rel_Some1)
  then have "step_type_eq u t = step_type_eq v t" for t
    using step_type_eq_sym step_type_eq_trans by blast
  moreover have "b = a\<lparr>plr_initial := Some v\<rparr>"
    using assms(1) v(1) by (simp add: route_equiv_def PlanRoute.equality)
  ultimately show ?thesis
    using assms(2) Some by (cases "plr_output a"; cases "node_input nodes input")
      (auto simp: check_route_def res_simps and_then_def split: if_splits)
qed

lemma check_routes_equiv:
  assumes "list_all2 (\<lambda>(i, a) (j, b). i = j \<and> route_equiv a b) rs ss"
  shows "try_for (check_route nodes) rs deps = Inr deps' \<Longrightarrow> try_for (check_route nodes) ss deps = Inr deps'"
  using assms
proof (induction rs ss arbitrary: deps rule: list_all2_induct)
  case (Cons x xs y ys)
  then show ?case
    by (cases x; cases y) (auto simp: res_simps dest!: check_route_equiv)
qed simp

lemma validate_routes_equiv:
  assumes "list_all2 (\<lambda>(i, a) (j, b). i = j \<and> route_equiv a b) rs ss" and "validate_routes nodes rs = Inr order"
  shows "validate_routes nodes ss = Inr order"
proof -
  have "map fst rs = map fst ss"
    using assms(1) by (induction rule: list_all2_induct) auto
  then have "fst ` set rs = fst ` set ss"
    by (metis list.set_map)
  then have "node_ok rs n \<longleftrightarrow> node_ok ss n" for n
    by (simp add: node_ok_def)
  then show ?thesis
    using assms(2) check_routes_equiv [OF assms(1)]
    by (auto simp: validate_routes_def res_simps check_nodes_Inr split: if_splits)
qed

lemma resolve_inputs_equiv:
  assumes reports: "\<And>i r. (i, r) \<in> set reports \<Longrightarrow> spr_instance r = i \<and> report_typed nodes r"
  shows "resolve_inputs reports ins budget = Inr outs \<Longrightarrow>
    try_map (\<lambda>(input, source). rbind (draft_route nodes source) (\<lambda>r. Inr (input, r))) ins = Inr routes \<Longrightarrow>
    list_all2 (\<lambda>(i, a) (j, b). i = j \<and> route_equiv a b) routes (map (\<lambda>(input, source). (input, route_of source)) outs)"
proof (induction ins arbitrary: budget outs routes)
  case (Cons x ins)
  obtain input source where x: "x = (input, source)"
    by (cases x)
  obtain src b rest where src: "resolve_source reports source budget = Inr (src, b)"
    and rest: "resolve_inputs reports ins b = Inr rest" and outs: "outs = (input, src) # rest"
    using Cons.prems(1) by (auto simp: x res_simps)
  obtain r rs where r: "draft_route nodes source = Inr r"
    and rs: "try_map (\<lambda>(input, source). rbind (draft_route nodes source) (\<lambda>r. Inr (input, r))) ins = Inr rs"
    and routes: "routes = (input, r) # rs"
    using Cons.prems(2) by (auto simp: x res_simps)
  have "route_equiv r (route_of src)"
  proof (cases source)
    case (Draft_PreviousTick out seed)
    show ?thesis
    proof (cases seed)
      case (Seed_Literal v)
      then show ?thesis
        using src r Draft_PreviousTick
        by (auto simp: res_simps and_then_def ensure_def route_equiv_def split: if_splits)
    next
      case (Seed_PreparedOutput sd)
      obtain w v where w: "report_output reports sd = Some w" and v: "import_one (so_port sd) w = Inr v"
        and s: "src = PreviousTick out v"
        using src Draft_PreviousTick Seed_PreparedOutput by (auto simp: res_simps)
      obtain t where t: "node_output nodes sd = Some t"
        and r': "r = \<lparr>plr_output = Some out, plr_initial = Some t, plr_same_tick = False\<rparr>"
        using r Draft_PreviousTick Seed_PreparedOutput by (auto simp: res_simps)
      have ty: "import_type (wv_ty w) = Inr (sv_step_type v)"
        using v by (auto simp: import_one_def import_values_def import_value_def from_encoded_def bt_get_def res_simps split: if_splits)
      obtain rep where rep: "(so_instance sd, rep) \<in> set reports" "(so_port sd, w) \<in> set (spr_outputs rep)"
        using w by (auto simp: report_output_def bt_get_def split: option.splits dest!: map_of_SomeD)
      then have "step_type_eq t (sv_step_type v)"
        using reports [OF rep(1)] t ty by (fastforce simp: report_typed_def node_output_def split: option.splits)
      then show ?thesis
        by (simp add: s r' route_equiv_def)
    qed
  qed (use src r in \<open>auto simp: route_equiv_def\<close>)
  then show ?case
    using Cons.IH [OF rest rs] by (simp add: outs routes)
qed simp

lemma resolved_compiles:
  assumes "plan_validate plan = Inr ()" and "plan_resolve plan reports = Inr g"
    and "\<And>i r. (i, r) \<in> set reports \<Longrightarrow> spr_instance r = i \<and> report_typed (psp_nodes plan) r"
  shows "\<exists>p. Plan_compile g = Inr p"
proof -
  obtain routes order where routes: "try_map (\<lambda>(input, source). rbind (draft_route (psp_nodes plan) source) (\<lambda>r. Inr (input, r))) (psp_inputs plan) = Inr routes"
    and order: "validate_routes (psp_nodes plan) routes = Inr order"
    using assms(1) by (auto simp: plan_validate_def and_then_def res_simps)
  obtain budget where "resolve_inputs reports (psp_inputs plan) budget = Inr (sg_inputs g)" and nodes: "sg_nodes g = psp_nodes plan"
    using assms(2) by (auto simp: plan_resolve_def res_simps)
  then have "list_all2 (\<lambda>(i, a) (j, b). i = j \<and> route_equiv a b) routes (map (\<lambda>(input, source). (input, route_of source)) (sg_inputs g))"
    using resolve_inputs_equiv [OF assms(3)] routes by blast
  then show ?thesis
    using validate_routes_equiv [OF _ order] by (auto simp: Plan_compile_def nodes)
qed

end
