(* ===== verification/Process_Remote.thy ===== *)
theory Process_Remote
  imports Process_Prepare
begin

text \<open>
  One invocation across processes. The session's adapter numbers the nodes of an attempt
  (\<^verbatim>\<open>crates/reiny/src/component/step/session.rs\<close>); the owner's executor builds the call, sends it to the host
  its node is placed on and checks the answer (\<^verbatim>\<open>component/process/step_owner/executor.rs\<close>); the host checks
  the call, reserves it and runs the worker (\<^verbatim>\<open>process/steps/execution.rs\<close>, \<^verbatim>\<open>component/step/worker.rs\<close>). The
  executor of a session in one process (\<^verbatim>\<open>component/step/worker.rs\<close>) is here as well. What sending and
  receiving give is an argument of the executor; \<open>host_exchange\<close> gives it by the channel of the owner
  (\<^verbatim>\<open>process/step_owner/channel.rs\<close>), the reader and writer of the host (\<^verbatim>\<open>process/connection.rs\<close>) and a round of the
  host's loop, frame limits and send errors included. Each call has one reading of the owner's clock and one
  of the host's. \<open>usize\<close> has 64 bits.
\<close>

section \<open>Workers\<close>

text \<open>What awaiting a worker's reply gives: its reply, that the worker is gone, or that the wait was given
  up (a deadline, a stop, or a dropped future).\<close>

datatype WorkerReply = Worker_Reply "(StepFailureKind \<times> string) + StepOutputs" | Worker_Gone | Worker_Interrupted FailureCode

type_synonym 'x worker = "'x \<Rightarrow> string \<Rightarrow> StepTick \<Rightarrow> StepInputs \<Rightarrow> WorkerReply \<times> 'x"

text \<open>The worker task of a component: it replies with what \<open>catch_node\<close> makes of the callback.\<close>

definition worker_run :: "'x executor \<Rightarrow> 'x worker" where
  "worker_run component_step x inst tick inputs = (case component_step x inst tick inputs of
     (NodeRun result disposal, x) \<Rightarrow> (Worker_Reply (catch_node result disposal), x)
   | (Abandoned, x) \<Rightarrow> (Worker_Gone, x))"

text \<open>The executor of a session within one process.\<close>

record 'x LocalExecutor =
  le_calls :: "string set"
  le_failure :: "StepFailureKind option"
  le_workers :: 'x

definition local_begin :: "'x LocalExecutor \<Rightarrow> 'x LocalExecutor" where
  "local_begin l = l\<lparr>le_failure := None\<rparr>"

definition local_invoke :: "'x worker \<Rightarrow> 'x LocalExecutor executor" where
  "local_invoke worker l inst tick inputs =
     (let failed = (\<lambda>kind message l. (NodeRun (Inr (Inl (NodeError message))) (Inr ()), l\<lparr>le_failure := Some kind\<rparr>)) in
      if inst \<in> le_calls l then
        (case worker (le_workers l) inst tick inputs of
           (Worker_Reply (Inr outputs), x) \<Rightarrow> (NodeRun (Inr (Inr outputs)) (Inr ()), l\<lparr>le_workers := x\<rparr>)
         | (Worker_Reply (Inl (kind, message)), x) \<Rightarrow> failed kind message (l\<lparr>le_workers := x\<rparr>)
         | (Worker_Gone, x) \<Rightarrow> failed Fail_WorkerLost ''step worker disappeared; effects unknown'' (l\<lparr>le_workers := x\<rparr>)
         | (Worker_Interrupted _, x) \<Rightarrow> (Abandoned, l\<lparr>le_workers := x\<rparr>))
      else failed Fail_WorkerLost ''step worker unavailable; effects unknown'' l)"

section \<open>The adapter\<close>

record StepDispatchContext =
  dc_run :: StepRunId
  dc_tick :: StepTick
  dc_ordinal :: u32
  dc_deadline :: nat

record DispatchFailure =
  df_kind :: StepFailureKind
  df_message :: string

datatype Dispatched = Dispatched "DispatchFailure + StepOutputs" | Dispatch_Abandoned

type_synonym 'y managed = "'y \<Rightarrow> StepDispatchContext \<Rightarrow> string \<Rightarrow> StepInputs \<Rightarrow> Dispatched \<times> 'y"

record 'y Adapter =
  ad_executor :: 'y
  ad_run :: "(StepRunId \<times> nat) option"
  ad_ordinal :: u32
  ad_failure :: "StepFailureKind option"

definition u32_checked_add :: "u32 \<Rightarrow> u32 \<Rightarrow> u32 option" where
  "u32_checked_add a b = (if unat a + unat b < 2 ^ 32 then Some (a + b) else None)"

definition adapter_begin :: "Run \<Rightarrow> 'y Adapter \<Rightarrow> 'y Adapter" where
  "adapter_begin run a = a\<lparr>ad_run := map_option (Pair (run_id run)) (run_deadline run), ad_ordinal := 0, ad_failure := None\<rparr>"

definition adapter_fail :: "StepFailureKind \<Rightarrow> string \<Rightarrow> 'y Adapter \<Rightarrow> NodeRun \<times> 'y Adapter" where
  "adapter_fail kind message a = (NodeRun (Inr (Inl (NodeError message))) (Inr ()), a\<lparr>ad_failure := Some kind\<rparr>)"

definition adapter_invoke :: "'y managed \<Rightarrow> 'y Adapter executor" where
  "adapter_invoke managed a inst tick inputs = (case ad_run a of
     None \<Rightarrow> adapter_fail Fail_WorkerLost ''missing owner attempt'' a
   | Some (run, deadline) \<Rightarrow>
       (case u32_checked_add (ad_ordinal a) 1 of
          None \<Rightarrow> adapter_fail Fail_WorkerLost ''node ordinal exhausted'' a
        | Some next_ordinal \<Rightarrow>
            (case managed (ad_executor a) \<lparr>dc_run = run, dc_tick = tick, dc_ordinal = ad_ordinal a, dc_deadline = deadline\<rparr> inst inputs of
               (result, y) \<Rightarrow> let a = a\<lparr>ad_ordinal := next_ordinal, ad_executor := y\<rparr> in
                 (case result of
                    Dispatch_Abandoned \<Rightarrow> (Abandoned, a)
                  | Dispatched (Inl e) \<Rightarrow> adapter_fail (df_kind e) (df_message e) a
                  | Dispatched (Inr outputs) \<Rightarrow> (NodeRun (Inr (Inr outputs)) (Inr ()), a)))))"

section \<open>The executor of the owner\<close>

record StepResult =
  sr_call :: StepCallKey
  sr_result :: "WireStepFailure + (string, WireValue) btree"

datatype HostReply = Reply_Result StepResult | Reply_Step | Reply_other

datatype Exchange = Exchange_Reply HostReply | Exchange_Lost string | Exchange_Pending

type_synonym 'h exchange = "'h \<Rightarrow> nat \<Rightarrow> InvokeStep \<Rightarrow> Exchange \<times> 'h"

record StepRetention =
  rt_bootstrap :: nat
  rt_previous :: nat
  rt_available :: nat

record Executor =
  ex_placement :: "(string, nat) btree"
  ex_key :: StepSessionKey
  ex_retention :: StepRetention
  ex_delayed :: "StepOutput set"
  ex_final_ordinal :: u32
  ex_run_sequence :: "u64 option"
  ex_retained :: nat
  ex_next_previous :: nat

definition bounds_failure :: DispatchFailure where
  "bounds_failure = \<lparr>df_kind = Fail_InvalidOutputs, df_message = ''aggregate retained step bytes exceeded''\<rparr>"

fun retain_loop :: "string \<Rightarrow> StepOutputs \<Rightarrow> Executor \<Rightarrow> (DispatchFailure + unit) \<times> Executor" where
  "retain_loop inst [] ex = (Inr (), ex)"
| "retain_loop inst ((port, v) # outs) ex =
     (case usize_checked_add (ex_retained ex) (length (sv_bytes v)) of
        None \<Rightarrow> (Inl bounds_failure, ex)
      | Some retained \<Rightarrow>
          let ex = ex\<lparr>ex_retained := retained\<rparr> in
          if StepOutput inst port \<in> ex_delayed ex then
            (case usize_checked_add (ex_next_previous ex) (length (sv_bytes v)) of
               None \<Rightarrow> (Inl bounds_failure, ex)
             | Some next_previous \<Rightarrow> retain_loop inst outs (ex\<lparr>ex_next_previous := next_previous\<rparr>))
          else retain_loop inst outs ex)"

definition executor_retain ::
  "StepDispatchContext \<Rightarrow> string \<Rightarrow> StepOutputs \<Rightarrow> Executor \<Rightarrow> (DispatchFailure + unit) \<times> Executor" where
  "executor_retain ctx inst outs ex =
     (let sequence = rid_sequence (dc_run ctx);
          ex = (if ex_run_sequence ex \<noteq> Some sequence
                then ex\<lparr>ex_run_sequence := Some sequence, ex_retained := 0, ex_next_previous := 0\<rparr> else ex)
      in case retain_loop inst outs ex of
           (Inl e, ex) \<Rightarrow> (Inl e, ex)
         | (Inr _, ex) \<Rightarrow>
             (case usize_checked_add (ex_retained ex) (ex_next_previous ex) of
                None \<Rightarrow> (Inl bounds_failure, ex)
              | Some used \<Rightarrow>
                  if used > rt_available (ex_retention ex) then (Inl bounds_failure, ex)
                  else if dc_ordinal ctx = ex_final_ordinal ex
                  then (Inr (), ex\<lparr>ex_retention := (ex_retention ex)\<lparr>rt_previous := ex_next_previous ex\<rparr>\<rparr>)
                  else (Inr (), ex)))"

definition lost :: "string \<Rightarrow> DispatchFailure" where
  "lost message = \<lparr>df_kind = Fail_WorkerLost, df_message = message\<rparr>"

text \<open>\<open>Debug\<close> of a failure code and \<open>Display\<close> of a \<open>ProcessError\<close>.\<close>

fun code_name :: "FailureCode \<Rightarrow> string" where
  "code_name MalformedMessage = ''MalformedMessage''"
| "code_name Authentication = ''Authentication''"
| "code_name Compatibility_differs = ''Compatibility''"
| "code_name Identity_differs = ''Identity''"
| "code_name Sequence_broken = ''Sequence''"
| "code_name Transition = ''Transition''"
| "code_name Factory_absent = ''Factory''"
| "code_name Assignment_invalid = ''Assignment''"
| "code_name ContextOpen = ''ContextOpen''"
| "code_name Prepare_failed = ''Prepare''"
| "code_name Admission = ''Admission''"
| "code_name Report_failed = ''Report''"
| "code_name Commit_failed = ''Commit''"
| "code_name Run_failed = ''Run''"
| "code_name UnexpectedExit = ''UnexpectedExit''"
| "code_name Panic_unwound = ''Panic''"
| "code_name ReadinessLost = ''ReadinessLost''"
| "code_name StopHook = ''StopHook''"
| "code_name Timeout_expired = ''Timeout''"
| "code_name Cancelled_by_owner = ''Cancelled''"
| "code_name Disconnected = ''Disconnected''"

definition process_error_text :: "FailureCode \<Rightarrow> string" where
  "process_error_text c = ''component host session: '' @ code_name c"

definition wire_tick :: "StepTick \<Rightarrow> WireTick" where
  "wire_tick t = \<lparr>wt_epoch = id_epoch (tick_id t), wt_index = id_index (tick_id t), wt_start = duration_wire (tick_start t),
     wt_dt = duration_wire (tick_dt t), wt_end = duration_wire (tick_end t)\<rparr>"

definition call_key :: "StepSessionKey \<Rightarrow> StepDispatchContext \<Rightarrow> string \<Rightarrow> StepCallKey" where
  "call_key key ctx inst = \<lparr>ck_session = key, ck_epoch = id_epoch (tick_id (dc_tick ctx)), ck_run_sequence = rid_sequence (dc_run ctx),
     ck_tick_index = id_index (tick_id (dc_tick ctx)), ck_node_ordinal = dc_ordinal ctx, ck_instance = inst\<rparr>"

definition duration_of_nanos :: "nat \<Rightarrow> Duration" where
  "duration_of_nanos n = \<lparr>dur_secs = word_of_nat (n div 10 ^ 9), dur_nanos = word_of_nat (n mod 10 ^ 9)\<rparr>"

definition executor_invoke :: "'h exchange \<Rightarrow> (StepCallKey \<Rightarrow> nat) \<Rightarrow> (Executor \<times> 'h) managed" where
  "executor_invoke exchange now exh ctx inst inputs = (case exh of (ex, h) \<Rightarrow>
     let give_up = (\<lambda>message h. (Dispatched (Inl (lost message)), (ex, h))) in
     (case bt_get (ex_placement ex) inst of
        None \<Rightarrow> give_up ''unassigned node'' h
      | Some index \<Rightarrow>
          let call = call_key (ex_key ex) ctx inst in
          (case export_values inputs of
             Inl e \<Rightarrow> give_up (process_error_text e) h
           | Inr values \<Rightarrow>
               (case exchange h index \<lparr>is_call = call, is_tick = wire_tick (dc_tick ctx), is_inputs = values,
                        is_remaining_budget = duration_wire (duration_of_nanos (dc_deadline ctx - now call))\<rparr> of
                  (Exchange_Pending, h) \<Rightarrow> (Dispatch_Abandoned, (ex, h))
                | (Exchange_Lost message, h) \<Rightarrow> give_up message h
                | (Exchange_Reply Reply_other, h) \<Rightarrow> give_up ''host disappeared during invocation'' h
                | (Exchange_Reply Reply_Step, h) \<Rightarrow> give_up ''unsolicited or mismatched step result'' h
                | (Exchange_Reply (Reply_Result result), h) \<Rightarrow>
                    if sr_call result \<noteq> call then give_up ''unsolicited or mismatched step result'' h
                    else (case sr_result result of
                        Inl f \<Rightarrow> (Dispatched (Inl \<lparr>df_kind = fst (import_failure f), df_message = snd (import_failure f)\<rparr>), (ex, h))
                      | Inr values \<Rightarrow>
                          (case import_values values of
                             Inl e \<Rightarrow> give_up (process_error_text e) h
                           | Inr outputs \<Rightarrow>
                               (case executor_retain ctx inst outputs ex of
                                  (Inl e, ex) \<Rightarrow> (Dispatched (Inl e), (ex, h))
                                | (Inr _, ex) \<Rightarrow> (Dispatched (Inr outputs), (ex, h)))))))))"

section \<open>The host's side\<close>

definition encode_result :: "(StepFailureKind \<times> string) + StepOutputs \<Rightarrow> StepSchema \<Rightarrow> WireStepFailure + (string, WireValue) btree" where
  "encode_result result schema = (case result of
     Inr outputs \<Rightarrow> map_err (\<lambda>_. export_failure Fail_InvalidOutputs ''invalid or oversized outputs'')
       (rbind (check_values (ss_outputs schema) outputs) (\<lambda>_. export_values outputs))
   | Inl (kind, message) \<Rightarrow> Inl (export_failure kind message))"

text \<open>The checks of one command before user code: the inputs, the budget, then the reservation.\<close>

definition host_accept ::
  "nat \<Rightarrow> nat \<Rightarrow> nodes \<Rightarrow> InvokeStep \<Rightarrow> ReplayGuard \<Rightarrow> FailureCode + StepSchema \<times> StepInputs \<times> StepTick \<times> ReplayGuard" where
  "host_accept imax now schemas invocation guard =
     rbind (ok_or (bt_get schemas (ck_instance (is_call invocation))) Assignment_invalid) (\<lambda>schema.
     rbind (import_values (is_inputs invocation)) (\<lambda>inputs.
     rbind (check_values (ss_inputs schema) inputs) (\<lambda>_.
     rbind (map_err (\<lambda>_. Assignment_invalid) (wire_duration (is_remaining_budget invocation))) (\<lambda>budget.
     if duration_is_zero budget then Inl Timeout_expired
     else if now + duration_in_nanos budget > imax then Inl Assignment_invalid
     else rbind (reserve invocation guard) (\<lambda>(tick, guard). Inr (schema, inputs, tick, guard))))))"

definition host_step ::
  "nat \<Rightarrow> nat \<Rightarrow> 'x worker \<Rightarrow> nodes \<Rightarrow> InvokeStep \<Rightarrow> ReplayGuard \<Rightarrow> 'x \<Rightarrow> (FailureCode + StepResult) \<times> ReplayGuard \<times> 'x" where
  "host_step imax now worker schemas invocation guard x = (case host_accept imax now schemas invocation guard of
     Inl e \<Rightarrow> (Inl e, guard, x)
   | Inr (schema, inputs, tick, guard) \<Rightarrow>
       (case worker x (ck_instance (is_call invocation)) tick inputs of
          (Worker_Reply result, x) \<Rightarrow> (Inr \<lparr>sr_call = is_call invocation, sr_result = encode_result result schema\<rparr>, guard, x)
        | (Worker_Gone, x) \<Rightarrow> (Inl Disconnected, guard, x)
        | (Worker_Interrupted e, x) \<Rightarrow> (Inl e, guard, x)))"

text \<open>A host answers commands until one is refused or a callback fails, and says why it ended.\<close>

fun host_serve ::
  "nat \<Rightarrow> 'x worker \<Rightarrow> nodes \<Rightarrow> (InvokeStep \<times> nat) list \<Rightarrow> ReplayGuard \<Rightarrow> 'x \<Rightarrow> StepResult list \<times> FailureCode option \<times> ReplayGuard \<times> 'x" where
  "host_serve imax worker schemas [] guard x = ([], None, guard, x)"
| "host_serve imax worker schemas ((invocation, now) # commands) guard x =
     (case host_step imax now worker schemas invocation guard x of
        (Inl e, guard, x) \<Rightarrow> ([], Some e, guard, x)
      | (Inr result, guard, x) \<Rightarrow>
          if is_ok (sr_result result) then
            (case host_serve imax worker schemas commands guard x of (results, why, guard, x) \<Rightarrow> (result # results, why, guard, x))
          else ([result], Some Run_failed, guard, x))"

section \<open>The exchange\<close>

text \<open>What an exchange rests on beside the two processes: the JSON of either direction, and how the host's socket
  cuts the bytes of a command into reads. An \<open>InvokeStep\<close> stands for the owner's message that carries it, a
  \<open>HostReply\<close> for the host's.\<close>

record StepWire =
  sw_owner :: "InvokeStep json"
  sw_host :: "HostReply json"
  sw_cuts :: "StepCallKey \<Rightarrow> nat \<Rightarrow> nat"

text \<open>A connection: the owner's channel, the host's reader and writer, and what has arrived at the owner and
  has not been read.\<close>

record Connection =
  cn_channel :: Channel
  cn_reader :: HostReader
  cn_writer :: HostWriter
  cn_inbox :: bytes

record RemoteHost =
  rh_schemas :: nodes
  rh_guard :: ReplayGuard
  rh_ended :: bool
  rh_connection :: Connection

text \<open>A host that ends reports its failure, if its writer still can, and answers nothing any more.\<close>

definition host_closes :: "StepWire \<Rightarrow> RemoteHost \<Rightarrow> RemoteHost" where
  "host_closes W h = (let c = rh_connection h in
     case writer_send (sw_host W) Written_Ok Reply_other (cn_writer c) of (_, writer, bs) \<Rightarrow>
       h\<lparr>rh_ended := True, rh_connection := c\<lparr>cn_writer := writer, cn_inbox := cn_inbox c @ bs\<rparr>\<rparr>)"

text \<open>A round of the host's loop with the bytes of one frame: read the command, check and run it, and write the
  result. A command that cannot be read, one that is refused, a result that cannot be sent and a failed
  callback end the host.\<close>

definition host_round ::
  "StepWire \<Rightarrow> nat \<Rightarrow> nat \<Rightarrow> 'x worker \<Rightarrow> (nat \<Rightarrow> nat) \<Rightarrow> bytes \<Rightarrow> RemoteHost \<Rightarrow> 'x \<Rightarrow> RemoteHost \<times> 'x" where
  "host_round W imax now worker cuts frame h x =
     (if rh_ended h then (h, x)
      else let c = rh_connection h in
        case reader_run (sw_owner W) (map (\<lambda>i. Suc (cuts i)) [0..<length frame]) frame (cn_reader c) of
          ([], _, _, reader) \<Rightarrow> (host_closes W (h\<lparr>rh_connection := c\<lparr>cn_reader := reader\<rparr>\<rparr>), x)
        | (invocation # _, _, _, reader) \<Rightarrow>
            (case host_step imax now worker (rh_schemas h) invocation (rh_guard h) x of
               (Inl e, guard, x) \<Rightarrow> (host_closes W (h\<lparr>rh_guard := guard, rh_connection := c\<lparr>cn_reader := reader\<rparr>\<rparr>), x)
             | (Inr result, guard, x) \<Rightarrow>
                 (case writer_send (sw_host W) Written_Ok (Reply_Result result) (cn_writer c) of (sent, writer, bs) \<Rightarrow>
                    let h = h\<lparr>rh_guard := guard, rh_connection := c\<lparr>cn_reader := reader, cn_writer := writer, cn_inbox := cn_inbox c @ bs\<rparr>\<rparr> in
                    if is_ok sent \<and> is_ok (sr_result result) then (h, x) else (host_closes W h, x))))"

text \<open>Sending a call over the channel of its host and receiving the answer. The writes and the waits end before
  their deadlines; a host that has ended has closed its socket.\<close>

definition host_exchange :: "StepWire \<Rightarrow> nat \<Rightarrow> (StepCallKey \<Rightarrow> nat) \<Rightarrow> 'x worker \<Rightarrow> (RemoteHost list \<times> 'x) exchange" where
  "host_exchange W imax now worker hx index invocation = (case hx of (hs, x) \<Rightarrow>
     if index \<ge> length hs then (Exchange_Lost (process_error_text Disconnected), hx)
     else let h = hs ! index; call = is_call invocation; c = rh_connection h in
       case channel_send (sw_owner W) Written_Ok invocation (cn_channel c) of
         (Inl e, channel, _) \<Rightarrow>
           (Exchange_Lost (process_error_text e), (hs[index := h\<lparr>rh_connection := c\<lparr>cn_channel := channel\<rparr>\<rparr>], x))
       | (Inr _, channel, frame) \<Rightarrow>
           (case host_round W imax (now call) worker (sw_cuts W call) frame (h\<lparr>rh_connection := c\<lparr>cn_channel := channel\<rparr>\<rparr>) x of (h, x) \<Rightarrow>
            let c = rh_connection h in
            case channel_receive (sw_host W) Disconnected (cn_inbox c) (cn_channel c) of (received, channel, rest) \<Rightarrow>
              (case received of Inl e \<Rightarrow> Exchange_Lost (process_error_text e) | Inr reply \<Rightarrow> Exchange_Reply reply,
               (hs[index := h\<lparr>rh_connection := c\<lparr>cn_channel := channel, cn_inbox := rest\<rparr>\<rparr>], x))))"

end
