(* ===== verification/Process_Exchange.thy ===== *)
theory Process_Exchange
  imports Process_Remote Channel_Correct
begin

text \<open>
  One exchange between an owner and a host: over a connection whose ends agree on the identity of the session and
  on the numbers of the next messages, a call whose frame and whose answer fit the frame limit is answered by
  what the host's round makes of it, and the connection is as good as before.
\<close>

section \<open>Connections\<close>

text \<open>A connection with room for \<open>n\<close> more messages in either direction, of a session among \<open>ids\<close>, and nothing
  under way.\<close>

definition connection_ok :: "SessionIdentity set \<Rightarrow> nat \<Rightarrow> Connection \<Rightarrow> bool" where
  "connection_ok ids n c \<longleftrightarrow>
     ch_identity (cn_channel c) \<in> ids \<and> rd_identity (cn_reader c) = ch_identity (cn_channel c)
     \<and> wr_identity (cn_writer c) = ch_identity (cn_channel c)
     \<and> reader_wf (cn_reader c) \<and> buffered (cn_reader c) = [] \<and> expects (ch_sent (cn_channel c)) (cn_reader c)
     \<and> unat (ch_sent (cn_channel c)) + n < 2 ^ 64
     \<and> wr_writable (cn_writer c) \<and> unat (wr_sequence (cn_writer c)) + n < 2 ^ 64
     \<and> ch_received (cn_channel c) = (if wr_sequence (cn_writer c) = 0 then None else Some (wr_sequence (cn_writer c) - 1))
     \<and> cn_inbox c = []"

text \<open>The connection of a session whose hosts have just been accepted.\<close>

definition connection_new :: "SessionIdentity \<Rightarrow> Connection" where
  "connection_new i = \<lparr>cn_channel = \<lparr>ch_identity = i, ch_sent = 0, ch_received = None, ch_healthy = True\<rparr>, cn_reader = reader_new i,
     cn_writer = \<lparr>wr_identity = i, wr_sequence = 0, wr_writable = True\<rparr>, cn_inbox = []\<rparr>"

lemma connection_new_ok: "i \<in> ids \<Longrightarrow> n < 2 ^ 64 \<Longrightarrow> connection_ok ids n (connection_new i)"
  unfolding connection_ok_def connection_new_def expects_def Connection.simps Channel.simps HostWriter.simps
  using reader_new_wf [of i] by (auto simp: reader_new_def)

lemma connection_mono: "connection_ok ids n c \<Longrightarrow> m \<le> n \<Longrightarrow> connection_ok ids m c"
  by (auto simp: connection_ok_def)

lemma sequence_room:
  fixes q :: u64
  assumes "unat q + n < 2 ^ 64" and "0 < n"
  shows "q \<noteq> - 1" and "q + 1 \<noteq> 0" and "unat (q + 1) + (n - 1) < 2 ^ 64"
proof -
  have q: "unat q + 1 < 2 ^ 64"
    using assms by simp
  have u: "unat (q + 1) = unat q + 1"
    using q by (simp add: unat_word_ariths)
  then show "q + 1 \<noteq> 0" "unat (q + 1) + (n - 1) < 2 ^ 64"
    using assms by (auto simp: word_unat_eq_iff)
  then show "q \<noteq> - 1"
    by auto
qed

section \<open>Commands and answers\<close>

lemma command_arrives:
  assumes js: "json_ok js" and wf: "reader_wf r" "buffered r = []" "expects q r" and q: "q \<noteq> - 1"
    and seal: "seal_message js (rd_identity r) q m = Inr frame"
  obtains r' where "reader_run js (map (\<lambda>i. Suc (cuts i)) [0..<length frame]) frame r = ([m], None, [], r')" and "reader_wf r'"
    and "buffered r' = []" and "expects (q + 1) r'" and "rd_identity r' = rd_identity r"
proof -
  let ?ks = "map (\<lambda>i. Suc (cuts i)) [0..<length frame]"
  have "sealed js (rd_identity r) q [m] = Some (buffered r @ frame)"
    using seal q wf(2) by simp
  from run_sealed [OF js wf(1,3) this, of ?ks] obtain j rest r' where run: "reader_run js ?ks frame r = (take j [m], None, rest, r')"
      "length rest \<le> length frame - length ?ks" "reader_wf r'" "sealed js (rd_identity r) (q + word_of_nat j) (drop j [m]) = Some (buffered r' @ rest)"
      "expects (q + word_of_nat j) r'" "rd_identity r' = rd_identity r" "j \<le> length [m]"
    by auto
  have rest: "rest = []"
    using run(2) by simp
  then have "drop j [m] = []"
    using run(4) by (intro sealed_buffered_Nil [OF run(3)]) simp
  then have j: "j = 1"
    using run(7) by (cases j) simp_all
  show thesis
    using that run rest j by simp
qed

lemma is_ok_E: "is_ok r \<Longrightarrow> (\<And>v. r = Inr v \<Longrightarrow> thesis) \<Longrightarrow> thesis"
  by (cases r) (simp_all add: is_ok_def)

lemma host_closes_simps [simp]:
  "rh_schemas (host_closes W h) = rh_schemas h" "rh_guard (host_closes W h) = rh_guard h" "rh_ended (host_closes W h)"
  "cn_channel (rh_connection (host_closes W h)) = cn_channel (rh_connection h)"
  by (simp_all add: host_closes_def Let_def split: prod.split)

lemma host_closes_inbox: "\<exists>bs. cn_inbox (rh_connection (host_closes W h)) = cn_inbox (rh_connection h) @ bs"
  by (auto simp: host_closes_def Let_def split: prod.split)

text \<open>A call that cannot be encoded or whose frame exceeds the limit is lost at the owner; its host hears nothing of it.\<close>

lemma exchange_refused:
  assumes "k < length hs" and "seal_message (sw_owner W) (ch_identity ch) (ch_sent ch) cmd = Inl e"
    and "cn_channel (rh_connection (hs ! k)) = ch" and "ch_sent ch \<noteq> - 1"
  shows "host_exchange W imax now worker (hs, x) k cmd = (Exchange_Lost (process_error_text e), (hs, x))"
  using assms by (simp add: host_exchange_def channel_send_def Let_def list_update_same_conv)

lemma exchange_through:
  assumes js: "json_ok (sw_owner W)" "json_ok (sw_host W)" and k: "k < length hs" and live: "\<not> rh_ended (hs ! k)"
    and c: "connection_ok ids n (rh_connection (hs ! k))" "0 < n"
    and out: "\<And>i q. i \<in> ids \<Longrightarrow> is_ok (seal_message (sw_owner W) i q cmd)"
    and step: "host_step imax (now (is_call cmd)) worker (rh_schemas (hs ! k)) cmd (rh_guard (hs ! k)) x = (Inr res, g', x')"
    and reply: "\<And>i q. i \<in> ids \<Longrightarrow> is_ok (seal_message (sw_host W) i q (Reply_Result res))"
  obtains h' where "host_exchange W imax now worker (hs, x) k cmd = (Exchange_Reply (Reply_Result res), (hs[k := h'], x'))"
    and "rh_schemas h' = rh_schemas (hs ! k)" and "rh_guard h' = g'" and "rh_ended h' \<longleftrightarrow> \<not> is_ok (sr_result res)"
    and "is_ok (sr_result res) \<Longrightarrow> connection_ok ids (n - 1) (rh_connection h')"
proof -
  define c0 where "c0 = rh_connection (hs ! k)"
  define ch where "ch = cn_channel c0"
  define w where "w = cn_writer c0"
  note ok = c(1) [unfolded connection_ok_def, folded c0_def, folded ch_def w_def]
  note sent = sequence_room [of "ch_sent ch" n, OF _ c(2)] and written = sequence_room [of "wr_sequence w" n, OF _ c(2)]
  have ids: "ch_identity ch \<in> ids" "rd_identity (cn_reader c0) = ch_identity ch" "wr_identity w = ch_identity ch"
    and room: "unat (ch_sent ch) + n < 2 ^ 64" "unat (wr_sequence w) + n < 2 ^ 64"
    using ok by blast+
  obtain frame where frame: "seal_message (sw_owner W) (ch_identity ch) (ch_sent ch) cmd = Inr frame"
    using out [OF ids(1)] by (rule is_ok_E)
  obtain bs where bs: "seal_message (sw_host W) (ch_identity ch) (wr_sequence w) (Reply_Result res) = Inr bs"
    using reply [OF ids(1)] by (rule is_ok_E)
  let ?ch = "ch\<lparr>ch_sent := ch_sent ch + 1, ch_healthy := True\<rparr>"
  let ?w = "w\<lparr>wr_sequence := wr_sequence w + 1, wr_writable := True\<rparr>"
  have send: "channel_send (sw_owner W) Written_Ok cmd ch = (Inr (), ?ch, frame)"
    using sent(1) [OF room(1)] frame by (simp add: channel_send_def written_result_def)
  obtain r' where read: "reader_run (sw_owner W) (map (\<lambda>i. Suc (sw_cuts W (is_call cmd) i)) [0..<length frame]) frame (cn_reader c0) = ([cmd], None, [], r')"
    and r': "reader_wf r'" "buffered r' = []" "expects (ch_sent ch + 1) r'" "rd_identity r' = ch_identity ch"
    using command_arrives [OF js(1) _ _ _ sent(1) [OF room(1)], of "cn_reader c0" cmd frame "sw_cuts W (is_call cmd)"] ok frame by auto
  have answer: "writer_send (sw_host W) Written_Ok (Reply_Result res) w = (Inr (), ?w, bs)"
    using written(1) [OF room(2)] bs ids(3) ok by (simp add: writer_send_def written_result_def)
  let ?c = "c0\<lparr>cn_channel := ?ch, cn_reader := r', cn_writer := ?w, cn_inbox := bs\<rparr>"
  define h1 where "h1 = (hs ! k)\<lparr>rh_guard := g', rh_connection := ?c\<rparr>"
  define h2 where "h2 = (if is_ok (sr_result res) then h1 else host_closes W h1)"
  have round: "host_round W imax (now (is_call cmd)) worker (sw_cuts W (is_call cmd)) frame ((hs ! k)\<lparr>rh_connection := c0\<lparr>cn_channel := ?ch\<rparr>\<rparr>) x = (h2, x')"
    using live read step answer ok
    by (simp add: host_round_def Let_def w_def [symmetric] h2_def h1_def is_ok_def [of "Inr ()"] del: upt_conv_Nil)
  obtain rest where inbox: "cn_inbox (rh_connection h2) = bs @ rest" and rest: "is_ok (sr_result res) \<Longrightarrow> rest = []"
  proof (cases "is_ok (sr_result res)")
    case True
    then show thesis
      by (intro that [of "[]"]) (simp_all add: h2_def h1_def)
  next
    case False
    obtain bs' where "cn_inbox (rh_connection (host_closes W h1)) = cn_inbox (rh_connection h1) @ bs'"
      using host_closes_inbox by blast
    then show thesis
      using False by (intro that [of bs']) (simp_all add: h2_def, simp add: h1_def)
  qed
  have ch2: "cn_channel (rh_connection h2) = ?ch"
    by (simp add: h2_def h1_def)
  have receive: "channel_receive (sw_host W) Disconnected (bs @ rest) ?ch
      = (Inr (Reply_Result res), ?ch\<lparr>ch_received := Some (wr_sequence w), ch_healthy := True\<rparr>, rest)"
    by (rule receive_sealed [OF js(2)]) (use bs ok written(1) [OF room(2)] in simp_all)
  let ?h = "h2\<lparr>rh_connection := (rh_connection h2)\<lparr>cn_channel := ?ch\<lparr>ch_received := Some (wr_sequence w), ch_healthy := True\<rparr>, cn_inbox := rest\<rparr>\<rparr>"
  show thesis
  proof (rule that [of ?h])
    show "host_exchange W imax now worker (hs, x) k cmd = (Exchange_Reply (Reply_Result res), (hs[k := ?h], x'))"
      using k send round inbox ch2 receive
      by (simp add: host_exchange_def Let_def c0_def [symmetric] ch_def [symmetric])
    show "connection_ok ids (n - 1) (rh_connection ?h)" if "is_ok (sr_result res)"
    proof -
      have "h2 = h1" "rest = []"
        using that rest by (simp_all add: h2_def)
      then show ?thesis
        using ids r' sent(3) [OF room(1)] written(2,3) [OF room(2)] by (simp add: connection_ok_def h1_def)
    qed
  qed (use live in \<open>simp_all add: h2_def h1_def\<close>)
qed

end
