(* ===== verification/Process_Transparent.thy ===== *)
theory Process_Transparent
  imports Process_Exchange
begin

text \<open>
  Where the nodes of a graph run makes no difference: a tick advanced over hosts gives what it gives in
  one process. The proof follows a tick node by node; between two nodes every host's replay guard is where
  the calls so far have put it (\<open>guard_synced\<close>), so it accepts the next call, and only that.
\<close>

section \<open>Times and ticks\<close>

lemma dur_wire [simp]: "dur (duration_wire d) = d"
  by (simp add: dur_def duration_wire_def)

lemma tick_of_wire: "id_epoch (tick_id t) = epoch \<Longrightarrow> tick_of epoch (wire_tick t) = t"
  by (simp add: tick_of_def wire_tick_def)

definition tick_valid :: "StepTick \<Rightarrow> bool" where
  "tick_valid t \<longleftrightarrow> duration_wf (tick_start t) \<and> duration_wf (tick_dt t) \<and> duration_wf (tick_end t)
     \<and> \<not> duration_is_zero (tick_dt t) \<and> duration_checked_add (tick_start t) (tick_dt t) = Some (tick_end t)
     \<and> id_index (tick_id t) \<noteq> U64_MAX"

lemma wire_tick_valid: "tick_valid t \<Longrightarrow> WireTick_validate (wire_tick t) = Inr ()"
  by (simp add: tick_valid_def WireTick_validate_Inr wire_tick_def duration_wf_def NANOS_PER_SEC_def)
    (simp add: duration_wire_def)

lemma validated_tick_valid:
  assumes "sched_inv s" and "StepRequest_validate req (sch_plan s) (sched_clock s) = Inr r" and "duration_wf (req_dt req)"
  shows "tick_valid (vr_tick r)"
proof -
  note t = validate_tick [OF assms(2)]
  have "duration_wf (sch_time s)"
    using assms(1) by (simp add: sched_inv_def)
  moreover have "sch_next_index s \<noteq> U64_MAX"
    using t(5) unat_lt [of "vr_next_index r"] by auto
  ultimately show ?thesis
    using t assms(3) duration_checked_add_exact(1) [OF _ assms(3) t(4)] by (simp add: tick_valid_def)
qed

lemma duration_of_nanos:
  assumes "n < 2 ^ 64 * 10 ^ 9"
  shows "duration_wf (duration_of_nanos n)" and "duration_in_nanos (duration_of_nanos n) = n"
proof -
  have "n div 10 ^ 9 < 2 ^ 64"
    using assms by (simp add: div_less_iff_less_mult)
  then have secs: "unat (word_of_nat (n div 10 ^ 9) :: u64) = n div 10 ^ 9"
    by (simp add: unat_of_nat)
  have nanos: "unat (word_of_nat (n mod 10 ^ 9) :: u32) = n mod 10 ^ 9"
    by (simp add: unat_of_nat)
  show "duration_wf (duration_of_nanos n)"
    using nanos by (simp add: duration_wf_def duration_of_nanos_def NANOS_PER_SEC_def word_less_nat_alt)
  show "duration_in_nanos (duration_of_nanos n) = n"
    unfolding duration_in_nanos_def duration_of_nanos_def Duration.simps secs nanos by simp
qed

lemma duration_zero_nanos: "duration_is_zero d \<longleftrightarrow> duration_in_nanos d = 0"
  by (auto simp: duration_is_zero_def duration_in_nanos_def word_unat_eq_iff)

section \<open>Guards during a tick\<close>

text \<open>A guard between two nodes of a tick: its nodes among \<open>pre\<close> are done, the others are to come.\<close>

definition guard_synced :: "BoundSteps \<Rightarrow> string list \<Rightarrow> StepTick \<Rightarrow> u64 \<Rightarrow> string list \<Rightarrow> ReplayGuard \<Rightarrow> bool" where
  "guard_synced bound assigned tick run pre g \<longleftrightarrow>
     rg_session g = bs_session bound \<and> rg_epoch g = bs_epoch bound \<and> rg_order g = bs_order bound \<and> rg_assigned g = assigned
     \<and> rg_cursor g = length (filter (\<lambda>i. i \<in> set assigned) pre) mod length assigned
     \<and> (rg_cursor g \<noteq> 0 \<longrightarrow> rg_active_run g = Some run) \<and> bt_wf (rg_progress g)
     \<and> (\<forall>i \<in> set assigned. if i \<in> set pre
          then bt_get (rg_progress g) i = Some (id_index (tick_id tick) + 1, tick_end tick, Some run)
          else (\<exists>previous. bt_get (rg_progress g) i = Some (id_index (tick_id tick), tick_start tick, previous)
                 \<and> is_none_or (\<lambda>p. p < run) previous))"

lemma synced_pending:
  "guard_synced bound assigned tick run pre g \<Longrightarrow> i \<in> set assigned \<Longrightarrow> i \<notin> set pre \<Longrightarrow>
   \<exists>previous. bt_get (rg_progress g) i = Some (id_index (tick_id tick), tick_start tick, previous) \<and> is_none_or (\<lambda>p. p < run) previous"
  unfolding guard_synced_def by metis

lemma synced_skip:
  "guard_synced bound assigned tick run pre g \<Longrightarrow> i \<notin> set assigned \<Longrightarrow> guard_synced bound assigned tick run (pre @ [i]) g"
  by (auto simp: guard_synced_def)

lemma synced_new:
  assumes "ReplayGuard_new bound schemas = Inr g" and "bt_wf schemas"
    and "id_index (tick_id tick) = 0" and "tick_start tick = dur (bs_initial_time bound)"
  shows "guard_synced bound (filter (bt_contains schemas) (bs_order bound)) tick run [] g"
proof -
  have at: "guard_at_call bound (rg_assigned g) [] 0 g" and a: "rg_assigned g = filter (bt_contains schemas) (bs_order bound)"
    using guard_new [OF assms(1,2)] by blast+
  have "bt_get (rg_progress g) i = Some (0, dur (bs_initial_time bound), None)" if "i \<in> set (rg_assigned g)" for i
    using that at by (auto simp: guard_at_call_def in_set_conv_nth last_call_def)
  then show ?thesis
    using at assms(3,4) unfolding a by (simp add: guard_synced_def guard_at_call_def)
qed

lemma synced_next:
  assumes "guard_synced bound assigned tick run order g" and "assigned = filter P order"
    and "id_index (tick_id tick') = id_index (tick_id tick) + 1" and "tick_start tick' = tick_end tick" and "run < run'"
  shows "guard_synced bound assigned tick' run' [] g"
proof -
  have "filter (\<lambda>i. i \<in> set assigned) order = assigned"
    unfolding assms(2) by (rule filter_cong) auto
  moreover have "set assigned \<subseteq> set order"
    by (auto simp: assms(2))
  ultimately show ?thesis
    using assms by (auto simp: guard_synced_def)
qed

lemma filter_at_cursor:
  assumes "order = pre @ inst # post" and "assigned = filter P order" and "P inst"
  shows "list_get assigned (length (filter P pre)) = Some inst"
  using assms by (simp add: list_get_def nth_append)

lemma synced_reserve:
  assumes "guard_synced bound assigned tick run pre g" and order: "bs_order bound = pre @ inst # post"
    and "distinct (bs_order bound)" and assigned: "assigned = filter P (bs_order bound)" and "P inst"
    and "tick_valid tick" and "id_epoch (tick_id tick) = bs_epoch bound" and "run \<noteq> U64_MAX"
    and "is_tick c = wire_tick tick"
    and call: "is_call c = \<lparr>ck_session = bs_session bound, ck_epoch = bs_epoch bound, ck_run_sequence = run,
      ck_tick_index = id_index (tick_id tick), ck_node_ordinal = ordinal, ck_instance = inst\<rparr>" and "unat ordinal = length pre"
  obtains g' where "reserve c g = Inr (tick, g')" and "guard_synced bound assigned tick run (pre @ [inst]) g'"
proof -
  have inst: "inst \<in> set assigned" "inst \<notin> set pre"
    using assms(3,5) by (simp_all add: assigned order)
  obtain previous where prev: "bt_get (rg_progress g) inst = Some (id_index (tick_id tick), tick_start tick, previous)"
    "is_none_or (\<lambda>p. p < run) previous"
    using synced_pending [OF assms(1) inst] by blast
  have pre: "filter (\<lambda>i. i \<in> set assigned) pre = filter P pre"
    by (rule filter_cong) (auto simp: assigned order)
  have "length (filter P pre) < length assigned"
    using assms(5) by (simp add: assigned order)
  then have cursor: "rg_cursor g = length (filter P pre)"
    using assms(1) pre by (simp add: guard_synced_def)
  have at: "list_get assigned (rg_cursor g) = Some inst"
    unfolding cursor by (rule filter_at_cursor [OF order assigned assms(5)])
  define g' where "g' = g\<lparr>rg_progress := bt_insert inst (id_index (tick_id tick) + 1, tick_end tick, Some run) (rg_progress g),
     rg_active_run := Some run, rg_cursor := (rg_cursor g + 1) mod length assigned\<rparr>"
  have "reserve c g = Inr (tick, g')"
    unfolding reserve_Inr
    using assms(1,6,7,8) prev at wire_tick_valid [OF assms(6)] assms(11)
    by (auto simp: assms(9) call guard_synced_def tick_of_wire g'_def order list_get_def nth_append)
      (simp_all add: wire_tick_def)
  moreover have "guard_synced bound assigned tick run (pre @ [inst]) g'"
    using assms(1) inst cursor by (auto simp: guard_synced_def g'_def bt_get_insert pre)
  ultimately show thesis
    by (rule that)
qed

section \<open>Inputs\<close>

definition small :: "nat \<Rightarrow> StepValue \<Rightarrow> bool" where
  "small V v \<longleftrightarrow> length (sv_bytes v) \<le> V"

definition canon_values :: "(string, StepValue) btree \<Rightarrow> (string, StepValue) btree" where
  "canon_values vs = map (\<lambda>(p, v). (p, canon_value v)) vs"

lemma canon_values_get: "bt_get (canon_values vs) p = map_option canon_value (bt_get vs p)"
  unfolding canon_values_def by (rule bt_get_canon)

lemma canon_values_wf [simp]: "bt_wf (canon_values vs) \<longleftrightarrow> bt_wf vs"
  unfolding canon_values_def by (rule bt_wf_map)

lemma canon_value_simps [simp]: "sv_bytes (canon_value v) = sv_bytes v" "sv_step_type (canon_value v) = canon_type (sv_step_type v)"
  by (simp_all add: canon_value_def)

text \<open>Every value a scheduler holds has at most \<open>V\<close> bytes.\<close>

definition sched_small :: "nat \<Rightarrow> StepScheduler \<Rightarrow> bool" where
  "sched_small V s \<longleftrightarrow> (\<forall>v \<in> snd ` set (sch_previous s). small V v)
     \<and> (\<forall>i src v. (i, PreviousTick src v) \<in> set (sg_inputs (plan_graph (sch_plan s))) \<longrightarrow> small V v)"

lemma bt_get_in: "bt_get m k = Some v \<Longrightarrow> v \<in> snd ` set m"
  unfolding bt_get_def by (force dest: map_of_SomeD)

lemma input_value_typed:
  assumes inv: "sched_inv s" and r: "StepRequest_validate req (sch_plan s) (sched_clock s) = Inr r"
    and outs: "outs_ok (sg_nodes (plan_graph (sch_plan s))) pre outs"
    and order: "plan_order (sch_plan s) = pre @ inst # post"
    and ns: "(input, src) \<in> set (node_routes (plan_graph (sch_plan s)) inst)"
    and fit: "sched_small V s" "\<forall>v \<in> snd ` set (req_inputs req). small V v" "\<forall>v \<in> snd ` set outs. small V v"
  obtains v t where "input_value s r outs (input, src) = Some v" and "small V v"
    and "node_input (sg_nodes (plan_graph (sch_plan s))) input = Some t" and "step_type_eq (sv_step_type v) t"
proof -
  let ?g = "plan_graph (sch_plan s)"
  have mem: "(input, src) \<in> set (sg_inputs ?g)"
    using ns by (simp add: node_routes_def)
  have compiled: "Plan_compile ?g = Inr (sch_plan s)"
    using inv by (simp add: sched_inv_def)
  obtain t where t: "node_input (sg_nodes ?g) input = Some t" "source_ok (sg_nodes ?g) t src"
    using bspec [OF Plan_compile_wired [OF compiled] mem] by (auto simp: wired_def)
  obtain v where v: "input_value s r outs (input, src) = Some v"
    using input_available [OF inv validate_ready [OF r] outs order ns] by auto
  have "small V v \<and> step_type_eq (sv_step_type v) t"
  proof (cases src)
    case External
    have "check_external ?g (req_inputs req) (input, External) () = Inr ()"
      using r mem External by (auto simp: StepRequest_validate_def res_simps try_for_unit split: if_splits)
    then show ?thesis
      using v External t(1) fit(2) validate_tick(6) [OF r] by (auto simp: check_external_def res_simps input_value_def dest: bt_get_in split: if_splits)
  next
    case (SameTick out)
    then have get: "bt_get outs out = Some v"
      using v by (simp add: input_value_def)
    then have "typed_at (sg_nodes ?g) outs out"
      using outs unfolding outs_ok_def by (metis option.distinct(1))
    then have "step_type_eq (sv_step_type v) t"
      using t(2) get SameTick by (auto simp: typed_at_def output_typed_def step_type_eq_def)
    then show ?thesis
      using bspec [OF fit(3) bt_get_in [OF get]] by simp
  next
    case (PreviousTick out init)
    show ?thesis
    proof (cases "sch_next_index s = 0")
      case True
      then show ?thesis
        using v PreviousTick t(2) mem fit(1) by (auto simp: input_value_def sched_small_def)
    next
      case False
      then have get: "bt_get (sch_previous s) out = Some v"
        using v PreviousTick by (simp add: input_value_def)
      have "typed_at (sg_nodes ?g) (sch_previous s) out"
        using inv False delayed_in [of input out init ?g] mem PreviousTick by (simp add: sched_inv_def)
      then have "step_type_eq (sv_step_type v) t"
        using t(2) get PreviousTick by (auto simp: typed_at_def output_typed_def step_type_eq_def)
      then show ?thesis
        using bt_get_in [OF get] fit(1) unfolding sched_small_def by blast
    qed
  qed
  with v t(1) show thesis
    using that by blast
qed

text \<open>The inputs handed to a node are what its schema declares.\<close>

definition values_fit :: "nat \<Rightarrow> (string, StepType) btree \<Rightarrow> StepInputs \<Rightarrow> bool" where
  "values_fit V ports ins \<longleftrightarrow> bt_wf ins \<and> fst ` set ins = fst ` set ports
     \<and> (\<forall>(p, v) \<in> set ins. small V v \<and> (\<exists>t. bt_get ports p = Some t \<and> step_type_eq (sv_step_type v) t))"

lemma node_inputs_fit:
  assumes inv: "sched_inv s" and r: "StepRequest_validate req (sch_plan s) (sched_clock s) = Inr r"
    and outs: "outs_ok (sg_nodes (plan_graph (sch_plan s))) pre outs"
    and order: "plan_order (sch_plan s) = pre @ inst # post"
    and ins: "node_inputs s r outs inst = Some ins"
    and schema: "bt_get (sg_nodes (plan_graph (sch_plan s))) inst = Some schema"
    and fit: "sched_small V s" "\<forall>v \<in> snd ` set (req_inputs req). small V v" "\<forall>v \<in> snd ` set outs. small V v"
  shows "values_fit V (ss_inputs schema) ins"
proof -
  let ?g = "plan_graph (sch_plan s)"
  have wf: "bt_wf (sg_inputs ?g)" and compiled: "Plan_compile ?g = Inr (sch_plan s)"
    using inv by (simp_all add: sched_inv_def graph_wf_def)
  obtain kvs where kvs: "ins = bt_extend [] kvs"
    and eq: "map (\<lambda>ns. map_option (Pair (si_port (fst ns))) (input_value s r outs ns)) (node_routes ?g inst) = map Some kvs"
    using ins by (auto simp: node_inputs_def those_Some_iff)
  have wf_ins: "bt_wf ins"
    by (simp add: kvs bt_extend_Nil_wf)
  have keys: "fst ` set kvs = (\<lambda>ns. si_port (fst ns)) ` set (node_routes ?g inst)"
    using map_Some_Pair [OF eq] by force
  have keys': "fst ` set ins = fst ` set kvs"
    using bt_extend_Nil_get [of kvs] bt.get_None_iff [OF wf_ins] map_of_eq_None_iff [of "rev kvs"]
    by (metis kvs set_rev subsetI subset_antisym)
  have entry: "\<exists>v t. bt_get ins (si_port input) = Some v \<and> small V v \<and> bt_get (ss_inputs schema) (si_port input) = Some t
      \<and> step_type_eq (sv_step_type v) t" if route: "(input, src) \<in> set (node_routes ?g inst)" for input src
  proof -
    obtain v t where "input_value s r outs (input, src) = Some v" "small V v"
      "node_input (sg_nodes ?g) input = Some t" "step_type_eq (sv_step_type v) t"
      using input_value_typed [OF inv r outs order route fit] by blast
    moreover have "si_instance input = inst" "(input, src) \<in> set (sg_inputs ?g)"
      using route by (auto simp: node_routes_def)
    ultimately show ?thesis
      using node_inputs_get [OF wf ins] schema by (auto simp: node_input_def)
  qed
  have routed: "\<exists>input src. (input, src) \<in> set (node_routes ?g inst) \<and> si_port input = p" if "p \<in> fst ` set (ss_inputs schema)" for p
  proof -
    have "(inst, schema) \<in> set (sg_nodes ?g)"
      using schema by (simp add: bt_get_def map_of_SomeD)
    then have "node_ok (sg_inputs ?g) (inst, schema)"
      using compiled by (simp add: Plan_compile_Inr)
    then have "StepInput inst p \<in> fst ` set (sg_inputs ?g)"
      using that by (force simp: node_ok_def)
    then show ?thesis
      by (force simp: node_routes_def)
  qed
  have "fst ` set ins = fst ` set (ss_inputs schema)"
  proof
    show "fst ` set (ss_inputs schema) \<subseteq> fst ` set ins"
      unfolding keys' keys using routed by force
    show "fst ` set ins \<subseteq> fst ` set (ss_inputs schema)"
    proof
      fix p assume "p \<in> fst ` set ins"
      then obtain input src where "(input, src) \<in> set (node_routes ?g inst)" "si_port input = p"
        unfolding keys' keys by auto
      then obtain t where "bt_get (ss_inputs schema) p = Some t"
        using entry by blast
      then show "p \<in> fst ` set (ss_inputs schema)"
        unfolding bt_get_def by (force dest: map_of_SomeD)
    qed
  qed
  moreover have "small V v \<and> (\<exists>t. bt_get (ss_inputs schema) p = Some t \<and> step_type_eq (sv_step_type v) t)"
    if "(p, v) \<in> set ins" for p v
  proof -
    have "p \<in> fst ` set ins"
      using that by force
    then obtain input src where "(input, src) \<in> set (node_routes ?g inst)" "si_port input = p"
      unfolding keys' keys by auto
    then show ?thesis
      using entry that bt.get_Some_iff [OF wf_ins, of p v] by fastforce
  qed
  ultimately show ?thesis
    using wf_ins by (auto simp: values_fit_def)
qed

section \<open>Values over the wire\<close>

text \<open>The wire form of values of the declared ports and types, each of at most \<open>V\<close> bytes.\<close>

definition payload_fits :: "nat \<Rightarrow> (string, StepType) btree \<Rightarrow> (string, WireValue) btree \<Rightarrow> bool" where
  "payload_fits V ports ws \<longleftrightarrow>
     list_all2 (\<lambda>(p, w) (q, t). p = q \<and> wv_ty w = export_type t \<and> length (wv_bytes w) \<le> V) ws ports"

lemma export_type_cong: "step_type_eq t u \<Longrightarrow> export_type t = export_type u"
  by (simp add: export_type_def step_type_eq_def)

lemma keys_in_order: "bt_wf xs \<Longrightarrow> bt_wf ys \<Longrightarrow> fst ` set xs = fst ` set ys \<Longrightarrow> map fst xs = map fst ys"
  unfolding bt_wf_def by (intro strict_sorted_equal) simp_all

definition wire_values :: "(string, StepValue) btree \<Rightarrow> (string, WireValue) btree" where
  "wire_values vs = map (\<lambda>(p, v). (p, \<lparr>wv_ty = export_type (sv_step_type v), wv_bytes = sv_bytes v\<rparr>)) vs"

lemma export_small:
  assumes "int V \<le> MAX_VALUE_BYTES" and "int (length vs) \<le> MAX_ENTRIES" and "\<forall>(p, v) \<in> set vs. small V v \<and> type_ok (sv_step_type v)"
  shows "export_values vs = Inr (wire_values vs)" and "import_values (wire_values vs) = Inr (canon_values vs)"
proof -
  have "try_map (\<lambda>(p, v). rbind (export_value v) (\<lambda>w. Inr (p, w))) vs = Inr (wire_values vs)"
    unfolding wire_values_def using assms by (intro try_map_ok) (force simp: export_value_def small_def)
  then show ws: "export_values vs = Inr (wire_values vs)"
    using assms(2) by (simp add: export_values_def)
  show "import_values (wire_values vs) = Inr (canon_values vs)"
    unfolding canon_values_def using assms(3) by (intro import_export_values [OF ws]) auto
qed

lemma ports_eq_get:
  "ports_eq m n \<Longrightarrow> rel_option step_type_eq (bt_get m p) (bt_get n p)"
  unfolding ports_eq_def
proof (induction rule: list_all2_induct)
  case (Cons x xs y ys)
  then show ?case
    by (cases x; cases y) (auto simp: bt_get_def)
qed (simp add: bt_get_def)

lemma ports_eq_keys: "ports_eq m n \<Longrightarrow> map fst m = map fst n"
  unfolding ports_eq_def by (induction rule: list_all2_induct) auto

text \<open>Values that fit a schema pass the check of the other process.\<close>

lemma check_fitting:
  assumes "values_fit V ports vs" and "bt_wf ports" and "ports_eq ports ports'"
  shows "check_values ports' (canon_values vs) = Inr ()"
proof -
  have fit: "bt_wf vs" "fst ` set vs = fst ` set ports"
    and typed: "\<And>p v. (p, v) \<in> set vs \<Longrightarrow> \<exists>t. bt_get ports p = Some t \<and> step_type_eq (sv_step_type v) t"
    using assms(1) by (auto simp: values_fit_def)
  have "length (map fst ports') = length (map fst ports)"
    using ports_eq_keys [OF assms(3)] by simp
  also have "\<dots> = card (fst ` set ports)"
    using bt.distinct_keys [OF assms(2)] distinct_card [of "map fst ports"] by simp
  also have "\<dots> = length vs"
    using bt.distinct_keys [OF fit(1)] distinct_card [of "map fst vs"] by (simp add: fit(2) [symmetric])
  finally have len: "length ports' = length vs"
    by simp
  have "\<exists>v. bt_get vs p = Some v \<and> step_type_eq (sv_step_type v) t'" if mem: "(p, t') \<in> set ports'" for p t'
  proof -
    have "distinct (map fst ports')"
      using bt.distinct_keys [OF assms(2)] ports_eq_keys [OF assms(3)] by simp
    then have t': "bt_get ports' p = Some t'"
      using mem by (simp add: bt_get_def)
    then obtain t where t: "bt_get ports p = Some t" "step_type_eq t t'"
      using ports_eq_get [OF assms(3), of p] by (auto simp: option_rel_Some2)
    then have "p \<in> fst ` set vs"
      unfolding fit(2) bt_get_def by (force dest: map_of_SomeD)
    then obtain v where v: "(p, v) \<in> set vs"
      by auto
    then have "step_type_eq (sv_step_type v) t"
      using typed t(1) by fastforce
    then show ?thesis
      using t(2) v bt.get_Some_iff [OF fit(1), of p v] step_type_eq_trans by blast
  qed
  then have "\<not> list_ex (\<lambda>(p, t). is_none_or (\<lambda>v. \<not> step_type_eq (sv_step_type v) t) (bt_get (canon_values vs) p)) ports'"
    by (fastforce simp: list_ex_iff canon_values_get)
  then show ?thesis
    using len by (simp add: check_values_def canon_values_def)
qed

lemma fitting_exports:
  assumes "int V \<le> MAX_VALUE_BYTES" and "values_fit V ports vs" and "ports_ok ports" and "bt_wf ports"
  obtains ws where "export_values vs = Inr ws" and "import_values ws = Inr (canon_values vs)" and "payload_fits V ports ws"
proof -
  have keys: "map fst vs = map fst ports"
    using assms(2,4) by (intro keys_in_order) (simp_all add: values_fit_def)
  have at: "fst (vs ! k) = fst (ports ! k)" "small V (snd (vs ! k))" "step_type_eq (sv_step_type (snd (vs ! k))) (snd (ports ! k))"
    if k: "k < length vs" for k
  proof -
    have len: "length vs = length ports"
      using arg_cong [OF keys, of length] by simp
    show key: "fst (vs ! k) = fst (ports ! k)"
      using arg_cong [OF keys, of "\<lambda>xs. xs ! k"] k len by simp
    have "(fst (vs ! k), snd (vs ! k)) \<in> set vs"
      using k by simp
    then obtain t where t: "small V (snd (vs ! k))" "bt_get ports (fst (vs ! k)) = Some t" "step_type_eq (sv_step_type (snd (vs ! k))) t"
      using assms(2) unfolding values_fit_def by blast
    have "(fst (vs ! k), snd (ports ! k)) \<in> set ports"
      unfolding key using k len by simp
    then have "t = snd (ports ! k)"
      using t(2) bt.get_Some_iff [OF assms(4)] by (metis option.inject)
    with t show "small V (snd (vs ! k))" "step_type_eq (sv_step_type (snd (vs ! k))) (snd (ports ! k))"
      by simp_all
  qed
  have len: "length vs = length ports"
    using arg_cong [OF keys, of length] by simp
  have typed: "type_ok (sv_step_type (snd (vs ! k)))" if "k < length vs" for k
    using at(3) [OF that] assms(3) that len by (auto simp: type_ok_cong ports_ok_def all_set_conv_all_nth case_prod_beta)
  have all: "\<forall>(p, v) \<in> set vs. small V v \<and> type_ok (sv_step_type v)"
    using at(2) typed by (auto simp: all_set_conv_all_nth case_prod_beta)
  have entries: "int (length vs) \<le> MAX_ENTRIES"
    using assms(3) len by (simp add: ports_ok_def)
  have "payload_fits V ports (wire_values vs)"
    using at export_type_cong by (simp add: wire_values_def payload_fits_def list_all2_conv_all_nth len case_prod_beta small_def)
  with export_small [OF assms(1) entries all] show thesis
    by (rule that)
qed

section \<open>Retention\<close>

definition value_bytes :: "StepOutputs \<Rightarrow> nat" where
  "value_bytes outs = sum_list (map (\<lambda>(_, v). length (sv_bytes v)) outs)"

lemma value_bytes_canon [simp]: "value_bytes (canon_values outs) = value_bytes outs"
  by (induction outs) (auto simp: value_bytes_def canon_values_def)

lemma retain_loop_ok:
  assumes "ex_retained ex + value_bytes outs < 2 ^ 64" and "ex_next_previous ex + value_bytes outs < 2 ^ 64"
  shows "\<exists>np. retain_loop inst outs ex
      = (Inr (), ex\<lparr>ex_retained := ex_retained ex + value_bytes outs, ex_next_previous := np\<rparr>)
    \<and> np \<le> ex_next_previous ex + value_bytes outs"
  using assms
proof (induction inst outs ex rule: retain_loop.induct)
  case (1 inst ex)
  then show ?case
    by (intro exI [of _ "ex_next_previous ex"]) (simp add: value_bytes_def)
next
  case (2 inst port v outs ex)
  let ?n = "length (sv_bytes v)"
  have bytes: "value_bytes ((port, v) # outs) = ?n + value_bytes outs"
    by (simp add: value_bytes_def)
  have add: "usize_checked_add (ex_retained ex) ?n = Some (ex_retained ex + ?n)"
    "usize_checked_add (ex_next_previous ex) ?n = Some (ex_next_previous ex + ?n)"
    using 2(3,4) by (auto simp: usize_checked_add_def bytes)
  show ?case
  proof (cases "StepOutput inst port \<in> ex_delayed ex")
    case True
    then show ?thesis
      using 2(1) [OF add(1) refl, of "ex_next_previous ex + ?n"] 2(3,4) add by (auto simp: bytes Let_def add.assoc)
  next
    case False
    then show ?thesis
      using 2(2) [OF add(1) refl] 2(3,4) add by (fastforce simp: bytes Let_def add.assoc)
  qed
qed

definition retention_ok :: "nat \<Rightarrow> nat \<Rightarrow> u64 \<Rightarrow> nat \<Rightarrow> Executor \<Rightarrow> bool" where
  "retention_ok B n run k ex \<longleftrightarrow> 2 * B * n \<le> rt_available (ex_retention ex) \<and> rt_available (ex_retention ex) < 2 ^ 64
     \<and> (if k = 0 then ex_run_sequence ex \<noteq> Some run
        else ex_run_sequence ex = Some run \<and> ex_retained ex \<le> B * k \<and> ex_next_previous ex \<le> B * k)"

lemma executor_retain_ok:
  assumes "retention_ok B n run k ex" and "k < n" and "value_bytes outs \<le> B" and "rid_sequence (dc_run ctx) = run"
  obtains ex' where "executor_retain ctx inst outs ex = (Inr (), ex')" and "retention_ok B n run (Suc k) ex'"
    and "ex_placement ex' = ex_placement ex" and "ex_key ex' = ex_key ex"
proof -
  define e where "e = (if ex_run_sequence ex \<noteq> Some run
    then ex\<lparr>ex_run_sequence := Some run, ex_retained := 0, ex_next_previous := 0\<rparr> else ex)"
  have e: "ex_retained e \<le> B * k" "ex_next_previous e \<le> B * k" "ex_run_sequence e = Some run" "ex_retention e = ex_retention ex"
    "ex_placement e = ex_placement ex" "ex_key e = ex_key ex"
    using assms(1) by (auto simp: e_def retention_ok_def split: if_splits)
  have avail: "2 * B * n \<le> rt_available (ex_retention ex)" "rt_available (ex_retention ex) < 2 ^ 64"
    using assms(1) by (auto simp: retention_ok_def)
  have "B * k + B \<le> B * n"
    using assms(2) mult_le_mono2 [of "Suc k" n B] by simp
  then have fit: "B * k + B + (B * k + B) \<le> rt_available (ex_retention ex)"
    using avail(1) by simp
  obtain np where loop: "retain_loop inst outs e = (Inr (), e\<lparr>ex_retained := ex_retained e + value_bytes outs, ex_next_previous := np\<rparr>)"
    and np: "np \<le> ex_next_previous e + value_bytes outs"
    using retain_loop_ok [of e outs inst] e(1,2) assms(3) fit avail(2) by auto
  let ?e = "e\<lparr>ex_retained := ex_retained e + value_bytes outs, ex_next_previous := np\<rparr>"
  have used: "usize_checked_add (ex_retained ?e) (ex_next_previous ?e) = Some (ex_retained ?e + ex_next_previous ?e)"
    "ex_retained ?e + ex_next_previous ?e \<le> rt_available (ex_retention ex)"
    using e(1,2) np assms(3) fit avail(2) by (auto simp: usize_checked_add_def)
  define ex' where "ex' = (if dc_ordinal ctx = ex_final_ordinal ?e
    then ?e\<lparr>ex_retention := (ex_retention ?e)\<lparr>rt_previous := ex_next_previous ?e\<rparr>\<rparr> else ?e)"
  have "executor_retain ctx inst outs ex = (Inr (), ex')"
    using used loop by (simp add: executor_retain_def Let_def assms(4) e_def [symmetric] e(4) ex'_def)
  moreover have "retention_ok B n run (Suc k) ex'"
    using e np assms(3) avail by (simp add: retention_ok_def ex'_def)
  moreover have "ex_placement ex' = ex_placement ex" "ex_key ex' = ex_key ex"
    by (simp_all add: ex'_def e(5,6))
  ultimately show thesis
    by (rule that)
qed

section \<open>One call\<close>

definition hosts_placed :: "StepGraph \<Rightarrow> (string, nat) btree \<Rightarrow> RemoteHost list \<Rightarrow> bool" where
  "hosts_placed g placement hs \<longleftrightarrow>
     (\<forall>(i, s) \<in> set (sg_nodes g). \<exists>h < length hs. bt_get placement i = Some h
        \<and> (\<exists>t. bt_get (rh_schemas (hs ! h)) i = Some t \<and> schema_eq s t))
     \<and> (\<forall>h < length hs. \<forall>i \<in> fst ` set (sg_nodes g). bt_contains (rh_schemas (hs ! h)) i \<longrightarrow> bt_get placement i = Some h)"

text \<open>A host before the next node of a tick, with room for \<open>N\<close> messages since the tick began.\<close>

definition host_ready :: "SessionIdentity set \<Rightarrow> nat \<Rightarrow> BoundSteps \<Rightarrow> StepTick \<Rightarrow> u64 \<Rightarrow> string list \<Rightarrow> RemoteHost \<Rightarrow> bool" where
  "host_ready ids N bound tick run pre h \<longleftrightarrow> \<not> rh_ended h \<and> connection_ok ids (N - length pre) (rh_connection h)
     \<and> guard_synced bound (filter (bt_contains (rh_schemas h)) (bs_order bound)) tick run pre (rh_guard h)"

type_synonym 'x remote = "(Executor \<times> RemoteHost list \<times> 'x) Adapter"

definition remote_workers :: "'x remote \<Rightarrow> 'x" where
  "remote_workers a = snd (snd (ad_executor a))"

definition remote_ready :: "SessionIdentity set \<Rightarrow> nat \<Rightarrow> StepGraph \<Rightarrow> BoundSteps \<Rightarrow> nat \<Rightarrow> u64 \<Rightarrow> nat \<Rightarrow> StepTick \<Rightarrow> string list \<Rightarrow> 'x remote \<Rightarrow> bool" where
  "remote_ready ids N g bound B run deadline tick pre a \<longleftrightarrow>
     (\<exists>rid. ad_run a = Some (rid, deadline) \<and> rid_sequence rid = run) \<and> unat (ad_ordinal a) = length pre \<and> ad_failure a = None
     \<and> (case ad_executor a of (ex, hs, x) \<Rightarrow> ex_key ex = bs_session bound \<and> hosts_placed g (ex_placement ex) hs
          \<and> retention_ok B (length (bs_order bound)) run (length pre) ex
          \<and> (\<forall>h \<in> set hs. host_ready ids N bound tick run pre h))"

text \<open>User code that answers, with outputs of its schema of at most \<open>V\<close> bytes each and \<open>B\<close> together, or with a
  failure whose message has at most \<open>M\<close> bytes.\<close>

definition component_fits :: "nat \<Rightarrow> nat \<Rightarrow> nodes \<Rightarrow> nat \<Rightarrow> 'x executor \<Rightarrow> bool" where
  "component_fits V M nodes B c \<longleftrightarrow> (\<forall>x inst tick ins. fst (c x inst tick ins) \<noteq> Abandoned
     \<and> (\<forall>schema outs. bt_get nodes inst = Some schema \<longrightarrow> fst (c x inst tick ins) = NodeRun (Inr (Inr outs)) (Inr ())
          \<longrightarrow> values_fit V (ss_outputs schema) outs \<and> value_bytes outs \<le> B)
     \<and> (\<forall>result disposal kind message. fst (c x inst tick ins) = NodeRun result disposal
          \<longrightarrow> catch_node result disposal = Inl (kind, message) \<longrightarrow> length message \<le> M))"

text \<open>The messages of a session fit the frame limit: every call of a node with inputs of at most \<open>V\<close> bytes each,
  every result with outputs of at most \<open>V\<close> bytes each, and every failure with a message of at most \<open>M\<close> bytes.
  JSON spends up to four bytes on a byte of a value, so this bounds \<open>V\<close> by the number of ports of a node.\<close>

definition frames_fit :: "StepWire \<Rightarrow> SessionIdentity set \<Rightarrow> StepSessionKey \<Rightarrow> nodes \<Rightarrow> nat \<Rightarrow> nat \<Rightarrow> bool" where
  "frames_fit W ids key nodes V M \<longleftrightarrow>
     (\<forall>i \<in> ids. \<forall>q cmd schema. ck_session (is_call cmd) = key \<and> bt_get nodes (ck_instance (is_call cmd)) = Some schema
        \<and> payload_fits V (ss_inputs schema) (is_inputs cmd) \<longrightarrow> is_ok (seal_message (sw_owner W) i q cmd))
     \<and> (\<forall>i \<in> ids. \<forall>q res schema. ck_session (sr_call res) = key \<and> bt_get nodes (ck_instance (sr_call res)) = Some schema
        \<and> (case sr_result res of Inr ws \<Rightarrow> payload_fits V (ss_outputs schema) ws | Inl f \<Rightarrow> length (wf_message f) \<le> M)
        \<longrightarrow> is_ok (seal_message (sw_host W) i q (Reply_Result res)))"

definition wires_ok :: "StepWire \<Rightarrow> SessionIdentity set \<Rightarrow> StepSessionKey \<Rightarrow> nodes \<Rightarrow> nat \<Rightarrow> nat \<Rightarrow> bool" where
  "wires_ok W ids key nodes V M \<longleftrightarrow> json_ok (sw_owner W) \<and> json_ok (sw_host W) \<and> frames_fit W ids key nodes V M
     \<and> int V \<le> MAX_VALUE_BYTES"

text \<open>During an attempt the owner's deadline has not passed, and the host's clock can hold the remaining budget.\<close>

definition clock_ok :: "nat \<Rightarrow> (StepCallKey \<Rightarrow> nat) \<Rightarrow> (StepCallKey \<Rightarrow> nat) \<Rightarrow> u64 \<Rightarrow> nat \<Rightarrow> bool" where
  "clock_ok imax onow hnow run deadline \<longleftrightarrow> deadline < 2 ^ 64 * 10 ^ 9
     \<and> (\<forall>call. ck_run_sequence call = run \<longrightarrow> onow call < deadline \<and> hnow call + (deadline - onow call) \<le> imax)"

lemma clock_budget:
  fixes call
  assumes "clock_ok imax onow hnow run deadline" and "ck_run_sequence call = run"
  defines "b \<equiv> duration_of_nanos (deadline - onow call)"
  shows "wire_duration (duration_wire b) = Inr b" and "\<not> duration_is_zero b" and "hnow call + duration_in_nanos b \<le> imax"
proof -
  have "deadline - onow call < 2 ^ 64 * 10 ^ 9" "0 < deadline - onow call" "hnow call + (deadline - onow call) \<le> imax"
    using assms(1,2) by (auto simp: clock_ok_def intro: le_less_trans)
  then show "wire_duration (duration_wire b) = Inr b" "\<not> duration_is_zero b" "hnow call + duration_in_nanos b \<le> imax"
    using duration_of_nanos [of "deadline - onow call"]
    by (simp_all add: b_def duration_zero_nanos wire_duration_def duration_wire_def duration_wf_def NANOS_PER_SEC_def not_le)
qed

lemma schema_eq_ports: "schema_eq s t \<Longrightarrow> ports_eq (ss_inputs s) (ss_inputs t) \<and> ports_eq (ss_outputs s) (ss_outputs t)"
  by (simp add: schema_eq_def)

lemma host_accepts_call:
  assumes ready: "host_ready ids N bound tick run pre h" and order: "bs_order bound = pre @ inst # post" "distinct (bs_order bound)"
    and schema: "bt_get (rh_schemas h) inst = Some t" "schema_eq s t" "bt_wf (ss_inputs s)" "ports_ok (ss_inputs s)"
    and tick: "tick_valid tick" "id_epoch (tick_id tick) = bs_epoch bound" and run: "run \<noteq> U64_MAX"
    and V: "int V \<le> MAX_VALUE_BYTES" and ins: "values_fit V (ss_inputs s) ins" "export_values ins = Inr ws"
    and c: "is_call c = \<lparr>ck_session = bs_session bound, ck_epoch = bs_epoch bound, ck_run_sequence = run,
      ck_tick_index = id_index (tick_id tick), ck_node_ordinal = ordinal, ck_instance = inst\<rparr>" "unat ordinal = length pre"
      "is_tick c = wire_tick tick" "is_inputs c = ws" "is_remaining_budget c = duration_wire (duration_of_nanos (deadline - onow (is_call c)))"
    and clock: "clock_ok imax onow hnow run deadline"
  obtains g' where "host_accept imax (hnow (is_call c)) (rh_schemas h) c (rh_guard h) = Inr (t, canon_values ins, tick, g')"
    and "guard_synced bound (filter (bt_contains (rh_schemas h)) (bs_order bound)) tick run (pre @ [inst]) g'"
proof -
  have "import_values ws = Inr (canon_values ins)"
    using fitting_exports [OF V ins(1) schema(4,3)] ins(2) by force
  moreover have "check_values (ss_inputs t) (canon_values ins) = Inr ()"
    using check_fitting [OF ins(1) schema(3)] schema_eq_ports [OF schema(2)] by blast
  moreover have "bt_contains (rh_schemas h) inst"
    using schema(1) by (simp add: bt_contains_def)
  then obtain g' where g': "reserve c (rh_guard h) = Inr (tick, g')"
    "guard_synced bound (filter (bt_contains (rh_schemas h)) (bs_order bound)) tick run (pre @ [inst]) g'"
    using synced_reserve [OF _ order refl _ tick run c(3,1,2), of "bt_contains (rh_schemas h)" "rh_guard h"] ready
    by (auto simp: host_ready_def)
  moreover have "ck_run_sequence (is_call c) = run"
    by (simp add: c(1))
  note clock_budget [OF clock this]
  ultimately have "host_accept imax (hnow (is_call c)) (rh_schemas h) c (rh_guard h) = Inr (t, canon_values ins, tick, g')"
    by (simp add: host_accept_def c schema(1))
  with g'(2) show thesis
    using that by blast
qed

lemma encode_fitting:
  assumes "values_fit V (ss_outputs s) outs" and "ports_ok (ss_outputs s)" and "bt_wf (ss_outputs s)" and "schema_eq s t"
    and "int V \<le> MAX_VALUE_BYTES"
  obtains ws where "encode_result (Inr outs) t = Inr ws" and "import_values ws = Inr (canon_values outs)"
    and "payload_fits V (ss_outputs s) ws"
proof -
  obtain ws where ws: "export_values outs = Inr ws" "import_values ws = Inr (canon_values outs)" "payload_fits V (ss_outputs s) ws"
    using fitting_exports [OF assms(5,1,2,3)] by blast
  have "check_values (ss_outputs t) (canon_values outs) = check_values (ss_outputs t) outs"
  proof -
    have "is_none_or (\<lambda>v. \<not> step_type_eq (sv_step_type v) u) (bt_get (canon_values outs) p)
        \<longleftrightarrow> is_none_or (\<lambda>v. \<not> step_type_eq (sv_step_type v) u) (bt_get outs p)" for p u
      by (cases "bt_get outs p") (simp_all add: canon_values_get)
    moreover have "length (canon_values outs) = length outs"
      by (simp add: canon_values_def)
    ultimately show ?thesis
      by (simp add: check_values_def)
  qed
  then have "check_values (ss_outputs t) outs = Inr ()"
    using check_fitting [OF assms(1,3)] schema_eq_ports [OF assms(4)] by metis
  with ws(1) have "encode_result (Inr outs) t = Inr ws"
    by (simp add: encode_result_def)
  with ws(2,3) show thesis
    using that by blast
qed

lemma catch_node_kind: "catch_node result disposal = Inl (kind, message) \<Longrightarrow> failure_kind (failure_code kind) = kind"
  by (auto simp: catch_node_def split: sum.splits)

text \<open>A graph the protocol takes, with the maps of its schemas in order.\<close>

definition graph_ready :: "StepGraph \<Rightarrow> BoundSteps \<Rightarrow> bool" where
  "graph_ready g bound \<longleftrightarrow> graph_wf g \<and> wire_ok g \<and> distinct (bs_order bound) \<and> set (bs_order bound) = fst ` set (sg_nodes g)
     \<and> int (length (bs_order bound)) \<le> MAX_ENTRIES"

abbreviation remote_invoke :: "StepWire \<Rightarrow> nat \<Rightarrow> (StepCallKey \<Rightarrow> nat) \<Rightarrow> (StepCallKey \<Rightarrow> nat) \<Rightarrow> 'x executor \<Rightarrow> 'x remote executor" where
  "remote_invoke W imax onow hnow c \<equiv> adapter_invoke (executor_invoke (host_exchange W imax hnow (worker_run c)) onow)"

lemma remote_hosts_after:
  assumes placed: "hosts_placed g placement hs" and place: "bt_get placement inst = Some k" "inst \<in> fst ` set (sg_nodes g)"
    and same: "rh_schemas h' = rh_schemas (hs ! k)"
  shows "hosts_placed g placement (hs[k := h'])"
    and "\<forall>h \<in> set hs. host_ready ids N bound tick run pre h \<Longrightarrow> host_ready ids N bound tick run (pre @ [inst]) h' \<Longrightarrow>
      \<forall>h \<in> set (hs[k := h']). host_ready ids N bound tick run (pre @ [inst]) h"
proof -
  have schemas: "rh_schemas (hs[k := h'] ! j) = rh_schemas (hs ! j)" if "j < length hs" for j
    using that same by (cases "j = k") simp_all
  then show "hosts_placed g placement (hs[k := h'])"
    using placed by (simp add: hosts_placed_def cong: conj_cong)
  assume hs: "\<forall>h \<in> set hs. host_ready ids N bound tick run pre h" and called: "host_ready ids N bound tick run (pre @ [inst]) h'"
  have "host_ready ids N bound tick run (pre @ [inst]) (hs[k := h'] ! j)" if "j < length hs" for j
  proof (cases "j = k")
    case True
    then show ?thesis
      using that called by simp
  next
    case False
    then have "\<not> bt_contains (rh_schemas (hs ! j)) inst"
      using placed place that unfolding hosts_placed_def by (metis option.inject)
    then show ?thesis
      using hs that False connection_mono [of ids "N - length pre" "rh_connection (hs ! j)" "N - Suc (length pre)"]
      by (auto simp: host_ready_def synced_skip)
  qed
  then show "\<forall>h \<in> set (hs[k := h']). host_ready ids N bound tick run (pre @ [inst]) h"
    by (metis in_set_conv_nth length_list_update)
qed

lemma remote_call:
  assumes ready: "remote_ready ids N g bound B run deadline tick pre a" and graph: "graph_ready g bound"
    and order: "bs_order bound = pre @ inst # post" and schema: "bt_get (sg_nodes g) inst = Some s"
    and tick: "tick_valid tick" "id_epoch (tick_id tick) = bs_epoch bound" and run: "run \<noteq> U64_MAX"
    and ins: "values_fit V (ss_inputs s) ins" and fits: "component_fits V M (sg_nodes g) B c" and clock: "clock_ok imax onow hnow run deadline"
    and wires: "wires_ok W ids (bs_session bound) (sg_nodes g) V M" and room: "length (bs_order bound) \<le> N"
    and step: "c (remote_workers a) inst tick (canon_values ins) = (NodeRun result disposal, x')"
  obtains (ok) outs a' where "catch_node result disposal = Inr outs" and "values_fit V (ss_outputs s) outs"
      and "remote_invoke W imax onow hnow c a inst tick ins = (NodeRun (Inr (Inr (canon_values outs))) (Inr ()), a')"
      and "remote_ready ids N g bound B run deadline tick (pre @ [inst]) a'" and "remote_workers a' = x'"
  | (failed) kind message a' where "catch_node result disposal = Inl (kind, message)"
      and "remote_invoke W imax onow hnow c a inst tick ins = (NodeRun (Inr (Inl (NodeError message))) (Inr ()), a')"
      and "ad_failure a' = Some kind" and "remote_workers a' = x'"
proof -
  obtain ex hs x where exe: "ad_executor a = (ex, hs, x)"
    by (cases "ad_executor a")
  obtain rid where rid: "ad_run a = Some (rid, deadline)" "rid_sequence rid = run"
    and ord: "unat (ad_ordinal a) = length pre" "ad_failure a = None"
    and key: "ex_key ex = bs_session bound" and placed: "hosts_placed g (ex_placement ex) hs"
    and ret: "retention_ok B (length (bs_order bound)) run (length pre) ex"
    and hosts: "\<forall>h \<in> set hs. host_ready ids N bound tick run pre h"
    using ready by (auto simp: remote_ready_def exe)
  have node: "(inst, s) \<in> set (sg_nodes g)"
    using schema by (simp add: bt_get_def map_of_SomeD)
  have ports: "ports_ok (ss_inputs s)" "ports_ok (ss_outputs s)" "bt_wf (ss_inputs s)" "bt_wf (ss_outputs s)"
    using graph node by (auto simp: graph_ready_def graph_wf_def wire_ok_def)
  obtain k t where k: "bt_get (ex_placement ex) inst = Some k" "k < length hs"
    and t: "bt_get (rh_schemas (hs ! k)) inst = Some t" "schema_eq s t"
    using placed node by (fastforce simp: hosts_placed_def)
  have host: "host_ready ids N bound tick run pre (hs ! k)" "\<not> rh_ended (hs ! k)" "connection_ok ids (N - length pre) (rh_connection (hs ! k))"
    using hosts k(2) by (auto simp: host_ready_def)
  have js: "json_ok (sw_owner W)" "json_ok (sw_host W)" and V: "int V \<le> MAX_VALUE_BYTES"
    and frames: "frames_fit W ids (bs_session bound) (sg_nodes g) V M"
    using wires by (simp_all add: wires_ok_def)
  obtain ws where ws: "export_values ins = Inr ws" "payload_fits V (ss_inputs s) ws"
    using fitting_exports [OF V ins ports(1,3)] by blast
  define ctx where "ctx = \<lparr>dc_run = rid, dc_tick = tick, dc_ordinal = ad_ordinal a, dc_deadline = deadline\<rparr>"
  define call where "call = call_key (bs_session bound) ctx inst"
  define cmd where "cmd = \<lparr>is_call = call, is_tick = wire_tick tick, is_inputs = ws,
    is_remaining_budget = duration_wire (duration_of_nanos (deadline - onow call))\<rparr>"
  have call: "ck_session call = bs_session bound" "ck_instance call = inst" "is_call cmd = call" "is_inputs cmd = ws"
    by (simp_all add: call_def call_key_def cmd_def)
  obtain g' where accept: "host_accept imax (hnow call) (rh_schemas (hs ! k)) cmd (rh_guard (hs ! k)) = Inr (t, canon_values ins, tick, g')"
    and synced: "guard_synced bound (filter (bt_contains (rh_schemas (hs ! k))) (bs_order bound)) tick run (pre @ [inst]) g'"
    using host_accepts_call [OF host(1) order _ t ports(3,1) tick run V ins ws(1), where c = cmd and ordinal = "ad_ordinal a" and deadline = deadline and onow = onow and imax = imax and hnow = hnow]
      graph ord(1) clock rid(2) tick(2)
    by (auto simp: graph_ready_def cmd_def call_def call_key_def ctx_def)
  have worker: "worker_run c x inst tick (canon_values ins) = (Worker_Reply (catch_node result disposal), x')"
    using step by (simp add: worker_run_def remote_workers_def exe)
  let ?res = "encode_result (catch_node result disposal) t"
  have ran: "host_step imax (hnow (is_call cmd)) (worker_run c) (rh_schemas (hs ! k)) cmd (rh_guard (hs ! k)) x
      = (Inr \<lparr>sr_call = call, sr_result = ?res\<rparr>, g', x')"
    using accept worker call by (simp add: host_step_def)
  have sealed_cmd: "is_ok (seal_message (sw_owner W) i q cmd)" if "i \<in> ids" for i q
    using frames that schema ws(2) call unfolding frames_fit_def by blast
  have exchange: "\<exists>h'. host_exchange W imax hnow (worker_run c) (hs, x) k cmd
        = (Exchange_Reply (Reply_Result \<lparr>sr_call = call, sr_result = ?res\<rparr>), (hs[k := h'], x'))
      \<and> rh_schemas h' = rh_schemas (hs ! k) \<and> (is_ok ?res \<longrightarrow> host_ready ids N bound tick run (pre @ [inst]) h')"
    if fit: "case ?res of Inr vs \<Rightarrow> payload_fits V (ss_outputs s) vs | Inl f \<Rightarrow> length (wf_message f) \<le> M"
  proof -
    have sealed_res: "is_ok (seal_message (sw_host W) i q (Reply_Result \<lparr>sr_call = call, sr_result = ?res\<rparr>))" if "i \<in> ids" for i q
      using frames that schema fit call unfolding frames_fit_def by (metis StepResult.select_convs)
    have "0 < N - length pre"
      using room order by simp
    from exchange_through [where now = hnow and imax = imax and worker = "worker_run c" and x = x, OF js k(2) host(2,3) this sealed_cmd ran sealed_res] obtain h' where
      "host_exchange W imax hnow (worker_run c) (hs, x) k cmd
        = (Exchange_Reply (Reply_Result \<lparr>sr_call = call, sr_result = ?res\<rparr>), (hs[k := h'], x'))"
      "rh_schemas h' = rh_schemas (hs ! k)" "rh_guard h' = g'" "rh_ended h' \<longleftrightarrow> \<not> is_ok ?res"
      "is_ok ?res \<Longrightarrow> connection_ok ids (N - length pre - 1) (rh_connection h')"
      by auto
    then show ?thesis
      using synced by (intro exI [of _ h']) (auto simp: host_ready_def)
  qed
  have next_ordinal: "u32_checked_add (ad_ordinal a) 1 = Some (ad_ordinal a + 1)" "unat (ad_ordinal a + 1) = Suc (length pre)"
    using ord(1) order graph by (auto simp: u32_checked_add_def graph_ready_def MAX_ENTRIES_def unat_word_ariths)
  show thesis
  proof (cases "catch_node result disposal")
    case (Inr outs)
    then have "fst (c x inst tick (canon_values ins)) = NodeRun (Inr (Inr outs)) (Inr ())"
      using step by (simp add: catch_node_Inr remote_workers_def exe)
    then have outs: "values_fit V (ss_outputs s) outs" "value_bytes outs \<le> B"
      using fits schema unfolding component_fits_def by blast+
    obtain vs where vs: "?res = Inr vs" "import_values vs = Inr (canon_values outs)" "payload_fits V (ss_outputs s) vs"
      using encode_fitting [OF outs(1) ports(2,4) t(2) V] Inr by metis
    then obtain h' where h': "host_exchange W imax hnow (worker_run c) (hs, x) k cmd
        = (Exchange_Reply (Reply_Result \<lparr>sr_call = call, sr_result = Inr vs\<rparr>), (hs[k := h'], x'))"
      "rh_schemas h' = rh_schemas (hs ! k)" "host_ready ids N bound tick run (pre @ [inst]) h'"
      using exchange by (auto simp: is_ok_def)
    obtain ex' where ex': "executor_retain ctx inst (canon_values outs) ex = (Inr (), ex')"
      "retention_ok B (length (bs_order bound)) run (Suc (length pre)) ex'" "ex_placement ex' = ex_placement ex" "ex_key ex' = ex_key ex"
      using executor_retain_ok [OF ret, where outs = "canon_values outs" and ctx = ctx and inst = inst] outs(2) rid(2) order by (auto simp: ctx_def)
    let ?hs = "hs[k := h']"
    have managed: "executor_invoke (host_exchange W imax hnow (worker_run c)) onow (ex, hs, x) ctx inst ins
        = (Dispatched (Inr (canon_values outs)), (ex', ?hs, x'))"
      using h'(1) vs ex'(1) k ws(1)
      by (simp add: executor_invoke_def Let_def key call_def [symmetric]) (simp add: cmd_def ctx_def)
    let ?a = "a\<lparr>ad_ordinal := ad_ordinal a + 1, ad_executor := (ex', ?hs, x')\<rparr>"
    have "inst \<in> fst ` set (sg_nodes g)"
      using node by force
    note after_call = remote_hosts_after(1) [OF placed k(1) this h'(2)] remote_hosts_after(2) [OF placed k(1) this h'(2) hosts h'(3)]
    show thesis
    proof (rule ok [OF Inr outs(1), of ?a])
      show "remote_invoke W imax onow hnow c a inst tick ins = (NodeRun (Inr (Inr (canon_values outs))) (Inr ()), ?a)"
        using managed rid(1) next_ordinal(1) by (simp add: adapter_invoke_def exe ctx_def Let_def)
      show "remote_ready ids N g bound B run deadline tick (pre @ [inst]) ?a"
        using rid ord(2) next_ordinal(2) ex' key after_call by (simp add: remote_ready_def)
    qed (simp add: remote_workers_def)
  next
    case (Inl e)
    obtain kind message where e: "e = (kind, message)"
      by (cases e)
    have res: "?res = Inl (export_failure kind message)"
      by (simp add: Inl e encode_result_def)
    have "fst (c x inst tick (canon_values ins)) = NodeRun result disposal"
      using step by (simp add: remote_workers_def exe)
    then have "length message \<le> M"
      using fits Inl e unfolding component_fits_def by blast
    then obtain h' where h': "host_exchange W imax hnow (worker_run c) (hs, x) k cmd
        = (Exchange_Reply (Reply_Result \<lparr>sr_call = call, sr_result = Inl (export_failure kind message)\<rparr>), (hs[k := h'], x'))"
      using exchange unfolding res by (auto simp: export_failure_def)
    let ?hs = "hs[k := h']"
    have kind: "failure_kind (failure_code kind) = kind"
      using catch_node_kind Inl e by blast
    have managed: "executor_invoke (host_exchange W imax hnow (worker_run c)) onow (ex, hs, x) ctx inst ins
        = (Dispatched (Inl \<lparr>df_kind = kind, df_message = message\<rparr>), (ex, ?hs, x'))"
      using h' k ws(1) kind
      by (simp add: executor_invoke_def Let_def key call_def [symmetric] import_failure_def export_failure_def cmd_def) (simp add: ctx_def import_failure_def)
    let ?a = "a\<lparr>ad_ordinal := ad_ordinal a + 1, ad_executor := (ex, ?hs, x'), ad_failure := Some kind\<rparr>"
    show thesis
    proof (rule failed [of kind message ?a])
      show "remote_invoke W imax onow hnow c a inst tick ins = (NodeRun (Inr (Inl (NodeError message))) (Inr ()), ?a)"
        using managed rid(1) next_ordinal(1) by (simp add: adapter_invoke_def exe ctx_def Let_def adapter_fail_def)
    qed (simp_all add: Inl e remote_workers_def)
  qed
qed

section \<open>One tick\<close>

text \<open>A component behind the conversions of the wire: schema identities reach it, and leave it, in owned form.\<close>

definition canon_component :: "'x executor \<Rightarrow> 'x executor" where
  "canon_component c x inst tick ins = (case c x inst tick (canon_values ins) of
     (NodeRun (Inr (Inr outs)) disposal, x) \<Rightarrow> (NodeRun (Inr (Inr (canon_values outs))) disposal, x)
   | other \<Rightarrow> other)"

lemma canon_worker:
  assumes "c x inst tick (canon_values ins) = (NodeRun result disposal, x')"
  shows "worker_run (canon_component c) x inst tick ins = (Worker_Reply (case catch_node result disposal of
    Inr outs \<Rightarrow> Inr (canon_values outs) | Inl e \<Rightarrow> Inl e), x')"
  using assms by (cases disposal) (auto simp: worker_run_def canon_component_def catch_node_def split: sum.splits)

lemma fitting_valid:
  assumes "values_fit V ports outs" and "bt_wf ports"
  shows "invalid_output ports (canon_values outs) = None"
proof -
  have wf: "bt_wf outs" and keys: "fst ` set outs = fst ` set ports"
    and typed: "\<And>p v. (p, v) \<in> set outs \<Longrightarrow> \<exists>t. bt_get ports p = Some t \<and> step_type_eq (sv_step_type v) t"
    using assms(1) by (auto simp: values_fit_def)
  have "\<exists>v. bt_get (canon_values outs) p = Some v \<and> step_type_eq (sv_step_type v) t" if "(p, t) \<in> set ports" for p t
  proof -
    have "p \<in> fst ` set outs"
      unfolding keys using that by force
    then obtain v where v: "(p, v) \<in> set outs"
      by auto
    then show ?thesis
      using typed [OF v] bt.get_Some_iff [OF wf, of p v] bt.get_Some_iff [OF assms(2), of p t] that
      by (simp add: canon_values_get)
  qed
  moreover have "bt_get ports p \<noteq> None" if "bt_get (canon_values outs) p \<noteq> None" for p
    using that keys bt.get_None_iff [OF wf] bt.get_None_iff [OF assms(2)] by (simp add: canon_values_get)
  ultimately show ?thesis
    by (auto simp: invalid_output_None)
qed

lemma values_small: "values_fit V ports outs \<Longrightarrow> \<forall>v \<in> snd ` set (canon_values outs). small V v"
  by (auto simp: values_fit_def canon_values_def small_def)

lemma bt_extend_values: "snd ` set (bt_extend m kvs) \<subseteq> snd ` set m \<union> snd ` set kvs"
proof (induction kvs arbitrary: m)
  case (Cons kv kvs)
  have "snd ` set (bt_insert (fst kv) (snd kv) m) \<subseteq> insert (snd kv) (snd ` set m)"
    using bt_insert_entries [of "fst kv" "snd kv" m] by force
  then have "snd ` set (bt_insert (fst kv) (snd kv) m) \<union> snd ` set kvs \<subseteq> snd ` set m \<union> snd ` set (kv # kvs)"
    by auto
  with Cons [of "bt_insert (fst kv) (snd kv) m"]
  have "snd ` set (bt_extend (bt_insert (fst kv) (snd kv) m) kvs) \<subseteq> snd ` set m \<union> snd ` set (kv # kvs)"
    by (rule subset_trans)
  then show ?case
    by (simp add: bt_extend_def case_prod_beta)
qed (simp add: bt_extend_def)

lemma node_outputs_small:
  assumes "\<forall>v \<in> snd ` set outs. small V v" and "\<forall>v \<in> snd ` set no. small V v"
  shows "\<forall>v \<in> snd ` set (bt_extend outs (node_outputs_at inst no)). small V v"
proof -
  note bt_extend_values [of outs "node_outputs_at inst no"]
  moreover have "snd ` set (node_outputs_at inst no) = snd ` set no"
    by (force simp: node_outputs_at_def)
  ultimately show ?thesis
    using assms by blast
qed

definition same_workers :: "'x remote \<Rightarrow> 'x LocalExecutor \<Rightarrow> bool" where
  "same_workers a l \<longleftrightarrow> remote_workers a = le_workers l \<and> ad_failure a = le_failure l"

lemma run_transparent:
  assumes inv: "sched_inv s" and r: "StepRequest_validate req (sch_plan s) (sched_clock s) = Inr r"
    and graph: "graph_ready (plan_graph (sch_plan s)) bound" "bs_order bound = plan_order (sch_plan s)" "bs_epoch bound = sch_epoch s"
    and req: "duration_wf (req_dt req)" "\<forall>v \<in> snd ` set (req_inputs req). small V v" and s: "sched_small V s"
    and fits: "component_fits V M (sg_nodes (plan_graph (sch_plan s))) B c" and clock: "clock_ok imax onow hnow run deadline" and run: "run \<noteq> U64_MAX"
    and wires: "wires_ok W ids (bs_session bound) (sg_nodes (plan_graph (sch_plan s))) V M" and room: "length (bs_order bound) \<le> N"
    and calls: "set (bs_order bound) \<subseteq> le_calls l"
    and order: "plan_order (sch_plan s) = pre @ insts"
    and outs: "outs_ok (sg_nodes (plan_graph (sch_plan s))) pre outs" "\<forall>v \<in> snd ` set outs. small V v"
    and ready: "remote_ready ids N (plan_graph (sch_plan s)) bound B run deadline (vr_tick r) pre a" and same: "same_workers a l"
  obtains res a' l' where "run_nodes (remote_invoke W imax onow hnow c) s r insts g outs a = (res, a')"
    and "run_nodes (local_invoke (worker_run (canon_component c))) s r insts g outs l = (res, l')"
    and "same_workers a' l'"
    and "\<And>g' outs'. res = Inr (g', outs') \<Longrightarrow>
      remote_ready ids N (plan_graph (sch_plan s)) bound B run deadline (vr_tick r) (plan_order (sch_plan s)) a' \<and> (\<forall>v \<in> snd ` set outs'. small V v) \<and> outs_ok (sg_nodes (plan_graph (sch_plan s))) (plan_order (sch_plan s)) outs'"
    and "\<And>stop. res = Inl stop \<Longrightarrow> \<exists>g'. stop = Stop_Fail g'"
  using order outs ready same calls
proof (induction insts arbitrary: thesis pre outs a l g)
  case Nil
  show ?case
    by (rule Nil.prems(1) [OF _ _ Nil.prems(6)]) (use Nil.prems(2,3,4,5) in auto)
next
  case (Cons inst insts)
  let ?g = "plan_graph (sch_plan s)"
  let ?L = "local_invoke (worker_run (canon_component c))"
  let ?R = "remote_invoke W imax onow hnow c"
  have tick: "tick_valid (vr_tick r)" "id_epoch (tick_id (vr_tick r)) = bs_epoch bound"
    using validated_tick_valid [OF inv r req(1)] validate_tick(1) [OF r] graph(3) by simp_all
  obtain ins where ins: "node_inputs s r outs inst = Some ins"
    using node_inputs_Some input_available [OF inv validate_ready [OF r] Cons.prems(3,2)] by blast
  obtain schema where schema: "bt_get (sg_nodes ?g) inst = Some schema" "bt_wf (ss_outputs schema)"
    using node_schema [OF inv, of inst] Cons.prems(2) by auto
  have fit: "values_fit V (ss_inputs schema) ins"
    by (rule node_inputs_fit [OF inv r Cons.prems(3,2) ins schema(1) s req(2) Cons.prems(4)])
  obtain result disposal x' where step: "c (remote_workers a) inst (vr_tick r) (canon_values ins) = (NodeRun result disposal, x')"
    using fits unfolding component_fits_def by (metis NodeRun.exhaust fst_conv prod.collapse)
  have order: "bs_order bound = pre @ inst # insts"
    using graph(2) Cons.prems(2) by simp
  have local_step: "c (le_workers l) inst (vr_tick r) (canon_values ins) = (NodeRun result disposal, x')" and here: "inst \<in> le_calls l"
    using step Cons.prems(6,7) order by (auto simp: same_workers_def)
  note local_worker = canon_worker [of c, OF local_step]
  show ?case
  proof (rule remote_call [OF Cons.prems(5) graph(1) order schema(1) tick run fit fits clock wires room step])
    fix no a'
    assume no: "catch_node result disposal = Inr no" "values_fit V (ss_outputs schema) no"
      and remote: "?R a inst (vr_tick r) ins = (NodeRun (Inr (Inr (canon_values no))) (Inr ()), a')"
      and ready': "remote_ready ids N ?g bound B run deadline (vr_tick r) (pre @ [inst]) a'" and w: "remote_workers a' = x'"
    have loc: "?L l inst (vr_tick r) ins = (NodeRun (Inr (Inr (canon_values no))) (Inr ()), l\<lparr>le_workers := x'\<rparr>)"
      using local_worker here no(1) by (simp add: local_invoke_def)
    have valid: "invalid_output (ss_outputs schema) (canon_values no) = None"
      by (rule fitting_valid [OF no(2) schema(2)])
    let ?outs = "bt_extend outs (node_outputs_at inst (canon_values no))"
    let ?g1 = "(guard_dispatch inst g)\<lparr>ag_failure := (ag_failure (guard_dispatch inst g))
      \<lparr>sf_completed := sf_completed (ag_failure (guard_dispatch inst g)) @ [inst]\<rparr>\<rparr>"
    have "bt_wf (canon_values no)"
      using no(2) by (simp add: values_fit_def)
    then have ok: "outs_ok (sg_nodes ?g) (pre @ [inst]) ?outs"
      using outs_ok_step [OF Cons.prems(3) schema(1) order_split(1) [OF inv Cons.prems(2)] valid _ schema(2)] by blast
    have small: "\<forall>v \<in> snd ` set ?outs. small V v"
      by (rule node_outputs_small [OF Cons.prems(4) values_small [OF no(2)]])
    have "same_workers a' (l\<lparr>le_workers := x'\<rparr>)"
      using ready' w Cons.prems(5,6) by (simp add: same_workers_def remote_ready_def)
    then obtain res a2 l2 where rest: "run_nodes ?R s r insts ?g1 ?outs a' = (res, a2)" "run_nodes ?L s r insts ?g1 ?outs (l\<lparr>le_workers := x'\<rparr>) = (res, l2)"
      "same_workers a2 l2" "\<And>g' outs'. res = Inr (g', outs') \<Longrightarrow>
        remote_ready ids N ?g bound B run deadline (vr_tick r) (plan_order (sch_plan s)) a2 \<and> (\<forall>v \<in> snd ` set outs'. small V v) \<and> outs_ok (sg_nodes ?g) (plan_order (sch_plan s)) outs'"
      "\<And>stop. res = Inl stop \<Longrightarrow> \<exists>g'. stop = Stop_Fail g'"
      using Cons.IH [where pre = "pre @ [inst]" and outs = ?outs and a = a' and l = "l\<lparr>le_workers := x'\<rparr>" and g = ?g1] ok small ready' Cons.prems(2,7) by auto
    show ?case
      by (rule Cons.prems(1) [OF _ _ rest(3,4,5)]) (use ins remote loc schema(1) valid rest(1,2) in \<open>simp_all add: Let_def catch_node_def\<close>)
  next
    fix kind message a'
    assume e: "catch_node result disposal = Inl (kind, message)"
      and remote: "?R a inst (vr_tick r) ins = (NodeRun (Inr (Inl (NodeError message))) (Inr ()), a')"
      and f: "ad_failure a' = Some kind" "remote_workers a' = x'"
    have loc: "?L l inst (vr_tick r) ins = (NodeRun (Inr (Inl (NodeError message))) (Inr ()), l\<lparr>le_workers := x', le_failure := Some kind\<rparr>)"
      using local_worker here e by (simp add: local_invoke_def)
    show ?case
      by (rule Cons.prems(1) [of "Inl (Stop_Fail (set_failure Fail_NodeError message (guard_dispatch inst g)))" a' "l\<lparr>le_workers := x', le_failure := Some kind\<rparr>"])
        (use ins remote loc f in \<open>simp_all add: Let_def catch_node_def same_workers_def\<close>)
  qed
qed

section \<open>From tick to tick\<close>

text \<open>The interval that starts where a scheduler stands; only its start and index matter to a guard.\<close>

definition tick_at :: "StepScheduler \<Rightarrow> StepTick" where
  "tick_at s = \<lparr>tick_id = \<lparr>id_epoch = sch_epoch s, id_index = sch_next_index s\<rparr>, tick_start = sch_time s,
     tick_dt = Duration_ZERO, tick_end = Duration_ZERO\<rparr>"

definition remote_idle :: "SessionIdentity set \<Rightarrow> nat \<Rightarrow> StepGraph \<Rightarrow> BoundSteps \<Rightarrow> StepScheduler \<Rightarrow> u64 \<Rightarrow> 'x remote \<Rightarrow> bool" where
  "remote_idle ids N g bound s run a \<longleftrightarrow> (case ad_executor a of (ex, hs, x) \<Rightarrow>
     ex_key ex = bs_session bound \<and> hosts_placed g (ex_placement ex) hs \<and> is_none_or (\<lambda>p. p < run) (ex_run_sequence ex)
     \<and> (\<forall>h \<in> set hs. host_ready ids N bound (tick_at s) run [] h))"

definition retention_room :: "nat \<Rightarrow> BoundSteps \<Rightarrow> 'x remote \<Rightarrow> bool" where
  "retention_room B bound a \<longleftrightarrow> 2 * B * length (bs_order bound) \<le> rt_available (ex_retention (fst (ad_executor a)))
     \<and> rt_available (ex_retention (fst (ad_executor a))) < 2 ^ 64"

lemma host_ready_tick:
  assumes "id_index (tick_id t) = id_index (tick_id u)" and "tick_start t = tick_start u"
  shows "host_ready ids N bound t run [] h \<longleftrightarrow> host_ready ids N bound u run [] h"
  using assms by (simp add: host_ready_def guard_synced_def)

lemma remote_begin:
  assumes "remote_idle ids N g bound s run a" and "retention_room B bound a"
    and "rid_sequence (run_id R) = run" and "run_deadline R = Some deadline"
    and "id_index (tick_id tick) = sch_next_index s" and "tick_start tick = sch_time s"
  shows "remote_ready ids N g bound B run deadline tick [] (adapter_begin R a)"
proof -
  obtain ex hs x where exe: "ad_executor a = (ex, hs, x)"
    by (cases "ad_executor a")
  have "ex_run_sequence ex \<noteq> Some run"
    using assms(1) by (auto simp: remote_idle_def exe)
  then show ?thesis
    using assms host_ready_tick [of tick "tick_at s" ids N bound run]
    by (auto simp: remote_ready_def remote_idle_def retention_room_def retention_ok_def adapter_begin_def exe tick_at_def)
qed

lemma remote_end:
  assumes "remote_ready ids N g bound B run deadline tick (bs_order bound) a" and "run < run'"
    and "sch_next_index s' = id_index (tick_id tick) + 1" and "sch_time s' = tick_end tick" and "bs_order bound \<noteq> []"
  shows "remote_idle ids (N - length (bs_order bound)) g bound s' run' a"
proof -
  obtain ex hs x where exe: "ad_executor a = (ex, hs, x)"
    by (cases "ad_executor a")
  have "host_ready ids (N - length (bs_order bound)) bound (tick_at s') run' [] h" if "h \<in> set hs" for h
  proof -
    have "host_ready ids N bound tick run (bs_order bound) h"
      using assms(1) that by (simp add: remote_ready_def exe)
    then show ?thesis
      using synced_next [OF _ refl, of bound "bt_contains (rh_schemas h)" "bs_order bound" tick run "rh_guard h" "tick_at s'" run'] assms(2-4)
      by (simp add: host_ready_def tick_at_def)
  qed
  moreover have "ex_run_sequence ex = Some run" "ex_key ex = bs_session bound" "hosts_placed g (ex_placement ex) hs"
    using assms(1,5) by (auto simp: remote_ready_def exe retention_ok_def split: if_splits)
  ultimately show ?thesis
    using assms(2) by (simp add: remote_idle_def exe)
qed

lemma retain_small:
  assumes "retain_outputs g outs = Some previous" and "\<forall>v \<in> snd ` set outs. small V v"
  shows "\<forall>v \<in> snd ` set previous. small V v"
proof -
  obtain kvs where kvs: "previous = bt_extend [] kvs"
    and eq: "map (\<lambda>src. map_option (Pair src) (bt_get outs src)) (delayed_sources g) = map Some kvs"
    using assms(1) by (auto simp: retain_outputs_def those_Some_iff)
  have "kvs = map (\<lambda>src. (src, the (bt_get outs src))) (delayed_sources g) \<and> (\<forall>src \<in> set (delayed_sources g). bt_get outs src \<noteq> None)"
    using map_Some_Pair [of id "bt_get outs"] eq by simp
  then have "small V v" if "v \<in> snd ` set kvs" for v
    using that assms(2) bt_get_in by fastforce
  moreover have "snd ` set previous \<subseteq> snd ` set kvs"
    using bt_extend_values [of "[]" kvs] by (simp add: kvs)
  ultimately show ?thesis
    by blast
qed

lemma remote_idle_mono:
  assumes "remote_idle ids N g bound s run a" and "run < run'" and "N' \<le> N"
  shows "remote_idle ids N' g bound s run' a"
proof -
  have less: "is_none_or (\<lambda>p. p < run') q" if "is_none_or (\<lambda>p. p < run) q" for q
    using that assms(2) by (cases q) auto
  then have "host_ready ids N' bound t run' [] h" if "host_ready ids N bound t run [] h" for t h
    using that assms(3) unfolding host_ready_def guard_synced_def by (auto split: if_splits elim: connection_mono)
  then show ?thesis
    using assms(1) less by (auto simp: remote_idle_def)
qed

lemma tick_retains:
  assumes inv: "sched_inv s" and outs: "outs_ok (sg_nodes (plan_graph (sch_plan s))) (plan_order (sch_plan s)) outs"
  shows "retain_outputs (plan_graph (sch_plan s)) outs \<noteq> None"
proof -
  have "bt_get outs src \<noteq> None" if "src \<in> set (delayed_sources (plan_graph (sch_plan s)))" for src
    using delayed_declared [OF inv that] outs unfolding outs_ok_def typed_at_def by (metis option.distinct(1))
  then show ?thesis
    using retain_outputs_Some [of "plan_graph (sch_plan s)" outs] by auto
qed

lemma advance_transparent:
  assumes inv: "sched_inv s" and fault: "sch_fault s = None"
    and graph: "graph_ready (plan_graph (sch_plan s)) bound" "bs_order bound = plan_order (sch_plan s)" "bs_epoch bound = sch_epoch s"
    and req: "duration_wf (req_dt req)" "\<forall>v \<in> snd ` set (req_inputs req). small V v" and s: "sched_small V s"
    and fits: "component_fits V M (sg_nodes (plan_graph (sch_plan s))) B c" and clock: "clock_ok imax onow hnow run deadline"
    and run: "run \<noteq> U64_MAX" "rid_sequence (run_id R) = run" "run_deadline R = Some deadline"
    and wires: "wires_ok W ids (bs_session bound) (sg_nodes (plan_graph (sch_plan s))) V M" and room: "length (bs_order bound) \<le> N"
    and calls: "set (bs_order bound) \<subseteq> le_calls l"
    and idle: "remote_idle ids N (plan_graph (sch_plan s)) bound s run a" "retention_room B bound a" and same: "remote_workers a = le_workers l"
  obtains res s' a' l' where "advance_controlled (remote_invoke W imax onow hnow c) control req s (adapter_begin R a) = (res, s', a')"
    and "advance_controlled (local_invoke (worker_run (canon_component c))) control req s (local_begin l) = (res, s', l')"
    and "same_workers a' l'"
    and "\<And>run'. sch_fault s' = None \<Longrightarrow> run < run' \<Longrightarrow> remote_idle ids (N - length (bs_order bound)) (plan_graph (sch_plan s)) bound s' run' a' \<and> sched_small V s'"
proof -
  let ?R = "remote_invoke W imax onow hnow c"
  let ?L = "local_invoke (worker_run (canon_component c))"
  have started: "same_workers (adapter_begin R a) (local_begin l)"
    using same by (simp add: same_workers_def adapter_begin_def local_begin_def remote_workers_def)
  have still: "remote_idle ids (N - length (bs_order bound)) (plan_graph (sch_plan s)) bound s run' (adapter_begin R a) \<and> sched_small V s" if "run < run'" for run'
    using remote_idle_mono [OF idle(1) that, of "N - length (bs_order bound)"] s by (simp add: remote_idle_def adapter_begin_def)
  show thesis
  proof (cases "StepRequest_validate req (sch_plan s) (sched_clock s)")
    case (Inl e)
    then obtain q where q: "StepRequest_validate req (sch_plan s) (sched_clock s) = Inl (Abort q)"
      using validate_request_no_panic [OF inv, of req "sched_clock s"] by (cases e) auto
    show thesis
      by (rule that [of "Returned (Inl (Sched_Request q))" s, OF _ _ started still]) (use fault q in \<open>simp_all add: advance_controlled_def\<close>)
  next
    case (Inr r)
    note valid = Inr and t = validate_tick [OF Inr]
    have ready: "remote_ready ids N (plan_graph (sch_plan s)) bound B run deadline (vr_tick r) [] (adapter_begin R a)"
      using remote_begin [OF idle run(2,3)] t(1,2) by simp
    have calls': "set (bs_order bound) \<subseteq> le_calls (local_begin l)"
      using calls by (simp add: local_begin_def)
    obtain res a' l' where runs: "run_nodes ?R s r (plan_order (sch_plan s)) (guard_new (tick_id (vr_tick r))) [] (adapter_begin R a) = (res, a')"
      "run_nodes ?L s r (plan_order (sch_plan s)) (guard_new (tick_id (vr_tick r))) [] (local_begin l) = (res, l')"
      and same': "same_workers a' l'" and done_run: "\<And>g' outs'. res = Inr (g', outs') \<Longrightarrow>
        remote_ready ids N (plan_graph (sch_plan s)) bound B run deadline (vr_tick r) (plan_order (sch_plan s)) a' \<and> (\<forall>v \<in> snd ` set outs'. small V v) \<and> outs_ok (sg_nodes (plan_graph (sch_plan s))) (plan_order (sch_plan s)) outs'"
      and stop: "\<And>stop. res = Inl stop \<Longrightarrow> \<exists>g'. stop = Stop_Fail g'"
      using run_transparent [OF inv Inr graph req s fits clock run(1) wires room calls' _ outs_ok_Nil _ ready started,
          where insts = "plan_order (sch_plan s)" and g = "guard_new (tick_id (vr_tick r))"] by auto
    show thesis
    proof (cases res)
      case (Inl st)
      then obtain g where "res = Inl (Stop_Fail g)"
        using stop by blast
      then show thesis
        by (intro that [of "Returned (Inl (Sched_Failed (ag_failure g)))" "s\<lparr>sch_fault := Some (ag_failure g)\<rparr>", OF _ _ same'])
          (use fault valid runs in \<open>simp_all add: advance_controlled_def\<close>)
    next
      case (Inr go)
      obtain g outs where go: "go = (g, outs)"
        by (cases go)
      obtain ret s' where commit: "commit_tick control s r g outs = (ret, s')"
        by (cases "commit_tick control s r g outs")
      note fin = done_run [OF Inr [unfolded go]]
      show thesis
      proof (rule that [OF _ _ same', of ret s'])
        fix run' assume ok: "sch_fault s' = None" "run < (run' :: u64)"
        have "retain_outputs (plan_graph (sch_plan s)) outs \<noteq> None"
          using tick_retains [OF inv] fin by blast
        then obtain previous where prev: "retain_outputs (plan_graph (sch_plan s)) outs = Some previous"
          and s': "s' = s\<lparr>sch_previous := previous, sch_time := tick_end (vr_tick r), sch_next_index := vr_next_index r\<rparr>"
          using commit ok(1) by (auto simp: commit_tick_def Let_def split: option.splits)
        have "vr_next_index r = sch_next_index s + 1"
          using t(5) unat_lt [of "vr_next_index r"] by (simp add: word_unat_eq_iff unat_word_ariths)
        then have "remote_idle ids (N - length (bs_order bound)) (plan_graph (sch_plan s)) bound s' run' a'"
          using remote_end [of ids N "plan_graph (sch_plan s)" bound B run deadline "vr_tick r" a' run' s'] fin ok(2) t(1)
            order_nonempty [OF inv] graph(2) by (simp add: s')
        moreover have "sched_small V s'"
          using retain_small [OF prev] fin s by (simp add: sched_small_def s')
        ultimately show "remote_idle ids (N - length (bs_order bound)) (plan_graph (sch_plan s)) bound s' run' a' \<and> sched_small V s'"
          by simp
      qed (use fault valid Inr go runs commit in \<open>simp_all add: advance_controlled_def\<close>)
    qed
  qed
qed

end
