(* ===== verification/Process_Placement.thy ===== *)
theory Process_Placement
  imports Process_Transparent
begin

text \<open>
  From an admitted plan to a running session: where the owner's assignments put every node, the state the
  executor and the hosts start in, and a session of any number of ticks.
\<close>

section \<open>Every node has one host\<close>

definition step_keys :: "ProcessStepPeer \<Rightarrow> string set" where
  "step_keys peer = fst ` set (pp_steps peer)"

lemma place_steps_keys:
  "try_for (place_step nodes hi) steps assigned = Inr assigned' \<Longrightarrow> bt_wf assigned \<Longrightarrow>
    bt_wf assigned' \<and> fst ` set assigned' = fst ` set steps \<union> fst ` set assigned \<and> fst ` set steps \<inter> fst ` set assigned = {}"
proof (induction steps arbitrary: assigned)
  case (Cons ia steps)
  obtain i a where ia: "ia = (i, a)"
    by (cases ia)
  have step: "i \<notin> fst ` set assigned" "try_for (place_step nodes hi) steps (bt_insert i a assigned) = Inr assigned'"
    using Cons.prems bt.get_None_iff [OF Cons.prems(2)] by (auto simp: ia place_step_Inr res_simps bt_contains_def)
  with Cons.IH [OF step(2)] Cons.prems(2) show ?case
    by (auto simp: ia bt_insert_keys)
qed simp

lemma place_peers_keys:
  "try_for (place_peer nodes key) peers (assigned, ai, hosts) = Inr (assigned', ai', hosts') \<Longrightarrow> bt_wf assigned \<Longrightarrow>
    bt_wf assigned' \<and> fst ` set assigned' = (\<Union>peer \<in> set peers. step_keys peer) \<union> fst ` set assigned
    \<and> sorted_wrt (\<lambda>p q. step_keys p \<inter> step_keys q = {}) peers
    \<and> (\<forall>peer \<in> set peers. step_keys peer \<inter> fst ` set assigned = {})"
proof (induction peers arbitrary: assigned ai hosts)
  case (Cons peer peers)
  obtain a1 ai1 hosts1 where head: "place_peer nodes key peer (assigned, ai, hosts) = Inr (a1, ai1, hosts1)"
    and tail: "try_for (place_peer nodes key) peers (a1, ai1, hosts1) = Inr (assigned', ai', hosts')"
    using Cons.prems(1) by (auto simp: res_simps)
  obtain hi where "try_for (place_step nodes hi) (pp_steps peer) assigned = Inr a1"
    using head by (rule place_peer_Inr)
  then have keys: "bt_wf a1" "fst ` set a1 = step_keys peer \<union> fst ` set assigned" "step_keys peer \<inter> fst ` set assigned = {}"
    using place_steps_keys Cons.prems(2) unfolding step_keys_def by blast+
  from Cons.IH [OF tail keys(1)] keys(2,3) show ?case
    unfolding keys(2) sorted_wrt.simps list.set ball_simps UN_insert by blast
qed simp

lemma assignments_partition:
  assumes "validate_assignments peers plan key = Inr ()" and "bt_wf (psp_nodes plan)"
  shows "sorted_wrt (\<lambda>p q. step_keys p \<inter> step_keys q = {}) peers"
    and "(\<Union>peer \<in> set peers. step_keys peer) = fst ` set (psp_nodes plan)"
proof -
  obtain assigned ai hosts where loop: "try_for (place_peer (psp_nodes plan) key) peers ([], {}, {}) = Inr (assigned, ai, hosts)"
    and len: "length assigned = length (psp_nodes plan)"
    using assms(1) by (auto simp: validate_assignments_def and_then_def ensure_def res_simps split: if_splits)
  then have assigned: "bt_wf assigned" "fst ` set assigned = (\<Union>peer \<in> set peers. step_keys peer)"
    and "sorted_wrt (\<lambda>p q. step_keys p \<inter> step_keys q = {}) peers"
    using place_peers_keys [OF loop] by simp_all
  then show "sorted_wrt (\<lambda>p q. step_keys p \<inter> step_keys q = {}) peers"
    by blast
  have "i \<in> fst ` set (psp_nodes plan)" if "peer \<in> set peers" "i \<in> step_keys peer" for i peer
    using validate_assignments_Inr(2) [OF assms that(1)] that(2)
    by (force simp: step_keys_def step_placed_def bt_get_def dest!: map_of_SomeD)
  then have "fst ` set assigned \<subseteq> fst ` set (psp_nodes plan)"
    unfolding assigned(2) by blast
  from same_keys [OF assigned(1) assms(2) this len]
  show "(\<Union>peer \<in> set peers. step_keys peer) = fst ` set (psp_nodes plan)"
    unfolding assigned(2) .
qed

lemma prepare_peers_placement:
  "prepare_peers index ps (placement, bindings, reports) = Inr (placement', bindings', reports') \<Longrightarrow>
    sorted_wrt (\<lambda>p q. step_keys (fst p) \<inter> step_keys (fst q) = {}) ps \<Longrightarrow> bt_wf placement \<Longrightarrow>
    bt_wf placement' \<and> (\<forall>i. (\<forall>pe \<in> set ps. i \<notin> step_keys (fst pe)) \<longrightarrow> bt_get placement' i = bt_get placement i)
    \<and> (\<forall>k < length ps. \<forall>i \<in> step_keys (fst (ps ! k)). bt_get placement' i = Some (index + k))"
proof (induction ps arbitrary: index placement bindings reports)
  case (Cons pe ps)
  obtain peer events where pe: "pe = (peer, events)"
    by (cases pe)
  let ?kvs = "map (\<lambda>(i, _). (i, index)) (pp_steps peer)"
  obtain r1 where rest: "prepare_peers (Suc index) ps (bt_extend placement ?kvs, bt_extend bindings (peer_bindings peer), r1) = Inr (placement', bindings', reports')"
    using Cons.prems(1) by (auto simp: pe res_simps)
  have get: "bt_get (bt_extend placement ?kvs) i = (if i \<in> step_keys peer then Some index else bt_get placement i)" for i
  proof -
    have "map_of (rev ?kvs) i = (if i \<in> step_keys peer then Some index else None)"
    proof -
      have "map_of (map (\<lambda>(i, _). (i, index)) xs) i = (if i \<in> fst ` set xs then Some index else None)" for xs :: "(string \<times> StepAssignment) list"
        by (induction xs) auto
      from this [of "rev (pp_steps peer)"] show ?thesis
        by (simp add: rev_map step_keys_def)
    qed
    then show ?thesis
      using Cons.prems(3) by (simp add: bt_extend_get)
  qed
  have wf: "bt_wf (bt_extend placement ?kvs)"
    by (rule bt_extend_wf [OF Cons.prems(3)])
  note IH = Cons.IH [OF rest _ wf]
  have "bt_get placement' i = Some (index + k)" if "k < length (pe # ps)" "i \<in> step_keys (fst ((pe # ps) ! k))" for i k
  proof (cases k)
    case 0
    then have i: "i \<in> step_keys peer"
      using that(2) by (simp add: pe)
    then have "\<forall>pe \<in> set ps. i \<notin> step_keys (fst pe)"
      using Cons.prems(2) by (auto simp: pe)
    then show ?thesis
      using IH Cons.prems(2) i 0 by (simp add: get)
  next
    case (Suc k)
    then show ?thesis
      using IH Cons.prems(2) that by simp
  qed
  moreover have "bt_get placement' i = bt_get placement i" if "\<forall>pe \<in> set (pe # ps). i \<notin> step_keys (fst pe)" for i
    using IH Cons.prems(2) that by (simp add: get pe)
  ultimately show ?case
    using IH Cons.prems(2) by auto
qed simp

section \<open>Opening a session\<close>

text \<open>A host, bound and before its first command (the end of \<open>steps::serve\<close>).\<close>

definition host_open ::
  "(WireGraph \<times> WireDuration \<Rightarrow> bytes option) \<Rightarrow> (bytes \<Rightarrow> string) \<Rightarrow> SessionIdentity \<Rightarrow> ProcessRegistry \<Rightarrow> ComponentAssignment list
    \<Rightarrow> Connection \<Rightarrow> BoundSteps \<Rightarrow> FailureCode + RemoteHost" where
  "host_open to_vec sha256 identity r ordinary connection bound =
     rbind (host_bind to_vec sha256 identity (host_schemas r ordinary) bound) (\<lambda>bound.
     rbind (ReplayGuard_new bound (host_schemas r ordinary)) (\<lambda>guard.
       Inr \<lparr>rh_schemas = host_schemas r ordinary, rh_guard = guard, rh_ended = False, rh_connection = connection\<rparr>))"

definition owner_executor :: "(string, nat) btree \<Rightarrow> StepGraph \<Rightarrow> BoundSteps \<Rightarrow> nat \<Rightarrow> Executor" where
  "owner_executor placement graph bound bootstrap = \<lparr>ex_placement = placement, ex_key = bs_session bound,
     ex_retention = \<lparr>rt_bootstrap = bootstrap, rt_previous = 0, rt_available = 0\<rparr>, ex_delayed = set (delayed_sources graph),
     ex_final_ordinal = word_of_nat (length (bs_order bound) - 1), ex_run_sequence = None, ex_retained = 0, ex_next_previous = 0\<rparr>"

text \<open>\<open>ProcessStepOwner::prepare\<close> up to the staged start of the hosts; \<open>validate\<close> is the application's own check.\<close>

definition owner_prepare ::
  "(WireGraph \<times> WireDuration \<Rightarrow> bytes option) \<Rightarrow> (bytes \<Rightarrow> string) \<Rightarrow> (reports \<Rightarrow> StepGraph \<Rightarrow> string + unit)
    \<Rightarrow> (ProcessStepPeer \<times> HostEvent list) list \<Rightarrow> StepSessionKey \<Rightarrow> ProcessStepPlan \<Rightarrow> Duration \<Rightarrow> u64
    \<Rightarrow> (PrepareError + StepScheduler \<times> BoundSteps \<times> Executor) \<times> u64" where
  "owner_prepare to_vec sha256 validate ps key plan initial_time NEXT_EPOCH =
     (case rbind (ensure_prepare (ps \<noteq> [] \<and> int (length ps) \<le> MAX_ENTRIES) ''invalid peers/budget'') (\<lambda>_.
           rbind (map_err Prepare_Draft (validate_assignments (map fst ps) plan key)) (\<lambda>_.
           rbind (map_err Prepare_Draft (literal_budget plan)) (\<lambda>budget.
           rbind (prepare_hosts ps budget) (\<lambda>prepared.
           rbind (map_err Prepare_Draft (plan_resolve plan (ph_reports prepared))) (\<lambda>graph.
           rbind (map_err (Prepare_Draft \<circ> Draft_Message) (validate (ph_reports prepared) graph)) (\<lambda>_.
             Inr (ph_placement prepared, graph))))))) of
        Inl e \<Rightarrow> (Inl e, NEXT_EPOCH)
      | Inr (placement, graph) \<Rightarrow>
          (case owner_bind to_vec sha256 key graph initial_time NEXT_EPOCH of
             (Inl e, n) \<Rightarrow> (Inl (Prepare_Draft e), n)
           | (Inr (s, bound, bootstrap), n) \<Rightarrow> (Inr (s, bound, owner_executor placement graph bound bootstrap), n)))"

lemma owner_prepare_Inr:
  assumes "owner_prepare to_vec sha256 validate ps key plan initial NEXT = (Inr (s, bound, ex), n)"
  obtains budget prepared g bootstrap where "validate_assignments (map fst ps) plan key = Inr ()"
    and "prepare_hosts ps budget = Inr prepared" and "plan_resolve plan (ph_reports prepared) = Inr g"
    and "owner_bind to_vec sha256 key g initial NEXT = (Inr (s, bound, bootstrap), n)"
    and "ex = owner_executor (ph_placement prepared) g bound bootstrap"
  using assms by (auto simp: owner_prepare_def rbind_Inr_iff map_err_Inr_iff split: sum.splits prod.splits)

lemma try_map_visits: "try_map f xs = Inr ys \<Longrightarrow> x \<in> set xs \<Longrightarrow> \<exists>y. f x = Inr y"
  by (auto simp: try_map_Inr list_all2_conv_all_nth in_set_conv_nth)

lemma session_prepared:
  assumes prep: "owner_prepare to_vec sha256 validate ps key plan initial NEXT = (Inr (s, bound, ex), n)"
    and wf: "plan_wf plan" "duration_wf initial"
  shows "sched_inv s" and "sch_fault s = None" and "sg_nodes (plan_graph (sch_plan s)) = psp_nodes plan"
    and "graph_ready (plan_graph (sch_plan s)) bound" and "bs_order bound = plan_order (sch_plan s)" and "bs_epoch bound = sch_epoch s"
    and "sch_previous s = []" and "length (bs_order bound) = length (psp_nodes plan)"
proof -
  obtain g bootstrap reports where valid: "validate_assignments (map fst ps) plan key = Inr ()"
    and resolved: "plan_resolve plan reports = Inr g"
    and bind: "owner_bind to_vec sha256 key g initial NEXT = (Inr (s, bound, bootstrap), n)"
    using prep by (rule owner_prepare_Inr) (rule that)
  obtain p where p: "Plan_compile g = Inr p" and new: "StepScheduler_new g initial NEXT = (Inr s, n)"
    and bound: "bs_order bound = plan_order p" "bs_epoch bound = sch_epoch s"
    using bind by (rule owner_bind_Inr) simp
  have s: "sch_plan s = p" "plan_graph p = g" "sch_previous s = []" "sch_fault s = None"
    using new p by (auto simp: StepScheduler_new_def Plan_compile_Inr split: option.splits)
  have nodes: "sg_nodes g = psp_nodes plan" and ins: "bt_wf (sg_inputs g)"
    using plan_resolve_Inr [OF resolved] wf(1) by (simp_all add: plan_wf_def bt_wf_def)
  then have g: "graph_wf g"
    using wf(1) by (simp add: graph_wf_def plan_wf_def)
  note admitted = validate_assignments_Inr [OF valid wf(1) [unfolded plan_wf_def, THEN conjunct1]]
  have order: "distinct (plan_order p)" "set (plan_order p) = fst ` set (psp_nodes plan)"
    using compiled_order [OF p] by (simp_all add: execution_order_def nodes)
  then have len: "length (plan_order p) = length (psp_nodes plan)"
    using bt.distinct_keys [of "psp_nodes plan"] wf(1) distinct_card [of "plan_order p"] distinct_card [of "map fst (psp_nodes plan)"]
    by (simp add: plan_wf_def)
  show "sched_inv s"
    using new_inv [OF new g wf(2)] .
  show "graph_ready (plan_graph (sch_plan s)) bound"
    using wire_ok_compiled [OF p ins] admitted(1,3) order len g by (simp add: graph_ready_def s bound nodes)
  show "sch_previous s = []" "sch_fault s = None" "sg_nodes (plan_graph (sch_plan s)) = psp_nodes plan" "bs_order bound = plan_order (sch_plan s)"
    "bs_epoch bound = sch_epoch s" "length (bs_order bound) = length (psp_nodes plan)"
    by (simp_all add: s nodes bound len)
qed

lemma hosts_placed_opened:
  assumes valid: "validate_assignments (map fst ps) plan key = Inr ()" and wf: "plan_wf plan"
    and prep: "prepare_hosts ps budget = Inr prepared" and nodes: "sg_nodes g = psp_nodes plan"
    and steps: "\<forall>pe \<in> set ps. bt_wf (pp_steps (fst pe))" and len: "length rs = length ps" "length hs = length ps"
    and hosts: "\<And>k. k < length ps \<Longrightarrow> host_validate_assignments (pp_assignments (fst (ps ! k))) (pp_steps (fst (ps ! k))) (rs ! k) = Inr ()
      \<and> rh_schemas (hs ! k) = host_schemas (rs ! k) (pp_assignments (fst (ps ! k)))"
  shows "hosts_placed g (ph_placement prepared) hs"
proof -
  have nodes_wf: "bt_wf (psp_nodes plan)"
    using wf by (simp add: plan_wf_def)
  note partition = assignments_partition [OF valid nodes_wf]
  obtain bindings reports where
    "prepare_peers 0 ps ([], [], \<lparr>cr_steps = [], cr_ordinary = [], cr_budget = budget\<rparr>) = Inr (ph_placement prepared, bindings, reports)"
    using prep by (auto simp: prepare_hosts_def and_then_def res_simps)
  then have placed: "bt_get (ph_placement prepared) i = Some k" if "k < length ps" "i \<in> step_keys (fst (ps ! k))" for i k
    using prepare_peers_placement [of 0 ps "[]"] partition(1) that by (auto simp: sorted_wrt_map)
  have schemas: "step_keys (fst (ps ! k)) = fst ` set (rh_schemas (hs ! k))" if "k < length ps" for k
    using host_validate_Inr(2) [of "pp_assignments (fst (ps ! k))" "pp_steps (fst (ps ! k))" "rs ! k"] hosts [OF that] steps that
    by (simp add: step_keys_def)
  have "\<exists>h < length hs. bt_get (ph_placement prepared) i = Some h \<and> (\<exists>t. bt_get (rh_schemas (hs ! h)) i = Some t \<and> schema_eq s t)"
    if node: "(i, s) \<in> set (psp_nodes plan)" for i s
  proof -
    have "i \<in> (\<Union>peer \<in> set (map fst ps). step_keys peer)"
      unfolding partition(2) using node by force
    then obtain k where k: "k < length ps" "i \<in> step_keys (fst (ps ! k))"
      by (auto simp: in_set_conv_nth)
    have swf: "bt_wf (rh_schemas (hs ! k))"
      using hosts [OF k(1)] by (simp add: host_schemas_wf)
    obtain t where t: "(i, t) \<in> set (rh_schemas (hs ! k))"
      using k(2) unfolding schemas [OF k(1)] by auto
    then obtain a where a: "(i, a) \<in> set (pp_steps (fst (ps ! k)))" "sa_schema a = export_schema t"
      using host_validate_Inr(3) hosts [OF k(1)] steps k(1) by force
    have "fst (ps ! k) \<in> set (map fst ps)"
      using k(1) by simp
    then have "step_placed (psp_nodes plan) (i, a)"
      using validate_assignments_Inr(2) [OF valid nodes_wf] a(1) by blast
    then have "export_schema s = export_schema t"
      using a(2) node bt.get_Some_iff [OF nodes_wf, of i s] by (auto simp: step_placed_def)
    then have "schema_eq s t"
      using export_schema_eq [of s t] by (simp add: schema_eq_def canon_schema_def canon_ports_def ports_eq_def list_all2_map1 split_def)
    then show ?thesis
      using placed [OF k] k(1) len t bt.get_Some_iff [OF swf, of i t] by auto
  qed
  moreover have "bt_get (ph_placement prepared) i = Some h" if "h < length hs" "bt_contains (rh_schemas (hs ! h)) i" for h i
  proof -
    have "i \<in> fst ` set (rh_schemas (hs ! h))"
      using that hosts [of h] len bt.get_None_iff [OF host_schemas_wf] by (auto simp: bt_contains_def)
    then show ?thesis
      using placed schemas that(1) len by simp
  qed
  ultimately show ?thesis
    by (auto simp: hosts_placed_def nodes)
qed

definition adapter_new :: "'y \<Rightarrow> 'y Adapter" where
  "adapter_new y = \<lparr>ad_executor = y, ad_run = None, ad_ordinal = 0, ad_failure = None\<rparr>"

text \<open>The host of the peer at each position, opened with the registry it was started with and the connection that
  the preparation has left.\<close>

definition hosts_open ::
  "(WireGraph \<times> WireDuration \<Rightarrow> bytes option) \<Rightarrow> (bytes \<Rightarrow> string) \<Rightarrow> (ProcessStepPeer \<times> HostEvent list) list \<Rightarrow> ProcessRegistry list
    \<Rightarrow> Connection list \<Rightarrow> BoundSteps \<Rightarrow> FailureCode + RemoteHost list" where
  "hosts_open to_vec sha256 ps rs cs bound =
     try_map (\<lambda>((peer, _), r, c). host_open to_vec sha256 (pp_identity peer) r (pp_assignments peer) c bound) (zip ps (zip rs cs))"

definition peer_identities :: "(ProcessStepPeer \<times> HostEvent list) list \<Rightarrow> SessionIdentity set" where
  "peer_identities ps = (\<lambda>(peer, _). pp_identity peer) ` set ps"

text \<open>The connections of the peers, each with room for \<open>N\<close> more messages in either direction.\<close>

definition connections_ok :: "nat \<Rightarrow> (ProcessStepPeer \<times> HostEvent list) list \<Rightarrow> Connection list \<Rightarrow> bool" where
  "connections_ok N ps cs \<longleftrightarrow> list_all2 (\<lambda>(peer, _) c. connection_ok {pp_identity peer} N c) ps cs"

definition hosts_assigned :: "(ProcessStepPeer \<times> HostEvent list) list \<Rightarrow> ProcessRegistry list \<Rightarrow> bool" where
  "hosts_assigned ps rs \<longleftrightarrow> list_all2 (\<lambda>(peer, _) r. bt_wf (pp_steps peer)
     \<and> host_validate_assignments (pp_assignments peer) (pp_steps peer) r = Inr ()) ps rs"

lemma session_opens:
  assumes prep: "owner_prepare to_vec sha256 validate ps key plan initial NEXT = (Inr (s, bound, ex), n)"
    and wf: "plan_wf plan" "duration_wf initial" and assigned: "hosts_assigned ps rs" and conns: "connections_ok N ps cs"
  obtains hs where "hosts_open to_vec sha256 ps rs cs bound = Inr hs"
    and "\<And>run x. remote_idle (peer_identities ps) N (plan_graph (sch_plan s)) bound s run (adapter_new (ex, hs, x))"
proof -
  obtain budget prepared g bootstrap where valid: "validate_assignments (map fst ps) plan key = Inr ()"
    and hosts: "prepare_hosts ps budget = Inr prepared" and resolved: "plan_resolve plan (ph_reports prepared) = Inr g"
    and bind: "owner_bind to_vec sha256 key g initial NEXT = (Inr (s, bound, bootstrap), n)"
    and ex: "ex = owner_executor (ph_placement prepared) g bound bootstrap"
    using prep by (rule owner_prepare_Inr)
  obtain p where p: "Plan_compile g = Inr p" and new: "StepScheduler_new g initial NEXT = (Inr s, n)"
    and bound: "bs_initial_time bound = duration_wire initial"
    using bind by (rule owner_bind_Inr) simp
  have s: "plan_graph (sch_plan s) = g" "sch_next_index s = 0" "sch_time s = initial"
    using new p by (auto simp: StepScheduler_new_def Plan_compile_Inr split: option.splits)
  define open_at where "open_at k = host_open to_vec sha256 (pp_identity (fst (ps ! k))) (rs ! k) (pp_assignments (fst (ps ! k))) (cs ! k) bound" for k
  have len: "length rs = length ps" "length cs = length ps"
    using assigned conns unfolding hosts_assigned_def connections_ok_def by (auto dest: list_all2_lengthD)
  have at: "bt_wf (pp_steps (fst (ps ! k)))"
    "host_validate_assignments (pp_assignments (fst (ps ! k))) (pp_steps (fst (ps ! k))) (rs ! k) = Inr ()" if "k < length ps" for k
    using assigned that by (auto simp: hosts_assigned_def list_all2_conv_all_nth case_prod_beta)
  have "\<exists>h. open_at k = Inr h \<and> rh_schemas h = host_schemas (rs ! k) (pp_assignments (fst (ps ! k))) \<and> \<not> rh_ended h
      \<and> ReplayGuard_new bound (rh_schemas h) = Inr (rh_guard h) \<and> rh_connection h = cs ! k" if k: "k < length ps" for k
  proof -
    have "fst (ps ! k) \<in> set (map fst ps)"
      using k by simp
    note agrees = host_bind_agrees [OF valid wf(1) resolved bind wf(2) this at [OF k]]
    then show ?thesis
      by (auto simp: open_at_def host_open_def)
  qed
  then obtain h where h: "\<And>k. k < length ps \<Longrightarrow> open_at k = Inr (h k) \<and> rh_schemas (h k) = host_schemas (rs ! k) (pp_assignments (fst (ps ! k)))
      \<and> \<not> rh_ended (h k) \<and> ReplayGuard_new bound (rh_schemas (h k)) = Inr (rh_guard (h k)) \<and> rh_connection (h k) = cs ! k"
    by metis
  define hs where "hs = map h [0..<length ps]"
  have hs: "length hs = length ps" "\<And>k. k < length ps \<Longrightarrow> hs ! k = h k"
    by (simp_all add: hs_def)
  show thesis
  proof (rule that [of hs])
    show "hosts_open to_vec sha256 ps rs cs bound = Inr hs"
      using h len hs by (simp add: hosts_open_def try_map_Inr list_all2_conv_all_nth case_prod_beta open_at_def)
    have "sg_nodes g = psp_nodes plan"
      using plan_resolve_Inr [OF resolved] by simp
    then have "hosts_placed g (ph_placement prepared) hs"
      using hosts_placed_opened [OF valid wf(1) hosts _ _ len(1) hs(1)] at h hs by (simp add: all_set_conv_all_nth)
    moreover have "host_ready (peer_identities ps) N bound (tick_at s) run [] x" if mem: "x \<in> set hs" for x run
    proof -
      obtain k where k: "k < length ps" "x = h k"
        using mem by (auto simp: hs_def)
      have opened: "ReplayGuard_new bound (rh_schemas x) = Inr (rh_guard x)" "bt_wf (rh_schemas x)" "\<not> rh_ended x"
        using h [OF k(1)] host_schemas_wf unfolding k(2) by metis+
      have "connection_ok {pp_identity (fst (ps ! k))} N (rh_connection x)"
        using conns k h [OF k(1)] by (auto simp: connections_ok_def list_all2_conv_all_nth case_prod_beta)
      moreover have "pp_identity (fst (ps ! k)) \<in> peer_identities ps"
        unfolding peer_identities_def using k(1) by (intro image_eqI [of _ _ "ps ! k"]) (simp_all add: case_prod_beta)
      ultimately have "connection_ok (peer_identities ps) N (rh_connection x)"
        by (simp add: connection_ok_def)
      then show ?thesis
        using synced_new [OF opened(1,2), of "tick_at s" run] opened(3) by (simp add: host_ready_def tick_at_def s bound)
    qed
    ultimately show "remote_idle (peer_identities ps) N (plan_graph (sch_plan s)) bound s run (adapter_new (ex, hs, x))" for run x
      by (simp add: remote_idle_def adapter_new_def s ex owner_executor_def)
  qed
qed

section \<open>A session of ticks\<close>

text \<open>The ticks of a session, one after the other: an accepted run, the room the client has left its outputs,
  the commit gate it meets and its request. What a tick leaves is its result and the structured cause.\<close>

type_synonym session_tick = "Run \<times> nat \<times> gate \<times> StepRequest"

fun session_ticks ::
  "(Run \<Rightarrow> nat \<Rightarrow> 'x \<Rightarrow> 'x) \<Rightarrow> 'x executor \<Rightarrow> ('x \<Rightarrow> StepFailureKind option) \<Rightarrow> session_tick list \<Rightarrow> StepScheduler \<Rightarrow> 'x
    \<Rightarrow> (advance_result \<times> StepFailureKind option) list \<times> StepScheduler \<times> 'x" where
  "session_ticks start invoke failure [] s x = ([], s, x)"
| "session_ticks start invoke failure ((run, available, control, request) # ticks) s x =
     (case advance_controlled invoke control request s (start run available x) of (res, s, x) \<Rightarrow>
      case session_ticks start invoke failure ticks s x of (results, s', x') \<Rightarrow> ((res, failure x) # results, s', x'))"

definition store_available :: "nat \<Rightarrow> (Executor \<times> 'h) Adapter \<Rightarrow> (Executor \<times> 'h) Adapter" where
  "store_available available a = (case ad_executor a of (ex, h) \<Rightarrow>
     a\<lparr>ad_executor := (ex\<lparr>ex_retention := (ex_retention ex)\<lparr>rt_available := available\<rparr>\<rparr>, h)\<rparr>)"

text \<open>The session over hosts, and the session of the same workers in one process.\<close>

definition remote_session ::
  "StepWire \<Rightarrow> nat \<Rightarrow> (StepCallKey \<Rightarrow> nat) \<Rightarrow> (StepCallKey \<Rightarrow> nat) \<Rightarrow> 'x executor \<Rightarrow> session_tick list \<Rightarrow> StepScheduler \<Rightarrow> 'x remote
    \<Rightarrow> (advance_result \<times> StepFailureKind option) list \<times> StepScheduler \<times> 'x remote" where
  "remote_session W imax owner_now host_now component = session_ticks (\<lambda>run available a. adapter_begin run (store_available available a))
     (adapter_invoke (executor_invoke (host_exchange W imax host_now (worker_run component)) owner_now)) ad_failure"

definition local_session ::
  "'x executor \<Rightarrow> session_tick list \<Rightarrow> StepScheduler \<Rightarrow> 'x LocalExecutor
    \<Rightarrow> (advance_result \<times> StepFailureKind option) list \<times> StepScheduler \<times> 'x LocalExecutor" where
  "local_session component = session_ticks (\<lambda>_ _. local_begin) (local_invoke (worker_run component)) le_failure"

text \<open>Ticks whose runs are numbered upwards, have a deadline that is met, inputs of at most \<open>V\<close> bytes each and room
  for their outputs.\<close>

definition ticks_fit :: "nat \<Rightarrow> nat \<Rightarrow> (StepCallKey \<Rightarrow> nat) \<Rightarrow> (StepCallKey \<Rightarrow> nat) \<Rightarrow> nat \<Rightarrow> session_tick list \<Rightarrow> bool" where
  "ticks_fit V imax onow hnow room ticks \<longleftrightarrow> sorted_wrt (<) (map (\<lambda>(R, _). rid_sequence (run_id R)) ticks)
     \<and> list_all (\<lambda>(R, available, _, req). rid_sequence (run_id R) \<noteq> U64_MAX
         \<and> (\<exists>deadline. run_deadline R = Some deadline \<and> clock_ok imax onow hnow (rid_sequence (run_id R)) deadline)
         \<and> room \<le> available \<and> available < 2 ^ 64
         \<and> duration_wf (req_dt req) \<and> (\<forall>v \<in> snd ` set (req_inputs req). small V v)) ticks"

lemma local_keeps_calls:
  "advance_controlled (local_invoke w) control req s l = (res, s', l') \<Longrightarrow> le_calls l' = le_calls l"
proof -
  have invoke: "le_calls (snd (local_invoke w l i t ins)) = le_calls l" for l i t ins
    by (auto simp: local_invoke_def Let_def split: prod.splits WorkerReply.splits sum.splits)
  have run: "le_calls (snd (run_nodes (local_invoke w) s r insts g outs l)) = le_calls l" for r insts g outs l
  proof (induction insts arbitrary: g outs l)
    case (Cons i insts)
    show ?case
      using Cons invoke [of l i "vr_tick r"]
      by (auto simp: Let_def split: option.splits prod.splits NodeRun.splits sum.splits) (metis snd_conv)+
  qed simp
  show "advance_controlled (local_invoke w) control req s l = (res, s', l') \<Longrightarrow> le_calls l' = le_calls l"
    using run [of _ "plan_order (sch_plan s)" _ "[]" l]
    by (auto simp: advance_controlled_def split: option.splits sum.splits prod.splits abort.splits run_stop.splits) (metis snd_conv)+
qed

lemma local_wf_executor:
  assumes "wf_executor c"
  shows "wf_executor (local_invoke (worker_run (canon_component c)))"
proof -
  have "bt_wf outs" if "fst (local_invoke (worker_run (canon_component c)) l i t ins) = NodeRun (Inr (Inr outs)) d" for l i t ins outs d
    using that assms unfolding wf_executor_def
    by (auto simp: local_invoke_def Let_def worker_run_def canon_component_def catch_node_Inr
      split: prod.splits WorkerReply.splits sum.splits NodeRun.splits if_splits) (metis fst_conv)+
  then show ?thesis
    by (auto simp: wf_executor_def)
qed

lemma advance_static:
  assumes "sched_inv s" and "wf_executor invoke" and "advance_controlled invoke control req s x = (res, s', x')"
  shows "sch_plan s' = sch_plan s" and "sch_epoch s' = sch_epoch s"
  using assms by (cases rule: advance_outcome; auto simp: faulted_with_def committed_def)+

lemma session_transparent:
  assumes fits: "component_fits V M (sg_nodes (plan_graph (sch_plan s))) B c" "wf_executor c"
    and graph: "graph_ready (plan_graph (sch_plan s)) bound" "bs_order bound = plan_order (sch_plan s)" "bs_epoch bound = sch_epoch s"
    and ticks: "ticks_fit V imax onow hnow (2 * B * length (bs_order bound)) ticks"
    and wires: "wires_ok W ids (bs_session bound) (sg_nodes (plan_graph (sch_plan s))) V M" and N: "length ticks * length (bs_order bound) \<le> N"
    and calls: "set (bs_order bound) \<subseteq> le_calls l" and inv: "sched_inv s" and same: "remote_workers a = le_workers l"
    and idle: "\<And>run. sch_fault s = None \<Longrightarrow> run \<in> (\<lambda>(R, _). rid_sequence (run_id R)) ` set ticks \<Longrightarrow>
      remote_idle ids N (plan_graph (sch_plan s)) bound s run a \<and> sched_small V s"
  obtains results s' a' l' where "remote_session W imax onow hnow c ticks s a = (results, s', a')"
    and "local_session (canon_component c) ticks s l = (results, s', l')" and "remote_workers a' = le_workers l'"
  using assms
proof (induction ticks arbitrary: thesis s a l N)
  case Nil
  show ?case
    by (rule Nil.prems(1)) (use Nil.prems(12) in \<open>simp_all add: remote_session_def local_session_def\<close>)
next
  case (Cons tick ticks)
  obtain R available control req where tick: "tick = (R, available, control, req)"
    by (cases tick)
  let ?R = "remote_invoke W imax onow hnow c"
  let ?L = "local_invoke (worker_run (canon_component c))"
  define run where "run = rid_sequence (run_id R)"
  define a0 where "a0 = store_available available a"
  have later: "ticks_fit V imax onow hnow (2 * B * length (bs_order bound)) ticks"
    and after_run: "\<And>run'. run' \<in> (\<lambda>(R, _). rid_sequence (run_id R)) ` set ticks \<Longrightarrow> run < run'"
    using Cons.prems(7) by (auto simp: ticks_fit_def tick run_def)
  obtain deadline where now: "run \<noteq> U64_MAX" "run_deadline R = Some deadline" "clock_ok imax onow hnow run deadline"
      "duration_wf (req_dt req)" "\<forall>v \<in> snd ` set (req_inputs req). small V v"
    and room: "2 * B * length (bs_order bound) \<le> available" "available < 2 ^ 64"
    using Cons.prems(7) by (auto simp: ticks_fit_def tick run_def)
  have len: "length (bs_order bound) \<le> N" "length ticks * length (bs_order bound) \<le> N - length (bs_order bound)"
    using Cons.prems(9) by simp_all
  have a0: "retention_room B bound a0" "remote_workers a0 = le_workers l"
    using room Cons.prems(12) by (auto simp: a0_def store_available_def retention_room_def remote_workers_def split: prod.splits)
  obtain res s1 a1 l1 where adv: "advance_controlled ?R control req s (adapter_begin R a0) = (res, s1, a1)"
      "advance_controlled ?L control req s (local_begin l) = (res, s1, l1)" "same_workers a1 l1"
    and next_idle: "\<And>run'. sch_fault s1 = None \<Longrightarrow> run < run' \<Longrightarrow> remote_idle ids (N - length (bs_order bound)) (plan_graph (sch_plan s)) bound s1 run' a1 \<and> sched_small V s1"
  proof (cases "sch_fault s")
    case None
    have "remote_idle ids N (plan_graph (sch_plan s)) bound s run a0" "sched_small V s"
      using Cons.prems(13) [OF None, of run]
      by (auto simp: tick run_def a0_def store_available_def remote_idle_def split: prod.splits)
    then show thesis
      using advance_transparent [OF Cons.prems(11) None Cons.prems(4,5,6) now(4,5) _ Cons.prems(2) now(3,1) run_def [symmetric] now(2) Cons.prems(8) len(1) Cons.prems(10) _ a0]
        that by blast
  next
    case (Some f)
    have "same_workers (adapter_begin R a0) (local_begin l)"
      using a0(2) by (simp add: same_workers_def adapter_begin_def local_begin_def remote_workers_def)
    then show thesis
      by (intro that [of "Returned (Inl (Sched_Faulted f))" s "adapter_begin R a0" "local_begin l"])
        (use Some in \<open>simp_all add: advance_controlled_def\<close>)
  qed
  note static = advance_static [OF Cons.prems(11) local_wf_executor [OF Cons.prems(3)] adv(2)]
  have inv1: "sched_inv s1"
    using advance_inv [OF Cons.prems(11) local_wf_executor [OF Cons.prems(3)] now(4) adv(2)] by blast
  have calls1: "set (bs_order bound) \<subseteq> le_calls l1"
    using local_keeps_calls [OF adv(2)] Cons.prems(10) by (simp add: local_begin_def)
  have same1: "remote_workers a1 = le_workers l1" "ad_failure a1 = le_failure l1"
    using adv(3) by (simp_all add: same_workers_def)
  obtain results s' a' l' where "remote_session W imax onow hnow c ticks s1 a1 = (results, s', a')"
      "local_session (canon_component c) ticks s1 l1 = (results, s', l')" and fin: "remote_workers a' = le_workers l'"
    using Cons.IH [where s = s1 and a = a1 and l = l1, unfolded static, OF _ Cons.prems(2-6) later Cons.prems(8) len(2) calls1 inv1 same1(1)] next_idle after_run
    by blast
  then show ?case
    using adv(1,2) same1(2)
    by (intro Cons.prems(1) [OF _ _ fin, of "(res, le_failure l1) # results"])
      (simp_all add: remote_session_def local_session_def tick a0_def)
qed

end
