(* ===== verification/Process_Codec.thy ===== *)
theory Process_Codec
  imports Process_Placement
begin

text \<open>
  A concrete encoding of the messages of a step session, for running the session of an example: the identity
  of the session and the node are named by their positions in lists both ends know, numbers are eight bytes
  each, values are led by their lengths. What it writes it reads back, and the calls and results of nodes with
  few ports and short values fit the frame limit.
\<close>

section \<open>Positions, numbers and values\<close>

definition position_byte :: "'a list \<Rightarrow> 'a \<Rightarrow> u8" where
  "position_byte xs x = word_of_nat (length (takeWhile (\<lambda>y. y \<noteq> x) xs))"

lemma position_get:
  assumes "x \<in> set xs" and "length xs \<le> 256"
  shows "list_get xs (unat (position_byte xs x)) = Some x"
proof -
  let ?k = "length (takeWhile (\<lambda>y. y \<noteq> x) xs)"
  have "x = xs ! ?k" "?k < length xs"
    using assms(1) nth_length_takeWhile [of "\<lambda>y. y \<noteq> x" xs] length_takeWhile_le [of "\<lambda>y. y \<noteq> x" xs]
    by (metis (mono_tags) le_neq_implies_less set_takeWhileD takeWhile_eq_take take_all_iff order_refl)+
  then show ?thesis
    using assms(2) by (simp add: list_get_def position_byte_def unat_of_nat)
qed

definition write_words :: "u64 list \<Rightarrow> bytes" where
  "write_words ws = concat (map to_le_bytes ws)"

fun read_words :: "nat \<Rightarrow> bytes \<Rightarrow> u64 list \<times> bytes" where
  "read_words 0 bs = ([], bs)"
| "read_words (Suc n) bs = (case read_words n (drop 8 bs) of (ws, rest) \<Rightarrow> (from_le_bytes (take 8 bs) # ws, rest))"

lemma read_write_words: "length ws = n \<Longrightarrow> read_words n (write_words ws @ bs) = (ws, bs)"
  by (induction ws arbitrary: n) (auto simp: write_words_def)

lemma length_write_words: "length (write_words ws) = 8 * length ws"
  by (induction ws) (simp_all add: write_words_def)

definition write_values :: "(string, WireValue) btree \<Rightarrow> bytes" where
  "write_values vs = concat (map (\<lambda>(_, v). word_of_nat (length (wv_bytes v)) # wv_bytes v) vs)"

fun read_values :: "(string, StepType) btree \<Rightarrow> bytes \<Rightarrow> (string, WireValue) btree" where
  "read_values ((p, t) # ports) (n # bs) =
     (p, \<lparr>wv_ty = export_type t, wv_bytes = take (unat n) bs\<rparr>) # read_values ports (drop (unat n) bs)"
| "read_values _ _ = []"

lemma read_write_values:
  assumes "payload_fits V ports vs" and "V \<le> 255"
  shows "read_values ports (write_values vs) = vs" and "length (write_values vs) \<le> 256 * length ports"
proof -
  have "read_values ports (write_values vs) = vs \<and> length (write_values vs) \<le> 256 * length ports"
    using assms(1) unfolding payload_fits_def
  proof (induction rule: list_all2_induct)
    case (Cons x vs y ports)
    obtain p w t where xy: "x = (p, w)" "y = (p, t)" and w: "wv_ty w = export_type t" "length (wv_bytes w) \<le> V"
      using Cons.hyps(1) by (cases x, cases y) simp
    have "unat (word_of_nat (length (wv_bytes w)) :: u8) = length (wv_bytes w)"
      using w(2) assms(2) by (simp add: unat_of_nat)
    moreover have "w = \<lparr>wv_ty = export_type t, wv_bytes = wv_bytes w\<rparr>"
      using w(1) by simp
    ultimately show ?case
      using Cons.IH w assms(2) by (simp add: xy write_values_def)
  qed (simp add: write_values_def)
  then show "read_values ports (write_values vs) = vs" "length (write_values vs) \<le> 256 * length ports"
    by blast+
qed

section \<open>Calls and results\<close>

text \<open>The words of a call key, and of a command after them.\<close>

definition key_words :: "StepCallKey \<Rightarrow> u64 list" where
  "key_words k = [ck_epoch k, ck_run_sequence k, ck_tick_index k, ucast (ck_node_ordinal k)]"

definition key_of :: "StepSessionKey \<Rightarrow> string \<Rightarrow> u64 list \<Rightarrow> StepCallKey" where
  "key_of key inst ws = \<lparr>ck_session = key, ck_epoch = ws ! 0, ck_run_sequence = ws ! 1, ck_tick_index = ws ! 2,
     ck_node_ordinal = ucast (ws ! 3), ck_instance = inst\<rparr>"

lemma narrow_widen [simp]: "(ucast (ucast (x :: u32) :: u64) :: u32) = x"
  by transfer simp

lemma key_of_words: "ck_session k = key \<Longrightarrow> key_of key (ck_instance k) (key_words k @ ws) = k"
  by (simp add: key_of_def key_words_def)

definition duration_words :: "WireDuration \<Rightarrow> u64 list" where
  "duration_words d = [wd_secs d, ucast (wd_nanos d)]"

definition duration_at :: "nat \<Rightarrow> u64 list \<Rightarrow> WireDuration" where
  "duration_at k ws = \<lparr>wd_secs = ws ! k, wd_nanos = ucast (ws ! Suc k)\<rparr>"

definition command_words :: "InvokeStep \<Rightarrow> u64 list" where
  "command_words c = key_words (is_call c) @ [wt_epoch (is_tick c), wt_index (is_tick c)] @ duration_words (wt_start (is_tick c))
     @ duration_words (wt_dt (is_tick c)) @ duration_words (wt_end (is_tick c)) @ duration_words (is_remaining_budget c)"

definition command_of :: "StepSessionKey \<Rightarrow> string \<Rightarrow> u64 list \<Rightarrow> (string, WireValue) btree \<Rightarrow> InvokeStep" where
  "command_of key inst ws inputs = \<lparr>is_call = key_of key inst ws,
     is_tick = \<lparr>wt_epoch = ws ! 4, wt_index = ws ! 5, wt_start = duration_at 6 ws, wt_dt = duration_at 8 ws, wt_end = duration_at 10 ws\<rparr>,
     is_inputs = inputs, is_remaining_budget = duration_at 12 ws\<rparr>"

lemma command_of_words:
  "ck_session (is_call c) = key \<Longrightarrow> command_of key (ck_instance (is_call c)) (command_words c) (is_inputs c) = c"
  by (simp add: command_of_def command_words_def key_of_words)
    (simp add: key_words_def duration_at_def duration_words_def)

text \<open>The codes of a failure, in the order of the protocol.\<close>

definition failure_codes :: "StepFailureCode list" where
  "failure_codes = [Code_NodeError, Code_NodePanicked, Code_InvalidOutputs, Code_Cancelled, Code_TimedOut, Code_HostStopped, Code_WorkerLost]"

definition write_outcome :: "WireStepFailure + (string, WireValue) btree \<Rightarrow> bytes" where
  "write_outcome r = (case r of Inr vs \<Rightarrow> 0 # write_values vs | Inl f \<Rightarrow> [1, position_byte failure_codes (wf_code f)])"

definition read_outcome :: "(string, StepType) btree \<Rightarrow> bytes \<Rightarrow> (WireStepFailure + (string, WireValue) btree) option" where
  "read_outcome ports bs = (case bs of [] \<Rightarrow> None
     | tag # bs \<Rightarrow> if tag = 0 then Some (Inr (read_values ports bs))
         else (case bs of [] \<Rightarrow> None
           | c # _ \<Rightarrow> map_option (\<lambda>code. Inl \<lparr>wf_code = code, wf_message = ''''\<rparr>) (list_get failure_codes (unat c))))"

definition outcome_fits :: "nat \<Rightarrow> (string, StepType) btree \<Rightarrow> WireStepFailure + (string, WireValue) btree \<Rightarrow> bool" where
  "outcome_fits V ports r \<longleftrightarrow> (case r of Inr vs \<Rightarrow> payload_fits V ports vs | Inl f \<Rightarrow> wf_message f = '''')"

lemma failure_codes_all: "c \<in> set failure_codes"
  by (cases c) (simp_all add: failure_codes_def)

lemma read_write_outcome:
  assumes "outcome_fits V ports r" and "V \<le> 255"
  shows "read_outcome ports (write_outcome r) = Some r" and "length (write_outcome r) \<le> 2 + 256 * length ports"
proof -
  have codes: "list_get failure_codes (unat (position_byte failure_codes c)) = Some c" for c
    by (rule position_get [OF failure_codes_all]) (simp add: failure_codes_def)
  show "read_outcome ports (write_outcome r) = Some r" "length (write_outcome r) \<le> 2 + 256 * length ports"
    using assms read_write_values [of V ports] codes
    by (auto simp: outcome_fits_def read_outcome_def write_outcome_def le_SucI split: sum.splits)
qed

section \<open>The wire\<close>

text \<open>An encoder and a decoder of a message, from the two positions and the words the message leads with.\<close>

definition write_message :: "SessionIdentity list \<Rightarrow> nodes \<Rightarrow> SessionIdentity \<Rightarrow> string \<Rightarrow> u64 list \<Rightarrow> bytes \<Rightarrow> bytes" where
  "write_message ids nodes i inst ws rest = position_byte ids i # position_byte (map fst nodes) inst # write_words ws @ rest"

definition read_message :: "SessionIdentity list \<Rightarrow> nodes \<Rightarrow> nat \<Rightarrow> bytes \<Rightarrow> (SessionIdentity \<times> string \<times> StepSchema \<times> u64 list \<times> bytes) option" where
  "read_message ids nodes n bs = (case bs of i # k # bs \<Rightarrow>
       (case (list_get ids (unat i), list_get (map fst nodes) (unat k)) of
          (Some i, Some inst) \<Rightarrow> map_option (\<lambda>schema. (i, inst, schema, read_words n bs)) (bt_get nodes inst)
        | _ \<Rightarrow> None)
     | _ \<Rightarrow> None)"

lemma read_write_message:
  assumes "i \<in> set ids" and "bt_get nodes inst = Some schema" and "length ids \<le> 256" and "length nodes \<le> 256" and "length ws = n"
  shows "read_message ids nodes n (write_message ids nodes i inst ws rest) = Some (i, inst, schema, ws, rest)"
proof -
  have "inst \<in> set (map fst nodes)"
    using bt_get_in [OF assms(2)] assms(2) by (force simp: bt_get_def dest: map_of_SomeD)
  then show ?thesis
    using assms position_get [of i ids] position_get [of inst "map fst nodes"] read_write_words [OF assms(5)]
    by (simp add: read_message_def write_message_def)
qed

lemma length_write_message: "length (write_message ids nodes i inst ws rest) = 2 + 8 * length ws + length rest"
  by (simp add: write_message_def length_write_words)

definition write_command :: "SessionIdentity list \<Rightarrow> nodes \<Rightarrow> InvokeStep Envelope \<Rightarrow> bytes" where
  "write_command ids nodes e = write_message ids nodes (env_session e) (ck_instance (is_call (env_body e)))
     (env_sequence e # command_words (env_body e)) (write_values (is_inputs (env_body e)))"

definition read_command :: "SessionIdentity list \<Rightarrow> StepSessionKey \<Rightarrow> nodes \<Rightarrow> bytes \<Rightarrow> InvokeStep Envelope option" where
  "read_command ids key nodes bs = map_option (\<lambda>(i, inst, schema, ws, rest).
     \<lparr>env_session = i, env_sequence = ws ! 0, env_body = command_of key inst (tl ws) (read_values (ss_inputs schema) rest)\<rparr>)
     (read_message ids nodes 15 bs)"

definition write_reply :: "SessionIdentity list \<Rightarrow> nodes \<Rightarrow> HostReply Envelope \<Rightarrow> bytes" where
  "write_reply ids nodes e = (case env_body e of
     Reply_Result r \<Rightarrow> write_message ids nodes (env_session e) (ck_instance (sr_call r)) (env_sequence e # key_words (sr_call r)) (write_outcome (sr_result r))
   | _ \<Rightarrow> [])"

definition read_reply :: "SessionIdentity list \<Rightarrow> StepSessionKey \<Rightarrow> nodes \<Rightarrow> bytes \<Rightarrow> HostReply Envelope option" where
  "read_reply ids key nodes bs = (case read_message ids nodes 5 bs of
     None \<Rightarrow> None
   | Some (i, inst, schema, ws, rest) \<Rightarrow> map_option (\<lambda>r.
       \<lparr>env_session = i, env_sequence = ws ! 0, env_body = Reply_Result \<lparr>sr_call = key_of key inst (tl ws), sr_result = r\<rparr>\<rparr>)
       (read_outcome (ss_outputs schema) rest))"

text \<open>What does not read back is not written.\<close>

definition checked_json :: "('b Envelope \<Rightarrow> bytes) \<Rightarrow> (bytes \<Rightarrow> 'b Envelope option) \<Rightarrow> 'b json" where
  "checked_json ser de = \<lparr>js_write = \<lambda>e. if de (ser e) = Some e then Some (ser e) else None, js_unique = \<lambda>_. True, js_read = de\<rparr>"

lemma checked_json_ok: "json_ok (checked_json ser de)"
  by (auto simp: json_ok_def checked_json_def split: if_splits)

definition step_wire :: "SessionIdentity list \<Rightarrow> StepSessionKey \<Rightarrow> nodes \<Rightarrow> StepWire" where
  "step_wire ids key nodes = \<lparr>sw_owner = checked_json (write_command ids nodes) (read_command ids key nodes),
     sw_host = checked_json (write_reply ids nodes) (read_reply ids key nodes), sw_cuts = \<lambda>_ n. n\<rparr>"

lemma checked_seal:
  assumes "de (ser \<lparr>env_session = i, env_sequence = q, env_body = m\<rparr>) = Some \<lparr>env_session = i, env_sequence = q, env_body = m\<rparr>"
    and "ser \<lparr>env_session = i, env_sequence = q, env_body = m\<rparr> \<noteq> []"
    and "length (ser \<lparr>env_session = i, env_sequence = q, env_body = m\<rparr>) \<le> 8388608"
  shows "is_ok (seal_message (checked_json ser de) i q m)"
proof -
  have "int (length (ser \<lparr>env_session = i, env_sequence = q, env_body = m\<rparr>)) \<le> uint MAX_FRAME_BYTES"
    using assms(3) by (simp add: MAX_FRAME_BYTES_def)
  moreover obtain h where "frame_header (ser \<lparr>env_session = i, env_sequence = q, env_body = m\<rparr>) = Inr h"
    using assms(2,3) by (simp add: frame_header_Inr)
  ultimately show ?thesis
    using assms(1) by (simp add: seal_message_def codec_encode_def checked_json_def is_ok_def)
qed

lemma step_wire_ok:
  assumes len: "length ids \<le> 256" "length nodes \<le> 256" "V \<le> 255"
    and ports: "\<forall>(i, s) \<in> set nodes. length (ss_inputs s) \<le> 1000 \<and> length (ss_outputs s) \<le> 1000"
  shows "wires_ok (step_wire ids key nodes) (set ids) key nodes V 0"
proof -
  have few: "length (ss_inputs s) \<le> 1000" "length (ss_outputs s) \<le> 1000" if "bt_get nodes inst = Some s" for inst s
    using ports map_of_SomeD [OF that [unfolded bt_get_def]] by auto
  have owner: "is_ok (seal_message (sw_owner (step_wire ids key nodes)) i q cmd)"
    if i: "i \<in> set ids" and cmd: "ck_session (is_call cmd) = key" "bt_get nodes (ck_instance (is_call cmd)) = Some s"
      "payload_fits V (ss_inputs s) (is_inputs cmd)" for i q cmd s
  proof -
    let ?e = "\<lparr>env_session = i, env_sequence = q, env_body = cmd\<rparr>"
    have words: "length (q # command_words cmd) = 15"
      by (simp add: command_words_def key_words_def duration_words_def)
    have "read_command ids key nodes (write_command ids nodes ?e) = Some ?e"
      using read_write_message [OF i cmd(2) len(1,2) words] read_write_values(1) [OF cmd(3) len(3)] command_of_words [OF cmd(1)]
      by (simp add: read_command_def write_command_def)
    moreover have "write_command ids nodes ?e \<noteq> []" "length (write_command ids nodes ?e) \<le> 8388608"
      using read_write_values(2) [OF cmd(3) len(3)] few(1) [OF cmd(2)] words
      by (simp_all add: write_command_def length_write_message) (simp add: write_message_def)
    ultimately show ?thesis
      unfolding step_wire_def StepWire.simps by (rule checked_seal)
  qed
  have host: "is_ok (seal_message (sw_host (step_wire ids key nodes)) i q (Reply_Result r))"
    if i: "i \<in> set ids" and r: "ck_session (sr_call r) = key" "bt_get nodes (ck_instance (sr_call r)) = Some s"
      "outcome_fits V (ss_outputs s) (sr_result r)" for i q r s
  proof -
    let ?e = "\<lparr>env_session = i, env_sequence = q, env_body = Reply_Result r\<rparr>"
    have words: "length (q # key_words (sr_call r)) = 5"
      by (simp add: key_words_def)
    have "read_reply ids key nodes (write_reply ids nodes ?e) = Some ?e"
      using read_write_message [OF i r(2) len(1,2) words] read_write_outcome(1) [OF r(3) len(3)] key_of_words [OF r(1), of "[]"]
      by (simp add: read_reply_def write_reply_def)
    moreover have "write_reply ids nodes ?e \<noteq> []" "length (write_reply ids nodes ?e) \<le> 8388608"
      using read_write_outcome(2) [OF r(3) len(3)] few(2) [OF r(2)] words
      by (simp_all add: write_reply_def length_write_message) (simp add: write_message_def)
    ultimately show ?thesis
      unfolding step_wire_def StepWire.simps by (rule checked_seal)
  qed
  have "outcome_fits V ports r"
    if "case r of Inr ws \<Rightarrow> payload_fits V ports ws | Inl f \<Rightarrow> length (wf_message f) \<le> 0" for ports r
    using that by (cases r) (simp_all add: outcome_fits_def)
  then have "frames_fit (step_wire ids key nodes) (set ids) key nodes V 0"
    using owner host unfolding frames_fit_def by blast
  then show ?thesis
    using len(3) by (simp add: wires_ok_def step_wire_def checked_json_ok MAX_VALUE_BYTES_def)
qed

end
