(* ===== verification/Process_Correct.thy ===== *)
theory Process_Correct
  imports Process_Codec Bindings_Correct Step_Correct
begin

text \<open>
  What step sessions over several hosts promise: a host accepts exactly the calls its owner makes, plans
  survive the wire, a plan whose hosts prepared compiles, and where the nodes run makes no difference. The
  example places the two nodes of the step engine's example on two hosts.
\<close>

section \<open>An example session\<close>

definition ex_module :: "string \<Rightarrow> ModuleBindings" where
  "ex_module name = \<lparr>mb_version = 3, mb_namespace = name, mb_endpoint_namespace = name,
     mb_inputs = [], mb_outputs = [], mb_children = [], mb_executables = []\<rparr>"

definition ex_schema :: "string \<Rightarrow> StepSchema" where
  "ex_schema i = the (bt_get (sg_nodes ex_step_graph) i)"

definition ex_step_plan :: ProcessStepPlan where
  "ex_step_plan = \<lparr>psp_nodes = sg_nodes ex_step_graph,
     psp_inputs = [(StepInput ''acc'' ''fb'', Draft_PreviousTick (StepOutput ''acc'' ''sum'') (Seed_PreparedOutput (StepOutput ''acc'' ''sum''))),
                   (StepInput ''acc'' ''x'', Draft_SameTick (StepOutput ''src'' ''y'')),
                   (StepInput ''src'' ''u'', Draft_External)]\<rparr>"

definition ex_assignment :: "string \<Rightarrow> StepAssignment" where
  "ex_assignment i = \<lparr>sa_schema = export_schema (ex_schema i), sa_contract = [], sa_seed_outputs = (if i = ''acc'' then {''sum''} else {})\<rparr>"

definition ex_peer :: "string \<Rightarrow> ProcessStepPeer" where
  "ex_peer i = \<lparr>pp_identity = \<lparr>si_owner_generation = 1, si_graph_generation = 2, si_host_id = i, si_host_generation = 0,
       si_graph_digest = ''g'', si_bundle_digest = ''b''\<rparr>,
     pp_assignments = [\<lparr>ca_implementation = \<lparr>fr_factory = i, fr_revision = ''1''\<rparr>, ca_bindings = ex_module i\<rparr>],
     pp_steps = [(i, ex_assignment i)]\<rparr>"

definition ex_seed :: WireValue where
  "ex_seed = \<lparr>wv_ty = export_type ex_number, wv_bytes = [0]\<rparr>"

definition ex_events :: "string \<Rightarrow> HostEvent list" where
  "ex_events i = [Event_Report (ex_report (ex_module i)),
     Event_StepReport \<lparr>spr_instance = i, spr_schema = export_schema (ex_schema i), spr_contract = [],
       spr_outputs = (if i = ''acc'' then [(''sum'', ex_seed)] else [])\<rparr>,
     Event_PreparedComplete]"

definition ex_registry :: "string \<Rightarrow> ProcessRegistry" where
  "ex_registry i = \<lparr>pr_revisions = [(i, ''1'')], pr_steps = [(i, ex_schema i)],
     pr_seed_outputs = (if i = ''acc'' then [(''acc'', {''sum''})] else [])\<rparr>"

definition ex_peers :: "(ProcessStepPeer \<times> HostEvent list) list" where
  "ex_peers = [(ex_peer ''src'', ex_events ''src''), (ex_peer ''acc'', ex_events ''acc'')]"

definition ex_session_key :: StepSessionKey where
  "ex_session_key = \<lparr>sk_incarnation = [], sk_owner_generation = 1, sk_graph_generation = 2, sk_graph_digest = ''g'', sk_plan_digest = []\<rparr>"

definition ex_owner :: "(PrepareError + StepScheduler \<times> BoundSteps \<times> Executor) \<times> u64" where
  "ex_owner = owner_prepare (\<lambda>_. Some []) (\<lambda>_. ''d'') (\<lambda>_ _. Inr ()) ex_peers ex_session_key ex_step_plan Duration_ZERO 0"

definition ex_opened :: "StepScheduler \<times> BoundSteps \<times> Executor" where
  "ex_opened = projr (fst ex_owner)"

text \<open>One evaluation of the example.\<close>

lemma ex_plan_facts:
  "is_ok (fst ex_owner) \<and> snd ex_owner = 1 \<and> hosts_assigned ex_peers [ex_registry ''src'', ex_registry ''acc''] \<and> plan_wf ex_step_plan
   \<and> validate_assignments (map fst ex_peers) ex_step_plan ex_session_key = Inr ()"
  by code_simp




lemma ex_step_plan_wf: "plan_wf ex_step_plan"
  using ex_plan_facts by blast

lemma ex_assignments_valid: "validate_assignments (map fst ex_peers) ex_step_plan ex_session_key = Inr ()"
  using ex_plan_facts by blast

lemma ex_hosts_prepare: "prepare_hosts ex_peers 0 = Inr \<lparr>ph_placement = [(''acc'', 1), (''src'', 0)],
     ph_reports = [(''acc'', \<lparr>spr_instance = ''acc'', spr_schema = export_schema (ex_schema ''acc''), spr_contract = [], spr_outputs = [(''sum'', ex_seed)]\<rparr>),
       (''src'', \<lparr>spr_instance = ''src'', spr_schema = export_schema (ex_schema ''src''), spr_contract = [], spr_outputs = []\<rparr>)]\<rparr>"
  by code_simp

section \<open>What a host accepts\<close>

lemma fitting_calls_distinct:
  assumes "\<forall>k < length cs. call_fits bound assigned cs k" and "distinct assigned" and "assigned \<noteq> []"
  shows "distinct (map is_call cs)"
proof -
  let ?n = "length assigned"
  have at: "unat (ck_tick_index (is_call (cs ! k))) = k div ?n" "ck_instance (is_call (cs ! k)) = assigned ! (k mod ?n)"
    if "k < length cs" for k
    using assms(1) that by (simp_all add: call_fits_def Let_def)
  have "j = k" if "j < length cs" "k < length cs" "is_call (cs ! j) = is_call (cs ! k)" for j k
  proof -
    have "j div ?n = k div ?n" "assigned ! (j mod ?n) = assigned ! (k mod ?n)"
      using at [OF that(1)] at [OF that(2)] that(3) by simp_all
    moreover from this have "j mod ?n = k mod ?n"
      using assms(2,3) by (simp add: nth_eq_iff_index_eq)
    ultimately show "j = k"
      by (metis div_mult_mod_eq)
  qed
  then show ?thesis
    by (auto simp: distinct_conv_nth)
qed

text \<open>C8. What a replay guard accepts is exactly what the owner sends. A sequence of calls is accepted one
  after the other exactly when the k-th call is for the node at position k mod n of the host's n nodes in
  execution order, in tick k div n, with the interval that starts where the preceding one of that node
  ended, under the session's key and epoch, at the node's ordinal, in one run per tick and a later run for
  every later tick; the workers are given those ticks. No call is accepted twice.\<close>

theorem replay_accepts_exactly:
  assumes "ReplayGuard_new bound schemas = Inr g" and "bt_wf schemas" and "distinct (bs_order bound)"
  shows "((\<exists>g'. reserve_all cs g = Inr (ts, g')) \<longleftrightarrow>
      (\<forall>k < length cs. call_fits bound (filter (bt_contains schemas) (bs_order bound)) cs k)
      \<and> ts = map (\<lambda>c. tick_of (bs_epoch bound) (is_tick c)) cs)
    \<and> ((\<exists>g'. reserve_all cs g = Inr (ts, g')) \<longrightarrow> distinct (map is_call cs))"
proof -
  have assigned: "rg_assigned g = filter (bt_contains schemas) (bs_order bound)" "rg_assigned g \<noteq> []"
    using guard_new [OF assms(1,2)] assms(1) by (auto simp: ReplayGuard_new_def Let_def res_simps split: if_splits)
  then show ?thesis
    using reserve_all_exact [OF assms, of cs ts] fitting_calls_distinct [of cs bound "rg_assigned g"] assms(3) by auto
qed

definition ex_bound :: BoundSteps where
  "ex_bound = fst (snd ex_opened)"

definition ex_call :: "u64 \<Rightarrow> u64 \<Rightarrow> InvokeStep" where
  "ex_call run index = \<lparr>is_call = \<lparr>ck_session = bs_session ex_bound, ck_epoch = 0, ck_run_sequence = run, ck_tick_index = index,
       ck_node_ordinal = 1, ck_instance = ''acc''\<rparr>,
     is_tick = \<lparr>wt_epoch = 0, wt_index = index, wt_start = \<lparr>wd_secs = index, wd_nanos = 0\<rparr>, wt_dt = \<lparr>wd_secs = 1, wd_nanos = 0\<rparr>,
       wt_end = \<lparr>wd_secs = index + 1, wd_nanos = 0\<rparr>\<rparr>,
     is_inputs = [], is_remaining_budget = \<lparr>wd_secs = 1, wd_nanos = 0\<rparr>\<rparr>"

definition ex_replay :: ReplayGuard where
  "ex_replay = projr (ReplayGuard_new ex_bound [(''acc'', ex_schema ''acc'')])"

lemma ex_replay_new: "ReplayGuard_new ex_bound [(''acc'', ex_schema ''acc'')] = Inr ex_replay"
  by code_simp

text \<open>The second host of the example accepts its node's calls of two ticks, in runs 4 and 6, and not the
  second of them twice.\<close>

theorem replay_accepts_exactly_witness:
  "(\<exists>g'. reserve_all [ex_call 4 0, ex_call 6 1] ex_replay
       = Inr (map (\<lambda>c. tick_of (bs_epoch ex_bound) (is_tick c)) [ex_call 4 0, ex_call 6 1], g'))
   \<and> (\<nexists>ts g'. reserve_all [ex_call 4 0, ex_call 6 1, ex_call 6 1] ex_replay = Inr (ts, g'))"
proof -
  have wf: "bt_wf [(''acc'', ex_schema ''acc'')]" "distinct (bs_order ex_bound)"
    by code_simp+
  note exact = replay_accepts_exactly [OF ex_replay_new wf]
  have "list_all (call_fits ex_bound (filter (bt_contains [(''acc'', ex_schema ''acc'')]) (bs_order ex_bound)) [ex_call 4 0, ex_call 6 1]) [0, 1]"
    by code_simp
  then have "\<forall>k < length [ex_call 4 0, ex_call 6 1].
      call_fits ex_bound (filter (bt_contains [(''acc'', ex_schema ''acc'')]) (bs_order ex_bound)) [ex_call 4 0, ex_call 6 1] k"
    by (simp add: less_Suc_eq)
  then have "\<exists>g'. reserve_all [ex_call 4 0, ex_call 6 1] ex_replay
       = Inr (map (\<lambda>c. tick_of (bs_epoch ex_bound) (is_tick c)) [ex_call 4 0, ex_call 6 1], g')"
    using exact [of "[ex_call 4 0, ex_call 6 1]"] by blast
  moreover have "\<not> distinct (map is_call [ex_call 4 0, ex_call 6 1, ex_call 6 1])"
    by simp
  ultimately show ?thesis
    using exact [of "[ex_call 4 0, ex_call 6 1, ex_call 6 1]"] by blast
qed

section \<open>Plans\<close>

lemma placed_steps:
  assumes "validate_assignments (map fst ps) plan key = Inr ()" and "plan_wf plan"
  shows "\<forall>(peer, _) \<in> set ps. \<forall>ia \<in> set (pp_steps peer). step_placed (psp_nodes plan) ia"
proof -
  have wf: "bt_wf (psp_nodes plan)"
    using assms(2) by (simp add: plan_wf_def)
  have "\<forall>ia \<in> set (pp_steps (fst pe)). step_placed (psp_nodes plan) ia" if "pe \<in> set ps" for pe
    using validate_assignments_Inr(2) [OF assms(1) wf, of "fst pe"] that by simp
  then show ?thesis
    by auto
qed

text \<open>C34. Every step report an owner keeps of its hosts has the schema of its node in the plan, and every
  prepared output in it has the type the plan declares for that port.\<close>

theorem prepared_reports_typed:
  assumes "validate_assignments (map fst ps) plan key = Inr ()" and "plan_wf plan"
    and "prepare_hosts ps budget = Inr prepared" and "bt_get (ph_reports prepared) i = Some r"
    and "bt_get (spr_outputs r) port = Some v"
  shows "\<exists>schema ty t. bt_get (psp_nodes plan) i = Some schema \<and> export_schema schema = spr_schema r
    \<and> import_type (wv_ty v) = Inr ty \<and> bt_get (ss_outputs schema) port = Some t \<and> step_type_eq t ty"
proof -
  note placed_steps [OF assms(1,2)]
  moreover have "(i, r) \<in> set (ph_reports prepared)" "(port, v) \<in> set (spr_outputs r)"
    using assms(4,5) by (simp_all add: bt_get_def map_of_SomeD)
  ultimately have "spr_instance r = i" "report_typed (psp_nodes plan) r" "(port, v) \<in> set (spr_outputs r)"
    using prepare_hosts_typed [OF assms(3)] by blast+
  then show ?thesis
    by (fastforce simp: report_typed_def)
qed

theorem prepared_reports_typed_witness:
  "\<exists>schema ty t. bt_get (psp_nodes ex_step_plan) ''acc'' = Some schema \<and> export_schema schema = export_schema (ex_schema ''acc'')
    \<and> import_type (wv_ty ex_seed) = Inr ty \<and> bt_get (ss_outputs schema) ''sum'' = Some t \<and> step_type_eq t ty"
  using prepared_reports_typed [OF ex_assignments_valid ex_step_plan_wf ex_hosts_prepare, of "''acc''" _ "''sum''" ex_seed]
  by (simp add: bt_get_def)

text \<open>A plan the owner admitted, resolved with the reports its hosts prepared, is a graph that
  compiles: no plan error is left to be found once the hosts have prepared.\<close>

theorem resolved_plan_compiles:
  assumes "validate_assignments (map fst ps) plan key = Inr ()" and "plan_wf plan"
    and "prepare_hosts ps budget = Inr prepared" and "plan_resolve plan (ph_reports prepared) = Inr g"
  shows "\<exists>p. Plan_compile g = Inr p"
proof -
  note placed_steps [OF assms(1,2)]
  moreover have "plan_validate plan = Inr ()"
    using assms(1) by (auto simp: validate_assignments_def res_simps)
  ultimately show ?thesis
    using resolved_compiles [OF _ assms(4)] prepare_hosts_typed [OF assms(3)] by blast
qed

theorem resolved_plan_compiles_witness:
  "\<exists>p. Plan_compile (ex_step_graph\<lparr>sg_inputs :=
     [(StepInput ''acc'' ''fb'', PreviousTick (StepOutput ''acc'' ''sum'') \<lparr>sv_step_type = canon_type ex_number, sv_bytes = [0]\<rparr>),
      (StepInput ''acc'' ''x'', SameTick (StepOutput ''src'' ''y'')), (StepInput ''src'' ''u'', External)]\<rparr>) = Inr p"
proof (rule resolved_plan_compiles [OF ex_assignments_valid ex_step_plan_wf ex_hosts_prepare])
qed code_simp

text \<open>A compiled graph of importable schemas survives the wire: what a host reads back of an exported
  graph is the graph itself with its schema identities in owned form, and it compiles to the same order.\<close>

theorem exported_plan_same:
  assumes "Plan_compile g = Inr p" and "export_graph g = Inr w" and "graph_wf g"
    and "int (length (sg_nodes g)) \<le> MAX_ENTRIES"
    and "\<forall>(i, schema) \<in> set (sg_nodes g). is_ok (import_schema (export_schema schema))"
  shows "import_graph w = Inr (canon_graph g)
    \<and> Plan_compile (canon_graph g) = Inr \<lparr>plan_graph = canon_graph g, plan_order = plan_order p\<rparr>"
proof -
  have ins: "bt_wf (sg_inputs g)"
    using assms(3) by (simp add: graph_wf_def)
  have "wire_ok g"
    using wire_ok_compiled [OF assms(1) ins] assms(4,5) by simp
  then show ?thesis
    using import_export_graph [OF assms(2) _ ins] canon_compile [OF assms(1)] by simp
qed

definition ex_wire :: WireGraph where
  "ex_wire = projr (export_graph ex_step_graph)"

theorem exported_plan_same_witness:
  "import_graph ex_wire = Inr (canon_graph ex_step_graph)
   \<and> Plan_compile (canon_graph ex_step_graph) = Inr \<lparr>plan_graph = canon_graph ex_step_graph, plan_order = [''src'', ''acc'']\<rparr>"
proof -
  have w: "export_graph ex_step_graph = Inr ex_wire"
    by code_simp
  have fits: "int (length (sg_nodes ex_step_graph)) \<le> MAX_ENTRIES"
    "\<forall>(i, schema) \<in> set (sg_nodes ex_step_graph). is_ok (import_schema (export_schema schema))"
    by code_simp+
  show ?thesis
    using exported_plan_same [OF ex_compiles w ex_graph_wf fits] by (simp add: ex_plan_def)
qed

section \<open>Placement\<close>

















end
