(* ===== verification/Process_Client.thy ===== *)
theory Process_Client
  imports Process_Transparent
begin

text \<open>
  The client of a process step session (\<^verbatim>\<open>component/process/step_client.rs\<close>): it numbers requests, keeps
  the accepted ones until they are released, and leaves the executor room for the outputs of the next tick.
  Its state is behind one mutex, so each operation is a function on it. What the session answers to
  \<open>StepHandle::try_step\<close> and which runs have a result by now are arguments: both change under the hands of
  the driver. An \<open>Arc<StepRun>\<close> is named by the run's identity; the mutex is not poisoned.
\<close>

section \<open>The client\<close>

datatype ProcessStepStartError =
    Client_Admission StepStartError | Client_Bounds | Client_RetentionCapacity | Client_Released
  | Client_RequestConflict | Client_SequenceExhausted | Client_OwnerUnknown

record ClientRecord =
  rec_request :: StepRequest
  rec_timeout :: Duration
  rec_run :: StepRunId

record ClientState =
  cl_high_water :: "u64 option"
  cl_records :: "(u64, ClientRecord) btree"
  cl_active :: "StepRunId option"

definition client_new :: ClientState where
  "client_new = \<lparr>cl_high_water = None, cl_records = [], cl_active = None\<rparr>"

definition retained_result :: "bool \<Rightarrow> Run \<Rightarrow> RunResult option" where
  "retained_result gone run = (case run_result run of
     Some r \<Rightarrow> Some r
   | None \<Rightarrow> if gone then Some (Inl (Run_SupervisorGone (run_tick run))) else None)"

text \<open>Equality of requests is the source's: it compares schema identities, not their representation.\<close>

definition request_eq :: "StepRequest \<Rightarrow> StepRequest \<Rightarrow> bool" where
  "request_eq a b \<longleftrightarrow> req_dt a = req_dt b \<and> list_all2 (\<lambda>(i, v) (j, w). i = j \<and> step_type_eq (sv_step_type v) (sv_step_type w)
     \<and> sv_bytes v = sv_bytes w) (req_inputs a) (req_inputs b)"

definition usize_checked_mul :: "nat \<Rightarrow> nat \<Rightarrow> nat option" where
  "usize_checked_mul a b = (if a * b < 2 ^ 64 then Some (a * b) else None)"

fun sum_bytes :: "StepValue list \<Rightarrow> nat \<Rightarrow> nat option" where
  "sum_bytes [] n = Some n"
| "sum_bytes (v # vs) n = Option.bind (usize_checked_add n (length (sv_bytes v))) (sum_bytes vs)"

text \<open>The inputs of a request by instance, and their bytes.\<close>

fun gather_inputs ::
  "(StepInput \<times> StepValue) list \<Rightarrow> nat \<Rightarrow> (string, StepInputs) btree \<Rightarrow> (nat \<times> (string, StepInputs) btree) option" where
  "gather_inputs [] bytes inputs = Some (bytes, inputs)"
| "gather_inputs ((input, value) # rest) bytes inputs =
     Option.bind (usize_checked_add bytes (length (sv_bytes value))) (\<lambda>bytes.
       if int bytes > MAX_RETAINED_BYTES then None
       else gather_inputs rest bytes (bt_insert (si_instance input)
         (bt_insert (si_port input) value (case bt_get inputs (si_instance input) of None \<Rightarrow> [] | Some m \<Rightarrow> m)) inputs))"

definition fits_frame :: "((string, WireValue) btree \<Rightarrow> bytes option) \<Rightarrow> StepInputs \<Rightarrow> bool" where
  "fits_frame to_vec inputs = (case export_values inputs of
     Inl _ \<Rightarrow> False
   | Inr wire \<Rightarrow> (case to_vec wire of None \<Rightarrow> False
       | Some payload \<Rightarrow> int (length payload) \<le> uint MAX_FRAME_BYTES \<and> int (length payload) \<le> uint MAX_FRAME_BYTES - 65536))"

fun retain_records :: "(StepRunId \<Rightarrow> RunResult option) \<Rightarrow> (u64 \<times> ClientRecord) list \<Rightarrow> nat \<Rightarrow> nat option" where
  "retain_records result_of [] n = Some n"
| "retain_records result_of ((_, r) # records) n =
     Option.bind (sum_bytes (map snd (req_inputs (rec_request r))) n) (\<lambda>n.
     Option.bind (case result_of (rec_run r) of
         Some (Inr receipt) \<Rightarrow> sum_bytes (map snd (rc_outputs receipt)) n
       | _ \<Rightarrow> Some n) (retain_records result_of records))"

definition retained_total :: "(StepRunId \<Rightarrow> RunResult option) \<Rightarrow> StepRetention \<Rightarrow> (u64, ClientRecord) btree \<Rightarrow> nat \<Rightarrow> nat option" where
  "retained_total result_of rt records bytes =
     Option.bind (usize_checked_add (rt_bootstrap rt) (rt_previous rt)) (\<lambda>total.
     Option.bind (usize_checked_mul bytes 2) (\<lambda>bytes.
     Option.bind (usize_checked_add total bytes) (retain_records result_of records)))"

definition in_flight :: "(StepRunId \<Rightarrow> RunResult option) \<Rightarrow> ClientState \<Rightarrow> StepRunId option" where
  "in_flight result_of st = (case cl_active st of
     Some active \<Rightarrow> if result_of active = None then Some active else None
   | None \<Rightarrow> None)"

lemma in_flight_high [simp]: "in_flight result_of (st\<lparr>cl_high_water := h\<rparr>) = in_flight result_of st"
  by (simp add: in_flight_def)

definition client_admit ::
  "((string, WireValue) btree \<Rightarrow> bytes option) \<Rightarrow> (StepRunId \<Rightarrow> RunResult option) \<Rightarrow> (StepRequest \<Rightarrow> Duration \<Rightarrow> StepStartError + StepRunId)
    \<Rightarrow> u64 \<Rightarrow> StepRequest \<Rightarrow> Duration \<Rightarrow> ClientState \<Rightarrow> StepRetention
    \<Rightarrow> (ProcessStepStartError + StepRunId) \<times> ClientState \<times> StepRetention" where
  "client_admit to_vec result_of try_step rid request timeout st rt = (case bt_get (cl_records st) rid of
     Some r \<Rightarrow> (if request_eq (rec_request r) request \<and> rec_timeout r = timeout then Inr (rec_run r) else Inl Client_RequestConflict, st, rt)
   | None \<Rightarrow>
       if is_some_and (\<lambda>high. rid \<le> high) (cl_high_water st) then (Inl Client_Released, st, rt)
       else let st = st\<lparr>cl_high_water := Some rid\<rparr> in
       if length (cl_records st) \<ge> 64 then (Inl Client_RetentionCapacity, st, rt)
       else (case in_flight result_of st of
         Some active \<Rightarrow> (Inl (Client_Admission (StepStart_Busy active)), st, rt)
       | None \<Rightarrow>
           let st = st\<lparr>cl_active := None\<rparr> in
           (case gather_inputs (req_inputs request) 0 [] of
              None \<Rightarrow> (Inl Client_Bounds, st, rt)
            | Some (bytes, inputs) \<Rightarrow>
                if \<not> list_all (\<lambda>(_, m). fits_frame to_vec m) inputs then (Inl Client_Bounds, st, rt)
                else (case retained_total result_of rt (cl_records st) bytes of
                   None \<Rightarrow> (Inl Client_Bounds, st, rt)
                 | Some retained \<Rightarrow>
                     if int retained \<ge> MAX_RETAINED_BYTES then (Inl Client_RetentionCapacity, st, rt)
                     else let rt = rt\<lparr>rt_available := nat MAX_RETAINED_BYTES - retained\<rparr> in
                       (case try_step request timeout of
                          Inl e \<Rightarrow> (Inl (Client_Admission e), st, rt)
                        | Inr run \<Rightarrow> (Inr run, st\<lparr>cl_active := Some run,
                            cl_records := bt_insert rid \<lparr>rec_request = request, rec_timeout = timeout, rec_run = run\<rparr> (cl_records st)\<rparr>, rt))))))"

definition client_try_step ::
  "((string, WireValue) btree \<Rightarrow> bytes option) \<Rightarrow> (StepRunId \<Rightarrow> RunResult option) \<Rightarrow> (StepRequest \<Rightarrow> Duration \<Rightarrow> StepStartError + StepRunId)
    \<Rightarrow> StepRequest \<Rightarrow> Duration \<Rightarrow> ClientState \<Rightarrow> StepRetention
    \<Rightarrow> (ProcessStepStartError + StepRunId) \<times> ClientState \<times> StepRetention" where
  "client_try_step to_vec result_of try_step request timeout st rt = (case cl_high_water st of
     None \<Rightarrow> client_admit to_vec result_of try_step 0 request timeout st rt
   | Some high \<Rightarrow> (case u64_checked_add high 1 of
       None \<Rightarrow> (Inl Client_SequenceExhausted, st, rt)
     | Some rid \<Rightarrow> client_admit to_vec result_of try_step rid request timeout st rt))"

definition client_observe :: "u64 \<Rightarrow> ClientState \<Rightarrow> ProcessStepStartError + StepRunId option" where
  "client_observe rid st = (case bt_get (cl_records st) rid of
     Some r \<Rightarrow> Inr (Some (rec_run r))
   | None \<Rightarrow> if is_some_and (\<lambda>high. rid \<le> high) (cl_high_water st) then Inl Client_Released else Inr None)"

definition client_release :: "u64 \<Rightarrow> ClientState \<Rightarrow> (ProcessStepStartError + unit) \<times> ClientState" where
  "client_release rid st = (if bt_contains (cl_records st) rid then (Inr (), st\<lparr>cl_records := bt_remove rid (cl_records st)\<rparr>)
     else (Inl Client_Released, st))"

section \<open>What a client has started\<close>

text \<open>Everything a program can do with a client and its clones, with the runs it has started, the latest
  first. The executor and the driver may change the retention and the results in between.\<close>

inductive client_reach :: "ClientState \<Rightarrow> (u64 \<times> StepRunId) list \<Rightarrow> bool" where
  created: "client_reach client_new []"
| started: "client_reach st log \<Longrightarrow> client_admit to_vec result_of try_step rid request timeout st rt = (answer, st', rt') \<Longrightarrow>
    log' = (case answer of Inr run \<Rightarrow> if bt_contains (cl_records st) rid then log else (rid, run) # log | Inl _ \<Rightarrow> log) \<Longrightarrow>
    client_reach st' log'"
| released: "client_reach st log \<Longrightarrow> client_release rid st = (answer, st') \<Longrightarrow> client_reach st' log"

definition client_inv :: "ClientState \<Rightarrow> (u64 \<times> StepRunId) list \<Rightarrow> bool" where
  "client_inv st log \<longleftrightarrow> bt_wf (cl_records st) \<and> sorted_wrt (\<lambda>a b. fst b < fst a) log
     \<and> (\<forall>rid r. bt_get (cl_records st) rid = Some r \<longrightarrow> (rid, rec_run r) \<in> set log)
     \<and> (case cl_high_water st of None \<Rightarrow> log = [] | Some high \<Rightarrow> \<forall>(rid, _) \<in> set log. rid \<le> high)"

lemma client_admit_cases:
  assumes "client_admit to_vec result_of try_step rid request timeout st rt = (answer, st', rt')"
  obtains (known) r where "bt_get (cl_records st) rid = Some r" "st' = st" "rt' = rt"
      "answer = (if request_eq (rec_request r) request \<and> rec_timeout r = timeout then Inr (rec_run r) else Inl Client_RequestConflict)"
  | (spent) "bt_get (cl_records st) rid = None" "is_some_and (\<lambda>high. rid \<le> high) (cl_high_water st)" "st' = st" "rt' = rt" "answer = Inl Client_Released"
  | (refused) e where "bt_get (cl_records st) rid = None" "\<not> is_some_and (\<lambda>high. rid \<le> high) (cl_high_water st)" "answer = Inl e"
      "cl_high_water st' = Some rid" "cl_records st' = cl_records st"
  | (accepted) run bytes inputs retained where "bt_get (cl_records st) rid = None" "\<not> is_some_and (\<lambda>high. rid \<le> high) (cl_high_water st)"
      "answer = Inr run" "gather_inputs (req_inputs request) 0 [] = Some (bytes, inputs)"
      "retained_total result_of rt (cl_records st) bytes = Some retained" "int retained < MAX_RETAINED_BYTES"
      "rt' = rt\<lparr>rt_available := nat MAX_RETAINED_BYTES - retained\<rparr>" "length (cl_records st) < 64"
      "st' = st\<lparr>cl_high_water := Some rid, cl_active := Some run,
        cl_records := bt_insert rid \<lparr>rec_request = request, rec_timeout = timeout, rec_run = run\<rparr> (cl_records st)\<rparr>"
proof (cases "bt_get (cl_records st) rid")
  case (Some r)
  then show thesis
    using known assms by (simp add: client_admit_def)
next
  case absent: None
  show thesis
  proof (cases "is_some_and (\<lambda>high. rid \<le> high) (cl_high_water st)")
    case True
    then show thesis
      using spent absent assms by (simp add: client_admit_def)
  next
    case unspent: False
    note fresh = assms [unfolded client_admit_def absent option.case if_not_P [OF unspent] Let_def, simplified]
    note refuse = refused [OF absent unspent]
    show thesis
    proof (cases "length (cl_records st) \<ge> 64 \<or> in_flight result_of st \<noteq> None \<or> gather_inputs (req_inputs request) 0 [] = None")
      case True
      then show thesis
        using fresh refuse by (cases "length (cl_records st) \<ge> 64"; cases "in_flight result_of st") auto
    next
      case free: False
      then obtain bytes inputs where gathered: "gather_inputs (req_inputs request) 0 [] = Some (bytes, inputs)"
        by auto
      note fresh = fresh [unfolded gathered option.case prod.case]
      show thesis
      proof (cases "list_all (\<lambda>(_, m). fits_frame to_vec m) inputs \<and> retained_total result_of rt (cl_records st) bytes \<noteq> None")
        case False
        then show thesis
          using fresh free refuse [of Client_Bounds] by (cases "list_all (\<lambda>(_, m). fits_frame to_vec m) inputs") auto
      next
        case fits: True
        then obtain retained where total: "retained_total result_of rt (cl_records st) bytes = Some retained"
          by auto
        show thesis
          using fresh free fits total refuse accepted [OF absent unspent _ gathered total]
          by (cases "try_step request timeout") (auto split: if_splits)
      qed
    qed
  qed
qed

lemma client_reach_inv: "client_reach st log \<Longrightarrow> client_inv st log"
proof (induction rule: client_reach.induct)
  case created
  show ?case
    by (simp add: client_inv_def client_new_def bt_get_def)
next
  case (started st log to_vec result_of try_step rid request timeout rt answer st' rt' log')
  have wf: "bt_wf (cl_records st)"
    using started.IH by (simp add: client_inv_def)
  from started.hyps(2) show ?case
  proof (cases rule: client_admit_cases)
    case (known r)
    then have "log' = log"
      using started.hyps(3) by (auto simp: bt_contains_def)
    then show ?thesis
      using known started.IH by simp
  next
    case spent
    then show ?thesis
      using started.hyps(3) started.IH by simp
  next
    case (refused e)
    then show ?thesis
      using started.hyps(3) started.IH by (force simp: client_inv_def split: option.splits)
  next
    case (accepted run bytes inputs retained)
    then have "log' = (rid, run) # log"
      using started.hyps(3) by (simp add: bt_contains_def)
    then show ?thesis
      using accepted started.IH wf by (force simp: client_inv_def bt_get_insert split: option.splits if_splits)
  qed
next
  case (released st log rid answer st')
  then show ?case
    by (auto simp: client_release_def client_inv_def bt_get_remove split: if_splits)
qed

section \<open>What a client holds\<close>

definition outputs_bytes :: "(StepRunId \<Rightarrow> RunResult option) \<Rightarrow> ClientRecord \<Rightarrow> nat" where
  "outputs_bytes result_of r = (case result_of (rec_run r) of
     Some (Inr receipt) \<Rightarrow> sum_list (map (\<lambda>v. length (sv_bytes v)) (map snd (rc_outputs receipt)))
   | _ \<Rightarrow> 0)"

definition inputs_bytes :: "StepRequest \<Rightarrow> nat" where
  "inputs_bytes request = sum_list (map (\<lambda>v. length (sv_bytes v)) (map snd (req_inputs request)))"

text \<open>The bytes of the requests and the receipts a client keeps.\<close>

definition held_bytes :: "(StepRunId \<Rightarrow> RunResult option) \<Rightarrow> (u64, ClientRecord) btree \<Rightarrow> nat" where
  "held_bytes result_of records = sum_list (map (\<lambda>(_, r). inputs_bytes (rec_request r) + outputs_bytes result_of r) records)"

lemma usize_checked_add_Some: "usize_checked_add a b = Some c \<longleftrightarrow> a + b < 2 ^ 64 \<and> c = a + b"
  by (auto simp: usize_checked_add_def)

lemma sum_bytes_Some: "sum_bytes vs n = Some m \<Longrightarrow> m = n + sum_list (map (\<lambda>v. length (sv_bytes v)) vs)"
  by (induction vs arbitrary: n) (fastforce simp: usize_checked_add_Some bind_eq_Some_conv)+

lemma retain_records_Some: "retain_records result_of records n = Some m \<Longrightarrow> m = n + held_bytes result_of records"
proof (induction records arbitrary: n)
  case (Cons ir records)
  obtain i r where ir: "ir = (i, r)"
    by (cases ir)
  obtain k j where "sum_bytes (map snd (req_inputs (rec_request r))) n = Some k"
    and "(case result_of (rec_run r) of Some (Inr receipt) \<Rightarrow> sum_bytes (map snd (rc_outputs receipt)) k | _ \<Rightarrow> Some k) = Some j"
    and rest: "retain_records result_of records j = Some m"
    using Cons.prems by (auto simp: ir bind_eq_Some_conv)
  then have "j = n + inputs_bytes (rec_request r) + outputs_bytes result_of r"
    by (auto simp: inputs_bytes_def outputs_bytes_def dest!: sum_bytes_Some split: option.splits sum.splits)
  moreover have "m = j + held_bytes result_of records"
    using Cons.IH rest by simp
  ultimately show ?case
    by (simp add: ir held_bytes_def)
qed (simp add: held_bytes_def)

lemma retained_total_Some:
  "retained_total result_of rt records bytes = Some m \<Longrightarrow> m = rt_bootstrap rt + rt_previous rt + 2 * bytes + held_bytes result_of records"
  by (auto simp: retained_total_def bind_eq_Some_conv usize_checked_add_Some usize_checked_mul_def dest!: retain_records_Some split: if_splits)

lemma gather_inputs_Some: "gather_inputs ins n m = Some (bytes, inputs) \<Longrightarrow> bytes = n + sum_list (map (\<lambda>v. length (sv_bytes v)) (map snd ins))"
  by (induction ins n m rule: gather_inputs.induct) (auto simp: bind_eq_Some_conv usize_checked_add_Some split: if_splits)

lemma held_bytes_insert:
  "bt_get records rid = None \<Longrightarrow> bt_wf records \<Longrightarrow>
    held_bytes result_of (bt_insert rid r records) = inputs_bytes (rec_request r) + outputs_bytes result_of r + held_bytes result_of records"
  by (induction rid r records rule: bt_insert.induct) (auto simp: held_bytes_def bt_get_def split: if_splits)

text \<open>The outputs of the nodes of one run, handed to the executor one after the other.\<close>

fun retain_nodes :: "(StepDispatchContext \<times> string \<times> StepOutputs) list \<Rightarrow> Executor \<Rightarrow> (DispatchFailure + unit) \<times> Executor" where
  "retain_nodes [] ex = (Inr (), ex)"
| "retain_nodes ((ctx, inst, outs) # nodes) ex = (case executor_retain ctx inst outs ex of
     (Inl e, ex) \<Rightarrow> (Inl e, ex)
   | (Inr _, ex) \<Rightarrow> retain_nodes nodes ex)"

lemma retain_loop_Inr:
  "retain_loop inst outs ex = (Inr (), ex') \<Longrightarrow>
    ex_retained ex' = ex_retained ex + value_bytes outs \<and> ex_next_previous ex \<le> ex_next_previous ex'
    \<and> ex_retention ex' = ex_retention ex \<and> ex_run_sequence ex' = ex_run_sequence ex"
proof (induction inst outs ex rule: retain_loop.induct)
  case (2 inst port v outs ex)
  then show ?case
    by (auto simp: Let_def value_bytes_def usize_checked_add_Some split: option.splits if_splits)
qed (simp add: value_bytes_def)

lemma executor_retain_Inr:
  assumes "executor_retain ctx inst outs ex = (Inr (), ex')"
  shows "ex_run_sequence ex' = Some (rid_sequence (dc_run ctx))"
    and "ex_retained ex' = (if ex_run_sequence ex = Some (rid_sequence (dc_run ctx)) then ex_retained ex else 0) + value_bytes outs"
    and "(if ex_run_sequence ex = Some (rid_sequence (dc_run ctx)) then ex_next_previous ex else 0) \<le> ex_next_previous ex'"
    and "ex_retained ex' + ex_next_previous ex' \<le> rt_available (ex_retention ex')"
    and "rt_available (ex_retention ex') = rt_available (ex_retention ex)" and "rt_bootstrap (ex_retention ex') = rt_bootstrap (ex_retention ex)"
    and "rt_previous (ex_retention ex') \<in> {rt_previous (ex_retention ex), ex_next_previous ex'}"
proof -
  define e where "e = (if ex_run_sequence ex \<noteq> Some (rid_sequence (dc_run ctx))
    then ex\<lparr>ex_run_sequence := Some (rid_sequence (dc_run ctx)), ex_retained := 0, ex_next_previous := 0\<rparr> else ex)"
  obtain f used where loop: "retain_loop inst outs e = (Inr (), f)" and used: "usize_checked_add (ex_retained f) (ex_next_previous f) = Some used"
      "used \<le> rt_available (ex_retention f)"
    and ex': "ex' = (if dc_ordinal ctx = ex_final_ordinal f then f\<lparr>ex_retention := (ex_retention f)\<lparr>rt_previous := ex_next_previous f\<rparr>\<rparr> else f)"
    using assms unfolding executor_retain_def Let_def e_def [symmetric]
    by (auto split: prod.splits sum.splits option.splits if_splits)
  show "ex_run_sequence ex' = Some (rid_sequence (dc_run ctx))"
    "ex_retained ex' = (if ex_run_sequence ex = Some (rid_sequence (dc_run ctx)) then ex_retained ex else 0) + value_bytes outs"
    "(if ex_run_sequence ex = Some (rid_sequence (dc_run ctx)) then ex_next_previous ex else 0) \<le> ex_next_previous ex'"
    "ex_retained ex' + ex_next_previous ex' \<le> rt_available (ex_retention ex')"
    "rt_available (ex_retention ex') = rt_available (ex_retention ex)" "rt_bootstrap (ex_retention ex') = rt_bootstrap (ex_retention ex)"
    "rt_previous (ex_retention ex') \<in> {rt_previous (ex_retention ex), ex_next_previous ex'}"
    using retain_loop_Inr [OF loop] used by (auto simp: ex' e_def usize_checked_add_Some split: if_splits)
qed

definition nodes_bytes :: "(StepDispatchContext \<times> string \<times> StepOutputs) list \<Rightarrow> nat" where
  "nodes_bytes nodes = sum_list (map (\<lambda>(_, _, outs). value_bytes outs) nodes)"

text \<open>Once a run's first outputs are in, its bytes and the delayed ones stay within the room it was given.\<close>

lemma retain_nodes_running:
  "retain_nodes nodes ex = (Inr (), ex') \<Longrightarrow> \<forall>(ctx, _) \<in> set nodes. rid_sequence (dc_run ctx) = run \<Longrightarrow>
    ex_run_sequence ex = Some run \<Longrightarrow> ex_retained ex + ex_next_previous ex \<le> rt_available (ex_retention ex) \<Longrightarrow>
    rt_previous (ex_retention ex) \<le> previous + ex_next_previous ex \<Longrightarrow>
    ex_retained ex' = ex_retained ex + nodes_bytes nodes \<and> ex_retained ex' + ex_next_previous ex' \<le> rt_available (ex_retention ex')
    \<and> rt_available (ex_retention ex') = rt_available (ex_retention ex) \<and> rt_bootstrap (ex_retention ex') = rt_bootstrap (ex_retention ex)
    \<and> rt_previous (ex_retention ex') \<le> previous + ex_next_previous ex'"
proof (induction nodes arbitrary: ex)
  case (Cons node nodes)
  obtain ctx inst outs where node: "node = (ctx, inst, outs)"
    by (cases node)
  obtain e where e: "executor_retain ctx inst outs ex = (Inr (), e)" and rest: "retain_nodes nodes e = (Inr (), ex')"
    using Cons.prems(1) by (auto simp: node split: prod.splits sum.splits)
  note step = executor_retain_Inr [OF e]
  have seq: "rid_sequence (dc_run ctx) = run"
    using Cons.prems(2) by (simp add: node)
  have "rt_previous (ex_retention e) \<le> previous + ex_next_previous e"
    using step(3,7) Cons.prems(3,5) seq by auto
  then have "ex_retained ex' = ex_retained e + nodes_bytes nodes \<and> ex_retained ex' + ex_next_previous ex' \<le> rt_available (ex_retention ex')
    \<and> rt_available (ex_retention ex') = rt_available (ex_retention e) \<and> rt_bootstrap (ex_retention ex') = rt_bootstrap (ex_retention e)
    \<and> rt_previous (ex_retention ex') \<le> previous + ex_next_previous ex'"
    using Cons.IH [OF rest _ _ step(4)] step(1) seq Cons.prems(2) by (simp add: node)
  then show ?case
    using step(2,5,6) Cons.prems(3) seq by (simp add: node nodes_bytes_def)
qed (simp add: nodes_bytes_def)

lemma retain_nodes_within:
  assumes nodes: "retain_nodes nodes ex = (Inr (), ex')" "\<forall>(ctx, _) \<in> set nodes. rid_sequence (dc_run ctx) = run"
    and "ex_run_sequence ex \<noteq> Some run"
  shows "nodes_bytes nodes + rt_previous (ex_retention ex') \<le> rt_available (ex_retention ex) + rt_previous (ex_retention ex)"
    and "rt_bootstrap (ex_retention ex') = rt_bootstrap (ex_retention ex)"
proof -
  have "nodes_bytes nodes + rt_previous (ex_retention ex') \<le> rt_available (ex_retention ex) + rt_previous (ex_retention ex)
      \<and> rt_bootstrap (ex_retention ex') = rt_bootstrap (ex_retention ex)"
  proof (cases nodes)
    case Nil
    then show ?thesis
      using nodes(1) by (simp add: nodes_bytes_def)
  next
    case (Cons node rest)
    obtain ctx inst outs where node: "node = (ctx, inst, outs)"
      by (cases node)
    obtain e where e: "executor_retain ctx inst outs ex = (Inr (), e)" and tail: "retain_nodes rest e = (Inr (), ex')"
      using nodes(1) by (auto simp: Cons node split: prod.splits sum.splits)
    note step = executor_retain_Inr [OF e]
    have seq: "rid_sequence (dc_run ctx) = run"
      using nodes(2) by (simp add: Cons node)
    have "rt_previous (ex_retention e) \<le> rt_previous (ex_retention ex) + ex_next_previous e"
      using step(7) by auto
    then have "ex_retained ex' = ex_retained e + nodes_bytes rest \<and> ex_retained ex' + ex_next_previous ex' \<le> rt_available (ex_retention ex')
      \<and> rt_available (ex_retention ex') = rt_available (ex_retention e) \<and> rt_bootstrap (ex_retention ex') = rt_bootstrap (ex_retention e)
      \<and> rt_previous (ex_retention ex') \<le> rt_previous (ex_retention ex) + ex_next_previous ex'"
      using retain_nodes_running [OF tail _ _ step(4), where run = run and previous = "rt_previous (ex_retention ex)"] step(1) seq nodes(2)
      by (simp add: Cons)
    then show ?thesis
      using step(2,5,6) assms(3) seq by (simp add: Cons node nodes_bytes_def)
  qed
  then show "nodes_bytes nodes + rt_previous (ex_retention ex') \<le> rt_available (ex_retention ex) + rt_previous (ex_retention ex)"
    "rt_bootstrap (ex_retention ex') = rt_bootstrap (ex_retention ex)"
    by simp_all
qed

lemma sorted_wrt_log_unique:
  "sorted_wrt (\<lambda>a b. fst b < fst a) log \<Longrightarrow> (rid, x) \<in> set log \<Longrightarrow> (rid, y) \<in> set log \<Longrightarrow> x = y" for rid :: u64
  by (induction log) fastforce+

end
