(* ===== verification/Client_Correct.thy ===== *)
theory Client_Correct
  imports Process_Client Step_Correct
begin

text \<open>
  What the client of a process step session promises: a request is executed at most once, and what an
  owner keeps stays within the protocol's bound.
\<close>











end
