(* ===== verification/Managed.thy ===== *)
theory Managed
  imports Bindings_Report Step_Gate
begin

text \<open>
  The managed part of a module context (\<^verbatim>\<open>crates/reiny/src/managed.rs\<close>,
  \<^verbatim>\<open>managed/{ports,dynamic,bridging,admission,report,owned,config}.rs\<close>, \<^verbatim>\<open>shutdown.rs\<close>,
  \<^verbatim>\<open>runtime/startup.rs\<close>): the registry of the ports a module has opened under its bindings, the
  admission leases of a hosted module, the readiness it announces and the shutdown signal. Every
  operation holds the lock of the registry, so it is one function of the context. What the engine
  answers (a declared route, a liveliness token) is an argument of the operation that asks. An
  \<^verbatim>\<open>Arc<()>\<close> that only serves as an identity is a number that has not been used before; the handles
  alive are the list of the identities they hold.
\<close>

section \<open>Data\<close>

subsection \<open>Quality of service\<close>

datatype CongestionControl = Congestion_BackendDefault | Congestion_Drop | Congestion_Block
datatype Priority = Priority_RealTime | Priority_High | Priority_Normal | Priority_Low | Priority_Background
datatype History = History_KeepLast nat | History_KeepAll
datatype Durability = Durability_Volatile | Durability_TransientLocal

record Qos =
  qos_congestion_control :: CongestionControl
  qos_priority :: Priority
  qos_history :: History
  qos_durability :: Durability
  qos_express :: bool

definition QOS_DEFAULT :: Qos where
  "QOS_DEFAULT = \<lparr>qos_congestion_control = Congestion_BackendDefault, qos_priority = Priority_Normal,
     qos_history = History_KeepAll, qos_durability = Durability_Volatile, qos_express = False\<rparr>"

definition QOS_SENSOR :: Qos where
  "QOS_SENSOR = QOS_DEFAULT\<lparr>qos_congestion_control := Congestion_Drop, qos_history := History_KeepLast 1\<rparr>"

definition QOS_COMMAND :: Qos where
  "QOS_COMMAND = QOS_DEFAULT\<lparr>qos_congestion_control := Congestion_Block\<rparr>"

definition output_qos :: "EndpointContract \<Rightarrow> Qos" where
  "output_qos contract =
     (case ec_qos contract of
        Qos_Default \<Rightarrow> QOS_DEFAULT | Qos_Command \<Rightarrow> QOS_COMMAND | Qos_Sensor \<Rightarrow> QOS_SENSOR)
     \<lparr>qos_durability := (case ec_retention contract of
        Retention_Volatile \<Rightarrow> Durability_Volatile | Retention_Last \<Rightarrow> Durability_TransientLocal)\<rparr>"

subsection \<open>The context\<close>

record ModuleMessage =
  mt_TYPE_NAME :: string
  mt_SCHEMA_FINGERPRINT :: u64

datatype AdmissionError =
    Admission_InvalidIdentity string | Admission_InvalidBindings string | Admission_UnsupportedHostedBindings
  | Admission_MissingBindings | Admission_ShuttingDown | Admission_AlreadyPrepared | Admission_AlreadyReady
  | Admission_PortUnavailable bool string | Admission_NoLiveliness | Admission_ForeignTicket
  | Admission_StaleTicket | Admission_Transport string

text \<open>\<^verbatim>\<open>anyhow::Error\<close>: a typed error that a caller may downcast to, a message, or the panic of a
  map index.\<close>

datatype AnyError = Error_Admission AdmissionError | Error_Message string | Error_Panic

datatype HostedEvent = Hosted_StopRequested | Hosted_ReadinessLost

record Shutdown =
  sd_flag :: bool
  sd_hosted :: "HostedEvent option option"
  sd_step_gate :: bool

record Registration =
  rg_contract :: PortReport
  rg_transport_type :: string
  rg_live :: nat

record ChildState =
  ch_ready :: bool
  ch_exited :: bool
  ch_report :: "ModuleReport option"

record Ports =
  pt_inputs :: "(string, Registration) btree"
  pt_outputs :: "(string, Registration) btree"
  pt_children :: "(string, ChildState) btree"
  pt_ready :: bool
  pt_admission :: "nat option"

record Caps =
  caps_query :: bool
  caps_liveliness :: bool
  caps_attachment :: bool

record ModuleContext =
  mc_key :: nat
  mc_id :: string
  mc_caps :: Caps
  mc_bindings :: "ModuleBindings option"
  mc_ports :: Ports
  mc_shutdown :: Shutdown
  mc_gate :: Gate
  mc_alive :: "nat list"
  mc_fresh :: nat

record PreparedAdmission =
  pa_ports :: nat
  pa_generation :: nat
  pa_report :: ModuleReport

text \<open>What a port handle does with the transport, beside keeping its registration alive.\<close>

datatype Route =
    Route_Subscriber "EndpointAddress list" bool "nat option"
  | Route_Publisher Qos
  | Route_Caller EndpointAddress
  | Route_Server
  | Route_Bridge

record ManagedPort =
  mp_live :: nat
  mp_route :: Route

definition quote :: "string \<Rightarrow> string" where
  "quote s = CHR 0x27 # s @ [CHR 0x27]"

definition ensure_that :: "bool \<Rightarrow> string \<Rightarrow> AnyError + unit" where
  "ensure_that condition message = (if condition then Inr () else Inl (Error_Message message))"

definition validate_segment :: "string \<Rightarrow> string \<Rightarrow> string + unit" where
  "validate_segment what value =
     (if value = [] then Inl (what @ '' must not be empty'')
      else case find (\<lambda>c. c \<in> set [''/'', ''*'', ''?'', ''#'', ''$'', ''@''] \<or> is_whitespace c) (utf8_chars value) of
        Some bad \<Rightarrow> Inl (what @ '' '' @ quote value @ '' contains '' @ quote bad
          @ '': it must be a single key segment (no '' @ quote ''/'' @ '', '' @ quote ''*'' @ '', '' @ quote ''?''
          @ '', '' @ quote ''#'' @ '', '' @ quote ''$'' @ '', '' @ quote ''@'' @ '' or whitespace)'')
      | None \<Rightarrow> Inr ())"

section \<open>Shutdown\<close>

definition Shutdown_new :: Shutdown where
  "Shutdown_new = \<lparr>sd_flag = False, sd_hosted = None, sd_step_gate = False\<rparr>"

definition Shutdown_hosted :: Shutdown where
  "Shutdown_hosted = Shutdown_new\<lparr>sd_hosted := Some None\<rparr>"

text \<open>The first hosted event is retained.\<close>

definition hosted_event :: "HostedEvent \<Rightarrow> ModuleContext \<Rightarrow> ModuleContext" where
  "hosted_event event c = (let
       c = (if sd_step_gate (mc_shutdown c) then c\<lparr>mc_gate := mark_stop (mc_gate c)\<rparr> else c)
     in case sd_hosted (mc_shutdown c) of
          Some None \<Rightarrow> c\<lparr>mc_shutdown := (mc_shutdown c)\<lparr>sd_hosted := Some (Some event)\<rparr>\<rparr>
        | _ \<Rightarrow> c)"

definition raise_flag :: "ModuleContext \<Rightarrow> ModuleContext" where
  "raise_flag c = c\<lparr>mc_shutdown := (mc_shutdown c)\<lparr>sd_flag := True\<rparr>\<rparr>"

definition trigger :: "ModuleContext \<Rightarrow> ModuleContext" where
  "trigger c = hosted_event Hosted_StopRequested (raise_flag c)"

definition is_triggered :: "ModuleContext \<Rightarrow> bool" where
  "is_triggered c = sd_flag (mc_shutdown c)"

definition attach_step_gate :: "ModuleContext \<Rightarrow> ModuleContext" where
  "attach_step_gate c = (let c = c\<lparr>mc_shutdown := (mc_shutdown c)\<lparr>sd_step_gate := True\<rparr>\<rparr> in
     if is_triggered c \<or> is_some_and (\<lambda>event. event \<noteq> None) (sd_hosted (mc_shutdown c))
     then c\<lparr>mc_gate := mark_stop (mc_gate c)\<rparr> else c)"

section \<open>Opening a context\<close>

definition Ports_default :: Ports where
  "Ports_default = \<lparr>pt_inputs = [], pt_outputs = [], pt_children = [], pt_ready = False, pt_admission = None\<rparr>"

definition ModuleContext_new :: "nat \<Rightarrow> string \<Rightarrow> Caps \<Rightarrow> Shutdown \<Rightarrow> Gate \<Rightarrow> ModuleContext" where
  "ModuleContext_new key ident caps shutdown g =
     \<lparr>mc_key = key, mc_id = ident, mc_caps = caps, mc_bindings = None, mc_ports = Ports_default, mc_shutdown = shutdown,
      mc_gate = g, mc_alive = [], mc_fresh = 0\<rparr>"

definition install_stop_handler :: "string + unit \<Rightarrow> ModuleContext \<Rightarrow> string + unit" where
  "install_stop_handler responder c = (let caps = mc_caps c in
     if \<not> (caps_query caps \<and> caps_liveliness caps \<and> caps_attachment caps) then
       Inl ''managed modules require query, liveliness and schema attachments''
     else responder)"

text \<open>\<open>created\<close> is what the engine answers when the context declares its presence, \<open>responder\<close>
  what it answers to the stop route.\<close>

definition open_hosted ::
  "nat \<Rightarrow> Gate \<Rightarrow> Caps \<Rightarrow> string + unit \<Rightarrow> string + unit \<Rightarrow> string \<Rightarrow> ModuleBindings \<Rightarrow> AdmissionError + ModuleContext" where
  "open_hosted key g caps created responder domain b =
     and_then (map_err Admission_InvalidIdentity (validate_segment ''hosted domain'' domain))
    (and_then (map_err (Admission_InvalidIdentity \<circ> binding_message) (validate_namespace (mb_namespace b)))
    (and_then (map_err (Admission_InvalidBindings \<circ> binding_message) (ModuleBindings_validate b))
    (if mb_children b \<noteq> [] \<or> mb_executables b \<noteq> [] then Inl Admission_UnsupportedHostedBindings
     else if \<not> caps_liveliness caps then Inl Admission_NoLiveliness
     else let c = ModuleContext_new key (mb_namespace b) caps Shutdown_hosted g in
       and_then (map_err Admission_Transport created)
      (and_then (map_err Admission_Transport (install_stop_handler responder c))
       (Inr (c\<lparr>mc_bindings := Some b\<rparr>))))))"

text \<open>\<open>config::validate_bindings\<close> and the part of \<open>ModuleContext::open\<close> that follows the parsing of
  the startup options: a process of its own, whose shutdown signal has no hosted channel.\<close>

definition config_validate_bindings :: "ModuleBindings \<Rightarrow> string \<Rightarrow> string + unit" where
  "config_validate_bindings b ident =
     and_then (map_err binding_message (ModuleBindings_validate b))
       (if mb_namespace b = ident then Inr ()
        else Inl (''module bindings namespace '' @ quote (mb_namespace b) @ '' differs from --name '' @ quote ident))"

definition open_module ::
  "nat \<Rightarrow> Gate \<Rightarrow> Caps \<Rightarrow> string + unit \<Rightarrow> string + unit \<Rightarrow> string \<Rightarrow> string \<Rightarrow> ModuleBindings \<Rightarrow> string + ModuleContext" where
  "open_module key g caps created responder ident domain b =
     and_then (map_err binding_message (validate_namespace ident))
    (and_then (validate_segment ''--domain'' domain)
    (and_then (config_validate_bindings b ident)
      (let c = ModuleContext_new key ident caps Shutdown_new g in
       and_then created
      (and_then (install_stop_handler responder c) (Inr (c\<lparr>mc_bindings := Some b\<rparr>))))))"

definition endpoint_namespace :: "ModuleContext \<Rightarrow> string" where
  "endpoint_namespace c = (case mc_bindings c of None \<Rightarrow> mc_id c | Some b \<Rightarrow> mb_endpoint_namespace b)"

section \<open>Opening ports\<close>

definition port_endpoint :: "ModuleContext \<Rightarrow> string \<Rightarrow> bool \<Rightarrow> AnyError + PortEndpoint" where
  "port_endpoint c name input =
     rbind (ok_or (mc_bindings c) (Error_Message ''module bindings are required'')) (\<lambda>b.
       if input then
         rbind (ok_or (bt_get (mb_inputs b) name) (Error_Message (''undefined input '' @ quote name)))
           (\<lambda>port. Inr (Endpoint_Input (ib_sources port)))
       else Inr (Endpoint_Output (EndpointAddress (mb_endpoint_namespace b) name)))"

definition delegates :: "bool \<Rightarrow> string \<Rightarrow> PortDelegation \<Rightarrow> bool" where
  "delegates input name child = list_ex (\<lambda>port. port = name) (if input then pd_inputs child else pd_outputs child)"

definition named_contract :: "ModuleContext \<Rightarrow> string \<Rightarrow> bool \<Rightarrow> PortKind \<Rightarrow> AnyError + EndpointContract" where
  "named_contract c name input kind =
     rbind (ok_or (mc_bindings c) (Error_Message (''named endpoint '' @ quote name @ '' requires module bindings''))) (\<lambda>b.
       and_then (ensure_that (\<not> list_ex (\<lambda>(_, child). delegates input name child) (mb_children b))
         (''port '' @ quote name @ '' is exclusively delegated to an owned child''))
      (rbind (ok_or (if input then map_option ib_contract (bt_get (mb_inputs b) name)
                     else map_option ob_contract (bt_get (mb_outputs b) name))
          (Error_Message (''undefined endpoint '' @ quote name))) (\<lambda>contract.
       and_then (ensure_that (ec_kind contract = kind) (''wrong endpoint operation for '' @ quote name))
         (Inr contract))))"

definition lock_ports :: "ModuleContext \<Rightarrow> string \<Rightarrow> bool \<Rightarrow> AnyError + unit" where
  "lock_ports c name input = (let ports = mc_ports c in
     and_then (ensure_that (\<not> is_triggered c) ''module is shutting down'')
    (and_then (ensure_that (\<not> pt_ready ports) ''cannot create a port after ready()'')
    (and_then (ensure_that (pt_admission ports = None) ''cannot create a port during admission'')
      (ensure_that (\<not> bt_contains (if input then pt_inputs ports else pt_outputs ports) name)
         (''port '' @ quote name @ '' already created'')))))"

definition compiled_type :: "ModuleMessage \<Rightarrow> string \<Rightarrow> AnyError + ResponseReport" where
  "compiled_type T declared =
     and_then (map_err Error_Message (validate_segment ''transport type'' (mt_TYPE_NAME T)))
    (and_then (ensure_that (declared = mt_TYPE_NAME T)
       (''declared port type '' @ quote declared @ '' differs from actual type '' @ quote (mt_TYPE_NAME T)))
     (Inr \<lparr>rr_type_name = mt_TYPE_NAME T, rr_schema = mt_SCHEMA_FINGERPRINT T\<rparr>))"

definition Registration_of :: "ModuleMessage \<Rightarrow> EndpointContract \<Rightarrow> PortEndpoint \<Rightarrow> nat \<Rightarrow> AnyError + Registration" where
  "Registration_of T contract endpoint live =
     rbind (compiled_type T (ec_type_name contract)) (\<lambda>compiled.
       Inr \<lparr>rg_contract = \<lparr>pr_endpoint = endpoint, pr_type_name = rr_type_name compiled, pr_schema = rr_schema compiled,
              pr_contract = contract, pr_response = None\<rparr>,
            rg_transport_type = mt_TYPE_NAME T, rg_live = live\<rparr>)"

definition Registration_rpc ::
  "ModuleMessage \<Rightarrow> ModuleMessage \<Rightarrow> EndpointContract \<Rightarrow> PortEndpoint \<Rightarrow> nat \<Rightarrow> AnyError + Registration" where
  "Registration_rpc S R contract endpoint live =
     rbind (Registration_of S contract endpoint live) (\<lambda>registration.
     rbind (ok_or (ec_response contract) (Error_Message ''RPC requires a response type'')) (\<lambda>response.
     rbind (compiled_type R response) (\<lambda>compiled.
       Inr (registration\<lparr>rg_contract := (rg_contract registration)\<lparr>pr_response := Some compiled\<rparr>\<rparr>))))"

text \<open>\<open>dynamic::registration\<close> and \<open>rpc_registration\<close>: the identities come from an encoded type.\<close>

definition raw_registration ::
  "EndpointContract \<Rightarrow> string \<Rightarrow> u64 \<Rightarrow> PortEndpoint \<Rightarrow> nat \<Rightarrow> AnyError + Registration" where
  "raw_registration contract type_name schema endpoint live =
     and_then (ensure_that (type_name = ec_type_name contract)
       (''declared port type '' @ quote (ec_type_name contract) @ '' differs from actual type '' @ quote type_name))
    (and_then (map_err Error_Message (validate_segment ''transport type'' type_name))
     (Inr \<lparr>rg_contract = \<lparr>pr_endpoint = endpoint, pr_type_name = type_name, pr_schema = schema,
             pr_contract = contract, pr_response = None\<rparr>,
           rg_transport_type = type_name, rg_live = live\<rparr>))"

definition rpc_registration ::
  "EndpointContract \<Rightarrow> EncodedType \<Rightarrow> EncodedType \<Rightarrow> PortEndpoint \<Rightarrow> nat \<Rightarrow> AnyError + Registration" where
  "rpc_registration contract request response endpoint live =
     rbind (raw_registration contract (et_type_name request) (et_fingerprint request) endpoint live) (\<lambda>registration.
     and_then (ensure_that (ec_response contract = Some (et_type_name response))
       (''declared response type differs from actual type '' @ quote (et_type_name response)))
     (Inr (registration\<lparr>rg_contract := (rg_contract registration)\<lparr>pr_response :=
        Some \<lparr>rr_type_name = et_type_name response, rr_schema = et_fingerprint response\<rparr>\<rparr>\<rparr>)))"

text \<open>\<open>ports.inputs.insert\<close> or \<open>ports.outputs.insert\<close>, with the handle that keeps the registration
  alive handed to the caller.\<close>

definition install_port :: "bool \<Rightarrow> string \<Rightarrow> Registration \<Rightarrow> ModuleContext \<Rightarrow> ModuleContext" where
  "install_port input name registration c = (let ports = mc_ports c in
     c\<lparr>mc_ports := (if input then ports\<lparr>pt_inputs := bt_insert name registration (pt_inputs ports)\<rparr>
                    else ports\<lparr>pt_outputs := bt_insert name registration (pt_outputs ports)\<rparr>),
       mc_alive := rg_live registration # mc_alive c, mc_fresh := Suc (mc_fresh c)\<rparr>)"

text \<open>The shape all port operations share: the declared contract, the lock, the registration, the
  transport's answer.\<close>

definition open_port ::
  "bool \<Rightarrow> PortKind \<Rightarrow> (EndpointContract \<Rightarrow> PortEndpoint \<Rightarrow> nat \<Rightarrow> AnyError + Registration)
    \<Rightarrow> (EndpointContract \<Rightarrow> AnyError + Route) \<Rightarrow> string + unit \<Rightarrow> string \<Rightarrow> ModuleContext \<Rightarrow> AnyError + ManagedPort \<times> ModuleContext" where
  "open_port input kind register route built name c =
     rbind (named_contract c name input kind) (\<lambda>contract.
     and_then (lock_ports c name input)
    (let live = mc_fresh c in
     rbind (port_endpoint c name input) (\<lambda>endpoint.
     rbind (register contract endpoint live) (\<lambda>registration.
     rbind (route contract) (\<lambda>route.
     and_then (map_err Error_Message built)
       (Inr (\<lparr>mp_live = live, mp_route = route\<rparr>, install_port input name registration c)))))))"

definition bound_sources :: "ModuleContext \<Rightarrow> string \<Rightarrow> AnyError + EndpointAddress list" where
  "bound_sources c name =
     rbind (ok_or (mc_bindings c) (Error_Message ''missing module bindings'')) (\<lambda>b.
     rbind (ok_or (bt_get (mb_inputs b) name) Error_Panic) (\<lambda>port. Inr (ib_sources port)))"

definition subscriber_route :: "ModuleContext \<Rightarrow> string \<Rightarrow> EndpointContract \<Rightarrow> AnyError + Route" where
  "subscriber_route c name contract = rbind (bound_sources c name) (\<lambda>sources.
     Inr (Route_Subscriber sources (ec_replay contract = Replay_Last)
       (case ec_buffer contract of Buffer_Fifo \<Rightarrow> None | Buffer_Latest depth \<Rightarrow> Some depth)))"

definition caller_route :: "ModuleContext \<Rightarrow> string \<Rightarrow> EndpointContract \<Rightarrow> AnyError + Route" where
  "caller_route c name contract = rbind (bound_sources c name) (\<lambda>sources.
     case sources of [source] \<Rightarrow> Inr (Route_Caller source)
     | _ \<Rightarrow> Inl (Error_Message ''RPC requires exactly one target''))"

definition publisher_route :: "EndpointContract \<Rightarrow> AnyError + Route" where
  "publisher_route contract = Inr (Route_Publisher (output_qos contract))"

definition server_route :: "EndpointContract \<Rightarrow> AnyError + Route" where
  "server_route contract = Inr Route_Server"

definition port_input :: "ModuleMessage \<Rightarrow> string + unit \<Rightarrow> string \<Rightarrow> ModuleContext \<Rightarrow> AnyError + ManagedPort \<times> ModuleContext" where
  "port_input T built name c = open_port True Kind_Stream (Registration_of T) (subscriber_route c name) built name c"

definition port_output :: "ModuleMessage \<Rightarrow> string + unit \<Rightarrow> string \<Rightarrow> ModuleContext \<Rightarrow> AnyError + ManagedPort \<times> ModuleContext" where
  "port_output T built name c = open_port False Kind_Stream (Registration_of T) publisher_route built name c"

definition port_rpc_client ::
  "ModuleMessage \<Rightarrow> ModuleMessage \<Rightarrow> string \<Rightarrow> ModuleContext \<Rightarrow> AnyError + ManagedPort \<times> ModuleContext" where
  "port_rpc_client S R name c = open_port True Kind_Rpc (Registration_rpc S R) (caller_route c name) (Inr ()) name c"

definition port_rpc_server ::
  "ModuleMessage \<Rightarrow> ModuleMessage \<Rightarrow> string + unit \<Rightarrow> string \<Rightarrow> ModuleContext \<Rightarrow> AnyError + ManagedPort \<times> ModuleContext" where
  "port_rpc_server S R built name c = open_port False Kind_Rpc (Registration_rpc S R) server_route built name c"

definition raw_input ::
  "string \<Rightarrow> u64 \<Rightarrow> string + unit \<Rightarrow> string \<Rightarrow> ModuleContext \<Rightarrow> AnyError + ManagedPort \<times> ModuleContext" where
  "raw_input type_name schema built name c =
     open_port True Kind_Stream (\<lambda>contract. raw_registration contract type_name schema) (subscriber_route c name) built name c"

definition raw_output ::
  "string \<Rightarrow> u64 \<Rightarrow> string + unit \<Rightarrow> string \<Rightarrow> ModuleContext \<Rightarrow> AnyError + ManagedPort \<times> ModuleContext" where
  "raw_output type_name schema built name c =
     open_port False Kind_Stream (\<lambda>contract. raw_registration contract type_name schema) publisher_route built name c"

definition raw_rpc_client ::
  "EncodedType \<Rightarrow> EncodedType \<Rightarrow> string \<Rightarrow> ModuleContext \<Rightarrow> AnyError + ManagedPort \<times> ModuleContext" where
  "raw_rpc_client request response name c =
     open_port True Kind_Rpc (\<lambda>contract. rpc_registration contract request response) (caller_route c name) (Inr ()) name c"

definition raw_rpc_server ::
  "EncodedType \<Rightarrow> EncodedType \<Rightarrow> string + unit \<Rightarrow> string \<Rightarrow> ModuleContext \<Rightarrow> AnyError + ManagedPort \<times> ModuleContext" where
  "raw_rpc_server request response built name c =
     open_port False Kind_Rpc (\<lambda>contract. rpc_registration contract request response) server_route built name c"

text \<open>\<open>bridge_rpc_port\<close> takes the declared names for granted and brings the fingerprints.\<close>

definition bridge_rpc_port ::
  "bool \<Rightarrow> u64 \<Rightarrow> u64 \<Rightarrow> string \<Rightarrow> ModuleContext \<Rightarrow> AnyError + ManagedPort \<times> ModuleContext" where
  "bridge_rpc_port input schema response_schema name c =
     rbind (named_contract c name input Kind_Rpc) (\<lambda>contract.
     and_then (lock_ports c name input)
    (and_then (map_err Error_Message (validate_segment ''transport type'' (ec_type_name contract)))
    (let live = mc_fresh c in
     rbind (port_endpoint c name input) (\<lambda>endpoint.
     rbind (ok_or (ec_response contract) (Error_Message ''RPC requires response type'')) (\<lambda>response.
       Inr (\<lparr>mp_live = live, mp_route = Route_Bridge\<rparr>, install_port input name
         \<lparr>rg_contract = \<lparr>pr_endpoint = endpoint, pr_type_name = ec_type_name contract, pr_schema = schema,
            pr_contract = contract, pr_response = Some \<lparr>rr_type_name = response, rr_schema = response_schema\<rparr>\<rparr>,
          rg_transport_type = ec_type_name contract, rg_live = live\<rparr> c))))))"

text \<open>Dropping a handle: it leaves the registry first, so that a report built later cannot count it,
  and withdraws an admission or the readiness.\<close>

definition port_drop :: "nat \<Rightarrow> ModuleContext \<Rightarrow> ModuleContext" where
  "port_drop live c = (let
       ports = mc_ports c;
       admitted = pt_admission ports \<noteq> None;
       ready = pt_ready ports;
       c = c\<lparr>mc_alive := removeAll live (mc_alive c), mc_ports := ports\<lparr>pt_admission := None, pt_ready := False\<rparr>\<rparr>;
       c = (if admitted then hosted_event Hosted_ReadinessLost c else c)
     in if admitted \<or> ready then trigger c else c)"

section \<open>The report\<close>

definition report_ports :: "bool \<Rightarrow> nat list \<Rightarrow> (string, Registration) btree \<Rightarrow> AnyError + (string, PortReport) btree" where
  "report_ports input alive registered =
     try_for (\<lambda>(name, port) reported.
         if rg_live port \<notin> set alive then Inl (Error_Admission (Admission_PortUnavailable input name))
         else Inr (bt_insert name (rg_contract port) reported)) registered []"

definition report_child ::
  "(string, ChildState) btree \<Rightarrow> string
     \<Rightarrow> (string, PortReport) btree \<times> (string, PortReport) btree \<Rightarrow> AnyError + (string, PortReport) btree \<times> (string, PortReport) btree" where
  "report_child children name reported =
     rbind (ok_or (bt_get children name) (Error_Message (''owned child '' @ quote name @ '' has not been spawned''))) (\<lambda>child.
     and_then (ensure_that (ch_ready child \<and> \<not> ch_exited child) (''owned child '' @ quote name @ '' is not live and ready''))
    (rbind (ok_or (ch_report child) (Error_Message (''owned child '' @ quote name @ '' has no validated report''))) (\<lambda>report.
       Inr (bt_extend (fst reported) (mr_inputs report), bt_extend (snd reported) (mr_outputs report)))))"

definition check_reported :: "bool \<Rightarrow> (string, PortReport) btree \<Rightarrow> string \<Rightarrow> unit \<Rightarrow> AnyError + unit" where
  "check_reported input reported name _ =
     (if bt_contains reported name then Inr () else Inl (Error_Admission (Admission_PortUnavailable input name)))"

definition report_declared ::
  "ModuleBindings \<Rightarrow> (string, ChildState) btree \<Rightarrow> (string, PortReport) btree \<times> (string, PortReport) btree
     \<Rightarrow> AnyError + (string, PortReport) btree \<times> (string, PortReport) btree" where
  "report_declared b children reported =
     rbind (try_for (report_child children) (map fst (mb_children b)) reported) (\<lambda>reported.
     and_then (try_for (check_reported True (fst reported)) (map fst (mb_inputs b)) ())
    (and_then (try_for (check_reported False (snd reported)) (map fst (mb_outputs b)) ())
     (Inr reported)))"

definition build_report :: "ModuleContext \<Rightarrow> AnyError + ModuleReport" where
  "build_report c = (let ports = mc_ports c in
     rbind (report_ports True (mc_alive c) (pt_inputs ports)) (\<lambda>inputs.
     rbind (report_ports False (mc_alive c) (pt_outputs ports)) (\<lambda>outputs.
     rbind (case mc_bindings c of None \<Rightarrow> Inr (inputs, outputs)
            | Some b \<Rightarrow> report_declared b (pt_children ports) (inputs, outputs)) (\<lambda>(inputs, outputs).
       Inr \<lparr>mr_version = MODULE_REPORT_VERSION, mr_fingerprint_version = SCHEMA_FINGERPRINT_VERSION, mr_namespace = mc_id c,
            mr_endpoint_namespace = endpoint_namespace c, mr_inputs = inputs, mr_outputs = outputs\<rparr>))))"

text \<open>\<open>ModuleContext::ready\<close>: \<open>written\<close> is the outcome of publishing the report file where one is
  asked for, \<open>alive\<close> the engine's answer to the liveliness token.\<close>

definition set_ready :: "ModuleContext \<Rightarrow> ModuleContext" where
  "set_ready c = c\<lparr>mc_ports := (mc_ports c)\<lparr>pt_ready := True\<rparr>\<rparr>"

definition module_ready :: "string + unit \<Rightarrow> string + unit \<Rightarrow> ModuleContext \<Rightarrow> AnyError + ModuleContext" where
  "module_ready written alive c =
     and_then (ensure_that (\<not> is_triggered c) ''module is shutting down'')
    (if pt_ready (mc_ports c) then Inr c
     else and_then (ensure_that (pt_admission (mc_ports c) = None) ''module admission is prepared'')
    (and_then (ensure_that (caps_liveliness (mc_caps c)) ''ready() requires liveliness'')
    (rbind (build_report c) (\<lambda>report.
     and_then (map_err Error_Message written)
    (and_then (map_err Error_Message alive) (Inr (set_ready c)))))))"

section \<open>Admission\<close>

text \<open>\<open>build_report\<close> indexes no map, so the last case does not arise.\<close>

definition downcast :: "AnyError \<Rightarrow> AdmissionError" where
  "downcast e = (case e of Error_Admission a \<Rightarrow> a | Error_Message m \<Rightarrow> Admission_Transport m | Error_Panic \<Rightarrow> Admission_Transport [])"

definition prepare_admission :: "ModuleContext \<Rightarrow> AdmissionError + PreparedAdmission \<times> ModuleContext" where
  "prepare_admission c = (let ports = mc_ports c in
     rbind (ok_or (mc_bindings c) Admission_MissingBindings) (\<lambda>b.
     if mb_children b \<noteq> [] \<or> mb_executables b \<noteq> [] then Inl Admission_UnsupportedHostedBindings
     else if is_triggered c then Inl Admission_ShuttingDown
     else if pt_ready ports then Inl Admission_AlreadyReady
     else if pt_admission ports \<noteq> None then Inl Admission_AlreadyPrepared
     else if \<not> caps_liveliness (mc_caps c) then Inl Admission_NoLiveliness
     else rbind (map_err downcast (build_report c)) (\<lambda>report. (let generation = mc_fresh c in
       Inr (\<lparr>pa_ports = mc_key c, pa_generation = generation, pa_report = report\<rparr>,
            c\<lparr>mc_ports := ports\<lparr>pt_admission := Some generation\<rparr>, mc_fresh := Suc generation\<rparr>)))))"

text \<open>A ticket that fails to commit is dropped on the way out; the error returns with the context the
  drop leaves.\<close>

definition admission_drop :: "PreparedAdmission \<Rightarrow> ModuleContext \<Rightarrow> ModuleContext" where
  "admission_drop ticket c =
     (if pa_ports ticket = mc_key c \<and> pt_admission (mc_ports c) = Some (pa_generation ticket)
      then c\<lparr>mc_ports := (mc_ports c)\<lparr>pt_admission := None, pt_ready := False\<rparr>\<rparr> else c)"

definition commit_check :: "string + unit \<Rightarrow> PreparedAdmission \<Rightarrow> ModuleContext \<Rightarrow> AdmissionError + unit" where
  "commit_check alive ticket c =
     (if pa_ports ticket \<noteq> mc_key c then Inl Admission_ForeignTicket
      else if pt_admission (mc_ports c) \<noteq> Some (pa_generation ticket) then Inl Admission_StaleTicket
      else if is_triggered c then Inl Admission_ShuttingDown
      else rbind (map_err downcast (build_report c)) (\<lambda>report.
        if report \<noteq> pa_report ticket then Inl Admission_StaleTicket
        else map_err Admission_Transport alive))"

definition commit_admission ::
  "string + unit \<Rightarrow> PreparedAdmission \<Rightarrow> ModuleContext \<Rightarrow> (AdmissionError + PreparedAdmission) \<times> ModuleContext" where
  "commit_admission alive ticket c = (case commit_check alive ticket c of
     Inl e \<Rightarrow> (Inl e, admission_drop ticket c)
   | Inr _ \<Rightarrow> (Inr ticket, set_ready c))"

section \<open>Owned children\<close>

text \<open>The bindings of an owned child: the delegated ports of its host, whose map indices panic on an
  absent name.\<close>

definition delegate_ports :: "('k::linorder, 'v) btree \<Rightarrow> 'k list \<Rightarrow> AnyError + ('k, 'v) btree" where
  "delegate_ports declared names = try_for (\<lambda>name ports.
     rbind (ok_or (bt_get declared name) Error_Panic) (\<lambda>port. Inr (bt_insert name port ports))) names []"

definition delegated_bindings :: "ModuleBindings \<Rightarrow> string \<Rightarrow> AnyError + ModuleBindings" where
  "delegated_bindings b name =
     rbind (ok_or (bt_get (mb_children b) name) (Error_Message (''undeclared owned child '' @ quote name))) (\<lambda>delegation.
     rbind (delegate_ports (mb_inputs b) (pd_inputs delegation)) (\<lambda>inputs.
     rbind (delegate_ports (mb_outputs b) (pd_outputs delegation)) (\<lambda>outputs.
     let child = \<lparr>mb_version = MODULE_BINDINGS_VERSION, mb_namespace = mb_namespace b @ ''/owned/'' @ name,
           mb_endpoint_namespace = mb_endpoint_namespace b, mb_inputs = inputs, mb_outputs = outputs,
           mb_children = [], mb_executables = mb_executables b\<rparr>
     in and_then (map_err Error_Message (config_validate_bindings child (mb_namespace child))) (Inr child))))"

text \<open>\<open>spawn_owned_child\<close> after the executable has been resolved: \<open>spawned\<close> is the outcome of the
  runtime directory, the readiness watch and the process.\<close>

definition spawn_child :: "string + unit \<Rightarrow> string \<Rightarrow> ModuleContext \<Rightarrow> AnyError + ModuleBindings \<times> ModuleContext" where
  "spawn_child spawned name c = (let ports = mc_ports c in
     rbind (ok_or (mc_bindings c) (Error_Message ''owned children require module bindings'')) (\<lambda>b.
     rbind (delegated_bindings b name) (\<lambda>child.
     and_then (ensure_that (\<not> is_triggered c \<and> \<not> pt_ready ports) ''cannot spawn a child after readiness or shutdown'')
    (and_then (ensure_that (\<not> bt_contains (pt_children ports) name) (''owned child '' @ quote name @ '' already spawned''))
    (and_then (map_err Error_Message spawned)
     (Inr (child, c\<lparr>mc_ports := ports\<lparr>pt_children :=
        bt_insert name \<lparr>ch_ready = False, ch_exited = False, ch_report = None\<rparr> (pt_children ports)\<rparr>\<rparr>)))))))"

definition set_child :: "string \<Rightarrow> ChildState \<Rightarrow> ModuleContext \<Rightarrow> ModuleContext" where
  "set_child name child c = c\<lparr>mc_ports := (mc_ports c)\<lparr>pt_children := bt_insert name child (pt_children (mc_ports c))\<rparr>\<rparr>"

definition withdraw :: "ModuleContext \<Rightarrow> ModuleContext" where
  "withdraw c = c\<lparr>mc_ports := (mc_ports c)\<lparr>pt_ready := False\<rparr>\<rparr>"

text \<open>The callback of the readiness watch.\<close>

definition child_presence :: "string \<Rightarrow> bool \<Rightarrow> ModuleContext \<Rightarrow> ModuleContext" where
  "child_presence name is_ready c = (case bt_get (pt_children (mc_ports c)) name of
     None \<Rightarrow> c
   | Some child \<Rightarrow> (let
         lost = ch_ready child \<and> \<not> is_ready;
         child = child\<lparr>ch_ready := is_ready \<and> \<not> ch_exited child\<rparr>
       in if lost then trigger (withdraw (set_child name (child\<lparr>ch_report := None\<rparr>) c)) else set_child name child c))"

text \<open>The end of the supervisor's task, once the process has been reaped.\<close>

definition child_exit :: "string \<Rightarrow> ModuleContext \<Rightarrow> ModuleContext" where
  "child_exit name c = trigger (withdraw (case bt_get (pt_children (mc_ports c)) name of
       None \<Rightarrow> c
     | Some child \<Rightarrow> set_child name (child\<lparr>ch_exited := True, ch_ready := False, ch_report := None\<rparr>) c))"

text \<open>The end of \<open>OwnedChild::wait_ready\<close>: the report read from the child's file is checked against
  its bindings and adopted while the child is live.\<close>

definition child_adopt :: "string \<Rightarrow> ModuleBindings \<Rightarrow> ModuleReport \<Rightarrow> ModuleContext \<Rightarrow> AnyError + ModuleContext" where
  "child_adopt name b report c =
     and_then (map_err (\<lambda>_. Error_Message ''invalid owned child report'') (validate_report b report))
    (rbind (ok_or (bt_get (pt_children (mc_ports c)) name) (Error_Message ''owned child registration disappeared'')) (\<lambda>child.
     and_then (ensure_that (ch_ready child \<and> \<not> ch_exited child) ''owned child lost readiness'')
     (Inr (set_child name (child\<lparr>ch_report := Some report\<rparr>) c))))"

end
