(* ===== verification/Managed_Report.thy ===== *)
theory Managed_Report
  imports Managed
begin

text \<open>
  What the registry of a managed module guarantees, and that a report built from it is one its
  bindings accept. \<open>registry_ok\<close> is the invariant of the registry, \<open>covered\<close> says that every
  declared port has a live handle or a live child behind it; under the first, a report can be built
  exactly when the second holds, and it then passes \<^verbatim>\<open>validate_report\<close>.
\<close>

section \<open>The invariant of the registry\<close>

text \<open>The maps of the bindings are \<open>BTreeMap\<close>s.\<close>

definition bindings_wf :: "ModuleBindings \<Rightarrow> bool" where
  "bindings_wf b \<longleftrightarrow> bt_wf (mb_inputs b) \<and> bt_wf (mb_outputs b) \<and> bt_wf (mb_children b)"

definition report_wf :: "ModuleReport \<Rightarrow> bool" where
  "report_wf r \<longleftrightarrow> bt_wf (mr_inputs r) \<and> bt_wf (mr_outputs r)"

definition input_port_ok :: "ModuleBindings \<Rightarrow> string \<Rightarrow> PortReport \<Rightarrow> bool" where
  "input_port_ok b name p \<longleftrightarrow> (\<exists>ib. bt_get (mb_inputs b) name = Some ib
     \<and> pr_endpoint p = Endpoint_Input (ib_sources ib) \<and> implements (ib_contract ib) p)"

definition output_port_ok :: "ModuleBindings \<Rightarrow> string \<Rightarrow> PortReport \<Rightarrow> bool" where
  "output_port_ok b name p \<longleftrightarrow> (\<exists>ob. bt_get (mb_outputs b) name = Some ob
     \<and> pr_endpoint p = Endpoint_Output (EndpointAddress (mb_endpoint_namespace b) name) \<and> implements (ob_contract ob) p)"

definition child_ok :: "ModuleBindings \<Rightarrow> string \<Rightarrow> ChildState \<Rightarrow> bool" where
  "child_ok b name child \<longleftrightarrow> bt_contains (mb_children b) name \<and> (\<forall>r. ch_report child = Some r \<longrightarrow> ch_ready child \<and> \<not> ch_exited child
     \<and> report_wf r \<and> (\<exists>cb. delegated_bindings b name = Inr cb \<and> report_ok cb r))"

definition registry_ok :: "ModuleBindings \<Rightarrow> Ports \<Rightarrow> bool" where
  "registry_ok b ports \<longleftrightarrow> bt_wf (pt_inputs ports) \<and> bt_wf (pt_outputs ports) \<and> bt_wf (pt_children ports)
     \<and> (\<forall>name rg. bt_get (pt_inputs ports) name = Some rg \<longrightarrow> input_port_ok b name (rg_contract rg))
     \<and> (\<forall>name rg. bt_get (pt_outputs ports) name = Some rg \<longrightarrow> output_port_ok b name (rg_contract rg))
     \<and> (\<forall>name child. bt_get (pt_children ports) name = Some child \<longrightarrow> child_ok b name child)"

definition registry_live :: "nat list \<Rightarrow> Ports \<Rightarrow> bool" where
  "registry_live alive ports \<longleftrightarrow> (\<forall>name rg. bt_get (pt_inputs ports) name = Some rg \<longrightarrow> rg_live rg \<in> set alive)
     \<and> (\<forall>name rg. bt_get (pt_outputs ports) name = Some rg \<longrightarrow> rg_live rg \<in> set alive)"

text \<open>Every declared port is open in this process or delegated, every handle is alive, and every owned
  child has given a report that was checked.\<close>

definition covered :: "ModuleBindings \<Rightarrow> ModuleContext \<Rightarrow> bool" where
  "covered b c \<longleftrightarrow> registry_live (mc_alive c) (mc_ports c)
     \<and> (\<forall>name. bt_contains (mb_children b) name \<longrightarrow>
          (\<exists>child. bt_get (pt_children (mc_ports c)) name = Some child \<and> ch_report child \<noteq> None))
     \<and> (\<forall>name. bt_contains (mb_inputs b) name \<longrightarrow> bt_contains (pt_inputs (mc_ports c)) name
          \<or> (\<exists>child \<in> set (mb_children b). delegates True name (snd child)))
     \<and> (\<forall>name. bt_contains (mb_outputs b) name \<longrightarrow> bt_contains (pt_outputs (mc_ports c)) name
          \<or> (\<exists>child \<in> set (mb_children b). delegates False name (snd child)))"

section \<open>The bindings of an owned child\<close>

lemma delegate_loop:
  "try_for (\<lambda>name ports. rbind (ok_or (bt_get m name) Error_Panic) (\<lambda>port. Inr (bt_insert name port ports))) names acc = Inr r
     \<Longrightarrow> bt_wf acc \<Longrightarrow> bt_wf r \<and> (\<forall>n. bt_get r n = (if n \<in> set names then bt_get m n else bt_get acc n))
       \<and> (\<forall>n \<in> set names. bt_contains m n)"
proof (induction names arbitrary: acc)
  case (Cons name names)
  from Cons.prems(1) obtain port where port: "bt_get m name = Some port"
    and rest: "try_for (\<lambda>name ports. rbind (ok_or (bt_get m name) Error_Panic) (\<lambda>port. Inr (bt_insert name port ports))) names
      (bt_insert name port acc) = Inr r"
    by (auto simp: res_simps)
  show ?case
    using Cons.IH [OF rest] Cons.prems(2) port by (auto simp: bt_get_insert bt_contains_def)
qed simp

lemma delegate_ports_Inr:
  assumes "delegate_ports m names = Inr r"
  shows "bt_wf r" and "bt_get r n = (if n \<in> set names then bt_get m n else None)" and "n \<in> set names \<Longrightarrow> bt_contains m n"
  using delegate_loop [OF assms [unfolded delegate_ports_def]] by auto

lemma delegated_bindings_Inr:
  assumes "delegated_bindings b name = Inr cb"
  obtains d where "bt_get (mb_children b) name = Some d" "mb_endpoint_namespace cb = mb_endpoint_namespace b"
    "bt_wf (mb_inputs cb)" "bt_wf (mb_outputs cb)"
    "\<And>n. bt_get (mb_inputs cb) n = (if delegates True n d then bt_get (mb_inputs b) n else None)"
    "\<And>n. delegates True n d \<Longrightarrow> bt_contains (mb_inputs b) n"
    "\<And>n. bt_get (mb_outputs cb) n = (if delegates False n d then bt_get (mb_outputs b) n else None)"
    "\<And>n. delegates False n d \<Longrightarrow> bt_contains (mb_outputs b) n"
proof -
  from assms obtain d ins outs where d: "bt_get (mb_children b) name = Some d"
    and ins: "delegate_ports (mb_inputs b) (pd_inputs d) = Inr ins"
    and outs: "delegate_ports (mb_outputs b) (pd_outputs d) = Inr outs"
    and cb: "mb_endpoint_namespace cb = mb_endpoint_namespace b" "mb_inputs cb = ins" "mb_outputs cb = outs"
    by (auto simp: delegated_bindings_def res_simps Let_def)
  have "delegates True n d \<longleftrightarrow> n \<in> set (pd_inputs d)" "delegates False n d \<longleftrightarrow> n \<in> set (pd_outputs d)" for n
    by (auto simp: delegates_def list_ex_iff)
  then show ?thesis
    using that [OF d cb(1)] delegate_ports_Inr [OF ins] delegate_ports_Inr [OF outs] by (simp add: cb)
qed

text \<open>The ports of a child's report are the ports delegated to it, each as the host declares it.\<close>

lemma child_input:
  assumes "child_ok b name child" and "ch_report child = Some r" and "bt_get (mr_inputs r) n = Some p"
  shows "input_port_ok b n p"
proof -
  from assms(1,2) obtain cb where cb: "delegated_bindings b name = Inr cb" and ok: "report_ok cb r" and wf: "report_wf r"
    by (auto simp: child_ok_def)
  obtain d where d: "bt_wf (mb_inputs cb)" "\<And>n. bt_get (mb_inputs cb) n = (if delegates True n d then bt_get (mb_inputs b) n else None)"
    using delegated_bindings_Inr [OF cb] by metis
  have "fst ` set (mr_inputs r) = fst ` set (mb_inputs cb)"
    using ok by (simp add: report_ok_def inputs_reported_def)
  moreover have "(n, p) \<in> set (mr_inputs r)"
    using assms(3) by (simp add: bt_get_def map_of_SomeD)
  ultimately have "n \<in> fst ` set (mb_inputs cb)"
    by force
  then obtain ib where ib: "(n, ib) \<in> set (mb_inputs cb)"
    by auto
  then have "bt_get (mb_inputs cb) n = Some ib"
    using bt.get_Some_iff [OF d(1)] by simp
  then have "bt_get (mb_inputs b) n = Some ib"
    using d(2) [of n] by (simp split: if_splits)
  then show ?thesis
    using ok ib assms(3) by (fastforce simp: report_ok_def inputs_reported_def input_port_ok_def)
qed

lemma child_output:
  assumes "child_ok b name child" and "ch_report child = Some r" and "bt_get (mr_outputs r) n = Some p"
  shows "output_port_ok b n p"
proof -
  from assms(1,2) obtain cb where cb: "delegated_bindings b name = Inr cb" and ok: "report_ok cb r" and wf: "report_wf r"
    by (auto simp: child_ok_def)
  obtain d where d: "bt_wf (mb_outputs cb)" "mb_endpoint_namespace cb = mb_endpoint_namespace b"
    "\<And>n. bt_get (mb_outputs cb) n = (if delegates False n d then bt_get (mb_outputs b) n else None)"
    using delegated_bindings_Inr [OF cb] by metis
  have "fst ` set (mr_outputs r) = fst ` set (mb_outputs cb)"
    using ok by (simp add: report_ok_def outputs_reported_def)
  moreover have "(n, p) \<in> set (mr_outputs r)"
    using assms(3) by (simp add: bt_get_def map_of_SomeD)
  ultimately have "n \<in> fst ` set (mb_outputs cb)"
    by force
  then obtain ob where ob: "(n, ob) \<in> set (mb_outputs cb)"
    by auto
  then have "bt_get (mb_outputs cb) n = Some ob"
    using bt.get_Some_iff [OF d(1)] by simp
  then have "bt_get (mb_outputs b) n = Some ob"
    using d(3) [of n] by (simp split: if_splits)
  then show ?thesis
    using ok ob assms(3) by (fastforce simp: report_ok_def outputs_reported_def output_port_ok_def d(2))
qed

lemma child_covers:
  assumes "child_ok b name child" and "ch_report child = Some r" and "bt_get (mb_children b) name = Some d"
  shows "bt_contains (mr_inputs r) n \<longleftrightarrow> delegates True n d" and "bt_contains (mr_outputs r) n \<longleftrightarrow> delegates False n d"
proof -
  from assms(1,2) obtain cb where cb: "delegated_bindings b name = Inr cb" and ok: "report_ok cb r"
    by (auto simp: child_ok_def)
  from delegated_bindings_Inr [OF cb] assms(3)
  have d: "\<And>n. bt_get (mb_inputs cb) n = (if delegates True n d then bt_get (mb_inputs b) n else None)"
    "\<And>n. delegates True n d \<Longrightarrow> bt_contains (mb_inputs b) n"
    "\<And>n. bt_get (mb_outputs cb) n = (if delegates False n d then bt_get (mb_outputs b) n else None)"
    "\<And>n. delegates False n d \<Longrightarrow> bt_contains (mb_outputs b) n"
    by (metis option.inject)+
  have "bt_contains (mr_inputs r) n \<longleftrightarrow> bt_contains (mb_inputs cb) n" "bt_contains (mr_outputs r) n \<longleftrightarrow> bt_contains (mb_outputs cb) n"
    using ok by (simp_all add: report_ok_def inputs_reported_def outputs_reported_def bt_simps)
  then show "bt_contains (mr_inputs r) n \<longleftrightarrow> delegates True n d" and "bt_contains (mr_outputs r) n \<longleftrightarrow> delegates False n d"
    using d(1) [of n] d(2) [of n] d(3) [of n] d(4) [of n] by (auto simp: bt_contains_def)
qed

section \<open>The loops of the report\<close>

lemma report_loop:
  "try_for (\<lambda>(name, port) reported.
       if rg_live port \<notin> set alive then Inl (Error_Admission (Admission_PortUnavailable input name))
       else Inr (bt_insert name (rg_contract port) reported)) m acc = Inr r \<longleftrightarrow>
   (\<forall>e \<in> set m. rg_live (snd e) \<in> set alive) \<and> r = bt_extend acc (map (\<lambda>(n, rg). (n, rg_contract rg)) m)"
  by (induction m arbitrary: acc) (auto simp: bt_extend_def res_simps split: if_splits)

lemma map_of_rev_sorted: "bt_wf m \<Longrightarrow> map_of (rev m) = map_of m"
proof -
  assume "bt_wf m"
  then have "distinct (map fst m)"
    by (rule bt.distinct_keys)
  then show ?thesis
    by (subst map_of_inject_set) (simp_all flip: rev_map)
qed

lemma report_ports_Inr:
  assumes "bt_wf m"
  shows "report_ports input alive m = Inr r \<longleftrightarrow>
     (\<forall>name rg. bt_get m name = Some rg \<longrightarrow> rg_live rg \<in> set alive) \<and> r = bt_extend [] (map (\<lambda>(n, rg). (n, rg_contract rg)) m)"
  unfolding report_ports_def report_loop using bt.get_Some_iff [OF assms] by force

lemma reported_get:
  assumes "bt_wf m"
  shows "bt_get (bt_extend [] (map (\<lambda>(n, rg). (n, rg_contract rg)) m)) n = map_option rg_contract (bt_get m n)"
proof -
  have "map_of (rev (map (\<lambda>(n, rg). (n, rg_contract rg)) m)) n = map_option rg_contract (map_of (rev m) n)"
    by (simp add: rev_map map_of_map)
  then show ?thesis
    unfolding bt_extend_get [OF bt_wf_Nil] map_of_rev_sorted [OF assms] by (simp add: bt_get_def split: option.splits)
qed

text \<open>What the loop over the children adds: entries of their reports, and nothing is lost.\<close>

definition from_child :: "(ModuleReport \<Rightarrow> (string, PortReport) btree) \<Rightarrow> (string, ChildState) btree \<Rightarrow> string list \<Rightarrow> string \<Rightarrow> PortReport \<Rightarrow> bool" where
  "from_child side children names n p \<longleftrightarrow> (\<exists>name \<in> set names. \<exists>child r. bt_get children name = Some child
     \<and> ch_report child = Some r \<and> bt_get (side r) n = Some p)"

definition has_child :: "(ModuleReport \<Rightarrow> (string, PortReport) btree) \<Rightarrow> (string, ChildState) btree \<Rightarrow> string list \<Rightarrow> string \<Rightarrow> bool" where
  "has_child side children names n \<longleftrightarrow> (\<exists>name \<in> set names. \<exists>child r. bt_get children name = Some child
     \<and> ch_report child = Some r \<and> bt_contains (side r) n)"

lemma extend_get_cases:
  assumes "bt_wf m" and "bt_wf kvs"
  shows "bt_get (bt_extend m kvs) n = (case bt_get kvs n of Some v \<Rightarrow> Some v | None \<Rightarrow> bt_get m n)"
  unfolding bt_extend_get [OF assms(1)] map_of_rev_sorted [OF assms(2)] by (simp add: bt_get_def)

lemma report_child_Inr:
  "report_child children name acc = Inr acc' \<longleftrightarrow> (\<exists>child r. bt_get children name = Some child \<and> ch_ready child \<and> \<not> ch_exited child
     \<and> ch_report child = Some r \<and> acc' = (bt_extend (fst acc) (mr_inputs r), bt_extend (snd acc) (mr_outputs r)))"
  by (auto simp: report_child_def res_simps ensure_that_def split: if_splits)

lemma children_loop:
  assumes "\<forall>name child. bt_get children name = Some child \<longrightarrow> child_ok b name child" and "bt_wf (fst acc)" and "bt_wf (snd acc)"
    and "try_for (report_child children) names acc = Inr res"
  shows "bt_wf (fst res) \<and> bt_wf (snd res)
    \<and> (\<forall>n p. bt_get (fst res) n = Some p \<longrightarrow> bt_get (fst acc) n = Some p \<or> from_child mr_inputs children names n p)
    \<and> (\<forall>n p. bt_get (snd res) n = Some p \<longrightarrow> bt_get (snd acc) n = Some p \<or> from_child mr_outputs children names n p)
    \<and> (\<forall>n. bt_contains (fst res) n \<longleftrightarrow> bt_contains (fst acc) n \<or> has_child mr_inputs children names n)
    \<and> (\<forall>n. bt_contains (snd res) n \<longleftrightarrow> bt_contains (snd acc) n \<or> has_child mr_outputs children names n)
    \<and> (\<forall>name \<in> set names. \<exists>child. bt_get children name = Some child \<and> ch_report child \<noteq> None)"
  using assms(2-)
proof (induction names arbitrary: acc)
  case (Cons name names)
  from Cons.prems(3) obtain child r where child: "bt_get children name = Some child" "ch_report child = Some r"
    and rest: "try_for (report_child children) names (bt_extend (fst acc) (mr_inputs r), bt_extend (snd acc) (mr_outputs r)) = Inr res"
    by (auto simp: res_simps report_child_Inr)
  have wf: "bt_wf (mr_inputs r)" "bt_wf (mr_outputs r)"
    using assms(1) child by (auto simp: child_ok_def report_wf_def)
  note IH = Cons.IH [OF _ _ rest, simplified bt_extend_wf [OF Cons.prems(1)] bt_extend_wf [OF Cons.prems(2)] fst_conv snd_conv]
  note get = extend_get_cases [OF Cons.prems(1) wf(1)] extend_get_cases [OF Cons.prems(2) wf(2)]
  have has: "has_child side children (name # names) n \<longleftrightarrow> bt_contains (side r) n \<or> has_child side children names n" for side n
    using child by (auto simp: has_child_def)
  have from_: "from_child side children (name # names) n p \<longleftrightarrow> bt_get (side r) n = Some p \<or> from_child side children names n p" for side n p
    using child by (auto simp: from_child_def)
  have keys: "bt_contains (bt_extend (fst acc) (mr_inputs r)) n \<longleftrightarrow> bt_contains (fst acc) n \<or> bt_contains (mr_inputs r) n"
    "bt_contains (bt_extend (snd acc) (mr_outputs r)) n \<longleftrightarrow> bt_contains (snd acc) n \<or> bt_contains (mr_outputs r) n" for n
    by (auto simp: bt_contains_def get split: option.splits)
  have "bt_get (bt_extend (fst acc) (mr_inputs r)) n = Some p \<Longrightarrow> bt_get (fst acc) n = Some p \<or> bt_get (mr_inputs r) n = Some p"
    "bt_get (bt_extend (snd acc) (mr_outputs r)) n = Some p \<Longrightarrow> bt_get (snd acc) n = Some p \<or> bt_get (mr_outputs r) n = Some p" for n p
    by (auto simp: get split: option.splits)
  then show ?case
    using IH child unfolding has from_ keys by auto blast+
qed (auto simp: has_child_def from_child_def)

lemma children_loop_ok:
  assumes "\<forall>name \<in> set names. \<exists>child. bt_get children name = Some child \<and> ch_ready child \<and> \<not> ch_exited child \<and> ch_report child \<noteq> None"
  shows "\<exists>res. try_for (report_child children) names acc = Inr res"
  using assms
proof (induction names arbitrary: acc)
  case (Cons name names)
  then obtain acc' where "report_child children name acc = Inr acc'"
    by (fastforce simp: report_child_Inr)
  then show ?case
    using Cons by simp
qed simp

lemma check_reported_Inr: "try_for (check_reported input reported) names () = Inr u \<longleftrightarrow> (\<forall>n \<in> set names. bt_contains reported n)"
  unfolding try_for_unit_Inr by (auto simp: check_reported_def split: if_splits)

section \<open>A report can be built exactly when the registry is covered\<close>

text \<open>The reports of one side: entries of the process's own registry or of the children's reports.\<close>

lemma children_delegate:
  assumes "registry_ok b ports" and "bt_wf (mb_children b)"
    and all: "\<forall>name \<in> set (map fst (mb_children b)). \<exists>child. bt_get (pt_children ports) name = Some child \<and> ch_report child \<noteq> None"
  shows "has_child mr_inputs (pt_children ports) (map fst (mb_children b)) n \<longleftrightarrow> (\<exists>d \<in> set (mb_children b). delegates True n (snd d))"
    and "has_child mr_outputs (pt_children ports) (map fst (mb_children b)) n \<longleftrightarrow> (\<exists>d \<in> set (mb_children b). delegates False n (snd d))"
proof -
  have entry: "(\<exists>child r. bt_get (pt_children ports) (fst d) = Some child \<and> ch_report child = Some r \<and> bt_contains (mr_inputs r) n)
        \<longleftrightarrow> delegates True n (snd d)"
    "(\<exists>child r. bt_get (pt_children ports) (fst d) = Some child \<and> ch_report child = Some r \<and> bt_contains (mr_outputs r) n)
        \<longleftrightarrow> delegates False n (snd d)" if d: "d \<in> set (mb_children b)" for d
  proof -
    from d have get: "bt_get (mb_children b) (fst d) = Some (snd d)"
      using bt.get_Some_iff [OF assms(2), of "fst d" "snd d"] by simp
    from all d obtain child r where "bt_get (pt_children ports) (fst d) = Some child" "ch_report child = Some r"
      by fastforce
    moreover from this have "child_ok b (fst d) child"
      using assms(1) by (simp add: registry_ok_def)
    ultimately show "(\<exists>child r. bt_get (pt_children ports) (fst d) = Some child \<and> ch_report child = Some r \<and> bt_contains (mr_inputs r) n)
        \<longleftrightarrow> delegates True n (snd d)"
      and "(\<exists>child r. bt_get (pt_children ports) (fst d) = Some child \<and> ch_report child = Some r \<and> bt_contains (mr_outputs r) n)
        \<longleftrightarrow> delegates False n (snd d)"
      using child_covers [OF _ _ get] by simp_all
  qed
  show "has_child mr_inputs (pt_children ports) (map fst (mb_children b)) n \<longleftrightarrow> (\<exists>d \<in> set (mb_children b). delegates True n (snd d))"
    and "has_child mr_outputs (pt_children ports) (map fst (mb_children b)) n \<longleftrightarrow> (\<exists>d \<in> set (mb_children b). delegates False n (snd d))"
    unfolding has_child_def set_map bex_simps using entry by blast+
qed

definition own_reports :: "(string, Registration) btree \<Rightarrow> (string, PortReport) btree" where
  "own_reports m = bt_extend [] (map (\<lambda>(n, rg). (n, rg_contract rg)) m)"

lemma own_reports_wf [simp]: "bt_wf (own_reports m)"
  by (simp add: own_reports_def bt_extend_wf)

lemma own_reports_get: "bt_wf m \<Longrightarrow> bt_get (own_reports m) n = map_option rg_contract (bt_get m n)"
  unfolding own_reports_def by (rule reported_get)

lemma own_reports_contains: "bt_wf m \<Longrightarrow> bt_contains (own_reports m) n \<longleftrightarrow> bt_contains m n"
  by (simp add: bt_contains_def own_reports_get)

lemma build_report_unfold:
  assumes "registry_ok b (mc_ports c)" and "mc_bindings c = Some b"
  shows "build_report c = Inr r \<longleftrightarrow> registry_live (mc_alive c) (mc_ports c)
    \<and> (\<exists>res. try_for (report_child (pt_children (mc_ports c))) (map fst (mb_children b))
          (own_reports (pt_inputs (mc_ports c)), own_reports (pt_outputs (mc_ports c))) = Inr res
        \<and> (\<forall>n \<in> fst ` set (mb_inputs b). bt_contains (fst res) n) \<and> (\<forall>n \<in> fst ` set (mb_outputs b). bt_contains (snd res) n)
        \<and> r = \<lparr>mr_version = MODULE_REPORT_VERSION, mr_fingerprint_version = SCHEMA_FINGERPRINT_VERSION, mr_namespace = mc_id c,
            mr_endpoint_namespace = mb_endpoint_namespace b, mr_inputs = fst res, mr_outputs = snd res\<rparr>)"
proof -
  have wf: "bt_wf (pt_inputs (mc_ports c))" "bt_wf (pt_outputs (mc_ports c))"
    using assms(1) by (simp_all add: registry_ok_def)
  have reported: "report_declared b ch acc = Inr res \<longleftrightarrow> try_for (report_child ch) (map fst (mb_children b)) acc = Inr res
      \<and> (\<forall>n \<in> fst ` set (mb_inputs b). bt_contains (fst res) n) \<and> (\<forall>n \<in> fst ` set (mb_outputs b). bt_contains (snd res) n)" for ch acc res
    by (cases res) (auto simp: report_declared_def res_simps check_reported_Inr)
  show ?thesis
    unfolding build_report_def Let_def rbind_Inr_iff report_ports_Inr [OF wf(1)] report_ports_Inr [OF wf(2)]
      own_reports_def [symmetric] registry_live_def assms(2) option.case reported endpoint_namespace_def
    by auto
qed

lemma build_report_covered:
  assumes "registry_ok b (mc_ports c)" and "mc_bindings c = Some b" and "bindings_wf b"
  shows "(\<exists>r. build_report c = Inr r) \<longleftrightarrow> covered b c"
proof -
  let ?ports = "mc_ports c" and ?names = "map fst (mb_children b)"
  let ?own = "(own_reports (pt_inputs ?ports), own_reports (pt_outputs ?ports))"
  have wf: "bt_wf (pt_inputs ?ports)" "bt_wf (pt_outputs ?ports)" and wfc: "bt_wf (mb_children b)"
    and ok: "\<forall>name child. bt_get (pt_children ?ports) name = Some child \<longrightarrow> child_ok b name child"
    using assms(1,3) by (simp_all add: registry_ok_def bindings_wf_def)
  let ?all = "\<forall>name \<in> set ?names. \<exists>child. bt_get (pt_children ?ports) name = Some child \<and> ch_report child \<noteq> None"
  have loop: "(\<exists>res. try_for (report_child (pt_children ?ports)) ?names ?own = Inr res) \<longleftrightarrow> ?all"
  proof
    assume ?all
    then have "\<forall>name \<in> set ?names. \<exists>child. bt_get (pt_children ?ports) name = Some child \<and> ch_ready child \<and> \<not> ch_exited child \<and> ch_report child \<noteq> None"
      using ok unfolding child_ok_def by (metis not_Some_eq)
    then show "\<exists>res. try_for (report_child (pt_children ?ports)) ?names ?own = Inr res"
      by (rule children_loop_ok)
  next
    assume "\<exists>res. try_for (report_child (pt_children ?ports)) ?names ?own = Inr res"
    then obtain res where "try_for (report_child (pt_children ?ports)) ?names ?own = Inr res" ..
    from children_loop [OF ok _ _ this] show ?all
      by simp
  qed
  have keys: "(bt_contains (fst res) n \<longleftrightarrow> bt_contains (pt_inputs ?ports) n \<or> (\<exists>d \<in> set (mb_children b). delegates True n (snd d)))
      \<and> (bt_contains (snd res) n \<longleftrightarrow> bt_contains (pt_outputs ?ports) n \<or> (\<exists>d \<in> set (mb_children b). delegates False n (snd d)))"
    if res: "try_for (report_child (pt_children ?ports)) ?names ?own = Inr res" for res n
  proof -
    have ?all
      using res loop by blast
    note delegate = children_delegate [OF assms(1) wfc this]
    show ?thesis
      using children_loop [OF ok _ _ res] by (simp add: own_reports_contains [OF wf(1)] own_reports_contains [OF wf(2)] delegate)
  qed
  have names: "(\<forall>name. bt_contains m name \<longrightarrow> P name) \<longleftrightarrow> (\<forall>name \<in> fst ` set m. P name)" for m :: "(string, 'v) btree" and P
    by (auto simp: bt_simps)
  show ?thesis
    unfolding build_report_unfold [OF assms(1,2)] covered_def names set_map [symmetric] loop [symmetric] using keys by auto
qed

lemma side_reported:
  assumes "bt_wf declared" and cover: "\<forall>n \<in> fst ` set declared. bt_contains reported n"
    and sound: "\<And>n p. bt_get reported n = Some p \<Longrightarrow> \<exists>x. bt_get declared n = Some x \<and> Q n x p"
  shows "fst ` set reported = fst ` set declared
    \<and> (\<forall>(name, x) \<in> set declared. \<exists>p. bt_get reported name = Some p \<and> Q name x p)"
proof -
  have all: "bt_contains declared n \<Longrightarrow> bt_contains reported n" for n
    using cover unfolding bt_contains_iff by blast
  then have "bt_get declared n = Some x \<Longrightarrow> \<exists>p. bt_get reported n = Some p \<and> Q n x p" for n x
    using sound [of n] by (fastforce simp: bt_contains_def)
  moreover have "bt_contains reported n \<longleftrightarrow> bt_contains declared n" for n
    using all [of n] sound [of n] by (auto simp: bt_contains_def)
  ultimately show ?thesis
    unfolding bt.get_Some_iff [OF assms(1)] bt_contains_iff by blast
qed

text \<open>Every report a module builds is one that its bindings accept.\<close>

lemma build_report_valid:
  assumes "registry_ok b (mc_ports c)" and "mc_bindings c = Some b" and "bindings_wf b" and "bindings_ok b"
    and "mc_id c = mb_namespace b" and "build_report c = Inr r"
  shows "report_ok b r"
proof -
  let ?ports = "mc_ports c"
  have wf: "bt_wf (pt_inputs ?ports)" "bt_wf (pt_outputs ?ports)"
    and ok: "\<forall>name child. bt_get (pt_children ?ports) name = Some child \<longrightarrow> child_ok b name child"
    and own: "bt_get (pt_inputs ?ports) n = Some rg \<Longrightarrow> input_port_ok b n (rg_contract rg)"
      "bt_get (pt_outputs ?ports) n = Some rg \<Longrightarrow> output_port_ok b n (rg_contract rg)" for n rg
    using assms(1) by (simp_all add: registry_ok_def)
  from assms(6) obtain res where res: "try_for (report_child (pt_children ?ports)) (map fst (mb_children b))
        (own_reports (pt_inputs ?ports), own_reports (pt_outputs ?ports)) = Inr res"
    and cover: "\<forall>n \<in> fst ` set (mb_inputs b). bt_contains (fst res) n" "\<forall>n \<in> fst ` set (mb_outputs b). bt_contains (snd res) n"
    and r: "r = \<lparr>mr_version = MODULE_REPORT_VERSION, mr_fingerprint_version = SCHEMA_FINGERPRINT_VERSION, mr_namespace = mc_id c,
            mr_endpoint_namespace = mb_endpoint_namespace b, mr_inputs = fst res, mr_outputs = snd res\<rparr>"
    unfolding build_report_unfold [OF assms(1,2)] by blast
  note loop = children_loop [OF ok _ _ res]
  have ins: "input_port_ok b n p" if "bt_get (fst res) n = Some p" for n p
  proof -
    have "(\<exists>rg. bt_get (pt_inputs ?ports) n = Some rg \<and> p = rg_contract rg)
        \<or> from_child mr_inputs (pt_children ?ports) (map fst (mb_children b)) n p"
      using that loop by (simp add: own_reports_get [OF wf(1)]) blast
    then show ?thesis
      using own(1) child_input ok unfolding from_child_def by blast
  qed
  have outs: "output_port_ok b n p" if "bt_get (snd res) n = Some p" for n p
  proof -
    have "(\<exists>rg. bt_get (pt_outputs ?ports) n = Some rg \<and> p = rg_contract rg)
        \<or> from_child mr_outputs (pt_children ?ports) (map fst (mb_children b)) n p"
      using that loop by (simp add: own_reports_get [OF wf(2)]) blast
    then show ?thesis
      using own(2) child_output ok unfolding from_child_def by blast
  qed
  have "inputs_reported b r"
    unfolding inputs_reported_def r ModuleReport.simps
    by (rule side_reported) (use cover(1) ins assms(3) in \<open>simp_all add: input_port_ok_def bindings_wf_def\<close>)
  moreover have "outputs_reported b r"
    unfolding outputs_reported_def r ModuleReport.simps
    by (rule side_reported) (use cover(2) outs assms(3) in \<open>simp_all add: output_port_ok_def bindings_wf_def\<close>)
  ultimately show ?thesis
    using assms(4,5) by (simp add: report_ok_def r MODULE_REPORT_VERSION_def SCHEMA_FINGERPRINT_VERSION_def)
qed

end
