(* ===== verification/Managed_Correct.thy ===== *)
theory Managed_Correct
  imports Managed_Report Bindings_Correct
begin

text \<open>
  A managed module from its opening on: every sequence of port operations, dropped handles,
  admissions, children coming and going and shutdown signals (\<open>module_step\<close>), the invariant they
  keep, and what readiness means under it.
\<close>

section \<open>Leases\<close>

text \<open>The tickets in the hands of a host: prepared ones, and the ready ones that hold a committed
  ticket.\<close>

datatype Lease = Lease_Prepared PreparedAdmission | Lease_Ready PreparedAdmission

fun lease_ticket :: "Lease \<Rightarrow> PreparedAdmission" where
  "lease_ticket (Lease_Prepared t) = t"
| "lease_ticket (Lease_Ready t) = t"

definition generations :: "Lease list \<Rightarrow> nat list" where
  "generations ls = map (pa_generation \<circ> lease_ticket) ls"

section \<open>The steps of a module\<close>

inductive module_step :: "ModuleContext \<times> Lease list \<Rightarrow> ModuleContext \<times> Lease list \<Rightarrow> bool" where
  Input: "port_input T built name c = Inr (h, c') \<Longrightarrow> module_step (c, ls) (c', ls)"
| Output: "port_output T built name c = Inr (h, c') \<Longrightarrow> module_step (c, ls) (c', ls)"
| Client: "port_rpc_client S R name c = Inr (h, c') \<Longrightarrow> module_step (c, ls) (c', ls)"
| Server: "port_rpc_server S R built name c = Inr (h, c') \<Longrightarrow> module_step (c, ls) (c', ls)"
| Raw_input: "raw_input type_name schema built name c = Inr (h, c') \<Longrightarrow> module_step (c, ls) (c', ls)"
| Raw_output: "raw_output type_name schema built name c = Inr (h, c') \<Longrightarrow> module_step (c, ls) (c', ls)"
| Raw_client: "raw_rpc_client request response name c = Inr (h, c') \<Longrightarrow> module_step (c, ls) (c', ls)"
| Raw_server: "raw_rpc_server request response built name c = Inr (h, c') \<Longrightarrow> module_step (c, ls) (c', ls)"
| Bridge: "bridge_rpc_port input schema response_schema name c = Inr (h, c') \<Longrightarrow> module_step (c, ls) (c', ls)"
| Dropped: "live \<in> set (mc_alive c) \<Longrightarrow> module_step (c, ls) (port_drop live c, ls)"
| Ready: "module_ready written alive c = Inr c' \<Longrightarrow> module_step (c, ls) (c', ls)"
| Prepared: "prepare_admission c = Inr (t, c') \<Longrightarrow> module_step (c, ls) (c', Lease_Prepared t # ls)"
| Committed: "commit_admission alive t c = (Inr t', c') \<Longrightarrow>
    module_step (c, ls @ Lease_Prepared t # ls') (c', ls @ Lease_Ready t' # ls')"
| Refused: "commit_admission alive t c = (Inl e, c') \<Longrightarrow> module_step (c, ls @ Lease_Prepared t # ls') (c', ls @ ls')"
| Released: "module_step (c, ls @ l # ls') (admission_drop (lease_ticket l) c, ls @ ls')"
| Spawned: "spawn_child spawned name c = Inr (cb, c') \<Longrightarrow> module_step (c, ls) (c', ls)"
| Presence: "module_step (c, ls) (child_presence name is_ready c, ls)"
| Exit: "module_step (c, ls) (child_exit name c, ls)"
| Adopted: "mc_bindings c = Some b \<Longrightarrow> delegated_bindings b name = Inr cb \<Longrightarrow> report_wf r \<Longrightarrow> child_adopt name cb r c = Inr c' \<Longrightarrow>
    module_step (c, ls) (c', ls)"
| Flagged: "module_step (c, ls) (raise_flag c, ls)"
| Signalled: "is_triggered c \<Longrightarrow> module_step (c, ls) (hosted_event Hosted_StopRequested c, ls)"
| Attached: "module_step (c, ls) (attach_step_gate c, ls)"
| Gated: "module_step (c, ls) (c\<lparr>mc_gate := g\<rparr>, ls)"

definition module_inv :: "ModuleBindings \<Rightarrow> ModuleContext \<times> Lease list \<Rightarrow> bool" where
  "module_inv b s = (case s of (c, ls) \<Rightarrow>
     mc_bindings c = Some b \<and> mc_id c = mb_namespace b \<and> registry_ok b (mc_ports c)
     \<and> (\<forall>g. pt_admission (mc_ports c) = Some g \<longrightarrow> g < mc_fresh c \<and> mb_children b = [] \<and> covered b c)
     \<and> (pt_ready (mc_ports c) \<longrightarrow> covered b c)
     \<and> (\<forall>t \<in> lease_ticket ` set ls. pa_ports t = mc_key c \<and> pa_generation t < mc_fresh c
          \<and> (pt_admission (mc_ports c) = Some (pa_generation t) \<longrightarrow> build_report c = Inr (pa_report t)))
     \<and> distinct (generations ls))"

section \<open>Signals leave the registry alone\<close>

definition same_registry :: "ModuleContext \<Rightarrow> ModuleContext \<Rightarrow> bool" where
  "same_registry c c' \<longleftrightarrow> mc_key c' = mc_key c \<and> mc_id c' = mc_id c \<and> mc_bindings c' = mc_bindings c \<and> mc_ports c' = mc_ports c
     \<and> mc_alive c' = mc_alive c \<and> mc_fresh c' = mc_fresh c"

lemma same_registry_signals [simp]:
  "same_registry c (raise_flag c)" "same_registry c (hosted_event e c)" "same_registry c (attach_step_gate c)"
  "same_registry c (c\<lparr>mc_gate := g\<rparr>)" "same_registry c (trigger c)"
  by (auto simp: same_registry_def raise_flag_def hosted_event_def attach_step_gate_def trigger_def Let_def split: option.splits)

lemma same_registry_refl: "same_registry c c"
  by (simp add: same_registry_def)

lemma same_registry_trans: "same_registry c c' \<Longrightarrow> same_registry c' c'' \<Longrightarrow> same_registry c c''"
  by (simp add: same_registry_def)

lemma same_registry_lost [simp]: "same_registry c (trigger (hosted_event e c))"
  by (rule same_registry_trans [OF same_registry_signals(2,5)])

lemma build_report_cong:
  assumes "mc_id c' = mc_id c" and "mc_bindings c' = mc_bindings c" and "mc_alive c' = mc_alive c"
    and "pt_inputs (mc_ports c') = pt_inputs (mc_ports c)" and "pt_outputs (mc_ports c') = pt_outputs (mc_ports c)"
    and "pt_children (mc_ports c') = pt_children (mc_ports c)"
  shows "build_report c' = build_report c"
  unfolding build_report_def endpoint_namespace_def Let_def assms by (rule refl)

lemma covered_cong:
  assumes "mc_alive c' = mc_alive c" and "pt_inputs (mc_ports c') = pt_inputs (mc_ports c)"
    and "pt_outputs (mc_ports c') = pt_outputs (mc_ports c)" and "pt_children (mc_ports c') = pt_children (mc_ports c)"
  shows "covered b c' = covered b c"
  by (simp add: covered_def registry_live_def assms)

lemma registry_cong:
  assumes "pt_inputs p' = pt_inputs p" and "pt_outputs p' = pt_outputs p" and "pt_children p' = pt_children p"
  shows "registry_ok b p' = registry_ok b p"
  by (simp add: registry_ok_def assms)

lemma inv_same_registry:
  assumes "module_inv b (c, ls)" and "same_registry c c'"
  shows "module_inv b (c', ls)"
proof -
  have "build_report c' = build_report c" "covered b c' = covered b c"
    using assms(2) unfolding same_registry_def by (intro build_report_cong covered_cong; simp)+
  then show ?thesis
    using assms by (simp add: module_inv_def same_registry_def)
qed

section \<open>Opening a port\<close>

definition port_ok :: "ModuleBindings \<Rightarrow> bool \<Rightarrow> string \<Rightarrow> PortReport \<Rightarrow> bool" where
  "port_ok b input name p = (if input then input_port_ok b name p else output_port_ok b name p)"

text \<open>What opening a port under bindings \<open>b\<close> is: before any admission or readiness, a registration that
  implements a declared port comes with a new handle.\<close>

definition opened :: "ModuleBindings \<Rightarrow> ModuleContext \<Rightarrow> ManagedPort \<Rightarrow> ModuleContext \<Rightarrow> bool" where
  "opened b c h c' \<longleftrightarrow> \<not> pt_ready (mc_ports c) \<and> pt_admission (mc_ports c) = None \<and> mp_live h = mc_fresh c
     \<and> (\<exists>input name rg. rg_live rg = mc_fresh c \<and> port_ok b input name (rg_contract rg) \<and> c' = install_port input name rg c)"

locale port_operation =
  fixes operation :: "ModuleContext \<Rightarrow> AnyError + ManagedPort \<times> ModuleContext"
  assumes opens: "operation c = Inr (h, c') \<Longrightarrow> mc_bindings c = Some b \<Longrightarrow> bindings_ok b \<Longrightarrow> opened b c h c'"
begin

lemma keeps_inv:
  assumes "operation c = Inr (h, c')" and "bindings_ok b" and inv: "module_inv b (c, ls)"
  shows "module_inv b (c', ls)"
proof -
  have b: "mc_bindings c = Some b" and ok: "registry_ok b (mc_ports c)"
    using inv by (simp_all add: module_inv_def)
  from opens [OF assms(1) b assms(2)] obtain input name rg where
    idle: "\<not> pt_ready (mc_ports c)" "pt_admission (mc_ports c) = None"
    and rg: "rg_live rg = mc_fresh c" "port_ok b input name (rg_contract rg)" and c': "c' = install_port input name rg c"
    by (auto simp: opened_def)
  have "registry_ok b (mc_ports c')"
    using ok rg(2) by (auto simp: c' install_port_def Let_def registry_ok_def bt_get_insert port_ok_def split: if_splits)
  then show ?thesis
    using inv idle by (auto simp: module_inv_def c' install_port_def Let_def)
qed

end

lemma bt_get_in_set: "bt_get m k = Some v \<Longrightarrow> (k, v) \<in> set m"
  by (simp add: bt_get_def map_of_SomeD)

definition register_sound :: "PortKind \<Rightarrow> (EndpointContract \<Rightarrow> PortEndpoint \<Rightarrow> nat \<Rightarrow> AnyError + Registration) \<Rightarrow> bool" where
  "register_sound kind register \<longleftrightarrow> (\<forall>contract endpoint live rg. register contract endpoint live = Inr rg \<longrightarrow>
     rg_live rg = live \<and> pr_endpoint (rg_contract rg) = endpoint \<and> pr_contract (rg_contract rg) = contract
     \<and> pr_type_name (rg_contract rg) = ec_type_name contract
     \<and> map_option rr_type_name (pr_response (rg_contract rg)) = (case kind of Kind_Stream \<Rightarrow> None | Kind_Rpc \<Rightarrow> ec_response contract))"

lemma ensure_that_Inr [res_simps]: "ensure_that p m = Inr u \<longleftrightarrow> p"
  by (simp add: ensure_that_def)

lemma compiled_type_Inr: "compiled_type T declared = Inr r \<Longrightarrow> rr_type_name r = declared"
  by (auto simp: compiled_type_def res_simps)

lemma register_sounds:
  "register_sound Kind_Stream (Registration_of T)" "register_sound Kind_Rpc (Registration_rpc S R)"
  "register_sound Kind_Stream (\<lambda>contract. raw_registration contract type_name schema)"
  "register_sound Kind_Rpc (\<lambda>contract. rpc_registration contract request response)"
  by (auto simp: register_sound_def Registration_of_def Registration_rpc_def raw_registration_def rpc_registration_def res_simps
      dest: compiled_type_Inr)

text \<open>The declared contract and the endpoint of a port make a registration that implements it.\<close>

lemma registration_implements:
  assumes "bindings_ok b" and "mc_bindings c = Some b" and "named_contract c name input kind = Inr contract"
    and "port_endpoint c name input = Inr endpoint" and "pr_endpoint p = endpoint" and "pr_contract p = contract"
    and "pr_type_name p = ec_type_name contract"
    and "map_option rr_type_name (pr_response p) = (case kind of Kind_Stream \<Rightarrow> None | Kind_Rpc \<Rightarrow> ec_response contract)"
  shows "port_ok b input name p"
proof -
  have kind: "ec_kind contract = kind"
    and get: "if input then \<exists>ib. bt_get (mb_inputs b) name = Some ib \<and> contract = ib_contract ib
      else \<exists>ob. bt_get (mb_outputs b) name = Some ob \<and> contract = ob_contract ob"
    using assms(2,3) by (auto simp: named_contract_def res_simps split: if_splits)
  have "contract_ok input contract"
    using get assms(1) by (auto simp: bindings_ok_def input_ok_def output_ok_def dest!: bt_get_in_set split: if_splits)
  then have "map_option rr_type_name (pr_response p) = ec_response contract"
    using assms(8) kind by (auto simp: contract_ok_def split: PortKind.splits)
  then show ?thesis
    using get assms(2,4-7)
    by (auto simp: port_ok_def input_port_ok_def output_port_ok_def implements_def port_endpoint_def res_simps split: if_splits)
qed

lemma open_port_opens:
  assumes "register_sound kind register" and "open_port input kind register route built name c = Inr (h, c')"
    and "mc_bindings c = Some b" and "bindings_ok b"
  shows "opened b c h c'"
proof -
  from assms(2) obtain contract endpoint rg where n: "named_contract c name input kind = Inr contract"
    and l: "lock_ports c name input = Inr ()" and e: "port_endpoint c name input = Inr endpoint"
    and r: "register contract endpoint (mc_fresh c) = Inr rg"
    and h: "mp_live h = mc_fresh c" and c': "c' = install_port input name rg c"
    by (auto simp: open_port_def res_simps Let_def)
  have "port_ok b input name (rg_contract rg)"
    by (rule registration_implements [OF assms(4,3) n e]) (use assms(1) r in \<open>auto simp: register_sound_def\<close>)
  moreover have "rg_live rg = mc_fresh c"
    using assms(1) r by (auto simp: register_sound_def)
  ultimately show ?thesis
    using l h c' by (auto simp: opened_def lock_ports_def Let_def res_simps)
qed

interpretation inp: port_operation "port_input T built name" for T built name
  by unfold_locales (auto simp: port_input_def intro: open_port_opens [OF register_sounds(1)])

interpretation outp: port_operation "port_output T built name" for T built name
  by unfold_locales (auto simp: port_output_def intro: open_port_opens [OF register_sounds(1)])

interpretation client: port_operation "port_rpc_client S R name" for S R name
  by unfold_locales (auto simp: port_rpc_client_def intro: open_port_opens [OF register_sounds(2)])

interpretation server: port_operation "port_rpc_server S R built name" for S R built name
  by unfold_locales (auto simp: port_rpc_server_def intro: open_port_opens [OF register_sounds(2)])

interpretation raw_inp: port_operation "raw_input type_name schema built name" for type_name schema built name
  by unfold_locales (auto simp: raw_input_def intro: open_port_opens [OF register_sounds(3)])

interpretation raw_outp: port_operation "raw_output type_name schema built name" for type_name schema built name
  by unfold_locales (auto simp: raw_output_def intro: open_port_opens [OF register_sounds(3)])

interpretation raw_client: port_operation "raw_rpc_client request response name" for request response name
  by unfold_locales (auto simp: raw_rpc_client_def intro: open_port_opens [OF register_sounds(4)])

interpretation raw_server: port_operation "raw_rpc_server request response built name" for request response built name
  by unfold_locales (auto simp: raw_rpc_server_def intro: open_port_opens [OF register_sounds(4)])

lemma bridge_opens:
  assumes "bridge_rpc_port input schema response_schema name c = Inr (h, c')" and "mc_bindings c = Some b" and "bindings_ok b"
  shows "opened b c h c'"
proof -
  from assms(1) obtain contract endpoint response where n: "named_contract c name input Kind_Rpc = Inr contract"
    and l: "lock_ports c name input = Inr ()" and e: "port_endpoint c name input = Inr endpoint"
    and r: "ec_response contract = Some response" and h: "mp_live h = mc_fresh c"
    and c': "c' = install_port input name
         \<lparr>rg_contract = \<lparr>pr_endpoint = endpoint, pr_type_name = ec_type_name contract, pr_schema = schema,
            pr_contract = contract, pr_response = Some \<lparr>rr_type_name = response, rr_schema = response_schema\<rparr>\<rparr>,
          rg_transport_type = ec_type_name contract, rg_live = mc_fresh c\<rparr> c" (is "_ = install_port _ _ ?rg _")
    by (auto simp: bridge_rpc_port_def res_simps Let_def)
  have "port_ok b input name (rg_contract ?rg)"
    by (rule registration_implements [OF assms(3,2) n e]) (use r in simp_all)
  moreover have "\<not> pt_ready (mc_ports c)" "pt_admission (mc_ports c) = None"
    using l by (simp_all add: lock_ports_def Let_def res_simps)
  ultimately show ?thesis
    unfolding opened_def c' by (intro conjI exI [of _ input] exI [of _ name] exI [of _ ?rg]) (simp_all add: h)
qed

interpretation bridge: port_operation "bridge_rpc_port input schema response_schema name" for input schema response_schema name
  by unfold_locales (rule bridge_opens)

section \<open>The other steps keep the invariant\<close>

text \<open>Changes of the two flags of the registry.\<close>

lemma flags_reported:
  "build_report (c\<lparr>mc_ports := (mc_ports c)\<lparr>pt_admission := a, pt_ready := r\<rparr>, mc_fresh := f\<rparr>) = build_report c"
  "covered b (c\<lparr>mc_ports := (mc_ports c)\<lparr>pt_admission := a, pt_ready := r\<rparr>, mc_fresh := f\<rparr>) = covered b c"
  by (intro build_report_cong covered_cong; simp)+

lemma inv_set_flags:
  assumes "module_inv b (c, ls)" and "mc_fresh c \<le> f"
    and "\<And>g. a = Some g \<Longrightarrow> g < f \<and> mb_children b = [] \<and> covered b c"
    and "r \<Longrightarrow> covered b c"
    and "\<And>t. t \<in> lease_ticket ` set ls \<Longrightarrow> a = Some (pa_generation t) \<Longrightarrow> build_report c = Inr (pa_report t)"
  shows "module_inv b (c\<lparr>mc_ports := (mc_ports c)\<lparr>pt_admission := a, pt_ready := r\<rparr>, mc_fresh := f\<rparr>, ls)"
proof -
  have "registry_ok b ((mc_ports c)\<lparr>pt_admission := a, pt_ready := r\<rparr>) = registry_ok b (mc_ports c)"
    by (rule registry_cong) simp_all
  moreover have "\<And>t. t \<in> lease_ticket ` set ls \<Longrightarrow> pa_generation t < f"
    using assms(1,2) by (auto simp: module_inv_def dest: less_le_trans)
  ultimately show ?thesis
    using assms(1,3-) unfolding module_inv_def prod.case flags_reported by simp
qed

lemma inv_ready:
  assumes "module_inv b (c, ls)" and "covered b c"
  shows "module_inv b (set_ready c, ls)"
proof -
  have "set_ready c = c\<lparr>mc_ports := (mc_ports c)\<lparr>pt_admission := pt_admission (mc_ports c), pt_ready := True\<rparr>, mc_fresh := mc_fresh c\<rparr>"
    by (simp add: set_ready_def)
  then show ?thesis
    using assms(2) inv_set_flags [OF assms(1), of "mc_fresh c" "pt_admission (mc_ports c)" True] assms(1) by (auto simp: module_inv_def)
qed

lemma inv_cleared:
  assumes "module_inv b (c, ls)"
  shows "module_inv b (c\<lparr>mc_ports := (mc_ports c)\<lparr>pt_admission := None, pt_ready := False\<rparr>\<rparr>, ls)"
  using inv_set_flags [OF assms, of "mc_fresh c" None False] by simp

lemma inv_withdraw: "module_inv b (c, ls) \<Longrightarrow> module_inv b (withdraw c, ls)"
  using inv_set_flags [of b c ls "mc_fresh c" "pt_admission (mc_ports c)" False]
  by (auto simp: withdraw_def module_inv_def)

lemma inv_admission_drop: "module_inv b (c, ls) \<Longrightarrow> module_inv b (admission_drop t c, ls)"
  using inv_cleared by (simp add: admission_drop_def)

lemma inv_fewer: "module_inv b (c, ls @ l # ls') \<Longrightarrow> module_inv b (c, ls @ ls')"
  by (auto simp: module_inv_def generations_def)

lemma inv_leases:
  assumes "module_inv b (c, ls)" and "map lease_ticket ls' = map lease_ticket ls"
  shows "module_inv b (c, ls')"
proof -
  have eqs: "generations ls' = generations ls" "lease_ticket ` set ls' = lease_ticket ` set ls"
    using assms(2) by (simp_all add: generations_def flip: map_map set_map)
  show ?thesis
    using assms(1) unfolding module_inv_def prod.case eqs .
qed

lemma inv_dropped:
  assumes "module_inv b (c, ls)"
  shows "module_inv b (port_drop live c, ls)"
proof -
  let ?c = "c\<lparr>mc_alive := removeAll live (mc_alive c), mc_ports := (mc_ports c)\<lparr>pt_admission := None, pt_ready := False\<rparr>\<rparr>"
  have "registry_ok b (mc_ports ?c) = registry_ok b (mc_ports c)"
    by (rule registry_cong) simp_all
  then have "module_inv b (?c, ls)"
    using assms by (simp add: module_inv_def)
  moreover have "same_registry ?c (port_drop live c)"
    by (simp add: port_drop_def Let_def same_registry_refl)
  ultimately show ?thesis
    by (rule inv_same_registry)
qed

lemma inv_prepared:
  assumes "module_inv b (c, ls)" and "bindings_wf b" and "prepare_admission c = Inr (t, c')"
  shows "module_inv b (c', Lease_Prepared t # ls)"
proof -
  from assms(3) obtain b' report where b': "mc_bindings c = Some b'" "mb_children b' = []"
    and idle: "\<not> pt_ready (mc_ports c)" "pt_admission (mc_ports c) = None" and report: "build_report c = Inr report"
    and t: "t = \<lparr>pa_ports = mc_key c, pa_generation = mc_fresh c, pa_report = report\<rparr>"
    and c': "c' = c\<lparr>mc_ports := (mc_ports c)\<lparr>pt_admission := Some (mc_fresh c), pt_ready := False\<rparr>, mc_fresh := Suc (mc_fresh c)\<rparr>"
    by (auto simp: prepare_admission_def Let_def res_simps split: if_splits)
  have b: "b' = b" and ok: "registry_ok b (mc_ports c)"
    and old: "\<And>t. t \<in> lease_ticket ` set ls \<Longrightarrow> pa_generation t < mc_fresh c" and d: "distinct (generations ls)"
    using assms(1) b' by (auto simp: module_inv_def)
  have "covered b c"
    using build_report_covered [OF ok _ assms(2)] report b'(1) b by blast
  moreover have "t \<in> lease_ticket ` set ls \<Longrightarrow> pa_generation t \<noteq> mc_fresh c" for t
    using old by (metis less_irrefl)
  ultimately have "module_inv b (c', ls)"
    unfolding c' using b' b by (intro inv_set_flags [OF assms(1)]) auto
  moreover have "build_report c' = Inr report"
    unfolding c' flags_reported by (rule report)
  moreover have "mc_fresh c \<notin> set (generations ls)"
    using old by (force simp: generations_def)
  ultimately show ?thesis
    using d by (auto simp: module_inv_def t generations_def c')
qed

lemma commit_cases:
  assumes "commit_admission alive t c = (res, c')"
  obtains (refused) e where "res = Inl e" "c' = admission_drop t c"
    | (ready) "res = Inr t" "c' = set_ready c" "pt_admission (mc_ports c) = Some (pa_generation t)" "\<not> is_triggered c"
        "build_report c = Inr (pa_report t)" "alive = Inr ()"
  using assms by (auto simp: commit_admission_def commit_check_def res_simps split: sum.splits if_splits)

section \<open>Children\<close>

text \<open>A child's state may change in a way that keeps the readiness of its host only if it keeps a
  checked report.\<close>

lemma inv_set_child:
  assumes "module_inv b (c, ls)" and "child_ok b name child" and "pt_ready (mc_ports c) \<Longrightarrow> ch_report child \<noteq> None"
  shows "module_inv b (set_child name child c, ls)"
proof -
  let ?c = "set_child name child c"
  have reg: "registry_ok b (mc_ports c)"
    using assms(1) by (simp add: module_inv_def)
  then have "registry_ok b (mc_ports ?c)"
    using assms(2) by (auto simp: set_child_def registry_ok_def bt_get_insert)
  moreover have "covered b c \<Longrightarrow> covered b ?c" if "ch_report child \<noteq> None"
    using that reg by (auto simp: covered_def registry_live_def set_child_def registry_ok_def bt_get_insert)
  moreover have "pt_admission (mc_ports c) = None"
  proof (cases "pt_admission (mc_ports c)")
    case (Some g)
    then show ?thesis
      using assms(1,2) by (simp add: module_inv_def child_ok_def bt_contains_def)
  qed
  ultimately show ?thesis
    using assms(1,3) by (auto simp: module_inv_def set_child_def)
qed

lemma inv_lost_child:
  assumes "module_inv b (c, ls)" and "child_ok b name child"
  shows "module_inv b (trigger (withdraw (set_child name child c)), ls)"
proof -
  have "withdraw (set_child name child c) = set_child name child (withdraw c)"
    by (simp add: withdraw_def set_child_def)
  moreover have "module_inv b (set_child name child (withdraw c), ls)"
    by (rule inv_set_child [OF inv_withdraw [OF assms(1)] assms(2)]) (simp add: withdraw_def)
  ultimately show ?thesis
    using inv_same_registry by simp
qed

lemma inv_child:
  assumes "module_inv b (c, ls)" and "bt_get (pt_children (mc_ports c)) name = Some child"
  shows "child_ok b name child" and "pt_ready (mc_ports c) \<Longrightarrow> ch_report child \<noteq> None"
proof -
  show ok: "child_ok b name child"
    using assms by (simp add: module_inv_def registry_ok_def)
  assume "pt_ready (mc_ports c)"
  then have "covered b c"
    using assms(1) by (simp add: module_inv_def)
  then show "ch_report child \<noteq> None"
    using ok assms(2) by (auto simp: covered_def child_ok_def)
qed

lemma inv_presence:
  assumes "module_inv b (c, ls)"
  shows "module_inv b (child_presence name is_ready c, ls)"
proof (cases "bt_get (pt_children (mc_ports c)) name")
  case (Some child)
  note child = inv_child [OF assms Some]
  have "child_ok b name (child\<lparr>ch_ready := is_ready \<and> \<not> ch_exited child\<rparr>)" if "\<not> (ch_ready child \<and> \<not> is_ready)"
    using that child(1) by (auto simp: child_ok_def)
  then have "module_inv b (set_child name (child\<lparr>ch_ready := is_ready \<and> \<not> ch_exited child\<rparr>) c, ls)" if "\<not> (ch_ready child \<and> \<not> is_ready)"
    by (rule inv_set_child [OF assms]) (use that child(2) in auto)
  moreover have "child_ok b name (child\<lparr>ch_ready := r, ch_report := None\<rparr>)" for r
    using child(1) by (simp add: child_ok_def)
  ultimately show ?thesis
    using inv_lost_child [OF assms] by (auto simp: child_presence_def Some Let_def)
qed (simp add: child_presence_def assms)

lemma inv_exit:
  assumes "module_inv b (c, ls)"
  shows "module_inv b (child_exit name c, ls)"
proof (cases "bt_get (pt_children (mc_ports c)) name")
  case None
  then show ?thesis
    using inv_same_registry [OF inv_withdraw [OF assms]] by (simp add: child_exit_def)
next
  case (Some child)
  have "child_ok b name (child\<lparr>ch_exited := True, ch_ready := False, ch_report := None\<rparr>)"
    using inv_child(1) [OF assms Some] by (simp add: child_ok_def)
  then show ?thesis
    using inv_lost_child [OF assms] by (simp add: child_exit_def Some)
qed

lemma inv_spawned:
  assumes "module_inv b (c, ls)" and "spawn_child spawned name c = Inr (cb, c')"
  shows "module_inv b (c', ls)"
proof -
  let ?child = "\<lparr>ch_ready = False, ch_exited = False, ch_report = None\<rparr>"
  from assms have "delegated_bindings b name = Inr cb" and c': "c' = set_child name ?child c" and "\<not> pt_ready (mc_ports c)"
    by (auto simp: spawn_child_def module_inv_def Let_def res_simps set_child_def)
  moreover from this(1) have "child_ok b name ?child"
    by (auto simp: child_ok_def bt_contains_def elim!: delegated_bindings_Inr)
  ultimately show ?thesis
    using inv_set_child [OF assms(1)] by simp
qed

lemma inv_adopted:
  assumes "module_inv b (c, ls)" and "delegated_bindings b name = Inr cb" and "report_wf r" and "child_adopt name cb r c = Inr c'"
  shows "module_inv b (c', ls)"
proof -
  from assms(4) obtain child where child: "bt_get (pt_children (mc_ports c)) name = Some child" "ch_ready child" "\<not> ch_exited child"
    and ok: "report_ok cb r" and c': "c' = set_child name (child\<lparr>ch_report := Some r\<rparr>) c"
    by (auto simp: child_adopt_def res_simps validate_report_Inr)
  have "child_ok b name (child\<lparr>ch_report := Some r\<rparr>)"
    using inv_child(1) [OF assms(1) child(1)] child ok assms(2,3) by (auto simp: child_ok_def)
  then show ?thesis
    unfolding c' by (rule inv_set_child [OF assms(1)]) simp
qed

section \<open>Every step keeps the invariant\<close>

lemmas opened_keeps_inv = inp.keeps_inv outp.keeps_inv client.keeps_inv server.keeps_inv raw_inp.keeps_inv raw_outp.keeps_inv
  raw_client.keeps_inv raw_server.keeps_inv bridge.keeps_inv

lemma inv_module_ready:
  assumes "module_inv b (c, ls)" and "bindings_wf b" and "module_ready written alive c = Inr c'"
  shows "module_inv b (c', ls)"
proof (cases "pt_ready (mc_ports c)")
  case True
  then show ?thesis
    using assms by (auto simp: module_ready_def res_simps)
next
  case False
  then obtain r where r: "build_report c = Inr r" and c': "c' = set_ready c"
    using assms(3) by (auto simp: module_ready_def res_simps)
  have "covered b c"
    using assms(1) r build_report_covered [OF _ _ assms(2)] by (auto simp: module_inv_def)
  then show ?thesis
    unfolding c' by (rule inv_ready [OF assms(1)])
qed

lemma inv_commit_ready:
  assumes "module_inv b (c, ls @ Lease_Prepared t # ls')" and "bindings_wf b" and "commit_admission alive t c = (Inr t', c')"
  shows "module_inv b (c', ls @ Lease_Ready t' # ls')"
  using assms(3)
proof (cases rule: commit_cases)
  case ready
  have "covered b c"
    using assms(1) ready(5) build_report_covered [OF _ _ assms(2)] by (auto simp: module_inv_def)
  then have "module_inv b (c', ls @ Lease_Prepared t # ls')"
    unfolding ready(2) by (rule inv_ready [OF assms(1)])
  then show ?thesis
    by (rule inv_leases) (use ready(1) in simp)
qed simp

lemma module_step_inv:
  assumes "module_step s s'" and "module_inv b s" and "bindings_ok b" and "bindings_wf b"
  shows "module_inv b s'"
  using assms
proof (induction rule: module_step.induct)
  case (Dropped live c ls)
  then show ?case
    by (simp add: inv_dropped)
next
  case (Ready written alive c c' ls)
  then show ?case
    by (blast intro: inv_module_ready)
next
  case (Prepared c t c' ls)
  then show ?case
    by (blast intro: inv_prepared)
next
  case (Committed alive t c t' c' ls ls')
  then show ?case
    by (blast intro: inv_commit_ready)
next
  case (Refused alive t c e c' ls ls')
  then show ?case
    using inv_admission_drop [OF inv_fewer] by (auto elim!: commit_cases)
next
  case (Released c ls l ls')
  then show ?case
    using inv_admission_drop [OF inv_fewer] by blast
next
  case (Spawned spawned name c cb c' ls)
  then show ?case
    by (blast intro: inv_spawned)
next
  case (Adopted c b' name cb r c' ls)
  then have "b' = b"
    by (simp add: module_inv_def)
  then show ?case
    using Adopted by (blast intro: inv_adopted)
qed (auto intro: inv_presence inv_exit inv_same_registry opened_keeps_inv)


text \<open>The states of a module opened under bindings \<open>b\<close>, hosted or in a process of its own.\<close>

inductive module_reach :: "ModuleBindings \<Rightarrow> ModuleContext \<times> Lease list \<Rightarrow> bool" for b where
  Hosted: "open_hosted key g caps created responder domain b = Inr c \<Longrightarrow> module_reach b (c, [])"
| Process: "open_module key g caps created responder ident domain b = Inr c \<Longrightarrow> module_reach b (c, [])"
| Step: "module_reach b s \<Longrightarrow> module_step s s' \<Longrightarrow> module_reach b s'"

lemma inv_opened:
  assumes "mc_bindings c = Some b" and "mc_id c = mb_namespace b" and "mc_ports c = Ports_default"
  shows "module_inv b (c, [])"
  using assms by (simp add: module_inv_def registry_ok_def Ports_default_def generations_def)

lemma reach_bindings_ok: "module_reach b s \<Longrightarrow> bindings_ok b"
  by (induction rule: module_reach.induct)
    (auto simp: open_hosted_def open_module_def config_validate_bindings_def res_simps split: if_splits)

lemma module_reach_inv: "module_reach b s \<Longrightarrow> bindings_wf b \<Longrightarrow> module_inv b s"
proof (induction rule: module_reach.induct)
  case (Hosted key g caps created responder domain c)
  then show ?case
    by (intro inv_opened) (auto simp: open_hosted_def ModuleContext_new_def Let_def res_simps split: if_splits)
next
  case (Process key g caps created responder ident domain c)
  then show ?case
    by (intro inv_opened)
      (auto simp: open_module_def config_validate_bindings_def ModuleContext_new_def Let_def res_simps split: if_splits)
next
  case (Step s s')
  then show ?case
    using module_step_inv reach_bindings_ok by blast
qed

section \<open>What is never taken back\<close>

text \<open>A module that is shutting down and neither admitted nor ready stays so, and the hosted event that it
  retains stays.\<close>

definition settled :: "HostedEvent option option \<Rightarrow> ModuleContext \<Rightarrow> bool" where
  "settled h c \<longleftrightarrow> is_triggered c \<and> \<not> pt_ready (mc_ports c) \<and> pt_admission (mc_ports c) = None
     \<and> sd_hosted (mc_shutdown c) = h \<and> h \<noteq> Some None"

lemma settled_signals [simp]:
  "settled h c \<Longrightarrow> settled h (raise_flag c)" "settled h c \<Longrightarrow> settled h (hosted_event e c)"
  "settled h c \<Longrightarrow> settled h (attach_step_gate c)" "settled h c \<Longrightarrow> settled h (trigger c)"
  "settled h c \<Longrightarrow> settled h (withdraw c)" "settled h c \<Longrightarrow> settled h (set_child name child c)"
  "settled h c \<Longrightarrow> settled h (admission_drop t c)"
  by (auto simp: settled_def is_triggered_def raise_flag_def hosted_event_def attach_step_gate_def trigger_def Let_def withdraw_def
      set_child_def admission_drop_def split: option.splits)



lemma settled_gate [simp]: "settled h c \<Longrightarrow> settled h (c\<lparr>mc_gate := gt\<rparr>)"
  by (simp add: settled_def is_triggered_def)




section \<open>An example\<close>

text \<open>The viewer of the example graph, hosted: it opens its two ports and prepares its admission.\<close>

definition ex_gate0 :: Gate where
  "ex_gate0 = gate_new \<lparr>cs_epoch = 1, cs_next_index = 0, cs_time = \<lparr>dur_secs = 0, dur_nanos = 0\<rparr>, cs_phase = Phase_Starting\<rparr>"

definition ex_caps :: Caps where
  "ex_caps = \<lparr>caps_query = True, caps_liveliness = True, caps_attachment = True\<rparr>"

definition ex_type :: "string \<Rightarrow> u64 \<Rightarrow> ModuleMessage" where
  "ex_type name schema = \<lparr>mt_TYPE_NAME = name, mt_SCHEMA_FINGERPRINT = schema\<rparr>"

definition ex_hosted :: ModuleContext where
  "ex_hosted = projr (open_hosted 0 ex_gate0 ex_caps (Inr ()) (Inr ()) ''lab'' ex_viewer)"

definition ex_live :: ModuleContext where
  "ex_live = snd (projr (port_input (ex_type ''cam.Frame'' 7) (Inr ()) ''live'' ex_hosted))"

definition ex_both :: ModuleContext where
  "ex_both = snd (projr (port_rpc_client (ex_type ''cam.Zoom'' 7) (ex_type ''cam.Done'' 9) ''zoom'' ex_live))"

definition ex_ticket :: PreparedAdmission where
  "ex_ticket = fst (projr (prepare_admission ex_both))"

definition ex_admitted :: ModuleContext where
  "ex_admitted = snd (projr (prepare_admission ex_both))"

text \<open>One evaluation of the example.\<close>

definition ok_and :: "'e + 'a \<Rightarrow> ('a \<Rightarrow> bool) \<Rightarrow> bool" where
  "ok_and r P = (case r of Inl _ \<Rightarrow> False | Inr x \<Rightarrow> P x)"

lemma ok_and_iff: "ok_and r P \<longleftrightarrow> (\<exists>x. r = Inr x \<and> P x)"
  by (cases r) (simp_all add: ok_and_def)

lemma ex_module_facts:
  "bindings_wf ex_viewer
   \<and> ok_and (open_hosted 0 ex_gate0 ex_caps (Inr ()) (Inr ()) ''lab'' ex_viewer) (\<lambda>c0.
     ok_and (port_input (ex_type ''cam.Frame'' 7) (Inr ()) ''live'' c0) (\<lambda>(h1, c1).
     ok_and (port_rpc_client (ex_type ''cam.Zoom'' 7) (ex_type ''cam.Done'' 9) ''zoom'' c1) (\<lambda>(h2, c2).
     ok_and (prepare_admission c2) (\<lambda>(t, c3).
       build_report c2 = Inr (pa_report t) \<and> commit_admission (Inr ()) t c3 = (Inr t, set_ready c3)
       \<and> pt_admission (mc_ports c3) = Some (pa_generation t) \<and> \<not> is_triggered c3 \<and> sd_hosted (mc_shutdown c3) = Some None
       \<and> 0 \<in> set (mc_alive c3)))))"
  by code_simp

lemma ex_viewer_wf: "bindings_wf ex_viewer"
  using ex_module_facts by blast

lemma ex_steps:
  "open_hosted 0 ex_gate0 ex_caps (Inr ()) (Inr ()) ''lab'' ex_viewer = Inr ex_hosted"
  "\<exists>h. port_input (ex_type ''cam.Frame'' 7) (Inr ()) ''live'' ex_hosted = Inr (h, ex_live)"
  "\<exists>h. port_rpc_client (ex_type ''cam.Zoom'' 7) (ex_type ''cam.Done'' 9) ''zoom'' ex_live = Inr (h, ex_both)"
  "prepare_admission ex_both = Inr (ex_ticket, ex_admitted)"
proof -
  obtain c0 h1 c1 h2 c2 t c3 where run: "open_hosted 0 ex_gate0 ex_caps (Inr ()) (Inr ()) ''lab'' ex_viewer = Inr c0"
      "port_input (ex_type ''cam.Frame'' 7) (Inr ()) ''live'' c0 = Inr (h1, c1)"
      "port_rpc_client (ex_type ''cam.Zoom'' 7) (ex_type ''cam.Done'' 9) ''zoom'' c1 = Inr (h2, c2)" "prepare_admission c2 = Inr (t, c3)"
    using ex_module_facts unfolding ok_and_iff by (auto simp: split_beta)
  have hosted: "ex_hosted = c0"
    by (simp add: ex_hosted_def run(1))
  have live: "ex_live = c1"
    by (simp add: ex_live_def hosted run(2))
  have both: "ex_both = c2"
    by (simp add: ex_both_def live run(3))
  have admitted: "ex_ticket = t" "ex_admitted = c3"
    by (simp_all add: ex_ticket_def ex_admitted_def both run(4))
  show "open_hosted 0 ex_gate0 ex_caps (Inr ()) (Inr ()) ''lab'' ex_viewer = Inr ex_hosted"
    "\<exists>h. port_input (ex_type ''cam.Frame'' 7) (Inr ()) ''live'' ex_hosted = Inr (h, ex_live)"
    "\<exists>h. port_rpc_client (ex_type ''cam.Zoom'' 7) (ex_type ''cam.Done'' 9) ''zoom'' ex_live = Inr (h, ex_both)"
    "prepare_admission ex_both = Inr (ex_ticket, ex_admitted)"
    using run by (simp_all add: hosted live both admitted)
qed

lemma ex_admitted_state:
  "build_report ex_both = Inr (pa_report ex_ticket)"
  "commit_admission (Inr ()) ex_ticket ex_admitted = (Inr ex_ticket, set_ready ex_admitted)"
  "pt_admission (mc_ports ex_admitted) = Some (pa_generation ex_ticket)" "\<not> is_triggered ex_admitted"
  "sd_hosted (mc_shutdown ex_admitted) = Some None" "0 \<in> set (mc_alive ex_admitted)"
  using ex_module_facts ex_steps unfolding ok_and_iff by (auto simp: split_beta)

lemma ex_both_reach: "module_reach ex_viewer (ex_both, [])"
  using ex_steps by (blast intro: module_reach.intros module_step.intros)

lemma ex_admitted_reach: "module_reach ex_viewer (ex_admitted, [Lease_Prepared ex_ticket])"
  by (rule module_reach.Step [OF ex_both_reach module_step.Prepared [OF ex_steps(4)]])

lemma ex_ready_reach: "module_reach ex_viewer (set_ready ex_admitted, [Lease_Ready ex_ticket])"
proof -
  have "module_step (ex_admitted, [] @ Lease_Prepared ex_ticket # []) (set_ready ex_admitted, [] @ Lease_Ready ex_ticket # [])"
    by (rule module_step.Committed [OF ex_admitted_state(2)])
  then show ?thesis
    using module_reach.Step [OF ex_admitted_reach] by simp
qed

section \<open>Properties\<close>

text \<open>C36. Whatever a module has opened, dropped, delegated and been told, and however it was opened, a report
  that it can build passes the validator for its bindings.\<close>

theorem report_always_valid:
  assumes "module_reach b (c, ls)" and "bindings_wf b" and "build_report c = Inr r"
  shows "validate_report b r = Inr ()"
  using module_reach_inv [OF assms(1,2)] reach_bindings_ok [OF assms(1)] build_report_valid [OF _ _ assms(2) _ _ assms(3)]
  by (simp add: module_inv_def validate_report_Inr)

theorem report_always_valid_witness:
  "module_reach ex_viewer (ex_both, []) \<and> bindings_wf ex_viewer \<and> build_report ex_both = Inr (pa_report ex_ticket)
     \<and> validate_report ex_viewer (pa_report ex_ticket) = Inr ()"
  using report_always_valid [OF ex_both_reach ex_viewer_wf ex_admitted_state(1)] ex_both_reach ex_viewer_wf ex_admitted_state(1) by blast

text \<open>C37. While a module announces readiness, every port it declares is open in this process with its
  handle alive or delegated to an owned child whose report was checked and who is live, so its report
  can still be built; the same holds while an admission is prepared.\<close>

theorem ready_means_covered:
  assumes "module_reach b (c, ls)" and "bindings_wf b" and "pt_ready (mc_ports c) \<or> pt_admission (mc_ports c) \<noteq> None"
  shows "covered b c \<and> (\<exists>r. build_report c = Inr r)"
proof -
  have inv: "module_inv b (c, ls)"
    by (rule module_reach_inv [OF assms(1,2)])
  then have "covered b c"
    using assms(3) by (auto simp: module_inv_def)
  then show ?thesis
    using inv build_report_covered [OF _ _ assms(2)] by (auto simp: module_inv_def)
qed

theorem ready_means_covered_witness:
  "module_reach ex_viewer (set_ready ex_admitted, [Lease_Ready ex_ticket]) \<and> pt_ready (mc_ports (set_ready ex_admitted))
     \<and> covered ex_viewer (set_ready ex_admitted)"
  using ready_means_covered [OF ex_ready_reach ex_viewer_wf] ex_ready_reach by (simp add: set_ready_def)

text \<open>C38. Committing a ticket that the module issued is decided by three things in this order: the ticket is
  still the current admission, the module is not shutting down, the engine announces the readiness.
  The second look at the report never refuses a current ticket.\<close>

theorem commit_exact:
  assumes "module_reach b (c, ls)" and "bindings_wf b" and "Lease_Prepared t \<in> set ls"
  shows "commit_admission alive t c =
    (if pt_admission (mc_ports c) \<noteq> Some (pa_generation t) then (Inl Admission_StaleTicket, c)
     else if is_triggered c then (Inl Admission_ShuttingDown, admission_drop t c)
     else case alive of Inl e \<Rightarrow> (Inl (Admission_Transport e), admission_drop t c) | Inr _ \<Rightarrow> (Inr t, set_ready c))"
proof -
  have "t \<in> lease_ticket ` set ls"
    using assms(3) by force
  then have "pa_ports t = mc_key c" "pt_admission (mc_ports c) = Some (pa_generation t) \<Longrightarrow> build_report c = Inr (pa_report t)"
    using module_reach_inv [OF assms(1,2)] by (auto simp: module_inv_def)
  then show ?thesis
    by (simp add: commit_admission_def commit_check_def admission_drop_def split: sum.splits)
qed

theorem commit_exact_witness:
  "module_reach ex_viewer (ex_admitted, [Lease_Prepared ex_ticket])
     \<and> commit_admission (Inl ''no route'') ex_ticket ex_admitted = (Inl (Admission_Transport ''no route''), admission_drop ex_ticket ex_admitted)
     \<and> commit_admission (Inr ()) ex_ticket ex_admitted = (Inr ex_ticket, set_ready ex_admitted)"
  using commit_exact [OF ex_admitted_reach ex_viewer_wf, of ex_ticket] ex_admitted_reach ex_admitted_state(3,4) by simp



end
