(* ===== verification/Host_Status.thy ===== *)
theory Host_Status
  imports Managed
begin

text \<open>
  The data of a component host and its pure operations
  (\<^verbatim>\<open>crates/reiny/src/component/{mod,host,options,status,staged,handle}.rs\<close>): error codes, phases,
  statuses and outcomes, the registry of factories, the static validation of a launch, the guarded
  update of a status, and the validation that the controller of a local group performs.
\<close>

section \<open>Errors, phases and outcomes\<close>

datatype HostErrorCode =
    Host_DuplicateFactory | Host_EmptyGraph | Host_DuplicateInstance | Host_UnknownFactory | Host_InvalidBindings
  | Host_InvalidOptions | Host_NoRuntime | Host_ContextOpen | Host_Factory | Host_Prepare | Host_Admission | Host_Graph
  | Host_Activate | Host_Run | Host_Step | Host_UnexpectedExit | Host_Panic | Host_ReadinessLost | Host_StopHook
  | Host_Timeout | Host_Cancelled

record HostError =
  he_code :: HostErrorCode
  he_instance :: "string option"
  he_message :: string
  he_report :: "ReportError option"

definition HostError_new :: "HostErrorCode \<Rightarrow> string option \<Rightarrow> string \<Rightarrow> HostError" where
  "HostError_new code inst message = \<lparr>he_code = code, he_instance = inst, he_message = message, he_report = None\<rparr>"

datatype HostPhase =
    HostPhase_Starting | HostPhase_Prepared | HostPhase_Committed | HostPhase_Running | HostPhase_Stopping
  | HostPhase_Stopped | HostPhase_Failed | HostPhase_Unresponsive

datatype ComponentPhase =
    Component_Starting | Component_Preparing | Component_Prepared | Component_Ready | Component_Running
  | Component_Stopping | Component_Stopped | Component_Failed | Component_Unresponsive

record ComponentStatus =
  cst_phase :: ComponentPhase
  cst_error :: "HostError option"

record HostStatus =
  hst_phase :: HostPhase
  hst_components :: "(string, ComponentStatus) btree"

datatype HostOutcome =
    Outcome_Stopped
  | Outcome_Failed HostError "HostError list"
  | Outcome_Unresponsive "HostError option" "HostError list" "string list"

datatype StopReason = Reason_Requested | Reason_StartupFailure | Reason_ComponentFailure

datatype Command = Command_Prepare | Command_Run | Command_Stop StopReason

datatype Stage = Stage_Commit | Stage_Activate

text \<open>The reply channel of a request is a number.\<close>

datatype Request = Request_Advance Stage nat | Request_Abort HostError

text \<open>\<open>Opened\<close> carries the context, which the model names by the index of the task that owns it.\<close>

datatype GroupEvent = Event_Opened string nat | Event_Prepared string PreparedAdmission | Event_Failure HostError | Event_StopRequested

section \<open>Statuses\<close>

definition final_phase :: "HostPhase \<Rightarrow> bool" where
  "final_phase p = (case p of
     HostPhase_Stopped \<Rightarrow> True | HostPhase_Failed \<Rightarrow> True | HostPhase_Unresponsive \<Rightarrow> True
   | HostPhase_Starting \<Rightarrow> False | HostPhase_Prepared \<Rightarrow> False | HostPhase_Committed \<Rightarrow> False | HostPhase_Running \<Rightarrow> False
   | HostPhase_Stopping \<Rightarrow> False)"

definition set_phase :: "HostPhase \<Rightarrow> HostStatus \<Rightarrow> HostStatus" where
  "set_phase p st = st\<lparr>hst_phase := p\<rparr>"

definition status_phase :: "string \<Rightarrow> ComponentPhase \<Rightarrow> HostStatus \<Rightarrow> HostStatus" where
  "status_phase ident p st =
     (if final_phase (hst_phase st) then st
      else case bt_get (hst_components st) ident of
        None \<Rightarrow> st
      | Some component \<Rightarrow>
          if cst_phase component \<noteq> Component_Unresponsive
          then st\<lparr>hst_components := bt_insert ident (component\<lparr>cst_phase := p\<rparr>) (hst_components st)\<rparr> else st)"

text \<open>\<open>Coordinator::record\<close>: the component of the error fails; its first error stays.\<close>

definition record_error :: "HostError \<Rightarrow> HostStatus \<Rightarrow> HostStatus" where
  "record_error e st = (case he_instance e of None \<Rightarrow> st
   | Some ident \<Rightarrow> (case bt_get (hst_components st) ident of None \<Rightarrow> st
     | Some component \<Rightarrow> st\<lparr>hst_components := bt_insert ident
         \<lparr>cst_phase = Component_Failed,
          cst_error = (case cst_error component of None \<Rightarrow> Some e | Some first \<Rightarrow> Some first)\<rparr> (hst_components st)\<rparr>))"

text \<open>What a joined task leaves behind in the status of its component.\<close>

definition joined_phase :: "string \<Rightarrow> HostStatus \<Rightarrow> HostStatus" where
  "joined_phase ident st = (case bt_get (hst_components st) ident of None \<Rightarrow> st
     | Some component \<Rightarrow> st\<lparr>hst_components := bt_insert ident (component\<lparr>cst_phase :=
         if cst_error component \<noteq> None then Component_Failed else Component_Stopped\<rparr>) (hst_components st)\<rparr>)"

definition outcome_phase :: "HostOutcome \<Rightarrow> HostPhase" where
  "outcome_phase outcome = (case outcome of
     Outcome_Stopped \<Rightarrow> HostPhase_Stopped | Outcome_Failed _ _ \<Rightarrow> HostPhase_Failed
   | Outcome_Unresponsive _ _ _ \<Rightarrow> HostPhase_Unresponsive)"

section \<open>The registry and the static validation\<close>

text \<open>Factories are objects the registry keeps under their identifiers; only the identifiers matter to
  the launch.\<close>

record ComponentRegistry =
  cr_factories :: "string list"
  cr_step_factories :: "string list"

definition register :: "string \<Rightarrow> ComponentRegistry \<Rightarrow> HostError + ComponentRegistry" where
  "register factory_id r =
     (if factory_id \<in> set (cr_step_factories r) then
        Inl (HostError_new Host_DuplicateFactory None ''factory is already registered'')
      else if factory_id \<in> set (cr_factories r) then
        Inl (HostError_new Host_DuplicateFactory None (''factory '' @ quote factory_id @ '' is already registered''))
      else Inr (r\<lparr>cr_factories := factory_id # cr_factories r\<rparr>))"

definition register_step_factory :: "string \<Rightarrow> ComponentRegistry \<Rightarrow> HostError + ComponentRegistry" where
  "register_step_factory factory_id r =
     (if factory_id \<in> set (cr_factories r) \<or> factory_id \<in> set (cr_step_factories r) then
        Inl (HostError_new Host_DuplicateFactory None ''factory is already registered'')
      else Inr (r\<lparr>cr_step_factories := factory_id # cr_step_factories r\<rparr>))"

record ComponentInstanceSpec =
  ins_factory_id :: string
  ins_bindings :: ModuleBindings
  ins_config_origin :: "string option"

record HostConfiguration =
  hc_domain :: string
  hc_startup_timeout :: "Duration option"
  hc_stop_timeout :: "Duration option"

text \<open>An absolute path, on a Unix system.\<close>

definition is_absolute :: "string \<Rightarrow> bool" where
  "is_absolute path \<longleftrightarrow> (case path of c # _ \<Rightarrow> c = CHR ''/'' | [] \<Rightarrow> False)"

definition validate_instance :: "ComponentRegistry \<Rightarrow> ComponentInstanceSpec \<Rightarrow> string list \<Rightarrow> HostError + string list" where
  "validate_instance r inst ids = (let b = ins_bindings inst; ident = mb_namespace b in
     if is_some_and (\<lambda>path. \<not> is_absolute path) (ins_config_origin inst) then
       Inl (HostError_new Host_InvalidOptions (Some ident) ''config origin must be absolute'')
     else if ident \<in> set ids then Inl (HostError_new Host_DuplicateInstance (Some ident) ''duplicate namespace'')
     else if ins_factory_id inst \<notin> set (cr_factories r) then
       Inl (HostError_new Host_UnknownFactory (Some ident) (ins_factory_id inst))
     else and_then (map_err (\<lambda>e. HostError_new Host_InvalidBindings (Some ident) (binding_message e)) (ModuleBindings_validate b))
       (if mb_namespace b \<noteq> mb_endpoint_namespace b \<or> mb_children b \<noteq> [] \<or> mb_executables b \<noteq> [] then
          Inl (HostError_new Host_InvalidBindings (Some ident)
            ''hosted instances must be top-level modules without children or executables'')
        else Inr (ident # ids)))"

text \<open>\<open>imax\<close> is the largest representable instant, \<open>now\<close> the present one.\<close>

definition host_validate ::
  "nat \<Rightarrow> nat \<Rightarrow> ComponentRegistry \<Rightarrow> HostConfiguration \<Rightarrow> ComponentInstanceSpec list \<Rightarrow> HostError + unit" where
  "host_validate imax now r options instances =
     (if instances = [] then Inl (HostError_new Host_EmptyGraph None ''empty component graph'')
      else and_then (map_err (HostError_new Host_InvalidOptions None) (validate_segment ''domain'' (hc_domain options)))
     (if list_ex (\<lambda>timeout. timeout \<noteq> None \<and> checked_after imax now timeout = None)
           [hc_startup_timeout options, hc_stop_timeout options]
      then Inl (HostError_new Host_InvalidOptions None ''deadlines must be positive and representable'')
      else rbind (try_for (validate_instance r) instances []) (\<lambda>_. Inr ())))"

section \<open>Errors of an admission\<close>

definition admission_text :: "AdmissionError \<Rightarrow> string" where
  "admission_text e = (case e of
     Admission_InvalidIdentity detail \<Rightarrow> ''invalid hosted identity: '' @ detail
   | Admission_InvalidBindings detail \<Rightarrow> ''invalid hosted bindings: '' @ detail
   | Admission_UnsupportedHostedBindings \<Rightarrow> ''hosted children and executables are unsupported''
   | Admission_MissingBindings \<Rightarrow> ''module bindings are required''
   | Admission_ShuttingDown \<Rightarrow> ''module is shutting down''
   | Admission_AlreadyPrepared \<Rightarrow> ''module admission is already prepared''
   | Admission_AlreadyReady \<Rightarrow> ''module is already ready''
   | Admission_PortUnavailable input name \<Rightarrow>
       ''declared '' @ (if input then ''input'' else ''output'') @ '' port '' @ quote name @ '' has no live handle''
   | Admission_NoLiveliness \<Rightarrow> ''admission requires liveliness''
   | Admission_ForeignTicket \<Rightarrow> ''admission ticket belongs to another context''
   | Admission_StaleTicket \<Rightarrow> ''admission ticket is no longer current''
   | Admission_Transport detail \<Rightarrow> ''admission transport: '' @ detail)"

section \<open>The local controller's validation\<close>

definition report_entry :: "ModuleReport list \<Rightarrow> ModuleBindings \<Rightarrow> HostError + ReportEntry" where
  "report_entry reports b = (case find (\<lambda>report. mr_namespace report = mb_namespace b) reports of
     Some report \<Rightarrow> Inr \<lparr>re_bindings = b, re_report = report\<rparr>
   | None \<Rightarrow> Inl (HostError_new Host_Admission (Some (mb_namespace b)) ''missing prepared report''))"

definition report_entries :: "ModuleReport list \<Rightarrow> ModuleBindings list \<Rightarrow> HostError + ReportEntry list" where
  "report_entries reports bs =
     try_for (\<lambda>b entries. rbind (report_entry reports b) (\<lambda>entry. Inr (entries @ [entry]))) bs []"

text \<open>Nothing on the left of the inner sum is the panic of the graph validator, which does not occur.\<close>

definition local_validate :: "ModuleBindings list \<Rightarrow> ModuleReport list \<Rightarrow> (HostError option) + unit" where
  "local_validate bs reports = rbind (map_err Some (report_entries reports bs)) (\<lambda>entries.
     map_err (\<lambda>failure. case failure of failure.Panic \<Rightarrow> None
       | failure.Rejected report \<Rightarrow> Some \<lparr>he_code = Host_Graph, he_instance = err_module report,
           he_message = ReportError_fmt report, he_report = Some report\<rparr>) (validate_graph entries))"

section \<open>What a waiter is told\<close>

definition terminal_error :: "HostOutcome \<Rightarrow> HostError" where
  "terminal_error outcome = (case outcome of
     Outcome_Failed primary _ \<Rightarrow> primary
   | Outcome_Unresponsive (Some primary) _ _ \<Rightarrow> primary
   | Outcome_Stopped \<Rightarrow> HostError_new Host_Cancelled None ''host stopped before admission completed''
   | Outcome_Unresponsive None _ _ \<Rightarrow> HostError_new Host_Timeout None ''host did not join before its stop deadline'')"

text \<open>One look of \<open>wait_running\<close>: running, keep waiting, or wait for the terminal result.\<close>

datatype Look = Look_Running | Look_Wait | Look_Terminal

definition running_look :: "HostStatus \<Rightarrow> Look" where
  "running_look st = (case hst_phase st of
     HostPhase_Running \<Rightarrow> Look_Running
   | HostPhase_Starting \<Rightarrow> Look_Wait | HostPhase_Prepared \<Rightarrow> Look_Wait | HostPhase_Committed \<Rightarrow> Look_Wait
   | _ \<Rightarrow> Look_Terminal)"

definition running_error :: "HostOutcome \<Rightarrow> HostError" where
  "running_error outcome = (case outcome of
     Outcome_Failed primary _ \<Rightarrow> primary
   | Outcome_Unresponsive (Some primary) _ _ \<Rightarrow> primary
   | Outcome_Stopped \<Rightarrow> HostError_new Host_Cancelled None ''host stopped before running''
   | Outcome_Unresponsive None _ _ \<Rightarrow> HostError_new Host_Timeout None ''host did not join before its stop deadline'')"

end
