(* ===== verification/Host_Worker.thy ===== *)
theory Host_Worker
  imports Host_Status Managed_Correct
begin

text \<open>
  The task of one component (\<^verbatim>\<open>crates/reiny/src/component/worker.rs\<close>, \<^verbatim>\<open>worker/control.rs\<close>): it opens a
  hosted context, constructs the component, prepares it, announces its ticket, waits for the
  activation, runs, and on an interruption reports, waits for the stop command and runs the stop hook.

  A position of the task is a program counter; between two positions the task touches one thing that
  it shares with others (a channel, the status, the gate, its context). A \<open>select!\<close> that is biased polls
  its branches in order, so its position counts the branches polled so far: a branch is taken when it
  is ready as it is polled, and the branches before it were not ready when they were polled. What a
  hook of the component does is up to the component: it may stay pending, succeed, fail or unwind.
\<close>

section \<open>The task\<close>

datatype Hook = Hook_Create | Hook_Prepare | Hook_Admit | Hook_Run

definition hook_code :: "Hook \<Rightarrow> HostErrorCode" where
  "hook_code h = (case h of
     Hook_Create \<Rightarrow> Host_Factory | Hook_Prepare \<Rightarrow> Host_Prepare | Hook_Admit \<Rightarrow> Host_Admission | Hook_Run \<Rightarrow> Host_Run)"

datatype Interrupted = Interrupted_Stop StopReason | Interrupted_Hosted HostedEvent | Interrupted_Failure HostError

datatype Worker_pc =
    W_Opening nat
  | W_Open_failed HostError
  | W_Open_stopping
  | W_Attach
  | W_Opened
  | W_Hook Hook nat
  | W_Preparing
  | W_Prepared PreparedAdmission
  | W_Announce PreparedAdmission
  | W_Activation nat
  | W_Released
  | W_Interrupted Hook Interrupted
  | W_Finish Hook Interrupted
  | W_Stop_wait Hook bool
  | W_Shutdown Hook bool StopReason
  | W_Stopping StopReason
  | W_Stop_hook StopReason
  | W_Done "HostError option"
  | W_Lost string
  | W_Joined

record Worker =
  wk_bindings :: ModuleBindings
  wk_context :: "ModuleContext option"
  wk_pc :: Worker_pc

definition wk_id :: "Worker \<Rightarrow> string" where
  "wk_id w = mb_namespace (wk_bindings w)"

definition at_pc :: "Worker \<Rightarrow> Worker_pc \<Rightarrow> Worker" where
  "at_pc w p = w\<lparr>wk_pc := p\<rparr>"

text \<open>An unwinding task drops the ticket it holds.\<close>

definition held_ticket :: "Worker_pc \<Rightarrow> PreparedAdmission option" where
  "held_ticket p = (case p of W_Prepared t \<Rightarrow> Some t | W_Announce t \<Rightarrow> Some t | _ \<Rightarrow> None)"

definition lose :: "string \<Rightarrow> Worker \<Rightarrow> Worker" where
  "lose message w = w\<lparr>wk_pc := W_Lost message, wk_context := (case held_ticket (wk_pc w) of
     None \<Rightarrow> wk_context w | Some t \<Rightarrow> map_option (admission_drop t) (wk_context w))\<rparr>"

section \<open>Monitoring\<close>

text \<open>\<open>stop_reason\<close>: a stop command, or a command channel whose sender is gone.\<close>

definition stop_reason :: "Command \<Rightarrow> bool \<Rightarrow> StopReason option" where
  "stop_reason command closed = (case command of
     Command_Stop r \<Rightarrow> Some r | _ \<Rightarrow> if closed then Some Reason_Requested else None)"

definition hosted_signal :: "Worker \<Rightarrow> HostedEvent option" where
  "hosted_signal w = (case wk_context w of None \<Rightarrow> None
     | Some c \<Rightarrow> (case sd_hosted (mc_shutdown c) of None \<Rightarrow> None | Some event \<Rightarrow> event))"

text \<open>The second branch of \<open>activation\<close>.\<close>

definition activation_command :: "Command \<Rightarrow> bool \<Rightarrow> (Interrupted + unit) option" where
  "activation_command command closed = (case command of
     Command_Run \<Rightarrow> Some (Inr ())
   | Command_Stop r \<Rightarrow> Some (Inl (Interrupted_Stop r))
   | Command_Prepare \<Rightarrow> if closed then Some (Inl (Interrupted_Stop Reason_Requested)) else None)"

text \<open>What a polled hook returns through \<open>guarded\<close>: an error with its message, or an unwinding.\<close>

datatype Polled = Polled_Ok | Polled_Err string | Polled_Panic

definition guarded_error :: "string \<Rightarrow> HostErrorCode \<Rightarrow> Polled \<Rightarrow> HostError option" where
  "guarded_error ident code p = (case p of
     Polled_Ok \<Rightarrow> None
   | Polled_Err message \<Rightarrow> Some (HostError_new code (Some ident) message)
   | Polled_Panic \<Rightarrow> Some (HostError_new Host_Panic (Some ident) ''component operation panicked''))"

text \<open>The event that \<open>finish_interruption\<close> sends, if any, and the lifecycle's view of a panic.\<close>

definition interruption_event :: "string \<Rightarrow> Interrupted \<Rightarrow> GroupEvent option" where
  "interruption_event ident i = (case i of
     Interrupted_Stop _ \<Rightarrow> None
   | Interrupted_Hosted Hosted_StopRequested \<Rightarrow> Some Event_StopRequested
   | Interrupted_Hosted Hosted_ReadinessLost \<Rightarrow>
       Some (Event_Failure (HostError_new Host_ReadinessLost (Some ident) ''a prepared or ready endpoint was dropped''))
   | Interrupted_Failure e \<Rightarrow> Some (Event_Failure e))"

definition panicked :: "Interrupted \<Rightarrow> bool" where
  "panicked i = (case i of Interrupted_Failure e \<Rightarrow> he_code e = Host_Panic | _ \<Rightarrow> False)"

section \<open>Steps of the task\<close>

text \<open>What a task sees of the group: the command, whether the supervisor is gone, the events waiting and
  the capacity of their queue, the status and the gate of a step session.\<close>

record View =
  vw_command :: Command
  vw_closed :: bool
  vw_capacity :: nat
  vw_events :: "GroupEvent list"
  vw_status :: HostStatus
  vw_gate :: "Gate option"

definition send_event :: "GroupEvent \<Rightarrow> View \<Rightarrow> View" where
  "send_event e v = v\<lparr>vw_events := vw_events v @ [e]\<rparr>"

definition view_phase :: "Worker \<Rightarrow> ComponentPhase \<Rightarrow> View \<Rightarrow> View" where
  "view_phase w p v = v\<lparr>vw_status := status_phase (wk_id w) p (vw_status v)\<rparr>"

definition stop_gate :: "View \<Rightarrow> View" where
  "stop_gate v = v\<lparr>vw_gate := map_option gate_stop (vw_gate v)\<rparr>"

definition room :: "View \<Rightarrow> bool" where
  "room v \<longleftrightarrow> length (vw_events v) < vw_capacity v"

inductive worker_step :: "nat \<Rightarrow> View \<times> Worker \<Rightarrow> View \<times> Worker \<Rightarrow> bool" for i where
  Open_stop: "wk_pc w = W_Opening 0 \<Longrightarrow> stop_reason (vw_command v) (vw_closed v) = Some r \<Longrightarrow>
    worker_step i (v, w) (v, at_pc w (W_Done None))"
| Open_poll: "wk_pc w = W_Opening 0 \<Longrightarrow> stop_reason (vw_command v) (vw_closed v) = None \<Longrightarrow>
    worker_step i (v, w) (v, at_pc w (W_Opening 1))"
| Open_pending: "wk_pc w = W_Opening 1 \<Longrightarrow> worker_step i (v, w) (v, at_pc w (W_Opening 0))"
| Open_ok: "wk_pc w = W_Opening 1 \<Longrightarrow> open_hosted i g caps created responder domain (wk_bindings w) = Inr c \<Longrightarrow>
    worker_step i (v, w) (v, w\<lparr>wk_context := Some c, wk_pc := W_Attach\<rparr>)"
| Open_err: "wk_pc w = W_Opening 1 \<Longrightarrow> open_hosted i g caps created responder domain (wk_bindings w) = Inl e \<Longrightarrow>
    worker_step i (v, w) (v, at_pc w (W_Open_failed (HostError_new Host_ContextOpen (Some (wk_id w)) (admission_text e))))"
| Open_panic: "wk_pc w = W_Opening 1 \<Longrightarrow> guarded_error (wk_id w) Host_ContextOpen Polled_Panic = Some e \<Longrightarrow>
    worker_step i (v, w) (v, at_pc w (W_Open_failed e))"
| Open_failed: "wk_pc w = W_Open_failed e \<Longrightarrow> \<not> vw_closed v \<Longrightarrow> room v \<Longrightarrow>
    worker_step i (v, w) (send_event (Event_Failure e) v, at_pc w W_Open_stopping)"
| Open_failed_closed: "wk_pc w = W_Open_failed e \<Longrightarrow> vw_closed v \<Longrightarrow> worker_step i (v, w) (v, at_pc w (W_Done None))"
| Open_stopping: "wk_pc w = W_Open_stopping \<Longrightarrow> stop_reason (vw_command v) (vw_closed v) = Some r \<Longrightarrow>
    worker_step i (v, w) (v, at_pc w (W_Done None))"
| Attach: "wk_pc w = W_Attach \<Longrightarrow> wk_context w = Some c \<Longrightarrow>
    worker_step i (v, w) (v, w\<lparr>wk_context := Some (if vw_gate v = None then c else attach_step_gate c), wk_pc := W_Opened\<rparr>)"
| Opened: "wk_pc w = W_Opened \<Longrightarrow> \<not> vw_closed v \<Longrightarrow> room v \<Longrightarrow>
    worker_step i (v, w) (send_event (Event_Opened (wk_id w) i) v, at_pc w (W_Hook Hook_Create 0))"
| Opened_closed: "wk_pc w = W_Opened \<Longrightarrow> vw_closed v \<Longrightarrow>
    worker_step i (v, w) (v, at_pc w (W_Shutdown Hook_Create False Reason_Requested))"
| Hook_stop: "wk_pc w = W_Hook h 0 \<Longrightarrow> stop_reason (vw_command v) (vw_closed v) = Some r \<Longrightarrow>
    worker_step i (v, w) (v, at_pc w (W_Interrupted h (Interrupted_Stop r)))"
| Hook_not_stopped: "wk_pc w = W_Hook h 0 \<Longrightarrow> stop_reason (vw_command v) (vw_closed v) = None \<Longrightarrow>
    worker_step i (v, w) (v, at_pc w (W_Hook h 1))"
| Hook_hosted: "wk_pc w = W_Hook h 1 \<Longrightarrow> hosted_signal w = Some event \<Longrightarrow>
    worker_step i (v, w) (v, at_pc w (W_Interrupted h (Interrupted_Hosted event)))"
| Hook_not_hosted: "wk_pc w = W_Hook h 1 \<Longrightarrow> hosted_signal w = None \<Longrightarrow>
    worker_step i (v, w) (v, at_pc w (W_Hook h 2))"
| Hook_pending: "wk_pc w = W_Hook h 2 \<Longrightarrow> h \<noteq> Hook_Admit \<Longrightarrow> worker_step i (v, w) (v, at_pc w (W_Hook h 0))"
| Hook_error: "wk_pc w = W_Hook h 2 \<Longrightarrow> h \<noteq> Hook_Admit \<Longrightarrow> guarded_error (wk_id w) (hook_code h) p = Some e \<Longrightarrow>
    worker_step i (v, w) (v, at_pc w (W_Interrupted h (Interrupted_Failure e)))"
| Created: "wk_pc w = W_Hook Hook_Create 2 \<Longrightarrow> worker_step i (v, w) (v, at_pc w W_Preparing)"
| Preparing: "wk_pc w = W_Preparing \<Longrightarrow>
    worker_step i (v, w) (view_phase w Component_Preparing v, at_pc w (W_Hook Hook_Prepare 0))"
| Hook_prepared: "wk_pc w = W_Hook Hook_Prepare 2 \<Longrightarrow> worker_step i (v, w) (v, at_pc w (W_Hook Hook_Admit 0))"
| Admitted: "wk_pc w = W_Hook Hook_Admit 2 \<Longrightarrow> wk_context w = Some c \<Longrightarrow> prepare_admission c = Inr (t, c') \<Longrightarrow>
    worker_step i (v, w) (v, w\<lparr>wk_context := Some c', wk_pc := W_Prepared t\<rparr>)"
| Refused: "wk_pc w = W_Hook Hook_Admit 2 \<Longrightarrow> wk_context w = Some c \<Longrightarrow> prepare_admission c = Inl e \<Longrightarrow>
    worker_step i (v, w) (v, at_pc w (W_Interrupted Hook_Admit
      (Interrupted_Failure (HostError_new Host_Admission (Some (wk_id w)) (admission_text e)))))"
| Prepared: "wk_pc w = W_Prepared t \<Longrightarrow>
    worker_step i (v, w) (view_phase w Component_Prepared v, at_pc w (W_Announce t))"
| Announce: "wk_pc w = W_Announce t \<Longrightarrow> \<not> vw_closed v \<Longrightarrow> room v \<Longrightarrow>
    worker_step i (v, w) (send_event (Event_Prepared (wk_id w) t) v, at_pc w (W_Activation 0))"
| Announce_closed: "wk_pc w = W_Announce t \<Longrightarrow> vw_closed v \<Longrightarrow> wk_context w = Some c \<Longrightarrow>
    worker_step i (v, w) (v, w\<lparr>wk_context := Some (admission_drop t c), wk_pc := W_Finish Hook_Admit (Interrupted_Stop Reason_Requested)\<rparr>)"
| Activation_hosted: "wk_pc w = W_Activation 0 \<Longrightarrow> hosted_signal w = Some event \<Longrightarrow>
    worker_step i (v, w) (v, at_pc w (W_Finish Hook_Run (Interrupted_Hosted event)))"
| Activation_not_hosted: "wk_pc w = W_Activation 0 \<Longrightarrow> hosted_signal w = None \<Longrightarrow>
    worker_step i (v, w) (v, at_pc w (W_Activation 1))"
| Activation_pending: "wk_pc w = W_Activation 1 \<Longrightarrow> activation_command (vw_command v) (vw_closed v) = None \<Longrightarrow>
    worker_step i (v, w) (v, at_pc w (W_Activation 0))"
| Activation_run: "wk_pc w = W_Activation 1 \<Longrightarrow> activation_command (vw_command v) (vw_closed v) = Some (Inr ()) \<Longrightarrow>
    worker_step i (v, w) (v, at_pc w W_Released)"
| Activation_stop: "wk_pc w = W_Activation 1 \<Longrightarrow> activation_command (vw_command v) (vw_closed v) = Some (Inl r) \<Longrightarrow>
    worker_step i (v, w) (v, at_pc w (W_Finish Hook_Run r))"
| Released: "wk_pc w = W_Released \<Longrightarrow>
    worker_step i (v, w) (view_phase w Component_Running v, at_pc w (W_Hook Hook_Run 0))"
| Returned: "wk_pc w = W_Hook Hook_Run 2 \<Longrightarrow>
    worker_step i (v, w) (v, at_pc w (W_Finish Hook_Run (Interrupted_Failure
      (HostError_new Host_UnexpectedExit (Some (wk_id w)) ''run returned before shutdown''))))"
| Interrupt: "wk_pc w = W_Interrupted h r \<Longrightarrow> worker_step i (v, w) (stop_gate v, at_pc w (W_Finish h r))"
| Finish_stop: "wk_pc w = W_Finish h (Interrupted_Stop r) \<Longrightarrow> worker_step i (v, w) (v, at_pc w (W_Shutdown h False r))"
| Finish_send: "wk_pc w = W_Finish h r \<Longrightarrow> interruption_event (wk_id w) r = Some e \<Longrightarrow> \<not> vw_closed v \<Longrightarrow> room v \<Longrightarrow>
    worker_step i (v, w) (send_event e v, at_pc w (W_Stop_wait h (panicked r)))"
| Finish_closed: "wk_pc w = W_Finish h r \<Longrightarrow> interruption_event (wk_id w) r = Some e \<Longrightarrow> vw_closed v \<Longrightarrow>
    worker_step i (v, w) (v, at_pc w (W_Shutdown h (panicked r) Reason_Requested))"
| Stop_wait: "wk_pc w = W_Stop_wait h p \<Longrightarrow> stop_reason (vw_command v) (vw_closed v) = Some r \<Longrightarrow>
    worker_step i (v, w) (v, at_pc w (W_Shutdown h p r))"
| Shutdown: "wk_pc w = W_Shutdown h p r \<Longrightarrow> wk_context w = Some c \<Longrightarrow>
    worker_step i (v, w) (v, w\<lparr>wk_context := Some (trigger c),
      wk_pc := (if h = Hook_Create \<or> p then W_Done None else W_Stopping r)\<rparr>)"
| Stopping: "wk_pc w = W_Stopping r \<Longrightarrow>
    worker_step i (v, w) (view_phase w Component_Stopping v, at_pc w (W_Stop_hook r))"
| Stopped: "wk_pc w = W_Stop_hook r \<Longrightarrow>
    worker_step i (v, w) (v, at_pc w (W_Done (guarded_error (wk_id w) Host_StopHook p)))"
| Lost: "wk_pc w \<noteq> W_Joined \<Longrightarrow> \<forall>r. wk_pc w \<noteq> W_Done r \<Longrightarrow> \<forall>m. wk_pc w \<noteq> W_Lost m \<Longrightarrow>
    worker_step i (v, w) (v, lose message w)"

end
