(* ===== verification/Host_Group.thy ===== *)
theory Host_Group
  imports Host_Worker
begin

text \<open>
  A component group under its supervisor (\<^verbatim>\<open>crates/reiny/src/component/{host,coordinator,staged}.rs\<close>,
  \<^verbatim>\<open>coordinator/{admission,cleanup}.rs\<close>): the coordinator that collects tickets, publishes reports,
  commits, activates, serves and cleans up; the controller that drives the stages; and the group as
  the interleaving of coordinator, tasks, controller, step driver and the code of the components.

  As for the tasks, a step of the coordinator touches one shared thing, and a biased \<open>select!\<close> is a
  position that counts the branches polled so far.
\<close>

section \<open>Positions\<close>

datatype Select = Sel_Collect | Sel_Wait Stage | Sel_Serve bool

text \<open>Where \<open>check_admission\<close> is called, with the reply that is due.\<close>

datatype After = After_collect | After_commit nat | After_activate nat

datatype Coordinator_pc =
    C_Select Select nat
  | C_Check After
  | C_Check_contexts After "(string \<times> nat) list"
  | C_Check_events After
  | C_Check_join After
  | C_Reports
  | C_Prepared
  | C_Commit "ModuleBindings list" nat
  | C_Commit_ticket ModuleBindings "ModuleBindings list" nat
  | C_Ready string "ModuleBindings list" nat
  | C_Committed nat
  | C_Commit_ack nat
  | C_Gate nat
  | C_Running nat
  | C_Run nat
  | C_Run_ack nat
  | C_Stop_gate "HostError option" StopReason
  | C_Record "HostError option" StopReason
  | C_Stopping "HostError option" StopReason
  | C_Release "HostError option" StopReason
  | C_Command "HostError option" StopReason
  | C_Shutdown "HostError option" "nat list"
  | C_Drain "HostError option" "HostError list" bool nat
  | C_Driver "HostError option" "HostError list"
  | C_Unresponsive "string list" HostOutcome
  | C_Final HostOutcome
  | C_Terminal HostOutcome
  | C_End

text \<open>The controller of a local group follows \<open>admit_local\<close>; a remote one, the adapter of a process,
  may send anything at any time. A local controller names its replies 0 and 1.\<close>

datatype Controller =
    Ctl_Remote
  | Ctl_Reports
  | Ctl_Send Stage
  | Ctl_Await Stage
  | Ctl_Abort HostError
  | Ctl_Gone

datatype Driver_task = Task_None | Task_Running | Task_Ok | Task_Err string

record Group =
  gr_config :: HostConfiguration
  gr_bindings :: "ModuleBindings list"
  gr_status :: HostStatus
  gr_stop :: bool
  gr_terminal :: "HostOutcome option"
  gr_command :: Command
  gr_events :: "GroupEvent list"
  gr_workers :: "Worker list"
  gr_pending :: "(nat, string) btree"
  gr_contexts :: "(string, nat) btree"
  gr_prepared :: "(string, PreparedAdmission) btree"
  gr_ready :: "PreparedAdmission list"
  gr_control :: "Request list"
  gr_controller :: Controller
  gr_acks :: "nat list"
  gr_reports :: "ModuleReport list option"
  gr_gate :: "Gate option"
  gr_driver :: Driver_task
  gr_coord :: Coordinator_pc

definition at_coord :: "Group \<Rightarrow> Coordinator_pc \<Rightarrow> Group" where
  "at_coord g p = g\<lparr>gr_coord := p\<rparr>"

section \<open>Launching\<close>

definition start_worker :: "ModuleBindings \<Rightarrow> Worker" where
  "start_worker b = \<lparr>wk_bindings = b, wk_context = None, wk_pc = W_Opening 0\<rparr>"

definition initial_status :: "ModuleBindings list \<Rightarrow> HostStatus" where
  "initial_status bs = \<lparr>hst_phase = HostPhase_Starting, hst_components =
     bt_extend [] (map (\<lambda>b. (mb_namespace b, \<lparr>cst_phase = Component_Starting, cst_error = None\<rparr>)) bs)\<rparr>"

definition group_new :: "HostConfiguration \<Rightarrow> ModuleBindings list \<Rightarrow> Gate option \<Rightarrow> Controller \<Rightarrow> Group" where
  "group_new config bs g controller =
     \<lparr>gr_config = config, gr_bindings = bs, gr_status = initial_status bs, gr_stop = False, gr_terminal = None,
      gr_command = Command_Prepare, gr_events = [], gr_workers = map start_worker bs,
      gr_pending = bt_extend [] (map (\<lambda>i. (i, mb_namespace (bs ! i))) [0..<length bs]),
      gr_contexts = [], gr_prepared = [], gr_ready = [], gr_control = [], gr_controller = controller, gr_acks = [],
      gr_reports = None, gr_gate = g, gr_driver = (if g = None then Task_None else Task_Running),
      gr_coord = C_Select Sel_Collect 0\<rparr>"

text \<open>\<open>runtime\<close> is the answer to the question for a current runtime. A step driver comes with its gate. The
  second look for the factory of an instance finds what the validation found.\<close>

definition prepare_steps ::
  "nat \<Rightarrow> nat \<Rightarrow> string + unit \<Rightarrow> ComponentRegistry \<Rightarrow> HostConfiguration \<Rightarrow> ComponentInstanceSpec list \<Rightarrow> Gate option
    \<Rightarrow> Controller \<Rightarrow> HostError + Group" where
  "prepare_steps imax now runtime r config instances g controller =
     and_then (host_validate imax now r config instances)
    (and_then (map_err (HostError_new Host_NoRuntime None) runtime)
     (Inr (group_new config (map ins_bindings instances) g controller)))"

section \<open>The coordinator's operations\<close>

definition senders_gone :: "Group \<Rightarrow> bool" where
  "senders_gone g \<longleftrightarrow> list_all (\<lambda>w. case wk_pc w of W_Done _ \<Rightarrow> True | W_Lost _ \<Rightarrow> True | W_Joined \<Rightarrow> True | _ \<Rightarrow> False) (gr_workers g)"

definition control_closed :: "Group \<Rightarrow> bool" where
  "control_closed g \<longleftrightarrow> gr_controller g = Ctl_Gone \<and> gr_driver g \<noteq> Task_Running"

definition observe :: "GroupEvent \<Rightarrow> Group \<Rightarrow> (HostError + bool) \<times> Group" where
  "observe event g = (case event of
     Event_Opened ident i \<Rightarrow> (Inr False, g\<lparr>gr_contexts := bt_insert ident i (gr_contexts g)\<rparr>)
   | Event_Prepared ident ticket \<Rightarrow> (Inr False, g\<lparr>gr_prepared := bt_insert ident ticket (gr_prepared g)\<rparr>)
   | Event_Failure e \<Rightarrow> (Inl e, g)
   | Event_StopRequested \<Rightarrow> (Inr True, g))"

definition senders_exited :: HostError where
  "senders_exited = HostError_new Host_UnexpectedExit None ''all component event senders exited''"

text \<open>What a task that has ended gives to a join: its value, or the error of the join.\<close>

definition join_result :: "Worker \<Rightarrow> (string + HostError option) option" where
  "join_result w = (case wk_pc w of W_Done r \<Rightarrow> Some (Inr r) | W_Lost message \<Rightarrow> Some (Inl message) | _ \<Rightarrow> None)"

definition set_worker :: "nat \<Rightarrow> Worker \<Rightarrow> Group \<Rightarrow> Group" where
  "set_worker i w g = g\<lparr>gr_workers := (gr_workers g)[i := w]\<rparr>"

definition mark_joined :: "nat \<Rightarrow> Group \<Rightarrow> Group" where
  "mark_joined i g = set_worker i (at_pc (gr_workers g ! i) W_Joined) g"

definition early_error :: "string option \<Rightarrow> string + HostError option \<Rightarrow> HostError" where
  "early_error inst res = (case res of
     Inr (Some e) \<Rightarrow> e
   | Inr None \<Rightarrow> HostError_new Host_UnexpectedExit inst ''component task exited''
   | Inl message \<Rightarrow> HostError_new Host_Panic inst message)"

definition early_exit :: "nat \<Rightarrow> string + HostError option \<Rightarrow> Group \<Rightarrow> HostError \<times> Group" where
  "early_exit i res g = (let e = early_error (bt_get (gr_pending g) i) res in
     (e, (mark_joined i g)\<lparr>gr_pending := bt_remove i (gr_pending g), gr_status := record_error e (gr_status g)\<rparr>))"

definition exit_stop :: Coordinator_pc where
  "exit_stop = C_Stop_gate None Reason_Requested"

definition start_fail :: "HostError \<Rightarrow> Coordinator_pc" where
  "start_fail e = C_Stop_gate (Some e) Reason_StartupFailure"

definition select_fail :: "Select \<Rightarrow> HostError \<Rightarrow> Coordinator_pc" where
  "select_fail sel e = (case sel of Sel_Serve _ \<Rightarrow> C_Stop_gate (Some e) Reason_ComponentFailure | _ \<Rightarrow> start_fail e)"

definition select_again :: "Group \<Rightarrow> Select \<Rightarrow> Coordinator_pc" where
  "select_again g sel = (case sel of
     Sel_Collect \<Rightarrow> if length (gr_prepared g) < length (gr_bindings g) then C_Select Sel_Collect 0 else C_Check After_collect
   | _ \<Rightarrow> C_Select sel 0)"

definition reject_request :: "Request \<Rightarrow> HostError" where
  "reject_request rq = (case rq of
     Request_Abort e \<Rightarrow> e
   | Request_Advance _ _ \<Rightarrow> HostError_new Host_Admission None ''out-of-order host admission command'')"

text \<open>What a request does in each of the three waits.\<close>

definition on_request :: "Group \<Rightarrow> Select \<Rightarrow> Request \<Rightarrow> Coordinator_pc" where
  "on_request g sel rq = (case sel of
     Sel_Collect \<Rightarrow> start_fail (reject_request rq)
   | Sel_Wait expected \<Rightarrow> (case rq of
         Request_Advance stage reply \<Rightarrow>
           if stage = expected then
             (case stage of Stage_Commit \<Rightarrow> C_Commit (gr_bindings g) reply | Stage_Activate \<Rightarrow> C_Check (After_activate reply))
           else start_fail (reject_request rq)
       | Request_Abort _ \<Rightarrow> start_fail (reject_request rq))
   | Sel_Serve _ \<Rightarrow> (case rq of
         Request_Abort e \<Rightarrow> select_fail sel e
       | Request_Advance _ _ \<Rightarrow> select_fail sel (HostError_new Host_Admission None ''host is already running'')))"

definition startup_timeout :: HostError where
  "startup_timeout = HostError_new Host_Timeout None ''startup deadline expired''"

definition check_done :: "After \<Rightarrow> Coordinator_pc" where
  "check_done a = (case a of After_collect \<Rightarrow> C_Reports | After_commit r \<Rightarrow> C_Committed r | After_activate r \<Rightarrow> C_Gate r)"

definition readiness_lost :: "string \<Rightarrow> HostError" where
  "readiness_lost ident = HostError_new Host_ReadinessLost (Some ident) ''readiness was lost before group activation''"

text \<open>One turn of the commit loop after the look at the stop signal.\<close>

definition set_context :: "nat \<Rightarrow> (ModuleContext \<Rightarrow> ModuleContext) \<Rightarrow> Group \<Rightarrow> Group" where
  "set_context i f g = set_worker i ((gr_workers g ! i)\<lparr>wk_context := map_option f (wk_context (gr_workers g ! i))\<rparr>) g"

definition commit_ticket :: "string + unit \<Rightarrow> ModuleBindings \<Rightarrow> ModuleBindings list \<Rightarrow> nat \<Rightarrow> Group \<Rightarrow> Group" where
  "commit_ticket alive b bs reply g = (let ident = mb_namespace b in
     case bt_get (gr_contexts g) ident of
       None \<Rightarrow> at_coord g (start_fail (HostError_new Host_Admission (Some ident) ''missing hosted context''))
     | Some i \<Rightarrow> (case bt_get (gr_prepared g) ident of
         None \<Rightarrow> at_coord g (start_fail (HostError_new Host_Admission (Some ident) ''missing prepared ticket''))
       | Some ticket \<Rightarrow> (let g = g\<lparr>gr_prepared := bt_remove ident (gr_prepared g)\<rparr> in
           case wk_context (gr_workers g ! i) of
             None \<Rightarrow> at_coord g (start_fail (HostError_new Host_Admission (Some ident) ''missing hosted context''))
           | Some c \<Rightarrow> (case commit_admission alive ticket c of
               (Inl e, c') \<Rightarrow> at_coord (set_context i (\<lambda>_. c') g)
                 (start_fail (HostError_new Host_Activate (Some ident) (admission_text e)))
             | (Inr ready, c') \<Rightarrow> at_coord ((set_context i (\<lambda>_. c') g)\<lparr>gr_ready := gr_ready g @ [ready]\<rparr>)
                 (C_Ready ident bs reply)))))"

definition drop_ticket :: "PreparedAdmission \<Rightarrow> Group \<Rightarrow> Group" where
  "drop_ticket t g = set_context (pa_ports t) (admission_drop t) g"

section \<open>Cleaning up\<close>

definition same_failure :: "HostError option \<Rightarrow> HostError \<Rightarrow> bool" where
  "same_failure primary e = is_some_and (\<lambda>first. he_code first = he_code e \<and> he_instance first = he_instance e) primary"

definition drain_event :: "HostError option \<Rightarrow> GroupEvent \<Rightarrow> HostError list \<Rightarrow> Group \<Rightarrow> HostError list \<times> Group" where
  "drain_event primary event cleanup g = (case event of
     Event_Opened _ i \<Rightarrow> (cleanup, set_context i trigger g)
   | Event_Prepared _ ticket \<Rightarrow> (cleanup, drop_ticket ticket g)
   | Event_Failure e \<Rightarrow> (if same_failure primary e then cleanup else cleanup @ [e], g\<lparr>gr_status := record_error e (gr_status g)\<rparr>)
   | Event_StopRequested \<Rightarrow> (cleanup, g))"

definition drain_error :: "string option \<Rightarrow> string + HostError option \<Rightarrow> HostError option" where
  "drain_error inst res = (case res of Inr r \<Rightarrow> r | Inl message \<Rightarrow> Some (HostError_new Host_Panic inst message))"

text \<open>The two updates of the status concern a component whose task has ended.\<close>

definition drain_join :: "nat \<Rightarrow> string + HostError option \<Rightarrow> HostError list \<Rightarrow> Group \<Rightarrow> HostError list \<times> Group" where
  "drain_join i res cleanup g = (let
       inst = bt_get (gr_pending g) i;
       e = drain_error inst res;
       st = (case e of None \<Rightarrow> gr_status g | Some e \<Rightarrow> record_error e (gr_status g));
       st = (case inst of None \<Rightarrow> st | Some ident \<Rightarrow> joined_phase ident st)
     in (case e of None \<Rightarrow> cleanup | Some e \<Rightarrow> cleanup @ [e],
         (mark_joined i g)\<lparr>gr_pending := bt_remove i (gr_pending g), gr_status := st\<rparr>))"

definition cleanup_outcome :: "HostError option \<Rightarrow> HostError list \<Rightarrow> HostOutcome" where
  "cleanup_outcome primary cleanup = (case primary of
     Some e \<Rightarrow> Outcome_Failed e cleanup
   | None \<Rightarrow> (case cleanup of [] \<Rightarrow> Outcome_Stopped | e # rest \<Rightarrow> Outcome_Failed e rest))"

definition verdict :: "HostError option \<Rightarrow> HostError list \<Rightarrow> Group \<Rightarrow> Coordinator_pc" where
  "verdict primary cleanup g = (if gr_pending g \<noteq> [] then
       (let instances = sort (map snd (gr_pending g)) in C_Unresponsive instances (Outcome_Unresponsive primary cleanup instances))
     else C_Final (cleanup_outcome primary cleanup))"

definition step_failure :: "string \<Rightarrow> HostError" where
  "step_failure message = HostError_new Host_Step None message"

section \<open>Steps of the coordinator\<close>

inductive coord_step :: "Group \<Rightarrow> Group \<Rightarrow> bool" where
  Sel_stop: "gr_coord g = C_Select sel 0 \<Longrightarrow> gr_stop g \<Longrightarrow> coord_step g (at_coord g exit_stop)"
| Sel_no_stop: "gr_coord g = C_Select sel 0 \<Longrightarrow> \<not> gr_stop g \<Longrightarrow> coord_step g (at_coord g (C_Select sel 1))"
| Sel_event: "gr_coord g = C_Select sel 1 \<Longrightarrow> gr_events g = e # es \<Longrightarrow> observe e (g\<lparr>gr_events := es\<rparr>) = (r, g') \<Longrightarrow>
    coord_step g (at_coord g' (case r of Inl e \<Rightarrow> select_fail sel e | Inr True \<Rightarrow> exit_stop | Inr False \<Rightarrow> select_again g' sel))"
| Sel_senders: "gr_coord g = C_Select sel 1 \<Longrightarrow> gr_events g = [] \<Longrightarrow> senders_gone g \<Longrightarrow>
    coord_step g (at_coord g (select_fail sel senders_exited))"
| Sel_no_event: "gr_coord g = C_Select sel 1 \<Longrightarrow> gr_events g = [] \<Longrightarrow> \<not> senders_gone g \<Longrightarrow>
    coord_step g (at_coord g (C_Select sel 2))"
| Sel_join: "gr_coord g = C_Select sel 2 \<Longrightarrow> i < length (gr_workers g) \<Longrightarrow> join_result (gr_workers g ! i) = Some res \<Longrightarrow>
    early_exit i res g = (e, g') \<Longrightarrow> coord_step g (at_coord g' (select_fail sel e))"
| Sel_no_join: "gr_coord g = C_Select sel 2 \<Longrightarrow> \<forall>w \<in> set (gr_workers g). join_result w = None \<Longrightarrow>
    coord_step g (at_coord g (C_Select sel 3))"
| Sel_request: "gr_coord g = C_Select sel 3 \<Longrightarrow> sel \<noteq> Sel_Serve False \<Longrightarrow> gr_control g = rq # rqs \<Longrightarrow>
    coord_step g (at_coord (g\<lparr>gr_control := rqs\<rparr>) (on_request g sel rq))"
| Sel_closed: "gr_coord g = C_Select sel 3 \<Longrightarrow> sel \<noteq> Sel_Serve False \<Longrightarrow> gr_control g = [] \<Longrightarrow> control_closed g \<Longrightarrow>
    coord_step g (at_coord g (if sel = Sel_Serve True then C_Select (Sel_Serve False) 0 else exit_stop))"
| Sel_no_request: "gr_coord g = C_Select sel 3 \<Longrightarrow> sel = Sel_Serve False \<or> gr_control g = [] \<and> \<not> control_closed g \<Longrightarrow>
    coord_step g (at_coord g (C_Select sel 4))"
| Sel_park: "gr_coord g = C_Select sel 4 \<Longrightarrow> coord_step g (at_coord g (C_Select sel 0))"
| Sel_timeout: "gr_coord g = C_Select sel 4 \<Longrightarrow> \<forall>opn. sel \<noteq> Sel_Serve opn \<Longrightarrow> hc_startup_timeout (gr_config g) \<noteq> None \<Longrightarrow>
    coord_step g (at_coord g (start_fail startup_timeout))"
| Check_stop: "gr_coord g = C_Check a \<Longrightarrow> coord_step g (at_coord g (if gr_stop g then exit_stop else C_Check_contexts a (gr_contexts g)))"
| Check_context: "gr_coord g = C_Check_contexts a ((ident, i) # rest) \<Longrightarrow>
    coord_step g (at_coord g (case hosted_signal (gr_workers g ! i) of
      Some Hosted_ReadinessLost \<Rightarrow> start_fail (readiness_lost ident)
    | Some Hosted_StopRequested \<Rightarrow> exit_stop
    | None \<Rightarrow> C_Check_contexts a rest))"
| Check_contexts: "gr_coord g = C_Check_contexts a [] \<Longrightarrow> coord_step g (at_coord g (C_Check_events a))"
| Check_event: "gr_coord g = C_Check_events a \<Longrightarrow> gr_events g = e # es \<Longrightarrow> observe e (g\<lparr>gr_events := es\<rparr>) = (r, g') \<Longrightarrow>
    coord_step g (at_coord g' (case r of Inl e \<Rightarrow> start_fail e | Inr True \<Rightarrow> exit_stop | Inr False \<Rightarrow> C_Check_events a))"
| Check_no_event: "gr_coord g = C_Check_events a \<Longrightarrow> gr_events g = [] \<Longrightarrow> coord_step g (at_coord g (C_Check_join a))"
| Check_join: "gr_coord g = C_Check_join a \<Longrightarrow> i < length (gr_workers g) \<Longrightarrow> join_result (gr_workers g ! i) = Some res \<Longrightarrow>
    early_exit i res g = (e, g') \<Longrightarrow> coord_step g (at_coord g' (start_fail e))"
| Check_no_join: "gr_coord g = C_Check_join a \<Longrightarrow> \<forall>w \<in> set (gr_workers g). join_result w = None \<Longrightarrow>
    coord_step g (at_coord g (check_done a))"
| Reports: "gr_coord g = C_Reports \<Longrightarrow>
    coord_step g (at_coord (g\<lparr>gr_reports := Some (map (pa_report \<circ> snd) (gr_prepared g))\<rparr>) C_Prepared)"
| Prepared: "gr_coord g = C_Prepared \<Longrightarrow>
    coord_step g (at_coord (g\<lparr>gr_status := set_phase HostPhase_Prepared (gr_status g)\<rparr>) (C_Select (Sel_Wait Stage_Commit) 0))"
| Commit_done: "gr_coord g = C_Commit [] r \<Longrightarrow> coord_step g (at_coord g (C_Check (After_commit r)))"
| Commit_stop: "gr_coord g = C_Commit (b # bs) r \<Longrightarrow>
    coord_step g (at_coord g (if gr_stop g then exit_stop else C_Commit_ticket b bs r))"
| Commit_ticket: "gr_coord g = C_Commit_ticket b bs r \<Longrightarrow> coord_step g (commit_ticket alive b bs r g)"
| Ready: "gr_coord g = C_Ready ident bs r \<Longrightarrow>
    coord_step g (at_coord (g\<lparr>gr_status := status_phase ident Component_Ready (gr_status g)\<rparr>) (C_Commit bs r))"
| Committed: "gr_coord g = C_Committed r \<Longrightarrow>
    coord_step g (at_coord (g\<lparr>gr_status := set_phase HostPhase_Committed (gr_status g)\<rparr>) (C_Commit_ack r))"
| Commit_ack: "gr_coord g = C_Commit_ack r \<Longrightarrow>
    coord_step g (at_coord (g\<lparr>gr_acks := r # gr_acks g\<rparr>) (C_Select (Sel_Wait Stage_Activate) 0))"
| Gate: "gr_coord g = C_Gate r \<Longrightarrow> coord_step g (at_coord (g\<lparr>gr_gate := map_option activate (gr_gate g)\<rparr>) (C_Running r))"
| Running: "gr_coord g = C_Running r \<Longrightarrow>
    coord_step g (at_coord (g\<lparr>gr_status := set_phase HostPhase_Running (gr_status g)\<rparr>) (C_Run r))"
| Run: "gr_coord g = C_Run r \<Longrightarrow> coord_step g (at_coord (g\<lparr>gr_command := Command_Run\<rparr>) (C_Run_ack r))"
| Run_ack: "gr_coord g = C_Run_ack r \<Longrightarrow> coord_step g (at_coord (g\<lparr>gr_acks := r # gr_acks g\<rparr>) (C_Select (Sel_Serve True) 0))"
| Stop_gate: "gr_coord g = C_Stop_gate p rs \<Longrightarrow>
    coord_step g (at_coord (g\<lparr>gr_gate := map_option gate_stop (gr_gate g)\<rparr>) (C_Record p rs))"
| Record: "gr_coord g = C_Record p rs \<Longrightarrow>
    coord_step g (at_coord (g\<lparr>gr_status := (case p of None \<Rightarrow> gr_status g | Some e \<Rightarrow> record_error e (gr_status g))\<rparr>) (C_Stopping p rs))"
| Stopping: "gr_coord g = C_Stopping p rs \<Longrightarrow>
    coord_step g (at_coord (g\<lparr>gr_status := set_phase HostPhase_Stopping (gr_status g)\<rparr>) (C_Release p rs))"
| Release_ready: "gr_coord g = C_Release p rs \<Longrightarrow> gr_ready g = t # ts \<Longrightarrow> coord_step g ((drop_ticket t g)\<lparr>gr_ready := ts\<rparr>)"
| Release_prepared: "gr_coord g = C_Release p rs \<Longrightarrow> gr_ready g = [] \<Longrightarrow> gr_prepared g = (ident, t) # ts \<Longrightarrow>
    coord_step g ((drop_ticket t g)\<lparr>gr_prepared := ts\<rparr>)"
| Released: "gr_coord g = C_Release p rs \<Longrightarrow> gr_ready g = [] \<Longrightarrow> gr_prepared g = [] \<Longrightarrow> coord_step g (at_coord g (C_Command p rs))"
| Command: "gr_coord g = C_Command p rs \<Longrightarrow>
    coord_step g (at_coord (g\<lparr>gr_command := Command_Stop rs\<rparr>) (C_Shutdown p (map snd (gr_contexts g))))"
| Shutdown: "gr_coord g = C_Shutdown p (i # rest) \<Longrightarrow> coord_step g (at_coord (set_context i trigger g) (C_Shutdown p rest))"
| Shut: "gr_coord g = C_Shutdown p [] \<Longrightarrow> coord_step g (at_coord g (C_Drain p [] True 0))"
| Drain_done: "gr_coord g = C_Drain p cl opn 0 \<Longrightarrow> \<forall>w \<in> set (gr_workers g). wk_pc w = W_Joined \<Longrightarrow>
    coord_step g (at_coord g (C_Driver p cl))"
| Drain_elapsed: "gr_coord g = C_Drain p cl opn 0 \<Longrightarrow> hc_stop_timeout (gr_config g) \<noteq> None \<Longrightarrow> coord_step g (at_coord g (C_Driver p cl))"
| Drain_poll: "gr_coord g = C_Drain p cl opn 0 \<Longrightarrow> \<exists>w \<in> set (gr_workers g). wk_pc w \<noteq> W_Joined \<Longrightarrow>
    coord_step g (at_coord g (C_Drain p cl opn 1))"
| Drain_event: "gr_coord g = C_Drain p cl True 1 \<Longrightarrow> gr_events g = e # es \<Longrightarrow> drain_event p e cl (g\<lparr>gr_events := es\<rparr>) = (cl', g') \<Longrightarrow>
    coord_step g (at_coord g' (C_Drain p cl' True 0))"
| Drain_senders: "gr_coord g = C_Drain p cl True 1 \<Longrightarrow> gr_events g = [] \<Longrightarrow> senders_gone g \<Longrightarrow>
    coord_step g (at_coord g (C_Drain p cl False 0))"
| Drain_no_event: "gr_coord g = C_Drain p cl opn 1 \<Longrightarrow> \<not> opn \<or> gr_events g = [] \<and> \<not> senders_gone g \<Longrightarrow>
    coord_step g (at_coord g (C_Drain p cl opn 2))"
| Drain_join: "gr_coord g = C_Drain p cl opn 2 \<Longrightarrow> i < length (gr_workers g) \<Longrightarrow> join_result (gr_workers g ! i) = Some res \<Longrightarrow>
    drain_join i res cl g = (cl', g') \<Longrightarrow> coord_step g (at_coord g' (C_Drain p cl' opn 0))"
| Drain_park: "gr_coord g = C_Drain p cl opn 2 \<Longrightarrow> \<forall>w \<in> set (gr_workers g). join_result w = None \<Longrightarrow>
    coord_step g (at_coord g (C_Drain p cl opn 0))"
| No_driver: "gr_coord g = C_Driver p cl \<Longrightarrow> gr_driver g \<in> {Task_None, Task_Ok} \<Longrightarrow>
    coord_step g (at_coord (g\<lparr>gr_driver := Task_None\<rparr>) (verdict p cl g))"
| Driver_failed: "gr_coord g = C_Driver p cl \<Longrightarrow> gr_driver g = Task_Err message \<Longrightarrow>
    coord_step g (at_coord (g\<lparr>gr_driver := Task_None\<rparr>) (verdict p (cl @ [step_failure message]) g))"
| Driver_timeout: "gr_coord g = C_Driver p cl \<Longrightarrow> gr_driver g = Task_Running \<Longrightarrow> hc_stop_timeout (gr_config g) \<noteq> None \<Longrightarrow>
    coord_step g (at_coord (g\<lparr>gr_driver := Task_None\<rparr>) (C_Final (Outcome_Unresponsive p cl (map mb_namespace (gr_bindings g)))))"
| Unresponsive: "gr_coord g = C_Unresponsive (ident # rest) outcome \<Longrightarrow>
    coord_step g (at_coord (g\<lparr>gr_status := status_phase ident Component_Unresponsive (gr_status g)\<rparr>) (C_Unresponsive rest outcome))"
| Aborted: "gr_coord g = C_Unresponsive [] outcome \<Longrightarrow> coord_step g (at_coord g (C_Final outcome))"
| Final: "gr_coord g = C_Final outcome \<Longrightarrow>
    coord_step g (at_coord (g\<lparr>gr_contexts := [], gr_status := set_phase (outcome_phase outcome) (gr_status g)\<rparr>) (C_Terminal outcome))"
| Terminal: "gr_coord g = C_Terminal outcome \<Longrightarrow> coord_step g (at_coord (g\<lparr>gr_terminal := Some outcome\<rparr>) C_End)"

section \<open>Steps of the controller\<close>

definition stage_reply :: "Stage \<Rightarrow> nat" where
  "stage_reply s = (case s of Stage_Commit \<Rightarrow> 0 | Stage_Activate \<Rightarrow> 1)"

definition with_controller :: "Controller \<Rightarrow> Group \<Rightarrow> Group" where
  "with_controller ctl g = g\<lparr>gr_controller := ctl\<rparr>"

definition send_request :: "Request \<Rightarrow> Group \<Rightarrow> Group" where
  "send_request rq g = g\<lparr>gr_control := gr_control g @ [rq]\<rparr>"

inductive controller_step :: "Group \<Rightarrow> Group \<Rightarrow> bool" where
  Reports_terminal: "gr_controller g = Ctl_Reports \<Longrightarrow> gr_terminal g \<noteq> None \<Longrightarrow> controller_step g (with_controller Ctl_Gone g)"
| Reports_seen: "gr_controller g = Ctl_Reports \<Longrightarrow> gr_reports g = Some reports \<Longrightarrow>
    controller_step g (with_controller (case local_validate (gr_bindings g) reports of
      Inr _ \<Rightarrow> Ctl_Send Stage_Commit | Inl (Some e) \<Rightarrow> Ctl_Abort e | Inl None \<Rightarrow> Ctl_Gone) g)"
| Send: "gr_controller g = Ctl_Send stage \<Longrightarrow> gr_coord g \<noteq> C_End \<Longrightarrow> gr_control g = [] \<Longrightarrow>
    controller_step g (with_controller (Ctl_Await stage) (send_request (Request_Advance stage (stage_reply stage)) g))"
| Send_closed: "gr_controller g = Ctl_Send stage \<Longrightarrow> gr_coord g = C_End \<Longrightarrow> controller_step g (with_controller Ctl_Gone g)"
| Await_terminal: "gr_controller g = Ctl_Await stage \<Longrightarrow> gr_terminal g \<noteq> None \<Longrightarrow> controller_step g (with_controller Ctl_Gone g)"
| Await_reply: "gr_controller g = Ctl_Await stage \<Longrightarrow> stage_reply stage \<in> set (gr_acks g) \<Longrightarrow>
    controller_step g (with_controller (case stage of Stage_Commit \<Rightarrow> Ctl_Send Stage_Activate | Stage_Activate \<Rightarrow> Ctl_Gone) g)"
| Abort: "gr_controller g = Ctl_Abort e \<Longrightarrow> gr_coord g \<noteq> C_End \<Longrightarrow> gr_control g = [] \<Longrightarrow>
    controller_step g (with_controller Ctl_Gone (send_request (Request_Abort e) g))"
| Abort_closed: "gr_controller g = Ctl_Abort e \<Longrightarrow> gr_coord g = C_End \<Longrightarrow> controller_step g (with_controller Ctl_Gone g)"
| Remote_send: "gr_controller g = Ctl_Remote \<Longrightarrow> gr_coord g \<noteq> C_End \<Longrightarrow> gr_control g = [] \<Longrightarrow> controller_step g (send_request rq g)"
| Remote_gone: "gr_controller g = Ctl_Remote \<Longrightarrow> controller_step g (with_controller Ctl_Gone g)"

section \<open>The group\<close>

definition group_view :: "Group \<Rightarrow> View" where
  "group_view g = \<lparr>vw_command = gr_command g, vw_closed = (gr_coord g = C_End), vw_capacity = 3 * length (gr_bindings g),
     vw_events = gr_events g, vw_status = gr_status g, vw_gate = gr_gate g\<rparr>"

text \<open>Beside coordinator, tasks and controller: the public handle or the end of the step driver asks for
  the stop; the driver aborts after a fault or ends; components and the transport act on a context;
  the users of the step session act on its gate, and so do the signals of the contexts.\<close>

inductive group_step :: "Group \<Rightarrow> Group \<Rightarrow> bool" where
  Coordinator: "coord_step g g' \<Longrightarrow> group_step g g'"
| Worker: "i < length (gr_workers g) \<Longrightarrow> worker_step i (group_view g, gr_workers g ! i) (v, w) \<Longrightarrow>
    group_step g ((set_worker i w g)\<lparr>gr_events := vw_events v, gr_status := vw_status v, gr_gate := vw_gate v\<rparr>)"
| Controller: "controller_step g g' \<Longrightarrow> group_step g g'"
| Stop: "group_step g (g\<lparr>gr_stop := True\<rparr>)"
| Driver_abort: "gr_driver g = Task_Running \<Longrightarrow> gr_coord g \<noteq> C_End \<Longrightarrow> gr_control g = [] \<Longrightarrow> group_step g (send_request (Request_Abort e) g)"
| Driver_end: "gr_driver g = Task_Running \<Longrightarrow> t \<in> {Task_Ok, Task_Err message} \<Longrightarrow> group_step g (g\<lparr>gr_driver := t\<rparr>)"
| Context: "i < length (gr_workers g) \<Longrightarrow> wk_context (gr_workers g ! i) = Some c \<Longrightarrow> module_step (c, []) (c', []) \<Longrightarrow>
    group_step g (set_context i (\<lambda>_. c') g)"
| Gate: "group_step g (g\<lparr>gr_gate := map_option (\<lambda>_. gt) (gr_gate g)\<rparr>)"

text \<open>The states of a group that was launched with the local controller or handed to a remote one.\<close>

inductive group_reach :: "bool \<Rightarrow> Group \<Rightarrow> bool" for is_local where
  Launch: "prepare_steps imax now runtime r config instances gt (if is_local then Ctl_Reports else Ctl_Remote) = Inr g \<Longrightarrow>
    group_reach is_local g"
| Step: "group_reach is_local g \<Longrightarrow> group_step g g' \<Longrightarrow> group_reach is_local g'"

end
