(* ===== verification/Host_Invariant.thy ===== *)
theory Host_Invariant
  imports Host_Group
begin

text \<open>
  The invariants of a component group: the queue of events never fills, the final phase belongs to the
  last two positions of the coordinator, tasks, contexts, tickets and statuses agree on which component
  is which, every ticket is in one place, and the coordinator's position says how far the admission has
  come.
\<close>

lemmas group_simps = at_coord_def with_controller_def send_request_def

lemma nth_update: "xs[i := x] ! j = (if i = j \<and> j < length xs then x else xs ! j)"
  by (cases "i < length xs") (auto simp: nth_list_update list_update_beyond)

text \<open>Changing a context or joining a task leaves everything else as it is.\<close>

lemma set_worker_same [simp]:
  "gr_config (set_worker i w g) = gr_config g" "gr_bindings (set_worker i w g) = gr_bindings g" "gr_status (set_worker i w g) = gr_status g" "gr_stop (set_worker i w g) = gr_stop g" "gr_terminal (set_worker i w g) = gr_terminal g" "gr_command (set_worker i w g) = gr_command g" "gr_events (set_worker i w g) = gr_events g" "gr_pending (set_worker i w g) = gr_pending g" "gr_contexts (set_worker i w g) = gr_contexts g" "gr_prepared (set_worker i w g) = gr_prepared g" "gr_ready (set_worker i w g) = gr_ready g" "gr_control (set_worker i w g) = gr_control g" "gr_controller (set_worker i w g) = gr_controller g" "gr_acks (set_worker i w g) = gr_acks g" "gr_reports (set_worker i w g) = gr_reports g" "gr_gate (set_worker i w g) = gr_gate g" "gr_driver (set_worker i w g) = gr_driver g" "gr_coord (set_worker i w g) = gr_coord g"
  by (simp_all add: set_worker_def)

lemma set_context_same [simp]:
  "gr_config (set_context i f g) = gr_config g" "gr_bindings (set_context i f g) = gr_bindings g" "gr_status (set_context i f g) = gr_status g" "gr_stop (set_context i f g) = gr_stop g" "gr_terminal (set_context i f g) = gr_terminal g" "gr_command (set_context i f g) = gr_command g" "gr_events (set_context i f g) = gr_events g" "gr_pending (set_context i f g) = gr_pending g" "gr_contexts (set_context i f g) = gr_contexts g" "gr_prepared (set_context i f g) = gr_prepared g" "gr_ready (set_context i f g) = gr_ready g" "gr_control (set_context i f g) = gr_control g" "gr_controller (set_context i f g) = gr_controller g" "gr_acks (set_context i f g) = gr_acks g" "gr_reports (set_context i f g) = gr_reports g" "gr_gate (set_context i f g) = gr_gate g" "gr_driver (set_context i f g) = gr_driver g" "gr_coord (set_context i f g) = gr_coord g"
  by (simp_all add: set_context_def)

lemma mark_joined_same [simp]:
  "gr_config (mark_joined i g) = gr_config g" "gr_bindings (mark_joined i g) = gr_bindings g" "gr_status (mark_joined i g) = gr_status g" "gr_stop (mark_joined i g) = gr_stop g" "gr_terminal (mark_joined i g) = gr_terminal g" "gr_command (mark_joined i g) = gr_command g" "gr_events (mark_joined i g) = gr_events g" "gr_pending (mark_joined i g) = gr_pending g" "gr_contexts (mark_joined i g) = gr_contexts g" "gr_prepared (mark_joined i g) = gr_prepared g" "gr_ready (mark_joined i g) = gr_ready g" "gr_control (mark_joined i g) = gr_control g" "gr_controller (mark_joined i g) = gr_controller g" "gr_acks (mark_joined i g) = gr_acks g" "gr_reports (mark_joined i g) = gr_reports g" "gr_gate (mark_joined i g) = gr_gate g" "gr_driver (mark_joined i g) = gr_driver g" "gr_coord (mark_joined i g) = gr_coord g"
  by (simp_all add: mark_joined_def)

lemma set_worker_length [simp]:
  "length (gr_workers (set_worker i w g)) = length (gr_workers g)" "length (gr_workers (set_context i f g)) = length (gr_workers g)"
  "length (gr_workers (mark_joined i g)) = length (gr_workers g)"
  by (simp_all add: set_worker_def set_context_def mark_joined_def)

lemma set_worker_nth: "gr_workers (set_worker i w g) ! j = (if i = j \<and> j < length (gr_workers g) then w else gr_workers g ! j)"
  by (simp add: set_worker_def nth_update)

lemma set_context_worker [simp]:
  "wk_pc (gr_workers (set_context i f g) ! j) = wk_pc (gr_workers g ! j)"
  "wk_bindings (gr_workers (set_context i f g) ! j) = wk_bindings (gr_workers g ! j)"
  by (simp_all add: set_context_def set_worker_nth)

lemma set_context_context:
  "j < length (gr_workers g) \<Longrightarrow> wk_context (gr_workers (set_context i f g) ! j) =
     (if i = j then map_option f (wk_context (gr_workers g ! j)) else wk_context (gr_workers g ! j))"
  by (simp add: set_context_def set_worker_nth)

lemma mark_joined_worker [simp]:
  "j < length (gr_workers g) \<Longrightarrow> wk_pc (gr_workers (mark_joined i g) ! j) = (if i = j then W_Joined else wk_pc (gr_workers g ! j))"
  "wk_bindings (gr_workers (mark_joined i g) ! j) = wk_bindings (gr_workers g ! j)"
  "wk_context (gr_workers (mark_joined i g) ! j) = wk_context (gr_workers g ! j)"
  by (simp_all add: mark_joined_def set_worker_nth at_pc_def)

lemma drop_ticket_set: "drop_ticket t g = set_context (pa_ports t) (admission_drop t) g"
  by (simp add: drop_ticket_def)

section \<open>The queue of events\<close>

text \<open>How many events a task has sent at most.\<close>

definition hook_sent :: "Hook \<Rightarrow> nat" where
  "hook_sent h = (if h = Hook_Run then 2 else 1)"

definition sent :: "Worker_pc \<Rightarrow> nat" where
  "sent p = (case p of
     W_Opening _ \<Rightarrow> 0 | W_Open_failed _ \<Rightarrow> 0 | W_Attach \<Rightarrow> 0 | W_Opened \<Rightarrow> 0 | W_Open_stopping \<Rightarrow> 1
   | W_Hook h _ \<Rightarrow> hook_sent h | W_Interrupted h _ \<Rightarrow> hook_sent h | W_Finish h _ \<Rightarrow> hook_sent h
   | W_Preparing \<Rightarrow> 1 | W_Prepared _ \<Rightarrow> 1 | W_Announce _ \<Rightarrow> 1 | W_Activation _ \<Rightarrow> 2 | W_Released \<Rightarrow> 2
   | _ \<Rightarrow> 3)"

definition all_sent :: "Worker list \<Rightarrow> nat" where
  "all_sent ws = (\<Sum>w\<leftarrow>ws. sent (wk_pc w))"

definition queue_ok :: "Group \<Rightarrow> bool" where
  "queue_ok g \<longleftrightarrow> length (gr_workers g) = length (gr_bindings g) \<and> length (gr_events g) \<le> all_sent (gr_workers g)"

lemma sent_le: "sent p \<le> 3"
  by (simp add: sent_def hook_sent_def split: Worker_pc.splits)

text \<open>Replacing one task changes a sum over the tasks by the difference.\<close>

lemma worker_sum_update:
  fixes f :: "Worker \<Rightarrow> nat"
  assumes "i < length ws"
  shows "(\<Sum>w\<leftarrow>ws[i := w']. f w) + f (ws ! i) = (\<Sum>w\<leftarrow>ws. f w) + f w'"
proof -
  have "f (ws ! i) \<le> (\<Sum>w\<leftarrow>ws. f w)"
    using assms by (intro member_le_sum_list) simp_all
  then show ?thesis
    using assms by (simp add: map_update sum_list_update)
qed

lemma all_sent_update:
  "i < length ws \<Longrightarrow> all_sent (ws[i := w]) + sent (wk_pc (ws ! i)) = all_sent ws + sent (wk_pc w)"
  unfolding all_sent_def by (rule worker_sum_update)

lemma all_sent_le: "all_sent ws \<le> 3 * length ws"
  unfolding all_sent_def by (induction ws) (use sent_le in \<open>auto intro: add_mono\<close>)

text \<open>A step of a task sends at most one event, and counts it.\<close>

lemma worker_sends:
  assumes "worker_step i (v, w) (v', w')"
  shows "length (vw_events v') + sent (wk_pc w) \<le> length (vw_events v) + sent (wk_pc w')"
  using assms
  by (cases rule: worker_step.cases)
    (auto simp: at_pc_def send_event_def view_phase_def stop_gate_def lose_def sent_def hook_sent_def split: Worker_pc.splits)

lemma join_result_done: "join_result w = Some r \<Longrightarrow> sent (wk_pc w) = 3"
  by (auto simp: join_result_def sent_def split: Worker_pc.splits)

text \<open>The coordinator changes a task only by joining it, or its context.\<close>

lemma coord_workers:
  assumes "coord_step g g'"
  shows "gr_bindings g' = gr_bindings g \<and> gr_config g' = gr_config g \<and> length (gr_workers g') = length (gr_workers g)
    \<and> (\<forall>j < length (gr_workers g). wk_bindings (gr_workers g' ! j) = wk_bindings (gr_workers g ! j)
        \<and> (wk_pc (gr_workers g' ! j) = wk_pc (gr_workers g ! j)
           \<or> (\<exists>r. join_result (gr_workers g ! j) = Some r) \<and> wk_pc (gr_workers g' ! j) = W_Joined))
    \<and> (\<exists>es. gr_events g = es @ gr_events g')"
  using assms
proof (cases rule: coord_step.cases)
  case (Sel_event sel e es r g1)
  then show ?thesis
    by (auto simp: group_simps observe_def split: GroupEvent.splits)
next
  case (Check_event a e es r g1)
  then show ?thesis
    by (auto simp: group_simps observe_def split: GroupEvent.splits)
next
  case (Drain_event p cl e es cl' g1)
  then show ?thesis
    by (auto simp: group_simps drain_event_def drop_ticket_set split: GroupEvent.splits)
next
  case (Commit_ticket b bs r alive)
  then show ?thesis
    by (auto simp: group_simps commit_ticket_def Let_def split: option.splits prod.splits sum.splits)
qed (auto simp: group_simps early_exit_def drain_join_def drop_ticket_set Let_def)

text \<open>What the steps of the controller and of the surroundings leave alone.\<close>

definition backstage :: "Group \<Rightarrow> Group \<Rightarrow> bool" where
  "backstage g g' \<longleftrightarrow> gr_config g' = gr_config g \<and> gr_bindings g' = gr_bindings g \<and> gr_status g' = gr_status g
     \<and> gr_terminal g' = gr_terminal g \<and> gr_command g' = gr_command g \<and> gr_events g' = gr_events g \<and> gr_workers g' = gr_workers g
     \<and> gr_pending g' = gr_pending g \<and> gr_contexts g' = gr_contexts g \<and> gr_prepared g' = gr_prepared g
     \<and> gr_ready g' = gr_ready g \<and> gr_reports g' = gr_reports g \<and> gr_coord g' = gr_coord g"

lemma controller_backstage: "controller_step g g' \<Longrightarrow> backstage g g'"
  by (cases rule: controller_step.cases) (auto simp: backstage_def group_simps)

text \<open>A step of the group is one of four: of the coordinator, of a task, of a context, or backstage.\<close>

lemma group_step_cases:
  assumes "group_step g g'"
  obtains (coordinator) "coord_step g g'"
    | (worker) i v w where "i < length (gr_workers g)" "worker_step i (group_view g, gr_workers g ! i) (v, w)"
        "g' = (set_worker i w g)\<lparr>gr_events := vw_events v, gr_status := vw_status v, gr_gate := vw_gate v\<rparr>"
    | (module) i c c' where "i < length (gr_workers g)" "wk_context (gr_workers g ! i) = Some c" "module_step (c, []) (c', [])"
        "g' = set_context i (\<lambda>_. c') g"
    | (backstage) "backstage g g'"
  using assms
proof (cases rule: group_step.cases)
  case Controller
  then show ?thesis
    using backstage controller_backstage by (simp add: backstage_def)
next
  case Stop
  then show ?thesis
    using backstage by (simp add: backstage_def)
next
  case (Driver_abort e)
  then show ?thesis
    using backstage by (simp add: backstage_def send_request_def)
next
  case (Driver_end t message)
  then show ?thesis
    using backstage by (simp add: backstage_def)
next
  case (Gate gt)
  then show ?thesis
    using backstage by (simp add: backstage_def)
qed (use coordinator worker module in blast)+

lemma queue_step:
  assumes "group_step g g'" and "queue_ok g"
  shows "queue_ok g'"
  using assms(1)
proof (cases rule: group_step_cases)
  case coordinator
  note frame = coord_workers [OF this]
  have "sent (wk_pc (gr_workers g ! j)) \<le> sent (wk_pc (gr_workers g' ! j))" if "j < length (gr_workers g)" for j
  proof -
    have "sent W_Joined = 3"
      by (simp add: sent_def)
    then show ?thesis
      using frame that sent_le [of "wk_pc (gr_workers g ! j)"] by (metis order_refl)
  qed
  then have "all_sent (gr_workers g) \<le> all_sent (gr_workers g')"
    unfolding all_sent_def using frame by (intro sum_list_mono2) auto
  moreover have "length (gr_events g') \<le> length (gr_events g)"
    using frame by auto
  ultimately show ?thesis
    using assms(2) frame by (simp add: queue_ok_def)
next
  case (worker i v w)
  have "all_sent ((gr_workers g)[i := w]) + sent (wk_pc (gr_workers g ! i)) = all_sent (gr_workers g) + sent (wk_pc w)"
    by (rule all_sent_update [OF worker(1)])
  then show ?thesis
    using assms(2) worker_sends [OF worker(2)] by (simp add: queue_ok_def worker(3) set_worker_def group_view_def)
next
  case (module i c c')
  have "map (\<lambda>w. sent (wk_pc w)) (gr_workers g') = map (\<lambda>w. sent (wk_pc w)) (gr_workers g)"
    by (rule nth_equalityI) (simp_all add: module(4))
  then show ?thesis
    using assms(2) by (simp add: queue_ok_def all_sent_def module(4))
next
  case backstage
  then show ?thesis
    using assms(2) by (simp add: queue_ok_def backstage_def)
qed

lemma launch_group: "prepare_steps imax now runtime r config instances gt ctl = Inr g \<Longrightarrow> g = group_new config (map ins_bindings instances) gt ctl"
  by (auto simp: prepare_steps_def res_simps)

lemma reach_queue_ok: "group_reach l g \<Longrightarrow> queue_ok g"
proof (induction rule: group_reach.induct)
  case (Launch imax now runtime r config instances gt g)
  then show ?case
    by (auto simp: queue_ok_def group_new_def dest!: launch_group)
qed (rule queue_step)

section \<open>The final phase\<close>

definition phase_ok :: "Group \<Rightarrow> bool" where
  "phase_ok g \<longleftrightarrow> (case gr_coord g of
     C_Terminal o' \<Rightarrow> hst_phase (gr_status g) = outcome_phase o' \<and> gr_terminal g = None
   | C_End \<Rightarrow> (\<exists>o'. gr_terminal g = Some o' \<and> hst_phase (gr_status g) = outcome_phase o')
   | _ \<Rightarrow> \<not> final_phase (hst_phase (gr_status g)) \<and> gr_terminal g = None)"

lemma status_phase_same [simp]: "hst_phase (status_phase ident p st) = hst_phase st"
  by (simp add: status_phase_def split: option.splits)

lemma record_error_same [simp]: "hst_phase (record_error e st) = hst_phase st"
  by (simp add: record_error_def split: option.splits)

lemma joined_phase_same [simp]: "hst_phase (joined_phase ident st) = hst_phase st"
  by (simp add: joined_phase_def split: option.splits)

lemma set_phase_sel [simp]: "hst_phase (set_phase p st) = p" "hst_components (set_phase p st) = hst_components st"
  by (simp_all add: set_phase_def)

lemma outcome_phase_final [simp]: "final_phase (outcome_phase o')"
  by (simp add: outcome_phase_def final_phase_def split: HostOutcome.splits)

text \<open>Which position a task's step leaves the status' phase in: always the same.\<close>

lemma worker_status:
  assumes "worker_step i (v, w) (v', w')"
  shows "(vw_status v' = vw_status v \<or> (\<exists>p. vw_status v' = status_phase (wk_id w) p (vw_status v))) \<and> wk_bindings w' = wk_bindings w
    \<and> vw_command v' = vw_command v \<and> wk_pc w' \<noteq> W_Joined \<and> wk_pc w \<noteq> W_Joined"
  using assms
  by (cases rule: worker_step.cases) (auto simp: at_pc_def send_event_def view_phase_def stop_gate_def lose_def)

lemma phase_step:
  assumes "group_step g g'" and "phase_ok g"
  shows "phase_ok g'"
  using assms(1)
proof (cases rule: group_step_cases)
  case coordinator
  then show ?thesis
    using assms(2)
  proof (cases rule: coord_step.cases)
    case (Sel_event sel e es r g1)
    then show ?thesis
      using assms(2)
      by (auto simp: phase_ok_def group_simps observe_def select_fail_def start_fail_def exit_stop_def select_again_def
          split: GroupEvent.splits Select.splits)
  next
    case (Check_event a e es r g1)
    then show ?thesis
      using assms(2) by (auto simp: phase_ok_def group_simps observe_def start_fail_def exit_stop_def split: GroupEvent.splits)
  next
    case (Drain_event p cl e es cl' g1)
    then show ?thesis
      using assms(2) by (auto simp: phase_ok_def group_simps drain_event_def drop_ticket_set split: GroupEvent.splits)
  next
    case (Commit_ticket b bs r alive)
    then show ?thesis
      using assms(2)
      by (auto simp: phase_ok_def group_simps commit_ticket_def start_fail_def Let_def split: option.splits prod.splits sum.splits)
  qed (auto simp: phase_ok_def group_simps early_exit_def drain_join_def drop_ticket_set Let_def select_fail_def start_fail_def
      exit_stop_def on_request_def check_done_def verdict_def final_phase_def
      split: Select.splits option.splits HostedEvent.splits Request.splits Stage.splits After.splits)
next
  case (worker i v w)
  have "hst_phase (vw_status v) = hst_phase (gr_status g)"
    using worker_status [OF worker(2)] by (auto simp: group_view_def)
  then show ?thesis
    using assms(2) by (simp add: phase_ok_def worker(3) cong: Coordinator_pc.case_cong)
next
  case (module i c c')
  then show ?thesis
    using assms(2) by (simp add: phase_ok_def cong: Coordinator_pc.case_cong)
next
  case backstage
  then show ?thesis
    using assms(2) by (simp add: phase_ok_def backstage_def cong: Coordinator_pc.case_cong)
qed

lemma reach_phase_ok: "group_reach l g \<Longrightarrow> phase_ok g"
proof (induction rule: group_reach.induct)
  case (Launch imax now runtime r config instances gt g)
  then show ?case
    by (auto simp: phase_ok_def group_new_def initial_status_def final_phase_def dest!: launch_group)
qed (rule phase_step)

end
