(* ===== verification/Host_Shape.thy ===== *)
theory Host_Shape
  imports Host_Invariant
begin

text \<open>
  Which component is which, and where the tickets are. Tasks, contexts, events and tables agree on the
  index and the namespace of a component (\<open>shape_ok\<close>); a ticket is in one place only, and not before its
  task has announced it (\<open>tickets_ok\<close>).
\<close>

section \<open>Contexts keep their identity\<close>

definition same_context :: "ModuleContext \<Rightarrow> ModuleContext \<Rightarrow> bool" where
  "same_context c c' \<longleftrightarrow> mc_key c' = mc_key c \<and> mc_id c' = mc_id c"

lemma same_context_ops [simp]:
  "same_context c (trigger c)" "same_context c (admission_drop t c)" "same_context c (set_ready c)" "same_context c (port_drop live c)"
  "same_context c (raise_flag c)" "same_context c (hosted_event e c)" "same_context c (attach_step_gate c)"
  "same_context c (withdraw c)" "same_context c (set_child name child c)" "same_context c (install_port input name rg c)"
  "same_context c (c\<lparr>mc_gate := gt\<rparr>)" "same_context c c"
  by (simp_all add: same_context_def trigger_def admission_drop_def set_ready_def port_drop_def raise_flag_def hosted_event_def
      attach_step_gate_def withdraw_def set_child_def install_port_def Let_def split: option.splits)

lemma same_context_trans: "same_context c c' \<Longrightarrow> same_context c' c'' \<Longrightarrow> same_context c c''"
  by (simp add: same_context_def)

lemma same_context_prepare: "prepare_admission c = Inr (t, c') \<Longrightarrow> same_context c c'"
  by (auto simp: prepare_admission_def same_context_def Let_def res_simps split: if_splits)

lemma same_context_commit: "commit_admission alive t c = (r, c') \<Longrightarrow> same_context c c'"
  by (auto simp: commit_admission_def split: sum.splits)

lemma same_context_child [simp]: "same_context c (child_presence name is_ready c)" "same_context c (child_exit name c)"
  by (auto simp: child_presence_def child_exit_def Let_def intro: same_context_trans split: option.splits)
    (simp_all add: same_context_def trigger_def hosted_event_def raise_flag_def withdraw_def set_child_def Let_def split: option.splits)

lemma module_step_context: "module_step (c, ls) (c', ls') \<Longrightarrow> same_context c c'"
  by (cases rule: module_step.cases)
    (auto simp: port_input_def port_output_def port_rpc_client_def port_rpc_server_def raw_input_def raw_output_def raw_rpc_client_def
      raw_rpc_server_def open_port_def bridge_rpc_port_def res_simps module_ready_def spawn_child_def child_adopt_def Let_def
      intro: same_context_prepare same_context_commit split: if_splits,
      auto simp: same_context_def)

lemma prepared_ticket:
  assumes "prepare_admission c = Inr (t, c')"
  shows "pa_ports t = mc_key c" and "mr_namespace (pa_report t) = mc_id c"
proof -
  from assms show "pa_ports t = mc_key c"
    by (auto simp: prepare_admission_def Let_def res_simps split: if_splits)
  from assms obtain r where "build_report c = Inr r" "pa_report t = r"
    by (auto simp: prepare_admission_def Let_def res_simps split: if_splits)
  moreover from this(1) have "mr_namespace r = mc_id c"
    by (auto simp: build_report_def Let_def res_simps)
  ultimately show "mr_namespace (pa_report t) = mc_id c"
    by simp
qed

lemma opened_context:
  assumes "open_hosted key gt caps created responder domain b = Inr c"
  shows "mc_key c = key" and "mc_id c = mb_namespace b"
  using assms by (auto simp: open_hosted_def ModuleContext_new_def Let_def res_simps split: if_splits)

section \<open>Which component is which\<close>

definition with_context :: "Worker_pc \<Rightarrow> bool" where
  "with_context p = (case p of W_Opening _ \<Rightarrow> False | W_Open_failed _ \<Rightarrow> False | W_Open_stopping \<Rightarrow> False | W_Done _ \<Rightarrow> False
     | W_Lost _ \<Rightarrow> False | W_Joined \<Rightarrow> False | _ \<Rightarrow> True)"

definition worker_ok :: "nat \<Rightarrow> Worker \<Rightarrow> bool" where
  "worker_ok i w \<longleftrightarrow> (\<forall>c. wk_context w = Some c \<longrightarrow> mc_key c = i \<and> mc_id c = wk_id w)
     \<and> (with_context (wk_pc w) \<longrightarrow> wk_context w \<noteq> None)
     \<and> (\<forall>t. held_ticket (wk_pc w) = Some t \<longrightarrow> pa_ports t = i \<and> mr_namespace (pa_report t) = wk_id w)"

definition event_ok :: "ModuleBindings list \<Rightarrow> GroupEvent \<Rightarrow> bool" where
  "event_ok bs e = (case e of
     Event_Opened ident i \<Rightarrow> i < length bs \<and> ident = mb_namespace (bs ! i)
   | Event_Prepared ident t \<Rightarrow> pa_ports t < length bs \<and> ident = mb_namespace (bs ! pa_ports t) \<and> mr_namespace (pa_report t) = ident
   | _ \<Rightarrow> True)"

definition tables_ok :: "Group \<Rightarrow> bool" where
  "tables_ok g \<longleftrightarrow> (\<forall>e \<in> set (gr_events g). event_ok (gr_bindings g) e)
     \<and> (\<forall>(ident, i) \<in> set (gr_contexts g). event_ok (gr_bindings g) (Event_Opened ident i))
     \<and> (\<forall>(ident, t) \<in> set (gr_prepared g). event_ok (gr_bindings g) (Event_Prepared ident t))
     \<and> (\<forall>t \<in> set (gr_ready g). event_ok (gr_bindings g) (Event_Prepared (mr_namespace (pa_report t)) t))"

definition shape_ok :: "Group \<Rightarrow> bool" where
  "shape_ok g \<longleftrightarrow> gr_bindings g \<noteq> [] \<and> distinct (map mb_namespace (gr_bindings g)) \<and> length (gr_workers g) = length (gr_bindings g)
     \<and> (\<forall>i < length (gr_bindings g). wk_bindings (gr_workers g ! i) = gr_bindings g ! i \<and> worker_ok i (gr_workers g ! i))
     \<and> tables_ok g"

lemma worker_keeps_ok:
  assumes "worker_step i (v, w) (v', w')" and "worker_ok i w"
  shows "worker_ok i w'"
  using assms
proof (cases rule: worker_step.cases)
  case (Open_ok gt caps created responder domain c)
  then show ?thesis
    using opened_context [OF Open_ok(4)] assms(2) by (auto simp: worker_ok_def wk_id_def held_ticket_def)
next
  case (Admitted c t c')
  then show ?thesis
    using prepared_ticket [OF Admitted(5)] same_context_prepare [OF Admitted(5)] assms(2)
    by (auto simp: worker_ok_def wk_id_def held_ticket_def same_context_def)
next
  case (Attach c)
  then show ?thesis
    using assms(2) same_context_ops(7) [of c] by (auto simp: worker_ok_def wk_id_def held_ticket_def same_context_def)
next
  case (Announce_closed t c)
  then show ?thesis
    using assms(2) same_context_ops(2) [of c t] by (auto simp: worker_ok_def wk_id_def held_ticket_def same_context_def)
next
  case (Shutdown h p r c)
  then show ?thesis
    using assms(2) same_context_ops(1) [of c] by (auto simp: worker_ok_def wk_id_def held_ticket_def same_context_def with_context_def)
next
  case (Lost message)
  then show ?thesis
    using assms(2) same_context_ops(2)
    by (auto simp: worker_ok_def wk_id_def held_ticket_def same_context_def with_context_def lose_def split: option.splits Worker_pc.splits)
qed (auto simp: worker_ok_def wk_id_def held_ticket_def with_context_def at_pc_def)

text \<open>The events a task sends name it.\<close>

definition sent_by :: "nat \<Rightarrow> Worker \<Rightarrow> GroupEvent \<Rightarrow> bool" where
  "sent_by i w e = (case e of
     Event_Opened ident j \<Rightarrow> j = i \<and> ident = wk_id w
   | Event_Prepared ident t \<Rightarrow> wk_pc w = W_Announce t \<and> ident = wk_id w \<and> pa_ports t = i \<and> mr_namespace (pa_report t) = wk_id w
   | _ \<Rightarrow> True)"

lemma worker_events:
  assumes "worker_step i (v, w) (v', w')" and "worker_ok i w"
  shows "vw_events v' = vw_events v
    \<or> (\<exists>e. vw_events v' = vw_events v @ [e] \<and> length (vw_events v) < vw_capacity v \<and> sent_by i w e)"
  using assms
  by (cases rule: worker_step.cases)
    (auto simp: send_event_def view_phase_def stop_gate_def worker_ok_def held_ticket_def room_def interruption_event_def sent_by_def
      split: Interrupted.splits HostedEvent.splits)

lemma coord_contexts:
  assumes "coord_step g g'" and "j < length (gr_workers g)"
  shows "map_option (\<lambda>c. (mc_key c, mc_id c)) (wk_context (gr_workers g' ! j)) = map_option (\<lambda>c. (mc_key c, mc_id c)) (wk_context (gr_workers g ! j))"
proof -
  have ops: "map_option (\<lambda>c. (mc_key c, mc_id c)) (map_option f x) = map_option (\<lambda>c. (mc_key c, mc_id c)) x"
    if "\<And>c. same_context c (f c)" for f x
    using that by (cases x) (auto simp: same_context_def)
  show ?thesis
    using assms
  proof (cases rule: coord_step.cases)
    case (Sel_event sel e es r g1)
    then show ?thesis
      by (auto simp: group_simps observe_def split: GroupEvent.splits)
  next
    case (Check_event a e es r g1)
    then show ?thesis
      by (auto simp: group_simps observe_def split: GroupEvent.splits)
  next
    case (Drain_event p cl e es cl' g1)
    then show ?thesis
      using assms(2) by (auto simp: group_simps drain_event_def drop_ticket_set set_context_context ops split: GroupEvent.splits)
  next
    case (Commit_ticket b bs r alive)
    then show ?thesis
      using assms(2)
      by (auto simp: group_simps commit_ticket_def set_context_context Let_def same_context_def dest: same_context_commit
          split: option.splits prod.splits sum.splits)
  qed (use assms(2) in \<open>auto simp: group_simps early_exit_def drain_join_def drop_ticket_set set_context_context ops Let_def\<close>)
qed

lemma bt_insert_member: "x \<in> set (bt_insert k v m) \<Longrightarrow> x = (k, v) \<or> x \<in> set m"
  by (induction k v m rule: bt_insert.induct) (auto split: if_splits)

text \<open>The coordinator only moves what has been announced.\<close>

lemma coord_tables:
  assumes "coord_step g g'" and "tables_ok g"
  shows "tables_ok g'"
proof -
  note ins = bt_insert_member
  show ?thesis
    using assms
  proof (cases rule: coord_step.cases)
    case (Sel_event sel e es r g1)
    then show ?thesis
      using assms(2) by (fastforce simp: tables_ok_def group_simps observe_def split: GroupEvent.splits dest!: ins)
  next
    case (Check_event a e es r g1)
    then show ?thesis
      using assms(2) by (fastforce simp: tables_ok_def group_simps observe_def split: GroupEvent.splits dest!: ins)
  next
    case (Drain_event p cl e es cl' g1)
    then show ?thesis
      using assms(2) by (auto simp: tables_ok_def group_simps drain_event_def drop_ticket_set split: GroupEvent.splits)
  next
    case (Commit_ticket b bs r alive)
    have ticket: "event_ok (gr_bindings g) (Event_Prepared (mr_namespace (pa_report t)) t)"
      if "bt_get (gr_prepared g) (mb_namespace b) = Some t" for t
      using assms(2) bt_get_in_set [OF that] by (auto simp: tables_ok_def event_ok_def)
    show ?thesis
      using assms(2) ticket Commit_ticket
      by (auto simp: tables_ok_def group_simps commit_ticket_def commit_admission_def bt_remove_def Let_def
          split: option.splits prod.splits sum.splits)
  qed (use assms(2) in \<open>auto simp: tables_ok_def group_simps early_exit_def drain_join_def drop_ticket_set Let_def\<close>)
qed

lemma worker_ok_same:
  assumes "worker_ok i w" and "wk_bindings w' = wk_bindings w" and "wk_pc w' = wk_pc w \<or> wk_pc w' = W_Joined"
    and "map_option (\<lambda>c. (mc_key c, mc_id c)) (wk_context w') = map_option (\<lambda>c. (mc_key c, mc_id c)) (wk_context w)"
  shows "worker_ok i w'"
  using assms by (cases "wk_context w"; cases "wk_context w'") (auto simp: worker_ok_def wk_id_def with_context_def held_ticket_def)

lemma shape_step:
  assumes "group_step g g'" and "shape_ok g"
  shows "shape_ok g'"
  using assms(1)
proof (cases rule: group_step_cases)
  case coordinator
  note frame = coord_workers [OF this]
  have "worker_ok i (gr_workers g' ! i)" if "i < length (gr_workers g)" for i
  proof (rule worker_ok_same [OF _ _ _ coord_contexts [OF coordinator that]])
    show "worker_ok i (gr_workers g ! i)"
      using assms(2) that by (simp add: shape_ok_def)
  qed (use frame that in auto)
  then show ?thesis
    using frame assms(2) coord_tables [OF coordinator] by (simp add: shape_ok_def)
next
  case (worker i v w)
  have ok: "worker_ok i (gr_workers g ! i)" and name: "wk_id (gr_workers g ! i) = mb_namespace (gr_bindings g ! i)"
    and i: "i < length (gr_bindings g)"
    using assms(2) worker(1) by (simp_all add: shape_ok_def wk_id_def)
  have old: "\<forall>e \<in> set (gr_events g). event_ok (gr_bindings g) e"
    using assms(2) by (simp add: shape_ok_def tables_ok_def)
  have "\<forall>e \<in> set (vw_events v). event_ok (gr_bindings g) e"
    using worker_events [OF worker(2) ok]
  proof
    assume "vw_events v = vw_events (group_view g)"
    then show ?thesis
      using old by (simp add: group_view_def)
  next
    assume "\<exists>e. vw_events v = vw_events (group_view g) @ [e] \<and> length (vw_events (group_view g)) < vw_capacity (group_view g)
      \<and> sent_by i (gr_workers g ! i) e"
    then obtain e where new: "vw_events v = gr_events g @ [e]" and e: "sent_by i (gr_workers g ! i) e"
      by (auto simp: group_view_def)
    from e i name have "event_ok (gr_bindings g) e"
      by (cases e) (simp_all add: event_ok_def sent_by_def)
    then show ?thesis
      using old by (simp add: new)
  qed
  then have "tables_ok g'"
    using assms(2) by (simp add: worker(3) tables_ok_def shape_ok_def)
  then show ?thesis
    using assms(2) worker_keeps_ok [OF worker(2) ok] worker_status [OF worker(2)]
    by (simp add: worker(3) shape_ok_def set_worker_nth)
next
  case (module i c c')
  have "worker_ok j (gr_workers g' ! j)" if "j < length (gr_workers g)" for j
  proof (rule worker_ok_same)
    show "worker_ok j (gr_workers g ! j)"
      using assms(2) that by (simp add: shape_ok_def)
    show "map_option (\<lambda>c. (mc_key c, mc_id c)) (wk_context (gr_workers g' ! j)) = map_option (\<lambda>c. (mc_key c, mc_id c)) (wk_context (gr_workers g ! j))"
      using module_step_context [OF module(3)] module(2) that by (auto simp: module(4) set_context_context same_context_def)
  qed (use module(4) in simp_all)
  then show ?thesis
    using assms(2) by (simp add: shape_ok_def tables_ok_def module(4))
next
  case backstage
  then show ?thesis
    using assms(2) by (simp add: shape_ok_def tables_ok_def backstage_def)
qed

lemma validate_instances:
  assumes "try_for (validate_instance r) instances ids = Inr ids'" and "distinct ids"
  shows "distinct (map (mb_namespace \<circ> ins_bindings) instances) \<and> set (map (mb_namespace \<circ> ins_bindings) instances) \<inter> set ids = {}"
  using assms
proof (induction instances arbitrary: ids)
  case (Cons inst instances)
  obtain ids1 where first: "validate_instance r inst ids = Inr ids1" and rest: "try_for (validate_instance r) instances ids1 = Inr ids'"
    using Cons.prems(1) by (auto simp: res_simps)
  have "mb_namespace (ins_bindings inst) \<notin> set ids \<and> ids1 = mb_namespace (ins_bindings inst) # ids"
    using first by (auto simp: validate_instance_def Let_def res_simps split: if_splits)
  then have new: "mb_namespace (ins_bindings inst) \<notin> set ids" and ids1: "ids1 = mb_namespace (ins_bindings inst) # ids"
    by simp_all
  show ?case
    using Cons.IH [OF rest] Cons.prems(2) new by (auto simp: ids1)
qed simp

lemma host_validate_names:
  assumes "host_validate imax now r options instances = Inr u"
  shows "instances \<noteq> []" and "distinct (map mb_namespace (map ins_bindings instances))"
proof -
  show "instances \<noteq> []"
    using assms by (auto simp: host_validate_def)
  obtain ids where "try_for (validate_instance r) instances [] = Inr ids"
    using assms by (auto simp: host_validate_def res_simps split: if_splits)
  from validate_instances [OF this] show "distinct (map mb_namespace (map ins_bindings instances))"
    by simp
qed

lemma reach_shape_ok: "group_reach l g \<Longrightarrow> shape_ok g"
proof (induction rule: group_reach.induct)
  case (Launch imax now runtime r config instances gt g)
  from Launch have "host_validate imax now r config instances = Inr ()" and g: "g = group_new config (map ins_bindings instances) gt
      (if l then Ctl_Reports else Ctl_Remote)"
    by (auto simp: prepare_steps_def res_simps)
  from host_validate_names [OF this(1)] show ?case
    by (simp add: g shape_ok_def tables_ok_def group_new_def start_worker_def worker_ok_def with_context_def held_ticket_def)
qed (rule shape_step)

end
