(* ===== verification/Host_Barrier.thy ===== *)
theory Host_Barrier
  imports Host_Shape
begin

text \<open>
  How far the admission of a group has come at each position of its coordinator: every task announces
  its ticket at most once, so after the collection no ticket is under way; the published reports are
  those of the tickets that are committed; a local controller has validated them before it advances.
\<close>

section \<open>Counting tickets\<close>

definition announced :: "Worker_pc \<Rightarrow> nat" where
  "announced p = (case p of
     W_Opening _ \<Rightarrow> 0 | W_Open_failed _ \<Rightarrow> 0 | W_Open_stopping \<Rightarrow> 0 | W_Attach \<Rightarrow> 0 | W_Opened \<Rightarrow> 0
   | W_Hook h _ \<Rightarrow> if h = Hook_Run then 1 else 0 | W_Interrupted h _ \<Rightarrow> if h = Hook_Run then 1 else 0
   | W_Finish h _ \<Rightarrow> if h = Hook_Run then 1 else 0
   | W_Preparing \<Rightarrow> 0 | W_Prepared _ \<Rightarrow> 0 | W_Announce _ \<Rightarrow> 0 | _ \<Rightarrow> 1)"

definition all_announced :: "Worker list \<Rightarrow> nat" where
  "all_announced ws = (\<Sum>w\<leftarrow>ws. announced (wk_pc w))"

definition is_ticket :: "GroupEvent \<Rightarrow> bool" where
  "is_ticket e = (case e of Event_Prepared _ _ \<Rightarrow> True | _ \<Rightarrow> False)"

definition under_way :: "GroupEvent list \<Rightarrow> nat" where
  "under_way es = length (filter is_ticket es)"

lemma under_way_simps [simp]: "under_way [] = 0" "under_way (e # es) = (if is_ticket e then 1 else 0) + under_way es"
  "under_way (es @ es') = under_way es + under_way es'"
  by (simp_all add: under_way_def)

lemma is_ticket_simps [simp]: "is_ticket (Event_Prepared ident t)" "\<not> is_ticket (Event_Opened ident i)"
  "\<not> is_ticket (Event_Failure e)" "\<not> is_ticket Event_StopRequested"
  by (simp_all add: is_ticket_def)

lemma announced_le: "announced p \<le> 1"
  by (simp add: announced_def split: Worker_pc.splits)

lemma all_announced_le: "all_announced ws \<le> length ws"
proof (induction ws)
  case (Cons w ws)
  then show ?case
    using announced_le [of "wk_pc w"] by (simp add: all_announced_def)
qed (simp add: all_announced_def)

lemma all_announced_full: "all_announced ws = length ws \<Longrightarrow> i < length ws \<Longrightarrow> announced (wk_pc (ws ! i)) = 1"
proof (induction ws arbitrary: i)
  case (Cons w ws)
  have "announced (wk_pc w) = 1" "all_announced ws = length ws"
    using Cons.prems(1) all_announced_le [of ws] announced_le [of "wk_pc w"] by (auto simp: all_announced_def)
  then show ?case
    using Cons by (cases i) auto
qed simp

lemma all_announced_update:
  "i < length ws \<Longrightarrow> all_announced (ws[i := w]) + announced (wk_pc (ws ! i)) = all_announced ws + announced (wk_pc w)"
  unfolding all_announced_def by (rule worker_sum_update)

lemma worker_announces:
  assumes "worker_step i (v, w) (v', w')"
  shows "under_way (vw_events v') + announced (wk_pc w) \<le> under_way (vw_events v) + announced (wk_pc w')
    \<and> announced (wk_pc w) \<le> announced (wk_pc w')"
  using assms
  by (cases rule: worker_step.cases)
    (auto simp: at_pc_def send_event_def view_phase_def stop_gate_def lose_def announced_def interruption_event_def
      split: Worker_pc.splits Interrupted.splits HostedEvent.splits)

lemma bt_insert_length: "length (bt_insert k v m) \<le> Suc (length m)"
  by (induction k v m rule: bt_insert.induct) auto

lemma join_result_announced: "join_result w = Some r \<Longrightarrow> announced (wk_pc w) = 1"
  by (auto simp: join_result_def announced_def split: Worker_pc.splits)

definition tickets :: "Group \<Rightarrow> nat" where
  "tickets g = under_way (gr_events g) + length (gr_prepared g)"

lemma coord_tickets:
  assumes "coord_step g g'"
  shows "tickets g' \<le> tickets g \<and> under_way (gr_events g') \<le> under_way (gr_events g)"
  using assms
proof (cases rule: coord_step.cases)
  case (Sel_event sel e es r g1)
  then show ?thesis
    using bt_insert_length by (fastforce simp: tickets_def group_simps observe_def split: GroupEvent.splits)
next
  case (Check_event a e es r g1)
  then show ?thesis
    using bt_insert_length by (fastforce simp: tickets_def group_simps observe_def split: GroupEvent.splits)
next
  case (Drain_event p cl e es cl' g1)
  then show ?thesis
    by (auto simp: tickets_def group_simps drain_event_def drop_ticket_set split: GroupEvent.splits)
next
  case (Commit_ticket b bs r alive)
  then show ?thesis
    by (auto simp: tickets_def group_simps commit_ticket_def bt_remove_def Let_def
        split: option.splits prod.splits sum.splits intro: le_trans)
qed (auto simp: tickets_def group_simps early_exit_def drain_join_def drop_ticket_set Let_def)

text \<open>Coordinator steps leave no task less announced.\<close>

lemma coord_announced:
  assumes "coord_step g g'" and "i < length (gr_workers g)"
  shows "announced (wk_pc (gr_workers g ! i)) \<le> announced (wk_pc (gr_workers g' ! i))"
proof -
  have "announced W_Joined = 1"
    by (simp add: announced_def)
  then show ?thesis
    using coord_workers [OF assms(1)] assms(2) announced_le by (metis order_refl)
qed

definition count_ok :: "Group \<Rightarrow> bool" where
  "count_ok g \<longleftrightarrow> tickets g \<le> all_announced (gr_workers g)"

text \<open>Nothing is under way any more, and nothing will be.\<close>

definition quiet :: "Group \<Rightarrow> bool" where
  "quiet g \<longleftrightarrow> under_way (gr_events g) = 0 \<and> all_announced (gr_workers g) = length (gr_workers g)"

lemma count_step:
  assumes "group_step g g'" and "count_ok g"
  shows "count_ok g'" and "quiet g \<Longrightarrow> quiet g'"
proof -
  have "count_ok g' \<and> (quiet g \<longrightarrow> quiet g')"
    using assms(1)
  proof (cases rule: group_step_cases)
    case coordinator
    have "all_announced (gr_workers g) \<le> all_announced (gr_workers g')"
      unfolding all_announced_def using coord_workers [OF coordinator] coord_announced [OF coordinator] by (intro sum_list_mono2) auto
    then show ?thesis
      using assms(2) coord_tickets [OF coordinator] coord_workers [OF coordinator] all_announced_le [of "gr_workers g'"]
      by (auto simp: count_ok_def quiet_def)
  next
    case (worker i v w)
    have "all_announced ((gr_workers g)[i := w]) + announced (wk_pc (gr_workers g ! i)) = all_announced (gr_workers g) + announced (wk_pc w)"
      by (rule all_announced_update [OF worker(1)])
    then show ?thesis
      using assms(2) worker_announces [OF worker(2)] all_announced_full [of "gr_workers g" i] announced_le [of "wk_pc w"] worker(1)
      by (auto simp: count_ok_def quiet_def tickets_def worker(3) set_worker_def group_view_def)
  next
    case (module i c c')
    have "map (\<lambda>w. announced (wk_pc w)) (gr_workers g') = map (\<lambda>w. announced (wk_pc w)) (gr_workers g)"
      by (rule nth_equalityI) (simp_all add: module(4))
    then show ?thesis
      using assms(2) by (simp add: count_ok_def quiet_def tickets_def all_announced_def module(4))
  next
    case backstage
    then show ?thesis
      using assms(2) by (simp add: count_ok_def quiet_def tickets_def backstage_def)
  qed
  then show "count_ok g'" and "quiet g \<Longrightarrow> quiet g'"
    by simp_all
qed

lemma reach_count_ok: "group_reach l g \<Longrightarrow> count_ok g"
proof (induction rule: group_reach.induct)
  case (Launch imax now runtime r config instances gt g)
  then show ?case
    by (auto simp: count_ok_def tickets_def group_new_def dest!: launch_group)
qed (rule count_step(1))

lemma collected_quiet:
  assumes "count_ok g" and "length (gr_workers g) \<le> length (gr_prepared g)"
  shows "quiet g"
  using assms all_announced_le [of "gr_workers g"] by (simp add: count_ok_def quiet_def tickets_def)

section \<open>How far the admission has come\<close>

definition validated :: "Group \<Rightarrow> bool" where
  "validated g \<longleftrightarrow> (\<exists>reports. gr_reports g = Some reports \<and> local_validate (gr_bindings g) reports = Inr ())"

text \<open>The published reports cover every ticket, and no further ticket comes.\<close>

definition published :: "Group \<Rightarrow> bool" where
  "published g \<longleftrightarrow> quiet g \<and> (\<exists>reports. gr_reports g = Some reports
     \<and> (\<forall>e \<in> set (gr_prepared g). pa_report (snd e) \<in> set reports) \<and> (\<forall>t \<in> set (gr_ready g). pa_report t \<in> set reports))"

text \<open>The tickets committed so far and the components still to commit are the whole group.\<close>

definition committing :: "bool \<Rightarrow> ModuleBindings list \<Rightarrow> Group \<Rightarrow> bool" where
  "committing l rest g \<longleftrightarrow> published g \<and> (l \<longrightarrow> validated g)
     \<and> map (mr_namespace \<circ> pa_report) (gr_ready g) @ map mb_namespace rest = map mb_namespace (gr_bindings g)"

definition check_ok :: "bool \<Rightarrow> After \<Rightarrow> Group \<Rightarrow> bool" where
  "check_ok l a g = (case a of After_collect \<Rightarrow> gr_ready g = [] \<and> gr_reports g = None \<and> quiet g | _ \<Rightarrow> committing l [] g)"

definition select_ok :: "bool \<Rightarrow> Select \<Rightarrow> Group \<Rightarrow> bool" where
  "select_ok l sel g = (case sel of
     Sel_Collect \<Rightarrow> gr_ready g = [] \<and> gr_reports g = None
   | Sel_Wait Stage_Commit \<Rightarrow> gr_ready g = [] \<and> published g
   | _ \<Rightarrow> committing l [] g)"

definition stage_ok :: "bool \<Rightarrow> Group \<Rightarrow> bool" where
  "stage_ok l g = (case gr_coord g of
     C_Select sel _ \<Rightarrow> select_ok l sel g
   | C_Check a \<Rightarrow> check_ok l a g | C_Check_contexts a _ \<Rightarrow> check_ok l a g
   | C_Check_events a \<Rightarrow> check_ok l a g | C_Check_join a \<Rightarrow> check_ok l a g
   | C_Reports \<Rightarrow> check_ok l After_collect g
   | C_Prepared \<Rightarrow> select_ok l (Sel_Wait Stage_Commit) g
   | C_Commit bs _ \<Rightarrow> committing l bs g
   | C_Commit_ticket b bs _ \<Rightarrow> committing l (b # bs) g
   | C_Ready _ bs _ \<Rightarrow> committing l bs g
   | C_Committed _ \<Rightarrow> committing l [] g | C_Commit_ack _ \<Rightarrow> committing l [] g | C_Gate _ \<Rightarrow> committing l [] g
   | C_Running _ \<Rightarrow> committing l [] g
   | C_Run _ \<Rightarrow> committing l [] g \<and> hst_phase (gr_status g) = HostPhase_Running
   | C_Run_ack _ \<Rightarrow> committing l [] g
   | _ \<Rightarrow> True)"

text \<open>A local controller that advances, and a request to advance that waits, come after the validation.\<close>

definition control_ok :: "bool \<Rightarrow> Group \<Rightarrow> bool" where
  "control_ok l g \<longleftrightarrow> l \<longrightarrow>
     gr_controller g \<noteq> Ctl_Remote
     \<and> ((\<exists>stage. gr_controller g \<in> {Ctl_Send stage, Ctl_Await stage}) \<longrightarrow> validated g)
     \<and> ((\<exists>stage r. Request_Advance stage r \<in> set (gr_control g)) \<longrightarrow> validated g)"

text \<open>All of it depends on the fields that only the coordinator changes.\<close>

definition admission_part :: "Group \<Rightarrow> ModuleBindings list \<times> (string \<times> PreparedAdmission) list \<times> PreparedAdmission list \<times> ModuleReport list option" where
  "admission_part g = (gr_bindings g, gr_prepared g, gr_ready g, gr_reports g)"

lemma committing_cong:
  assumes "admission_part g' = admission_part g" and "quiet g \<Longrightarrow> quiet g'"
  shows "committing l rest g \<Longrightarrow> committing l rest g'" and "check_ok l a g \<Longrightarrow> check_ok l a g'" and "select_ok l sel g \<Longrightarrow> select_ok l sel g'"
    and "validated g' = validated g"
proof -
  have *: "gr_bindings g' = gr_bindings g" "gr_prepared g' = gr_prepared g" "gr_ready g' = gr_ready g" "gr_reports g' = gr_reports g"
    using assms(1) by (simp_all add: admission_part_def)
  then show valid: "validated g' = validated g"
    by (simp add: validated_def)
  have published: "published g \<Longrightarrow> published g'"
    using assms(2) * by (simp add: published_def)
  then show commit: "committing l rest g \<Longrightarrow> committing l rest g'" for l rest
    using valid * by (simp add: committing_def)
  show "check_ok l a g \<Longrightarrow> check_ok l a g'" and "select_ok l sel g \<Longrightarrow> select_ok l sel g'"
    using commit published assms(2) * by (auto simp: check_ok_def select_ok_def split: After.splits Select.splits Stage.splits)
qed

lemma admission_part_frame [simp]:
  "admission_part (g\<lparr>gr_status := x0\<rparr>) = admission_part g" "quiet (g\<lparr>gr_status := x0\<rparr>) = quiet g"
  "admission_part (g\<lparr>gr_stop := x1\<rparr>) = admission_part g" "quiet (g\<lparr>gr_stop := x1\<rparr>) = quiet g"
  "admission_part (g\<lparr>gr_terminal := x2\<rparr>) = admission_part g" "quiet (g\<lparr>gr_terminal := x2\<rparr>) = quiet g"
  "admission_part (g\<lparr>gr_command := x3\<rparr>) = admission_part g" "quiet (g\<lparr>gr_command := x3\<rparr>) = quiet g"
  "admission_part (g\<lparr>gr_pending := x4\<rparr>) = admission_part g" "quiet (g\<lparr>gr_pending := x4\<rparr>) = quiet g"
  "admission_part (g\<lparr>gr_contexts := x5\<rparr>) = admission_part g" "quiet (g\<lparr>gr_contexts := x5\<rparr>) = quiet g"
  "admission_part (g\<lparr>gr_control := x6\<rparr>) = admission_part g" "quiet (g\<lparr>gr_control := x6\<rparr>) = quiet g"
  "admission_part (g\<lparr>gr_controller := x7\<rparr>) = admission_part g" "quiet (g\<lparr>gr_controller := x7\<rparr>) = quiet g"
  "admission_part (g\<lparr>gr_acks := x8\<rparr>) = admission_part g" "quiet (g\<lparr>gr_acks := x8\<rparr>) = quiet g"
  "admission_part (g\<lparr>gr_gate := x9\<rparr>) = admission_part g" "quiet (g\<lparr>gr_gate := x9\<rparr>) = quiet g"
  "admission_part (g\<lparr>gr_driver := x10\<rparr>) = admission_part g" "quiet (g\<lparr>gr_driver := x10\<rparr>) = quiet g"
  "admission_part (g\<lparr>gr_coord := x11\<rparr>) = admission_part g" "quiet (g\<lparr>gr_coord := x11\<rparr>) = quiet g"
  by (simp_all add: admission_part_def quiet_def)

lemma committing_iff:
  assumes "admission_part g' = admission_part g" and "quiet g' = quiet g"
  shows "committing l rest g' = committing l rest g" and "check_ok l a g' = check_ok l a g" and "select_ok l sel g' = select_ok l sel g"
    and "validated g' = validated g"
  using committing_cong [of g' g] committing_cong [of g g'] assms by auto

lemma committing_frame [simp]:
  "committing l rest (g\<lparr>gr_status := x0\<rparr>) = committing l rest g"
  "check_ok l a (g\<lparr>gr_status := x0\<rparr>) = check_ok l a g"
  "select_ok l sel (g\<lparr>gr_status := x0\<rparr>) = select_ok l sel g"
  "validated (g\<lparr>gr_status := x0\<rparr>) = validated g"
  "committing l rest (g\<lparr>gr_stop := x1\<rparr>) = committing l rest g"
  "check_ok l a (g\<lparr>gr_stop := x1\<rparr>) = check_ok l a g"
  "select_ok l sel (g\<lparr>gr_stop := x1\<rparr>) = select_ok l sel g"
  "validated (g\<lparr>gr_stop := x1\<rparr>) = validated g"
  "committing l rest (g\<lparr>gr_terminal := x2\<rparr>) = committing l rest g"
  "check_ok l a (g\<lparr>gr_terminal := x2\<rparr>) = check_ok l a g"
  "select_ok l sel (g\<lparr>gr_terminal := x2\<rparr>) = select_ok l sel g"
  "validated (g\<lparr>gr_terminal := x2\<rparr>) = validated g"
  "committing l rest (g\<lparr>gr_command := x3\<rparr>) = committing l rest g"
  "check_ok l a (g\<lparr>gr_command := x3\<rparr>) = check_ok l a g"
  "select_ok l sel (g\<lparr>gr_command := x3\<rparr>) = select_ok l sel g"
  "validated (g\<lparr>gr_command := x3\<rparr>) = validated g"
  "committing l rest (g\<lparr>gr_pending := x4\<rparr>) = committing l rest g"
  "check_ok l a (g\<lparr>gr_pending := x4\<rparr>) = check_ok l a g"
  "select_ok l sel (g\<lparr>gr_pending := x4\<rparr>) = select_ok l sel g"
  "validated (g\<lparr>gr_pending := x4\<rparr>) = validated g"
  "committing l rest (g\<lparr>gr_contexts := x5\<rparr>) = committing l rest g"
  "check_ok l a (g\<lparr>gr_contexts := x5\<rparr>) = check_ok l a g"
  "select_ok l sel (g\<lparr>gr_contexts := x5\<rparr>) = select_ok l sel g"
  "validated (g\<lparr>gr_contexts := x5\<rparr>) = validated g"
  "committing l rest (g\<lparr>gr_control := x6\<rparr>) = committing l rest g"
  "check_ok l a (g\<lparr>gr_control := x6\<rparr>) = check_ok l a g"
  "select_ok l sel (g\<lparr>gr_control := x6\<rparr>) = select_ok l sel g"
  "validated (g\<lparr>gr_control := x6\<rparr>) = validated g"
  "committing l rest (g\<lparr>gr_controller := x7\<rparr>) = committing l rest g"
  "check_ok l a (g\<lparr>gr_controller := x7\<rparr>) = check_ok l a g"
  "select_ok l sel (g\<lparr>gr_controller := x7\<rparr>) = select_ok l sel g"
  "validated (g\<lparr>gr_controller := x7\<rparr>) = validated g"
  "committing l rest (g\<lparr>gr_acks := x8\<rparr>) = committing l rest g"
  "check_ok l a (g\<lparr>gr_acks := x8\<rparr>) = check_ok l a g"
  "select_ok l sel (g\<lparr>gr_acks := x8\<rparr>) = select_ok l sel g"
  "validated (g\<lparr>gr_acks := x8\<rparr>) = validated g"
  "committing l rest (g\<lparr>gr_gate := x9\<rparr>) = committing l rest g"
  "check_ok l a (g\<lparr>gr_gate := x9\<rparr>) = check_ok l a g"
  "select_ok l sel (g\<lparr>gr_gate := x9\<rparr>) = select_ok l sel g"
  "validated (g\<lparr>gr_gate := x9\<rparr>) = validated g"
  "committing l rest (g\<lparr>gr_driver := x10\<rparr>) = committing l rest g"
  "check_ok l a (g\<lparr>gr_driver := x10\<rparr>) = check_ok l a g"
  "select_ok l sel (g\<lparr>gr_driver := x10\<rparr>) = select_ok l sel g"
  "validated (g\<lparr>gr_driver := x10\<rparr>) = validated g"
  "committing l rest (g\<lparr>gr_coord := x11\<rparr>) = committing l rest g"
  "check_ok l a (g\<lparr>gr_coord := x11\<rparr>) = check_ok l a g"
  "select_ok l sel (g\<lparr>gr_coord := x11\<rparr>) = select_ok l sel g"
  "validated (g\<lparr>gr_coord := x11\<rparr>) = validated g"
  by (rule committing_iff, simp, simp)+

lemma stage_cong:
  assumes "admission_part g' = admission_part g" and "quiet g \<Longrightarrow> quiet g'"
    and "gr_coord g' = gr_coord g" and "hst_phase (gr_status g') = hst_phase (gr_status g)"
  shows "stage_ok l g \<Longrightarrow> stage_ok l g'"
  using committing_cong [OF assms(1,2)] assms(3,4) by (simp add: stage_ok_def split: Coordinator_pc.splits)

text \<open>A coordinator that takes an event: an opened context changes nothing, and once all is quiet there is
  no further ticket.\<close>

lemma quiet_events:
  assumes "quiet g" and "gr_events g = e # es"
  shows "\<not> is_ticket e" and "quiet (g\<lparr>gr_events := es\<rparr>)"
  using assms by (auto simp: quiet_def split: if_splits)

lemma committing_quiet: "committing l rest g \<Longrightarrow> quiet g" "check_ok l a g \<Longrightarrow> quiet g" "select_ok l (Sel_Wait s) g \<Longrightarrow> quiet g"
    "select_ok l (Sel_Serve opn) g \<Longrightarrow> quiet g"
  by (auto simp: committing_def check_ok_def select_ok_def published_def split: After.splits Stage.splits)

lemma observe_quiet:
  assumes "quiet g" and "gr_events g = e # es" and "observe e (g\<lparr>gr_events := es\<rparr>) = (r, g')"
  shows "admission_part g' = admission_part g" and "quiet g'"
  using quiet_events [OF assms(1,2)] assms(3)
  by (auto simp: observe_def admission_part_def split: GroupEvent.splits)

lemma observe_reports: "observe e g = (r, g') \<Longrightarrow> gr_reports g' = gr_reports g \<and> gr_ready g' = gr_ready g \<and> gr_coord g' = gr_coord g
    \<and> gr_workers g' = gr_workers g \<and> gr_bindings g' = gr_bindings g"
  by (auto simp: observe_def split: GroupEvent.splits)

lemma quiet_context [simp]: "quiet (set_context i f g) = quiet g"
proof -
  have "map (\<lambda>w. announced (wk_pc w)) (gr_workers (set_context i f g)) = map (\<lambda>w. announced (wk_pc w)) (gr_workers g)"
    by (rule nth_equalityI) simp_all
  then show ?thesis
    by (simp add: quiet_def all_announced_def)
qed

lemma commit_stage:
  assumes "committing l (b # bs) g" and "tables_ok g"
  shows "stage_ok l (commit_ticket alive b bs r g)"
proof (cases "\<exists>ident. gr_coord (commit_ticket alive b bs r g) = C_Ready ident bs r")
  case True
  then obtain i t c' where t: "bt_get (gr_prepared g) (mb_namespace b) = Some t"
    and g': "commit_ticket alive b bs r g = at_coord ((set_context i (\<lambda>_. c') (g\<lparr>gr_prepared := bt_remove (mb_namespace b) (gr_prepared g)\<rparr>))
        \<lparr>gr_ready := gr_ready g @ [t]\<rparr>) (C_Ready (mb_namespace b) bs r)"
    by (auto simp: commit_ticket_def Let_def start_fail_def group_simps commit_admission_def split: option.splits prod.splits sum.splits)
  have "quiet ((set_context i (\<lambda>_. c') (g\<lparr>gr_prepared := bt_remove (mb_namespace b) (gr_prepared g)\<rparr>))\<lparr>gr_ready := gr_ready g @ [t]\<rparr>)
      = quiet (set_context i (\<lambda>_. c') (g\<lparr>gr_prepared := bt_remove (mb_namespace b) (gr_prepared g)\<rparr>))"
    by (simp add: quiet_def)
  also have "\<dots> = quiet g"
    by (simp only: quiet_context) (simp add: quiet_def)
  finally have quiet: "quiet ((set_context i (\<lambda>_. c') (g\<lparr>gr_prepared := bt_remove (mb_namespace b) (gr_prepared g)\<rparr>))
      \<lparr>gr_ready := gr_ready g @ [t]\<rparr>)"
    using assms(1) committing_quiet(1) by blast
  have name: "mr_namespace (pa_report t) = mb_namespace b"
    using assms(2) bt_get_in_set [OF t] by (auto simp: tables_ok_def event_ok_def)
  have "committing l bs ((set_context i (\<lambda>_. c') (g\<lparr>gr_prepared := bt_remove (mb_namespace b) (gr_prepared g)\<rparr>))\<lparr>gr_ready := gr_ready g @ [t]\<rparr>)"
    using assms(1) quiet bt_get_in_set [OF t] name
    by (fastforce simp: committing_def published_def validated_def bt_remove_def)
  then show ?thesis
    by (simp add: g' stage_ok_def group_simps)
next
  case False
  then have "\<exists>e. gr_coord (commit_ticket alive b bs r g) = start_fail e"
    by (auto simp: commit_ticket_def Let_def group_simps split: option.splits prod.splits sum.splits)
  then show ?thesis
    by (auto simp: stage_ok_def start_fail_def)
qed

lemma event_stage:
  assumes "gr_events g = e # es" and "observe e (g\<lparr>gr_events := es\<rparr>) = (r, g')"
  shows "committing l rest g \<Longrightarrow> committing l rest g'" and "check_ok l a g \<Longrightarrow> check_ok l a g'"
    and "sel \<noteq> Sel_Collect \<Longrightarrow> select_ok l sel g \<Longrightarrow> select_ok l sel g'"
proof -
  have *: "committing l rest g' = committing l rest g \<and> check_ok l a g' = check_ok l a g \<and> select_ok l sel g' = select_ok l sel g" if "quiet g"
    using observe_quiet [OF that assms] that by (auto intro!: committing_iff)
  show "committing l rest g \<Longrightarrow> committing l rest g'" and "check_ok l a g \<Longrightarrow> check_ok l a g'"
    using * committing_quiet by blast+
  assume "sel \<noteq> Sel_Collect" "select_ok l sel g"
  then show "select_ok l sel g'"
    using * committing_quiet(3,4) by (cases sel) blast+
qed

lemma published_frame [simp]: "published (g\<lparr>gr_control := x\<rparr>) = published g" "published (g\<lparr>gr_coord := p\<rparr>) = published g"
  "published (g\<lparr>gr_status := st\<rparr>) = published g"
  by (simp_all add: published_def)

lemma select_ok_simps:
  "select_ok l Sel_Collect g \<longleftrightarrow> gr_ready g = [] \<and> gr_reports g = None"
  "select_ok l (Sel_Wait Stage_Commit) g \<longleftrightarrow> gr_ready g = [] \<and> published g"
  "select_ok l (Sel_Wait Stage_Activate) g = committing l [] g" "select_ok l (Sel_Serve opn) g = committing l [] g"
  by (simp_all add: select_ok_def)

lemma stage_coord:
  assumes "coord_step g g'" and "stage_ok l g" and "control_ok l g" and "shape_ok g" and "count_ok g'"
  shows "stage_ok l g'"
  using assms(1)
proof (cases rule: coord_step.cases)
  case (Sel_event sel e es r g1)
  show ?thesis
  proof (cases "r = Inr False")
    case again: True
    show ?thesis
    proof (cases "sel = Sel_Collect")
      case True
      have "gr_ready g1 = []" "gr_reports g1 = None" and same: "gr_workers g1 = gr_workers g" "gr_bindings g1 = gr_bindings g"
        using observe_reports [OF Sel_event(4)] assms(2) Sel_event(2) True by (auto simp: stage_ok_def select_ok_def)
      moreover have "quiet g1" if "length (gr_bindings g1) \<le> length (gr_prepared g1)"
        using collected_quiet [OF assms(5)] that assms(4) same by (simp add: Sel_event(1) group_simps shape_ok_def)
      ultimately show ?thesis
        by (simp add: Sel_event(1) again True stage_ok_def select_again_def select_ok_def check_ok_def group_simps)
    next
      case False
      have "select_ok l sel g1"
        using event_stage(3) [OF Sel_event(3,4) False] assms(2) Sel_event(2) by (simp add: stage_ok_def)
      then show ?thesis
        using False by (cases sel) (simp_all add: Sel_event(1) again stage_ok_def select_again_def group_simps)
    qed
  next
    case False
    then show ?thesis
      by (auto simp: Sel_event(1) stage_ok_def select_fail_def start_fail_def exit_stop_def group_simps split: Select.splits sum.splits bool.splits)
  qed
next
  case (Check_event a e es r g1)
  have "check_ok l a g1"
    using event_stage(2) [OF Check_event(3,4)] assms(2) Check_event(2) by (simp add: stage_ok_def)
  then show ?thesis
    by (auto simp: Check_event(1) stage_ok_def start_fail_def exit_stop_def group_simps split: sum.splits bool.splits)
next
  case (Commit_ticket b bs r alive)
  then show ?thesis
    using commit_stage assms(2,4) by (simp add: stage_ok_def shape_ok_def)
next
  case (Sel_request sel rq rqs)
  have "l \<longrightarrow> validated g" if "rq = Request_Advance s r" for s r
    using assms(3) Sel_request(4) that by (auto simp: control_ok_def)
  then show ?thesis
    using assms(2) Sel_request(2)
    by (auto simp: Sel_request(1) stage_ok_def on_request_def select_ok_def check_ok_def select_fail_def start_fail_def committing_def group_simps
        split: Select.splits Request.splits Stage.splits)
next
  case Reports
  then show ?thesis
    using assms(2)
    by (auto simp: stage_ok_def check_ok_def select_ok_def published_def quiet_def group_simps)
qed (use assms(2) in \<open>auto simp: stage_ok_def select_ok_simps check_ok_def group_simps start_fail_def exit_stop_def select_fail_def check_done_def
    early_exit_def drain_join_def drop_ticket_set verdict_def Let_def
    split: Select.splits After.splits option.splits HostedEvent.splits if_splits\<close>)

text \<open>Reports are published once.\<close>

lemma coord_reports:
  assumes "coord_step g g'" and "stage_ok l g"
  shows "gr_reports g = None \<or> gr_reports g' = gr_reports g"
  using assms(1)
proof (cases rule: coord_step.cases)
  case (Sel_event sel e es r g1)
  then show ?thesis
    using observe_reports by (fastforce simp: group_simps)
next
  case (Check_event a e es r g1)
  then show ?thesis
    using observe_reports by (fastforce simp: group_simps)
next
  case (Drain_event p cl e es cl' g1)
  then show ?thesis
    by (auto simp: group_simps drain_event_def drop_ticket_set split: GroupEvent.splits)
next
  case (Commit_ticket b bs r alive)
  then show ?thesis
    by (auto simp: group_simps commit_ticket_def Let_def split: option.splits prod.splits sum.splits)
next
  case Reports
  then show ?thesis
    using assms(2) by (simp add: stage_ok_def check_ok_def)
qed (auto simp: group_simps early_exit_def drain_join_def drop_ticket_set Let_def)

lemma coord_control:
  assumes "coord_step g g'"
  shows "gr_controller g' = gr_controller g \<and> set (gr_control g') \<subseteq> set (gr_control g)"
  using assms
proof (cases rule: coord_step.cases)
  case (Sel_event sel e es r g1)
  then show ?thesis
    by (auto simp: group_simps observe_def split: GroupEvent.splits)
next
  case (Check_event a e es r g1)
  then show ?thesis
    by (auto simp: group_simps observe_def split: GroupEvent.splits)
next
  case (Drain_event p cl e es cl' g1)
  then show ?thesis
    by (auto simp: group_simps drain_event_def drop_ticket_set split: GroupEvent.splits)
next
  case (Commit_ticket b bs r alive)
  then show ?thesis
    by (auto simp: group_simps commit_ticket_def Let_def split: option.splits prod.splits sum.splits)
qed (auto simp: group_simps early_exit_def drain_join_def drop_ticket_set Let_def)

lemma control_cong:
  assumes "control_ok l g" and "gr_controller g' = gr_controller g" and "set (gr_control g') \<subseteq> set (gr_control g)"
    and "validated g \<Longrightarrow> validated g'"
  shows "control_ok l g'"
  using assms unfolding control_ok_def by auto

lemma controller_control:
  assumes "controller_step g g'" and "control_ok l g"
  shows "control_ok l g'"
  using assms
  by (cases rule: controller_step.cases)
    (auto simp: control_ok_def group_simps validated_def split: sum.splits option.splits Stage.splits Controller.splits)

lemma control_step:
  assumes "group_step g g'" and "stage_ok l g" and "control_ok l g"
  shows "control_ok l g'"
  using assms(1)
proof (cases rule: group_step.cases)
  case Coordinator
  have "validated g \<Longrightarrow> validated g'"
    using coord_reports [OF Coordinator assms(2)] coord_workers [OF Coordinator] by (auto simp: validated_def)
  then show ?thesis
    using control_cong [OF assms(3)] coord_control [OF Coordinator] by blast
next
  case (Worker i v w)
  then show ?thesis
    using control_cong [OF assms(3), of g'] by (simp add: validated_def)
next
  case Controller
  then show ?thesis
    using controller_control assms(3) by blast
next
  case (Driver_abort e)
  then show ?thesis
    using assms(3) by (auto simp: control_ok_def group_simps validated_def split: Controller.splits)
next
  case (Context i c c')
  then show ?thesis
    using control_cong [OF assms(3), of g'] by (simp add: validated_def)
qed (use control_cong [OF assms(3), of g'] in \<open>simp_all add: validated_def\<close>)

lemma stage_step:
  assumes "group_step g g'" and "stage_ok l g" and "control_ok l g" and "shape_ok g" and "count_ok g"
  shows "stage_ok l g'"
  using assms(1)
proof (cases rule: group_step_cases)
  case coordinator
  then show ?thesis
    using stage_coord assms count_step(1) [OF assms(1,5)] by blast
next
  case (worker i v w)
  have "hst_phase (vw_status v) = hst_phase (gr_status g)"
    using worker_status [OF worker(2)] by (auto simp: group_view_def)
  then show ?thesis
    using stage_cong [OF _ count_step(2) [OF assms(1,5)]] assms(2) by (simp add: worker(3) admission_part_def)
next
  case (module i c c')
  then show ?thesis
    using stage_cong [OF _ count_step(2) [OF assms(1,5)]] assms(2) by (simp add: admission_part_def)
next
  case backstage
  then show ?thesis
    using stage_cong [OF _ count_step(2) [OF assms(1,5)]] assms(2) by (simp add: admission_part_def backstage_def)
qed

lemma reach_stage_ok: "group_reach l g \<Longrightarrow> stage_ok l g \<and> control_ok l g"
proof (induction rule: group_reach.induct)
  case (Launch imax now runtime r config instances gt g)
  then show ?case
    by (auto simp: stage_ok_def select_ok_def control_ok_def group_new_def dest!: launch_group)
next
  case (Step g g')
  then show ?case
    using stage_step control_step reach_shape_ok reach_count_ok by blast
qed

section \<open>The barrier before the run hooks\<close>

definition released :: "Worker_pc \<Rightarrow> bool" where
  "released p = (case p of W_Released \<Rightarrow> True | W_Hook h _ \<Rightarrow> h = Hook_Run | _ \<Rightarrow> False)"

lemma worker_released:
  assumes "worker_step i (v, w) (v', w')" and "released (wk_pc w')"
  shows "released (wk_pc w) \<or> vw_command v = Command_Run"
  using assms
  by (cases rule: worker_step.cases)
    (auto simp: released_def at_pc_def lose_def activation_command_def split: Command.splits if_splits)

lemma coord_command:
  assumes "coord_step g g'"
  shows "gr_command g' = gr_command g \<or> gr_command g' \<noteq> Command_Run \<or> (\<exists>r. gr_coord g = C_Run r)"
  using assms
proof (cases rule: coord_step.cases)
  case (Sel_event sel e es r g1)
  then show ?thesis
    by (auto simp: group_simps observe_def split: GroupEvent.splits)
next
  case (Check_event a e es r g1)
  then show ?thesis
    by (auto simp: group_simps observe_def split: GroupEvent.splits)
next
  case (Drain_event p cl e es cl' g1)
  then show ?thesis
    by (auto simp: group_simps drain_event_def drop_ticket_set split: GroupEvent.splits)
next
  case (Commit_ticket b bs r alive)
  then show ?thesis
    by (auto simp: group_simps commit_ticket_def Let_def split: option.splits prod.splits sum.splits)
qed (auto simp: group_simps early_exit_def drain_join_def drop_ticket_set Let_def)

definition running :: "Group \<Rightarrow> bool" where
  "running g \<longleftrightarrow> gr_command g = Command_Run \<or> (\<exists>i < length (gr_workers g). released (wk_pc (gr_workers g ! i)))"

text \<open>The only way to a group that runs is through the position that releases it.\<close>

lemma running_step:
  assumes "group_step g g'" and "running g'"
  shows "running g \<or> (\<exists>r. gr_coord g = C_Run r)"
  using assms(1)
proof (cases rule: group_step_cases)
  case coordinator
  have "\<not> released W_Joined"
    by (simp add: released_def)
  then show ?thesis
    using assms(2) coord_workers [OF coordinator] coord_command [OF coordinator] by (auto simp: running_def) metis+
next
  case (worker i v w)
  show ?thesis
    using assms(2) worker(1) worker_released [OF worker(2)] worker_status [OF worker(2)]
    by (auto simp: running_def worker(3) set_worker_nth group_view_def split: if_splits)
next
  case (module i c c')
  then show ?thesis
    using assms(2) by (simp add: running_def)
next
  case backstage
  then show ?thesis
    using assms(2) by (simp add: running_def backstage_def)
qed

lemma group_step_bindings: "group_step g g' \<Longrightarrow> gr_bindings g' = gr_bindings g"
  by (erule group_step_cases) (use coord_workers in \<open>auto simp: backstage_def\<close>)

lemma reach_running:
  assumes "group_reach l g" and "running g"
  shows "\<exists>g0 r. group_reach l g0 \<and> group_step\<^sup>*\<^sup>* g0 g \<and> gr_coord g0 = C_Run r \<and> gr_bindings g0 = gr_bindings g"
  using assms
proof (induction rule: group_reach.induct)
  case (Launch imax now runtime r config instances gt g)
  then show ?case
    by (auto simp: running_def released_def group_new_def start_worker_def dest!: launch_group)
next
  case (Step g g')
  from running_step [OF Step.hyps(2) Step.prems] show ?case
  proof
    assume "running g"
    from Step.IH [OF this] show ?thesis
      using Step.hyps(2) group_step_bindings by (metis rtranclp.rtrancl_into_rtrancl)
  next
    assume "\<exists>r. gr_coord g = C_Run r"
    then show ?thesis
      using Step.hyps group_step_bindings by (metis r_into_rtranclp)
  qed
qed

text \<open>Names decide which task a ticket is of.\<close>

lemma ready_ports:
  assumes "shape_ok g" and "map (mr_namespace \<circ> pa_report) (gr_ready g) = map mb_namespace (gr_bindings g)"
  shows "map pa_ports (gr_ready g) = [0..<length (gr_bindings g)]"
proof (rule nth_equalityI)
  have len: "length (gr_ready g) = length (gr_bindings g)"
    using assms(2) by (metis length_map)
  then show "length (map pa_ports (gr_ready g)) = length [0..<length (gr_bindings g)]"
    by simp
  fix i
  assume "i < length (map pa_ports (gr_ready g))"
  then have i: "i < length (gr_bindings g)" "gr_ready g ! i \<in> set (gr_ready g)"
    using len by simp_all
  have "mr_namespace (pa_report (gr_ready g ! i)) = mb_namespace (gr_bindings g ! i)"
    using arg_cong [OF assms(2), of "\<lambda>xs. xs ! i"] i(1) len by simp
  moreover have "pa_ports (gr_ready g ! i) < length (gr_bindings g)"
      "mr_namespace (pa_report (gr_ready g ! i)) = mb_namespace (gr_bindings g ! pa_ports (gr_ready g ! i))"
    using assms(1) i(2) by (auto simp: shape_ok_def tables_ok_def event_ok_def)
  ultimately show "map pa_ports (gr_ready g) ! i = [0..<length (gr_bindings g)] ! i"
    using assms(1) i(1) len nth_eq_iff_index_eq [of "map mb_namespace (gr_bindings g)" i "pa_ports (gr_ready g ! i)"]
    by (simp add: shape_ok_def)
qed

end
