(* ===== verification/Host_Outcome.thy ===== *)
theory Host_Outcome
  imports Host_Shape
begin

text \<open>
  How a component group ends: which tasks have been joined (\<open>tasks_ok\<close>), that a group without a
  failure has clean statuses (\<open>clean_ok\<close>), and what the outcome says (\<open>outcome_ok\<close>).
\<close>

section \<open>Tasks still pending\<close>

abbreviation joined :: "Group \<Rightarrow> nat \<Rightarrow> bool" where
  "joined g i \<equiv> wk_pc (gr_workers g ! i) = W_Joined"

abbreviation name_of :: "Group \<Rightarrow> nat \<Rightarrow> string" where
  "name_of g i \<equiv> mb_namespace (gr_bindings g ! i)"

definition tasks_ok :: "Group \<Rightarrow> bool" where
  "tasks_ok g \<longleftrightarrow> bt_wf (gr_pending g) \<and> length (gr_workers g) = length (gr_bindings g)
     \<and> (\<forall>i < length (gr_bindings g). bt_get (gr_pending g) i = (if joined g i then None else Some (name_of g i)))
     \<and> (\<forall>i \<ge> length (gr_bindings g). bt_get (gr_pending g) i = None)"

text \<open>A step of the coordinator joins one task and forgets it, or joins none.\<close>

lemma coord_joins:
  assumes "coord_step g g'"
  shows "gr_pending g' = gr_pending g \<and> (\<forall>j < length (gr_workers g). joined g' j \<longleftrightarrow> joined g j)
    \<or> (\<exists>i. i < length (gr_workers g) \<and> \<not> joined g i \<and> gr_pending g' = bt_remove i (gr_pending g)
        \<and> (\<forall>j < length (gr_workers g). joined g' j \<longleftrightarrow> i = j \<or> joined g j))"
proof -
  have join: "\<not> joined g i" if "join_result (gr_workers g ! i) = Some r" for i r
    using that by (auto simp: join_result_def)
  show ?thesis
    using assms
  proof (cases rule: coord_step.cases)
    case (Sel_event sel e es r g1)
    then show ?thesis
      by (auto simp: group_simps observe_def split: GroupEvent.splits)
  next
    case (Check_event a e es r g1)
    then show ?thesis
      by (auto simp: group_simps observe_def split: GroupEvent.splits)
  next
    case (Drain_event p cl e es cl' g1)
    then show ?thesis
      by (auto simp: group_simps drain_event_def drop_ticket_set split: GroupEvent.splits)
  next
    case (Commit_ticket b bs r alive)
    then show ?thesis
      by (auto simp: group_simps commit_ticket_def Let_def split: option.splits prod.splits sum.splits)
  next
    case (Sel_join sel i res e g1)
    then show ?thesis
      using join [OF Sel_join(4)] by (intro disjI2 exI [of _ i]) (auto simp: group_simps early_exit_def Let_def split: if_splits)
  next
    case (Check_join a i res e g1)
    then show ?thesis
      using join [OF Check_join(4)] by (intro disjI2 exI [of _ i]) (auto simp: group_simps early_exit_def Let_def split: if_splits)
  next
    case (Drain_join p cl opn i res cl' g1)
    then show ?thesis
      using join [OF Drain_join(4)] by (intro disjI2 exI [of _ i]) (auto simp: group_simps drain_join_def Let_def split: if_splits)
  qed (auto simp: group_simps drop_ticket_set)
qed

lemma worker_joined:
  assumes "worker_step i (group_view g, gr_workers g ! i) (v, w)" and "j < length (gr_workers g)"
  shows "wk_pc (gr_workers (set_worker i w g) ! j) = W_Joined \<longleftrightarrow> joined g j"
  using worker_status [OF assms(1)] assms(2) by (auto simp: set_worker_nth)

lemma pending_step:
  assumes "group_step g g'" and "tasks_ok g"
  shows "tasks_ok g'"
  using assms(1)
proof (cases rule: group_step_cases)
  case coordinator
  note frame = coord_workers [OF this]
  from coord_joins [OF coordinator] show ?thesis
  proof
    assume "gr_pending g' = gr_pending g \<and> (\<forall>j < length (gr_workers g). joined g' j \<longleftrightarrow> joined g j)"
    then show ?thesis
      using frame assms(2) by (simp add: tasks_ok_def)
  next
    assume "\<exists>i. i < length (gr_workers g) \<and> \<not> joined g i \<and> gr_pending g' = bt_remove i (gr_pending g)
        \<and> (\<forall>j < length (gr_workers g). joined g' j \<longleftrightarrow> i = j \<or> joined g j)"
    then show ?thesis
      using frame assms(2) by (auto simp: tasks_ok_def bt_get_remove)
  qed
next
  case (worker i v w)
  then show ?thesis
    using assms(2) worker_joined [OF worker(2)] by (simp add: tasks_ok_def)
next
  case (module i c c')
  then show ?thesis
    using assms(2) by (simp add: tasks_ok_def)
next
  case backstage
  then show ?thesis
    using assms(2) by (simp add: tasks_ok_def backstage_def)
qed

lemma launch_pending: "bt_get (bt_extend [] (map (\<lambda>i. (i, f i)) [0..<n])) j = (if j < n then Some (f j) else None)"
proof -
  have "map_of (rev (map (\<lambda>i. (i, f i)) [0..<n])) j = (if j < n then Some (f j) else None)"
    by (induction n) auto
  then show ?thesis
    by (simp add: bt_extend_get)
qed

lemma reach_tasks_ok: "group_reach l g \<Longrightarrow> tasks_ok g"
proof (induction rule: group_reach.induct)
  case (Launch imax now runtime r config instances gt g)
  have "bt_wf (bt_extend [] (map (\<lambda>i. (i, mb_namespace (map ins_bindings instances ! i))) [0..<length instances]))"
    by (simp add: bt_extend_wf)
  then show ?case
    using Launch by (auto simp: tasks_ok_def group_new_def launch_pending start_worker_def dest!: launch_group)
qed (rule pending_step)

section \<open>The outcome\<close>

text \<open>An outcome other than unresponsive means that every task was joined; an unresponsive one names every
  task that was not.\<close>

definition verdict_ok :: "Group \<Rightarrow> HostOutcome \<Rightarrow> bool" where
  "verdict_ok g o' = (case o' of
     Outcome_Unresponsive _ _ instances \<Rightarrow> instances \<noteq> [] \<and> (\<forall>i < length (gr_bindings g). joined g i \<or> name_of g i \<in> set instances)
   | _ \<Rightarrow> \<forall>i < length (gr_bindings g). joined g i)"

definition outcome_ok :: "Group \<Rightarrow> bool" where
  "outcome_ok g = (case gr_coord g of
     C_Unresponsive _ o' \<Rightarrow> verdict_ok g o' \<and> o' \<noteq> Outcome_Stopped
   | C_Final o' \<Rightarrow> verdict_ok g o' | C_Terminal o' \<Rightarrow> verdict_ok g o'
   | C_End \<Rightarrow> (\<exists>o'. gr_terminal g = Some o' \<and> verdict_ok g o')
   | _ \<Rightarrow> True)"

lemma verdict_ok_move:
  "gr_bindings g' = gr_bindings g \<Longrightarrow> \<forall>j < length (gr_bindings g). joined g' j \<longleftrightarrow> joined g j \<Longrightarrow> verdict_ok g' o' = verdict_ok g o'"
  by (auto simp: verdict_ok_def split: HostOutcome.splits)

lemma outcome_move:
  assumes "gr_bindings g' = gr_bindings g" and "\<forall>j < length (gr_bindings g). joined g' j \<longleftrightarrow> joined g j"
    and "gr_coord g' = gr_coord g" and "gr_terminal g' = gr_terminal g"
  shows "outcome_ok g' = outcome_ok g"
  using verdict_ok_move [OF assms(1,2)] assms(3,4) by (simp add: outcome_ok_def split: Coordinator_pc.splits)

lemma pending_names:
  assumes "tasks_ok g" and "i < length (gr_bindings g)"
  shows "joined g i \<or> name_of g i \<in> set (map snd (gr_pending g))"
proof (cases "joined g i")
  case False
  then have "bt_get (gr_pending g) i = Some (name_of g i)"
    using assms by (simp add: tasks_ok_def)
  from bt_get_in_set [OF this] show ?thesis
    by force
qed simp

lemma verdict_outcome:
  assumes "tasks_ok g"
  shows "outcome_ok (at_coord (g\<lparr>gr_driver := d\<rparr>) (verdict p cl g))"
proof (cases "gr_pending g = []")
  case True
  then have "\<forall>i < length (gr_bindings g). joined g i"
    using pending_names [OF assms] by simp
  then show ?thesis
    using True by (simp add: outcome_ok_def group_simps verdict_def verdict_ok_def cleanup_outcome_def split: option.splits list.splits)
next
  case False
  then have "sort (map snd (gr_pending g)) \<noteq> []"
    by (metis length_0_conv length_map length_sort)
  then show ?thesis
    using False pending_names [OF assms] by (auto simp: outcome_ok_def group_simps verdict_def verdict_ok_def Let_def)
qed

lemma outcome_coord:
  assumes "coord_step g g'" and "outcome_ok g" and "tasks_ok g" and "gr_bindings g \<noteq> []"
  shows "outcome_ok g'"
  using assms(1)
proof (cases rule: coord_step.cases)
  case (Sel_event sel e es r g1)
  then show ?thesis
    by (auto simp: outcome_ok_def group_simps select_fail_def start_fail_def exit_stop_def select_again_def
        split: sum.splits bool.splits Select.splits)
next
  case (Check_event a e es r g1)
  then show ?thesis
    by (auto simp: outcome_ok_def group_simps start_fail_def exit_stop_def split: sum.splits bool.splits)
next
  case (Commit_ticket b bs r alive)
  then show ?thesis
    by (auto simp: outcome_ok_def group_simps commit_ticket_def start_fail_def Let_def split: option.splits prod.splits sum.splits)
next
  case (No_driver p cl)
  then show ?thesis
    using verdict_outcome [OF assms(3)] by simp
next
  case (Driver_failed p cl message)
  then show ?thesis
    using verdict_outcome [OF assms(3)] by simp
next
  case (Driver_timeout p cl)
  then show ?thesis
    using assms(4) by (simp add: outcome_ok_def group_simps verdict_ok_def)
next
  case (Unresponsive ident rest outcome)
  then show ?thesis
    using assms(2) verdict_ok_move [of g' g] by (simp add: outcome_ok_def group_simps)
next
  case (Aborted outcome)
  then show ?thesis
    using assms(2) verdict_ok_move [of g' g] by (simp add: outcome_ok_def group_simps)
next
  case (Final outcome)
  then show ?thesis
    using assms(2) verdict_ok_move [of g' g] by (simp add: outcome_ok_def group_simps)
next
  case (Terminal outcome)
  then show ?thesis
    using assms(2) verdict_ok_move [of g' g] by (simp add: outcome_ok_def group_simps)
qed (auto simp: outcome_ok_def group_simps select_fail_def start_fail_def exit_stop_def on_request_def check_done_def drop_ticket_set
    split: Select.splits option.splits HostedEvent.splits Request.splits Stage.splits After.splits)

lemma outcome_step:
  assumes "group_step g g'" and "outcome_ok g" and "tasks_ok g" and "gr_bindings g \<noteq> []"
  shows "outcome_ok g'"
  using assms(1)
proof (cases rule: group_step_cases)
  case coordinator
  then show ?thesis
    using outcome_coord assms by blast
next
  case (worker i v w)
  then show ?thesis
    using assms(2,3) worker_joined [OF worker(2)] outcome_move [of g' g] by (simp add: tasks_ok_def)
next
  case (module i c c')
  then show ?thesis
    using assms(2) outcome_move [of g' g] by simp
next
  case backstage
  then show ?thesis
    using assms(2) outcome_move [of g' g] by (simp add: backstage_def)
qed

section \<open>Clean statuses\<close>

definition no_failure :: "Group \<Rightarrow> bool" where
  "no_failure g \<longleftrightarrow> (case gr_coord g of
     C_Stop_gate p _ \<Rightarrow> p = None | C_Record p _ \<Rightarrow> p = None | C_Stopping p _ \<Rightarrow> p = None | C_Release p _ \<Rightarrow> p = None
   | C_Command p _ \<Rightarrow> p = None | C_Shutdown p _ \<Rightarrow> p = None | C_Drain p cl _ _ \<Rightarrow> p = None \<and> cl = [] | C_Driver p cl \<Rightarrow> p = None \<and> cl = []
   | C_Unresponsive _ _ \<Rightarrow> False | C_Final o' \<Rightarrow> o' = Outcome_Stopped | C_Terminal o' \<Rightarrow> o' = Outcome_Stopped
   | C_End \<Rightarrow> gr_terminal g = Some Outcome_Stopped | _ \<Rightarrow> True)"

definition draining :: "Coordinator_pc \<Rightarrow> bool" where
  "draining p = (case p of C_Drain _ _ _ _ \<Rightarrow> True | C_Driver _ _ \<Rightarrow> True | C_Final _ \<Rightarrow> True | C_Terminal _ \<Rightarrow> True | C_End \<Rightarrow> True | _ \<Rightarrow> False)"

definition clean_component :: "bool \<Rightarrow> ComponentStatus option \<Rightarrow> bool" where
  "clean_component is_joined c = (case c of None \<Rightarrow> False
     | Some c \<Rightarrow> cst_error c = None \<and> (is_joined \<longrightarrow> cst_phase c = Component_Stopped))"

definition clean_ok :: "Group \<Rightarrow> bool" where
  "clean_ok g \<longleftrightarrow> bt_wf (hst_components (gr_status g)) \<and> (no_failure g \<longrightarrow> (\<forall>i < length (gr_bindings g).
     clean_component (joined g i) (bt_get (hst_components (gr_status g)) (name_of g i)) \<and> (joined g i \<longrightarrow> draining (gr_coord g))))"

lemma status_wf [simp]:
  "bt_wf (hst_components st) \<Longrightarrow> bt_wf (hst_components (status_phase ident p st))"
  "bt_wf (hst_components st) \<Longrightarrow> bt_wf (hst_components (record_error e st))"
  "bt_wf (hst_components st) \<Longrightarrow> bt_wf (hst_components (joined_phase ident st))"
  by (simp_all add: status_phase_def record_error_def joined_phase_def split: option.splits)

lemma status_phase_get:
  "bt_wf (hst_components st) \<Longrightarrow> j \<noteq> ident \<Longrightarrow> bt_get (hst_components (status_phase ident p st)) j = bt_get (hst_components st) j"
  "bt_wf (hst_components st) \<Longrightarrow> clean_component False (bt_get (hst_components (status_phase ident p st)) j) = clean_component False (bt_get (hst_components st) j)"
  by (auto simp: status_phase_def bt_get_insert clean_component_def split: option.splits)

lemma joined_phase_get:
  assumes "bt_wf (hst_components st)"
  shows "j \<noteq> ident \<Longrightarrow> bt_get (hst_components (joined_phase ident st)) j = bt_get (hst_components st) j"
    and "clean_component b (bt_get (hst_components st) ident) \<Longrightarrow> clean_component True (bt_get (hst_components (joined_phase ident st)) ident)"
  using assms by (auto simp: joined_phase_def bt_get_insert clean_component_def split: option.splits)

lemma clean_component_weaken: "clean_component True c \<Longrightarrow> clean_component b c" "clean_component b c \<Longrightarrow> clean_component False c"
  by (auto simp: clean_component_def split: option.splits)

text \<open>Announcing a phase of a component whose task is not joined keeps the statuses clean.\<close>

lemma clean_phase:
  assumes "clean_ok g" and "distinct (map mb_namespace (gr_bindings g))" and "i < length (gr_bindings g)" and "\<not> joined g i"
    and "no_failure g" and "j < length (gr_bindings g)"
  shows "clean_component (joined g j) (bt_get (hst_components (status_phase (name_of g i) p (gr_status g))) (name_of g j))"
proof (cases "i = j")
  case True
  then show ?thesis
    using assms clean_component_weaken(2) by (fastforce simp: clean_ok_def status_phase_get(2))
next
  case False
  then have "name_of g j \<noteq> name_of g i"
    using assms(2,3,6) nth_eq_iff_index_eq [of "map mb_namespace (gr_bindings g)" i j] by auto
  then show ?thesis
    using assms by (simp add: clean_ok_def status_phase_get(1))
qed

lemma clean_move:
  assumes "clean_ok g" and "gr_bindings g' = gr_bindings g" and "hst_components (gr_status g') = hst_components (gr_status g)"
    and "\<forall>j < length (gr_bindings g). joined g' j \<longleftrightarrow> joined g j"
    and "no_failure g' \<Longrightarrow> no_failure g" and "no_failure g' \<Longrightarrow> draining (gr_coord g) \<Longrightarrow> draining (gr_coord g')"
  shows "clean_ok g'"
  using assms by (simp add: clean_ok_def)

lemma clean_failed: "bt_wf (hst_components (gr_status g')) \<Longrightarrow> \<not> no_failure g' \<Longrightarrow> clean_ok g'"
  by (simp add: clean_ok_def)

lemmas positions = no_failure_def draining_def exit_stop_def start_fail_def select_fail_def select_again_def check_done_def on_request_def

lemma verdict_clean:
  assumes "gr_coord g' = verdict p cl g"
  shows "no_failure g' \<longleftrightarrow> gr_pending g = [] \<and> p = None \<and> cl = []" and "no_failure g' \<Longrightarrow> draining (gr_coord g')"
  using assms by (auto simp: no_failure_def draining_def verdict_def cleanup_outcome_def Let_def split: option.splits list.splits if_splits)

lemma clean_join:
  assumes "clean_ok g" and "tasks_ok g" and "distinct (map mb_namespace (gr_bindings g))" and "gr_coord g = C_Drain p cl opn k"
    and "i < length (gr_workers g)" and "join_result (gr_workers g ! i) = Some res" and "drain_join i res cl g = (cl', g1)"
  shows "clean_ok (at_coord g1 (C_Drain p cl' opn 0))"
proof -
  let ?g' = "at_coord g1 (C_Drain p cl' opn 0)"
  have wf: "bt_wf (hst_components (gr_status g))"
    using assms(1) by (simp add: clean_ok_def)
  have len: "length (gr_workers g) = length (gr_bindings g)"
    using assms(2) by (simp add: tasks_ok_def)
  have fresh: "\<not> joined g i"
    using assms(6) by (auto simp: join_result_def)
  then have inst: "bt_get (gr_pending g) i = Some (name_of g i)"
    using assms(2,5) by (simp add: tasks_ok_def)
  have wf': "bt_wf (hst_components (gr_status g1))"
    using assms(7) wf by (auto simp: drain_join_def Let_def split: option.splits)
  show ?thesis
  proof (cases "p = None \<and> cl' = []")
    case True
    then have ok: "drain_error (Some (name_of g i)) res = None" "cl = []" "p = None"
      using assms(7) inst by (auto simp: drain_join_def Let_def split: option.splits)
    then have g1: "g1 = (mark_joined i g)\<lparr>gr_pending := bt_remove i (gr_pending g), gr_status := joined_phase (name_of g i) (gr_status g)\<rparr>"
      using assms(7) inst by (simp add: drain_join_def)
    have clean: "clean_component (joined g j) (bt_get (hst_components (gr_status g)) (name_of g j))" if "j < length (gr_bindings g)" for j
      using assms(1,4) ok that by (simp add: clean_ok_def no_failure_def)
    have own: "clean_component True (bt_get (hst_components (joined_phase (name_of g i) (gr_status g))) (name_of g i))"
      using joined_phase_get(2) [OF wf clean] assms(5) len by simp
    have "clean_component (joined g j) (bt_get (hst_components (joined_phase (name_of g i) (gr_status g))) (name_of g j))"
      if "j < length (gr_bindings g)" "j \<noteq> i" for j
    proof -
      have "name_of g j \<noteq> name_of g i"
        using assms(3,5) that len nth_eq_iff_index_eq [of "map mb_namespace (gr_bindings g)" i j] by auto
      then show ?thesis
        using clean [OF that(1)] wf by (simp add: joined_phase_get(1))
    qed
    with own show ?thesis
      using wf' len by (auto simp: clean_ok_def g1 group_simps draining_def)
  next
    case False
    then show ?thesis
      using wf' by (intro clean_failed) (auto simp: group_simps no_failure_def)
  qed
qed

lemma clean_coord:
  assumes "coord_step g g'" and "clean_ok g" and "tasks_ok g" and "distinct (map mb_namespace (gr_bindings g))" and "outcome_ok g"
  shows "clean_ok g'"
proof -
  have wf: "bt_wf (hst_components (gr_status g))" and len: "length (gr_workers g) = length (gr_bindings g)"
    using assms(2,3) by (simp_all add: clean_ok_def tasks_ok_def)
  note move = clean_move [OF assms(2)]
  show ?thesis
    using assms(1)
  proof (cases rule: coord_step.cases)
    case (Sel_event sel e es r g1)
    then show ?thesis
      by (intro move) (auto simp: group_simps observe_def positions split: GroupEvent.splits Select.splits)
  next
    case (Check_event a e es r g1)
    then show ?thesis
      by (intro move) (auto simp: group_simps observe_def positions split: GroupEvent.splits)
  next
    case (Sel_join sel i res e g1)
    then show ?thesis
      using wf by (intro clean_failed) (auto simp: group_simps early_exit_def Let_def positions split: Select.splits)
  next
    case (Check_join a i res e g1)
    then show ?thesis
      using wf by (intro clean_failed) (auto simp: group_simps early_exit_def Let_def positions)
  next
    case (Commit_ticket b bs r alive)
    then show ?thesis
      using len by (intro move) (auto simp: group_simps commit_ticket_def positions Let_def split: option.splits prod.splits sum.splits)
  next
    case (Ready ident bs r)
    then have "\<not> joined g i" if "i < length (gr_bindings g)" for i
      using assms(2) that by (auto simp: clean_ok_def positions)
    then show ?thesis
      using assms(2) wf Ready by (auto simp: clean_ok_def group_simps status_phase_get(2) positions)
  next
    case (Record p rs)
    then show ?thesis
      using assms(2) wf by (cases p) (auto simp: clean_ok_def group_simps positions)
  next
    case (Drain_event p cl e es cl' g1)
    show ?thesis
    proof (cases "\<exists>x. e = Event_Failure x")
      case True
      then show ?thesis
        using wf Drain_event
        by (intro clean_failed) (auto simp: group_simps drain_event_def same_failure_def is_some_and_def positions split: if_splits option.splits)
    next
      case False
      then show ?thesis
        using Drain_event len by (intro move) (auto simp: group_simps drain_event_def drop_ticket_set positions split: GroupEvent.splits)
    qed
  next
    case (Drain_join p cl opn i res cl' g1)
    then show ?thesis
      using clean_join [OF assms(2-4) Drain_join(2-5)] by simp
  next
    case (Unresponsive ident rest outcome)
    then show ?thesis
      using wf by (intro clean_failed) (auto simp: group_simps positions)
  next
    case (Driver_failed p cl message)
    then show ?thesis
      using verdict_clean [of g'] by (intro move) (auto simp: group_simps no_failure_def [of g])
  next
    case (No_driver p cl)
    then show ?thesis
      using verdict_clean [of g'] by (intro move) (auto simp: group_simps no_failure_def [of g])
  next
    case (Release_ready p rs t ts)
    then show ?thesis
      using len by (intro move) (auto simp: group_simps drop_ticket_set positions)
  next
    case (Release_prepared p rs ident t ts)
    then show ?thesis
      using len by (intro move) (auto simp: group_simps drop_ticket_set positions)
  next
    case (Sel_request sel rq rqs)
    then show ?thesis
      by (intro move) (auto simp: group_simps positions split: Select.splits Request.splits Stage.splits)
  next
    case (Terminal outcome)
    then show ?thesis
      by (intro move) (auto simp: group_simps positions)
  next
    case (Aborted outcome)
    then show ?thesis
      using wf assms(5) by (intro clean_failed) (auto simp: group_simps positions outcome_ok_def)
  next
    case (Final outcome)
    then show ?thesis
      by (intro move) (auto simp: group_simps positions)
  qed (intro move; auto simp: group_simps positions split: Select.splits After.splits option.splits HostedEvent.splits if_splits)+
qed

lemma clean_step:
  assumes "group_step g g'" and "clean_ok g" and "tasks_ok g" and "outcome_ok g" and "shape_ok g"
  shows "clean_ok g'"
  using assms(1)
proof (cases rule: group_step_cases)
  case coordinator
  then show ?thesis
    using clean_coord assms by (simp add: shape_ok_def)
next
  case (worker i v w)
  have i: "i < length (gr_bindings g)" and name: "wk_id (gr_workers g ! i) = name_of g i" and d: "distinct (map mb_namespace (gr_bindings g))"
    using worker(1) assms(5) by (auto simp: shape_ok_def wk_id_def)
  have fresh: "\<not> joined g i"
    using worker_status [OF worker(2)] by blast
  have same: "no_failure g' = no_failure g" "\<And>j. j < length (gr_bindings g) \<Longrightarrow> joined g' j \<longleftrightarrow> joined g j"
    using worker_joined [OF worker(2)] assms(3) by (simp_all add: worker(3) no_failure_def tasks_ok_def cong: Coordinator_pc.case_cong)
  have "vw_status v = gr_status g \<or> (\<exists>p. vw_status v = status_phase (name_of g i) p (gr_status g))"
    using worker_status [OF worker(2)] by (simp add: name group_view_def)
  then show ?thesis
  proof
    assume "vw_status v = gr_status g"
    then show ?thesis
      using assms(2) same clean_move [OF assms(2), of g'] by (simp add: worker(3))
  next
    assume "\<exists>p. vw_status v = status_phase (name_of g i) p (gr_status g)"
    then obtain p where st: "gr_status g' = status_phase (name_of g i) p (gr_status g)"
      by (auto simp: worker(3))
    have rest: "gr_bindings g' = gr_bindings g" "gr_coord g' = gr_coord g"
      by (simp_all add: worker(3))
    show ?thesis
      using assms(2) clean_phase [OF assms(2) d i fresh] same by (simp add: clean_ok_def st rest)
  qed
next
  case (module i c c')
  then show ?thesis
    using clean_move [OF assms(2), of g'] by (simp add: no_failure_def cong: Coordinator_pc.case_cong)
next
  case backstage
  then show ?thesis
    using clean_move [OF assms(2), of g'] by (simp add: backstage_def no_failure_def cong: Coordinator_pc.case_cong)
qed

lemma launch_components:
  "bt_get (hst_components (initial_status bs)) (mb_namespace b) = Some \<lparr>cst_phase = Component_Starting, cst_error = None\<rparr>" if "b \<in> set bs"
proof -
  have "map_of (rev (map (\<lambda>b. (mb_namespace b, c)) bs)) (mb_namespace b) = Some c" for c :: ComponentStatus
  proof (cases "map_of (rev (map (\<lambda>b. (mb_namespace b, c)) bs)) (mb_namespace b)")
    case None
    then show ?thesis
      using that by (simp add: map_of_eq_None_iff image_image)
  next
    case (Some x)
    from map_of_SomeD [OF this] show ?thesis
      using Some by auto
  qed
  then show ?thesis
    by (simp add: initial_status_def bt_extend_get)
qed

lemma reach_outcome_ok: "group_reach l g \<Longrightarrow> outcome_ok g \<and> clean_ok g"
proof (induction rule: group_reach.induct)
  case (Launch imax now runtime r config instances gt g)
  let ?bs = "map ins_bindings instances"
  have g: "g = group_new config ?bs gt (if l then Ctl_Reports else Ctl_Remote)"
    by (rule launch_group [OF Launch])
  have "bt_wf (hst_components (initial_status ?bs))"
    by (simp add: initial_status_def bt_extend_wf)
  moreover have "bt_get (hst_components (initial_status ?bs)) (mb_namespace (?bs ! i)) = Some \<lparr>cst_phase = Component_Starting, cst_error = None\<rparr>"
    if "i < length ?bs" for i
    by (rule launch_components) (use that nth_mem in blast)
  ultimately show ?case
    by (simp add: g outcome_ok_def clean_ok_def clean_component_def group_new_def start_worker_def)
next
  case (Step g g')
  have "tasks_ok g" "shape_ok g"
    using Step.hyps(1) reach_tasks_ok reach_shape_ok by blast+
  then show ?case
    using Step outcome_step clean_step by (simp add: shape_ok_def)
qed

end
