(* ===== verification/Host_Example.thy ===== *)
theory Host_Example
  imports Host_Shape
begin

text \<open>
  Schedules of a component group: an executable choice of one undisturbed step of the coordinator, a
  task or the controller, sound for the step relation, and with it a run of a group of one component
  from its launch to its run hook and on to its orderly end.
\<close>

section \<open>One undisturbed step\<close>

datatype Move = Move_Coordinator | Move_Task nat | Move_Fail nat | Move_Controller | Move_Stop

definition hook_next :: "Hook \<Rightarrow> View \<Rightarrow> Worker \<Rightarrow> (View \<times> Worker) option" where
  "hook_next h v w = (case h of
     Hook_Create \<Rightarrow> Some (v, at_pc w W_Preparing)
   | Hook_Prepare \<Rightarrow> Some (v, at_pc w (W_Hook Hook_Admit 0))
   | Hook_Admit \<Rightarrow> (case wk_context w of None \<Rightarrow> None | Some c \<Rightarrow> (case prepare_admission c of Inl _ \<Rightarrow> None
       | Inr (t, c') \<Rightarrow> Some (v, w\<lparr>wk_context := Some c', wk_pc := W_Prepared t\<rparr>)))
   | Hook_Run \<Rightarrow> Some (v, at_pc w (W_Hook Hook_Run 0)))"

definition task_next :: "nat \<Rightarrow> View \<Rightarrow> Worker \<Rightarrow> (View \<times> Worker) option" where
  "task_next i v w = (case wk_pc w of
     W_Opening k \<Rightarrow>
       if k = 0 then (if stop_reason (vw_command v) (vw_closed v) = None then Some (v, at_pc w (W_Opening 1)) else None)
       else if k = 1 then (case open_hosted i ex_gate0 ex_caps (Inr ()) (Inr ()) ''lab'' (wk_bindings w) of Inl _ \<Rightarrow> None
         | Inr c \<Rightarrow> Some (v, w\<lparr>wk_context := Some c, wk_pc := W_Attach\<rparr>))
       else None
   | W_Attach \<Rightarrow> (case wk_context w of None \<Rightarrow> None
       | Some c \<Rightarrow> Some (v, w\<lparr>wk_context := Some (if vw_gate v = None then c else attach_step_gate c), wk_pc := W_Opened\<rparr>))
   | W_Opened \<Rightarrow> if \<not> vw_closed v \<and> room v then Some (send_event (Event_Opened (wk_id w) i) v, at_pc w (W_Hook Hook_Create 0)) else None
   | W_Hook h k \<Rightarrow>
       if k = 0 then (case stop_reason (vw_command v) (vw_closed v) of None \<Rightarrow> Some (v, at_pc w (W_Hook h 1))
         | Some r \<Rightarrow> Some (v, at_pc w (W_Interrupted h (Interrupted_Stop r))))
       else if k = 1 then (if hosted_signal w = None then Some (v, at_pc w (W_Hook h 2)) else None)
       else if k = 2 then hook_next h v w
       else None
   | W_Preparing \<Rightarrow> Some (view_phase w Component_Preparing v, at_pc w (W_Hook Hook_Prepare 0))
   | W_Prepared t \<Rightarrow> Some (view_phase w Component_Prepared v, at_pc w (W_Announce t))
   | W_Announce t \<Rightarrow> if \<not> vw_closed v \<and> room v then Some (send_event (Event_Prepared (wk_id w) t) v, at_pc w (W_Activation 0)) else None
   | W_Activation k \<Rightarrow>
       if k = 0 then (if hosted_signal w = None then Some (v, at_pc w (W_Activation 1)) else None)
       else if k = 1 \<and> activation_command (vw_command v) (vw_closed v) = Some (Inr ()) then Some (v, at_pc w W_Released)
       else None
   | W_Released \<Rightarrow> Some (view_phase w Component_Running v, at_pc w (W_Hook Hook_Run 0))
   | W_Interrupted h r \<Rightarrow> Some (stop_gate v, at_pc w (W_Finish h r))
   | W_Finish h (Interrupted_Stop r) \<Rightarrow> Some (v, at_pc w (W_Shutdown h False r))
   | W_Finish h (Interrupted_Failure e) \<Rightarrow>
       if \<not> vw_closed v \<and> room v then Some (send_event (Event_Failure e) v, at_pc w (W_Stop_wait h (panicked (Interrupted_Failure e)))) else None
   | W_Stop_wait h p \<Rightarrow> (case stop_reason (vw_command v) (vw_closed v) of None \<Rightarrow> None | Some r \<Rightarrow> Some (v, at_pc w (W_Shutdown h p r)))
   | W_Shutdown h p r \<Rightarrow> (case wk_context w of None \<Rightarrow> None
       | Some c \<Rightarrow> Some (v, w\<lparr>wk_context := Some (trigger c), wk_pc := (if h = Hook_Create \<or> p then W_Done None else W_Stopping r)\<rparr>))
   | W_Stopping r \<Rightarrow> Some (view_phase w Component_Stopping v, at_pc w (W_Stop_hook r))
   | W_Stop_hook r \<Rightarrow> Some (v, at_pc w (W_Done (guarded_error (wk_id w) Host_StopHook Polled_Ok)))
   | _ \<Rightarrow> None)"

lemma finish_failure:
  "wk_pc w = W_Finish h (Interrupted_Failure e) \<Longrightarrow> \<not> vw_closed v \<Longrightarrow> room v \<Longrightarrow>
   worker_step i (v, w) (send_event (Event_Failure e) v, at_pc w (W_Stop_wait h (panicked (Interrupted_Failure e))))"
  by (rule worker_step.Finish_send) (simp_all add: interruption_event_def)

lemma task_next_sound:
  assumes "task_next i v w = Some (v', w')"
  shows "worker_step i (v, w) (v', w')"
proof (cases "\<exists>h p r. wk_pc w = W_Shutdown h p r")
  case True
  then obtain h p r c where w: "wk_pc w = W_Shutdown h p r" and c: "wk_context w = Some c"
    and eq: "(v', w') = (v, w\<lparr>wk_context := Some (trigger c), wk_pc := (if h = Hook_Create \<or> p then W_Done None else W_Stopping r)\<rparr>)"
    using assms by (auto simp: task_next_def split: option.splits)
  show ?thesis
    unfolding eq by (rule worker_step.Shutdown [OF w c])
next
  case False
  then show ?thesis
    using assms worker_step.Attach [of w _ i v]
    by (cases "wk_pc w")
      (auto simp: task_next_def hook_next_def simp del: One_nat_def intro: worker_step.intros finish_failure
        split: if_splits sum.splits option.splits Hook.splits Interrupted.splits)
qed

text \<open>The run hook returns an error.\<close>

definition fail_next :: "View \<Rightarrow> Worker \<Rightarrow> (View \<times> Worker) option" where
  "fail_next v w =
     (if wk_pc w = W_Hook Hook_Run 2
      then Some (v, at_pc w (W_Interrupted Hook_Run (Interrupted_Failure (HostError_new Host_Run (Some (wk_id w)) ''broken'')))) else None)"

lemma fail_next_sound: "fail_next v w = Some (v', w') \<Longrightarrow> worker_step i (v, w) (v', w')"
  using worker_step.Hook_error [of w Hook_Run "Polled_Err ''broken''" _ i v]
  by (auto simp: fail_next_def guarded_error_def hook_code_def split: if_splits)

definition select_next :: "Group \<Rightarrow> Select \<Rightarrow> nat \<Rightarrow> Group option" where
  "select_next g sel k =
     (if k = 0 then Some (at_coord g (if gr_stop g then exit_stop else C_Select sel 1))
      else if k = 1 then (case gr_events g of
          e # es \<Rightarrow> (case observe e (g\<lparr>gr_events := es\<rparr>) of (Inr False, g') \<Rightarrow> Some (at_coord g' (select_again g' sel)) | _ \<Rightarrow> None)
        | [] \<Rightarrow> if senders_gone g then None else Some (at_coord g (C_Select sel 2)))
      else if k = 2 then (if list_all (\<lambda>w. join_result w = None) (gr_workers g) then Some (at_coord g (C_Select sel 3)) else None)
      else if k = 3 then (case gr_control g of
          rq # rqs \<Rightarrow> if sel = Sel_Serve False then None else Some (at_coord (g\<lparr>gr_control := rqs\<rparr>) (on_request g sel rq))
        | [] \<Rightarrow> if sel \<noteq> Sel_Serve False \<and> control_closed g
             then Some (at_coord g (if sel = Sel_Serve True then C_Select (Sel_Serve False) 0 else exit_stop))
             else Some (at_coord g (C_Select sel 4)))
      else if k = 4 then Some (at_coord g (C_Select sel 0))
      else None)"

lemma select_next_sound: "gr_coord g = C_Select sel k \<Longrightarrow> select_next g sel k = Some g' \<Longrightarrow> coord_step g g'"
proof -
  assume g: "gr_coord g = C_Select sel k" and taken: "select_next g sel k = Some g'"
  consider "k = 0" | "k = 1" | "k = 2" | "k = 3" | "k = 4"
    using taken by (auto simp: select_next_def split: if_splits)
  then show "coord_step g g'"
  proof cases
    case 1
    then show ?thesis
      using g taken coord_step.Sel_stop [of g sel] coord_step.Sel_no_stop [of g sel] by (auto simp: select_next_def)
  next
    case 2
    then show ?thesis
      using g taken coord_step.Sel_event [of g sel] coord_step.Sel_no_event [of g sel]
      by (fastforce simp: select_next_def split: list.splits if_splits prod.splits sum.splits bool.splits)
  next
    case 3
    then show ?thesis
      using g taken coord_step.Sel_no_join [of g sel] by (auto simp: select_next_def list_all_iff split: if_splits)
  next
    case 4
    then show ?thesis
      using g taken coord_step.Sel_request [of g sel] coord_step.Sel_closed [of g sel] coord_step.Sel_no_request [of g sel]
      by (auto simp: select_next_def split: list.splits if_splits)
  next
    case 5
    then show ?thesis
      using g taken coord_step.Sel_park [of g sel] by (auto simp: select_next_def)
  qed
qed

definition coord_next :: "Group \<Rightarrow> Group option" where
  "coord_next g = (case gr_coord g of
     C_Select sel k \<Rightarrow> select_next g sel k
   | C_Check a \<Rightarrow> Some (at_coord g (if gr_stop g then exit_stop else C_Check_contexts a (gr_contexts g)))
   | C_Check_contexts a [] \<Rightarrow> Some (at_coord g (C_Check_events a))
   | C_Check_contexts a ((ident, i) # rest) \<Rightarrow>
       if hosted_signal (gr_workers g ! i) = None then Some (at_coord g (C_Check_contexts a rest)) else None
   | C_Check_events a \<Rightarrow> if gr_events g = [] then Some (at_coord g (C_Check_join a)) else None
   | C_Check_join a \<Rightarrow> if list_all (\<lambda>w. join_result w = None) (gr_workers g) then Some (at_coord g (check_done a)) else None
   | C_Reports \<Rightarrow> Some (at_coord (g\<lparr>gr_reports := Some (map (pa_report \<circ> snd) (gr_prepared g))\<rparr>) C_Prepared)
   | C_Prepared \<Rightarrow> Some (at_coord (g\<lparr>gr_status := set_phase HostPhase_Prepared (gr_status g)\<rparr>) (C_Select (Sel_Wait Stage_Commit) 0))
   | C_Commit [] r \<Rightarrow> Some (at_coord g (C_Check (After_commit r)))
   | C_Commit (b # bs) r \<Rightarrow> Some (at_coord g (if gr_stop g then exit_stop else C_Commit_ticket b bs r))
   | C_Commit_ticket b bs r \<Rightarrow> Some (commit_ticket (Inr ()) b bs r g)
   | C_Ready ident bs r \<Rightarrow> Some (at_coord (g\<lparr>gr_status := status_phase ident Component_Ready (gr_status g)\<rparr>) (C_Commit bs r))
   | C_Committed r \<Rightarrow> Some (at_coord (g\<lparr>gr_status := set_phase HostPhase_Committed (gr_status g)\<rparr>) (C_Commit_ack r))
   | C_Commit_ack r \<Rightarrow> Some (at_coord (g\<lparr>gr_acks := r # gr_acks g\<rparr>) (C_Select (Sel_Wait Stage_Activate) 0))
   | C_Gate r \<Rightarrow> Some (at_coord (g\<lparr>gr_gate := map_option activate (gr_gate g)\<rparr>) (C_Running r))
   | C_Running r \<Rightarrow> Some (at_coord (g\<lparr>gr_status := set_phase HostPhase_Running (gr_status g)\<rparr>) (C_Run r))
   | C_Run r \<Rightarrow> Some (at_coord (g\<lparr>gr_command := Command_Run\<rparr>) (C_Run_ack r))
   | C_Run_ack r \<Rightarrow> Some (at_coord (g\<lparr>gr_acks := r # gr_acks g\<rparr>) (C_Select (Sel_Serve True) 0))
   | C_Stop_gate p rs \<Rightarrow> Some (at_coord (g\<lparr>gr_gate := map_option gate_stop (gr_gate g)\<rparr>) (C_Record p rs))
   | C_Record p rs \<Rightarrow>
       Some (at_coord (g\<lparr>gr_status := (case p of None \<Rightarrow> gr_status g | Some e \<Rightarrow> record_error e (gr_status g))\<rparr>) (C_Stopping p rs))
   | C_Stopping p rs \<Rightarrow> Some (at_coord (g\<lparr>gr_status := set_phase HostPhase_Stopping (gr_status g)\<rparr>) (C_Release p rs))
   | C_Release p rs \<Rightarrow> (case gr_ready g of
         t # ts \<Rightarrow> Some ((drop_ticket t g)\<lparr>gr_ready := ts\<rparr>)
       | [] \<Rightarrow> (case gr_prepared g of
           (ident, t) # ts \<Rightarrow> Some ((drop_ticket t g)\<lparr>gr_prepared := ts\<rparr>)
         | [] \<Rightarrow> Some (at_coord g (C_Command p rs))))
   | C_Command p rs \<Rightarrow> Some (at_coord (g\<lparr>gr_command := Command_Stop rs\<rparr>) (C_Shutdown p (map snd (gr_contexts g))))
   | C_Shutdown p [] \<Rightarrow> Some (at_coord g (C_Drain p [] True 0))
   | C_Shutdown p (i # rest) \<Rightarrow> Some (at_coord (set_context i trigger g) (C_Shutdown p rest))
   | _ \<Rightarrow> None)"

lemma coord_next_sound: "coord_next g = Some g' \<Longrightarrow> coord_step g g'"
  using coord_step.Check_stop [of g] coord_step.Check_context [of g] coord_step.Commit_stop [of g]
  by (cases "gr_coord g")
    (auto simp: coord_next_def list_all_iff simp del: One_nat_def intro: coord_step.intros select_next_sound split: if_splits list.splits)

text \<open>The end of a drain: every task that is done is joined, then the outcome is published.\<close>

definition drain_next :: "Group \<Rightarrow> Group option" where
  "drain_next g = (case gr_coord g of
     C_Drain p cl opn k \<Rightarrow>
       if k = 0 then Some (at_coord g (if list_all (\<lambda>w. wk_pc w = W_Joined) (gr_workers g) then C_Driver p cl else C_Drain p cl opn 1))
       else if k = 1 then (if gr_events g = [] then Some (at_coord g (if opn \<and> senders_gone g then C_Drain p cl False 0 else C_Drain p cl opn 2)) else None)
       else if k = 2 then (case find (\<lambda>i. join_result (gr_workers g ! i) \<noteq> None) [0..<length (gr_workers g)] of
           None \<Rightarrow> Some (at_coord g (C_Drain p cl opn 0))
         | Some i \<Rightarrow> (case drain_join i (the (join_result (gr_workers g ! i))) cl g of (cl', g') \<Rightarrow> Some (at_coord g' (C_Drain p cl' opn 0))))
       else None
   | C_Driver p cl \<Rightarrow> if gr_driver g = Task_None then Some (at_coord (g\<lparr>gr_driver := Task_None\<rparr>) (verdict p cl g)) else None
   | C_Final outcome \<Rightarrow>
       Some (at_coord (g\<lparr>gr_contexts := [], gr_status := set_phase (outcome_phase outcome) (gr_status g)\<rparr>) (C_Terminal outcome))
   | C_Terminal outcome \<Rightarrow> Some (at_coord (g\<lparr>gr_terminal := Some outcome\<rparr>) C_End)
   | _ \<Rightarrow> coord_next g)"

lemma drain_sound:
  assumes g: "gr_coord g = C_Drain p cl opn k" and taken: "drain_next g = Some g'"
  shows "coord_step g g'"
proof -
  consider "k = 0" | "k = 1" | "k = 2"
    using assms by (auto simp: drain_next_def split: if_splits)
  then show ?thesis
  proof cases
    case 1
    then show ?thesis
      using assms coord_step.Drain_done [of g p cl opn] coord_step.Drain_poll [of g p cl opn]
      by (auto simp: drain_next_def list_all_iff split: if_splits)
  next
    case 2
    then show ?thesis
      using assms coord_step.Drain_senders [of g p cl] coord_step.Drain_no_event [of g p cl opn]
      by (auto simp: drain_next_def split: if_splits)
  next
    case 3
    show ?thesis
    proof (cases "find (\<lambda>i. join_result (gr_workers g ! i) \<noteq> None) [0..<length (gr_workers g)]")
      case None
      then have "\<forall>w \<in> set (gr_workers g). join_result w = None"
        by (auto simp: find_None_iff in_set_conv_nth)
      then show ?thesis
        using assms 3 None coord_step.Drain_park [of g p cl opn] by (simp add: drain_next_def)
    next
      case (Some i)
      then obtain res where "i < length (gr_workers g)" "join_result (gr_workers g ! i) = Some res"
        by (auto simp: find_Some_iff)
      then show ?thesis
        using assms 3 Some coord_step.Drain_join [of g p cl opn i res] by (auto simp: drain_next_def split: prod.splits)
    qed
  qed
qed

lemma drain_next_sound: "drain_next g = Some g' \<Longrightarrow> coord_step g g'"
  using coord_step.No_driver [of g] coord_step.Final [of g] coord_step.Terminal [of g]
  by (cases "gr_coord g") (auto intro: drain_sound coord_next_sound simp: drain_next_def split: if_splits)

definition controller_next :: "Group \<Rightarrow> Group option" where
  "controller_next g = (case gr_controller g of
     Ctl_Reports \<Rightarrow> (case gr_reports g of
         None \<Rightarrow> None
       | Some reports \<Rightarrow> if local_validate (gr_bindings g) reports = Inr () then Some (with_controller (Ctl_Send Stage_Commit) g) else None)
   | Ctl_Send stage \<Rightarrow>
       if gr_coord g \<noteq> C_End \<and> gr_control g = []
       then Some (with_controller (Ctl_Await stage) (send_request (Request_Advance stage (stage_reply stage)) g)) else None
   | Ctl_Await stage \<Rightarrow>
       if stage_reply stage \<in> set (gr_acks g)
       then Some (with_controller (case stage of Stage_Commit \<Rightarrow> Ctl_Send Stage_Activate | Stage_Activate \<Rightarrow> Ctl_Gone) g) else None
   | _ \<Rightarrow> None)"

lemma controller_next_sound: "controller_next g = Some g' \<Longrightarrow> controller_step g g'"
  using controller_step.Reports_seen [of g] controller_step.Send [of g] controller_step.Await_reply [of g]
  by (cases "gr_controller g") (fastforce simp: controller_next_def split: option.splits if_splits)+

section \<open>Schedules\<close>

definition move_task :: "nat \<Rightarrow> (View \<Rightarrow> Worker \<Rightarrow> (View \<times> Worker) option) \<Rightarrow> Group \<Rightarrow> Group option" where
  "move_task i f g = (if i < length (gr_workers g) then (case f (group_view g) (gr_workers g ! i) of None \<Rightarrow> None
     | Some (v, w) \<Rightarrow> Some ((set_worker i w g)\<lparr>gr_events := vw_events v, gr_status := vw_status v, gr_gate := vw_gate v\<rparr>)) else None)"

definition move :: "Move \<Rightarrow> Group \<Rightarrow> Group option" where
  "move m g = (case m of
     Move_Coordinator \<Rightarrow> drain_next g
   | Move_Task i \<Rightarrow> move_task i (task_next i) g
   | Move_Fail i \<Rightarrow> move_task i fail_next g
   | Move_Controller \<Rightarrow> controller_next g
   | Move_Stop \<Rightarrow> Some (g\<lparr>gr_stop := True\<rparr>))"

fun follow :: "Move list \<Rightarrow> Group \<Rightarrow> Group option" where
  "follow [] g = Some g"
| "follow (m # ms) g = (case move m g of None \<Rightarrow> None | Some g' \<Rightarrow> follow ms g')"

lemma move_task_sound:
  assumes "move_task i f g = Some g'" and "\<And>v w v' w'. f v w = Some (v', w') \<Longrightarrow> worker_step i (v, w) (v', w')"
  shows "group_step g g'"
  using assms(1) by (auto simp: move_task_def intro: group_step.intros assms(2) split: if_splits option.splits)

lemma move_sound: "move m g = Some g' \<Longrightarrow> group_step g g'"
  using group_step.Stop [of g]
  by (cases m)
    (auto simp: move_def intro: group_step.intros drain_next_sound controller_next_sound
      move_task_sound [OF _ task_next_sound] move_task_sound [OF _ fail_next_sound])

lemma follow_reach: "follow ms g = Some g' \<Longrightarrow> group_reach l g \<Longrightarrow> group_reach l g'"
  by (induction ms g rule: follow.induct) (auto intro: group_reach.Step move_sound split: option.splits)

lemma follow_steps: "follow ms g = Some g' \<Longrightarrow> group_step\<^sup>*\<^sup>* g g'"
proof (induction ms g rule: follow.induct)
  case (2 m ms g)
  then obtain g1 where "move m g = Some g1" "follow ms g1 = Some g'"
    by (auto split: option.splits)
  then show ?case
    using 2(1) move_sound by (meson converse_rtranclp_into_rtranclp)
qed simp

section \<open>A group of two components\<close>

text \<open>Two components without ports: from the launch to the position that releases them, to the run hook
  of the second one, and after a stop to the end.\<close>

definition ex_part :: "string \<Rightarrow> ModuleBindings" where
  "ex_part name = \<lparr>mb_version = 3, mb_namespace = name, mb_endpoint_namespace = name, mb_inputs = [], mb_outputs = [], mb_children = [],
     mb_executables = []\<rparr>"

definition ex_config :: HostConfiguration where
  "ex_config = \<lparr>hc_domain = ''lab'', hc_startup_timeout = None, hc_stop_timeout = None\<rparr>"

definition ex_instance :: "string \<Rightarrow> ComponentInstanceSpec" where
  "ex_instance name = \<lparr>ins_factory_id = ''part'', ins_bindings = ex_part name, ins_config_origin = None\<rparr>"

definition ex_launch :: "HostError + Group" where
  "ex_launch = prepare_steps 1000 0 (Inr ()) \<lparr>cr_factories = [''part''], cr_step_factories = []\<rparr> ex_config
     [ex_instance ''app/arm'', ex_instance ''app/leg''] None Ctl_Reports"

definition to_barrier :: "Move list" where
  "to_barrier = replicate 16 (Move_Task 0) @ replicate 16 (Move_Task 1) @ replicate 16 Move_Coordinator @ [Move_Controller, Move_Controller]
     @ replicate 19 Move_Coordinator @ [Move_Controller, Move_Controller] @ replicate 12 Move_Coordinator"

definition to_run :: "Move list" where
  "to_run = [Move_Coordinator] @ replicate 3 (Move_Task 1)"

definition to_end :: "Move list" where
  "to_end = replicate 3 (Move_Task 0) @ [Move_Stop] @ replicate 12 Move_Coordinator @ replicate 6 (Move_Task 0) @ replicate 6 (Move_Task 1)
     @ replicate 12 Move_Coordinator"

text \<open>Another end: the coordinator drains the queue and joins the second task; it finds the queue empty once
  more, then the run hook of the first component fails, the failure is sent, the task ends and is
  joined in the same round.\<close>

definition to_race :: "Move list" where
  "to_race = replicate 5 (Move_Task 0) @ [Move_Stop] @ replicate 12 Move_Coordinator @ replicate 6 (Move_Task 1)
     @ replicate 5 Move_Coordinator @ [Move_Fail 0] @ replicate 6 (Move_Task 0) @ replicate 5 Move_Coordinator"

definition ex_launched :: Group where
  "ex_launched = projr ex_launch"

definition ex_sending :: Group where
  "ex_sending = the (follow (replicate 3 (Move_Task 0)) ex_launched)"

definition ex_running :: Group where
  "ex_running = the (follow (to_barrier @ to_run) ex_launched)"

definition ex_raced :: Group where
  "ex_raced = the (follow to_race ex_running)"

definition ex_ended :: Group where
  "ex_ended = the (follow to_end ex_running)"

text \<open>One evaluation of the whole run.\<close>

lemma ex_run_facts:
  "is_ok ex_launch \<and> (case follow (replicate 3 (Move_Task 0)) (projr ex_launch) of None \<Rightarrow> False
       | Some g \<Rightarrow> length (gr_workers g) = 2 \<and> wk_pc (gr_workers g ! 0) = W_Opened)
   \<and> (case follow (to_barrier @ to_run) (projr ex_launch) of None \<Rightarrow> False
       | Some g \<Rightarrow> length (gr_workers g) = 2 \<and> wk_pc (gr_workers g ! 1) = W_Hook Hook_Run 0
           \<and> (case follow to_race g of None \<Rightarrow> False
                | Some g' \<Rightarrow> gr_terminal g' = Some Outcome_Stopped
                    \<and> gr_events g' = [Event_Failure (HostError_new Host_Run (Some ''app/arm'') ''broken'')]
                    \<and> list_all (\<lambda>w. wk_pc w = W_Joined) (gr_workers g'))
           \<and> (case follow to_end g of None \<Rightarrow> False
                | Some g' \<Rightarrow> gr_terminal g' = Some Outcome_Stopped \<and> length (gr_bindings g') = 2 \<and> gr_controller g' = Ctl_Await Stage_Activate))"
  by code_simp

lemma is_ok_projr: "is_ok r \<Longrightarrow> r = Inr (projr r)"
  by (cases r) (simp_all add: is_ok_def)

lemma ex_launched_reach: "group_reach True ex_launched"
proof -
  have "is_ok ex_launch"
    using ex_run_facts by blast
  then have "ex_launch = Inr ex_launched"
    unfolding ex_launched_def by (rule is_ok_projr)
  then show ?thesis
    unfolding ex_launch_def by (intro group_reach.Launch) simp
qed

lemma ex_follows:
  "follow (replicate 3 (Move_Task 0)) ex_launched = Some ex_sending" "follow (to_barrier @ to_run) ex_launched = Some ex_running"
  "follow to_end ex_running = Some ex_ended" "follow to_race ex_running = Some ex_raced"
  using ex_run_facts unfolding ex_launched_def ex_sending_def ex_running_def ex_ended_def ex_raced_def by (auto split: option.splits)

lemma ex_states:
  "length (gr_workers ex_sending) = 2 \<and> wk_pc (gr_workers ex_sending ! 0) = W_Opened"
  "length (gr_workers ex_running) = 2 \<and> wk_pc (gr_workers ex_running ! 1) = W_Hook Hook_Run 0"
  "gr_terminal ex_ended = Some Outcome_Stopped \<and> length (gr_bindings ex_ended) = 2 \<and> gr_controller ex_ended = Ctl_Await Stage_Activate"
  "gr_terminal ex_raced = Some Outcome_Stopped
     \<and> gr_events ex_raced = [Event_Failure (HostError_new Host_Run (Some ''app/arm'') ''broken'')]
     \<and> list_all (\<lambda>w. wk_pc w = W_Joined) (gr_workers ex_raced)"
  using ex_run_facts ex_follows unfolding ex_launched_def by simp_all

lemmas ex_sending_reach = follow_reach [OF ex_follows(1) ex_launched_reach]
lemmas ex_running_reach = follow_reach [OF ex_follows(2) ex_launched_reach]
lemmas ex_ended_reach = follow_reach [OF ex_follows(3) ex_running_reach]

lemmas ex_sending_state = ex_states(1) [THEN conjunct1] ex_states(1) [THEN conjunct2]
lemmas ex_running_state = ex_states(2) [THEN conjunct1] ex_states(2) [THEN conjunct2]
lemmas ex_ended_state = ex_states(3) [THEN conjunct1] ex_states(3) [THEN conjunct2, THEN conjunct1] ex_states(3) [THEN conjunct2, THEN conjunct2]

text \<open>A failure may stay unread. The last round of the drain polls the queue before it polls the tasks; a
  failure that is sent between the two, by the task that is joined in that round, is never received,
  and the outcome is that of an orderly stop.\<close>

theorem failure_unread:
  "\<exists>g e. group_reach True g \<and> gr_terminal g = Some Outcome_Stopped \<and> Event_Failure e \<in> set (gr_events g) \<and> he_code e = Host_Run
     \<and> list_all (\<lambda>w. wk_pc w = W_Joined) (gr_workers g)"
  using follow_reach [OF ex_follows(4) ex_running_reach] ex_states(4)
  by (intro exI [of _ ex_raced] exI [of _ "HostError_new Host_Run (Some ''app/arm'') ''broken''"]) (simp add: HostError_new_def)

end
