(* ===== verification/Host_Correct.thy ===== *)
theory Host_Correct
  imports Host_Barrier Host_Outcome Host_Example
begin

text \<open>
  What a component group promises, in every interleaving of its coordinator, tasks, controller, step
  driver and components: no run hook before the whole group is admitted, an outcome that says the
  truth, a terminal state that stays, and an event queue that never fills.
\<close>

section \<open>The end is final\<close>

lemma ended_step:
  assumes "group_step g g'" and "gr_coord g = C_End" and "phase_ok g"
  shows "gr_coord g' = C_End \<and> gr_terminal g' = gr_terminal g \<and> gr_status g' = gr_status g"
  using assms(1)
proof (cases rule: group_step_cases)
  case coordinator
  then show ?thesis
    using assms(2) by (cases rule: coord_step.cases) simp_all
next
  case (worker i v w)
  have "final_phase (hst_phase (gr_status g))"
    using assms(2,3) by (auto simp: phase_ok_def)
  then have "vw_status v = gr_status g"
    using worker_status [OF worker(2)] by (auto simp: group_view_def status_phase_def)
  then show ?thesis
    using assms(2) by (simp add: worker(3))
next
  case (module i c c')
  then show ?thesis
    using assms(2) by simp
next
  case backstage
  then show ?thesis
    using assms(2) by (simp add: backstage_def)
qed

lemma ended_steps:
  assumes "group_step\<^sup>*\<^sup>* g g'" and "group_reach l g" and "gr_coord g = C_End"
  shows "group_reach l g' \<and> gr_coord g' = C_End \<and> gr_terminal g' = gr_terminal g \<and> gr_status g' = gr_status g"
  using assms
proof (induction rule: rtranclp_induct)
  case (step g1 g2)
  then show ?case
    using ended_step [OF step.hyps(2)] reach_phase_ok group_reach.Step by metis
qed simp

lemma terminal_end: "phase_ok g \<Longrightarrow> gr_terminal g = Some o' \<Longrightarrow> gr_coord g = C_End \<and> hst_phase (gr_status g) = outcome_phase o'"
  by (auto simp: phase_ok_def split: Coordinator_pc.splits)

section \<open>Properties\<close>

text \<open>The barrier before the run hooks. When a task of a group is in its run hook, the group has passed through a state in which the
  status said running, the ticket of every component of the group had been committed (one each, in the order of the bindings), the
  published reports contained the report of every committed ticket, and, for a group under the local controller, these reports had
  passed the validation of the whole graph.\<close>

theorem run_barrier:
  assumes "group_reach is_local g" and "i < length (gr_workers g)" and "wk_pc (gr_workers g ! i) = W_Hook Hook_Run k"
  shows "\<exists>g0 r reports. group_reach is_local g0 \<and> group_step\<^sup>*\<^sup>* g0 g \<and> gr_coord g0 = C_Run r \<and> gr_bindings g0 = gr_bindings g
    \<and> hst_phase (gr_status g0) = HostPhase_Running
    \<and> map pa_ports (gr_ready g0) = [0..<length (gr_bindings g)]
    \<and> map (mr_namespace \<circ> pa_report) (gr_ready g0) = map mb_namespace (gr_bindings g)
    \<and> gr_reports g0 = Some reports \<and> set (map pa_report (gr_ready g0)) \<subseteq> set reports
    \<and> (is_local \<longrightarrow> local_validate (gr_bindings g) reports = Inr ())"
proof -
  have "running g"
    using assms(2,3) by (auto simp: running_def released_def)
  from reach_running [OF assms(1) this] obtain g0 r where g0: "group_reach is_local g0" "group_step\<^sup>*\<^sup>* g0 g" "gr_coord g0 = C_Run r"
      "gr_bindings g0 = gr_bindings g"
    by blast
  have stage: "committing is_local [] g0" and running: "hst_phase (gr_status g0) = HostPhase_Running"
    using reach_stage_ok [OF g0(1)] g0(3) by (simp_all add: stage_ok_def)
  have names: "map (mr_namespace \<circ> pa_report) (gr_ready g0) = map mb_namespace (gr_bindings g0)"
    using stage by (simp add: committing_def)
  from stage obtain reports where reports: "gr_reports g0 = Some reports" "\<forall>t \<in> set (gr_ready g0). pa_report t \<in> set reports"
      "is_local \<longrightarrow> local_validate (gr_bindings g0) reports = Inr ()"
    by (auto simp: committing_def published_def validated_def)
  show ?thesis
    using g0 running names reports ready_ports [OF reach_shape_ok [OF g0(1)] names] by auto
qed

theorem run_barrier_witness:
  "group_reach True ex_running \<and> wk_pc (gr_workers ex_running ! 1) = W_Hook Hook_Run 0
    \<and> (\<exists>g0 r reports. group_step\<^sup>*\<^sup>* g0 ex_running \<and> gr_coord g0 = C_Run r \<and> map pa_ports (gr_ready g0) = [0, 1]
        \<and> gr_reports g0 = Some reports \<and> local_validate (gr_bindings ex_running) reports = Inr ())"
proof -
  have two: "1 < length (gr_workers ex_running)" "length (gr_bindings ex_running) = 2"
    using ex_running_state(1) reach_shape_ok [OF ex_running_reach] by (simp_all add: shape_ok_def)
  have "[0..<2] = [0, Suc 0]"
    by (simp add: upt_rec)
  then show ?thesis
    using run_barrier [OF ex_running_reach two(1) ex_running_state(2)] ex_running_reach ex_running_state(2)
    unfolding two(2) by auto
qed

text \<open>What the outcome of a group says. A group that ends as stopped has joined every task, and its status records every component
  as stopped and no error for any of them (an error that was sent but never received is not recorded, see \<open>failure_unread\<close>). A
  group that ends as failed has joined every task. A group that ends as unresponsive names at least one instance, and every task it did
  not join is among the named ones. The final phase of the status is the one of the outcome.\<close>

theorem outcome_sound:
  assumes "group_reach is_local g" and "gr_terminal g = Some outcome"
  shows "hst_phase (gr_status g) = outcome_phase outcome \<and> (case outcome of
      Outcome_Stopped \<Rightarrow> \<forall>i < length (gr_bindings g). wk_pc (gr_workers g ! i) = W_Joined
        \<and> bt_get (hst_components (gr_status g)) (mb_namespace (gr_bindings g ! i)) = Some \<lparr>cst_phase = Component_Stopped, cst_error = None\<rparr>
    | Outcome_Failed primary cleanup \<Rightarrow> \<forall>i < length (gr_bindings g). wk_pc (gr_workers g ! i) = W_Joined
    | Outcome_Unresponsive primary cleanup instances \<Rightarrow> instances \<noteq> [] \<and> (\<forall>i < length (gr_bindings g).
        wk_pc (gr_workers g ! i) \<noteq> W_Joined \<longrightarrow> mb_namespace (gr_bindings g ! i) \<in> set instances))"
proof -
  have ended: "gr_coord g = C_End" and phase: "hst_phase (gr_status g) = outcome_phase outcome"
    using terminal_end [OF reach_phase_ok [OF assms(1)] assms(2)] by simp_all
  have verdict: "verdict_ok g outcome" and clean: "clean_ok g"
    using reach_outcome_ok [OF assms(1)] assms(2) ended by (simp_all add: outcome_ok_def)
  have component: "bt_get (hst_components (gr_status g)) (name_of g i) = Some \<lparr>cst_phase = Component_Stopped, cst_error = None\<rparr>"
    if "outcome = Outcome_Stopped" "i < length (gr_bindings g)" "joined g i" for i
  proof -
    have "clean_component True (bt_get (hst_components (gr_status g)) (name_of g i))"
      using clean assms(2) ended that by (auto simp: clean_ok_def no_failure_def)
    then show ?thesis
      by (cases "bt_get (hst_components (gr_status g)) (name_of g i)") (auto simp: clean_component_def)
  qed
  show ?thesis
    using verdict phase component by (auto simp: verdict_ok_def split: HostOutcome.splits)
qed

theorem outcome_sound_witness:
  "group_reach True ex_ended \<and> gr_terminal ex_ended = Some Outcome_Stopped \<and> hst_phase (gr_status ex_ended) = HostPhase_Stopped
    \<and> wk_pc (gr_workers ex_ended ! 0) = W_Joined \<and> wk_pc (gr_workers ex_ended ! 1) = W_Joined"
  using outcome_sound [OF ex_ended_reach ex_ended_state(1)] ex_ended_reach ex_ended_state
  by (simp add: outcome_phase_def)

text \<open>The terminal state is final: once a group has published its outcome, nothing that happens afterwards, not even a task that was given
  up as unresponsive and goes on, changes the outcome or the status.\<close>

theorem terminal_final:
  assumes "group_reach is_local g" and "gr_terminal g = Some outcome" and "group_step\<^sup>*\<^sup>* g g'"
  shows "gr_terminal g' = Some outcome \<and> gr_status g' = gr_status g"
  using ended_steps [OF assms(3,1)] terminal_end [OF reach_phase_ok [OF assms(1)] assms(2)] assms(2) by simp

theorem terminal_final_witness:
  "gr_terminal ex_ended = Some Outcome_Stopped \<and> group_step\<^sup>*\<^sup>* ex_ended (with_controller Ctl_Gone ex_ended)
    \<and> gr_terminal (with_controller Ctl_Gone ex_ended) = Some Outcome_Stopped"
proof -
  have step: "group_step\<^sup>*\<^sup>* ex_ended (with_controller Ctl_Gone ex_ended)"
    using group_step.Controller [OF controller_step.Await_terminal [OF ex_ended_state(3)]] ex_ended_state(1) by simp
  then show ?thesis
    using terminal_final [OF ex_ended_reach ex_ended_state(1) step] ex_ended_state(1) by simp
qed

text \<open>The event queue never fills: its capacity of three events per component is enough, so a task that has an event to send (a failure to
  open, the opened context, its ticket, an interruption) finds room at once.\<close>

theorem events_never_full:
  assumes "group_reach is_local g" and "i < length (gr_workers g)"
    and "case wk_pc (gr_workers g ! i) of W_Open_failed e \<Rightarrow> True | W_Opened \<Rightarrow> True | W_Announce t \<Rightarrow> True | W_Finish h r \<Rightarrow> True | _ \<Rightarrow> False"
  shows "room (group_view g)"
proof -
  have "sent (wk_pc (gr_workers g ! i)) \<le> 2"
    using assms(3) by (simp add: sent_def hook_sent_def split: Worker_pc.splits)
  moreover have "all_sent ((gr_workers g)[i := (gr_workers g ! i)\<lparr>wk_pc := W_Joined\<rparr>]) + sent (wk_pc (gr_workers g ! i))
      = all_sent (gr_workers g) + 3"
    using all_sent_update [OF assms(2), of "(gr_workers g ! i)\<lparr>wk_pc := W_Joined\<rparr>"] by (simp add: sent_def)
  ultimately show ?thesis
    using all_sent_le [of "(gr_workers g)[i := (gr_workers g ! i)\<lparr>wk_pc := W_Joined\<rparr>]"] reach_queue_ok [OF assms(1)]
    by (simp add: queue_ok_def room_def group_view_def)
qed

theorem events_never_full_witness:
  "group_reach True ex_sending \<and> wk_pc (gr_workers ex_sending ! 0) = W_Opened \<and> room (group_view ex_sending)"
  using events_never_full [OF ex_sending_reach, of 0] ex_sending_reach ex_sending_state by simp

end
