(* ===== verification/Spec2Isabelle.thy ===== *)
theory Spec2Isabelle
  imports Wire_Correct Link_Correct Link_Session Bindings_Correct Step_Correct Job_Correct Session_Correct Channel_Correct Process_Correct Client_Correct Managed_Correct Host_Correct
begin

text \<open>
  \<^bold>\<open>reiny, verified.\<close> reiny is a Rust SDK for systems of communicating modules. A module declares named
  ports; a deployment wires them, checks the compiled modules against the wiring and starts them; some
  modules are advanced in logical time by a step scheduler; some start application jobs; and devices
  without an operating system take part over a point-to-point link. This development models the parts of
  it that carry its own logic and have no operating system or network under them, and proves what each
  part promises.

  \<^bold>\<open>The parts and how they interact.\<close>

  \<^item> The link protocol (\<^verbatim>\<open>crates/reiny-link/src/wire.rs\<close>, \<^verbatim>\<open>link.rs\<close>): frames and the Hello table on the
    wire, and the state machine each end runs. Two ends exchange a Hello, each checks the other's table
    against its own declarations, and from then on Data, Requests and Replies pass under that contract.
  \<^item> The bindings (\<^verbatim>\<open>crates/reiny-core/src/bindings.rs\<close>, \<^verbatim>\<open>bindings/report.rs\<close>): the contracts of a
    module's ports, the report a compiled module gives of itself, and the validators that admit
    bindings, reports and closed graphs of modules.
  \<^item> The step engine (\<^verbatim>\<open>crates/reiny/src/step/*.rs\<close>, \<^verbatim>\<open>encoded.rs\<close>): graphs of step nodes, their
    compilation into an execution order, and the scheduler that commits one tick at a time or faults.
    It uses the semantics validator of the bindings.
  \<^item> The managed step session (\<^verbatim>\<open>crates/reiny/src/component/step.rs\<close>, \<^verbatim>\<open>component/deadline.rs\<close>,
    \<^verbatim>\<open>component/step/{control,control/admission,driver,session}.rs\<close>): handles start runs, holders cancel
    them, the host stops, and a driver advances the scheduler; one gate orders them all.
  \<^item> The host-control channel (\<^verbatim>\<open>crates/reiny-core/src/host_protocol/*.rs\<close>,
    \<^verbatim>\<open>crates/reiny/src/component/process/{codec,connection}.rs\<close>, \<^verbatim>\<open>step_owner/channel.rs\<close>): frames and envelopes
    between the owner of a deployment and the processes that host its components.
  \<^item> Process step sessions (\<^verbatim>\<open>crates/reiny/src/component/process/step*.rs\<close>, \<^verbatim>\<open>steps*.rs\<close>, \<^verbatim>\<open>step_owner*.rs\<close>):
    a step session whose nodes run on several hosts. The owner checks the plan and the assignments,
    collects what the hosts prepared, resolves and binds the plan; every host checks it again and then
    accepts the calls of the owner's scheduler and no others; a client numbers the requests.
  \<^item> Managed modules (\<^verbatim>\<open>crates/reiny/src/managed.rs\<close>, \<^verbatim>\<open>managed/*.rs\<close>, \<^verbatim>\<open>shutdown.rs\<close>,
    \<^verbatim>\<open>runtime/startup.rs\<close>): the context of one running module, the ports it opens under its bindings, the
    report it builds of itself, its readiness, the lease by which a host admits it, and the children it owns.
  \<^item> The component host (\<^verbatim>\<open>crates/reiny/src/component/{mod,host,options,status,staged,handle}.rs\<close>,
    \<^verbatim>\<open>coordinator*\<close>, \<^verbatim>\<open>worker*\<close>): a group of managed modules in one process. A task per component opens, prepares
    and runs it; a coordinator collects the tickets of all, publishes their reports, commits, releases, serves
    and cleans up; a controller, local or remote, validates the reports and drives the stages.
  \<^item> Application jobs (\<^verbatim>\<open>crates/reiny/src/job/*.rs\<close>): the snapshot of a job, the races between
    progress, cancellation and completion, and the owner that starts and joins workers.

  \<^bold>\<open>Theories and code.\<close>

  \<^item> \<^verbatim>\<open>Prelude\<close>: results as sums (\<open>Inl\<close> is \<open>Err\<close>), machine integers as words, the little-endian codecs,
    UTF-8 validity, buffers updated in place, and \<open>BTreeMap\<close> as a strictly sorted association list. The
    laws of ordered maps are the locale \<open>ordered_map\<close>, interpreted on that list as \<open>bt\<close>.
  \<^item> \<^verbatim>\<open>Wire\<close> translates \<^verbatim>\<open>wire.rs\<close>: \<open>seal\<close>, \<open>parse\<close>, \<open>encode\<close>, \<open>decode_in_place\<close>, the hashes, and the
    reader and writer of the Hello table. CRC and COBS are the crates \<^verbatim>\<open>crc\<close> and \<^verbatim>\<open>cobs\<close>: a record of
    functions, with what is relied on in the locale \<open>cobs_codec\<close> (\<^verbatim>\<open>Wire_Frames\<close>), which
    \<^verbatim>\<open>Reference_Codec\<close> interprets with Consistent Overhead Byte Stuffing as published. \<^verbatim>\<open>Wire_Hello\<close>
    holds the lemmas on the table, \<^verbatim>\<open>Wire_Correct\<close> the properties: round trips, and that the parsers
    accept nothing but what the writers produce.
  \<^item> \<^verbatim>\<open>Link\<close> translates \<^verbatim>\<open>link.rs\<close>, every method of \<open>Link\<close> as a function on the record \<open>Link\<close>.
    \<^verbatim>\<open>Link_Send\<close> and \<^verbatim>\<open>Link_Receive\<close> describe the two halves, the latter by refinement of a receiver that
    takes one byte at a time; \<^verbatim>\<open>Link_Invariant\<close> proves the invariant over everything a program can call;
    \<^verbatim>\<open>Link_Delivery\<close> follows a frame from one end to the other; \<^verbatim>\<open>Link_Contract\<close> says what an accepted
    Hello guarantees; \<^verbatim>\<open>Link_Example\<close> is a pair of concrete links; \<^verbatim>\<open>Link_Correct\<close> and \<^verbatim>\<open>Link_Session\<close>
    hold the properties: delivery, contracts, correlation of replies, the stream interface, connecting,
    rejecting and timing out, and the life of frame handles.
  \<^item> \<^verbatim>\<open>Bindings\<close> and \<^verbatim>\<open>Bindings_Report\<close> translate the validators, error by error and in the source's
    order; the loops that refuse duplicates share the locale \<open>unique_loop\<close>. \<^verbatim>\<open>Bindings_Correct\<close> shows
    that each accepts exactly its specification (\<open>bindings_ok\<close>, \<open>report_ok\<close>, \<open>graph_ok\<close>), which error
    comes first, and that none panics.
  \<^item> \<^verbatim>\<open>Step_Data\<close>, \<^verbatim>\<open>Step_Plan\<close> and \<^verbatim>\<open>Step_Scheduler\<close> translate the step engine; \<^verbatim>\<open>Step_Invariant\<close> and
    \<^verbatim>\<open>Step_Advance\<close> hold its invariant and the outcomes of an advancement; \<^verbatim>\<open>Step_Correct\<close> the
    properties: which graphs compile, in the least order; what a committed tick changes and a failed one
    does not; which values reach which node, in this tick and through a delay; which requests are taken.
  \<^item> \<^verbatim>\<open>Step_Gate\<close> translates the gate, admission and the driver, one function per critical section, and
    composes them in the step relation \<open>sys_step\<close>, in which everything between two critical sections
    may interleave. \<^verbatim>\<open>Step_Session\<close> proves its invariant rule by rule; \<^verbatim>\<open>Session_Correct\<close> holds the
    properties: gate, queue, driver and scheduler agree; a cancellation or stop that was acknowledged is
    never overtaken by a success; a success is one atomic move and final.
  \<^item> \<^verbatim>\<open>Host_Channel\<close> translates frames, envelopes, the codec (the JSON library is a record of functions) and
    the readers and writers of both ends; \<^verbatim>\<open>Channel_Correct\<close> shows that what one end sends the other gets,
    whole, once and in order, however the stream is cut, and that nothing is replayed.
  \<^item> \<^verbatim>\<open>Process_Wire\<close> translates the wire form of step data and plans (\<^verbatim>\<open>step_wire.rs\<close>, \<^verbatim>\<open>step_plan.rs\<close>),
    \<^verbatim>\<open>Process_Replay\<close> the replay guard (\<^verbatim>\<open>step_replay.rs\<close>), \<^verbatim>\<open>Process_Admission\<close> registries, assignments and
    binding on both sides, \<^verbatim>\<open>Process_Prepare\<close> the collection of reports, \<^verbatim>\<open>Process_Remote\<close> the execution of one
    call on both sides, through the channels of \<^verbatim>\<open>Host_Channel\<close>, and \<^verbatim>\<open>Process_Client\<close> the client.
    \<^verbatim>\<open>Process_Exchange\<close> shows that a call whose frames fit the limit is answered over an intact connection, and that
    one that does not fit is lost; \<^verbatim>\<open>Process_Transparent\<close> follows a tick over the hosts
    node by node against the same tick in one process, \<^verbatim>\<open>Process_Placement\<close> lifts that to a session from its
    preparation on, \<^verbatim>\<open>Process_Codec\<close> is a concrete encoding of the messages for the example, and \<^verbatim>\<open>Process_Correct\<close> and \<^verbatim>\<open>Client_Correct\<close> hold the properties: where the nodes run makes no
    difference as long as every message fits a frame; a host accepts exactly its owner's calls; plans survive the wire; what was prepared has the
    declared types and a resolved plan compiles; a request is executed at most once; what is kept is bounded.
  \<^item> \<^verbatim>\<open>Managed\<close> translates contexts, ports, reports, readiness, admission and owned children, with the step
    relation \<open>module_step\<close> over everything that can happen to a context; \<^verbatim>\<open>Managed_Report\<close> says when a report can
    be built; \<^verbatim>\<open>Managed_Correct\<close> holds the properties: a report that is built is valid, a ready module is covered by
    live handles, what decides a commit, and that a lost handle ends readiness for good.
  \<^item> \<^verbatim>\<open>Host_Status\<close> translates the data of the component host, its registry, the static validation and the local
    validation of reports; \<^verbatim>\<open>Host_Worker\<close> the task of a component as \<open>worker_step\<close>; \<^verbatim>\<open>Host_Group\<close> coordinator and
    controller as \<open>coord_step\<close> and \<open>controller_step\<close>, and their interleaving with everything around them as
    \<open>group_step\<close>. Positions between two accesses to shared state are program counters, and the branches of a
    biased \<open>select!\<close> are polled one by one. \<^verbatim>\<open>Host_Invariant\<close> counts events and follows the final phase,
    \<^verbatim>\<open>Host_Shape\<close> says which component is which, \<^verbatim>\<open>Host_Barrier\<close> how far the admission has come, \<^verbatim>\<open>Host_Outcome\<close>
    what is known at the end; \<^verbatim>\<open>Host_Example\<close> runs a group of two components by an executable schedule, and
    shows a failure that is sent in the last round of the cleanup and never recorded;
    \<^verbatim>\<open>Host_Correct\<close> holds the properties: no run hook before the whole group is admitted, an outcome that agrees
    with the tasks that were joined and with the errors that were recorded, a final terminal state, and an event queue that never fills.
  \<^item> \<^verbatim>\<open>Job\<close> translates jobs and their owner, with the step relation \<open>job_step\<close> over all interleavings;
    \<^verbatim>\<open>Job_Correct\<close> holds the properties: the invariant, the single terminal result, and shutdown.

  \<^bold>\<open>Conventions.\<close> Every integer has the width the source gives it, and wraps, saturates or is checked as
  there; lengths and indices are \<open>nat\<close>. A panic of the source (an index out of range, an absent key) is a
  value of the model (\<open>Panic\<close>, \<open>Abort_Panic\<close>, \<open>Unwound\<close>), and that it does not occur is a theorem. Loops
  are structural recursions or recursions with a measure; there is no fuel. Node executors, message
  codecs, checksums, clock readings, task scheduling and the completion of awaited tasks are arguments of
  the definitions or choices of the step relations. An \<open>Instant\<close> is a number of nanoseconds up to a bound
  that is an argument, since the platform chooses it.

  \<^bold>\<open>What the model leaves out of these parts.\<close> Waking waiters and reference counting (they change no state
  that is modelled), the formatting of error messages where no caller reads them, and the typed
  conveniences that only wrap the functions modelled here.

  \<^bold>\<open>Not modelled.\<close> The transports and engines (\<^verbatim>\<open>crates/reiny/src/engine\<close>, \<^verbatim>\<open>pubsub.rs\<close>, \<^verbatim>\<open>service.rs\<close>,
  \<^verbatim>\<open>runtime.rs\<close>, \<^verbatim>\<open>bridge.rs\<close>, \<^verbatim>\<open>reiny-iceoryx2\<close>, \<^verbatim>\<open>reiny-ros2\<close>, and \<^verbatim>\<open>host.rs\<close>, \<^verbatim>\<open>transport.rs\<close> and
  \<^verbatim>\<open>engine.rs\<close> of the link), which pass bytes to Zenoh, iceoryx2, ROS 2, sockets and serial lines; the
  sessions of a host process with its owner beside their step sessions
  (\<^verbatim>\<open>component/process/{session,preparation,placement,terminal}.rs\<close>, \<^verbatim>\<open>component/step/launch.rs\<close>), which authenticate
  over inherited pipes and supervise processes: a group under them is the group modelled here with a remote
  controller, which may send anything; the resolution of artifacts and the supervision of child processes of a
  module; the launcher and the command line (\<^verbatim>\<open>reiny-launch\<close>, \<^verbatim>\<open>reiny-cli\<close>), which are mostly file system and
  process control, though the composition of modules in the launcher has logic of its own; the code generators
  (\<^verbatim>\<open>reiny-build\<close>, \<^verbatim>\<open>reiny-macros\<close>) with the schema fingerprint; the foreign-function interface and the bindings of
  other languages.
\<close>

end
